(* ===== verification/Js_Prelude.thy ===== *)
theory Js_Prelude
  imports Main "HOL-Library.Char_ord" "HOL-Library.List_Lexorder" "HOL-Library.AList" "HOL-Library.Multiset"
begin

text \<open>
  What the TypeScript sources take from the language and its standard library, shared by
  every component: insertion-ordered sets and maps, stable sorting by a comparison, and the
  string operations. A JavaScript string is a \<^typ>\<open>string\<close>, one \<^typ>\<open>char\<close> per code unit;
  the few characters of the source's literals outside ASCII are written by their
  Windows-1252 code, one unit each, as UTF-16 counts them.
\<close>

section \<open>Hint collections\<close>

named_theorems js_simps \<open>rewrite rules of the standard-library model\<close>
named_theorems guard_defs \<open>unfoldings of the guards and small helpers of the components\<close>

section \<open>Sets and maps in insertion order\<close>

text \<open>\<open>[...new Set(xs)]\<close>: the first occurrence of each element, in order.\<close>

definition js_set :: "'a list \<Rightarrow> 'a list" where
  "js_set xs = rev (remdups (rev xs))"

lemma set_js_set [simp]: "set (js_set xs) = set xs"
  by (simp add: js_set_def)

lemma distinct_js_set [simp]: "distinct (js_set xs)"
  by (simp add: js_set_def)

lemma js_set_Nil [simp]: "js_set [] = []"
  by (simp add: js_set_def)

lemma js_set_eq_Nil [simp]: "js_set xs = [] \<longleftrightarrow> xs = []"
  by (simp add: js_set_def)

lemma js_set_distinct: "distinct xs \<Longrightarrow> js_set xs = xs"
  by (simp add: js_set_def distinct_remdups_id)

lemma length_js_set: "length (js_set xs) = card (set xs)"
  by (simp add: js_set_def length_remdups_card_conv)

text \<open>\<open>s.add(x)\<close>.\<close>

definition js_add :: "'a \<Rightarrow> 'a list \<Rightarrow> 'a list" where
  "js_add x s = (if x \<in> set s then s else s @ [x])"

lemma set_js_add [simp]: "set (js_add x s) = insert x (set s)"
  by (auto simp: js_add_def)

lemma distinct_js_add [simp]: "distinct s \<Longrightarrow> distinct (js_add x s)"
  by (simp add: js_add_def)

definition js_add_all :: "'a list \<Rightarrow> 'a list \<Rightarrow> 'a list" where
  "js_add_all xs s = foldl (\<lambda>s x. js_add x s) s xs"

lemma set_js_add_all [simp]: "set (js_add_all xs s) = set xs \<union> set s"
  by (induction xs arbitrary: s) (auto simp: js_add_all_def)

lemma distinct_js_add_all [simp]: "distinct s \<Longrightarrow> distinct (js_add_all xs s)"
  by (induction xs arbitrary: s) (auto simp: js_add_all_def)

text \<open>
  A \<open>Map\<close> is an association list in insertion order: \<open>set\<close> overwrites in place or
  appends, as \<^const>\<open>AList.update\<close> does. \<open>js_map f xs\<close> is
  \<open>new Map(xs.map((x) => [f(x), x]))\<close>.
\<close>

definition js_map :: "('a \<Rightarrow> 'k) \<Rightarrow> 'a list \<Rightarrow> ('k \<times> 'a) list" where
  "js_map f xs = foldl (\<lambda>m x. AList.update (f x) x m) [] xs"

lemma js_map_snoc: "js_map f (xs @ [x]) = AList.update (f x) x (js_map f xs)"
  by (simp add: js_map_def)

lemma dom_js_map: "fst ` set (js_map f xs) = f ` set xs"
  by (induction xs rule: rev_induct) (auto simp: js_map_snoc dom_update, simp add: js_map_def)

lemma distinct_js_map: "distinct (map fst (js_map f xs))"
  by (induction xs rule: rev_induct) (simp_all add: js_map_snoc distinct_update, simp add: js_map_def)

lemma alist_update_keyed:
  "(\<forall>(k, x)\<in>set m. k = f x \<and> x \<in> A) \<Longrightarrow> x \<in> A \<Longrightarrow>
   \<forall>(k, y)\<in>set (AList.update (f x) x m). k = f y \<and> y \<in> A"
  by (induction m) auto

lemma js_map_keyed: "\<forall>(k, x)\<in>set (js_map f xs). k = f x \<and> x \<in> set xs"
proof (induction xs rule: rev_induct)
  case Nil
  show ?case by (simp add: js_map_def)
next
  case (snoc x xs)
  then have "\<forall>(k, y)\<in>set (js_map f xs). k = f y \<and> y \<in> set (xs @ [x])" by auto
  then show ?case unfolding js_map_snoc by (rule alist_update_keyed) simp
qed

lemma set_js_map_values: "set (map snd (js_map f xs)) \<subseteq> set xs"
  using js_map_keyed [of f xs] by auto

lemma js_map_values_keys: "map f (map snd (js_map f xs)) = map fst (js_map f xs)"
  using js_map_keyed [of f xs] by auto

lemma distinct_js_map_values: "distinct (map f (map snd (js_map f xs)))"
  unfolding js_map_values_keys by (rule distinct_js_map)

lemma keys_js_map_values: "f ` set (map snd (js_map f xs)) = f ` set xs"
  by (metis dom_js_map js_map_values_keys list.set_map)

lemma map_of_js_map: "map_of (js_map f xs) k = Some x \<Longrightarrow> f x = k \<and> x \<in> set xs"
  using js_map_keyed [of f xs] map_of_SomeD by fastforce

lemma map_of_js_map_None: "map_of (js_map f xs) k = None \<longleftrightarrow> k \<notin> f ` set xs"
  by (simp add: map_of_eq_None_iff dom_js_map)

lemma alist_update_new: "k \<notin> fst ` set m \<Longrightarrow> AList.update k v m = m @ [(k, v)]"
  by (induction m) auto

lemma alist_update_in: "x \<in> set (AList.update k v m) \<Longrightarrow> x = (k, v) \<or> x \<in> set m"
  by (induction m) (auto split: if_splits)

lemma js_map_values_id: "distinct (map f xs) \<Longrightarrow> map snd (js_map f xs) = xs"
proof (induction xs rule: rev_induct)
  case Nil
  show ?case by (simp add: js_map_def)
next
  case (snoc x xs)
  then have "f x \<notin> fst ` set (js_map f xs)" by (simp add: dom_js_map)
  then have "AList.update (f x) x (js_map f xs) = js_map f xs @ [(f x, x)]"
    by (rule alist_update_new)
  with snoc show ?case by (simp add: js_map_snoc)
qed

section \<open>Stable sorting\<close>

text \<open>
  \<open>xs.sort(cmp)\<close> is stable; \<open>le x y\<close> stands for \<open>cmp(x, y) <= 0\<close>. Strings compared with
  \<open>localeCompare\<close> use the run-time's collation, which stays a parameter \<open>le\<close>; the
  default \<open>sort()\<close> on strings compares code units, which is \<^term>\<open>sort :: string list \<Rightarrow> string list\<close>.
\<close>

fun insert_le :: "('a \<Rightarrow> 'a \<Rightarrow> bool) \<Rightarrow> 'a \<Rightarrow> 'a list \<Rightarrow> 'a list" where
  "insert_le le x [] = [x]"
| "insert_le le x (y # ys) = (if le x y then x # y # ys else y # insert_le le x ys)"

definition sort_le :: "('a \<Rightarrow> 'a \<Rightarrow> bool) \<Rightarrow> 'a list \<Rightarrow> 'a list" where
  "sort_le le xs = foldr (insert_le le) xs []"

lemma mset_insert_le [simp]: "mset (insert_le le x xs) = add_mset x (mset xs)"
  by (induction xs) auto

lemma mset_sort_le [simp]: "mset (sort_le le xs) = mset xs"
  by (induction xs) (auto simp: sort_le_def)

lemma set_insert_le [simp]: "set (insert_le le x xs) = insert x (set xs)"
  by (metis mset_insert_le set_mset_add_mset_insert set_mset_mset)

lemma set_sort_le [simp]: "set (sort_le le xs) = set xs"
  by (metis mset_sort_le set_mset_mset)

lemma length_sort_le [simp]: "length (sort_le le xs) = length xs"
  by (metis mset_sort_le size_mset)

lemma distinct_sort_le [simp]: "distinct (sort_le le xs) = distinct xs"
  by (metis mset_sort_le mset_eq_imp_distinct_iff)

lemma distinct_map_sort_le [simp]: "distinct (map f (sort_le le xs)) = distinct (map f xs)"
  by (metis mset_sort_le mset_map mset_eq_imp_distinct_iff)

lemma sort_le_Nil [simp]: "sort_le le [] = []"
  by (simp add: sort_le_def)

text \<open>The comparison's contract: a total preorder. Under it the result is sorted.\<close>

locale collation =
  fixes le :: "'a \<Rightarrow> 'a \<Rightarrow> bool"
  assumes total: "le x y \<or> le y x"
    and trans: "le x y \<Longrightarrow> le y z \<Longrightarrow> le x z"
begin

lemma sorted_insert_le: "sorted_wrt le xs \<Longrightarrow> sorted_wrt le (insert_le le x xs)"
proof (induction xs)
  case (Cons y ys)
  then show ?case using total [of x y] by (auto intro: trans)
qed simp

lemma sorted_sort_le: "sorted_wrt le (sort_le le xs)"
  by (induction xs) (auto simp: sort_le_def intro: sorted_insert_le)

lemma sort_le_id: "sorted_wrt le xs \<Longrightarrow> sort_le le xs = xs"
proof (induction xs)
  case (Cons x xs)
  then have "sort_le le (x # xs) = insert_le le x xs" by (simp add: sort_le_def)
  with Cons.prems show ?case by (cases xs) auto
qed simp

end

lemma collation_key: "collation le \<Longrightarrow> collation (\<lambda>x y. le (f x) (f y))"
  by (auto simp: collation_def)

text \<open>The code-unit order of \<^typ>\<open>string\<close> is one such comparison, also through a key.\<close>

interpretation code_units: collation "\<lambda>x y. (f x :: string) \<le> f y" for f
  by unfold_locales auto

lemma collation_code_units: "collation ((\<le>) :: string \<Rightarrow> string \<Rightarrow> bool)"
  by unfold_locales auto

end
