(* ===== verification/Js_Values.thy ===== *)
theory Js_Values
  imports Js_Prelude
begin

text \<open>
  Strings and dynamically typed values: splitting, joining and trimming, ASCII case, decimal
  rendering, and the JSON-like values that claims, job payloads and resource rows arrive as.
\<close>

section \<open>Strings\<close>

text \<open>\<open>s.split(c)\<close> for a one-character separator: never empty.\<close>

fun split_on :: "char \<Rightarrow> string \<Rightarrow> string list" where
  "split_on c [] = [[]]"
| "split_on c (x # xs) =
     (if x = c then [] # split_on c xs
      else (case split_on c xs of [] \<Rightarrow> [[x]] | p # ps \<Rightarrow> (x # p) # ps))"

text \<open>\<open>ps.join(sep)\<close>.\<close>

fun join_with :: "string \<Rightarrow> string list \<Rightarrow> string" where
  "join_with sep [] = []"
| "join_with sep [p] = p"
| "join_with sep (p # q # ps) = p @ sep @ join_with sep (q # ps)"

definition is_space :: "char \<Rightarrow> bool" where
  "is_space c \<longleftrightarrow> (let k = of_char c :: nat in k = 32 \<or> 9 \<le> k \<and> k \<le> 13 \<or> k = 160)"

definition trim :: "string \<Rightarrow> string" where
  "trim s = rev (dropWhile is_space (rev (dropWhile is_space s)))"

definition lower_char :: "char \<Rightarrow> char" where
  "lower_char c = (let k = of_char c :: nat in if 65 \<le> k \<and> k \<le> 90 then char_of (k + 32) else c)"

definition lower :: "string \<Rightarrow> string" where
  "lower s = map lower_char s"

definition upper_char :: "char \<Rightarrow> char" where
  "upper_char c = (let k = of_char c :: nat in if 97 \<le> k \<and> k \<le> 122 then char_of (k - 32) else c)"

definition upper :: "string \<Rightarrow> string" where
  "upper s = map upper_char s"

definition starts_with :: "string \<Rightarrow> string \<Rightarrow> bool" where
  "starts_with p s \<longleftrightarrow> take (length p) s = p"

definition ends_with :: "string \<Rightarrow> string \<Rightarrow> bool" where
  "ends_with p s \<longleftrightarrow> length p \<le> length s \<and> drop (length s - length p) s = p"

fun contains :: "string \<Rightarrow> string \<Rightarrow> bool" where
  "contains p [] \<longleftrightarrow> p = []"
| "contains p (x # xs) \<longleftrightarrow> take (length p) (x # xs) = p \<or> contains p xs"

definition digit_char :: "nat \<Rightarrow> char" where
  "digit_char d = char_of (48 + d)"

definition is_digit :: "char \<Rightarrow> bool" where
  "is_digit c \<longleftrightarrow> (let k = of_char c :: nat in 48 \<le> k \<and> k \<le> 57)"

function show_nat :: "nat \<Rightarrow> string" where
  "show_nat n = (if n < 10 then [digit_char n] else show_nat (n div 10) @ [digit_char (n mod 10)])"
  by auto
termination by (relation "measure id") auto

declare show_nat.simps [simp del]

definition show_int :: "int \<Rightarrow> string" where
  "show_int i = (if i < 0 then CHR ''-'' # show_nat (nat (- i)) else show_nat (nat i))"

definition digit_val :: "char \<Rightarrow> nat" where
  "digit_val c = of_char c - 48"

definition nat_of_digits :: "string \<Rightarrow> nat" where
  "nat_of_digits s = foldl (\<lambda>n c. 10 * n + digit_val c) 0 s"

lemma split_on_not_Nil [simp]: "split_on c s \<noteq> []"
  by (cases s) (auto split: list.splits)

lemma split_on_none: "c \<notin> set s \<Longrightarrow> split_on c s = [s]"
  by (induction s) auto

lemma split_on_append: "c \<notin> set s \<Longrightarrow> split_on c (s @ c # t) = s # split_on c t"
  by (induction s) auto

lemma join_split: "join_with [c] (split_on c s) = s"
proof (induction s)
  case (Cons x xs)
  obtain p ps where "split_on c xs = p # ps" by (cases "split_on c xs") auto
  with Cons show ?case by (cases ps) auto
qed simp

lemma split_join:
  "ps \<noteq> [] \<Longrightarrow> \<forall>p\<in>set ps. c \<notin> set p \<Longrightarrow> split_on c (join_with [c] ps) = ps"
proof (induction ps)
  case (Cons p ps)
  then show ?case by (cases ps) (auto simp: split_on_none split_on_append)
qed simp

lemma split_on_parts: "p \<in> set (split_on c s) \<Longrightarrow> c \<notin> set p"
proof (induction s arbitrary: p)
  case (Cons x xs)
  obtain q qs where "split_on c xs = q # qs" by (cases "split_on c xs") auto
  with Cons show ?case by (auto split: if_splits)
qed simp

lemma dropWhile_none: "\<forall>x\<in>set xs. \<not> P x \<Longrightarrow> dropWhile P xs = xs"
  by (cases xs) auto

lemma trim_id: "\<forall>c\<in>set s. \<not> is_space c \<Longrightarrow> trim s = s"
  by (simp add: trim_def dropWhile_none)

lemma set_trim: "set (trim s) \<subseteq> set s"
  by (auto simp: trim_def dest!: set_dropWhileD)

lemma trim_space: "\<forall>c\<in>set s. \<not> is_space c \<Longrightarrow> trim (CHR '' '' # s) = s"
  using trim_id [of s] by (simp add: trim_def is_space_def)

lemma digit_val_char: "d < 10 \<Longrightarrow> digit_val (digit_char d) = d"
  by (simp add: digit_val_def digit_char_def)

lemma is_digit_char: "d < 10 \<Longrightarrow> is_digit (digit_char d)"
  by (simp add: is_digit_def digit_char_def)

lemma show_nat_digits: "\<forall>c\<in>set (show_nat n). is_digit c"
proof (induction n rule: show_nat.induct)
  case (1 n)
  then show ?case by (subst show_nat.simps) (simp add: is_digit_char)
qed

lemma nat_of_show_nat: "nat_of_digits (show_nat n) = n"
proof (induction n rule: show_nat.induct)
  case (1 n)
  show ?case
  proof (cases "n < 10")
    case True
    then show ?thesis by (subst show_nat.simps) (simp add: nat_of_digits_def digit_val_char)
  next
    case False
    have "nat_of_digits (show_nat n) = 10 * nat_of_digits (show_nat (n div 10)) + digit_val (digit_char (n mod 10))"
      using False by (subst show_nat.simps) (simp add: nat_of_digits_def)
    also have "\<dots> = n" using 1 [OF False] by (simp add: digit_val_char)
    finally show ?thesis .
  qed
qed

lemma show_nat_inj: "show_nat m = show_nat n \<longleftrightarrow> m = n"
  by (metis nat_of_show_nat)

lemma show_nat_not_Nil [simp]: "show_nat n \<noteq> []"
  by (subst show_nat.simps) simp

lemma show_int_inj: "show_int i = show_int j \<longleftrightarrow> i = j"
proof -
  have minus: "CHR ''-'' \<notin> set (show_nat n)" for n
    using show_nat_digits [of n] by (auto simp: is_digit_def)
  have "show_nat m \<noteq> CHR ''-'' # s" for m s using minus [of m] by (metis list.set_intros(1))
  then show ?thesis by (auto simp: show_int_def show_nat_inj dest: sym)
qed

section \<open>Dynamic values\<close>

text \<open>Numbers are the integers: no source modelled here computes with a fraction of one.\<close>

datatype js =
    JUndef
  | JNull
  | JBool bool
  | JNum int
  | JStr string
  | JArr "js list"
  | JObj "(string \<times> js) list"

type_synonym js_object = "(string \<times> js) list"

definition truthy :: "js \<Rightarrow> bool" where
  "truthy v = (case v of
      JUndef \<Rightarrow> False | JNull \<Rightarrow> False | JBool b \<Rightarrow> b | JNum n \<Rightarrow> n \<noteq> 0 | JStr s \<Rightarrow> s \<noteq> []
    | JArr _ \<Rightarrow> True | JObj _ \<Rightarrow> True)"

text \<open>\<open>o[k]\<close>, an own enumerable property or \<open>undefined\<close>.\<close>

definition field :: "js_object \<Rightarrow> string \<Rightarrow> js" where
  "field fs k = (case map_of fs k of None \<Rightarrow> JUndef | Some v \<Rightarrow> v)"

text \<open>\<open>v?.[k]\<close> on any value: arrays and primitives have none of the fields read here.\<close>

definition attr :: "js \<Rightarrow> string \<Rightarrow> js" where
  "attr v k = (case v of JObj fs \<Rightarrow> field fs k | _ \<Rightarrow> JUndef)"

definition nullish :: "js \<Rightarrow> bool" where
  "nullish v \<longleftrightarrow> v = JUndef \<or> v = JNull"

text \<open>\<open>a ?? b\<close> and \<open>a || b\<close>.\<close>

definition coalesce :: "js \<Rightarrow> js \<Rightarrow> js" where
  "coalesce a b = (if nullish a then b else a)"

definition js_or :: "js \<Rightarrow> js \<Rightarrow> js" where
  "js_or a b = (if truthy a then a else b)"

text \<open>\<open>String(v)\<close>; inside an array \<open>null\<close> and \<open>undefined\<close> print as nothing.\<close>

fun to_string :: "js \<Rightarrow> string" where
  "to_string JUndef = ''undefined''"
| "to_string JNull = ''null''"
| "to_string (JBool b) = (if b then ''true'' else ''false'')"
| "to_string (JNum n) = show_int n"
| "to_string (JStr s) = s"
| "to_string (JArr vs) = join_with '','' (map (\<lambda>v. if nullish v then [] else to_string v) vs)"
| "to_string (JObj fs) = ''[object Object]''"

definition as_array :: "js \<Rightarrow> js list" where
  "as_array v = (case v of JArr vs \<Rightarrow> vs | _ \<Rightarrow> [])"

definition is_string :: "js \<Rightarrow> bool" where
  "is_string v \<longleftrightarrow> (case v of JStr _ \<Rightarrow> True | _ \<Rightarrow> False)"

text \<open>\<open>{ ...base, ...extra }\<close>: a key met again keeps its place and takes the new value.\<close>

definition spread :: "js_object \<Rightarrow> js_object \<Rightarrow> js_object" where
  "spread base extra = foldl (\<lambda>m (k, v). AList.update k v m) base extra"

text \<open>The members every object inherits.\<close>

definition object_members :: "string list" where
  "object_members = [''constructor'', ''__defineGetter__'', ''__defineSetter__'', ''hasOwnProperty'',
     ''__lookupGetter__'', ''__lookupSetter__'', ''isPrototypeOf'', ''propertyIsEnumerable'', ''toString'',
     ''valueOf'', ''__proto__'', ''toLocaleString'']"

text \<open>The members an array inherits besides, its own \<open>length\<close> included.\<close>

definition array_members :: "string list" where
  "array_members = [''length'', ''at'', ''concat'', ''copyWithin'', ''entries'', ''every'', ''fill'', ''filter'', ''find'', ''findIndex'',
     ''findLast'', ''findLastIndex'', ''flat'', ''flatMap'', ''forEach'', ''includes'', ''indexOf'', ''join'', ''keys'', ''lastIndexOf'',
     ''map'', ''pop'', ''push'', ''reduce'', ''reduceRight'', ''reverse'', ''shift'', ''slice'', ''some'', ''sort'', ''splice'',
     ''toReversed'', ''toSorted'', ''toSpliced'', ''unshift'', ''values'', ''with'']"

text \<open>\<open>k in o\<close>, for an object or an array.\<close>

definition has_member :: "string \<Rightarrow> js \<Rightarrow> bool" where
  "has_member k v \<longleftrightarrow> (case v of
      JObj fs \<Rightarrow> k \<in> fst ` set fs \<or> k \<in> set object_members
    | JArr vs \<Rightarrow> k \<in> set object_members \<or> k \<in> set array_members \<or> list_ex (\<lambda>i. k = show_nat i) [0..<length vs]
    | _ \<Rightarrow> False)"

lemma truthy_simps [simp]:
  "\<not> truthy JUndef" "\<not> truthy JNull" "truthy (JBool b) = b" "truthy (JNum n) = (n \<noteq> 0)"
  "truthy (JStr s) = (s \<noteq> [])" "truthy (JArr vs)" "truthy (JObj fs)"
  by (simp_all add: truthy_def)

lemma as_array_simps [simp]:
  "as_array (JArr vs) = vs" "as_array JUndef = []" "as_array JNull = []" "as_array (JStr s) = []"
  by (simp_all add: as_array_def)

end
