(* ===== verification/Ssrf_Guard.thy ===== *)
theory Ssrf_Guard
  imports Js_Values
begin

text \<open>
  The endpoint guard (\<open>web/lib/ssrf-guard.ts\<close>): which literal hosts an administrator may
  register as an egress endpoint or as a data source. The URL parser of the platform
  (\<open>new URL\<close>) is a parameter; the guard only reads the fields it returns.
\<close>

section \<open>Recognisers\<close>

definition ipv4_blocked :: "nat \<Rightarrow> nat \<Rightarrow> bool" where
  "ipv4_blocked a b \<longleftrightarrow>
     a = 10 \<or> (a = 172 \<and> 16 \<le> b \<and> b \<le> 31) \<or> (a = 192 \<and> b = 168) \<or>
     (a = 169 \<and> b = 254) \<or> a = 127 \<or> a = 0"

text \<open>\<open>\d{1,3}\<close> between the dots: four groups of one to three digits and nothing else.\<close>

definition octet_text :: "string \<Rightarrow> bool" where
  "octet_text s \<longleftrightarrow> 1 \<le> length s \<and> length s \<le> 3 \<and> (\<forall>c\<in>set s. is_digit c)"

definition dotted_quad :: "string \<Rightarrow> bool" where
  "dotted_quad host \<longleftrightarrow>
     length (split_on CHR ''.'' host) = 4 \<and> (\<forall>p\<in>set (split_on CHR ''.'' host). octet_text p)"

definition parse_ipv4 :: "string \<Rightarrow> nat list option" where
  "parse_ipv4 host =
     (if \<not> dotted_quad host then None
      else let octets = map nat_of_digits (split_on CHR ''.'' host) in
        if \<exists>n\<in>set octets. 255 < n then None else Some octets)"

definition is_hex :: "char \<Rightarrow> bool" where
  "is_hex c \<longleftrightarrow> is_digit c \<or> (let k = of_char c :: nat in 97 \<le> k \<and> k \<le> 102)"

definition hex_val :: "char \<Rightarrow> nat" where
  "hex_val c = (if is_digit c then digit_val c else of_char c - 87)"

definition parse_hex :: "string \<Rightarrow> nat" where
  "parse_hex s = foldl (\<lambda>n c. 16 * n + hex_val c) 0 s"

definition hextet_text :: "string \<Rightarrow> bool" where
  "hextet_text s \<longleftrightarrow> 1 \<le> length s \<and> length s \<le> 4 \<and> (\<forall>c\<in>set s. is_hex c)"

definition show_quad :: "nat \<Rightarrow> nat \<Rightarrow> nat \<Rightarrow> nat \<Rightarrow> string" where
  "show_quad a b c d =
     show_nat a @ ''.'' @ show_nat b @ ''.'' @ show_nat c @ ''.'' @ show_nat d"

text \<open>
  \<open>/^2002:([0-9a-f]{1,4}):([0-9a-f]{1,4})(?::|$)/\<close> on a lower-cased host: the first group
  is \<open>2002\<close>, the next two are hextets, and a third group begins or the text ends.
\<close>

definition six_to_four :: "string \<Rightarrow> string option" where
  "six_to_four host = (case split_on CHR '':'' host of
      p # g1 # g2 # _ \<Rightarrow>
        if p = ''2002'' \<and> hextet_text g1 \<and> hextet_text g2 then
          (let h1 = parse_hex g1; h2 = parse_hex g2 in
           Some (show_quad (h1 div 256 mod 256) (h1 mod 256) (h2 div 256 mod 256) (h2 mod 256)))
        else None
    | _ \<Rightarrow> None)"

definition loopback_hostname_aliases :: "string list" where
  "loopback_hostname_aliases =
     [''localhost.localdomain'', ''ip6-localhost'', ''ip6-loopback'', ''localhost4'',
      ''localhost4.localdomain4'', ''localhost6'', ''localhost6.localdomain6'']"

definition strip_trailing_dots :: "string \<Rightarrow> string" where
  "strip_trailing_dots host = rev (dropWhile (\<lambda>c. c = CHR ''.'') (rev host))"

definition is_loopback_hostname :: "string \<Rightarrow> bool" where
  "is_loopback_hostname host = (let h = strip_trailing_dots host in
     h = ''localhost'' \<or> ends_with ''.localhost'' h \<or> h \<in> set loopback_hostname_aliases)"

text \<open>\<open>trim().replace(/^\[/, '').replace(/\]$/, '').toLowerCase()\<close>.\<close>

definition drop_bracket :: "string \<Rightarrow> string" where
  "drop_bracket s = (case s of c # cs \<Rightarrow> if c = CHR ''['' then cs else s | [] \<Rightarrow> [])"

definition drop_end_bracket :: "string \<Rightarrow> string" where
  "drop_end_bracket s = (if s \<noteq> [] \<and> last s = CHR '']'' then butlast s else s)"

definition normal_host :: "string \<Rightarrow> string" where
  "normal_host h = lower (drop_end_bracket (drop_bracket (trim h)))"

text \<open>\<open>/^f[cd][0-9a-f]*:/\<close>, \<open>/^fe[89ab][0-9a-f]*:/\<close> and \<open>/^ff[0-9a-f]{2}:/\<close>.\<close>

definition hex_then_colon :: "string \<Rightarrow> bool" where
  "hex_then_colon s \<longleftrightarrow> take 1 (dropWhile is_hex s) = '':''"

definition ula_literal :: "string \<Rightarrow> bool" where
  "ula_literal host \<longleftrightarrow>
     ((starts_with ''fc'' host \<or> starts_with ''fd'' host) \<and> hex_then_colon (drop 2 host)) \<or>
     starts_with ''fc'' host \<or> starts_with ''fd'' host"

definition link_local_literal :: "string \<Rightarrow> bool" where
  "link_local_literal host \<longleftrightarrow> starts_with ''fe'' host \<and>
     (case drop 2 host of c # cs \<Rightarrow> c \<in> set ''89ab'' \<and> hex_then_colon cs | [] \<Rightarrow> False)"

definition multicast_literal :: "string \<Rightarrow> bool" where
  "multicast_literal host \<longleftrightarrow> starts_with ''ff'' host \<and>
     (case drop 2 host of
        x # y # z # _ \<Rightarrow> is_hex x \<and> is_hex y \<and> z = CHR '':''
      | _ \<Rightarrow> False)"

text \<open>\<open>/::ffff:(\d{1,3}\.\d{1,3}\.\d{1,3}\.\d{1,3})$/\<close>: the first suffix that fits.\<close>

fun mapped_ipv4 :: "string \<Rightarrow> string option" where
  "mapped_ipv4 [] = None"
| "mapped_ipv4 (x # xs) =
     (if starts_with ''::ffff:'' (x # xs) \<and> dotted_quad (drop 7 (x # xs))
      then Some (drop 7 (x # xs)) else mapped_ipv4 xs)"

lemma digit_not_colon [simp]: "is_digit c \<Longrightarrow> c \<noteq> CHR '':''"
  by (auto simp: is_digit_def)

lemma digit_not_dot [simp]: "is_digit c \<Longrightarrow> c \<noteq> CHR ''.''"
  by (auto simp: is_digit_def)

lemma hex_not_colon [simp]: "is_hex c \<Longrightarrow> c \<noteq> CHR '':''"
  by (auto simp: is_hex_def is_digit_def)

lemma join_with_chars: "c \<in> set (join_with sep ps) \<Longrightarrow> c \<in> set sep \<or> (\<exists>p\<in>set ps. c \<in> set p)"
  by (induction sep ps rule: join_with.induct) auto

lemma dotted_quad_chars: "dotted_quad s \<Longrightarrow> c \<in> set s \<Longrightarrow> is_digit c \<or> c = CHR ''.''"
  using join_with_chars [of c "[CHR ''.'']" "split_on CHR ''.'' s"]
  by (auto simp: dotted_quad_def octet_text_def join_split)

lemma dotted_quad_no_colon: "dotted_quad s \<Longrightarrow> CHR '':'' \<notin> set s"
  using dotted_quad_chars [of s "CHR '':''"] by (auto simp: is_digit_def)

lemma mapped_ipv4_quad: "mapped_ipv4 s = Some q \<Longrightarrow> dotted_quad q"
  by (induction s) (auto split: if_splits)

lemma show_quad_no_colon: "CHR '':'' \<notin> set (show_quad a b c d)"
  using show_nat_digits by (auto simp: show_quad_def dest: digit_not_colon)

lemma six_to_four_no_colon: "six_to_four s = Some q \<Longrightarrow> CHR '':'' \<notin> set q"
  by (auto simp: six_to_four_def Let_def show_quad_no_colon split: list.splits if_splits)

lemma set_drop_bracket: "set (drop_bracket s) \<subseteq> set s"
  by (auto simp: drop_bracket_def split: list.splits)

lemma set_drop_end_bracket: "set (drop_end_bracket s) \<subseteq> set s"
  by (auto simp: drop_end_bracket_def dest: in_set_butlastD)

lemma lower_char_colon: "lower_char c = CHR '':'' \<Longrightarrow> c = CHR '':''"
proof (rule ccontr)
  assume l: "lower_char c = CHR '':''" and n: "c \<noteq> CHR '':''"
  define k where "k = (of_char c :: nat)"
  from l n have k: "k \<le> 90" and e: "(char_of (k + 32) :: char) = CHR '':''" and g: "65 \<le> k"
    by (auto simp: lower_char_def Let_def k_def split: if_splits)
  from k have "(of_char (char_of (k + 32) :: char) :: nat) = k + 32" by simp
  with e g show False by simp
qed

lemma normal_host_colon: "CHR '':'' \<in> set (normal_host h) \<Longrightarrow> CHR '':'' \<in> set h"
  using set_trim [of h] set_drop_bracket [of "trim h"] set_drop_end_bracket [of "drop_bracket (trim h)"]
  by (auto simp: normal_host_def lower_def dest!: sym [THEN lower_char_colon])

section \<open>The two host predicates\<close>

function is_blocked_host :: "string \<Rightarrow> bool" where
  "is_blocked_host h = (let host = normal_host h in
     if is_loopback_hostname host then True
     else case parse_ipv4 host of
       Some v4 \<Rightarrow> ipv4_blocked (v4 ! 0) (v4 ! 1)
     | None \<Rightarrow>
         if CHR '':'' \<in> set host then
           if host = ''::1'' \<or> host = ''0:0:0:0:0:0:0:1'' then True
           else if ula_literal host then True
           else if link_local_literal host then True
           else case mapped_ipv4 host of
             Some m \<Rightarrow> is_blocked_host m
           | None \<Rightarrow> (case six_to_four host of
               Some s2 \<Rightarrow> is_blocked_host s2
             | None \<Rightarrow> False)
         else False)"
  by auto
termination
  by (relation "measure (\<lambda>h. if CHR '':'' \<in> set h then 1 else 0)")
    (auto simp: dest: normal_host_colon dotted_quad_no_colon mapped_ipv4_quad six_to_four_no_colon)

definition ipv4_always_blocked :: "nat list \<Rightarrow> bool" where
  "ipv4_always_blocked v4 = (let a = v4 ! 0; b = v4 ! 1 in
     a = 127 \<or> (a = 169 \<and> b = 254) \<or> (224 \<le> a \<and> a \<le> 239) \<or> a = 0 \<or>
     join_with ''.'' (map show_nat v4) = ''255.255.255.255'')"

function is_always_blocked_host :: "string \<Rightarrow> bool" where
  "is_always_blocked_host h = (let host = normal_host h in
     if is_loopback_hostname host then True
     else case parse_ipv4 host of
       Some v4 \<Rightarrow> ipv4_always_blocked v4
     | None \<Rightarrow>
         if CHR '':'' \<in> set host then
           if host = ''::1'' \<or> host = ''0:0:0:0:0:0:0:1'' \<or> host = ''::'' then True
           else if host = ''fd00:ec2::254'' then True
           else if link_local_literal host then True
           else if multicast_literal host then True
           else case mapped_ipv4 host of
             Some m \<Rightarrow> is_always_blocked_host m
           | None \<Rightarrow> (case six_to_four host of
               Some s2 \<Rightarrow> is_always_blocked_host s2
             | None \<Rightarrow> False)
         else False)"
  by auto
termination
  by (relation "measure (\<lambda>h. if CHR '':'' \<in> set h then 1 else 0)")
    (auto simp: dest: normal_host_colon dotted_quad_no_colon mapped_ipv4_quad six_to_four_no_colon)

declare is_blocked_host.simps [simp del] is_always_blocked_host.simps [simp del]

section \<open>The registration guards\<close>

record url =
  u_protocol :: string
  u_hostname :: string
  u_username :: string
  u_password :: string
  u_search :: string
  u_hash :: string

datatype endpoint_error =
    Has_Backslash
  | Invalid_Url
  | Not_Https
  | Always_Blocked string
  | Private_Address string
  | Embedded_Credentials
  | Scheme_Not_Allowed string

definition assert_egress_endpoint_allowed ::
    "(string \<Rightarrow> url option) \<Rightarrow> string \<Rightarrow> bool \<Rightarrow> endpoint_error + unit" where
  "assert_egress_endpoint_allowed parse_url s allow_private =
     (if CHR 0x5C \<in> set s then Inl Has_Backslash
      else case parse_url s of
        None \<Rightarrow> Inl Invalid_Url
      | Some url \<Rightarrow>
          if u_protocol url \<noteq> ''https:'' then Inl Not_Https
          else if is_always_blocked_host (u_hostname url) then Inl (Always_Blocked (u_hostname url))
          else if is_blocked_host (u_hostname url) \<and> \<not> allow_private
            then Inl (Private_Address (u_hostname url))
          else Inr ())"

definition assert_datasource_endpoint_allowed ::
    "(string \<Rightarrow> url option) \<Rightarrow> string \<Rightarrow> endpoint_error + unit" where
  "assert_datasource_endpoint_allowed parse_url s =
     (if CHR 0x5C \<in> set s then Inl Has_Backslash
      else case parse_url s of
        None \<Rightarrow> Inl Invalid_Url
      | Some url \<Rightarrow>
          if u_username url \<noteq> [] \<or> u_password url \<noteq> [] \<or> u_search url \<noteq> [] \<or> u_hash url \<noteq> []
            then Inl Embedded_Credentials
          else if u_protocol url \<noteq> ''http:'' \<and> u_protocol url \<noteq> ''https:''
            then Inl (Scheme_Not_Allowed (u_protocol url))
          else if is_always_blocked_host (u_hostname url) then Inl (Always_Blocked (u_hostname url))
          else Inr ())"

section \<open>Dotted quads, plain and wrapped\<close>

function show_hex :: "nat \<Rightarrow> string" where
  "show_hex n =
     (if n < 16 then [''0123456789abcdef'' ! n] else show_hex (n div 16) @ [''0123456789abcdef'' ! (n mod 16)])"
  by auto
termination by (relation "measure id") auto

declare show_hex.simps [simp del]

lemma hex_digit: "d < 16 \<Longrightarrow> is_hex (''0123456789abcdef'' ! d) \<and> hex_val (''0123456789abcdef'' ! d) = d"
proof -
  have "\<forall>d\<in>set [0..<16]. is_hex (''0123456789abcdef'' ! d) \<and> hex_val (''0123456789abcdef'' ! d) = d"
    by code_simp
  then show "d < 16 \<Longrightarrow> ?thesis" by simp
qed

lemma show_hex_hex: "c \<in> set (show_hex n) \<Longrightarrow> is_hex c"
proof (induction n rule: show_hex.induct)
  case (1 n)
  then show ?case using hex_digit [of "n mod 16"] hex_digit [of n]
    by (subst (asm) (2) show_hex.simps) (auto split: if_splits)
qed

lemma parse_show_hex: "parse_hex (show_hex n) = n"
proof (induction n rule: show_hex.induct)
  case (1 n)
  show ?case
  proof (cases "n < 16")
    case True
    then show ?thesis using hex_digit [of n] by (subst show_hex.simps) (simp add: parse_hex_def)
  next
    case False
    then have "parse_hex (show_hex n) =
        16 * parse_hex (show_hex (n div 16)) + hex_val (''0123456789abcdef'' ! (n mod 16))"
      by (subst show_hex.simps) (simp add: parse_hex_def)
    then show ?thesis using 1 [OF False] hex_digit [of "n mod 16"] by simp
  qed
qed

lemma show_hex_length: "n < 16 ^ k \<Longrightarrow> 1 \<le> k \<Longrightarrow> 1 \<le> length (show_hex n) \<and> length (show_hex n) \<le> k"
proof (induction k arbitrary: n)
  case (Suc k)
  show ?case
  proof (cases "n < 16")
    case True
    then show ?thesis by (subst (1 2) show_hex.simps) simp
  next
    case False
    with Suc.prems have "n div 16 < 16 ^ k" "1 \<le> k"
      by (auto simp: less_mult_imp_div_less mult.commute) (cases k; simp)
    with Suc.IH [of "n div 16"] False show ?thesis by (subst (1 2) show_hex.simps) simp
  qed
qed simp

lemma show_hex_hextet: "n < 65536 \<Longrightarrow> hextet_text (show_hex n)"
  using show_hex_length [of n 4] show_hex_hex [of _ n] by (auto simp: hextet_text_def)

lemma show_nat_octet: "n < 256 \<Longrightarrow> octet_text (show_nat n)"
  using show_nat_digits [of n]
  by (auto simp: octet_text_def show_nat.simps [of n] show_nat.simps [of "n div 10"]
      show_nat.simps [of "n div 10 div 10"] Suc_le_eq)

lemma split_show_quad:
  "split_on CHR ''.'' (show_quad a b c d) = [show_nat a, show_nat b, show_nat c, show_nat d]"
proof -
  have "CHR ''.'' \<notin> set (show_nat n)" for n using show_nat_digits [of n] by (auto simp: is_digit_def)
  then show ?thesis by (simp add: show_quad_def split_on_append split_on_none)
qed

lemma parse_show_quad:
  "a < 256 \<Longrightarrow> b < 256 \<Longrightarrow> c < 256 \<Longrightarrow> d < 256 \<Longrightarrow>
   parse_ipv4 (show_quad a b c d) = Some [a, b, c, d]"
  by (simp add: parse_ipv4_def dotted_quad_def split_show_quad show_nat_octet nat_of_show_nat)

lemma dotted_show_quad:
  "a < 256 \<Longrightarrow> b < 256 \<Longrightarrow> c < 256 \<Longrightarrow> d < 256 \<Longrightarrow> dotted_quad (show_quad a b c d)"
  by (simp add: dotted_quad_def split_show_quad show_nat_octet)

text \<open>A text of hexadecimal digits, dots and colons is its own normal form, and no alias.\<close>

definition literal_char :: "char \<Rightarrow> bool" where
  "literal_char c \<longleftrightarrow> is_hex c \<or> c = CHR ''.'' \<or> c = CHR '':''"

lemma literal_char_props:
  assumes "literal_char c"
  shows "lower_char c = c" "\<not> is_space c" "c \<noteq> CHR ''[''" "c \<noteq> CHR '']''" "c \<noteq> CHR ''l''" "c \<noteq> CHR ''p''"
  using assms by (auto simp: literal_char_def is_hex_def is_digit_def lower_char_def is_space_def Let_def)

lemma normal_host_literal:
  assumes "\<forall>c\<in>set s. literal_char c"
  shows "normal_host s = s" "normal_host (CHR ''['' # s @ '']'') = s"
proof -
  have sp: "\<forall>c\<in>set s. \<not> is_space c" "lower s = s" "CHR ''['' \<notin> set s" "CHR '']'' \<notin> set s"
    using assms by (auto simp: lower_def literal_char_props intro: map_idI dest: literal_char_props)
  have "drop_bracket s = s" using sp by (cases s) (auto simp: drop_bracket_def)
  moreover have "s \<noteq> [] \<Longrightarrow> last s \<noteq> CHR '']''" using sp(4) last_in_set [of s] by metis
  then have "drop_end_bracket s = s" by (auto simp: drop_end_bracket_def)
  ultimately show "normal_host s = s" using sp by (simp add: normal_host_def trim_id)
  have "trim (CHR ''['' # s @ '']'') = CHR ''['' # s @ '']''"
    using sp by (intro trim_id) (auto simp: is_space_def)
  with sp show "normal_host (CHR ''['' # s @ '']'') = s"
    by (simp add: normal_host_def drop_bracket_def drop_end_bracket_def butlast_append)
qed

lemma literal_not_loopback:
  assumes "\<forall>c\<in>set s. literal_char c"
  shows "\<not> is_loopback_hostname s"
proof
  assume "is_loopback_hostname s"
  moreover have sub: "set (strip_trailing_dots s) \<subseteq> set s"
    unfolding strip_trailing_dots_def by (metis set_dropWhileD set_rev subsetI)
  have "CHR ''l'' \<notin> set (strip_trailing_dots s)"
    using sub assms by (auto dest: literal_char_props)
  moreover have "ends_with p h \<Longrightarrow> set p \<subseteq> set h" for p h
    by (auto simp: ends_with_def) (metis in_set_dropD)
  ultimately show False
    by (auto simp: is_loopback_hostname_def Let_def loopback_hostname_aliases_def) fastforce
qed

definition six_to_four_literal :: "nat \<Rightarrow> nat \<Rightarrow> nat \<Rightarrow> nat \<Rightarrow> string" where
  "six_to_four_literal a b c d =
     ''2002:'' @ show_hex (256 * a + b) @ '':'' @ show_hex (256 * c + d) @ ''::''"

definition ipv4_spellings :: "nat \<Rightarrow> nat \<Rightarrow> nat \<Rightarrow> nat \<Rightarrow> string set" where
  "ipv4_spellings a b c d = (let q = show_quad a b c d; s = six_to_four_literal a b c d in
     {q, ''::ffff:'' @ q, s, ''[::ffff:'' @ q @ '']'', ''['' @ s @ '']''})"

lemma literal_show_nat: "c \<in> set (show_nat n) \<Longrightarrow> literal_char c"
  using show_nat_digits [of n] by (auto simp: literal_char_def is_hex_def)

lemma literal_chars [simp]: "literal_char CHR ''.''" "literal_char CHR '':''"
  "literal_char CHR ''f''" "literal_char CHR ''2''" "literal_char CHR ''0''"
  by code_simp+

lemma literal_hex: "is_hex c \<Longrightarrow> literal_char c"
  by (simp add: literal_char_def)

lemma literal_show_quad: "x \<in> set (show_quad a b c d) \<Longrightarrow> literal_char x"
  by (auto simp: show_quad_def literal_show_nat)

lemma literal_mapped: "x \<in> set (''::ffff:'' @ show_quad a b c d) \<Longrightarrow> literal_char x"
  using literal_show_quad [of x a b c d] by auto

lemma literal_six: "x \<in> set (six_to_four_literal a b c d) \<Longrightarrow> literal_char x"
  by (auto simp: six_to_four_literal_def dest: show_hex_hex literal_hex)

lemma colon_no_quad: "CHR '':'' \<in> set s \<Longrightarrow> parse_ipv4 s = None"
  using dotted_quad_no_colon by (auto simp: parse_ipv4_def)

lemma mapped_ipv4_dot: "mapped_ipv4 s = Some q \<Longrightarrow> CHR ''.'' \<in> set s"
proof -
  assume m: "mapped_ipv4 s = Some q"
  have "set q \<subseteq> set s" using m by (induction s) (auto split: if_splits dest: in_set_dropD)
  moreover have "CHR ''.'' \<in> set q"
  proof (rule ccontr)
    assume "CHR ''.'' \<notin> set q"
    then have "length (split_on CHR ''.'' q) = 1" by (simp add: split_on_none)
    with mapped_ipv4_quad [OF m] show False by (simp add: dotted_quad_def)
  qed
  ultimately show ?thesis by auto
qed

lemma six_to_four_inverse:
  assumes "a < 256" "b < 256" "c < 256" "d < 256"
  shows "six_to_four (six_to_four_literal a b c d) = Some (show_quad a b c d)"
proof -
  have nc: "CHR '':'' \<notin> set (show_hex n)" for n by (auto dest: show_hex_hex hex_not_colon)
  have "split_on CHR '':'' (''2002'' @ CHR '':'' # show_hex m @ CHR '':'' # show_hex n @ CHR '':'' # '':'')
        = [''2002'', show_hex m, show_hex n, [], []]" for m n
    by (subst split_on_append, simp, subst split_on_append, rule nc, subst split_on_append, rule nc) simp
  with assms show ?thesis
    by (simp add: six_to_four_def six_to_four_literal_def show_hex_hextet parse_show_hex Let_def)
qed

lemma six_mapped_none: "mapped_ipv4 (six_to_four_literal a b c d) = None"
proof (rule ccontr)
  assume "mapped_ipv4 (six_to_four_literal a b c d) \<noteq> None"
  then have "CHR ''.'' \<in> set (six_to_four_literal a b c d)" using mapped_ipv4_dot by auto
  then show False
    by (auto simp: six_to_four_literal_def dest!: show_hex_hex) (auto simp: is_hex_def is_digit_def)
qed

lemmas literal_host_simps = normal_host_literal literal_not_loopback colon_no_quad
  ula_literal_def link_local_literal_def multicast_literal_def starts_with_def Let_def

lemma quad_verdict:
  assumes "a < 256" "b < 256" "c < 256" "d < 256"
  shows "is_always_blocked_host (show_quad a b c d) = ipv4_always_blocked [a, b, c, d]"
    and "is_blocked_host (show_quad a b c d) = ipv4_blocked a b"
  using assms literal_show_quad
  by (simp_all add: is_always_blocked_host.simps [of "show_quad a b c d"] parse_show_quad
      is_blocked_host.simps [of "show_quad a b c d"] literal_host_simps)

lemma mapped_verdict:
  assumes "a < 256" "b < 256" "c < 256" "d < 256"
    and "normal_host h = ''::ffff:'' @ show_quad a b c d"
  shows "is_always_blocked_host h = ipv4_always_blocked [a, b, c, d]"
    and "is_blocked_host h = ipv4_blocked a b"
proof -
  have nl: "\<not> is_loopback_hostname (normal_host h)"
    unfolding assms(5) by (rule literal_not_loopback) (use literal_mapped in blast)
  have m: "mapped_ipv4 (normal_host h) = Some (show_quad a b c d)"
    unfolding assms(5) by (simp add: starts_with_def dotted_show_quad assms(1-4))
  show "is_always_blocked_host h = ipv4_always_blocked [a, b, c, d]"
    unfolding is_always_blocked_host.simps [of h] Let_def
    using nl m by (simp add: colon_no_quad assms(5) literal_host_simps quad_verdict assms(1-4))
  show "is_blocked_host h = ipv4_blocked a b"
    unfolding is_blocked_host.simps [of h] Let_def
    using nl m by (simp add: colon_no_quad assms(5) literal_host_simps quad_verdict assms(1-4))
qed

lemma six_verdict:
  assumes "a < 256" "b < 256" "c < 256" "d < 256" and "normal_host h = six_to_four_literal a b c d"
  shows "is_always_blocked_host h = ipv4_always_blocked [a, b, c, d]"
    and "is_blocked_host h = ipv4_blocked a b"
proof -
  have nl: "\<not> is_loopback_hostname (normal_host h)"
    unfolding assms(5) by (rule literal_not_loopback) (use literal_six in blast)
  have s: "six_to_four (normal_host h) = Some (show_quad a b c d)" "mapped_ipv4 (normal_host h) = None"
    unfolding assms(5) by (simp_all add: six_to_four_inverse six_mapped_none assms(1-4))
  obtain t where t: "normal_host h = ''2002:'' @ t" by (simp add: assms(5) six_to_four_literal_def)
  show "is_always_blocked_host h = ipv4_always_blocked [a, b, c, d]"
    unfolding is_always_blocked_host.simps [of h] Let_def
    using nl s unfolding t by (simp add: literal_host_simps quad_verdict assms(1-4))
  show "is_blocked_host h = ipv4_blocked a b"
    unfolding is_blocked_host.simps [of h] Let_def
    using nl s unfolding t by (simp add: literal_host_simps quad_verdict assms(1-4))
qed

lemma bracketed_six_spelling: "''['' @ six_to_four_literal a b c d @ '']'' \<in> ipv4_spellings a b c d"
  by (simp add: ipv4_spellings_def Let_def)

lemma mapped_spelling: "''::ffff:'' @ show_quad a b c d \<in> ipv4_spellings a b c d"
  by (simp add: ipv4_spellings_def Let_def)

lemma spelling_verdicts:
  "a < 256 \<Longrightarrow> b < 256 \<Longrightarrow> c < 256 \<Longrightarrow> d < 256 \<Longrightarrow> h \<in> ipv4_spellings a b c d \<Longrightarrow>
   is_always_blocked_host h = ipv4_always_blocked [a, b, c, d] \<and> is_blocked_host h = ipv4_blocked a b"
proof -
  assume o: "a < 256" "b < 256" "c < 256" "d < 256" and h: "h \<in> ipv4_spellings a b c d"
  have m: "normal_host (''::ffff:'' @ show_quad a b c d) = ''::ffff:'' @ show_quad a b c d"
      "normal_host (CHR ''['' # (''::ffff:'' @ show_quad a b c d) @ '']'') = ''::ffff:'' @ show_quad a b c d"
    by (rule normal_host_literal; use literal_mapped in blast)+
  have x: "normal_host (six_to_four_literal a b c d) = six_to_four_literal a b c d"
      "normal_host (CHR ''['' # six_to_four_literal a b c d @ '']'') = six_to_four_literal a b c d"
    by (rule normal_host_literal; use literal_six in blast)+
  from h consider "h = show_quad a b c d" | "normal_host h = ''::ffff:'' @ show_quad a b c d"
    | "normal_host h = six_to_four_literal a b c d"
    using m x unfolding ipv4_spellings_def Let_def by force
  then show ?thesis
  proof cases
    case 1
    then show ?thesis using quad_verdict [OF o] by simp
  next
    case 2
    then show ?thesis using mapped_verdict [OF o, of h] by blast
  next
    case 3
    then show ?thesis using six_verdict [OF o, of h] by blast
  qed
qed

text \<open>
  However an IPv4 address is spelled as a host, as a dotted quad, IPv4-mapped in dotted
  form or as a 6to4 literal, with or without the brackets of a URL, both predicates give the
  verdict of the address itself.
\<close>

theorem spelling_keeps_verdict:
  "a < 256 \<Longrightarrow> b < 256 \<Longrightarrow> c < 256 \<Longrightarrow> d < 256 \<Longrightarrow> h \<in> ipv4_spellings a b c d \<Longrightarrow>
   is_always_blocked_host h = ipv4_always_blocked [a, b, c, d] \<and> is_blocked_host h = ipv4_blocked a b"
  by (rule spelling_verdicts)

lemma metadata_spelling: "''[2002:a9fe:a9fe::]'' \<in> ipv4_spellings 169 254 169 254"
proof -
  have e: "''[2002:a9fe:a9fe::]'' = ''['' @ six_to_four_literal 169 254 169 254 @ '']''"
    by (simp add: six_to_four_literal_def show_hex.simps)
  show ?thesis unfolding e by (rule bracketed_six_spelling)
qed

lemma private_spelling: "''::ffff:10.0.0.7'' \<in> ipv4_spellings 10 0 0 7"
proof -
  have e: "''::ffff:10.0.0.7'' = ''::ffff:'' @ show_quad 10 0 0 7" by code_simp
  show ?thesis unfolding e by (rule mapped_spelling)
qed

lemma sample_verdicts:
  "ipv4_always_blocked [169, 254, 169, 254]" "\<not> ipv4_always_blocked [10, 0, 0, 7]" "ipv4_blocked 10 0"
  by code_simp+

theorem spelling_keeps_verdict_witness:
  "is_always_blocked_host ''[2002:a9fe:a9fe::]'' \<and> \<not> is_always_blocked_host ''::ffff:10.0.0.7''"
proof
  show "is_always_blocked_host ''[2002:a9fe:a9fe::]''"
    by (rule spelling_keeps_verdict [OF _ _ _ _ metadata_spelling, THEN conjunct1, THEN iffD2])
      (simp_all add: sample_verdicts)
  show "\<not> is_always_blocked_host ''::ffff:10.0.0.7''"
    by (subst spelling_keeps_verdict [OF _ _ _ _ private_spelling, THEN conjunct1])
      (simp_all add: sample_verdicts)
qed


definition metadata_url :: url where
  "metadata_url = \<lparr>u_protocol = ''https:'', u_hostname = ''[2002:a9fe:a9fe::]'', u_username = [],
     u_password = [], u_search = [], u_hash = []\<rparr>"


text \<open>
  A private (RFC1918) address that is not always blocked is an allowed data source, and an
  allowed egress endpoint exactly when the account has opted in.
\<close>

theorem private_opt_in:
  "a < 256 \<Longrightarrow> b < 256 \<Longrightarrow> c < 256 \<Longrightarrow> d < 256 \<Longrightarrow>
   ipv4_blocked a b \<Longrightarrow> \<not> ipv4_always_blocked [a, b, c, d] \<Longrightarrow>
   CHR 0x5C \<notin> set s \<Longrightarrow> parse_url s = Some u \<Longrightarrow> u_protocol u = ''https:'' \<Longrightarrow>
   u_username u = [] \<Longrightarrow> u_password u = [] \<Longrightarrow> u_search u = [] \<Longrightarrow> u_hash u = [] \<Longrightarrow>
   u_hostname u \<in> ipv4_spellings a b c d \<Longrightarrow>
   assert_datasource_endpoint_allowed parse_url s = Inr () \<and>
   assert_egress_endpoint_allowed parse_url s allow_private =
     (if allow_private then Inr () else Inl (Private_Address (u_hostname u)))"
  using spelling_verdicts [of a b c d "u_hostname u"]
  by (simp add: assert_egress_endpoint_allowed_def assert_datasource_endpoint_allowed_def)

definition private_url :: url where
  "private_url = metadata_url\<lparr>u_hostname := ''::ffff:10.0.0.7''\<rparr>"

theorem private_opt_in_witness:
  "assert_egress_endpoint_allowed (\<lambda>_. Some private_url) ''https://db'' False =
     Inl (Private_Address (u_hostname private_url))"
  by (rule private_opt_in [OF _ _ _ _ sample_verdicts(3,2) _ refl, where allow_private = False,
        THEN conjunct2, THEN trans])
    (simp_all add: private_url_def metadata_url_def private_spelling)

text \<open>
  The URL parser prints an IPv4-mapped host in hexadecimal (\<open>[::ffff:7f00:1]\<close> for
  \<open>[::ffff:127.0.0.1]\<close>), a spelling that the dotted pattern does not recognise: such a
  loopback endpoint is registered.
\<close>

lemma hex_mapped_loopback_registered:
  "assert_datasource_endpoint_allowed (\<lambda>_. Some (metadata_url\<lparr>u_hostname := ''[::ffff:7f00:1]''\<rparr>))
     ''http://[::ffff:127.0.0.1]:9090/'' = Inr ()"
proof -
  have "\<not> is_always_blocked_host ''[::ffff:7f00:1]''" by code_simp
  then show ?thesis by (simp add: assert_datasource_endpoint_allowed_def metadata_url_def)
qed

end
