(* ===== verification/Datasource_Connection.thy ===== *)
theory Datasource_Connection
  imports Ssrf_Guard Js_Values
begin

text \<open>
  A datasource's connection (\<^verbatim>\<open>web/lib/datasource-connection.ts\<close>, \<^verbatim>\<open>web/lib/datasource-auth.ts\<close>):
  what a stored blob contributes to it, and the merge of a request with it that Test, Save and
  Explore share. Blobs and requests are JSON objects; the URL parser and the base64 encoder are
  arguments.
\<close>

section \<open>Authentication\<close>

datatype auth_type = Auth_None | Auth_Basic | Auth_Bearer | Auth_Header

definition auth_text :: "auth_type \<Rightarrow> string" where
  "auth_text a = (case a of Auth_None \<Rightarrow> ''none'' | Auth_Basic \<Rightarrow> ''basic'' | Auth_Bearer \<Rightarrow> ''bearer'' | Auth_Header \<Rightarrow> ''custom_header'')"

definition auth_of :: "js \<Rightarrow> auth_type option" where
  "auth_of v = (case v of
      JStr s \<Rightarrow> if s = ''none'' then Some Auth_None else if s = ''basic'' then Some Auth_Basic
        else if s = ''bearer'' then Some Auth_Bearer else if s = ''custom_header'' then Some Auth_Header else None
    | _ \<Rightarrow> None)"

definition auth_keys :: "auth_type \<Rightarrow> string list" where
  "auth_keys a = (case a of Auth_None \<Rightarrow> [] | Auth_Basic \<Rightarrow> [''username'', ''password''] | Auth_Bearer \<Rightarrow> [''token'']
     | Auth_Header \<Rightarrow> [''headerName'', ''headerValue'', ''headerName2'', ''headerValue2''])"

definition CRED_KEYS :: "string list" where
  "CRED_KEYS = concat (map auth_keys [Auth_None, Auth_Basic, Auth_Bearer, Auth_Header]) @ [''org_id'', ''apiKey'', ''appKey'']"

definition has_own :: "js_object \<Rightarrow> string \<Rightarrow> bool" where
  "has_own m k \<longleftrightarrow> map_of m k \<noteq> None"

definition control_char :: "char \<Rightarrow> bool" where
  "control_char c \<longleftrightarrow> (of_char c :: nat) < 32 \<or> (of_char c :: nat) = 127"

definition header_char :: "char \<Rightarrow> bool" where
  "header_char c \<longleftrightarrow> is_digit c \<or> 65 \<le> (of_char c :: nat) \<and> (of_char c :: nat) \<le> 90 \<or>
     97 \<le> (of_char c :: nat) \<and> (of_char c :: nat) \<le> 122 \<or> c \<in> set ''!#$%&*+.^_|~-'' \<or> (of_char c :: nat) \<in> {39, 96}"

definition FORBIDDEN_HEADER_NAMES :: "string list" where
  "FORBIDDEN_HEADER_NAMES = [''host'', ''content-length'', ''authorization'']"

definition safe_custom_header :: "string \<Rightarrow> string \<Rightarrow> bool" where
  "safe_custom_header name v \<longleftrightarrow> name \<noteq> [] \<and> list_all header_char name \<and>
     lower name \<notin> set FORBIDDEN_HEADER_NAMES \<and> \<not> list_ex control_char v"

text \<open>A credential as the header builder reads it: a string, absent when there is none.\<close>

definition cred :: "js_object \<Rightarrow> string \<Rightarrow> string" where
  "cred m k = (case field m k of JStr s \<Rightarrow> s | _ \<Rightarrow> [])"

text \<open>The headers, or none when a custom header is refused.\<close>

definition add_header :: "string \<Rightarrow> string \<Rightarrow> js_object option \<Rightarrow> js_object option" where
  "add_header name v hs = (case hs of None \<Rightarrow> None
     | Some h \<Rightarrow> if name = [] \<and> v = [] then Some h
         else if safe_custom_header name v then Some (AList.update name (JStr v) h) else None)"

definition build_auth_headers :: "(string \<Rightarrow> string) \<Rightarrow> auth_type \<Rightarrow> js_object \<Rightarrow> js_object option" where
  "build_auth_headers b64 a c = map_option (\<lambda>h. if cred c ''org_id'' = [] then h
       else AList.update ''X-Scope-OrgID'' (JStr (cred c ''org_id'')) h)
     (case a of
        Auth_Basic \<Rightarrow> Some (if cred c ''username'' = [] then []
          else [(''Authorization'', JStr (''Basic '' @ b64 (cred c ''username'' @ '':'' @ cred c ''password'')))])
      | Auth_Bearer \<Rightarrow> Some (if cred c ''token'' = [] then [] else [(''Authorization'', JStr (''Bearer '' @ cred c ''token''))])
      | Auth_Header \<Rightarrow> add_header (cred c ''headerName2'') (cred c ''headerValue2'')
          (add_header (cred c ''headerName'') (cred c ''headerValue'') (Some []))
      | Auth_None \<Rightarrow> Some [])"

section \<open>Datadog keys\<close>

definition DATADOG_NAMES :: "string list" where
  "DATADOG_NAMES = [''dd-api-key'', ''dd-application-key'']"

text \<open>The recognized values of one object, in the order the slots and then the legacy keys are read.\<close>

definition datadog_slot :: "js_object \<Rightarrow> bool \<Rightarrow> string \<Rightarrow> string \<Rightarrow> (string \<times> js) list" where
  "datadog_slot m partial suffix default_name =
     (let name = lower (to_string (coalesce (field m (''headerName'' @ suffix)) (JStr (if partial then default_name else []))))
      in if name \<in> set DATADOG_NAMES \<and> has_own m (''headerValue'' @ suffix)
         then [(name, field m (''headerValue'' @ suffix))] else [])"

definition datadog_legacy :: "js_object \<Rightarrow> bool \<Rightarrow> string \<Rightarrow> string \<Rightarrow> (string \<times> js) list" where
  "datadog_legacy m partial key name =
     (if has_own m key \<and> (partial \<or> truthy (field m key)) then [(name, field m key)] else [])"

definition datadog_values :: "js_object \<Rightarrow> bool \<Rightarrow> (string \<times> js) list" where
  "datadog_values m partial = datadog_slot m partial [] ''dd-api-key'' @ datadog_slot m partial ''2'' ''dd-application-key'' @
     datadog_legacy m partial ''apiKey'' ''dd-api-key'' @ datadog_legacy m partial ''appKey'' ''dd-application-key''"

definition normalize_datadog_header_slots :: "js_object \<Rightarrow> js_object \<Rightarrow> js_object" where
  "normalize_datadog_header_slots creds updates =
     (let vs = spread [] (datadog_values creds False @ datadog_values updates True) in
      if vs = [] then spread creds updates
      else filter (\<lambda>(k, _). k \<noteq> ''apiKey'' \<and> k \<noteq> ''appKey'') (spread (spread creds updates)
        [(''headerName'', JStr ''DD-API-KEY''), (''headerName2'', JStr ''DD-APPLICATION-KEY''),
         (''headerValue'', field vs ''dd-api-key''), (''headerValue2'', field vs ''dd-application-key'')]))"

section \<open>Settings\<close>

definition name_start :: "char \<Rightarrow> bool" where
  "name_start c \<longleftrightarrow> 65 \<le> (of_char c :: nat) \<and> (of_char c :: nat) \<le> 90 \<or>
     97 \<le> (of_char c :: nat) \<and> (of_char c :: nat) \<le> 122 \<or> c = CHR ''_''"

definition database_name :: "string \<Rightarrow> bool" where
  "database_name s \<longleftrightarrow> length s \<le> 128 \<and> s \<noteq> [] \<and> name_start (hd s) \<and> list_all (\<lambda>c. name_start c \<or> is_digit c) s \<and>
     lower s \<notin> {''system'', ''information_schema''}"

definition fields_of_object :: "js \<Rightarrow> js_object" where
  "fields_of_object v = (case v of JObj fs \<Rightarrow> fs | _ \<Rightarrow> [])"

definition sanitize_ds_settings :: "js \<Rightarrow> js_object" where
  "sanitize_ds_settings v = (let m = fields_of_object v in
     (case field m ''timeoutS'' of JNum n \<Rightarrow> if 1 \<le> n \<and> n \<le> 60 then [(''timeoutS'', JNum n)] else [] | _ \<Rightarrow> []) @
     (case field m ''database'' of JStr s \<Rightarrow> if database_name s then [(''database'', JStr s)] else [] | _ \<Rightarrow> []))"

section \<open>What is stored\<close>

record ds_row =
  dr_id :: nat
  dr_name :: string
  dr_kind :: string
  dr_endpoint :: "string option"
  dr_auth :: "auth_type option"
  dr_default :: bool
  dr_settings :: js

datatype saved_source = From_Id | From_Mirror | From_None

record saved_connection =
  sv_endpoint :: string
  sv_auth :: "auth_type option"
  sv_creds :: js_object
  sv_settings :: js_object
  sv_source :: saved_source
  sv_mismatch :: bool
  sv_tenant :: bool

definition infer_auth :: "js_object \<Rightarrow> auth_type option" where
  "infer_auth blob = (if \<not> nullish (field blob ''authType'') then auth_of (field blob ''authType'')
     else (let methods = filter (\<lambda>a. list_ex (has_own blob) (auth_keys a) \<or>
             a = Auth_Header \<and> (has_own blob ''apiKey'' \<or> has_own blob ''appKey'')) [Auth_Basic, Auth_Bearer, Auth_Header]
       in case methods of [] \<Rightarrow> Some Auth_None | [a] \<Rightarrow> Some a | _ \<Rightarrow> None))"

definition object_value :: "js \<Rightarrow> bool" where
  "object_value v \<longleftrightarrow> (case v of JObj _ \<Rightarrow> True | _ \<Rightarrow> False)"

definition str_of :: "js \<Rightarrow> string option" where
  "str_of v = (case v of JStr s \<Rightarrow> Some s | _ \<Rightarrow> None)"

text \<open>The kind's mirror, when the row is the default and the mirror names an endpoint.\<close>

definition mirror_of :: "ds_row \<Rightarrow> js_object \<Rightarrow> js option" where
  "mirror_of r snapshot = (let m = field snapshot (dr_kind r) in
     if dr_default r \<and> object_value m \<and> str_of (attr m ''endpoint'') \<noteq> None then Some m else None)"

definition source_of :: "ds_row \<Rightarrow> js_object \<Rightarrow> saved_source" where
  "source_of r snapshot = (if has_own snapshot (show_nat (dr_id r)) then From_Id
     else case mirror_of r snapshot of
        Some m \<Rightarrow> if dr_endpoint r = None \<or> str_of (attr m ''endpoint'') = dr_endpoint r then From_Mirror else From_None
      | None \<Rightarrow> From_None)"

definition selected_blob :: "ds_row \<Rightarrow> js_object \<Rightarrow> js" where
  "selected_blob r snapshot = (if has_own snapshot (show_nat (dr_id r)) then field snapshot (show_nat (dr_id r))
     else case mirror_of r snapshot of Some m \<Rightarrow> m | None \<Rightarrow> JObj [])"

definition saved_endpoint :: "ds_row \<Rightarrow> js_object \<Rightarrow> string" where
  "saved_endpoint r snapshot = (case dr_endpoint r of Some e \<Rightarrow> e
     | None \<Rightarrow> if source_of r snapshot \<noteq> From_None then cred (fields_of_object (selected_blob r snapshot)) ''endpoint'' else [])"

definition bound_to :: "string \<Rightarrow> js_object \<Rightarrow> bool" where
  "bound_to endpoint raw \<longleftrightarrow> \<not> has_own raw ''endpoint'' \<or> field raw ''endpoint'' = JStr endpoint"

definition bound_creds :: "ds_row \<Rightarrow> js_object \<Rightarrow> js_object" where
  "bound_creds r snapshot = (let raw = fields_of_object (selected_blob r snapshot) in
     if bound_to (saved_endpoint r snapshot) raw
     then (if dr_kind r = ''datadog'' then normalize_datadog_header_slots raw [] else raw) else [])"

definition saved_auth :: "ds_row \<Rightarrow> js_object \<Rightarrow> auth_type option" where
  "saved_auth r snapshot = (case dr_auth r of Some a \<Rightarrow> Some a
     | None \<Rightarrow> if source_of r snapshot \<noteq> From_None \<and> object_value (selected_blob r snapshot) \<and>
         bound_to (saved_endpoint r snapshot) (fields_of_object (selected_blob r snapshot))
       then infer_auth (bound_creds r snapshot) else None)"

definition effective_saved_connection :: "ds_row \<Rightarrow> js_object \<Rightarrow> saved_connection" where
  "effective_saved_connection r snapshot =
     (let raw = fields_of_object (selected_blob r snapshot); creds = bound_creds r snapshot; a = saved_auth r snapshot;
          keys = (case a of None \<Rightarrow> [] | Some a \<Rightarrow> auth_keys a) @ [''org_id'']
      in \<lparr>sv_endpoint = saved_endpoint r snapshot, sv_auth = a,
          sv_creds = map (\<lambda>k. (k, field creds k)) (filter (has_own creds) keys),
          sv_settings = sanitize_ds_settings (dr_settings r), sv_source = source_of r snapshot,
          sv_mismatch = (\<not> bound_to (saved_endpoint r snapshot) raw),
          sv_tenant = (has_own raw ''org_id'' \<and> field raw ''org_id'' \<noteq> JStr [])\<rparr>)"

section \<open>The merge\<close>

datatype input_error =
    Bad_Endpoint | Bad_Auth | Bad_Creds | Creds_Required | Bad_Settings | Invalid_Settings | Tenant_Required
  | Bad_Credential | Bad_Headers

definition supplied :: "js_object \<Rightarrow> string \<Rightarrow> bool" where
  "supplied input k \<longleftrightarrow> field input k \<noteq> JUndef"

definition merged_endpoint :: "js_object \<Rightarrow> saved_connection option \<Rightarrow> string" where
  "merged_endpoint input saved = (case field input ''endpoint'' of
      JUndef \<Rightarrow> (case saved of None \<Rightarrow> [] | Some s \<Rightarrow> sv_endpoint s)
    | JStr e \<Rightarrow> trim e
    | _ \<Rightarrow> [])"

definition merged_auth :: "js_object \<Rightarrow> saved_connection option \<Rightarrow> auth_type option" where
  "merged_auth input saved = (if supplied input ''authType'' then auth_of (field input ''authType'')
     else (case saved of None \<Rightarrow> Some Auth_None | Some s \<Rightarrow> sv_auth s))"

definition saved_mismatch :: "saved_connection option \<Rightarrow> bool" where
  "saved_mismatch saved \<longleftrightarrow> (case saved of None \<Rightarrow> False | Some s \<Rightarrow> sv_mismatch s)"

definition complete_input :: "js_object \<Rightarrow> bool" where
  "complete_input input \<longleftrightarrow> str_of (field input ''endpoint'') \<noteq> None \<and> auth_of (field input ''authType'') \<noteq> None \<and>
     object_value (field input ''creds'')"

definition merged_settings :: "string \<Rightarrow> js_object \<Rightarrow> saved_connection option \<Rightarrow> js_object" where
  "merged_settings kind input saved =
     filter (\<lambda>(k, _). kind = ''clickhouse'' \<or> k \<noteq> ''database'') (sanitize_ds_settings
       (if nullish (field input ''settings'') then (case saved of None \<Rightarrow> JUndef | Some s \<Rightarrow> JObj (sv_settings s)) else field input ''settings''))"

definition settings_refused :: "js_object \<Rightarrow> js_object \<Rightarrow> bool" where
  "settings_refused settings input \<longleftrightarrow>
     list_ex (\<lambda>(k, _). field settings k \<noteq> attr (field input ''settings'') k) (fields_of_object (field input ''settings''))"

text \<open>The stored credentials a request may build on: those of the very endpoint it asks for.\<close>

definition reusable :: "string \<Rightarrow> saved_connection option \<Rightarrow> js_object" where
  "reusable endpoint saved = (case saved of None \<Rightarrow> []
     | Some s \<Rightarrow> if sv_endpoint s = endpoint \<and> \<not> sv_mismatch s then sv_creds s else [])"

definition merged_creds :: "string \<Rightarrow> string \<Rightarrow> js_object \<Rightarrow> saved_connection option \<Rightarrow> js_object" where
  "merged_creds kind endpoint input saved =
     (let incoming = fields_of_object (field input ''creds''); base = reusable endpoint saved
      in if kind = ''datadog'' then normalize_datadog_header_slots base incoming else spread base incoming)"

definition kept_keys :: "auth_type \<Rightarrow> js_object \<Rightarrow> string list" where
  "kept_keys a m = filter (\<lambda>k. (k \<in> set (auth_keys a) \<or> k = ''org_id'') \<and> field m k \<noteq> JUndef) CRED_KEYS"

definition good_credential :: "js \<Rightarrow> bool" where
  "good_credential v \<longleftrightarrow> (case v of JStr s \<Rightarrow> length s \<le> 8192 \<and> \<not> list_ex control_char s | _ \<Rightarrow> False)"

definition creds_missing :: "auth_type \<Rightarrow> js_object \<Rightarrow> bool" where
  "creds_missing a c \<longleftrightarrow> a = Auth_Bearer \<and> trim (cred c ''token'') = [] \<or> a = Auth_Basic \<and> trim (cred c ''username'') = [] \<or>
     a = Auth_Header \<and> (cred c ''headerName'' = [] \<or> cred c ''headerValue'' = [] \<or> (cred c ''headerName2'' = []) \<noteq> (cred c ''headerValue2'' = []))"

definition merge_datasource_connection ::
  "(string \<Rightarrow> url option) \<Rightarrow> (string \<Rightarrow> string) \<Rightarrow> string \<Rightarrow> js_object \<Rightarrow> saved_connection option \<Rightarrow> input_error + js_object" where
  "merge_datasource_connection parse_url b64 kind input saved =
     (let endpoint = merged_endpoint input saved; settings = merged_settings kind input saved in
      if assert_datasource_endpoint_allowed parse_url endpoint \<noteq> Inr () then Inl Bad_Endpoint
      else (case merged_auth input saved of None \<Rightarrow> Inl Bad_Auth | Some a \<Rightarrow>
        if supplied input ''creds'' \<and> \<not> object_value (field input ''creds'') then Inl Bad_Creds
        else if saved_mismatch saved \<and> \<not> complete_input input then Inl Creds_Required
        else if supplied input ''settings'' \<and> \<not> object_value (field input ''settings'') then Inl Bad_Settings
        else if settings_refused settings input then Inl Invalid_Settings
        else if (case saved of None \<Rightarrow> False | Some s \<Rightarrow> sv_tenant s \<and> (sv_mismatch s \<or> sv_endpoint s \<noteq> endpoint)) \<and>
          str_of (attr (field input ''creds'') ''org_id'') = None then Inl Tenant_Required
        else (let m = merged_creds kind endpoint input saved; c = map (\<lambda>k. (k, field m k)) (kept_keys a m) in
          if \<not> list_all (\<lambda>k. good_credential (field m k)) (kept_keys a m) then Inl Bad_Credential
          else if creds_missing a c then Inl Creds_Required
          else if build_auth_headers b64 a c = None then Inl Bad_Headers
          else Inr ([(''endpoint'', JStr endpoint), (''authType'', JStr (auth_text a))] @ c @ settings))))"

text \<open>What the list shows of a datasource: no credential.\<close>

record ds_metadata =
  dm_endpoint :: "string option"
  dm_auth :: "auth_type option"
  dm_connected :: bool
  dm_status :: string

definition datasource_connection_metadata ::
  "(string \<Rightarrow> url option) \<Rightarrow> (string \<Rightarrow> string) \<Rightarrow> ds_row \<Rightarrow> js_object \<Rightarrow> ds_metadata" where
  "datasource_connection_metadata parse_url b64 r snapshot =
     (let saved = effective_saved_connection r snapshot;
          endpoint = (if assert_datasource_endpoint_allowed parse_url (sv_endpoint saved) = Inr () then Some (sv_endpoint saved) else None);
          connected = (case merge_datasource_connection parse_url b64 (dr_kind r) [] (Some saved) of Inl _ \<Rightarrow> False | Inr _ \<Rightarrow> True)
      in \<lparr>dm_endpoint = endpoint, dm_auth = sv_auth saved, dm_connected = connected,
          dm_status = (if sv_endpoint saved = [] then ''endpoint_missing''
            else case endpoint of None \<Rightarrow> ''endpoint_invalid''
            | Some e \<Rightarrow> if e = [] then ''endpoint_invalid''
                else if connected then (if sv_source saved = From_Mirror then ''mirror_only'' else ''stored'') else ''missing'')\<rparr>)"

section \<open>Where a credential comes from\<close>

definition SECRET_KEYS :: "string list" where
  "SECRET_KEYS = [''username'', ''password'', ''token'', ''headerValue'', ''headerValue2'', ''org_id'', ''apiKey'', ''appKey'']"

text \<open>A value an object holds as a credential, under whatever key.\<close>

definition holds_secret :: "js_object \<Rightarrow> string \<Rightarrow> bool" where
  "holds_secret m v \<longleftrightarrow> list_ex (\<lambda>k. (k, JStr v) \<in> set m) SECRET_KEYS"

lemma holds_secretI: "k \<in> set SECRET_KEYS \<Longrightarrow> (k, JStr v) \<in> set m \<Longrightarrow> holds_secret m v"
  by (auto simp: holds_secret_def list_ex_iff)

lemma holds_secretE: assumes "holds_secret m v" obtains k where "k \<in> set SECRET_KEYS" "(k, JStr v) \<in> set m"
  using assms by (auto simp: holds_secret_def list_ex_iff)

lemma field_in: "field m k = JStr v \<Longrightarrow> (k, JStr v) \<in> set m"
  by (auto simp: field_def dest: map_of_SomeD split: option.splits)

lemma set_spread: "set (spread a b) \<subseteq> set a \<union> set b"
proof (induction b arbitrary: a)
  case (Cons p b)
  have "set (AList.update (fst p) (snd p) a) \<subseteq> insert p (set a)" using alist_update_in by fastforce
  then show ?case using Cons.IH [of "AList.update (fst p) (snd p) a"] by (auto simp: spread_def case_prod_beta)
qed (simp add: spread_def)

lemma spread_secret: "holds_secret (spread a b) v \<Longrightarrow> holds_secret a v \<or> holds_secret b v"
  using set_spread [of a b] by (auto elim!: holds_secretE intro: holds_secretI)

lemma datadog_slot_secret:
  assumes "(n, JStr v) \<in> set (datadog_slot m partial suffix default_name)" "suffix = [] \<or> suffix = ''2''"
  shows "holds_secret m v"
proof -
  have "field m (''headerValue'' @ suffix) = JStr v"
    using assms(1) by (simp add: datadog_slot_def Let_def split: if_splits)
  moreover have "''headerValue'' @ suffix \<in> set SECRET_KEYS" using assms(2) by (auto simp: SECRET_KEYS_def)
  ultimately show ?thesis using field_in holds_secretI by blast
qed

lemma datadog_legacy_secret:
  assumes "(n, JStr v) \<in> set (datadog_legacy m partial key name)" "key \<in> set SECRET_KEYS"
  shows "holds_secret m v"
proof -
  have "field m key = JStr v" using assms(1) by (simp add: datadog_legacy_def split: if_splits)
  then show ?thesis using assms(2) field_in holds_secretI by blast
qed

lemma legacy_keys: "''apiKey'' \<in> set SECRET_KEYS" "''appKey'' \<in> set SECRET_KEYS"
  by (simp_all add: SECRET_KEYS_def)

lemma datadog_values_secret:
  assumes "(n, JStr v) \<in> set (datadog_values m partial)"
  shows "holds_secret m v"
  using assms unfolding datadog_values_def set_append Un_iff
proof (elim disjE)
  assume "(n, JStr v) \<in> set (datadog_slot m partial [] ''dd-api-key'')"
  then show ?thesis by (rule datadog_slot_secret) simp
next
  assume "(n, JStr v) \<in> set (datadog_slot m partial ''2'' ''dd-application-key'')"
  then show ?thesis by (rule datadog_slot_secret) simp
next
  assume "(n, JStr v) \<in> set (datadog_legacy m partial ''apiKey'' ''dd-api-key'')"
  then show ?thesis by (rule datadog_legacy_secret [OF _ legacy_keys(1)])
next
  assume "(n, JStr v) \<in> set (datadog_legacy m partial ''appKey'' ''dd-application-key'')"
  then show ?thesis by (rule datadog_legacy_secret [OF _ legacy_keys(2)])
qed

lemma normalized_secret:
  assumes "holds_secret (normalize_datadog_header_slots c u) v"
  shows "holds_secret c v \<or> holds_secret u v"
proof -
  define vs where "vs = spread [] (datadog_values c False @ datadog_values u True)"
  have vs: "holds_secret c v \<or> holds_secret u v" if "field vs n = JStr v" for n
    using field_in [OF that] set_spread [of "[]"] datadog_values_secret unfolding vs_def by fastforce
  show ?thesis
  proof (cases "vs = []")
    case True
    then show ?thesis using assms spread_secret by (simp add: normalize_datadog_header_slots_def vs_def)
  next
    case False
    obtain k where k: "k \<in> set SECRET_KEYS" "(k, JStr v) \<in> set (normalize_datadog_header_slots c u)"
      using assms by (rule holds_secretE)
    then have "(k, JStr v) \<in> set (spread (spread c u) [(''headerName'', JStr ''DD-API-KEY''), (''headerName2'', JStr ''DD-APPLICATION-KEY''),
        (''headerValue'', field vs ''dd-api-key''), (''headerValue2'', field vs ''dd-application-key'')])"
      using False by (simp add: normalize_datadog_header_slots_def Let_def flip: vs_def)
    then have "(k, JStr v) \<in> set (spread c u) \<or> k \<in> {''headerName'', ''headerName2''} \<or>
        JStr v = field vs ''dd-api-key'' \<or> JStr v = field vs ''dd-application-key''"
      using set_spread [of "spread c u"] by fastforce
    moreover have "k \<notin> {''headerName'', ''headerName2''}" using k(1) by (auto simp: SECRET_KEYS_def)
    ultimately show ?thesis using k(1) vs spread_secret holds_secretI by metis
  qed
qed

text \<open>What a stored connection offers comes from one blob, written for its endpoint or for none.\<close>

lemma empty_secret: "\<not> holds_secret [] v"
  by (simp add: holds_secret_def list_ex_iff)

lemma saved_secret:
  assumes "holds_secret (sv_creds (effective_saved_connection r snapshot)) v"
  obtains raw where "field snapshot (show_nat (dr_id r)) = JObj raw \<or>
      field snapshot (dr_kind r) = JObj raw \<and> str_of (field raw ''endpoint'') \<noteq> None" "holds_secret raw v"
    "bound_to (sv_endpoint (effective_saved_connection r snapshot)) raw"
proof -
  let ?raw = "fields_of_object (selected_blob r snapshot)"
  have sv: "sv_endpoint (effective_saved_connection r snapshot) = saved_endpoint r snapshot"
    by (simp add: effective_saved_connection_def Let_def)
  obtain k where "k \<in> set SECRET_KEYS" "(k, JStr v) \<in> set (sv_creds (effective_saved_connection r snapshot))"
    using assms by (rule holds_secretE)
  then have "k \<in> set SECRET_KEYS" "field (bound_creds r snapshot) k = JStr v"
    by (auto simp: effective_saved_connection_def Let_def)
  then have secret: "holds_secret (bound_creds r snapshot) v" using field_in holds_secretI by blast
  then have bound: "bound_to (saved_endpoint r snapshot) ?raw"
    using empty_secret by (auto simp: bound_creds_def Let_def split: if_splits)
  then have raw: "holds_secret ?raw v"
    using secret normalized_secret [of ?raw "[]" v] empty_secret by (auto simp: bound_creds_def Let_def split: if_splits)
  then have "?raw \<noteq> []" using empty_secret by metis
  then obtain fs where fs: "selected_blob r snapshot = JObj fs" "fs \<noteq> []"
    by (auto simp: fields_of_object_def split: js.splits)
  then have "field snapshot (show_nat (dr_id r)) = JObj fs \<or>
      field snapshot (dr_kind r) = JObj fs \<and> str_of (field fs ''endpoint'') \<noteq> None"
    by (auto simp: selected_blob_def mirror_of_def Let_def attr_def split: if_splits option.splits)
  then show thesis using that [of fs] raw bound fs(1) by (simp add: sv fields_of_object_def)
qed

text \<open>What a merge yields is of the request, or of a stored connection to the same endpoint.\<close>

lemma guard_Inr: "(if b then Inl e else x) = Inr y \<longleftrightarrow> \<not> b \<and> x = Inr y"
  by simp

lemma merge_shape:
  assumes "merge_datasource_connection parse_url b64 kind input saved = Inr blob"
  obtains a m where "assert_datasource_endpoint_allowed parse_url (merged_endpoint input saved) = Inr ()"
    "merged_auth input saved = Some a" "m = merged_creds kind (merged_endpoint input saved) input saved"
    "blob = [(''endpoint'', JStr (merged_endpoint input saved)), (''authType'', JStr (auth_text a))] @
      map (\<lambda>k. (k, field m k)) (kept_keys a m) @ merged_settings kind input saved"
proof (cases "merged_auth input saved")
  case None
  then show thesis using assms unfolding merge_datasource_connection_def Let_def guard_Inr by simp
next
  case (Some a)
  show thesis
    by (rule that [OF _ Some refl])
      (use assms in \<open>simp_all only: merge_datasource_connection_def Let_def guard_Inr Some option.case sum.inject append_assoc not_not\<close>)
qed

lemma settings_no_secret: "k \<in> set SECRET_KEYS \<Longrightarrow> (k, x) \<notin> set (merged_settings kind input saved)"
  by (auto simp: merged_settings_def SECRET_KEYS_def sanitize_ds_settings_def Let_def split: js.splits if_splits)

lemma merged_creds_secret:
  "holds_secret (merged_creds kind e input saved) v \<Longrightarrow>
    holds_secret (reusable e saved) v \<or> holds_secret (fields_of_object (field input ''creds'')) v"
  using normalized_secret spread_secret by (simp add: merged_creds_def Let_def split: if_splits)

lemma reusable_secret:
  "holds_secret (reusable e saved) v \<Longrightarrow>
    \<exists>s. saved = Some s \<and> sv_endpoint s = e \<and> \<not> sv_mismatch s \<and> holds_secret (sv_creds s) v"
  using empty_secret by (auto simp: reusable_def split: option.splits if_splits)

lemma merge_secret:
  assumes "merge_datasource_connection parse_url b64 kind input saved = Inr blob" "holds_secret blob v"
  shows "holds_secret (fields_of_object (field input ''creds'')) v \<or>
    (\<exists>s. saved = Some s \<and> field blob ''endpoint'' = JStr (sv_endpoint s) \<and> \<not> sv_mismatch s \<and> holds_secret (sv_creds s) v)"
  using assms(1)
proof (rule merge_shape)
  fix a m
  assume m: "m = merged_creds kind (merged_endpoint input saved) input saved"
    and blob: "blob = [(''endpoint'', JStr (merged_endpoint input saved)), (''authType'', JStr (auth_text a))] @
      map (\<lambda>k. (k, field m k)) (kept_keys a m) @ merged_settings kind input saved"
  obtain k where k: "k \<in> set SECRET_KEYS" "(k, JStr v) \<in> set blob" using assms(2) by (rule holds_secretE)
  have "k \<noteq> ''endpoint''" "k \<noteq> ''authType''" using k(1) by (auto simp: SECRET_KEYS_def)
  then have "field m k = JStr v" using k(2) settings_no_secret [OF k(1)] unfolding blob by auto
  then have "holds_secret m v" using k(1) field_in holds_secretI by blast
  moreover have "field blob ''endpoint'' = JStr (merged_endpoint input saved)" by (simp add: blob field_def)
  ultimately show ?thesis using merged_creds_secret reusable_secret unfolding m by metis
qed

lemma merge_endpoint:
  assumes "merge_datasource_connection parse_url b64 kind input saved = Inr blob"
  shows "field blob ''endpoint'' = JStr (merged_endpoint input saved) \<and>
    assert_datasource_endpoint_allowed parse_url (merged_endpoint input saved) = Inr ()"
  using assms by (rule merge_shape) (simp add: field_def)

end
