(* ===== verification/Datasource_Store.thy ===== *)
theory Datasource_Store
  imports Datasource_Connection
begin

text \<open>
  Datasource instances and their credentials (\<^verbatim>\<open>web/lib/datasources.ts\<close>,
  \<^verbatim>\<open>web/lib/integration-credentials.ts\<close> and the routes that manage them): the rows, the one secret
  that maps instances and kinds to blobs, and the requests cut at their calls. The size of the
  secret is an argument; a call that throws ends its request.
\<close>

section \<open>Tables\<close>

definition DATASOURCE_KINDS :: "string list" where
  "DATASOURCE_KINDS = [''prometheus'', ''mimir'', ''loki'', ''tempo'', ''clickhouse'', ''jaeger'', ''dynatrace'', ''datadog'']"

definition KNOWN_CONNECTOR_SLUGS :: "string list" where
  "KNOWN_CONNECTOR_SLUGS = [''notion'', ''clickhouse'', ''prometheus'', ''loki'', ''tempo'', ''mimir'', ''jaeger'', ''dynatrace'',
     ''datadog'', ''grafana'', ''splunk'', ''newrelic'']"

definition MAX_SECRET_PAYLOAD_BYTES :: nat where "MAX_SECRET_PAYLOAD_BYTES = 65000"

record ds_state =
  dx_rows :: "ds_row list"
  dx_next :: nat
  dx_secrets :: js_object

definition row_at :: "nat \<Rightarrow> ds_state \<Rightarrow> ds_row option" where
  "row_at i st = List.find (\<lambda>r. dr_id r = i) (dx_rows st)"

definition change_ds_row :: "nat \<Rightarrow> (ds_row \<Rightarrow> ds_row) \<Rightarrow> ds_state \<Rightarrow> ds_state" where
  "change_ds_row i f st = st\<lparr>dx_rows := map (\<lambda>r. if dr_id r = i then f r else r) (dx_rows st)\<rparr>"

definition name_taken :: "string \<Rightarrow> nat option \<Rightarrow> ds_state \<Rightarrow> bool" where
  "name_taken name own st \<longleftrightarrow> list_ex (\<lambda>r. dr_name r = name \<and> Some (dr_id r) \<noteq> own) (dx_rows st)"

section \<open>The secret\<close>

text \<open>\<open>mutateCredentialMap\<close>: read, change and write under one lock; too large a map is refused.\<close>

definition put_secret :: "(js_object \<Rightarrow> nat) \<Rightarrow> string \<Rightarrow> js \<Rightarrow> ds_state \<Rightarrow> ds_state option" where
  "put_secret sz k blob st = (let m = AList.update k blob (dx_secrets st) in
     if MAX_SECRET_PAYLOAD_BYTES < sz m then None else Some (st\<lparr>dx_secrets := m\<rparr>))"

definition delete_secrets :: "(js_object \<Rightarrow> nat) \<Rightarrow> string list \<Rightarrow> ds_state \<Rightarrow> ds_state option" where
  "delete_secrets sz ks st = (if ks = [] then Some st
     else (let m = filter (\<lambda>(k, _). k \<notin> set ks) (dx_secrets st) in
       if MAX_SECRET_PAYLOAD_BYTES < sz m then None else Some (st\<lparr>dx_secrets := m\<rparr>)))"

definition mirror_default_credential :: "(js_object \<Rightarrow> nat) \<Rightarrow> string \<Rightarrow> js \<Rightarrow> ds_state \<Rightarrow> ds_state option" where
  "mirror_default_credential sz kind blob st =
     (if kind \<notin> set KNOWN_CONNECTOR_SLUGS then None else put_secret sz kind blob st)"

definition set_integration_credential_by_id :: "(js_object \<Rightarrow> nat) \<Rightarrow> nat \<Rightarrow> js_object \<Rightarrow> ds_state \<Rightarrow> ds_state option" where
  "set_integration_credential_by_id sz i blob st = (if i = 0 then None else put_secret sz (show_nat i) (JObj blob) st)"

text \<open>\<open>PUT /api/integrations/credential\<close>: a slug's own blob, or an official preset's under its prefix.\<close>

definition set_slug_credential :: "(js_object \<Rightarrow> nat) \<Rightarrow> bool \<Rightarrow> string \<Rightarrow> js_object \<Rightarrow> ds_state \<Rightarrow> ds_state option" where
  "set_slug_credential sz official slug secret st =
     (if slug \<notin> set KNOWN_CONNECTOR_SLUGS then None
      else put_secret sz (if official then ''mcp:'' @ slug else slug) (JObj secret) st)"

text \<open>\<open>typeof v === 'object'\<close> and not null: an object or an array.\<close>

definition typeof_object :: "js \<Rightarrow> bool" where
  "typeof_object v \<longleftrightarrow> (case v of JObj _ \<Rightarrow> True | JArr _ \<Rightarrow> True | _ \<Rightarrow> False)"

definition get_credential_by_id :: "nat \<Rightarrow> string \<Rightarrow> ds_state \<Rightarrow> js option" where
  "get_credential_by_id i kind st =
     (if typeof_object (field (dx_secrets st) (show_nat i)) then Some (field (dx_secrets st) (show_nat i))
      else if kind \<noteq> [] \<and> typeof_object (field (dx_secrets st) kind) then Some (field (dx_secrets st) kind) else None)"

definition configured_ids :: "ds_state \<Rightarrow> string list" where
  "configured_ids st = filter (\<lambda>k. k \<noteq> [] \<and> list_all is_digit k) (map fst (dx_secrets st))"

definition configured_presets :: "ds_state \<Rightarrow> string list" where
  "configured_presets st = map (drop 4) (filter (starts_with ''mcp:'') (map fst (dx_secrets st)))"

definition configured_slugs :: "ds_state \<Rightarrow> string list" where
  "configured_slugs st = filter (\<lambda>k. \<not> starts_with ''mcp:'' k \<and> \<not> (k \<noteq> [] \<and> list_all is_digit k)) (map fst (dx_secrets st))"

section \<open>Rows\<close>

text \<open>A new instance is the default when its kind has none yet.\<close>

definition row_settings :: "js_object \<Rightarrow> js" where
  "row_settings blob = JObj (sanitize_ds_settings (JObj (filter (\<lambda>(k, _). k = ''timeoutS'' \<or> k = ''database'') blob)))"

definition create_datasource :: "string \<Rightarrow> string \<Rightarrow> js_object \<Rightarrow> ds_state \<Rightarrow> (nat \<times> ds_state) option" where
  "create_datasource name kind blob st = (if kind \<notin> set DATASOURCE_KINDS \<or> name_taken name None st then None
     else Some (dx_next st, st\<lparr>dx_next := dx_next st + 1, dx_rows := dx_rows st @
       [\<lparr>dr_id = dx_next st, dr_name = name, dr_kind = kind, dr_endpoint = Some (cred blob ''endpoint''),
         dr_auth = auth_of (field blob ''authType''), dr_default = (\<not> list_ex (\<lambda>r. dr_kind r = kind \<and> dr_default r) (dx_rows st)),
         dr_settings = row_settings blob\<rparr>]\<rparr>))"

definition make_default :: "string \<Rightarrow> nat \<Rightarrow> ds_state \<Rightarrow> ds_state" where
  "make_default kind i st = change_ds_row i (\<lambda>r. r\<lparr>dr_default := True\<rparr>)
     (st\<lparr>dx_rows := map (\<lambda>r. if dr_kind r = kind then r\<lparr>dr_default := False\<rparr> else r) (dx_rows st)\<rparr>)"

text \<open>The instance of a kind with the least id.\<close>

definition next_default :: "string \<Rightarrow> ds_state \<Rightarrow> nat option" where
  "next_default kind st = (let ids = map dr_id (filter (\<lambda>r. dr_kind r = kind) (dx_rows st)) in
     if ids = [] then None else Some (Min (set ids)))"

section \<open>Requests\<close>

datatype ds_request =
    Create_Request js_object
  | Edit_Request js_object
  | Default_Request nat
  | Delete_Request nat
  | Credential_Request bool string js_object

text \<open>A request between two of its calls.\<close>

datatype ds_task =
    Key_New nat string js_object
  | Check_New nat string js_object
  | Mirror_Write string js
  | Read_Default nat string
  | Edit_Snapshot ds_row js_object
  | Name_Reread ds_row js_object js_object
  | Name_Mirror ds_row js_object js_object js
  | Edit_Key ds_row js_object js_object
  | Edit_Mirror ds_row js_object js_object
  | Edit_Reread ds_row js_object js_object
  | Edit_Second ds_row js_object js_object js
  | Edit_Commit ds_row js_object js_object
  | Drop_Key ds_row
  | Drop_Row ds_row
  | Repick string
  | Promote nat string
  | Drop_Mirror string

text \<open>Library calls: the URL parser, base64, \<open>Number(v)\<close> where it is an integer, and the size of the secret.\<close>

record ds_env =
  de_parse :: "string \<Rightarrow> url option"
  de_b64 :: "string \<Rightarrow> string"
  de_number :: "js \<Rightarrow> int option"
  de_size :: "js_object \<Rightarrow> nat"

definition edit_name :: "js_object \<Rightarrow> string option" where
  "edit_name body = map_option trim (str_of (field body ''name''))"

definition ds_id_of :: "int option \<Rightarrow> nat option" where
  "ds_id_of v = (case v of Some n \<Rightarrow> if 0 < n \<and> n \<le> 2 ^ 53 - 1 then Some (nat n) else None | None \<Rightarrow> None)"

definition edited_id :: "ds_task \<Rightarrow> nat option" where
  "edited_id t = (case t of
      Edit_Snapshot r _ \<Rightarrow> Some (dr_id r) | Name_Reread r _ _ \<Rightarrow> Some (dr_id r) | Name_Mirror r _ _ _ \<Rightarrow> Some (dr_id r)
    | Edit_Key r _ _ \<Rightarrow> Some (dr_id r) | Edit_Mirror r _ _ \<Rightarrow> Some (dr_id r) | Edit_Reread r _ _ \<Rightarrow> Some (dr_id r)
    | Edit_Second r _ _ _ \<Rightarrow> Some (dr_id r) | Edit_Commit r _ _ \<Rightarrow> Some (dr_id r) | _ \<Rightarrow> None)"

definition merge_in :: "ds_env \<Rightarrow> string \<Rightarrow> js_object \<Rightarrow> saved_connection option \<Rightarrow> input_error + js_object" where
  "merge_in env = merge_datasource_connection (de_parse env) (de_b64 env)"

definition saved_in :: "ds_row \<Rightarrow> ds_state \<Rightarrow> saved_connection" where
  "saved_in r st = effective_saved_connection r (dx_secrets st)"

text \<open>\<open>POST\<close> up to the inserted row, \<open>PATCH\<close> up to the row read under the instance's lock, and the rest.\<close>

definition begin_create :: "ds_env \<Rightarrow> js_object \<Rightarrow> ds_state \<Rightarrow> ds_task option \<times> ds_state" where
  "begin_create env body st =
     (let name = (case edit_name body of None \<Rightarrow> [] | Some n \<Rightarrow> n); kind = cred body ''kind'' in
      if name = [] \<or> kind \<notin> set DATASOURCE_KINDS then (None, st)
      else (case merge_in env kind body None of
          Inl _ \<Rightarrow> (None, st)
        | Inr blob \<Rightarrow> (case create_datasource name kind blob st of
            None \<Rightarrow> (None, st) | Some (i, st') \<Rightarrow> (Some (Key_New i kind blob), st'))))"

definition begin_edit :: "ds_env \<Rightarrow> js_object \<Rightarrow> ds_state \<Rightarrow> ds_task option" where
  "begin_edit env body st = (case ds_id_of (de_number env (field body ''id'')) of
      None \<Rightarrow> None
    | Some i \<Rightarrow> (case row_at i st of
        None \<Rightarrow> None
      | Some r \<Rightarrow> if dr_kind r \<in> set DATASOURCE_KINDS then Some (Edit_Snapshot r body) else None))"

definition secret_refused :: "ds_env \<Rightarrow> string \<Rightarrow> js_object \<Rightarrow> bool" where
  "secret_refused env slug secret \<longleftrightarrow> slug = [] \<or> cred secret ''endpoint'' \<noteq> [] \<and>
     assert_datasource_endpoint_allowed (de_parse env) (cred secret ''endpoint'') \<noteq> Inr ()"

definition begin_request :: "ds_env \<Rightarrow> ds_request \<Rightarrow> ds_state \<Rightarrow> ds_task option \<times> ds_state" where
  "begin_request env q st = (case q of
      Create_Request body \<Rightarrow> begin_create env body st
    | Edit_Request body \<Rightarrow> (begin_edit env body st, st)
    | Default_Request i \<Rightarrow> (case row_at i st of
          None \<Rightarrow> (None, st)
        | Some r \<Rightarrow> (Some (Read_Default i (dr_kind r)), make_default (dr_kind r) i st))
    | Delete_Request i \<Rightarrow> (map_option Drop_Key (row_at i st), st)
    | Credential_Request official slug secret \<Rightarrow> (None,
        if secret_refused env slug secret then st
        else case set_slug_credential (de_size env) official slug secret st of None \<Rightarrow> st | Some st' \<Rightarrow> st'))"

text \<open>
  A task's next call: the task that is left, none when the request is answered, and the state. A
  change of name is checked first; it and the other columns are seen by others at the commit.
\<close>

definition edit_ds_row :: "js_object \<Rightarrow> js_object \<Rightarrow> ds_row \<Rightarrow> ds_row" where
  "edit_ds_row body blob r = r\<lparr>dr_name := (case edit_name body of None \<Rightarrow> dr_name r | Some n \<Rightarrow> n),
     dr_endpoint := Some (cred blob ''endpoint''), dr_auth := auth_of (field blob ''authType''), dr_settings := row_settings blob\<rparr>"

definition edit_merged :: "ds_env \<Rightarrow> ds_row \<Rightarrow> js_object \<Rightarrow> ds_state \<Rightarrow> ds_task option" where
  "edit_merged env r body st = (case merge_in env (dr_kind r) body (Some (saved_in r st)) of
      Inl _ \<Rightarrow> None
    | Inr blob \<Rightarrow> (case edit_name body of
        None \<Rightarrow> Some (Edit_Key r body blob)
      | Some n \<Rightarrow> if n = dr_name r then Some (Edit_Key r body blob)
          else if name_taken n (Some (dr_id r)) st then None else Some (Name_Reread r body blob)))"

text \<open>The end of \<open>updateDatasource\<close>: the row read again, and when it is the default its credential.\<close>

definition default_credential :: "nat \<Rightarrow> ds_state \<Rightarrow> js option" where
  "default_credential i st = (case row_at i st of
      None \<Rightarrow> None | Some r \<Rightarrow> if dr_default r then get_credential_by_id i (dr_kind r) st else None)"

definition written :: "ds_task option \<Rightarrow> ds_state option \<Rightarrow> ds_state \<Rightarrow> ds_task option \<times> ds_state" where
  "written t w st = (case w of None \<Rightarrow> (None, st) | Some st' \<Rightarrow> (t, st'))"

definition or_unchanged :: "ds_state option \<Rightarrow> ds_state \<Rightarrow> ds_state" where
  "or_unchanged w st = (case w of None \<Rightarrow> st | Some st' \<Rightarrow> st')"

definition advance_task :: "ds_env \<Rightarrow> ds_task \<Rightarrow> ds_state \<Rightarrow> ds_task option \<times> ds_state" where
  "advance_task env t st = (case t of
      Key_New i kind blob \<Rightarrow> written (Some (Check_New i kind blob)) (set_integration_credential_by_id (de_size env) i blob st) st
    | Check_New i kind blob \<Rightarrow> (case row_at i st of
          Some r \<Rightarrow> (if dr_default r then Some (Mirror_Write kind (JObj blob)) else None, st) | None \<Rightarrow> (None, st))
    | Mirror_Write kind blob \<Rightarrow> written None (mirror_default_credential (de_size env) kind blob st) st
    | Read_Default i kind \<Rightarrow> (map_option (Mirror_Write kind) (get_credential_by_id i kind st), st)
    | Edit_Snapshot r body \<Rightarrow> (edit_merged env r body st, st)
    | Name_Reread r body blob \<Rightarrow> (Some (case default_credential (dr_id r) st of
          None \<Rightarrow> Edit_Key r body blob | Some c \<Rightarrow> Name_Mirror r body blob c), st)
    | Name_Mirror r body blob c \<Rightarrow> written (Some (Edit_Key r body blob)) (mirror_default_credential (de_size env) (dr_kind r) c st) st
    | Edit_Key r body blob \<Rightarrow> written (Some (if dr_default r then Edit_Mirror r body blob else Edit_Reread r body blob))
          (set_integration_credential_by_id (de_size env) (dr_id r) blob st) st
    | Edit_Mirror r body blob \<Rightarrow> written (Some (Edit_Reread r body blob)) (mirror_default_credential (de_size env) (dr_kind r) (JObj blob) st) st
    | Edit_Reread r body blob \<Rightarrow> (Some (case default_credential (dr_id r) st of
          None \<Rightarrow> Edit_Commit r body blob | Some c \<Rightarrow> Edit_Second r body blob c), st)
    | Edit_Second r body blob c \<Rightarrow> written (Some (Edit_Commit r body blob)) (mirror_default_credential (de_size env) (dr_kind r) c st) st
    | Edit_Commit r body blob \<Rightarrow> (None, change_ds_row (dr_id r) (edit_ds_row body blob) st)
    | Drop_Key r \<Rightarrow> (Some (Drop_Row r), or_unchanged (delete_secrets (de_size env) [show_nat (dr_id r)] st) st)
    | Drop_Row r \<Rightarrow> (if dr_default r then Some (Repick (dr_kind r)) else None,
        st\<lparr>dx_rows := filter (\<lambda>x. dr_id x \<noteq> dr_id r) (dx_rows st)\<rparr>)
    | Repick kind \<Rightarrow> (Some (case next_default kind st of None \<Rightarrow> Drop_Mirror kind | Some i \<Rightarrow> Promote i kind), st)
    | Promote i kind \<Rightarrow>
        (if row_at i st \<noteq> None \<and> list_ex (\<lambda>x. dr_kind x = kind \<and> dr_default x \<and> dr_id x \<noteq> i) (dx_rows st) then (None, st)
         else (Some (Read_Default i kind), change_ds_row i (\<lambda>x. x\<lparr>dr_default := True\<rparr>) st))
    | Drop_Mirror kind \<Rightarrow> (None, or_unchanged (delete_secrets (de_size env) [kind] st) st))"

text \<open>A call that throws ends its request, except that a credential not deleted does not keep its row.\<close>

definition failed_task :: "ds_task \<Rightarrow> ds_task option" where
  "failed_task t = (case t of Drop_Key r \<Rightarrow> Some (Drop_Row r) | _ \<Rightarrow> None)"

text \<open>\<open>resolveConnConfig\<close>: what Explore sends, by the rules of Test and Save; the ClickHouse timeout stays.\<close>

definition resolve_conn_config :: "ds_env \<Rightarrow> ds_row \<Rightarrow> ds_state \<Rightarrow> input_error + js_object" where
  "resolve_conn_config env r st = (case merge_in env (dr_kind r) [] (Some (saved_in r st)) of
      Inl e \<Rightarrow> Inl e
    | Inr c \<Rightarrow> Inr (filter (\<lambda>(k, _). dr_kind r = ''clickhouse'' \<or> k \<noteq> ''timeoutS'') c))"

text \<open>\<open>POST /api/datasources/test\<close>: the connection it probes, with nothing stored.\<close>

definition tested_connection :: "ds_env \<Rightarrow> js_object \<Rightarrow> ds_state \<Rightarrow> js_object option" where
  "tested_connection env body st = (let kind = cred body ''kind'' in
     if kind \<notin> set DATASOURCE_KINDS then None
     else if \<not> supplied body ''id'' then (case merge_in env kind body None of Inl _ \<Rightarrow> None | Inr c \<Rightarrow> Some c)
     else (case field body ''id'' of
         JNum n \<Rightarrow> (case Option.bind (ds_id_of (Some n)) (\<lambda>i. row_at i st) of
             None \<Rightarrow> None
           | Some r \<Rightarrow> if dr_kind r \<noteq> kind then None
               else (case merge_in env kind body (Some (saved_in r st)) of Inl _ \<Rightarrow> None | Inr c \<Rightarrow> Some c))
       | _ \<Rightarrow> None))"

end
