(* ===== verification/Datasource_Run.thy ===== *)
theory Datasource_Run
  imports Datasource_Store
begin

text \<open>
  The datasource requests together: any number of them, each at one of its calls, in any order,
  with calls that throw, and with the edits of one instance serialized by its lock. What was typed
  in is recorded, with the endpoint it was typed in for, so that the stored credentials can be
  traced back to it.
\<close>

section \<open>The run\<close>

record ds_world =
  dw_state :: ds_state
  dw_tasks :: "ds_task list"
  dw_given :: "(string \<times> js_object) list"

definition given_creds :: "js_object \<Rightarrow> saved_connection option \<Rightarrow> (string \<times> js_object) list" where
  "given_creds body saved = [(merged_endpoint body saved, fields_of_object (field body ''creds''))]"

definition request_given :: "ds_request \<Rightarrow> (string \<times> js_object) list" where
  "request_given q = (case q of
      Create_Request body \<Rightarrow> given_creds body None
    | Credential_Request _ _ secret \<Rightarrow> (case field secret ''endpoint'' of JStr e \<Rightarrow> [(e, secret)] | _ \<Rightarrow> [])
    | _ \<Rightarrow> [])"

definition task_given :: "ds_task \<Rightarrow> ds_state \<Rightarrow> (string \<times> js_object) list" where
  "task_given t st = (case t of Edit_Snapshot r body \<Rightarrow> given_creds body (Some (saved_in r st)) | _ \<Rightarrow> [])"

definition given_for :: "(string \<times> js_object) list \<Rightarrow> string \<Rightarrow> string \<Rightarrow> bool" where
  "given_for L e v \<longleftrightarrow> list_ex (\<lambda>(e', c). e' = e \<and> holds_secret c v) L"

definition option_list :: "'a option \<Rightarrow> 'a list" where
  "option_list x = (case x of None \<Rightarrow> [] | Some y \<Rightarrow> [y])"

text \<open>\<open>withDatasourceLock\<close>: an edit starts when no other edit of its instance is under way.\<close>

definition unlocked :: "ds_task option \<Rightarrow> ds_task list \<Rightarrow> bool" where
  "unlocked t ts \<longleftrightarrow> list_all (\<lambda>x. edited_id x = None \<or> (case t of None \<Rightarrow> True | Some y \<Rightarrow> edited_id y \<noteq> edited_id x)) ts"

definition begun :: "ds_env \<Rightarrow> ds_request \<Rightarrow> ds_world \<Rightarrow> ds_world" where
  "begun env q w = (let (t, st) = begin_request env q (dw_state w) in
     \<lparr>dw_state = st, dw_tasks = dw_tasks w @ option_list t, dw_given = dw_given w @ request_given q\<rparr>)"

definition advanced :: "ds_env \<Rightarrow> nat \<Rightarrow> ds_world \<Rightarrow> ds_world" where
  "advanced env i w = (let (t, st) = advance_task env (dw_tasks w ! i) (dw_state w) in
     \<lparr>dw_state = st, dw_tasks = take i (dw_tasks w) @ option_list t @ drop (Suc i) (dw_tasks w),
       dw_given = dw_given w @ task_given (dw_tasks w ! i) (dw_state w)\<rparr>)"

definition broken_off :: "nat \<Rightarrow> ds_world \<Rightarrow> ds_world" where
  "broken_off i w = w\<lparr>dw_tasks := take i (dw_tasks w) @ option_list (failed_task (dw_tasks w ! i)) @ drop (Suc i) (dw_tasks w)\<rparr>"

inductive ds_step :: "ds_env \<Rightarrow> ds_world \<Rightarrow> ds_world \<Rightarrow> bool" for env where
  opened: "unlocked (fst (begin_request env q (dw_state w))) (dw_tasks w) \<Longrightarrow> ds_step env w (begun env q w)"
| call: "i < length (dw_tasks w) \<Longrightarrow> ds_step env w (advanced env i w)"
| fault: "i < length (dw_tasks w) \<Longrightarrow> ds_step env w (broken_off i w)"

definition empty_ds :: ds_world where
  "empty_ds = \<lparr>dw_state = \<lparr>dx_rows = [], dx_next = 1, dx_secrets = []\<rparr>, dw_tasks = [], dw_given = []\<rparr>"

inductive ds_reachable :: "ds_env \<Rightarrow> ds_world \<Rightarrow> bool" for env where
  start: "ds_reachable env empty_ds"
| step: "ds_reachable env w \<Longrightarrow> ds_step env w w' \<Longrightarrow> ds_reachable env w'"

section \<open>Stored credentials are bound\<close>

definition bound_blob :: "(string \<times> js_object) list \<Rightarrow> js \<Rightarrow> bool" where
  "bound_blob L b \<longleftrightarrow> (\<forall>fs e v. b = JObj fs \<longrightarrow> field fs ''endpoint'' = JStr e \<longrightarrow> holds_secret fs v \<longrightarrow> given_for L e v)"

definition own_blob :: "(string \<times> js_object) list \<Rightarrow> js \<Rightarrow> bool" where
  "own_blob L b \<longleftrightarrow> bound_blob L b \<and> str_of (attr b ''endpoint'') \<noteq> None"

definition secrets_bound :: "(string \<times> js_object) list \<Rightarrow> js_object \<Rightarrow> bool" where
  "secrets_bound L m \<longleftrightarrow> (\<forall>k. bound_blob L (field m k)) \<and>
     (\<forall>i. has_own m (show_nat i) \<longrightarrow> own_blob L (field m (show_nat i)))"

definition task_bound :: "(string \<times> js_object) list \<Rightarrow> ds_task \<Rightarrow> bool" where
  "task_bound L t \<longleftrightarrow> (case t of
      Key_New _ _ b \<Rightarrow> own_blob L (JObj b) | Check_New _ _ b \<Rightarrow> own_blob L (JObj b) | Mirror_Write _ c \<Rightarrow> bound_blob L c
    | Name_Reread _ _ b \<Rightarrow> own_blob L (JObj b) | Name_Mirror _ _ b c \<Rightarrow> own_blob L (JObj b) \<and> bound_blob L c
    | Edit_Key _ _ b \<Rightarrow> own_blob L (JObj b) | Edit_Mirror _ _ b \<Rightarrow> own_blob L (JObj b) | Edit_Reread _ _ b \<Rightarrow> own_blob L (JObj b)
    | Edit_Second _ _ b c \<Rightarrow> own_blob L (JObj b) \<and> bound_blob L c | Edit_Commit _ _ b \<Rightarrow> own_blob L (JObj b)
    | _ \<Rightarrow> True)"

definition ds_bound :: "ds_world \<Rightarrow> bool" where
  "ds_bound w \<longleftrightarrow> secrets_bound (dw_given w) (dx_secrets (dw_state w)) \<and> list_all (task_bound (dw_given w)) (dw_tasks w)"

lemma given_for_append [simp]: "given_for (L @ M) e v \<longleftrightarrow> given_for L e v \<or> given_for M e v"
  by (simp add: given_for_def)

lemma bound_mono: "bound_blob L b \<Longrightarrow> bound_blob (L @ M) b"
  by (simp add: bound_blob_def)

lemma own_mono: "own_blob L b \<Longrightarrow> own_blob (L @ M) b"
  by (simp add: own_blob_def bound_mono)

lemma secrets_mono: "secrets_bound L m \<Longrightarrow> secrets_bound (L @ M) m"
  by (simp add: secrets_bound_def bound_mono own_mono)

lemma task_mono: "task_bound L t \<Longrightarrow> task_bound (L @ M) t"
  by (simp add: task_bound_def bound_mono own_mono split: ds_task.splits)

lemma bound_undef [simp]: "bound_blob L JUndef"
  by (simp add: bound_blob_def)

lemma own_bound: "own_blob L b \<Longrightarrow> bound_blob L b"
  by (simp add: own_blob_def)

subsection \<open>The writes\<close>

lemma field_put: "field (AList.update k v m) x = (if x = k then v else field m x)"
  by (simp add: field_def update_conv')

lemma has_own_put: "has_own (AList.update k v m) x \<longleftrightarrow> x = k \<or> has_own m x"
  by (simp add: has_own_def update_conv')

lemma map_of_without: "map_of (filter (\<lambda>(k, _). k \<notin> set ks) m) x = (if x \<in> set ks then None else map_of m x)"
  by (induction m) auto

lemma slug_no_id: "k \<in> set KNOWN_CONNECTOR_SLUGS \<Longrightarrow> k \<noteq> show_nat i"
  using show_nat_digits [of i] by (auto simp: KNOWN_CONNECTOR_SLUGS_def is_digit_def dest: sym)

lemma preset_no_id: "''mcp:'' @ k \<noteq> show_nat i"
  using show_nat_digits [of i] by (auto simp: is_digit_def dest: sym)

lemma put_bound:
  assumes "put_secret sz k b st = Some st'" "secrets_bound L (dx_secrets st)" "bound_blob L b" "own_blob L b \<or> (\<forall>i. k \<noteq> show_nat i)"
  shows "secrets_bound L (dx_secrets st')"
proof -
  have "dx_secrets st' = AList.update k b (dx_secrets st)"
    using assms(1) by (auto simp: put_secret_def Let_def split: if_splits)
  then show ?thesis using assms(2-4) by (auto simp: secrets_bound_def field_put has_own_put)
qed

lemma mirror_bound:
  assumes "mirror_default_credential sz k b st = Some st'" "secrets_bound L (dx_secrets st)" "bound_blob L b"
  shows "secrets_bound L (dx_secrets st')"
  using assms slug_no_id by (auto simp: mirror_default_credential_def split: if_splits intro: put_bound)

lemma key_bound:
  assumes "set_integration_credential_by_id sz i b st = Some st'" "secrets_bound L (dx_secrets st)" "own_blob L (JObj b)"
  shows "secrets_bound L (dx_secrets st')"
  using assms own_bound by (auto simp: set_integration_credential_by_id_def split: if_splits intro: put_bound)

lemma slug_bound:
  assumes "set_slug_credential sz official slug b st = Some st'" "secrets_bound L (dx_secrets st)" "bound_blob L (JObj b)"
  shows "secrets_bound L (dx_secrets st')"
  using assms slug_no_id preset_no_id
  by (auto simp: set_slug_credential_def split: if_splits intro: put_bound)

lemma delete_bound:
  assumes "delete_secrets sz ks st = Some st'" "secrets_bound L (dx_secrets st)"
  shows "secrets_bound L (dx_secrets st')"
proof (cases "ks = []")
  case True
  then show ?thesis using assms by (simp add: delete_secrets_def)
next
  case False
  then have "dx_secrets st' = filter (\<lambda>(k, _). k \<notin> set ks) (dx_secrets st)"
    using assms(1) by (auto simp: delete_secrets_def Let_def split: if_splits)
  then show ?thesis using assms(2)
    by (auto simp: secrets_bound_def field_def has_own_def map_of_without split: if_splits)
qed

subsection \<open>The merge\<close>

lemma saved_given:
  assumes "secrets_bound L (dx_secrets st)" "holds_secret (sv_creds (saved_in r st)) v"
  shows "given_for L (sv_endpoint (saved_in r st)) v"
proof -
  let ?m = "dx_secrets st"
  obtain raw where raw: "field ?m (show_nat (dr_id r)) = JObj raw \<or>
      field ?m (dr_kind r) = JObj raw \<and> str_of (field raw ''endpoint'') \<noteq> None" "holds_secret raw v"
    "bound_to (sv_endpoint (saved_in r st)) raw"
    using saved_secret [of r ?m v] assms(2) unfolding saved_in_def by blast
  have own: "own_blob L (field ?m (show_nat i))" if "field ?m (show_nat i) = JObj raw" for i
    using assms(1) that by (auto simp: secrets_bound_def has_own_def field_def split: option.splits)
  obtain k where k: "field ?m k = JObj raw" "str_of (field raw ''endpoint'') \<noteq> None"
    using raw(1) own by (auto simp: own_blob_def attr_def)
  then obtain e where e: "field raw ''endpoint'' = JStr e"
    by (auto simp: str_of_def split: js.splits)
  then have "e = sv_endpoint (saved_in r st)"
    using raw(3) by (auto simp: bound_to_def has_own_def field_def split: option.splits)
  then show ?thesis using assms(1) k(1) e raw(2) unfolding secrets_bound_def bound_blob_def by blast
qed

lemma merged_given:
  assumes "merge_in env kind body saved = Inr c" "holds_secret c v"
    "saved = None \<or> saved = Some (saved_in r st) \<and> secrets_bound L (dx_secrets st)"
  shows "holds_secret (fields_of_object (field body ''creds'')) v \<or> (\<exists>e. field c ''endpoint'' = JStr e \<and> given_for L e v)"
  using merge_secret [OF assms(1) [unfolded merge_in_def] assms(2)] assms(3) saved_given by auto

lemma merged_own:
  assumes "merge_in env kind body saved = Inr c"
    "saved = None \<or> saved = Some (saved_in r st) \<and> secrets_bound L (dx_secrets st)"
  shows "own_blob (L @ given_creds body saved) (JObj c)"
proof -
  have e: "field c ''endpoint'' = JStr (merged_endpoint body saved)"
    using merge_endpoint [OF assms(1) [unfolded merge_in_def]] by simp
  have "given_for (L @ given_creds body saved) (merged_endpoint body saved) v" if "holds_secret c v" for v
    using merged_given [OF assms(1) that assms(2)] e by (auto simp: given_creds_def given_for_def)
  then show ?thesis by (simp add: own_blob_def bound_blob_def attr_def str_of_def e)
qed

lemma explored_given:
  assumes "secrets_bound L (dx_secrets st)" "resolve_conn_config env r st = Inr c" "holds_secret c v"
  shows "\<exists>e. field c ''endpoint'' = JStr e \<and> given_for L e v"
proof -
  obtain d where d: "merge_in env (dr_kind r) [] (Some (saved_in r st)) = Inr d"
    "c = filter (\<lambda>(k, _). dr_kind r = ''clickhouse'' \<or> k \<noteq> ''timeoutS'') d"
    using assms(2) by (auto simp: resolve_conn_config_def split: sum.splits)
  have "holds_secret d v" using assms(3) unfolding d(2) by (auto simp: holds_secret_def list_ex_iff)
  moreover have "field c ''endpoint'' = field d ''endpoint''"
    unfolding d(2) by (induction d) (auto simp: field_def)
  ultimately show ?thesis using merged_given [OF d(1), of v r st L] assms(1) empty_secret
    by (simp add: field_def fields_of_object_def)
qed

subsection \<open>The steps\<close>

lemma credential_bound: "secrets_bound L (dx_secrets st) \<Longrightarrow> get_credential_by_id i kind st = Some c \<Longrightarrow> bound_blob L c"
  by (auto simp: get_credential_by_id_def secrets_bound_def split: if_splits)

lemma default_credential_bound: "secrets_bound L (dx_secrets st) \<Longrightarrow> default_credential i st = Some c \<Longrightarrow> bound_blob L c"
  by (auto simp: default_credential_def intro: credential_bound split: option.splits if_splits)

lemma create_secrets: "create_datasource name kind blob st = Some (i, st') \<Longrightarrow> dx_secrets st' = dx_secrets st"
  by (auto simp: create_datasource_def split: if_splits)

lemma change_row_secrets [simp]: "dx_secrets (change_ds_row i f st) = dx_secrets st"
  by (simp add: change_ds_row_def)

lemma begin_bound:
  assumes "begin_request env q st = (t, st')" "secrets_bound L (dx_secrets st)"
  shows "secrets_bound (L @ request_given q) (dx_secrets st') \<and> list_all (task_bound (L @ request_given q)) (option_list t)"
proof (cases q)
  case (Create_Request body)
  have "list_all (task_bound (L @ request_given q)) (option_list t) \<and> dx_secrets st' = dx_secrets st"
    using assms(1) merged_own [of env _ body None _ undefined undefined L] create_secrets
    by (auto simp: Create_Request begin_request_def begin_create_def Let_def option_list_def task_bound_def request_given_def
        split: if_splits sum.splits option.splits)
  then show ?thesis using secrets_mono [OF assms(2)] by simp
next
  case (Edit_Request body)
  then show ?thesis using assms
    by (auto simp: begin_request_def begin_edit_def option_list_def task_bound_def request_given_def split: option.splits if_splits)
next
  case (Default_Request i)
  then show ?thesis using assms
    by (auto simp: begin_request_def make_default_def option_list_def task_bound_def request_given_def split: option.splits)
next
  case (Delete_Request i)
  then show ?thesis using assms
    by (auto simp: begin_request_def option_list_def task_bound_def request_given_def split: option.splits)
next
  case (Credential_Request official slug secret)
  have t: "t = None" using assms(1) by (simp add: Credential_Request begin_request_def)
  have "bound_blob (L @ request_given q) (JObj secret)"
    by (auto simp: bound_blob_def request_given_def Credential_Request given_for_def)
  then have "secrets_bound (L @ request_given q) (dx_secrets st')"
    using assms(1) slug_bound secrets_mono [OF assms(2)]
    by (auto simp: Credential_Request begin_request_def split: if_splits option.splits)
  then show ?thesis by (simp add: t option_list_def)
qed

definition outcome_bound :: "(string \<times> js_object) list \<Rightarrow> ds_task option \<times> ds_state \<Rightarrow> bool" where
  "outcome_bound L r \<longleftrightarrow> list_all (task_bound L) (option_list (fst r)) \<and> secrets_bound L (dx_secrets (snd r))"

lemma written_bound:
  assumes "secrets_bound L (dx_secrets st)" "\<And>st'. w = Some st' \<Longrightarrow> secrets_bound L (dx_secrets st')"
    "list_all (task_bound L) (option_list t)"
  shows "outcome_bound L (written t w st)"
  using assms by (auto simp: outcome_bound_def written_def option_list_def split: option.splits)

lemma unchanged_bound:
  assumes "secrets_bound L (dx_secrets st)" "\<And>st'. w = Some st' \<Longrightarrow> secrets_bound L (dx_secrets st')"
  shows "secrets_bound L (dx_secrets (or_unchanged w st))"
  using assms by (auto simp: or_unchanged_def split: option.splits)

lemma merged_task_bound:
  assumes "secrets_bound L (dx_secrets st)" "edit_merged env r body st = Some t"
  shows "task_bound (L @ given_creds body (Some (saved_in r st))) t"
  using assms merged_own [of env "dr_kind r" body "Some (saved_in r st)" _ r st L]
  by (auto simp: edit_merged_def task_bound_def split: sum.splits option.splits if_splits)

lemma advance_bound:
  assumes "secrets_bound L (dx_secrets st)" "task_bound L t"
  shows "outcome_bound (L @ task_given t st) (advance_task env t st)"
proof (cases t)
  case (Edit_Snapshot r body)
  then show ?thesis using secrets_mono [OF assms(1)] merged_task_bound [OF assms(1)]
    by (auto simp: outcome_bound_def advance_task_def task_given_def option_list_def split: option.splits)
next
  case (Key_New i kind b)
  then show ?thesis using assms key_bound
    by (auto simp: advance_task_def task_given_def task_bound_def option_list_def intro!: written_bound)
next
  case (Check_New i kind b)
  then show ?thesis using assms own_bound
    by (auto simp: outcome_bound_def advance_task_def task_given_def task_bound_def option_list_def split: option.splits)
next
  case (Mirror_Write kind c)
  then show ?thesis using assms mirror_bound
    by (auto simp: advance_task_def task_given_def task_bound_def option_list_def intro!: written_bound)
next
  case (Read_Default i kind)
  then show ?thesis using assms credential_bound
    by (auto simp: outcome_bound_def advance_task_def task_given_def task_bound_def option_list_def split: option.splits)
next
  case (Name_Reread r body b)
  then show ?thesis using assms default_credential_bound
    by (auto simp: outcome_bound_def advance_task_def task_given_def task_bound_def option_list_def split: option.splits)
next
  case (Name_Mirror r body b c)
  then show ?thesis using assms mirror_bound
    by (auto simp: advance_task_def task_given_def task_bound_def option_list_def intro!: written_bound)
next
  case (Edit_Key r body b)
  then show ?thesis using assms key_bound
    by (auto simp: advance_task_def task_given_def task_bound_def option_list_def intro!: written_bound)
next
  case (Edit_Mirror r body b)
  then show ?thesis using assms mirror_bound own_bound
    by (auto simp: advance_task_def task_given_def task_bound_def option_list_def intro!: written_bound)
next
  case (Edit_Reread r body b)
  then show ?thesis using assms default_credential_bound
    by (auto simp: outcome_bound_def advance_task_def task_given_def task_bound_def option_list_def split: option.splits)
next
  case (Edit_Second r body b c)
  then show ?thesis using assms mirror_bound
    by (auto simp: advance_task_def task_given_def task_bound_def option_list_def intro!: written_bound)
next
  case (Edit_Commit r body b)
  then show ?thesis using assms
    by (simp add: outcome_bound_def advance_task_def task_given_def option_list_def)
next
  case (Drop_Key r)
  then show ?thesis using assms delete_bound
    by (auto simp: outcome_bound_def advance_task_def task_given_def task_bound_def option_list_def intro!: unchanged_bound)
next
  case (Drop_Row r)
  then show ?thesis using assms
    by (simp add: outcome_bound_def advance_task_def task_given_def task_bound_def option_list_def)
next
  case (Repick kind)
  then show ?thesis using assms
    by (simp add: outcome_bound_def advance_task_def task_given_def task_bound_def option_list_def split: option.splits)
next
  case (Promote i kind)
  then show ?thesis using assms
    by (simp add: outcome_bound_def advance_task_def task_given_def task_bound_def option_list_def)
next
  case (Drop_Mirror kind)
  then show ?thesis using assms delete_bound
    by (auto simp: outcome_bound_def advance_task_def task_given_def option_list_def intro!: unchanged_bound)
qed

lemma tasks_mono: "list_all (task_bound L) ts \<Longrightarrow> list_all (task_bound (L @ M)) ts"
  using task_mono by (auto simp: list_all_iff)

lemma list_all_parts: "list_all P xs \<Longrightarrow> list_all P (take i xs) \<and> list_all P (drop j xs)"
  by (auto simp: list_all_iff dest: in_set_takeD in_set_dropD)

lemma step_bound: "ds_step env w w' \<Longrightarrow> ds_bound w \<Longrightarrow> ds_bound w'"
proof (induction rule: ds_step.induct)
  case (opened q w)
  obtain t st where r: "begin_request env q (dw_state w) = (t, st)" by fastforce
  show ?case using opened(2) begin_bound [OF r] tasks_mono by (simp add: begun_def r ds_bound_def)
next
  case (call i w)
  obtain t st where r: "advance_task env (dw_tasks w ! i) (dw_state w) = (t, st)" by fastforce
  have "outcome_bound (dw_given w @ task_given (dw_tasks w ! i) (dw_state w)) (t, st)"
    using advance_bound [of "dw_given w" "dw_state w" "dw_tasks w ! i" env] call
    by (simp add: r ds_bound_def list_all_length)
  then show ?case using call(2) list_all_parts [OF tasks_mono]
    by (simp add: advanced_def r ds_bound_def outcome_bound_def)
next
  case (fault i w)
  have "list_all (task_bound (dw_given w)) (option_list (failed_task (dw_tasks w ! i)))"
    by (simp add: option_list_def failed_task_def task_bound_def split: ds_task.splits)
  then show ?case using fault(2) by (simp add: broken_off_def ds_bound_def list_all_parts)
qed

lemma reachable_bound: "ds_reachable env w \<Longrightarrow> ds_bound w"
proof (induction rule: ds_reachable.induct)
  case start
  show ?case by (simp add: ds_bound_def empty_ds_def secrets_bound_def field_def has_own_def)
qed (rule step_bound)

section \<open>Where a stored credential goes\<close>

text \<open>
  C11. A stored credential is only sent where it was meant for. However requests to create, edit,
  make default and delete instances and to write integration credentials interleave and fail, every
  credential of a connection that Test, Save or Explore builds was given in that very request, or had
  been submitted by an administrator together with the endpoint the connection goes to.
\<close>

theorem stored_credential_goes_to_its_endpoint:
  assumes "ds_reachable env w" "holds_secret c v"
    "merge_in env kind body (Some (saved_in r (dw_state w))) = Inr c
      \<or> resolve_conn_config env r (dw_state w) = Inr c \<or> tested_connection env body (dw_state w) = Some c"
  shows "holds_secret (fields_of_object (field body ''creds'')) v \<or>
    (\<exists>e. field c ''endpoint'' = JStr e \<and> given_for (dw_given w) e v)"
proof -
  have m: "secrets_bound (dw_given w) (dx_secrets (dw_state w))"
    using reachable_bound [OF assms(1)] by (simp add: ds_bound_def)
  have merged: ?thesis if "merge_in env k body s = Inr c" "s = None \<or> s = Some (saved_in x (dw_state w))" for k s x
    using merged_given [OF that(1) assms(2), of x "dw_state w"] that(2) m by auto
  from assms(3) show ?thesis
  proof (elim disjE)
    assume "merge_in env kind body (Some (saved_in r (dw_state w))) = Inr c"
    then show ?thesis by (rule merged) simp
  next
    assume "resolve_conn_config env r (dw_state w) = Inr c"
    then show ?thesis using explored_given [OF m _ assms(2)] by blast
  next
    assume "tested_connection env body (dw_state w) = Some c"
    then show ?thesis using merged
      by (auto simp: tested_connection_def Let_def split: if_splits js.splits option.splits sum.splits)
  qed
qed

text \<open>An instance created with a token; then a second one, whose credential is not written.\<close>

definition demo_ds_env :: ds_env where
  "demo_ds_env = \<lparr>de_parse = (\<lambda>s. if s = ''http://a.x'' then Some \<lparr>u_protocol = ''http:'', u_hostname = ''a.x'', u_username = [],
        u_password = [], u_search = [], u_hash = []\<rparr>
      else if s = ''http://b.x'' then Some \<lparr>u_protocol = ''http:'', u_hostname = ''b.x'', u_username = [],
        u_password = [], u_search = [], u_hash = []\<rparr> else None),
     de_b64 = (\<lambda>s. s), de_number = (\<lambda>v. case v of JNum n \<Rightarrow> Some n | _ \<Rightarrow> None), de_size = length\<rparr>"

definition demo_ds_body :: "string \<Rightarrow> string \<Rightarrow> js_object" where
  "demo_ds_body name e = [(''name'', JStr name), (''kind'', JStr ''loki''), (''endpoint'', JStr e), (''authType'', JStr ''bearer''),
     (''creds'', JObj [(''token'', JStr ''t'')])]"

definition demo_ds_blob :: "string \<Rightarrow> js_object" where
  "demo_ds_blob e = [(''endpoint'', JStr e), (''authType'', JStr ''bearer''), (''token'', JStr ''t'')]"

definition demo_ds_row :: "nat \<Rightarrow> string \<Rightarrow> string \<Rightarrow> bool \<Rightarrow> ds_row" where
  "demo_ds_row i name e d = \<lparr>dr_id = i, dr_name = name, dr_kind = ''loki'', dr_endpoint = Some e, dr_auth = Some Auth_Bearer,
     dr_default = d, dr_settings = JObj []\<rparr>"

definition demo_one :: "js_object \<Rightarrow> ds_task list \<Rightarrow> ds_world" where
  "demo_one m ts = \<lparr>dw_state = \<lparr>dx_rows = [demo_ds_row 1 ''A'' ''http://a.x'' True], dx_next = 2, dx_secrets = m\<rparr>,
     dw_tasks = ts, dw_given = [(''http://a.x'', [(''token'', JStr ''t'')])]\<rparr>"

definition demo_key :: js_object where "demo_key = [(''1'', JObj (demo_ds_blob ''http://a.x''))]"

definition demo_secret :: js_object where "demo_secret = demo_key @ [(''loki'', JObj (demo_ds_blob ''http://a.x''))]"

lemma demo_created:
  "begun demo_ds_env (Create_Request (demo_ds_body ''A'' ''http://a.x'')) empty_ds =
     demo_one [] [Key_New 1 ''loki'' (demo_ds_blob ''http://a.x'')]"
  by code_simp

lemma demo_keyed:
  "advanced demo_ds_env 0 (demo_one [] [Key_New 1 ''loki'' (demo_ds_blob ''http://a.x'')]) =
     demo_one demo_key [Check_New 1 ''loki'' (demo_ds_blob ''http://a.x'')]"
  by code_simp

lemma demo_checked:
  "advanced demo_ds_env 0 (demo_one demo_key [Check_New 1 ''loki'' (demo_ds_blob ''http://a.x'')]) =
     demo_one demo_key [Mirror_Write ''loki'' (JObj (demo_ds_blob ''http://a.x''))]"
  by code_simp

lemma demo_mirrored:
  "advanced demo_ds_env 0 (demo_one demo_key [Mirror_Write ''loki'' (JObj (demo_ds_blob ''http://a.x''))]) = demo_one demo_secret []"
  by code_simp

lemma begun_reachable:
  "ds_reachable env w \<Longrightarrow> unlocked (fst (begin_request env q (dw_state w))) (dw_tasks w) \<Longrightarrow> begun env q w = w' \<Longrightarrow>
    ds_reachable env w'"
  using ds_reachable.step ds_step.opened by metis

lemma advanced_reachable:
  "ds_reachable env w \<Longrightarrow> dw_tasks w \<noteq> [] \<Longrightarrow> advanced env 0 w = w' \<Longrightarrow> ds_reachable env w'"
  using ds_reachable.step ds_step.call by fastforce

lemma faulted_reachable:
  "ds_reachable env w \<Longrightarrow> dw_tasks w \<noteq> [] \<Longrightarrow> broken_off 0 w = w' \<Longrightarrow> ds_reachable env w'"
  using ds_reachable.step ds_step.fault by fastforce

lemma demo_one_tasks [simp]: "dw_tasks (demo_one m ts) = ts"
  by (simp add: demo_one_def)

lemma demo_one_reachable: "ds_reachable demo_ds_env (demo_one demo_secret [])"
proof -
  have "ds_reachable demo_ds_env (demo_one [] [Key_New 1 ''loki'' (demo_ds_blob ''http://a.x'')])"
    by (rule begun_reachable [OF ds_reachable.start _ demo_created]) (simp add: unlocked_def empty_ds_def)
  then have "ds_reachable demo_ds_env (demo_one demo_key [Check_New 1 ''loki'' (demo_ds_blob ''http://a.x'')])"
    by (rule advanced_reachable [OF _ _ demo_keyed]) simp
  then have "ds_reachable demo_ds_env (demo_one demo_key [Mirror_Write ''loki'' (JObj (demo_ds_blob ''http://a.x''))])"
    by (rule advanced_reachable [OF _ _ demo_checked]) simp
  then show ?thesis by (rule advanced_reachable [OF _ _ demo_mirrored]) simp
qed

lemma demo_explored:
  "resolve_conn_config demo_ds_env (demo_ds_row 1 ''A'' ''http://a.x'' True) (dw_state (demo_one demo_secret [])) =
     Inr (demo_ds_blob ''http://a.x'')"
  by code_simp

theorem stored_credential_goes_to_its_endpoint_witness:
  "\<exists>c e. resolve_conn_config demo_ds_env (demo_ds_row 1 ''A'' ''http://a.x'' True) (dw_state (demo_one demo_secret [])) = Inr c \<and>
     field c ''endpoint'' = JStr e \<and> given_for (dw_given (demo_one demo_secret [])) e ''t''"
proof -
  have "holds_secret (demo_ds_blob ''http://a.x'') ''t''" by code_simp
  moreover have "\<not> holds_secret (fields_of_object (field [] ''creds'')) ''t''" by code_simp
  ultimately show ?thesis
    using stored_credential_goes_to_its_endpoint [OF demo_one_reachable _ disjI2 [OF disjI1 [OF demo_explored]], of "''t''" "[]"]
      demo_explored by blast
qed

text \<open>
  The mirror that outlives its instance: the second instance has no credential, since its write
  failed; when the first is deleted, the second becomes the default and the mirror keeps the
  deleted instance's endpoint and token.
\<close>

definition demo_two :: "ds_row list \<Rightarrow> js_object \<Rightarrow> ds_task list \<Rightarrow> ds_world" where
  "demo_two rows m ts = \<lparr>dw_state = \<lparr>dx_rows = rows, dx_next = 3, dx_secrets = m\<rparr>, dw_tasks = ts,
     dw_given = [(''http://a.x'', [(''token'', JStr ''t'')]), (''http://b.x'', [(''token'', JStr ''t'')])]\<rparr>"

definition demo_mirror :: js_object where "demo_mirror = [(''loki'', JObj (demo_ds_blob ''http://a.x''))]"

definition demo_rows :: "ds_row list" where
  "demo_rows = [demo_ds_row 1 ''A'' ''http://a.x'' True, demo_ds_row 2 ''B'' ''http://b.x'' False]"

lemma demo_second:
  "begun demo_ds_env (Create_Request (demo_ds_body ''B'' ''http://b.x'')) (demo_one demo_secret []) =
     demo_two demo_rows demo_secret [Key_New 2 ''loki'' (demo_ds_blob ''http://b.x'')]"
  by code_simp

lemma demo_second_fails:
  "broken_off 0 (demo_two demo_rows demo_secret [Key_New 2 ''loki'' (demo_ds_blob ''http://b.x'')]) = demo_two demo_rows demo_secret []"
  by code_simp

lemma demo_delete:
  "begun demo_ds_env (Delete_Request 1) (demo_two demo_rows demo_secret []) = demo_two demo_rows demo_secret [Drop_Key (hd demo_rows)]"
  by code_simp

lemma demo_dropped:
  "advanced demo_ds_env 0 (demo_two demo_rows demo_secret [Drop_Key (hd demo_rows)]) =
     demo_two demo_rows demo_mirror [Drop_Row (hd demo_rows)]"
  by code_simp

definition demo_last :: "bool \<Rightarrow> ds_task list \<Rightarrow> ds_world" where
  "demo_last d ts = demo_two [demo_ds_row 2 ''B'' ''http://b.x'' d] demo_mirror ts"

lemma demo_ds_dropped:
  "advanced demo_ds_env 0 (demo_two demo_rows demo_mirror [Drop_Row (hd demo_rows)]) = demo_last False [Repick ''loki'']"
  by code_simp

lemma demo_repicked: "advanced demo_ds_env 0 (demo_last False [Repick ''loki'']) = demo_last False [Promote 2 ''loki'']"
  by (simp add: advanced_def demo_last_def demo_two_def advance_task_def next_default_def demo_ds_row_def option_list_def task_given_def)

lemma demo_promoted: "advanced demo_ds_env 0 (demo_last False [Promote 2 ''loki'']) = demo_last True [Read_Default 2 ''loki'']"
  by code_simp

lemma demo_reread:
  "advanced demo_ds_env 0 (demo_last True [Read_Default 2 ''loki'']) =
     demo_last True [Mirror_Write ''loki'' (JObj (demo_ds_blob ''http://a.x''))]"
  by code_simp

lemma demo_rewritten:
  "advanced demo_ds_env 0 (demo_last True [Mirror_Write ''loki'' (JObj (demo_ds_blob ''http://a.x''))]) = demo_last True []"
  by code_simp

lemma mirror_outlives_its_instance:
  "ds_reachable demo_ds_env (demo_last True []) \<and>
   field (dx_secrets (dw_state (demo_last True []))) ''loki'' = JObj (demo_ds_blob ''http://a.x'')"
proof -
  have t [simp]: "dw_tasks (demo_two rows m ts) = ts" for rows m ts by (simp add: demo_two_def)
  have l [simp]: "dw_tasks (demo_last d ts) = ts" for d ts by (simp add: demo_last_def)
  have "ds_reachable demo_ds_env (demo_two demo_rows demo_secret [Key_New 2 ''loki'' (demo_ds_blob ''http://b.x'')])"
    by (rule begun_reachable [OF demo_one_reachable _ demo_second]) (simp add: unlocked_def)
  then have "ds_reachable demo_ds_env (demo_two demo_rows demo_secret [])"
    by (rule faulted_reachable [OF _ _ demo_second_fails]) simp
  then have "ds_reachable demo_ds_env (demo_two demo_rows demo_secret [Drop_Key (hd demo_rows)])"
    by (rule begun_reachable [OF _ _ demo_delete]) (simp add: unlocked_def)
  then have "ds_reachable demo_ds_env (demo_two demo_rows demo_mirror [Drop_Row (hd demo_rows)])"
    by (rule advanced_reachable [OF _ _ demo_dropped]) simp
  then have "ds_reachable demo_ds_env (demo_last False [Repick ''loki''])"
    by (rule advanced_reachable [OF _ _ demo_ds_dropped]) simp
  then have "ds_reachable demo_ds_env (demo_last False [Promote 2 ''loki''])"
    by (rule advanced_reachable [OF _ _ demo_repicked]) simp
  then have "ds_reachable demo_ds_env (demo_last True [Read_Default 2 ''loki''])"
    by (rule advanced_reachable [OF _ _ demo_promoted]) simp
  then have "ds_reachable demo_ds_env (demo_last True [Mirror_Write ''loki'' (JObj (demo_ds_blob ''http://a.x''))])"
    by (rule advanced_reachable [OF _ _ demo_reread]) simp
  then have "ds_reachable demo_ds_env (demo_last True [])"
    by (rule advanced_reachable [OF _ _ demo_rewritten]) simp
  moreover have "field (dx_secrets (dw_state (demo_last True []))) ''loki'' = JObj (demo_ds_blob ''http://a.x'')" by code_simp
  ultimately show ?thesis by blast
qed

end
