(* ===== verification/Http_Body.thy ===== *)
theory Http_Body
  imports Js_Values "HOL-Library.Word"
begin

text \<open>
  The bounded body reader of \<^verbatim>\<open>web/lib/http-body.ts\<close>. A request body is the sequence of chunks
  its stream delivers. UTF-8 decoding and encoding, \<open>JSON.parse\<close> and the reading of a header as a
  number belong to the run-time and are the fields of \<open>codec\<close>.
\<close>

type_synonym bytes = "8 word list"

record codec =
  decode :: "bytes \<Rightarrow> string"
  encode :: "string \<Rightarrow> bytes"
  parse_json :: "string \<Rightarrow> js option"
  header_number :: "string \<Rightarrow> int option"

record http_request =
  hr_length :: "string option"
  hr_stream :: "bytes list option"
  hr_text :: string

datatype body_error = Body_Too_Large | Syntax_Error

record body_reader =
  br_total :: nat
  br_chunks :: "bytes list"

text \<open>
  The read loop. On the chunk that crosses the cap the reader is cancelled and the chunk dropped;
  the state returned either way is what was held in memory at that point.
\<close>

fun read_loop :: "nat \<Rightarrow> bytes list \<Rightarrow> body_reader \<Rightarrow> bool \<times> body_reader" where
  "read_loop cap [] st = (True, st)"
| "read_loop cap (c # cs) st =
     (let total = br_total st + length c in
      if cap < total then (False, st)
      else read_loop cap cs \<lparr>br_total = total, br_chunks = br_chunks st @ [c]\<rparr>)"

definition over_cap_header :: "codec \<Rightarrow> nat \<Rightarrow> http_request \<Rightarrow> bool" where
  "over_cap_header cd cap r \<longleftrightarrow> (case hr_length r of
      None \<Rightarrow> False
    | Some len \<Rightarrow> len \<noteq> [] \<and> (case header_number cd len of None \<Rightarrow> False | Some n \<Rightarrow> int cap < n))"

definition read_plain :: "codec \<Rightarrow> nat \<Rightarrow> http_request \<Rightarrow> body_error + string" where
  "read_plain cd cap r =
     (if hr_length r = None \<or> hr_length r = Some [] then Inr []
      else if cap < length (encode cd (hr_text r)) then Inl Body_Too_Large
      else Inr (hr_text r))"

definition read_text_bounded :: "codec \<Rightarrow> nat \<Rightarrow> http_request \<Rightarrow> body_error + string" where
  "read_text_bounded cd cap r =
     (if over_cap_header cd cap r then Inl Body_Too_Large
      else (case hr_stream r of
          None \<Rightarrow> read_plain cd cap r
        | Some chunks \<Rightarrow>
            (case read_loop cap chunks \<lparr>br_total = 0, br_chunks = []\<rparr> of
               (False, _) \<Rightarrow> Inl Body_Too_Large
             | (True, st) \<Rightarrow> Inr (decode cd (concat (br_chunks st))))))"

definition read_json_bounded :: "codec \<Rightarrow> nat \<Rightarrow> http_request \<Rightarrow> body_error + js" where
  "read_json_bounded cd cap r = (case read_text_bounded cd cap r of
      Inl e \<Rightarrow> Inl e
    | Inr [] \<Rightarrow> Inr (JObj [])
    | Inr text \<Rightarrow> (case parse_json cd text of None \<Rightarrow> Inl Syntax_Error | Some v \<Rightarrow> Inr v))"

definition DEFAULT_MAX_BYTES :: nat where
  "DEFAULT_MAX_BYTES = 65536"

section \<open>The reader's memory\<close>

definition reader_ok :: "nat \<Rightarrow> body_reader \<Rightarrow> bool" where
  "reader_ok cap st \<longleftrightarrow> br_total st = length (concat (br_chunks st)) \<and> br_total st \<le> cap"

lemma reader_ok_add:
  "reader_ok cap st \<Longrightarrow> br_total st + length c \<le> cap \<Longrightarrow>
   reader_ok cap \<lparr>br_total = br_total st + length c, br_chunks = br_chunks st @ [c]\<rparr>"
  by (simp add: reader_ok_def)

lemma read_loop_ok: "reader_ok cap st \<Longrightarrow> reader_ok cap (snd (read_loop cap chunks st))"
  by (induction cap chunks st rule: read_loop.induct) (simp_all add: reader_ok_add Let_def)

lemma read_loop_result:
  "reader_ok cap st \<Longrightarrow> fst (read_loop cap chunks st) \<longleftrightarrow> br_total st + length (concat chunks) \<le> cap"
  by (induction cap chunks st rule: read_loop.induct) (auto simp: reader_ok_def Let_def)

lemma read_loop_complete:
  "fst (read_loop cap chunks st) \<Longrightarrow> br_chunks (snd (read_loop cap chunks st)) = br_chunks st @ chunks"
  by (induction cap chunks st rule: read_loop.induct) (auto simp: Let_def split: if_splits)

lemma reader_ok_start: "reader_ok cap \<lparr>br_total = 0, br_chunks = []\<rparr>"
  by (simp add: reader_ok_def)

text \<open>
  C39. A streamed body is accepted exactly when neither its declared length nor its actual bytes
  exceed the cap, whatever the declared length says, and is then the decoding of all its bytes in
  order; and at no point does the reader hold more bytes than the cap.
\<close>

theorem body_bounded_and_complete:
  assumes "hr_stream r = Some chunks"
  shows "read_text_bounded cd cap r =
      (if over_cap_header cd cap r \<or> cap < length (concat chunks) then Inl Body_Too_Large
       else Inr (decode cd (concat chunks)))
    \<and> length (concat (br_chunks (snd (read_loop cap (take n chunks) \<lparr>br_total = 0, br_chunks = []\<rparr>)))) \<le> cap"
proof
  let ?st = "\<lparr>br_total = 0, br_chunks = []\<rparr>"
  obtain ok st where run: "read_loop cap chunks ?st = (ok, st)" by fastforce
  have "ok \<longleftrightarrow> length (concat chunks) \<le> cap"
    using read_loop_result [OF reader_ok_start, of cap chunks] by (simp add: run)
  moreover have "ok \<Longrightarrow> br_chunks st = chunks"
    using read_loop_complete [of cap chunks ?st] by (simp add: run)
  ultimately show "read_text_bounded cd cap r =
      (if over_cap_header cd cap r \<or> cap < length (concat chunks) then Inl Body_Too_Large
       else Inr (decode cd (concat chunks)))"
    using assms by (simp add: read_text_bounded_def run split: bool.splits)
  show "length (concat (br_chunks (snd (read_loop cap (take n chunks) ?st)))) \<le> cap"
    using read_loop_ok [OF reader_ok_start, of cap "take n chunks"] by (simp add: reader_ok_def)
qed

definition demo_codec :: codec where
  "demo_codec = \<lparr>decode = map (\<lambda>b. char_of (unat b)), encode = map (\<lambda>c. of_nat (of_char c)),
     parse_json = (\<lambda>s. Some (JStr s)), header_number = (\<lambda>s. Some (int (nat_of_digits s)))\<rparr>"

theorem body_bounded_and_complete_witness:
  "read_text_bounded demo_codec 3 \<lparr>hr_length = Some ''1'', hr_stream = Some [[1, 2], [3, 4]], hr_text = []\<rparr> = Inl Body_Too_Large"
  using body_bounded_and_complete
    [of "\<lparr>hr_length = Some ''1'', hr_stream = Some [[1, 2], [3, 4]], hr_text = []\<rparr>" "[[1, 2], [3, 4]]" demo_codec 3 0]
  by simp

end
