(* ===== verification/Auth.thy ===== *)
theory Auth
  imports Js_Values
begin

text \<open>
  \<open>web/lib/auth.ts\<close>, the part without the revocation store: reading the session cookie, turning
  a verified token into a user, and the ownership checks. \<open>jwtVerify\<close> (a library) is the
  argument \<open>verify\<close>: \<^const>\<open>None\<close> where it throws, otherwise the token's claims.
\<close>

section \<open>Environment and users\<close>

record env =
  env_region :: "string option"
  env_pool :: "string option"
  env_client :: "string option"
  env_legacy_match :: "string option"

record user =
  u_sub :: string
  u_email :: "string option"
  u_groups :: "string list option"
  u_iat :: "int option"

text \<open>An optional string is falsy when absent or empty.\<close>

definition present :: "string option \<Rightarrow> bool" where
  "present s \<longleftrightarrow> s \<noteq> None \<and> s \<noteq> Some []"

lemma present_iff: "present s \<longleftrightarrow> (\<exists>x. s = Some x \<and> x \<noteq> [])"
  by (cases s) (auto simp: present_def)

section \<open>The cookie\<close>

fun find_cookie :: "string list \<Rightarrow> string \<Rightarrow> string option" where
  "find_cookie [] name = None"
| "find_cookie (part # parts) name =
     (case split_on (CHR ''='') (trim part) of
        k # v \<Rightarrow> if k = name then Some (join_with ''='' v) else find_cookie parts name
      | [] \<Rightarrow> find_cookie parts name)"

definition parse_cookie :: "string option \<Rightarrow> string \<Rightarrow> string option" where
  "parse_cookie header name =
     (case header of None \<Rightarrow> None
      | Some h \<Rightarrow> if h = [] then None else find_cookie (split_on (CHR '';'') h) name)"

section \<open>Token verification\<close>

definition region_of :: "env \<Rightarrow> string" where
  "region_of e = (case env_region e of Some r \<Rightarrow> if r = [] then ''ap-northeast-2'' else r
                  | None \<Rightarrow> ''ap-northeast-2'')"

text \<open>A template literal prints a missing variable as \<open>undefined\<close>.\<close>

definition pool_of :: "env \<Rightarrow> string" where
  "pool_of e = (case env_pool e of Some p \<Rightarrow> p | None \<Rightarrow> ''undefined'')"

definition issuer_of :: "env \<Rightarrow> string" where
  "issuer_of e = ''https://cognito-idp.'' @ region_of e @ ''.amazonaws.com/'' @ pool_of e"

text \<open>The key set is created on first use and kept: the state is its URL.\<close>

definition get_jwks :: "env \<Rightarrow> string option \<Rightarrow> string" where
  "get_jwks e memo = (case memo of Some url \<Rightarrow> url | None \<Rightarrow> issuer_of e @ ''/.well-known/jwks.json'')"

record jwt_options =
  o_issuer :: string
  o_audience :: "string option"
  o_algorithms :: "string list"
  o_clock_tolerance :: "string option"

type_synonym jwt_verify = "string \<Rightarrow> string \<Rightarrow> jwt_options \<Rightarrow> js_object option"

definition user_options :: "env \<Rightarrow> jwt_options" where
  "user_options e = \<lparr>o_issuer = issuer_of e, o_audience = env_client e,
     o_algorithms = [''RS256''], o_clock_tolerance = None\<rparr>"

definition signout_options :: "env \<Rightarrow> jwt_options" where
  "signout_options e = \<lparr>o_issuer = issuer_of e, o_audience = env_client e,
     o_algorithms = [''RS256''], o_clock_tolerance = Some ''5 minutes''\<rparr>"

text \<open>The claim \<open>iat\<close> is a number or absent.\<close>

definition iat_of :: "js_object \<Rightarrow> int option" where
  "iat_of payload = (case field payload ''iat'' of JNum n \<Rightarrow> Some n | _ \<Rightarrow> None)"

definition groups_of :: "js_object \<Rightarrow> string list" where
  "groups_of payload = map to_string (as_array (field payload ''cognito:groups''))"

definition email_of :: "js_object \<Rightarrow> string option" where
  "email_of payload =
     (if truthy (field payload ''email'') \<and> field payload ''email_verified'' = JBool True
      then Some (to_string (field payload ''email'')) else None)"

text \<open>\<open>revoked\<close> is \<open>isRevoked\<close>, modelled with its store in the theory \<open>Revocation\<close>.\<close>

definition verify_user ::
  "env \<Rightarrow> string option \<Rightarrow> jwt_verify \<Rightarrow> (string \<Rightarrow> int option \<Rightarrow> bool) \<Rightarrow> string option \<Rightarrow> user option" where
  "verify_user e memo verify revoked header =
     (case parse_cookie header ''awsops_token'' of
        None \<Rightarrow> None
      | Some token \<Rightarrow>
          if token = [] then None
          else (case verify token (get_jwks e memo) (user_options e) of
              None \<Rightarrow> None
            | Some payload \<Rightarrow>
                if field payload ''token_use'' \<noteq> JStr ''id'' \<or> \<not> truthy (field payload ''sub'') then None
                else let sub = to_string (field payload ''sub'')
                     in if revoked sub (iat_of payload) then None
                        else Some \<lparr>u_sub = sub, u_email = email_of payload,
                               u_groups = Some (groups_of payload), u_iat = None\<rparr>))"

text \<open>Zero is as falsy as a missing \<open>iat\<close>.\<close>

definition usable_iat :: "int option \<Rightarrow> bool" where
  "usable_iat iat \<longleftrightarrow> iat \<noteq> None \<and> iat \<noteq> Some 0"

definition verify_user_for_signout ::
  "env \<Rightarrow> string option \<Rightarrow> jwt_verify \<Rightarrow> string option \<Rightarrow> user option" where
  "verify_user_for_signout e memo verify header =
     (case parse_cookie header ''awsops_token'' of
        None \<Rightarrow> None
      | Some token \<Rightarrow>
          if token = [] then None
          else (case verify token (get_jwks e memo) (signout_options e) of
              None \<Rightarrow> None
            | Some payload \<Rightarrow>
                if field payload ''token_use'' \<noteq> JStr ''id'' \<or> \<not> truthy (field payload ''sub'') \<or>
                   \<not> usable_iat (iat_of payload) then None
                else Some \<lparr>u_sub = to_string (field payload ''sub''), u_email = None,
                       u_groups = None, u_iat = iat_of payload\<rparr>))"

section \<open>Ownership\<close>

definition identity :: "user \<Rightarrow> string" where
  "identity u = (case u_email u of Some m \<Rightarrow> if m = [] then u_sub u else m | None \<Rightarrow> u_sub u)"

definition legacy_email_match_enabled :: "env \<Rightarrow> bool" where
  "legacy_email_match_enabled e \<longleftrightarrow> env_legacy_match e \<noteq> Some ''false''"

definition matches_legacy_email_owner :: "env \<Rightarrow> string \<Rightarrow> user \<Rightarrow> bool" where
  "matches_legacy_email_owner e owner u \<longleftrightarrow>
     legacy_email_match_enabled e \<and> present (u_email u) \<and> u_email u = Some owner"

definition owner_keys_for_read :: "env \<Rightarrow> user \<Rightarrow> string list" where
  "owner_keys_for_read e u =
     (if legacy_email_match_enabled e \<and> present (u_email u) then [the (u_email u), u_sub u] else [u_sub u])"

definition identity_keys :: "user \<Rightarrow> string list" where
  "identity_keys u = (if present (u_email u) then [u_sub u, the (u_email u)] else [u_sub u])"

definition matches_identity :: "env \<Rightarrow> string option \<Rightarrow> user \<Rightarrow> bool" where
  "matches_identity e owner u =
     (if \<not> present owner then False
      else if the owner = u_sub u then True
      else matches_legacy_email_owner e (the owner) u)"

section \<open>Cookies round-trip\<close>

text \<open>How a client writes its cookies.\<close>

definition cookie_pair :: "string \<times> string \<Rightarrow> string" where
  "cookie_pair kv = fst kv @ ''='' @ snd kv"

definition cookie_header :: "(string \<times> string) list \<Rightarrow> string" where
  "cookie_header cs = join_with ''; '' (map cookie_pair cs)"

definition cookie_name :: "string \<Rightarrow> bool" where
  "cookie_name k \<longleftrightarrow> (\<forall>c\<in>set k. c \<noteq> CHR ''='' \<and> c \<noteq> CHR '';'' \<and> \<not> is_space c)"

definition cookie_value :: "string \<Rightarrow> bool" where
  "cookie_value v \<longleftrightarrow> (\<forall>c\<in>set v. c \<noteq> CHR '';'' \<and> \<not> is_space c)"

lemma join_space: "ps \<noteq> [] \<Longrightarrow> join_with ''; '' ps = join_with '';'' (hd ps # map (\<lambda>p. CHR '' '' # p) (tl ps))"
proof (induction ps)
  case (Cons p ps)
  show ?case
  proof (cases ps)
    case (Cons q qs)
    have "join_with '';'' ((c # x) # xs) = c # join_with '';'' (x # xs)" for c x xs by (cases xs) auto
    then show ?thesis using Cons.IH Cons by simp
  qed simp
qed simp

lemma find_cookie_pair:
  assumes "cookie_name k" "cookie_value v" "part = cookie_pair (k, v) \<or> part = CHR '' '' # cookie_pair (k, v)"
  shows "find_cookie (part # parts) name = (if k = name then Some v else find_cookie parts name)"
proof -
  have "\<forall>c\<in>set (cookie_pair (k, v)). \<not> is_space c"
    using assms(1,2) by (auto simp: cookie_pair_def cookie_name_def cookie_value_def is_space_def)
  then have "trim part = k @ CHR ''='' # v"
    using assms(3) trim_id trim_space by (auto simp: cookie_pair_def)
  moreover have "CHR ''='' \<notin> set k" using assms(1) by (auto simp: cookie_name_def)
  ultimately show ?thesis by (simp add: split_on_append join_split)
qed

lemma cookie_pair_no_semicolon: "cookie_name k \<and> cookie_value v \<Longrightarrow> CHR '';'' \<notin> set (cookie_pair (k, v))"
  by (simp add: cookie_pair_def cookie_name_def cookie_value_def) metis

lemmas find_cookie_pairs = find_cookie_pair [OF _ _ disjI1 [OF refl]] find_cookie_pair [OF _ _ disjI2 [OF refl]]

lemma find_cookies:
  assumes "\<forall>(k, v)\<in>set cs. cookie_name k \<and> cookie_value v"
  shows "find_cookie (map (\<lambda>kv. CHR '' '' # cookie_pair kv) cs) name = map_of cs name"
  using assms
proof (induction cs)
  case (Cons kv cs)
  then show ?case by (cases kv) (simp add: find_cookie_pairs del: find_cookie.simps(2))
qed simp

text \<open>
  Every cookie a client sends is read back: the session token found is the value of the first
  cookie of that name, whatever other cookies surround it and even if it contains \<open>=\<close>.
\<close>

theorem parse_cookie_roundtrip:
  assumes "\<forall>(k, v)\<in>set cs. cookie_name k \<and> cookie_value v"
  shows "parse_cookie (Some (cookie_header cs)) name = map_of cs name"
proof (cases cs)
  case Nil
  then show ?thesis by (simp add: parse_cookie_def cookie_header_def)
next
  case (Cons kv rest)
  obtain k v where kv: "kv = (k, v)" by (cases kv)
  have header: "cookie_header cs = join_with '';'' (cookie_pair kv # map (\<lambda>kv. CHR '' '' # cookie_pair kv) rest)"
    using Cons join_space [of "map cookie_pair cs"] by (simp add: cookie_header_def comp_def)
  have nonempty: "cookie_header cs \<noteq> []"
    unfolding header kv by (cases rest) (auto simp: cookie_pair_def)
  have "\<forall>p\<in>set (cookie_pair kv # map (\<lambda>kv. CHR '' '' # cookie_pair kv) rest). CHR '';'' \<notin> set p"
    using assms cookie_pair_no_semicolon unfolding Cons by fastforce
  then have "split_on (CHR '';'') (cookie_header cs)
      = cookie_pair kv # map (\<lambda>kv. CHR '' '' # cookie_pair kv) rest"
    unfolding header by (intro split_join) simp_all
  then have "parse_cookie (Some (cookie_header cs)) name =
      find_cookie (cookie_pair kv # map (\<lambda>kv. CHR '' '' # cookie_pair kv) rest) name"
    by (simp only: parse_cookie_def option.case nonempty if_False)
  also have "\<dots> = (if k = name then Some v else find_cookie (map (\<lambda>kv. CHR '' '' # cookie_pair kv) rest) name)"
    unfolding kv by (rule find_cookie_pair) (use assms Cons kv in auto)
  also have "find_cookie (map (\<lambda>kv. CHR '' '' # cookie_pair kv) rest) name = map_of rest name"
    by (rule find_cookies) (use assms Cons in auto)
  finally show ?thesis using Cons kv by auto
qed

theorem parse_cookie_roundtrip_witness:
  "parse_cookie (Some (cookie_header [(''theme'', ''dark''), (''awsops_token'', ''a.b=='')])) ''awsops_token''
     = Some ''a.b==''"
  by (subst parse_cookie_roundtrip) (auto simp: cookie_name_def cookie_value_def is_space_def)

section \<open>What a user may act on\<close>

lemma verify_userD:
  assumes "verify_user e memo verify revoked header = Some u"
  obtains token payload where "parse_cookie header ''awsops_token'' = Some token" "token \<noteq> []"
    "verify token (get_jwks e memo) (user_options e) = Some payload"
    "field payload ''token_use'' = JStr ''id''" "truthy (field payload ''sub'')"
    "\<not> revoked (u_sub u) (iat_of payload)"
    "u_sub u = to_string (field payload ''sub'')" "u_email u = email_of payload"
  using assms by (auto simp: verify_user_def Let_def split: option.splits if_splits)

text \<open>
  C29. Authority comes only from the signed claims: a user the request is verified as owns a row
  only under the token's \<open>sub\<close>, or, while the legacy flag is on, under an e-mail address the
  token states as verified.
\<close>

theorem ownership_from_verified_claims:
  assumes "verify_user e memo verify revoked header = Some u"
    and "matches_identity e' (Some owner) u"
  shows "\<exists>token payload. parse_cookie header ''awsops_token'' = Some token \<and>
    verify token (get_jwks e memo) (user_options e) = Some payload \<and>
    field payload ''token_use'' = JStr ''id'' \<and> \<not> revoked (u_sub u) (iat_of payload) \<and>
    (owner = to_string (field payload ''sub'') \<or>
     env_legacy_match e' \<noteq> Some ''false'' \<and> field payload ''email_verified'' = JBool True \<and>
     owner = to_string (field payload ''email''))"
proof -
  obtain token payload where p: "parse_cookie header ''awsops_token'' = Some token"
    "verify token (get_jwks e memo) (user_options e) = Some payload"
    "field payload ''token_use'' = JStr ''id''" "\<not> revoked (u_sub u) (iat_of payload)"
    "u_sub u = to_string (field payload ''sub'')" "u_email u = email_of payload"
    using assms(1) by (rule verify_userD)
  have "owner = u_sub u \<or> legacy_email_match_enabled e' \<and> u_email u = Some owner"
    using assms(2) by (auto simp: matches_identity_def matches_legacy_email_owner_def split: if_splits)
  then have "owner = to_string (field payload ''sub'') \<or>
     env_legacy_match e' \<noteq> Some ''false'' \<and> field payload ''email_verified'' = JBool True \<and>
     owner = to_string (field payload ''email'')"
    using p(5,6) by (auto simp: legacy_email_match_enabled_def email_of_def split: if_splits)
  with p show ?thesis by blast
qed

definition sample_claims :: js_object where
  "sample_claims = [(''token_use'', JStr ''id''), (''sub'', JStr ''u-1''), (''iat'', JNum 100),
     (''email'', JStr ''a@x''), (''email_verified'', JBool True)]"

definition sample_env :: env where
  "sample_env = \<lparr>env_region = None, env_pool = Some ''p'', env_client = Some ''c'', env_legacy_match = None\<rparr>"

definition sample_verify :: jwt_verify where
  "sample_verify token jwks opts = (if token = ''tok'' then Some sample_claims else None)"

definition sample_user :: user where
  "sample_user = \<lparr>u_sub = ''u-1'', u_email = Some ''a@x'', u_groups = Some [], u_iat = None\<rparr>"

lemma sample_verified:
  "verify_user sample_env None sample_verify (\<lambda>_ _. False) (Some ''awsops_token=tok'') = Some sample_user"
  by code_simp

theorem ownership_from_verified_claims_witness:
  "matches_identity sample_env (Some ''a@x'') sample_user \<and> field sample_claims ''email_verified'' = JBool True"
proof -
  have m: "matches_identity sample_env (Some ''a@x'') sample_user" by code_simp
  obtain token payload where "sample_verify token (get_jwks sample_env None) (user_options sample_env) = Some payload"
    "''a@x'' = to_string (field payload ''sub'') \<or> field payload ''email_verified'' = JBool True"
    using ownership_from_verified_claims [OF sample_verified m] by blast
  moreover have "''a@x'' \<noteq> to_string (field sample_claims ''sub'')" by code_simp
  ultimately show ?thesis using m by (auto simp: sample_verify_def split: if_splits)
qed

text \<open>
  The row check, the list filter and the four-eyes comparison agree: a row is visible to a
  user exactly if its owner is one of the keys the lists filter by, and, whatever the legacy
  flag says, such an owner is never missed by the comparison that forbids self-approval.
\<close>

theorem ownership_checks_agree:
  assumes "owner \<noteq> []"
  shows "(matches_identity e (Some owner) u \<longleftrightarrow> owner \<in> set (owner_keys_for_read e u)) \<and>
    set (owner_keys_for_read e u) \<subseteq> set (identity_keys u) \<and>
    (identity u = owner \<longrightarrow> owner \<in> set (identity_keys u)) \<and>
    (env_legacy_match e = Some ''false'' \<longrightarrow> matches_identity e (Some owner) u = (owner = u_sub u))"
  using assms
  by (cases "u_email u")
    (auto simp: matches_identity_def matches_legacy_email_owner_def owner_keys_for_read_def
      identity_keys_def identity_def present_def legacy_email_match_enabled_def)

theorem ownership_checks_agree_witness:
  "matches_identity sample_env (Some ''a@x'') sample_user = (''a@x'' \<in> set (owner_keys_for_read sample_env sample_user))"
  using ownership_checks_agree [of "''a@x''" sample_env sample_user] by simp

text \<open>
  Signing out is never an authentication: the user it yields carries a usable \<open>iat\<close> but
  neither an e-mail address nor groups, so it matches no owner except its own \<open>sub\<close>.
\<close>

theorem signout_user_has_no_authority:
  assumes "verify_user_for_signout e memo verify header = Some u"
  shows "u_email u = None \<and> u_groups u = None \<and> usable_iat (u_iat u) \<and>
    (matches_identity e' (Some owner) u \<longrightarrow> owner = u_sub u)"
  using assms
  by (auto simp: verify_user_for_signout_def matches_identity_def matches_legacy_email_owner_def
      split: option.splits if_splits)

theorem signout_user_has_no_authority_witness:
  "\<exists>u. verify_user_for_signout sample_env None sample_verify (Some ''awsops_token=tok'') = Some u \<and>
     u_sub u = ''u-1'' \<and> u_email u = None \<and> u_iat u = Some 100"
proof -
  let ?u = "\<lparr>u_sub = ''u-1'', u_email = None, u_groups = None, u_iat = Some 100\<rparr>"
  have "verify_user_for_signout sample_env None sample_verify (Some ''awsops_token=tok'') = Some ?u"
    by code_simp
  with signout_user_has_no_authority [OF this] show ?thesis by auto
qed

end
