(* ===== verification/Revocation.thy ===== *)
theory Revocation
  imports Auth
begin

text \<open>
  The session-revocation store of \<open>web/lib/auth.ts\<close>: the table of cutoffs, the per-container
  cache of in-flight cutoff queries, the debounced write of a sign-out and the check of a token.
  Promises and timers are explicit: a query is started, answered or fails in separate events,
  and events of other containers interleave with this one's.
\<close>

section \<open>State\<close>

definition revocation_cache_ttl_ms :: nat where
  "revocation_cache_ttl_ms = 5000"

definition recent_revoke_debounce_ms :: nat where
  "recent_revoke_debounce_ms = 2000"

text \<open>The settled value of a cutoff query: \<^term>\<open>Answered None\<close> is "no row".\<close>

datatype query = Pending | Answered "int option" | Failed

text \<open>A cached entry holds its creation time and the promise, named by the query's number.\<close>

record cached_cutoff =
  cc_at :: nat
  cc_query :: nat

record rstate =
  clock :: nat
  cutoffs :: "string \<Rightarrow> int option"
  cutoff_cache :: "string \<Rightarrow> cached_cutoff option"
  queries :: "nat \<Rightarrow> (string \<times> query) option"
  next_query :: nat
  recent_writes :: "string \<Rightarrow> nat option"
  open_writes :: "(string \<times> int) list"
  landed_writes :: "string list"

section \<open>Operations\<close>

definition start_query :: "string \<Rightarrow> rstate \<Rightarrow> nat \<times> rstate" where
  "start_query sub st =
     (next_query st, st\<lparr>queries := (queries st)(next_query st \<mapsto> (sub, Pending)), next_query := Suc (next_query st)\<rparr>)"

definition revocation_cutoff :: "string \<Rightarrow> rstate \<Rightarrow> nat \<times> rstate" where
  "revocation_cutoff sub st =
     (let miss = (let (q, st') = start_query sub st
                  in (q, st'\<lparr>cutoff_cache := (cutoff_cache st')(sub \<mapsto> \<lparr>cc_at = clock st, cc_query = q\<rparr>)\<rparr>))
      in case cutoff_cache st sub of
           Some hit \<Rightarrow> if clock st - cc_at hit < revocation_cache_ttl_ms then (cc_query hit, st) else miss
         | None \<Rightarrow> miss)"

text \<open>\<open>drop\<close>: the entry is removed only if it is still the one of this query.\<close>

definition drop_entry :: "string \<Rightarrow> nat \<Rightarrow> rstate \<Rightarrow> rstate" where
  "drop_entry sub q st =
     (case cutoff_cache st sub of
        Some c \<Rightarrow> if cc_query c = q then st\<lparr>cutoff_cache := (cutoff_cache st)(sub := None)\<rparr> else st
      | None \<Rightarrow> st)"

text \<open>The SELECT runs (reading the table as it is then), or the query is rejected.\<close>

definition answer_query :: "nat \<Rightarrow> rstate \<Rightarrow> rstate option" where
  "answer_query q st =
     (case queries st q of
        Some (sub, Pending) \<Rightarrow> Some (st\<lparr>queries := (queries st)(q \<mapsto> (sub, Answered (cutoffs st sub)))\<rparr>)
      | _ \<Rightarrow> None)"

definition fail_query :: "nat \<Rightarrow> rstate \<Rightarrow> rstate option" where
  "fail_query q st =
     (case queries st q of
        Some (sub, Pending) \<Rightarrow> Some (drop_entry sub q (st\<lparr>queries := (queries st)(q \<mapsto> (sub, Failed))\<rparr>))
      | _ \<Rightarrow> None)"

definition ttl_timer :: "string \<Rightarrow> rstate \<Rightarrow> rstate option" where
  "ttl_timer sub st =
     (case cutoff_cache st sub of
        Some c \<Rightarrow> if cc_at c + revocation_cache_ttl_ms \<le> clock st then Some (drop_entry sub (cc_query c) st) else None
      | None \<Rightarrow> None)"

text \<open>
  \<open>isRevoked\<close> once its query has settled (\<^const>\<open>None\<close> while it is pending): a missing or zero
  \<open>iat\<close> fails closed, a failed query fails open.
\<close>

definition is_revoked :: "int option \<Rightarrow> query \<Rightarrow> bool option" where
  "is_revoked iat q =
     (if \<not> usable_iat iat then Some True
      else (case q of
          Pending \<Rightarrow> None
        | Failed \<Rightarrow> Some False
        | Answered None \<Rightarrow> Some False
        | Answered (Some cutoff) \<Rightarrow> Some (the iat \<le> cutoff)))"

text \<open>The conditional upsert of a sign-out.\<close>

definition upsert_cutoff :: "string \<Rightarrow> int \<Rightarrow> (string \<Rightarrow> int option) \<Rightarrow> (string \<Rightarrow> int option)" where
  "upsert_cutoff sub iat m =
     (case m sub of
        None \<Rightarrow> m(sub \<mapsto> iat)
      | Some old \<Rightarrow> if old < iat then m(sub \<mapsto> iat) else m)"

definition revoke_key :: "string \<Rightarrow> int \<Rightarrow> string" where
  "revoke_key sub iat = sub @ '':'' @ show_int iat"

text \<open>\<open>revokeSessionsFor\<close> up to its write; a debounced call leaves the state alone.\<close>

definition revoke_sessions_for :: "string \<Rightarrow> int \<Rightarrow> rstate \<Rightarrow> rstate" where
  "revoke_sessions_for sub iat st =
     (let key = revoke_key sub iat;
          write = st\<lparr>recent_writes := (recent_writes st)(key \<mapsto> clock st), open_writes := (sub, iat) # open_writes st\<rparr>
      in case recent_writes st key of
           Some last_at \<Rightarrow> if clock st - last_at < recent_revoke_debounce_ms then st else write
         | None \<Rightarrow> write)"

definition debounce_timer :: "string \<Rightarrow> rstate \<Rightarrow> rstate option" where
  "debounce_timer key st =
     (case recent_writes st key of
        Some t \<Rightarrow> if t + recent_revoke_debounce_ms \<le> clock st
                  then Some (st\<lparr>recent_writes := (recent_writes st)(key := None)\<rparr>) else None
      | None \<Rightarrow> None)"

text \<open>The write commits; then, in a later step, the call drops the cached cutoff of its user.\<close>

definition land_write :: "string \<Rightarrow> int \<Rightarrow> rstate \<Rightarrow> rstate option" where
  "land_write sub iat st =
     (if (sub, iat) \<in> set (open_writes st)
      then Some (st\<lparr>open_writes := remove1 (sub, iat) (open_writes st),
                    landed_writes := sub # landed_writes st,
                    cutoffs := upsert_cutoff sub iat (cutoffs st)\<rparr>)
      else None)"

definition fail_write :: "string \<Rightarrow> int \<Rightarrow> rstate \<Rightarrow> rstate option" where
  "fail_write sub iat st =
     (if (sub, iat) \<in> set (open_writes st)
      then Some (st\<lparr>open_writes := remove1 (sub, iat) (open_writes st)\<rparr>) else None)"

definition finish_write :: "string \<Rightarrow> rstate \<Rightarrow> rstate option" where
  "finish_write sub st =
     (if sub \<in> set (landed_writes st)
      then Some (st\<lparr>landed_writes := remove1 sub (landed_writes st), cutoff_cache := (cutoff_cache st)(sub := None)\<rparr>)
      else None)"

datatype rev_event =
    Advance nat
  | Lookup string
  | Answer nat
  | Query_Fails nat
  | Ttl_Timer string
  | Signout string int
  | Write_Lands string int
  | Write_Fails string int
  | Write_Finished string
  | Debounce_Timer string
  | Foreign_Write string int

fun rev_apply :: "rev_event \<Rightarrow> rstate \<Rightarrow> rstate option" where
  "rev_apply (Advance n) st = Some (st\<lparr>clock := clock st + n\<rparr>)"
| "rev_apply (Lookup sub) st = Some (snd (revocation_cutoff sub st))"
| "rev_apply (Answer q) st = answer_query q st"
| "rev_apply (Query_Fails q) st = fail_query q st"
| "rev_apply (Ttl_Timer sub) st = ttl_timer sub st"
| "rev_apply (Signout sub iat) st = Some (revoke_sessions_for sub iat st)"
| "rev_apply (Write_Lands sub iat) st = land_write sub iat st"
| "rev_apply (Write_Fails sub iat) st = fail_write sub iat st"
| "rev_apply (Write_Finished sub) st = finish_write sub st"
| "rev_apply (Debounce_Timer key) st = debounce_timer key st"
| "rev_apply (Foreign_Write sub iat) st = Some (st\<lparr>cutoffs := upsert_cutoff sub iat (cutoffs st)\<rparr>)"

fun rev_run :: "rev_event list \<Rightarrow> rstate \<Rightarrow> rstate option" where
  "rev_run [] st = Some st"
| "rev_run (e # es) st = (case rev_apply e st of None \<Rightarrow> None | Some st' \<Rightarrow> rev_run es st')"

definition rev_start :: rstate where
  "rev_start = \<lparr>clock = 0, cutoffs = Map.empty, cutoff_cache = Map.empty, queries = Map.empty,
     next_query = 0, recent_writes = Map.empty, open_writes = [], landed_writes = []\<rparr>"

lemmas rev_ops = start_query_def revocation_cutoff_def drop_entry_def answer_query_def fail_query_def
  ttl_timer_def revoke_sessions_for_def debounce_timer_def land_write_def fail_write_def finish_write_def

lemma rev_run_append:
  "rev_run (xs @ ys) st = (case rev_run xs st of None \<Rightarrow> None | Some st' \<Rightarrow> rev_run ys st')"
  by (induction xs arbitrary: st) (auto split: option.splits)

text \<open>Invariants of a run, once for every proof below.\<close>

lemma rev_run_inv:
  assumes "rev_run es st = Some st'" "P st"
    and "\<And>e s s'. e \<in> set es \<Longrightarrow> P s \<Longrightarrow> rev_apply e s = Some s' \<Longrightarrow> P s'"
  shows "P st'"
  using assms
proof (induction es arbitrary: st)
  case (Cons e es)
  then obtain s where "rev_apply e st = Some s" "rev_run es s = Some st'" by (auto split: option.splits)
  with Cons show ?case by (metis list.set_intros)
qed simp

section \<open>Invariants\<close>

text \<open>Entries are not from the future and never hold a failed query; queries are numbered up.\<close>

definition rev_ok :: "rstate \<Rightarrow> bool" where
  "rev_ok st \<longleftrightarrow>
     (\<forall>sub c. cutoff_cache st sub = Some c \<longrightarrow>
        cc_at c \<le> clock st \<and> (\<exists>q. queries st (cc_query c) = Some (sub, q) \<and> q \<noteq> Failed)) \<and>
     (\<forall>q. queries st q \<noteq> None \<longrightarrow> q < next_query st)"

lemma rev_ok_start: "rev_ok rev_start"
  by (simp add: rev_ok_def rev_start_def)

lemma rev_ok_apply:
  assumes "rev_ok st" "rev_apply e st = Some st'"
  shows "rev_ok st'"
proof -
  have fresh: "queries st (next_query st) = None" using assms(1) unfolding rev_ok_def by blast
  then have new: "cutoff_cache st s = Some c \<Longrightarrow> cc_query c \<noteq> next_query st" for s c
    using assms(1) unfolding rev_ok_def by (metis option.distinct(1))
  show ?thesis
  proof (cases e)
    case (Advance n)
    then show ?thesis using assms unfolding rev_ok_def by (fastforce intro: trans_le_add1)
  next
    case (Lookup sub)
    then show ?thesis using assms fresh
      unfolding rev_ok_def by (auto simp: rev_ops Let_def less_Suc_eq dest!: new split: option.splits if_splits)
  next
    case (Answer q)
    then show ?thesis using assms
      unfolding rev_ok_def by (fastforce simp: rev_ops split: option.splits if_splits query.splits)
  next
    case (Query_Fails q)
    then show ?thesis using assms
      unfolding rev_ok_def by (fastforce simp: rev_ops split: option.splits if_splits query.splits)
  qed (use assms in \<open>auto simp: rev_ok_def rev_ops Let_def split: option.splits if_splits\<close>)
qed

lemma rev_ok_run: "rev_run es st = Some st' \<Longrightarrow> rev_ok st \<Longrightarrow> rev_ok st'"
  by (rule rev_run_inv [where P = rev_ok]) (auto intro: rev_ok_apply)

text \<open>The cutoff of a user only grows.\<close>

definition at_least :: "int \<Rightarrow> int option \<Rightarrow> bool" where
  "at_least i v \<longleftrightarrow> (case v of None \<Rightarrow> False | Some x \<Rightarrow> i \<le> x)"

lemma upsert_at_least: "at_least iat (upsert_cutoff sub iat m sub)"
  by (auto simp: upsert_cutoff_def at_least_def split: option.splits)

lemma upsert_mono: "at_least i (m s) \<Longrightarrow> at_least i (upsert_cutoff sub iat m s)"
  by (auto simp: upsert_cutoff_def at_least_def split: option.splits if_splits)

lemma cutoffs_mono: "rev_apply e st = Some st' \<Longrightarrow> at_least i (cutoffs st s) \<Longrightarrow> at_least i (cutoffs st' s)"
  by (cases e) (auto simp: rev_ops Let_def intro: upsert_mono split: option.splits if_splits query.splits)

text \<open>
  From a state where the cutoff of \<open>sub\<close> is at least \<open>i\<close>: every query numbered from \<open>n\<close> on
  answers at least \<open>i\<close>, and entries newer than \<open>t\<close> hold such queries.
\<close>

definition caught_up :: "string \<Rightarrow> int \<Rightarrow> nat \<Rightarrow> rstate \<Rightarrow> bool" where
  "caught_up sub i n st \<longleftrightarrow> at_least i (cutoffs st sub) \<and> n \<le> next_query st \<and>
     (\<forall>q v. n \<le> q \<longrightarrow> queries st q = Some (sub, Answered v) \<longrightarrow> at_least i v)"

definition newer_entries :: "string \<Rightarrow> nat \<Rightarrow> nat \<Rightarrow> rstate \<Rightarrow> bool" where
  "newer_entries sub t n st \<longleftrightarrow> t \<le> clock st \<and> n \<le> next_query st \<and>
     (\<forall>c. cutoff_cache st sub = Some c \<longrightarrow> t < cc_at c \<longrightarrow> n \<le> cc_query c)"

lemma caught_up_apply: "caught_up sub i n st \<Longrightarrow> rev_apply e st = Some st' \<Longrightarrow> caught_up sub i n st'"
  unfolding caught_up_def
  by (cases e) (auto simp: rev_ops Let_def intro: upsert_mono split: option.splits if_splits query.splits)

lemma newer_entries_apply: "newer_entries sub t n st \<Longrightarrow> rev_apply e st = Some st' \<Longrightarrow> newer_entries sub t n st'"
  unfolding newer_entries_def
  by (cases e) (auto simp: rev_ops Let_def split: option.splits if_splits query.splits)

lemma caught_up_run: "rev_run es st = Some st' \<Longrightarrow> caught_up sub i n st \<Longrightarrow> caught_up sub i n st'"
  by (rule rev_run_inv [where P = "caught_up sub i n"]) (auto intro: caught_up_apply)

lemma newer_entries_run: "rev_run es st = Some st' \<Longrightarrow> newer_entries sub t n st \<Longrightarrow> newer_entries sub t n st'"
  by (rule rev_run_inv [where P = "newer_entries sub t n"]) (auto intro: newer_entries_apply)

text \<open>Entries made since the last time the cache of \<open>sub\<close> was emptied.\<close>

definition fresh_entries :: "string \<Rightarrow> nat \<Rightarrow> rstate \<Rightarrow> bool" where
  "fresh_entries sub n st \<longleftrightarrow> n \<le> next_query st \<and>
     (\<forall>c. cutoff_cache st sub = Some c \<longrightarrow> n \<le> cc_query c)"

lemma fresh_entries_apply: "fresh_entries sub n st \<Longrightarrow> rev_apply e st = Some st' \<Longrightarrow> fresh_entries sub n st'"
  unfolding fresh_entries_def
  by (cases e) (auto simp: rev_ops Let_def split: option.splits if_splits query.splits)

lemma fresh_entries_run: "rev_run es st = Some st' \<Longrightarrow> fresh_entries sub n st \<Longrightarrow> fresh_entries sub n st'"
  by (rule rev_run_inv [where P = "fresh_entries sub n"]) (auto intro: fresh_entries_apply)

lemma caught_up_now: "rev_ok st \<Longrightarrow> at_least i (cutoffs st sub) \<Longrightarrow> caught_up sub i (next_query st) st"
  unfolding caught_up_def rev_ok_def by (metis linorder_not_le option.distinct(1) order_refl)

lemma newer_entries_now: "rev_ok st \<Longrightarrow> newer_entries sub (clock st) (next_query st) st"
  by (auto simp: newer_entries_def rev_ok_def dest: leD)

lemma lookup_apply: "revocation_cutoff sub st = (q, st') \<Longrightarrow> rev_apply (Lookup sub) st = Some st'"
  by simp

lemma lookup_newer:
  assumes "newer_entries sub t n st" "t + revocation_cache_ttl_ms \<le> clock st" "revocation_cutoff sub st = (q, st')"
  shows "n \<le> q"
  using assms by (auto simp: newer_entries_def rev_ops Let_def split: option.splits if_splits)

lemma lookup_fresh:
  assumes "fresh_entries sub n st" "revocation_cutoff sub st = (q, st')"
  shows "n \<le> q"
  using assms by (auto simp: fresh_entries_def rev_ops Let_def split: option.splits if_splits)

lemma caught_up_answer:
  assumes "caught_up sub iat n st" "n \<le> q" "queries st q = Some (sub, Answered v)" "iat' \<le> iat"
  shows "is_revoked (Some iat') (Answered v) = Some True"
proof -
  have "at_least iat v" using assms(1-3) unfolding caught_up_def by blast
  then show ?thesis using assms(4) by (auto simp: is_revoked_def at_least_def split: option.splits)
qed

section \<open>Theorems\<close>

text \<open>
  C8. Bounded staleness across the fleet: five seconds after the cutoff of a user has reached
  \<open>iat\<close>, by whichever container, every check that gets an answer refuses every token of that
  user issued up to \<open>iat\<close>.
\<close>

theorem revocation_bounded_staleness:
  assumes run: "rev_run es rev_start = Some st" and cut: "at_least iat (cutoffs st sub)"
    and later: "rev_run es1 st = Some st1" "clock st + revocation_cache_ttl_ms \<le> clock st1"
    and check: "revocation_cutoff sub st1 = (q, st2)" "rev_run es2 st2 = Some st3"
    and answer: "queries st3 q = Some (sub, Answered v)" and old: "iat' \<le> iat"
  shows "is_revoked (Some iat') (Answered v) = Some True"
proof -
  have ok: "rev_ok st" using rev_ok_run [OF run rev_ok_start] .
  have "newer_entries sub (clock st) (next_query st) st1"
    using newer_entries_run [OF later(1) newer_entries_now [OF ok]] .
  then have q: "next_query st \<le> q" using lookup_newer later(2) check(1) by blast
  have "caught_up sub iat (next_query st) st1"
    using caught_up_run [OF later(1) caught_up_now [OF ok cut]] .
  then have "caught_up sub iat (next_query st) st2" using caught_up_apply lookup_apply [OF check(1)] by blast
  then have "caught_up sub iat (next_query st) st3" using caught_up_run [OF check(2)] by blast
  then show ?thesis using caught_up_answer q answer old by blast
qed

text \<open>A run: a cached "no cutoff", a sign-out elsewhere, five seconds, a new check.\<close>

definition fleet_run :: "rev_event list" where
  "fleet_run = [Lookup ''u'', Answer 0, Advance 10, Foreign_Write ''u'' 100]"

lemma fleet_run_ok:
  "\<exists>st st1. rev_run fleet_run rev_start = Some st \<and> cutoffs st ''u'' = Some 100 \<and> clock st = 10 \<and>
     rev_run [Advance 5000] st = Some st1 \<and> clock st1 = 5010 \<and> fst (revocation_cutoff ''u'' st1) = 1 \<and>
     (\<exists>st3. rev_run [Answer 1] (snd (revocation_cutoff ''u'' st1)) = Some st3 \<and>
        queries st3 1 = Some (''u'', Answered (Some 100)))"
  by (simp add: fleet_run_def rev_start_def rev_ops Let_def upsert_cutoff_def revocation_cache_ttl_ms_def)

theorem revocation_bounded_staleness_witness: "is_revoked (Some 99) (Answered (Some 100)) = Some True"
proof -
  obtain st st1 st3 where r: "rev_run fleet_run rev_start = Some st" "cutoffs st ''u'' = Some 100" "clock st = 10"
    "rev_run [Advance 5000] st = Some st1" "clock st1 = 5010" "fst (revocation_cutoff ''u'' st1) = 1"
    "rev_run [Answer 1] (snd (revocation_cutoff ''u'' st1)) = Some st3"
    "queries st3 1 = Some (''u'', Answered (Some 100))"
    using fleet_run_ok by blast
  have look: "revocation_cutoff ''u'' st1 = (1, snd (revocation_cutoff ''u'' st1))"
    using r(6) by (metis prod.collapse)
  show ?thesis
    by (rule revocation_bounded_staleness [where iat = 100, OF r(1) _ r(4) _ look r(7,8)])
      (simp_all add: r(2,3,5) at_least_def revocation_cache_ttl_ms_def)
qed


lemma own_signout_run:
  "\<exists>st st1 st3 st6. rev_run [Lookup ''u-1'', Answer 0, Signout ''u-1'' 50] rev_start = Some st \<and>
     land_write ''u-1'' 50 st = Some st1 \<and> finish_write ''u-1'' st1 = Some st3 \<and>
     fst (revocation_cutoff ''u-1'' st3) = 1 \<and>
     rev_run [Answer 1] (snd (revocation_cutoff ''u-1'' st3)) = Some st6 \<and>
     queries st6 1 = Some (''u-1'', Answered (Some 50))"
  by (simp add: rev_start_def rev_ops Let_def upsert_cutoff_def)


definition signout_iats :: "string \<Rightarrow> rev_event list \<Rightarrow> int set" where
  "signout_iats sub es = {iat. Signout sub iat \<in> set es \<or> Foreign_Write sub iat \<in> set es}"

definition cutoffs_from :: "string \<Rightarrow> int set \<Rightarrow> rstate \<Rightarrow> bool" where
  "cutoffs_from sub A st \<longleftrightarrow> (\<forall>i. cutoffs st sub = Some i \<longrightarrow> i \<in> A) \<and>
     (\<forall>i. (sub, i) \<in> set (open_writes st) \<longrightarrow> i \<in> A) \<and>
     (\<forall>q i. queries st q = Some (sub, Answered (Some i)) \<longrightarrow> i \<in> A)"

lemma cutoffs_from_apply:
  assumes "cutoffs_from sub A st" "rev_apply e st = Some st'" "signout_iats sub [e] \<subseteq> A"
  shows "cutoffs_from sub A st'"
  using assms unfolding cutoffs_from_def signout_iats_def
  by (cases e) (auto simp: rev_ops Let_def upsert_cutoff_def dest!: set_remove1_subset [THEN subsetD]
      split: option.splits if_splits query.splits)

lemma cutoffs_from_run:
  assumes "rev_run es rev_start = Some st"
  shows "cutoffs_from sub (signout_iats sub es) st"
  using assms
proof (rule rev_run_inv)
  show "cutoffs_from sub (signout_iats sub es) rev_start" by (simp add: cutoffs_from_def rev_start_def)
  fix e s s'
  assume e: "e \<in> set es" and s: "cutoffs_from sub (signout_iats sub es) s" "rev_apply e s = Some s'"
  have "signout_iats sub [e] \<subseteq> signout_iats sub es" using e by (auto simp: signout_iats_def)
  with s show "cutoffs_from sub (signout_iats sub es) s'" by (rule cutoffs_from_apply)
qed

text \<open>
  Signing out cannot lock a user out of later sessions: whatever writes are replayed, a
  token issued after every signed-out token of its user passes every answered check.
\<close>

theorem later_session_survives:
  assumes "rev_run es rev_start = Some st" "queries st q = Some (sub, Answered v)"
    and "\<forall>i\<in>signout_iats sub es. i < iat" "iat \<noteq> 0"
  shows "is_revoked (Some iat) (Answered v) = Some False"
proof (cases v)
  case (Some i)
  then have "i \<in> signout_iats sub es"
    using cutoffs_from_run [OF assms(1), of sub] assms(2) unfolding cutoffs_from_def by blast
  then have "i < iat" using assms(3) by blast
  then show ?thesis using assms(4) Some by (simp add: is_revoked_def usable_iat_def)
qed (use assms(4) in \<open>simp add: is_revoked_def usable_iat_def\<close>)

theorem later_session_survives_witness: "is_revoked (Some 101) (Answered (Some 100)) = Some False"
proof -
  have "\<exists>st. rev_run [Foreign_Write ''u'' 100, Lookup ''u'', Answer 0] rev_start = Some st \<and>
      queries st 0 = Some (''u'', Answered (Some 100))"
    by (simp add: rev_start_def rev_ops Let_def upsert_cutoff_def)
  then obtain st where r: "rev_run [Foreign_Write ''u'' 100, Lookup ''u'', Answer 0] rev_start = Some st"
    "queries st 0 = Some (''u'', Answered (Some 100))" by blast
  show ?thesis by (rule later_session_survives [OF r]) (simp_all add: signout_iats_def)
qed

text \<open>
  Parallel requests share one query, and a failed check is never remembered: after a lookup,
  a lookup within the window joins the same query without changing the state, unless the query
  failed, in which case the next lookup starts a new one.
\<close>

theorem lookups_coalesce_failures_do_not:
  assumes run: "rev_run es rev_start = Some st" and look: "revocation_cutoff sub st = (q, st1)"
  shows "revocation_cutoff sub st1 = (q, st1) \<and>
    (\<forall>st2. fail_query q st1 = Some st2 \<longrightarrow>
       revocation_cutoff sub st2 = (next_query st2, snd (revocation_cutoff sub st2)) \<and>
       queries (snd (revocation_cutoff sub st2)) (next_query st2) = Some (sub, Pending))"
proof -
  have ok: "rev_ok st1"
    using rev_ok_apply [OF rev_ok_run [OF run rev_ok_start] lookup_apply [OF look]] .
  have entry: "\<exists>c. cutoff_cache st1 sub = Some c \<and> cc_query c = q \<and> clock st1 - cc_at c < revocation_cache_ttl_ms"
    using look by (auto simp: rev_ops Let_def revocation_cache_ttl_ms_def split: option.splits if_splits)
  then obtain c where c: "cutoff_cache st1 sub = Some c" "cc_query c = q"
    "clock st1 - cc_at c < revocation_cache_ttl_ms" by blast
  have same: "revocation_cutoff sub st1 = (q, st1)" using c by (simp add: revocation_cutoff_def)
  have "cutoff_cache st2 sub = None" if "fail_query q st1 = Some st2" for st2
  proof -
    obtain s where s: "queries st1 q = Some (s, Pending)"
      using \<open>fail_query q st1 = Some st2\<close> by (auto simp: fail_query_def split: option.splits query.splits)
    have "s = sub" using ok c(1,2) s unfolding rev_ok_def by force
    then show ?thesis using that s c by (auto simp: fail_query_def drop_entry_def)
  qed
  then show ?thesis using same by (auto simp: revocation_cutoff_def start_query_def Let_def)
qed

theorem lookups_coalesce_failures_do_not_witness:
  "\<exists>st1. revocation_cutoff ''u'' rev_start = (0, st1) \<and> revocation_cutoff ''u'' st1 = (0, st1)"
proof -
  have "revocation_cutoff ''u'' rev_start = (0, snd (revocation_cutoff ''u'' rev_start))"
    by (simp add: rev_ops rev_start_def)
  moreover have "rev_run [] rev_start = Some rev_start" by simp
  ultimately show ?thesis using lookups_coalesce_failures_do_not by blast
qed

section \<open>A retry that is lost\<close>

text \<open>
  The debounce mark is set before the write and survives its failure: repeating the sign-out
  with the same token within two seconds is skipped, so no cutoff is ever recorded.
\<close>

lemma failed_write_blocks_retry:
  "\<exists>st. rev_run [Signout ''u'' 100, Write_Fails ''u'' 100, Advance 1000, Signout ''u'' 100] rev_start = Some st \<and>
     open_writes st = [] \<and> cutoffs st ''u'' = None"
  by (simp add: rev_start_def rev_ops Let_def recent_revoke_debounce_ms_def)

end
