(* ===== verification/Sign_In.thy ===== *)
theory Sign_In
  imports Http_Body Revocation
begin

text \<open>
  Signing in and out: \<^verbatim>\<open>web/lib/login.ts\<close>, \<^verbatim>\<open>web/app/api/auth/login/route.ts\<close>,
  \<^verbatim>\<open>web/app/api/auth/signout/route.ts\<close> and the body ceiling of \<^verbatim>\<open>web/middleware.ts\<close>. The identity
  provider is an argument: from a request to its reply, none where the call fails.
\<close>

section \<open>The provider\<close>

record idp_request =
  iq_url :: string
  iq_target :: string
  iq_body :: js_object

text \<open>\<open>ip_json\<close> is none where the body is no JSON.\<close>

record idp_reply =
  ip_status :: nat
  ip_json :: "js option"

datatype login_code = Invalid_Credentials | Challenge | Unavailable

datatype login_result = Signed_In js int | Login_Failed login_code

definition idp_request_for :: "env \<Rightarrow> string \<Rightarrow> string \<Rightarrow> idp_request" where
  "idp_request_for e email password = \<lparr>iq_url = ''https://cognito-idp.'' @ region_of e @ ''.amazonaws.com/'',
     iq_target = ''AWSCognitoIdentityProviderService.InitiateAuth'',
     iq_body = (''AuthFlow'', JStr ''USER_PASSWORD_AUTH'') #
       (case env_client e of None \<Rightarrow> [] | Some c \<Rightarrow> [(''ClientId'', JStr c)]) @
       [(''AuthParameters'', JObj [(''USERNAME'', JStr email), (''PASSWORD'', JStr password)])]\<rparr>"

definition reply_ok :: "idp_reply \<Rightarrow> bool" where
  "reply_ok r \<longleftrightarrow> 200 \<le> ip_status r \<and> ip_status r < 300"

definition accepted_reply :: "js \<Rightarrow> login_result" where
  "accepted_reply data =
     (if truthy (attr data ''ChallengeName'') then Login_Failed Challenge
      else (let result = attr data ''AuthenticationResult'' in
        case attr result ''ExpiresIn'' of
          JNum n \<Rightarrow> if truthy (attr result ''IdToken'') then Signed_In (attr result ''IdToken'') n else Login_Failed Unavailable
        | _ \<Rightarrow> Login_Failed Unavailable))"

definition refused_reply :: "js \<Rightarrow> login_result" where
  "refused_reply data = (let t = (if truthy (attr data ''__type'') then to_string (attr data ''__type'') else []) in
     if contains ''NotAuthorizedException'' t \<or> contains ''UserNotFoundException'' t then Login_Failed Invalid_Credentials
     else if contains ''PasswordResetRequiredException'' t then Login_Failed Challenge
     else Login_Failed Unavailable)"

text \<open>None where the call throws: a body that is the JSON \<open>null\<close> has no fields to read.\<close>

definition initiate_auth :: "env \<Rightarrow> (idp_request \<Rightarrow> idp_reply option) \<Rightarrow> string \<Rightarrow> string \<Rightarrow> login_result option" where
  "initiate_auth e fetch email password = (case fetch (idp_request_for e email password) of
      None \<Rightarrow> Some (Login_Failed Unavailable)
    | Some r \<Rightarrow> if 500 \<le> ip_status r then Some (Login_Failed Unavailable)
        else (case ip_json r of
            None \<Rightarrow> Some (Login_Failed Unavailable)
          | Some data \<Rightarrow> if nullish data then None
              else Some (if reply_ok r then accepted_reply data else refused_reply data)))"

section \<open>The cookie and the redirect\<close>

definition COOKIE_NAME :: string where "COOKIE_NAME = ''awsops_token''"

definition session_cookie :: "string \<Rightarrow> bool \<Rightarrow> int \<Rightarrow> string" where
  "session_cookie token remember expires_in = COOKIE_NAME @ ''='' @ token @ ''; Path=/; Secure; HttpOnly; SameSite=Lax'' @
     (if remember then ''; Max-Age='' @ show_int expires_in else [])"

abbreviation backslash :: char where "backslash \<equiv> CHR 0x5C"

definition safe_next :: "string \<Rightarrow> string" where
  "safe_next raw =
     (if raw = [] \<or> 2048 < length raw then ''/''
      else if hd raw \<noteq> CHR ''/'' then ''/''
      else if tl raw \<noteq> [] \<and> (hd (tl raw) = CHR ''/'' \<or> hd (tl raw) = backslash) then ''/''
      else if backslash \<in> set raw then ''/''
      else raw)"

section \<open>The handlers\<close>

record login_response =
  lr_status :: nat
  lr_error :: "string option"
  lr_redirect :: "string option"
  lr_cookie :: "string option"

definition json_error :: "string \<Rightarrow> nat \<Rightarrow> login_response" where
  "json_error code status = \<lparr>lr_status = status, lr_error = Some code, lr_redirect = None, lr_cookie = None\<rparr>"

definition MAX_EMAIL :: nat where "MAX_EMAIL = 254"
definition MAX_PASSWORD :: nat where "MAX_PASSWORD = 256"

definition login_text :: "nat \<Rightarrow> js \<Rightarrow> string option" where
  "login_text cap v = (case v of JStr s \<Rightarrow> if s = [] \<or> cap < length s then None else Some s | _ \<Rightarrow> None)"

definition code_error :: "login_code \<Rightarrow> login_response" where
  "code_error c = (case c of Invalid_Credentials \<Rightarrow> json_error ''invalid_credentials'' 401
     | Challenge \<Rightarrow> json_error ''challenge'' 403 | Unavailable \<Rightarrow> json_error ''unavailable'' 502)"

definition signed_in :: "js \<Rightarrow> js \<Rightarrow> int \<Rightarrow> login_response" where
  "signed_in body token n = \<lparr>lr_status = 200, lr_error = None,
     lr_redirect = Some (safe_next (case attr body ''next'' of JStr s \<Rightarrow> s | _ \<Rightarrow> ''/'')),
     lr_cookie = Some (session_cookie (to_string token) (attr body ''remember'' = JBool True) n)\<rparr>"

definition post_login :: "codec \<Rightarrow> env \<Rightarrow> (idp_request \<Rightarrow> idp_reply option) \<Rightarrow> http_request \<Rightarrow> login_response option" where
  "post_login cd e fetch req = (case read_json_bounded cd DEFAULT_MAX_BYTES req of
      Inl Body_Too_Large \<Rightarrow> Some (json_error ''invalid_request'' 413)
    | Inl Syntax_Error \<Rightarrow> Some (json_error ''invalid_request'' 400)
    | Inr body \<Rightarrow>
        (case (login_text MAX_EMAIL (attr body ''email''), login_text MAX_PASSWORD (attr body ''password'')) of
           (Some email, Some password) \<Rightarrow> (case initiate_auth e fetch email password of
               None \<Rightarrow> None
             | Some (Login_Failed c) \<Rightarrow> Some (code_error c)
             | Some (Signed_In token n) \<Rightarrow> Some (signed_in body token n))
         | _ \<Rightarrow> Some (json_error ''invalid_request'' 400)))"

text \<open>Signing out is never refused: the cookie is cleared whether or not a cutoff could be written.\<close>

definition signed_out :: login_response where
  "signed_out = \<lparr>lr_status = 200, lr_error = None, lr_redirect = Some ''/login'',
     lr_cookie = Some (COOKIE_NAME @ ''=; Path=/; Secure; HttpOnly; SameSite=Lax; Max-Age=0'')\<rparr>"

definition post_signout :: "env \<Rightarrow> string option \<Rightarrow> jwt_verify \<Rightarrow> string option \<Rightarrow> rstate \<Rightarrow> login_response \<times> rstate" where
  "post_signout e memo verify header st = (signed_out,
     case verify_user_for_signout e memo verify header of
       None \<Rightarrow> st
     | Some u \<Rightarrow> if usable_iat (u_iat u) then revoke_sessions_for (u_sub u) (the (u_iat u)) st else st)"

definition MIDDLEWARE_BODY_BYTES :: nat where "MIDDLEWARE_BODY_BYTES = 2 * 1024 * 1024"

text \<open>True where the request goes on to its handler.\<close>

definition body_ceiling :: "codec \<Rightarrow> string \<Rightarrow> http_request \<Rightarrow> bool" where
  "body_ceiling cd method r \<longleftrightarrow> method \<in> {''GET'', ''HEAD'', ''OPTIONS''} \<or> \<not> over_cap_header cd MIDDLEWARE_BODY_BYTES r"

section \<open>What signing in gives\<close>

lemma safe_next_path:
  "\<exists>rest. safe_next raw = CHR ''/'' # rest \<and> backslash \<notin> set rest \<and> (\<forall>c cs. rest = c # cs \<longrightarrow> c \<noteq> CHR ''/'')"
proof (cases raw)
  case (Cons c cs)
  then show ?thesis by (cases cs) (auto simp: safe_next_def)
qed (simp add: safe_next_def)

text \<open>What a browser stores of a \<open>Set-Cookie\<close> and sends back: the pair before the attributes.\<close>

definition sent_back :: "string \<Rightarrow> string" where
  "sent_back set_cookie = takeWhile (\<lambda>c. c \<noteq> CHR '';'') set_cookie"

lemma sent_back_token:
  assumes "cookie_value token"
  shows "sent_back (session_cookie token remember n) = cookie_header [(COOKIE_NAME, token)]"
proof -
  have "takeWhile (\<lambda>c. c \<noteq> CHR '';'') (token @ CHR '';'' # rest) = token" for rest
    using assms by (induction token) (auto simp: cookie_value_def)
  then show ?thesis
    by (simp add: sent_back_def session_cookie_def COOKIE_NAME_def cookie_header_def cookie_pair_def)
qed

lemma token_read_back:
  assumes "cookie_value token"
  shows "parse_cookie (Some (sent_back (session_cookie token remember n))) ''awsops_token'' = Some token"
proof -
  have "cookie_name ''awsops_token''" by (simp add: cookie_name_def is_space_def)
  then show ?thesis
    using parse_cookie_roundtrip [of "[(''awsops_token'', token)]" "''awsops_token''"] sent_back_token [OF assms] assms
    by (simp add: COOKIE_NAME_def)
qed

lemma accepted_replyD:
  assumes "accepted_reply data = Signed_In token n"
  shows "token = attr (attr data ''AuthenticationResult'') ''IdToken'' \<and> truthy token \<and> \<not> truthy (attr data ''ChallengeName'')"
  using assms by (auto simp: accepted_reply_def Let_def split: if_splits js.splits)

lemma initiate_authD:
  assumes "initiate_auth e fetch email password = Some (Signed_In token n)"
  obtains r data where "fetch (idp_request_for e email password) = Some r" "reply_ok r" "ip_json r = Some data"
    "accepted_reply data = Signed_In token n"
  using assms
  by (auto simp: initiate_auth_def refused_reply_def Let_def split: option.splits if_splits)

lemma post_loginD:
  assumes "post_login cd e fetch req = Some resp" "lr_cookie resp \<noteq> None"
  obtains body email password token n where "read_json_bounded cd DEFAULT_MAX_BYTES req = Inr body"
    "attr body ''email'' = JStr email" "attr body ''password'' = JStr password"
    "initiate_auth e fetch email password = Some (Signed_In token n)" "resp = signed_in body token n"
  using assms
  by (auto simp: post_login_def json_error_def code_error_def login_text_def
      split: sum.splits body_error.splits option.splits js.splits if_splits login_result.splits login_code.splits)


definition demo_login_codec :: codec where
  "demo_login_codec = \<lparr>decode = (\<lambda>_. []), encode = (\<lambda>_. []), parse_json = (\<lambda>_. Some (JObj
     [(''email'', JStr ''a@b''), (''password'', JStr ''p''), (''next'', JStr ''/cost'')])), header_number = (\<lambda>_. None)\<rparr>"

definition demo_provider :: "idp_request \<Rightarrow> idp_reply option" where
  "demo_provider q = Some \<lparr>ip_status = 200, ip_json = Some (JObj [(''AuthenticationResult'',
     JObj [(''IdToken'', JStr ''h.p.s''), (''ExpiresIn'', JNum 3600)])])\<rparr>"

definition demo_login_env :: env where
  "demo_login_env = \<lparr>env_region = None, env_pool = None, env_client = Some ''c'', env_legacy_match = None\<rparr>"

definition demo_login_request :: http_request where
  "demo_login_request = \<lparr>hr_length = Some ''9'', hr_stream = None, hr_text = ''{}''\<rparr>"

definition demo_login_body :: js where
  "demo_login_body = JObj [(''email'', JStr ''a@b''), (''password'', JStr ''p''), (''next'', JStr ''/cost'')]"

lemma demo_read: "read_json_bounded demo_login_codec DEFAULT_MAX_BYTES demo_login_request = Inr demo_login_body"
  by (simp add: read_json_bounded_def read_text_bounded_def over_cap_header_def read_plain_def demo_login_codec_def
      demo_login_request_def demo_login_body_def)

lemma demo_initiate:
  "initiate_auth demo_login_env demo_provider ''a@b'' ''p'' = Some (Signed_In (JStr ''h.p.s'') 3600)"
  by (simp add: initiate_auth_def demo_provider_def nullish_def reply_ok_def accepted_reply_def attr_def field_def truthy_def)

lemma demo_texts:
  "login_text MAX_EMAIL (attr demo_login_body ''email'') = Some ''a@b''"
  "login_text MAX_PASSWORD (attr demo_login_body ''password'') = Some ''p''"
  by (simp_all add: login_text_def demo_login_body_def attr_def field_def MAX_EMAIL_def MAX_PASSWORD_def)

lemma demo_login:
  "post_login demo_login_codec demo_login_env demo_provider demo_login_request = Some (signed_in demo_login_body (JStr ''h.p.s'') 3600)"
  by (simp add: post_login_def demo_read demo_texts demo_initiate)


text \<open>
  The first step of the URL parser removes tabs and newlines. A redirect with a tab after its first
  slash passes the check and is then a path that starts with two slashes: another origin.
\<close>

definition url_input :: "string \<Rightarrow> string" where
  "url_input s = filter (\<lambda>c. (of_char c :: nat) \<notin> {9, 10, 13}) s"

lemma tab_reaches_another_origin:
  "let raw = ''/'' @ [char_of (9 :: nat)] @ ''/evil.example'' in
     safe_next raw = raw \<and> url_input (safe_next raw) = ''//evil.example''"
  by code_simp

end
