(* ===== verification/Jobs.thy ===== *)
theory Jobs
  imports Js_Values
begin

text \<open>
  \<open>enqueueJob\<close> of \<open>web/lib/jobs.ts\<close>: the durable ledger \<open>worker_jobs\<close> with its unique
  constraints, insert-or-get on the idempotency key, and the message sent to the queue. The
  database clock, the identifier generator and the outcome of the SQS call are arguments.
\<close>

section \<open>Ledger\<close>

record job_row =
  j_id :: string
  j_type :: string
  j_payload :: "js_object option"
  j_dry_run :: bool
  j_key :: "string option"
  j_owner :: "string option"
  j_status :: string

type_synonym ledger = "job_row list"

record message =
  m_job_id :: string
  m_type :: string
  m_payload :: js_object
  m_dry_run :: bool

record enqueue_opts =
  opt_key :: "string option"
  opt_dry_run :: "bool option"
  opt_job_id :: "string option"
  opt_requested_by :: "string option"

text \<open>\<open>{ job_id, status, payload }\<close>, and the errors the function throws.\<close>

record enqueue_result =
  r_job_id :: string
  r_status :: string
  r_payload :: js_object

datatype enqueue_error =
    Workers_Disabled
  | Database_Error "string option"
  | Key_Collision
  | Delivery_Error string string

text \<open>
  The constraints of the table: the primary key, the legacy global uniqueness of the key, and
  one partial index per kind of requester. SQL's NULL is equal to nothing in a unique index.
\<close>

definition same_key :: "string option \<Rightarrow> string option \<Rightarrow> bool" where
  "same_key a b \<longleftrightarrow> a \<noteq> None \<and> a = b"

definition arbiter_conflict :: "ledger \<Rightarrow> job_row \<Rightarrow> bool" where
  "arbiter_conflict L r \<longleftrightarrow> (\<exists>x\<in>set L. j_owner x = j_owner r \<and> same_key (j_key x) (j_key r))"

datatype insert_outcome = Inserted ledger | Do_Nothing | Unique_Violation "string option"

text \<open>\<open>INSERT ... ON CONFLICT <arbiter> DO NOTHING\<close>: only the arbiter's conflict is silent.\<close>

definition insert_job :: "ledger \<Rightarrow> job_row \<Rightarrow> insert_outcome" where
  "insert_job L r =
     (if arbiter_conflict L r then Do_Nothing
      else if \<exists>x\<in>set L. j_id x = j_id r then Unique_Violation (Some ''worker_jobs_pkey'')
      else if \<exists>x\<in>set L. same_key (j_key x) (j_key r)
        then Unique_Violation (Some ''worker_jobs_idempotency_key_key'')
      else Inserted (L @ [r]))"

text \<open>\<open>WHERE idempotency_key = $1 AND requested_by IS NOT DISTINCT FROM $2\<close>.\<close>

definition find_own_job :: "ledger \<Rightarrow> string option \<Rightarrow> string option \<Rightarrow> job_row option" where
  "find_own_job L key owner = List.find (\<lambda>x. same_key (j_key x) key \<and> j_owner x = owner) L"

definition safe_payload :: "js_object \<Rightarrow> js_object" where
  "safe_payload p = filter (\<lambda>(k, _). k \<noteq> ''scheduled'') p"

definition new_row :: "string \<Rightarrow> string \<Rightarrow> js_object \<Rightarrow> enqueue_opts \<Rightarrow> job_row" where
  "new_row fresh type payload opts =
     \<lparr>j_id = (case opt_job_id opts of Some i \<Rightarrow> if i = [] then fresh else i | None \<Rightarrow> fresh),
      j_type = type, j_payload = Some (safe_payload payload),
      j_dry_run = (opt_dry_run opts = Some True), j_key = opt_key opts,
      j_owner = opt_requested_by opts, j_status = ''queued''\<rparr>"

text \<open>The row the message describes: this request's on an insert, the ledger's on a replay.\<close>

definition insert_or_get :: "ledger \<Rightarrow> job_row \<Rightarrow> (enqueue_error + job_row) \<times> ledger" where
  "insert_or_get L r =
     (let recover = (case find_own_job L (j_key r) (j_owner r) of
                       None \<Rightarrow> Inl Key_Collision | Some x \<Rightarrow> Inr x)
      in case insert_job L r of
           Inserted L' \<Rightarrow> (Inr r, L')
         | Do_Nothing \<Rightarrow> (recover, L)
         | Unique_Violation c \<Rightarrow>
             (case c of
                Some name \<Rightarrow> if contains ''idempotency_key'' name then (recover, L) else (Inl (Database_Error c), L)
              | None \<Rightarrow> (recover, L)))"

definition message_of :: "job_row \<Rightarrow> message" where
  "message_of x = \<lparr>m_job_id = j_id x, m_type = j_type x,
     m_payload = (case j_payload x of Some p \<Rightarrow> p | None \<Rightarrow> []), m_dry_run = j_dry_run x\<rparr>"

record job_state =
  ledger :: ledger
  queue :: "message list"

text \<open>
  \<open>queue_url\<close> is the environment's \<open>JOBS_QUEUE_URL\<close>, \<open>fresh\<close> the random id, \<open>delivered\<close>
  whether the send succeeds.
\<close>

definition enqueue_job ::
  "string option \<Rightarrow> string \<Rightarrow> bool \<Rightarrow> string \<Rightarrow> js_object \<Rightarrow> enqueue_opts \<Rightarrow> job_state \<Rightarrow>
   (enqueue_error + enqueue_result) \<times> job_state" where
  "enqueue_job queue_url fresh delivered type payload opts st =
     (if queue_url = None \<or> queue_url = Some [] then (Inl Workers_Disabled, st)
      else case insert_or_get (ledger st) (new_row fresh type payload opts) of
          (Inl e, L) \<Rightarrow> (Inl e, st\<lparr>ledger := L\<rparr>)
        | (Inr x, L) \<Rightarrow>
            if delivered
            then (Inr \<lparr>r_job_id = j_id x, r_status = j_status x, r_payload = m_payload (message_of x)\<rparr>,
                  st\<lparr>ledger := L, queue := queue st @ [message_of x]\<rparr>)
            else (Inl (Delivery_Error (j_id x) (j_status x)), st\<lparr>ledger := L\<rparr>))"

section \<open>Sequences of requests\<close>

record request =
  q_url :: "string option"
  q_fresh :: string
  q_delivered :: bool
  q_type :: string
  q_payload :: js_object
  q_opts :: enqueue_opts

text \<open>Between requests a worker moves a row's status; nothing else of a row changes.\<close>

datatype job_event = Enqueue request | Progress string string

definition set_status :: "string \<Rightarrow> string \<Rightarrow> job_state \<Rightarrow> job_state" where
  "set_status i s st = st\<lparr>ledger := map (\<lambda>x. if j_id x = i then x\<lparr>j_status := s\<rparr> else x) (ledger st)\<rparr>"

definition run_request :: "request \<Rightarrow> job_state \<Rightarrow> (enqueue_error + enqueue_result) \<times> job_state" where
  "run_request q st = enqueue_job (q_url q) (q_fresh q) (q_delivered q) (q_type q) (q_payload q) (q_opts q) st"

fun job_step :: "job_event \<Rightarrow> job_state \<Rightarrow> job_state" where
  "job_step (Enqueue q) st = snd (run_request q st)"
| "job_step (Progress i s) st = set_status i s st"

definition job_run :: "job_event list \<Rightarrow> job_state" where
  "job_run es = foldl (\<lambda>st e. job_step e st) \<lparr>ledger = [], queue = []\<rparr> es"

lemma job_run_inv:
  assumes "P \<lparr>ledger = [], queue = []\<rparr>" "\<And>e st. P st \<Longrightarrow> P (job_step e st)"
  shows "P (job_run es)"
  by (induction es rule: rev_induct) (simp_all add: job_run_def assms)

section \<open>Invariant\<close>

text \<open>The three uniqueness constraints, and: every message is a row of the ledger.\<close>

definition no_schedule :: "js_object \<Rightarrow> bool" where
  "no_schedule p \<longleftrightarrow> ''scheduled'' \<notin> fst ` set p"

definition ledger_ok :: "ledger \<Rightarrow> bool" where
  "ledger_ok L \<longleftrightarrow> distinct (map j_id L) \<and>
     (\<forall>x\<in>set L. \<forall>y\<in>set L. same_key (j_key x) (j_key y) \<longrightarrow> x = y) \<and>
     (\<forall>x\<in>set L. \<exists>p. j_payload x = Some p \<and> no_schedule p)"

definition job_ok :: "job_state \<Rightarrow> bool" where
  "job_ok st \<longleftrightarrow> ledger_ok (ledger st) \<and>
     (\<forall>m\<in>set (queue st). \<exists>x\<in>set (ledger st). m = message_of x)"

lemma no_schedule_safe: "no_schedule (safe_payload p)"
  by (auto simp: no_schedule_def safe_payload_def)

lemma new_row_fields [simp]:
  "j_key (new_row f t p opts) = opt_key opts" "j_owner (new_row f t p opts) = opt_requested_by opts"
  "j_payload (new_row f t p opts) = Some (safe_payload p)" "j_status (new_row f t p opts) = ''queued''"
  by (simp_all add: new_row_def)

lemma same_key_sym: "same_key a b \<longleftrightarrow> same_key b a"
  by (auto simp: same_key_def)

lemma insert_job_ok:
  assumes "ledger_ok L" "insert_job L r = Inserted L'" "j_payload r = Some p" "no_schedule p"
  shows "ledger_ok L' \<and> L' = L @ [r]"
proof -
  have L': "L' = L @ [r]" "j_id r \<notin> j_id ` set L" "\<forall>x\<in>set L. \<not> same_key (j_key x) (j_key r)"
    using assms(2) by (auto simp: insert_job_def split: if_splits)
  then show ?thesis using assms(1,3,4) same_key_sym unfolding ledger_ok_def by auto
qed

lemma insert_or_get_ok:
  assumes "ledger_ok L" "insert_or_get L r = (out, L')" "j_payload r = Some p" "no_schedule p"
  shows "ledger_ok L'" and "L' = L \<or> L' = L @ [r]"
    and "out = Inr x \<Longrightarrow> x \<in> set L' \<and> j_owner x = j_owner r \<and>
      (x = r \<and> L' = L @ [r] \<or> same_key (j_key x) (j_key r))"
proof -
  have own: "x \<in> set L \<and> j_owner x = j_owner r \<and> same_key (j_key x) (j_key r)"
    if "find_own_job L (j_key r) (j_owner r) = Some x" for x
    using that unfolding find_own_job_def by (auto simp: find_Some_iff)
  show "ledger_ok L'" "L' = L \<or> L' = L @ [r]"
    using assms insert_job_ok [OF assms(1) _ assms(3,4)]
    by (auto simp: insert_or_get_def Let_def split: insert_outcome.splits option.splits if_splits)
  show "x \<in> set L' \<and> j_owner x = j_owner r \<and> (x = r \<and> L' = L @ [r] \<or> same_key (j_key x) (j_key r))" if "out = Inr x"
    using assms(2) that own insert_job_ok [OF assms(1) _ assms(3,4)]
    by (auto simp: insert_or_get_def Let_def split: insert_outcome.splits option.splits if_splits)
qed

lemma enqueue_jobE:
  assumes "enqueue_job url fresh dlv type payload opts st = (out, st')" "ledger_ok (ledger st)"
  obtains "out = Inl Workers_Disabled" "st' = st"
  | e where "out = Inl e" "st' = st" "e = Key_Collision \<or> (\<exists>c. e = Database_Error c)"
  | x where "x \<in> set (ledger st')" "ledger_ok (ledger st')" "j_owner x = opt_requested_by opts"
      "x = new_row fresh type payload opts \<and> ledger st' = ledger st @ [x] \<or> same_key (j_key x) (opt_key opts)"
      "ledger st' = ledger st \<or> ledger st' = ledger st @ [new_row fresh type payload opts]"
      "queue st' = queue st @ (if dlv then [message_of x] else [])"
      "out = (if dlv then Inr \<lparr>r_job_id = j_id x, r_status = j_status x, r_payload = m_payload (message_of x)\<rparr>
              else Inl (Delivery_Error (j_id x) (j_status x)))"
proof (cases "url = None \<or> url = Some []")
  case True
  then show thesis using assms(1) that(1) by (auto simp: enqueue_job_def)
next
  case False
  obtain res L' where io: "insert_or_get (ledger st) (new_row fresh type payload opts) = (res, L')"
    by fastforce
  note ok = insert_or_get_ok [OF assms(2) io new_row_fields(3) no_schedule_safe]
  show thesis
  proof (cases res)
    case (Inl e)
    then have "L' = ledger st" "e = Key_Collision \<or> (\<exists>c. e = Database_Error c)"
      using io by (auto simp: insert_or_get_def Let_def split: insert_outcome.splits option.splits if_splits)
    then show thesis using assms(1) False io Inl that(2) by (auto simp: enqueue_job_def)
  next
    case (Inr x)
    have "x \<in> set L'" "j_owner x = opt_requested_by opts"
      "x = new_row fresh type payload opts \<and> L' = ledger st @ [x] \<or> same_key (j_key x) (opt_key opts)"
      using ok(3) [OF Inr] by auto
    with assms(1) False io Inr ok(1,2) show thesis
      by (intro that(3) [of x]) (auto simp: enqueue_job_def split: if_splits)
  qed
qed

lemma set_status_ok:
  assumes "job_ok st"
  shows "job_ok (set_status i s st)"
proof -
  let ?f = "\<lambda>x. if j_id x = i then x\<lparr>j_status := s\<rparr> else x"
  have keys: "j_id (?f x) = j_id x" "j_key (?f x) = j_key x" "j_payload (?f x) = j_payload x"
    "message_of (?f x) = message_of x" for x
    by (simp_all add: message_of_def)
  have L: "ledger_ok (ledger st)" using assms by (simp add: job_ok_def)
  have "distinct (map j_id (map ?f (ledger st)))"
  proof -
    have "map j_id (map ?f (ledger st)) = map j_id (ledger st)" using keys(1) by simp
    then show ?thesis using L by (simp only: ledger_ok_def)
  qed
  moreover have "?f x = ?f y"
    if xy: "x \<in> set (ledger st)" "y \<in> set (ledger st)" "same_key (j_key (?f x)) (j_key (?f y))" for x y
  proof -
    have "same_key (j_key x) (j_key y)" using xy(3) unfolding keys .
    then have "x = y" using xy(1,2) L unfolding ledger_ok_def by blast
    then show ?thesis by simp
  qed
  moreover have "\<exists>p. j_payload (?f x) = Some p \<and> no_schedule p" if "x \<in> set (ledger st)" for x
    unfolding keys using that L unfolding ledger_ok_def by blast
  ultimately have "ledger_ok (map ?f (ledger st))"
    unfolding ledger_ok_def list.set_map by blast
  moreover have "\<exists>x\<in>set (map ?f (ledger st)). m = message_of x" if "m \<in> set (queue st)" for m
  proof -
    have "\<forall>m\<in>set (queue st). \<exists>x\<in>set (ledger st). m = message_of x" using assms by (simp add: job_ok_def)
    then obtain x where x: "x \<in> set (ledger st)" "m = message_of x" using \<open>m \<in> set (queue st)\<close> by blast
    have "?f x \<in> set (map ?f (ledger st))" unfolding list.set_map using x(1) by (rule imageI)
    moreover have "m = message_of (?f x)" unfolding x(2) keys ..
    ultimately show ?thesis by blast
  qed
  moreover have eqs: "ledger (set_status i s st) = map ?f (ledger st)" "queue (set_status i s st) = queue st"
    by (simp_all add: set_status_def)
  ultimately show ?thesis unfolding job_ok_def eqs by (intro conjI ballI)
qed

lemma run_request_ok:
  assumes "job_ok st"
  shows "job_ok (snd (run_request q st))"
proof -
  obtain out st' where run: "run_request q st = (out, st')" by fastforce
  have L: "ledger_ok (ledger st)" using assms by (simp add: job_ok_def)
  show ?thesis
    using run [unfolded run_request_def] L
  proof (cases rule: enqueue_jobE)
    case 1
    then show ?thesis using run assms by simp
  next
    case (2 e)
    then show ?thesis using run assms by simp
  next
    case (3 x)
    then have "\<forall>m\<in>set (queue st'). \<exists>y\<in>set (ledger st'). m = message_of y"
      using assms unfolding job_ok_def by (auto split: if_splits)
    with 3(2) show ?thesis using run by (simp add: job_ok_def)
  qed
qed

lemma job_ok_run: "job_ok (job_run es)"
proof (rule job_run_inv)
  show "job_ok \<lparr>ledger = [], queue = []\<rparr>" by (simp add: job_ok_def ledger_ok_def)
  show "job_ok (job_step e st)" if "job_ok st" for e st
    using that by (cases e) (simp_all add: run_request_ok set_status_ok)
qed

section \<open>Theorems\<close>

text \<open>
  C17. The queue can never contradict the ledger: whatever requests and worker updates happened,
  every message sent describes a row of the ledger under its id, with that row's type, payload
  and dry-run flag; ids are unique, an idempotency key names at most one job, and no payload,
  recorded or sent, carries the scheduler's \<open>scheduled\<close> marker.
\<close>

theorem queue_agrees_with_ledger:
  assumes "m \<in> set (queue (job_run es))"
  shows "(\<exists>!x. x \<in> set (ledger (job_run es)) \<and> j_id x = m_job_id m) \<and>
    (\<exists>x\<in>set (ledger (job_run es)). j_id x = m_job_id m \<and> j_type x = m_type m \<and>
      j_payload x = Some (m_payload m) \<and> j_dry_run x = m_dry_run m \<and> no_schedule (m_payload m))"
proof -
  have ok: "job_ok (job_run es)" by (rule job_ok_run)
  then obtain x where x: "x \<in> set (ledger (job_run es))" "m = message_of x"
    using assms unfolding job_ok_def by blast
  obtain p where p: "j_payload x = Some p" "no_schedule p"
    using ok x(1) unfolding job_ok_def ledger_ok_def by blast
  have "inj_on j_id (set (ledger (job_run es)))" using ok by (simp add: job_ok_def ledger_ok_def distinct_map)
  then have "\<exists>!x. x \<in> set (ledger (job_run es)) \<and> j_id x = m_job_id m"
    using x by (intro ex1I [of _ x]) (auto simp: message_of_def dest: inj_onD)
  moreover have "\<exists>x\<in>set (ledger (job_run es)). j_id x = m_job_id m \<and> j_type x = m_type m \<and>
      j_payload x = Some (m_payload m) \<and> j_dry_run x = m_dry_run m \<and> no_schedule (m_payload m)"
    using x p by (intro bexI [of _ x]) (simp_all add: message_of_def)
  ultimately show ?thesis ..
qed

text \<open>A request under a key, and another requester guessing the key.\<close>

definition sample_request :: "string \<Rightarrow> string \<Rightarrow> request" where
  "sample_request owner fresh = \<lparr>q_url = Some ''https://q'', q_fresh = fresh, q_delivered = True,
     q_type = ''report'', q_payload = [(''tier'', JStr ''deep''), (''scheduled'', JBool True)],
     q_opts = \<lparr>opt_key = Some ''k1'', opt_dry_run = None, opt_job_id = None, opt_requested_by = Some owner\<rparr>\<rparr>"

definition sample_message :: message where
  "sample_message = \<lparr>m_job_id = ''j1'', m_type = ''report'', m_payload = [(''tier'', JStr ''deep'')], m_dry_run = False\<rparr>"

lemma sample_queue: "sample_message \<in> set (queue (job_run [Enqueue (sample_request ''u'' ''j1'')]))"
  by code_simp

theorem queue_agrees_with_ledger_witness:
  "\<exists>x\<in>set (ledger (job_run [Enqueue (sample_request ''u'' ''j1'')])). j_id x = ''j1'' \<and> no_schedule (m_payload sample_message)"
proof -
  have "m_job_id sample_message = ''j1''" by (simp add: sample_message_def)
  then show ?thesis using queue_agrees_with_ledger [OF sample_queue] by auto
qed

text \<open>
  C21. Requesters cannot reach each other's jobs: a successful enqueue, or one whose delivery
  failed, names a job recorded under the caller's own identity and key (its own fresh row or the
  first one it recorded under that key), whose payload is what is returned; every other row of
  the ledger is left as it was.
\<close>

theorem enqueue_only_own_job:
  assumes "run_request q (job_run es) = (out, st')"
    and "out = Inr res \<and> i = r_job_id res \<or> out = Inl (Delivery_Error i s)"
  shows "\<exists>x\<in>set (ledger st'). j_id x = i \<and> j_owner x = opt_requested_by (q_opts q) \<and>
      (j_key x = opt_key (q_opts q)) \<and>
      (out = Inr res \<longrightarrow> j_payload x = Some (r_payload res) \<and> r_status res = j_status x) \<and>
      (ledger st' = ledger (job_run es) \<or> ledger st' = ledger (job_run es) @ [x])"
proof -
  have ok: "ledger_ok (ledger (job_run es))" using job_ok_run [of es] by (simp add: job_ok_def)
  let ?r = "new_row (q_fresh q) (q_type q) (q_payload q) (q_opts q)"
  show ?thesis
    using assms(1) [unfolded run_request_def] ok
  proof (cases rule: enqueue_jobE)
    case (3 x)
    obtain p where p: "j_payload x = Some p" using 3(1,2) unfolding ledger_ok_def by blast
    have key: "j_key x = opt_key (q_opts q)" using 3(4) by (auto simp: same_key_def)
    have "x = ?r" if L: "ledger st' = ledger (job_run es) @ [?r]"
    proof (rule ccontr)
      assume ne: "x \<noteq> ?r"
      then have "same_key (j_key x) (j_key ?r)" using 3(4) by simp
      moreover have "?r \<in> set (ledger st')" using L by simp
      ultimately show False using 3(1,2) ne unfolding ledger_ok_def by blast
    qed
    then show ?thesis
      using 3 assms(2) p key by (intro bexI [of _ x]) (auto simp: message_of_def split: if_splits)
  qed (use assms(2) in auto)
qed

theorem enqueue_only_own_job_witness:
  "\<exists>x\<in>set (ledger (snd (run_request (sample_request ''u'' ''j1'') (job_run [])))). j_id x = ''j1'' \<and> j_owner x = Some ''u''"
proof -
  let ?res = "\<lparr>r_job_id = ''j1'', r_status = ''queued'', r_payload = [(''tier'', JStr ''deep'')]\<rparr>"
  have "fst (run_request (sample_request ''u'' ''j1'') (job_run [])) = Inr ?res" by code_simp
  then have run: "run_request (sample_request ''u'' ''j1'') (job_run [])
      = (Inr ?res, snd (run_request (sample_request ''u'' ''j1'') (job_run [])))"
    by (metis prod.collapse)
  have "opt_requested_by (q_opts (sample_request ''u'' ''j1'')) = Some ''u''" by (simp add: sample_request_def)
  with enqueue_only_own_job [OF run, of ?res "''j1''"] show ?thesis by auto
qed

text \<open>
  Retrying is idempotent: once a requester has a job under a key, every later enqueue under
  that key by the same requester, whatever it asks for, leaves the ledger unchanged and
  answers with that same job and its recorded payload, and re-sends the recorded message.
\<close>

theorem replay_returns_recorded_job:
  assumes x: "x \<in> set (ledger (job_run es))" "j_key x \<noteq> None"
    and q: "opt_key (q_opts q) = j_key x" "opt_requested_by (q_opts q) = j_owner x"
    and live: "q_url q = Some url" "url \<noteq> []" "q_delivered q"
  shows "run_request q (job_run es) =
     (Inr \<lparr>r_job_id = j_id x, r_status = j_status x, r_payload = the (j_payload x)\<rparr>,
      (job_run es)\<lparr>queue := queue (job_run es) @ [message_of x]\<rparr>)"
proof -
  let ?L = "ledger (job_run es)"
  let ?r = "new_row (q_fresh q) (q_type q) (q_payload q) (q_opts q)"
  have ok: "ledger_ok ?L" using job_ok_run [of es] by (simp add: job_ok_def)
  have hit: "same_key (j_key x) (j_key ?r)" "j_owner x = j_owner ?r" using x(2) q by (auto simp: same_key_def)
  then have "insert_job ?L ?r = Do_Nothing" using x(1) by (auto simp: insert_job_def arbiter_conflict_def)
  moreover have "find_own_job ?L (j_key ?r) (j_owner ?r) = Some x"
  proof -
    have "\<exists>y\<in>set ?L. same_key (j_key y) (j_key ?r) \<and> j_owner y = j_owner ?r" using x(1) hit by blast
    then obtain y where y: "find_own_job ?L (j_key ?r) (j_owner ?r) = Some y"
      by (cases "find_own_job ?L (j_key ?r) (j_owner ?r)") (auto simp: find_own_job_def find_None_iff)
    then have "y \<in> set ?L" "same_key (j_key y) (j_key ?r)" by (auto simp: find_own_job_def find_Some_iff)
    then have "y = x" using ok x(1) hit(1) unfolding ledger_ok_def same_key_def by metis
    then show ?thesis using y by simp
  qed
  ultimately have io: "insert_or_get ?L ?r = (Inr x, ?L)" by (simp add: insert_or_get_def)
  obtain p where "j_payload x = Some p" using ok x(1) unfolding ledger_ok_def by blast
  then show ?thesis using io live by (simp add: run_request_def enqueue_job_def message_of_def)
qed

theorem replay_returns_recorded_job_witness:
  "fst (run_request (sample_request ''u'' ''j2'') (job_run [Enqueue (sample_request ''u'' ''j1''), Progress ''j1'' ''running'']))
     = Inr \<lparr>r_job_id = ''j1'', r_status = ''running'', r_payload = [(''tier'', JStr ''deep'')]\<rparr>"
proof -
  let ?es = "[Enqueue (sample_request ''u'' ''j1''), Progress ''j1'' ''running'']"
  let ?x = "\<lparr>j_id = ''j1'', j_type = ''report'', j_payload = Some [(''tier'', JStr ''deep'')], j_dry_run = False,
     j_key = Some ''k1'', j_owner = Some ''u'', j_status = ''running''\<rparr>"
  have "ledger (job_run ?es) = [?x]" by code_simp
  then have x: "?x \<in> set (ledger (job_run ?es))" by simp
  show ?thesis
    by (subst replay_returns_recorded_job [OF x, of "sample_request ''u'' ''j2''" "''https://q''"])
      (simp_all add: sample_request_def)
qed

text \<open>Guessing another requester's key yields a clean collision error and changes nothing.\<close>

lemma guessed_key_collides:
  "run_request (sample_request ''mallory'' ''j2'') (job_run [Enqueue (sample_request ''u'' ''j1'')])
     = (Inl Key_Collision, job_run [Enqueue (sample_request ''u'' ''j1'')])"
  by code_simp

end
