(* ===== verification/Js_Regex.thy ===== *)
theory Js_Regex
  imports Js_Values
begin

text \<open>
  Regular expressions as the program writes them: character classes, greedy repetition, ordered
  alternatives and word boundaries, matched by backtracking. A position is the character before it,
  if any, and the text after it; \<open>rx_ends\<close> lists where a match from a position may end, in the order
  backtracking tries them, and \<open>rx_pieces\<close> cuts a text into the matches of a global search and the
  characters between them. \<open>rx_matches\<close> says the same without an order.
\<close>

section \<open>Matching\<close>

datatype rx =
    Emp
  | Cls "char \<Rightarrow> bool"
  | Bnd
  | Cat rx rx
  | Alt rx rx
  | Str rx

type_synonym pos = "char option \<times> string"

definition word_char :: "char \<Rightarrow> bool" where
  "word_char c \<longleftrightarrow> (let k = of_char c :: nat in 48 \<le> k \<and> k \<le> 57 \<or> 65 \<le> k \<and> k \<le> 90 \<or> k = 95 \<or> 97 \<le> k \<and> k \<le> 122)"

definition at_boundary :: "pos \<Rightarrow> bool" where
  "at_boundary p \<longleftrightarrow> (case fst p of None \<Rightarrow> False | Some c \<Rightarrow> word_char c) \<noteq> (case snd p of [] \<Rightarrow> False | c # _ \<Rightarrow> word_char c)"

definition rx_step :: "(char \<Rightarrow> bool) \<Rightarrow> pos \<Rightarrow> pos list" where
  "rx_step P p = (case snd p of [] \<Rightarrow> [] | c # cs \<Rightarrow> if P c then [(Some c, cs)] else [])"

text \<open>Greedy: more rounds first; a round that consumes nothing ends the repetition.\<close>

fun rx_star_ends :: "(pos \<Rightarrow> pos list) \<Rightarrow> nat \<Rightarrow> pos \<Rightarrow> pos list" where
  "rx_star_ends f 0 p = [p]"
| "rx_star_ends f (Suc n) p = concat (map (\<lambda>q. if length (snd q) < length (snd p) then rx_star_ends f n q else []) (f p)) @ [p]"

primrec rx_ends :: "rx \<Rightarrow> pos \<Rightarrow> pos list" where
  "rx_ends Emp p = [p]"
| "rx_ends (Cls P) p = rx_step P p"
| "rx_ends Bnd p = (if at_boundary p then [p] else [])"
| "rx_ends (Cat a b) p = concat (map (rx_ends b) (rx_ends a p))"
| "rx_ends (Alt a b) p = rx_ends a p @ rx_ends b p"
| "rx_ends (Str a) p = rx_star_ends (rx_ends a) (length (snd p)) p"

subsection \<open>Notation of the source\<close>

definition rx_lit :: "string \<Rightarrow> rx" where
  "rx_lit s = foldr (\<lambda>c. Cat (Cls ((=) c))) s Emp"

text \<open>With the flag \<open>i\<close>.\<close>

definition same_letter :: "char \<Rightarrow> char \<Rightarrow> bool" where
  "same_letter c x \<longleftrightarrow> lower_char x = lower_char c"

definition rx_lit_i :: "string \<Rightarrow> rx" where
  "rx_lit_i s = foldr (\<lambda>c. Cat (Cls (same_letter c))) s Emp"

definition rx_plus :: "rx \<Rightarrow> rx" where
  "rx_plus r = Cat r (Str r)"

definition rx_opt :: "rx \<Rightarrow> rx" where
  "rx_opt r = Alt r Emp"

fun rx_times :: "nat \<Rightarrow> rx \<Rightarrow> rx" where
  "rx_times 0 r = Emp"
| "rx_times (Suc n) r = Cat r (rx_times n r)"

fun rx_up_to :: "nat \<Rightarrow> rx \<Rightarrow> rx" where
  "rx_up_to 0 r = Emp"
| "rx_up_to (Suc n) r = Alt (Cat r (rx_up_to n r)) Emp"

definition rx_from :: "nat \<Rightarrow> rx \<Rightarrow> rx" where
  "rx_from n r = Cat (rx_times n r) (Str r)"

definition rx_seq :: "rx list \<Rightarrow> rx" where
  "rx_seq rs = foldr Cat rs Emp"

definition in_chars :: "string \<Rightarrow> char \<Rightarrow> bool" where
  "in_chars s c \<longleftrightarrow> c \<in> set s"

definition char_between :: "char \<Rightarrow> char \<Rightarrow> char \<Rightarrow> bool" where
  "char_between a b c \<longleftrightarrow> (of_char a :: nat) \<le> of_char c \<and> (of_char c :: nat) \<le> of_char b"

section \<open>Global search\<close>

function rx_pieces :: "rx \<Rightarrow> char option \<Rightarrow> string \<Rightarrow> (char + string) list" where
  "rx_pieces r pv [] = []"
| "rx_pieces r pv (c # cs) =
     (case rx_ends r (pv, c # cs) of
        [] \<Rightarrow> Inl c # rx_pieces r (Some c) cs
      | (pv', s') # _ \<Rightarrow>
          if length s' < Suc (length cs)
          then Inr (take (Suc (length cs) - length s') (c # cs)) # rx_pieces r pv' s'
          else Inl c # rx_pieces r (Some c) cs)"
  by pat_completeness auto
termination by (relation "measure (\<lambda>(r, pv, s). length s)") auto

declare rx_pieces.simps(2) [simp del]

text \<open>\<open>s.replace(/r/g, f)\<close>, for an expression that rx_matches no empty text.\<close>

definition rx_replace :: "rx \<Rightarrow> (string \<Rightarrow> string) \<Rightarrow> string \<Rightarrow> string" where
  "rx_replace r f s = concat (map (case_sum (\<lambda>c. [c]) f) (rx_pieces r None s))"

text \<open>\<open>s.match(/r/g)\<close> and \<open>/r/.test(s)\<close>.\<close>

definition rx_found :: "rx \<Rightarrow> string \<Rightarrow> string list" where
  "rx_found r s = concat (map (case_sum (\<lambda>_. []) (\<lambda>m. [m])) (rx_pieces r None s))"

section \<open>The matcher and the language\<close>

inductive rx_matches :: "rx \<Rightarrow> pos \<Rightarrow> pos \<Rightarrow> bool" where
  m_emp: "rx_matches Emp p p"
| m_cls: "P c \<Longrightarrow> rx_matches (Cls P) (pv, c # cs) (Some c, cs)"
| m_bnd: "at_boundary p \<Longrightarrow> rx_matches Bnd p p"
| m_cat: "rx_matches a p q \<Longrightarrow> rx_matches b q r \<Longrightarrow> rx_matches (Cat a b) p r"
| m_alt1: "rx_matches a p q \<Longrightarrow> rx_matches (Alt a b) p q"
| m_alt2: "rx_matches b p q \<Longrightarrow> rx_matches (Alt a b) p q"
| m_str0: "rx_matches (Str a) p p"
| m_str: "rx_matches a p q \<Longrightarrow> rx_matches (Str a) q r \<Longrightarrow> rx_matches (Str a) p r"

inductive_simps rx_matches_simps [simp]:
  "rx_matches Emp p q" "rx_matches (Cls P) p q" "rx_matches Bnd p q" "rx_matches (Cat a b) p q" "rx_matches (Alt a b) p q"

text \<open>A match goes forward over the text it consumes.\<close>

definition rx_consumed :: "pos \<Rightarrow> pos \<Rightarrow> string \<Rightarrow> bool" where
  "rx_consumed p q s \<longleftrightarrow> snd p = s @ snd q \<and> fst q = (if s = [] then fst p else Some (last s))"

lemma rx_consumed_trans: "rx_consumed p q s \<Longrightarrow> rx_consumed q r t \<Longrightarrow> rx_consumed p r (s @ t)"
  by (auto simp: rx_consumed_def)

lemma rx_matches_consumes: "rx_matches r p q \<Longrightarrow> \<exists>s. rx_consumed p q s"
proof (induction rule: rx_matches.induct)
  case (m_cls P c pv cs)
  then show ?case by (intro exI [of _ "[c]"]) (simp add: rx_consumed_def)
next
  case (m_cat a p q b r)
  then show ?case using rx_consumed_trans by blast
next
  case (m_str a p q r)
  then show ?case using rx_consumed_trans by blast
qed (auto simp: rx_consumed_def intro: exI [of _ "[]"])

lemma rx_matches_shorter: "rx_matches r p q \<Longrightarrow> length (snd q) \<le> length (snd p)"
  using rx_matches_consumes by (fastforce simp: rx_consumed_def)

lemma rx_matches_same: "rx_matches r p q \<Longrightarrow> length (snd q) = length (snd p) \<Longrightarrow> q = p"
  using rx_matches_consumes [of r p q] by (auto simp: rx_consumed_def prod_eq_iff)

lemma rx_star_ends_sound:
  assumes "\<And>p q. q \<in> set (f p) \<Longrightarrow> rx_matches a p q"
  shows "q \<in> set (rx_star_ends f n p) \<Longrightarrow> rx_matches (Str a) p q"
  by (induction n arbitrary: p) (auto split: if_splits intro: m_str0 m_str assms)

lemma rx_star_ends_complete:
  assumes "\<And>p q. rx_matches a p q \<Longrightarrow> q \<in> set (f p)"
  shows "rx_matches (Str a) p q \<Longrightarrow> length (snd p) \<le> n \<Longrightarrow> q \<in> set (rx_star_ends f n p)"
proof (induction "Str a" p q arbitrary: n rule: rx_matches.induct)
  case (m_str0 p)
  then show ?case by (cases n) auto
next
  case (m_str p q r)
  show ?case
  proof (cases "length (snd q) = length (snd p)")
    case True
    with rx_matches_same m_str have "q = p" by blast
    with m_str show ?thesis by simp
  next
    case False
    with rx_matches_shorter [OF m_str(1)] have "length (snd q) < length (snd p)" by linarith
    moreover from this m_str(5) obtain k where "n = Suc k" "length (snd q) \<le> k" by (cases n) auto
    ultimately show ?thesis using m_str(4) assms [OF m_str(1)] by auto
  qed
qed

theorem rx_ends_iff_matches: "q \<in> set (rx_ends r p) \<longleftrightarrow> rx_matches r p q"
proof (induction r arbitrary: p q)
  case (Cls P)
  show ?case by (cases p) (auto simp: rx_step_def split: list.split)
next
  case (Str r)
  have "q \<in> set (rx_star_ends (rx_ends r) (length (snd p)) p) \<Longrightarrow> rx_matches (Str r) p q"
    by (rule rx_star_ends_sound [of "rx_ends r"]) (simp_all add: Str)
  moreover have "rx_matches (Str r) p q \<Longrightarrow> q \<in> set (rx_star_ends (rx_ends r) (length (snd p)) p)"
    by (rule rx_star_ends_complete) (simp_all add: Str)
  ultimately show ?case by auto
next
  case (Cat a b)
  have "q \<in> set (rx_ends (Cat a b) p) \<longleftrightarrow> (\<exists>m. rx_matches a p m \<and> rx_matches b m q)" by (simp add: Cat Bex_def)
  then show ?case by simp
qed auto

section \<open>What a search finds\<close>

lemma rx_pieces_text: "concat (map (case_sum (\<lambda>c. [c]) id) (rx_pieces r pv s)) = s"
proof (induction r pv s rule: rx_pieces.induct)
  case (2 r pv c cs)
  show ?case
  proof (cases "rx_ends r (pv, c # cs)")
    case Nil
    with 2(1) show ?thesis by (simp add: rx_pieces.simps(2))
  next
    case (Cons q rest)
    obtain pv' s' where q: "q = (pv', s')" by fastforce
    have "rx_matches r (pv, c # cs) (pv', s')"
      using rx_ends_iff_matches [of q r "(pv, c # cs)"] Cons q by simp
    from rx_matches_consumes [OF this] obtain t where t: "c # cs = t @ s'" by (auto simp: rx_consumed_def)
    have "Suc (length cs) = length t + length s'" using arg_cong [OF t, of length] by simp
    then have "take (Suc (length cs) - length s') (c # cs) = t" unfolding t by simp
    moreover have "concat (map (case_sum (\<lambda>c. [c]) id) (rx_pieces r pv' s')) = s'" if "length s' < Suc (length cs)"
      using 2(2) [OF Cons q [symmetric]] q that by simp
    moreover have "concat (map (case_sum (\<lambda>c. [c]) id) (rx_pieces r (Some c) cs)) = cs" if "\<not> length s' < Suc (length cs)"
      using 2(3) [OF Cons q [symmetric]] q that by simp
    ultimately show ?thesis using t Cons q by (subst rx_pieces.simps(2)) (auto simp: t)
  qed
qed simp

lemma replace_same: "(\<And>m. m \<in> set (rx_found r s) \<Longrightarrow> f m = m) \<Longrightarrow> rx_replace r f s = s"
proof -
  assume same: "\<And>m. m \<in> set (rx_found r s) \<Longrightarrow> f m = m"
  have "map (case_sum (\<lambda>c. [c]) f) (rx_pieces r None s) = map (case_sum (\<lambda>c. [c]) id) (rx_pieces r None s)"
  proof (rule map_cong [OF refl])
    fix x assume "x \<in> set (rx_pieces r None s)"
    then show "case_sum (\<lambda>c. [c]) f x = case_sum (\<lambda>c. [c]) id x"
      by (cases x) (auto intro!: same simp: rx_found_def split: sum.splits)
  qed
  with rx_pieces_text [of r None s] show ?thesis unfolding rx_replace_def by metis
qed

corollary replace_none: "rx_found r s = [] \<Longrightarrow> rx_replace r f s = s"
  by (rule replace_same) simp

end
