(* ===== verification/Egress_Dlp.thy ===== *)
theory Egress_Dlp
  imports Js_Regex
begin

text \<open>
  \<^verbatim>\<open>web/lib/egress-dlp.ts\<close>: the redaction of outbound payloads and the destination allow-list.
  The expressions are those of the source, over the matcher of \<^theory_text>\<open>Js_Regex\<close>. The ellipsis that opens
  the truncation marker is one UTF-16 unit outside HOL's characters and is written \<open>CHR 0x85\<close>.
\<close>

section \<open>Patterns\<close>

definition SIZE_CAP :: nat where "SIZE_CAP = 3000"

definition TRUNC_MARKER :: string where "TRUNC_MARKER = CHR 0x85 # ''[truncated]''"

definition upper_or_digit :: "char \<Rightarrow> bool" where
  "upper_or_digit c \<longleftrightarrow> char_between CHR ''A'' CHR ''Z'' c \<or> is_digit c"

definition lower_or_digit_or_dash_i :: "char \<Rightarrow> bool" where
  "lower_or_digit_or_dash_i c \<longleftrightarrow> char_between CHR ''a'' CHR ''z'' (lower_char c) \<or> is_digit c \<or> c = CHR ''-''"

definition token_char :: "char \<Rightarrow> bool" where
  "token_char c \<longleftrightarrow> word_char c \<or> c = CHR ''-''"

definition bearer_char :: "char \<Rightarrow> bool" where
  "bearer_char c \<longleftrightarrow> word_char c \<or> c = CHR ''.'' \<or> c = CHR ''-''"

definition arn_char :: "char \<Rightarrow> bool" where
  "arn_char c \<longleftrightarrow> \<not> is_space c \<and> c \<noteq> CHR 0x22 \<and> c \<noteq> CHR 0x27"

definition letter_or_underscore_i :: "char \<Rightarrow> bool" where
  "letter_or_underscore_i c \<longleftrightarrow> char_between CHR ''a'' CHR ''z'' (lower_char c) \<or> c = CHR ''_''"

definition non_space :: "char \<Rightarrow> bool" where
  "non_space c \<longleftrightarrow> \<not> is_space c"

definition base64_char :: "char \<Rightarrow> bool" where
  "base64_char c \<longleftrightarrow> upper_or_digit c \<or> char_between CHR ''a'' CHR ''z'' c \<or> in_chars ''+/'' c"

definition hex_char :: "char \<Rightarrow> bool" where
  "hex_char c \<longleftrightarrow> is_digit c \<or> char_between CHR ''a'' CHR ''f'' c \<or> char_between CHR ''A'' CHR ''F'' c"

definition octet :: rx where
  "octet = Cat (Cls is_digit) (rx_up_to 2 (Cls is_digit))"

definition dot :: rx where
  "dot = rx_lit ''.''"

definition aws_key :: rx where
  "aws_key = rx_seq [Bnd, Alt (rx_lit ''AKIA'') (rx_lit ''ASIA''), rx_times 16 (Cls upper_or_digit), Bnd]"

definition arn :: rx where
  "arn = rx_seq [rx_lit_i ''arn:aws:'', Str (Cls lower_or_digit_or_dash_i), rx_lit '':'', Str (Cls lower_or_digit_or_dash_i), rx_lit '':'',
     rx_up_to 12 (Cls is_digit), rx_lit '':'', rx_plus (Cls arn_char)]"

definition jwt :: rx where
  "jwt = rx_seq [Bnd, rx_lit ''eyJ'', rx_plus (Cls token_char), dot, rx_plus (Cls token_char), dot, rx_plus (Cls token_char)]"

definition bearer :: rx where
  "bearer = rx_seq [Bnd, rx_lit_i ''Bearer'', rx_plus (Cls is_space), rx_plus (Cls bearer_char)]"

definition aws_secret :: rx where
  "aws_secret = rx_seq [rx_lit_i ''aws_secret'', Str (Cls letter_or_underscore_i),
     Str (Cls is_space), Cls (in_chars ''=:''), Str (Cls is_space), rx_plus (Cls non_space)]"

definition private_ip :: rx where
  "private_ip = rx_seq [Bnd,
     Alt (rx_seq [rx_lit ''10.'', octet, dot, octet, dot, octet])
    (Alt (rx_seq [rx_lit ''172.'', Alt (Cat (rx_lit ''1'') (Cls (char_between CHR ''6'' CHR ''9''))) (Alt (Cat (rx_lit ''2'') (Cls is_digit))
            (Cat (rx_lit ''3'') (Cls (in_chars ''01'')))), dot, octet, dot, octet])
    (Alt (rx_seq [rx_lit ''192.168.'', octet, dot, octet])
         (rx_seq [rx_lit ''169.254.'', octet, dot, octet]))),
     Bnd]"

definition PATTERNS :: "(rx \<times> string) list" where
  "PATTERNS = [(aws_key, ''aws-key''), (arn, ''arn''), (jwt, ''jwt''), (bearer, ''bearer''), (aws_secret, ''aws-secret''),
     (private_ip, ''private-ip'')]"

definition BLOB_RE :: rx where
  "BLOB_RE = Alt
     (Cat (rx_from 40 (Cls base64_char)) (rx_up_to 2 (rx_lit ''='')))
     (rx_from 40 (Cls hex_char))"

definition VARIETY_MIN :: nat where "VARIETY_MIN = 12"

section \<open>Redaction\<close>

text \<open>The categories reported so far are a set in the order of insertion.\<close>

definition marker :: "string \<Rightarrow> string" where
  "marker cat = ''[REDACTED:'' @ cat @ '']''"

definition apply_pattern :: "rx \<times> string \<Rightarrow> string \<times> string list \<Rightarrow> string \<times> string list" where
  "apply_pattern p st = (if rx_found (fst p) (fst st) = [] then st
     else (rx_replace (fst p) (\<lambda>_. marker (snd p)) (fst st), js_add (snd p) (snd st)))"

definition varied :: "string \<Rightarrow> bool" where
  "varied m \<longleftrightarrow> VARIETY_MIN \<le> length (js_set m)"

definition apply_blob :: "string \<times> string list \<Rightarrow> string \<times> string list" where
  "apply_blob st = (rx_replace BLOB_RE (\<lambda>m. if varied m then marker ''blob'' else m) (fst st),
     if list_ex varied (rx_found BLOB_RE (fst st)) then js_add ''blob'' (snd st) else snd st)"

definition apply_cap :: "string \<times> string list \<Rightarrow> string \<times> string list" where
  "apply_cap st = (if SIZE_CAP < length (fst st)
     then (take (SIZE_CAP - length TRUNC_MARKER) (fst st) @ TRUNC_MARKER, js_add ''size-cap'' (snd st))
     else st)"

definition redact_string :: "string \<Rightarrow> string list \<Rightarrow> string \<times> string list" where
  "redact_string s cats = apply_cap (apply_blob (foldl (\<lambda>st p. apply_pattern p st) (s, cats) PATTERNS))"

text \<open>
  Assigning the key \<open>__proto__\<close> of a new object sets its prototype and adds no property.
\<close>

fun redact_value :: "js \<Rightarrow> string list \<Rightarrow> js \<times> string list"
and redact_list :: "js list \<Rightarrow> string list \<Rightarrow> js list \<times> string list"
and redact_fields :: "js_object \<Rightarrow> string list \<Rightarrow> js_object \<times> string list" where
  "redact_value (JStr s) cats = apfst JStr (redact_string s cats)"
| "redact_value (JArr vs) cats = apfst JArr (redact_list vs cats)"
| "redact_value (JObj fs) cats = apfst JObj (redact_fields fs cats)"
| "redact_value JUndef cats = (JUndef, cats)"
| "redact_value JNull cats = (JNull, cats)"
| "redact_value (JBool b) cats = (JBool b, cats)"
| "redact_value (JNum n) cats = (JNum n, cats)"
| "redact_list [] cats = ([], cats)"
| "redact_list (v # vs) cats = (case redact_value v cats of (w, c1) \<Rightarrow> apfst (Cons w) (redact_list vs c1))"
| "redact_fields [] cats = ([], cats)"
| "redact_fields ((k, v) # fs) cats = (case redact_value v cats of
     (w, c1) \<Rightarrow> apfst (\<lambda>r. if k = ''__proto__'' then r else (k, w) # r) (redact_fields fs c1))"

definition redact_egress :: "js \<Rightarrow> js \<times> string list" where
  "redact_egress payload = redact_value payload []"

definition assert_channel_allowed :: "string \<Rightarrow> string list \<Rightarrow> string + unit" where
  "assert_channel_allowed channel allowlist =
     (if allowlist = [] then Inl ''egress-dlp: channel allowlist is empty (deny-all, fail-closed)''
      else if channel \<notin> set allowlist then Inl (''egress-dlp: channel '' @ channel @ '' is not in the allowlist'')
      else Inr ())"

section \<open>What leaves\<close>

fun strings_of :: "js \<Rightarrow> string list"
and strings_of_list :: "js list \<Rightarrow> string list"
and strings_of_fields :: "js_object \<Rightarrow> string list" where
  "strings_of (JStr s) = [s]"
| "strings_of (JArr vs) = strings_of_list vs"
| "strings_of (JObj fs) = strings_of_fields fs"
| "strings_of JUndef = []"
| "strings_of JNull = []"
| "strings_of (JBool b) = []"
| "strings_of (JNum n) = []"
| "strings_of_list [] = []"
| "strings_of_list (v # vs) = strings_of v @ strings_of_list vs"
| "strings_of_fields [] = []"
| "strings_of_fields ((k, v) # fs) = strings_of v @ strings_of_fields fs"

fun own_keys :: "js \<Rightarrow> js"
and own_keys_list :: "js list \<Rightarrow> js list"
and own_keys_fields :: "js_object \<Rightarrow> js_object" where
  "own_keys (JArr vs) = JArr (own_keys_list vs)"
| "own_keys (JObj fs) = JObj (own_keys_fields fs)"
| "own_keys (JStr s) = JStr s"
| "own_keys JUndef = JUndef"
| "own_keys JNull = JNull"
| "own_keys (JBool b) = JBool b"
| "own_keys (JNum n) = JNum n"
| "own_keys_list [] = []"
| "own_keys_list (v # vs) = own_keys v # own_keys_list vs"
| "own_keys_fields [] = []"
| "own_keys_fields ((k, v) # fs) = (if k = ''__proto__'' then own_keys_fields fs else (k, own_keys v) # own_keys_fields fs)"

lemma cap_bounds: "length (fst (apply_cap st)) \<le> SIZE_CAP"
  by (simp add: apply_cap_def SIZE_CAP_def TRUNC_MARKER_def)

lemma redact_string_bounds: "length (fst (redact_string s cats)) \<le> SIZE_CAP"
  unfolding redact_string_def by (rule cap_bounds)

text \<open>
  No string of an outgoing payload, however deep, is longer than 3000 characters, the
  truncation marker included.
\<close>

theorem egress_strings_bounded: "list_all (\<lambda>t. length t \<le> SIZE_CAP) (strings_of (fst (redact_egress payload)))"
proof -
  have "list_all (\<lambda>t. length t \<le> SIZE_CAP) (strings_of (fst (redact_value v c)))"
    "list_all (\<lambda>t. length t \<le> SIZE_CAP) (strings_of_list (fst (redact_list vs c)))"
    "list_all (\<lambda>t. length t \<le> SIZE_CAP) (strings_of_fields (fst (redact_fields fs c)))" for v vs fs c
  proof (induction v c and vs c and fs c rule: redact_value_redact_list_redact_fields.induct)
    case (1 s cats)
    then show ?case using redact_string_bounds [of s cats] by simp
  next
    case (9 v vs cats)
    obtain w c1 where "redact_value v cats = (w, c1)" by fastforce
    with 9 show ?case by simp
  next
    case (11 k v fs cats)
    obtain w c1 where "redact_value v cats = (w, c1)" by fastforce
    with 11 show ?case by simp
  qed simp_all
  then show ?thesis by (simp add: redact_egress_def)
qed

text \<open>Categories are only added, and every step that changes the text adds one.\<close>

definition honest :: "('a \<times> string list) \<Rightarrow> 'a \<Rightarrow> string list \<Rightarrow> bool" where
  "honest r v cats \<longleftrightarrow> set cats \<subseteq> set (snd r) \<and> (snd r = [] \<longrightarrow> fst r = v)"

lemma js_add_not_Nil [simp]: "js_add x s \<noteq> []"
  by (metis empty_iff insertI1 list.set(1) set_js_add)

lemma honest_trans:
  "honest st s cats \<Longrightarrow> honest r (fst st) (snd st) \<Longrightarrow> honest r s cats"
  by (auto simp: honest_def)

lemma pattern_honest: "honest (apply_pattern p st) (fst st) (snd st)"
  by (auto simp: honest_def apply_pattern_def)

lemma blob_honest: "honest (apply_blob st) (fst st) (snd st)"
proof (cases "list_ex varied (rx_found BLOB_RE (fst st))")
  case False
  then have "\<And>m. m \<in> set (rx_found BLOB_RE (fst st)) \<Longrightarrow> \<not> varied m" by (auto simp: list_ex_iff)
  with False show ?thesis by (simp add: honest_def apply_blob_def replace_same)
qed (auto simp: honest_def apply_blob_def)

lemma cap_honest: "honest (apply_cap st) (fst st) (snd st)"
  by (auto simp: honest_def apply_cap_def)

lemma redact_string_honest: "honest (redact_string s cats) s cats"
proof -
  have "honest (foldl (\<lambda>st p. apply_pattern p st) st ps) (fst st) (snd st)" for st ps
  proof (induction ps arbitrary: st)
    case (Cons p ps)
    from honest_trans [OF pattern_honest Cons] show ?case by simp
  qed (simp add: honest_def)
  from this [of "(s, cats)"] show ?thesis
    unfolding redact_string_def fst_conv snd_conv by (intro honest_trans [OF _ cap_honest] honest_trans [OF _ blob_honest])
qed

lemma redact_honest:
  "honest (redact_value v c) (own_keys v) c"
  "honest (redact_list vs c) (own_keys_list vs) c"
  "honest (redact_fields fs c) (own_keys_fields fs) c"
proof (induction v c and vs c and fs c rule: redact_value_redact_list_redact_fields.induct)
  case (1 s cats)
  then show ?case using redact_string_honest [of s cats] by (auto simp: honest_def)
next
  case (9 v vs cats)
  obtain w c1 where "redact_value v cats = (w, c1)" by fastforce
  with 9 show ?case by (auto simp: honest_def)
next
  case (11 k v fs cats)
  obtain w c1 where "redact_value v cats = (w, c1)" by fastforce
  with 11 show ?case by (auto simp: honest_def)
qed (simp_all add: honest_def)

text \<open>
  The report of a redaction is complete: if no category is reported, the payload that leaves
  is the payload that came, of which only the key \<open>__proto__\<close> does not survive the copy.
\<close>

theorem unreported_payload_is_unchanged:
  assumes "snd (redact_egress payload) = []"
  shows "fst (redact_egress payload) = own_keys payload"
  using redact_honest(1) [of payload "[]"] assms by (simp add: honest_def redact_egress_def)

theorem unreported_payload_is_unchanged_witness:
  "fst (redact_egress (JObj [(''channel'', JStr ''#ops'')])) = JObj [(''channel'', JStr ''#ops'')]"
proof -
  have "snd (redact_egress (JObj [(''channel'', JStr ''#ops'')])) = []" by code_simp
  from unreported_payload_is_unchanged [OF this] show ?thesis by simp
qed

text \<open>
  An access key directly before an ARN is no whole word, so its pattern leaves it; masking the ARN
  then ends the word, and the result still shows the key.
\<close>

theorem key_before_arn_survives:
  "fst (redact_egress (JStr ''AKIA0123456789ABCDEFarn:aws:s3:::b'')) = JStr (''AKIA0123456789ABCDEF'' @ marker ''arn'')"
  by code_simp

end
