(* ===== verification/Js_Json.thy ===== *)
theory Js_Json
  imports Js_Values
begin

text \<open>
  \<open>JSON.stringify\<close> of strings and plain values, with a reader for quoted strings: quoting is
  injective, also in front of further text, and its output never contains a control character.
\<close>

definition hex_digit :: "nat \<Rightarrow> char" where
  "hex_digit d = (if d < 10 then char_of (48 + d) else char_of (87 + d))"

definition json_escape :: "char \<Rightarrow> string" where
  "json_escape c =
     (if c = CHR 0x22 then [CHR 0x5C, CHR 0x22] else if c = CHR 0x5C then [CHR 0x5C, CHR 0x5C]
      else if c = CHR 0x08 then [CHR 0x5C, CHR ''b''] else if c = CHR 0x0C then [CHR 0x5C, CHR ''f'']
      else if c = CHR 0x0A then [CHR 0x5C, CHR ''n''] else if c = CHR 0x0D then [CHR 0x5C, CHR ''r'']
      else if c = CHR 0x09 then [CHR 0x5C, CHR ''t'']
      else if (of_char c :: nat) < 32
        then [CHR 0x5C, CHR ''u'', CHR ''0'', CHR ''0'', hex_digit (of_char c div 16), hex_digit (of_char c mod 16)]
      else [c])"

definition json_quote :: "string \<Rightarrow> string" where
  "json_quote s = CHR 0x22 # concat (map json_escape s) @ [CHR 0x22]"

text \<open>\<open>undefined\<close> has no JSON text: it is dropped from objects and printed \<open>null\<close> in arrays.\<close>

fun to_json :: "js \<Rightarrow> string" where
  "to_json JUndef = ''null''"
| "to_json JNull = ''null''"
| "to_json (JBool b) = (if b then ''true'' else ''false'')"
| "to_json (JNum n) = show_int n"
| "to_json (JStr s) = json_quote s"
| "to_json (JArr vs) = ''['' @ join_with '','' (map to_json vs) @ '']''"
| "to_json (JObj fs) = ''{'' @
     join_with '','' (concat (map (\<lambda>(k, v). if v = JUndef then [] else [json_quote k @ '':'' @ to_json v]) fs)) @ ''}''"

section \<open>Reading back\<close>

definition hex_value :: "char \<Rightarrow> nat" where
  "hex_value c = (let k = of_char c in if k < 58 then k - 48 else k - 87)"

definition read_escape :: "string \<Rightarrow> (char \<times> string) option" where
  "read_escape s =
     (case s of
        [] \<Rightarrow> None
      | c # r \<Rightarrow>
          if c = CHR 0x22 then None
          else if c \<noteq> CHR 0x5C then Some (c, r)
          else (case r of
              [] \<Rightarrow> None
            | e # r2 \<Rightarrow>
                if e = CHR ''u'' then
                  (case r2 of a # b # x # y # r3 \<Rightarrow> Some (char_of (16 * hex_value x + hex_value y), r3) | _ \<Rightarrow> None)
                else if e = CHR ''b'' then Some (CHR 0x08, r2)
                else if e = CHR ''f'' then Some (CHR 0x0C, r2)
                else if e = CHR ''n'' then Some (CHR 0x0A, r2)
                else if e = CHR ''r'' then Some (CHR 0x0D, r2)
                else if e = CHR ''t'' then Some (CHR 0x09, r2)
                else Some (e, r2)))"

lemma hex_value_digit: "d < 16 \<Longrightarrow> hex_value (hex_digit d) = d"
  by (auto simp: hex_value_def hex_digit_def Let_def)

lemma read_json_escape: "read_escape (json_escape c @ r) = Some (c, r)"
proof (cases "c \<in> {CHR 0x22, CHR 0x5C, CHR 0x08, CHR 0x0C, CHR 0x0A, CHR 0x0D, CHR 0x09}")
  case True
  then show ?thesis by (auto simp: json_escape_def read_escape_def)
next
  case False
  then have ne: "c \<noteq> CHR 0x22" "c \<noteq> CHR 0x5C" "c \<noteq> CHR 0x08" "c \<noteq> CHR 0x0C" "c \<noteq> CHR 0x0A"
    "c \<noteq> CHR 0x0D" "c \<noteq> CHR 0x09" by simp_all
  show ?thesis
  proof (cases "(of_char c :: nat) < 32")
    case True
    have "hex_value (hex_digit (of_char c div 16)) = of_char c div 16"
      by (rule hex_value_digit) (use True in simp)
    moreover have "hex_value (hex_digit (of_char c mod 16)) = of_char c mod 16"
      by (rule hex_value_digit) simp
    moreover have "16 * (of_char c div 16) + of_char c mod 16 = (of_char c :: nat)" by simp
    ultimately show ?thesis using ne True by (simp add: json_escape_def read_escape_def)
  qed (use ne in \<open>simp add: json_escape_def read_escape_def\<close>)
qed

lemma json_escape_not_quote: "json_escape c @ r \<noteq> CHR 0x22 # r'"
proof
  assume "json_escape c @ r = CHR 0x22 # r'"
  then have "read_escape (CHR 0x22 # r') = Some (c, r)" using read_json_escape [of c r] by simp
  then show False by (simp add: read_escape_def)
qed

lemma json_quote_inj: "json_quote s @ r = json_quote t @ r' \<Longrightarrow> s = t \<and> r = r'"
proof (induction s arbitrary: t)
  case Nil
  then show ?case
    using json_escape_not_quote [of "hd t"] by (cases t) (auto simp: json_quote_def dest: sym)
next
  case (Cons c s)
  show ?case
  proof (cases t)
    case Nil
    then show ?thesis using Cons.prems json_escape_not_quote [of c] by (auto simp: json_quote_def)
  next
    case (Cons d t')
    have "read_escape (json_escape c @ (concat (map json_escape s) @ CHR 0x22 # r))
        = read_escape (json_escape d @ (concat (map json_escape t') @ CHR 0x22 # r'))"
      using Cons.prems Cons by (simp add: json_quote_def)
    then have "c = d" "json_quote s @ r = json_quote t' @ r'"
      unfolding read_json_escape by (simp_all add: json_quote_def)
    then show ?thesis using Cons.IH Cons by blast
  qed
qed

text \<open>Output is free of control characters.\<close>

definition printable :: "string \<Rightarrow> bool" where
  "printable s \<longleftrightarrow> (\<forall>c\<in>set s. 32 \<le> (of_char c :: nat))"

lemma printable_append [simp]: "printable (s @ t) \<longleftrightarrow> printable s \<and> printable t"
  by (auto simp: printable_def)

lemma printable_Cons [simp]: "printable (c # s) \<longleftrightarrow> 32 \<le> (of_char c :: nat) \<and> printable s"
  by (auto simp: printable_def)

lemma printable_Nil [simp]: "printable []"
  by (simp add: printable_def)

lemma printable_concat: "(\<And>x. x \<in> set xs \<Longrightarrow> printable (f x)) \<Longrightarrow> printable (concat (map f xs))"
  by (induction xs) auto

lemma printable_join: "printable sep \<Longrightarrow> (\<And>p. p \<in> set ps \<Longrightarrow> printable p) \<Longrightarrow> printable (join_with sep ps)"
  by (induction sep ps rule: join_with.induct) auto

lemma hex_digit_printable: "d < 16 \<Longrightarrow> 32 \<le> (of_char (hex_digit d) :: nat)"
  by (auto simp: hex_digit_def)

lemma printable_json_escape: "printable (json_escape c)"
  by (simp add: json_escape_def hex_digit_printable div_less_iff_less_mult)

lemma printable_json_quote: "printable (json_quote s)"
  by (simp add: json_quote_def printable_concat printable_json_escape)

lemma is_digit_printable: "is_digit c \<Longrightarrow> 32 \<le> (of_char c :: nat)"
  by (simp add: is_digit_def Let_def)

lemma printable_show_int: "printable (show_int i)"
  using show_nat_digits is_digit_printable by (auto simp: show_int_def printable_def)

lemma printable_to_json: "printable (to_json v)"
proof (induction v rule: to_json.induct)
  case (6 vs)
  then show ?case by (auto intro!: printable_join)
next
  case (7 fs)
  have "printable p"
    if "p \<in> set (concat (map (\<lambda>(k, v). if v = JUndef then [] else [json_quote k @ '':'' @ to_json v]) fs))" for p
    using that 7 by (auto simp: printable_json_quote split: if_splits)
  then show ?case by (auto intro!: printable_join)
qed (simp_all add: printable_json_quote printable_show_int)

section \<open>Arrays of strings\<close>

definition json_strings :: "string list \<Rightarrow> string" where
  "json_strings xs = to_json (JArr (map JStr xs))"

lemma json_strings_Cons_inj:
  "join_with '','' (map json_quote xs) @ '']'' @ r = join_with '','' (map json_quote ys) @ '']'' @ r' \<Longrightarrow>
   xs = ys \<and> r = r'"
proof (induction xs arbitrary: ys)
  case Nil
  then show ?case by (cases ys rule: list.exhaust [case_product list.exhaust [of "tl ys"]])
      (auto simp: json_quote_def)
next
  case (Cons x xs)
  let ?rest = "\<lambda>zs s. case zs of [] \<Rightarrow> '']'' @ s | _ \<Rightarrow> '','' @ join_with '','' (map json_quote zs) @ '']'' @ s"
  have split: "join_with '','' (map json_quote (z # zs)) @ '']'' @ s = json_quote z @ ?rest zs s" for z zs s
    by (cases zs) simp_all
  obtain y ys' where ys: "ys = y # ys'"
    using Cons.prems by (cases ys; cases xs) (auto simp: json_quote_def)
  have "json_quote x @ ?rest xs r = json_quote y @ ?rest ys' r'"
    using Cons.prems unfolding ys split .
  then have eq: "x = y" "?rest xs r = ?rest ys' r'" using json_quote_inj by blast+
  have "xs = ys' \<and> r = r'"
  proof (cases "xs = [] \<or> ys' = []")
    case True
    then show ?thesis using eq(2) by (cases xs; cases ys') auto
  next
    case False
    then have "join_with '','' (map json_quote xs) @ '']'' @ r = join_with '','' (map json_quote ys') @ '']'' @ r'"
      using eq(2) by (cases xs; cases ys') auto
    then show ?thesis by (rule Cons.IH)
  qed
  then show ?case using eq(1) ys by simp
qed

lemma json_strings_inj: "json_strings xs @ r = json_strings ys @ r' \<Longrightarrow> xs = ys \<and> r = r'"
  using json_strings_Cons_inj [of xs r ys r'] by (simp add: json_strings_def comp_def)

end
