(* ===== verification/Catalog.thy ===== *)
theory Catalog
  imports Js_Json
begin

text \<open>
  The catalog of custom agents and skills: validation of the administrator's input
  (\<^verbatim>\<open>web/lib/skill-validation.ts\<close>), the tables and their statements
  (\<^verbatim>\<open>web/lib/catalog.ts\<close>, \<^verbatim>\<open>web/lib/agent-space.ts\<close>), the read of one chat turn
  (\<^verbatim>\<open>web/lib/catalog-source.ts\<close>) and the administration handlers
  (\<^verbatim>\<open>web/app/api/customization/route.ts\<close>). A SQL statement is a function of the tables;
  timestamps are left out. A handler runs its statements in order and none of them fails;
  where the code catches a failing read, the read is an \<^typ>\<open>'a option\<close>.
\<close>

section \<open>Validation\<close>

text \<open>The keys of \<open>SECTIONS\<close>, in order; \<open>sectionByKey\<close> is only tested for presence here.\<close>

definition section_keys :: "string list" where
  "section_keys =
     [''network'', ''container'', ''data'', ''security'', ''cost'', ''monitoring'', ''iac'', ''ops'',
      ''observability'', ''idle-scan'', ''eks-optimize'', ''db-optimize'', ''msk-optimize'',
      ''trace-analyze'', ''incident'', ''aws-data'']"

definition is_reserved_agent_name :: "string \<Rightarrow> bool" where
  "is_reserved_agent_name n \<longleftrightarrow> n = ''auto'' \<or> n = ''code'' \<or> n \<in> set section_keys"

definition KNOWN_GATEWAYS :: "string list" where
  "KNOWN_GATEWAYS =
     [''network'', ''container'', ''iac'', ''data'', ''security'', ''monitoring'', ''cost'', ''ops'',
      ''observability'']"

definition AGENT_TYPES :: "string list" where
  "AGENT_TYPES = [''generic'', ''on_demand'', ''triage'', ''rca'', ''mitigation'', ''evaluation'']"

definition MAX_INSTRUCTIONS :: nat where
  "MAX_INSTRUCTIONS = 50000"

definition MAX_PERSONA :: nat where
  "MAX_PERSONA = 20000"

definition name_char :: "char \<Rightarrow> bool" where
  "name_char c \<longleftrightarrow> is_digit c \<or> (let k = of_char c :: nat in 97 \<le> k \<and> k \<le> 122)"

text \<open>\<open>/^[a-z0-9][a-z0-9-]{1,63}$/\<close>.\<close>

definition kebab_name :: "string \<Rightarrow> bool" where
  "kebab_name s \<longleftrightarrow> 2 \<le> length s \<and> length s \<le> 64 \<and> name_char (hd s)
     \<and> list_all (\<lambda>c. name_char c \<or> c = CHR ''-'') (tl s)"

fun text_of :: "js \<Rightarrow> string option" where
  "text_of (JStr s) = Some s"
| "text_of _ = None"

fun string_array :: "js \<Rightarrow> string list option" where
  "string_array (JArr vs) =
     (if list_all is_string vs then Some (map (\<lambda>v. the (text_of v)) vs) else None)"
| "string_array _ = None"

text \<open>\<open>typeof v !== 'string' || !v.trim()\<close>.\<close>

definition blank_text :: "js \<Rightarrow> bool" where
  "blank_text v \<longleftrightarrow> (case text_of v of None \<Rightarrow> True | Some s \<Rightarrow> trim s = [])"

definition valid_name :: "js \<Rightarrow> bool" where
  "valid_name v \<longleftrightarrow> (case text_of v of None \<Rightarrow> False | Some s \<Rightarrow> kebab_name s)"

record validation =
  v_ok :: bool
  v_errors :: "string list"

definition verdict :: "string list \<Rightarrow> validation" where
  "verdict es = \<lparr>v_ok = (es = []), v_errors = es\<rparr>"

definition guard_error :: "bool \<Rightarrow> string \<Rightarrow> string list" where
  "guard_error bad e = (if bad then [e] else [])"

text \<open>\<open>v !== undefined\<close> and not an array of strings, or an array with a string off the list.\<close>

definition subset_errors :: "js \<Rightarrow> string list \<Rightarrow> string \<Rightarrow> string \<Rightarrow> string list" where
  "subset_errors v allowed not_array off_list =
     (if v = JUndef then []
      else (case string_array v of
          None \<Rightarrow> [not_array]
        | Some xs \<Rightarrow> guard_error (\<not> list_all (\<lambda>x. x \<in> set allowed) xs) off_list))"

definition instruction_errors :: "js \<Rightarrow> string list" where
  "instruction_errors v =
     (if blank_text v then [''instructions required'']
      else (case text_of v of
          None \<Rightarrow> []
        | Some s \<Rightarrow> guard_error (MAX_INSTRUCTIONS < length s)
            (''instructions exceed '' @ show_nat MAX_INSTRUCTIONS @ '' chars'')))"

definition validate_skill :: "js \<Rightarrow> validation" where
  "validate_skill s = (case s of
      JObj _ \<Rightarrow> verdict
        (guard_error (\<not> valid_name (attr s ''name'')) ''name must be kebab-case, 2-64 chars''
         @ guard_error (blank_text (attr s ''description'')) ''description is required''
         @ instruction_errors (attr s ''instructions'')
         @ guard_error (string_array (attr s ''toolAllowlist'') = None) ''toolAllowlist must be string[]''
         @ subset_errors (attr s ''agentTypes'') AGENT_TYPES ''agentTypes must be string[]''
             (''agentTypes must each be one of '' @ join_with '', '' AGENT_TYPES)
         @ guard_error (attr s ''referenceKeys'' \<noteq> JUndef \<and> string_array (attr s ''referenceKeys'') = None)
             ''referenceKeys must be string[]'')
    | _ \<Rightarrow> \<lparr>v_ok = False, v_errors = [''skill must be an object'']\<rparr>)"

definition agent_name_errors :: "js \<Rightarrow> string list" where
  "agent_name_errors v =
     (if \<not> valid_name v then [''name must be kebab-case, 2-64 chars'']
      else (case text_of v of
          None \<Rightarrow> []
        | Some s \<Rightarrow> guard_error (is_reserved_agent_name s) ''name is reserved for built-in chat routing''))"

definition persona_errors :: "js \<Rightarrow> string list" where
  "persona_errors v =
     (if v = JUndef then []
      else (case text_of v of
          None \<Rightarrow> [''persona must be a string'']
        | Some s \<Rightarrow> guard_error (MAX_PERSONA < length s)
            (''persona exceeds '' @ show_nat MAX_PERSONA @ '' chars'')))"

definition one_of :: "js \<Rightarrow> string list \<Rightarrow> bool" where
  "one_of v allowed \<longleftrightarrow> (case text_of v of None \<Rightarrow> False | Some s \<Rightarrow> s \<in> set allowed)"

definition keyword_errors :: "js \<Rightarrow> string list" where
  "keyword_errors v = guard_error
     (case string_array v of None \<Rightarrow> True | Some ks \<Rightarrow> list_ex (\<lambda>k. trim k = []) ks)
     ''routingKeywords must contain non-empty strings''"

definition validate_agent :: "js \<Rightarrow> validation" where
  "validate_agent a = (case a of
      JObj _ \<Rightarrow> verdict
        (agent_name_errors (attr a ''name'')
         @ guard_error (blank_text (attr a ''description'')) ''description is required''
         @ persona_errors (attr a ''persona'')
         @ guard_error (\<not> one_of (attr a ''gateway'') KNOWN_GATEWAYS)
             (''gateway must be one of '' @ join_with '', '' KNOWN_GATEWAYS)
         @ keyword_errors (attr a ''routingKeywords'')
         @ guard_error (attr a ''agentType'' \<noteq> JUndef \<and> \<not> one_of (attr a ''agentType'') AGENT_TYPES)
             (''agentType must be one of '' @ join_with '', '' AGENT_TYPES)
         @ subset_errors (attr a ''gateways'') KNOWN_GATEWAYS ''gateways must be string[]''
             (''gateways must each be one of '' @ join_with '', '' KNOWN_GATEWAYS))
    | _ \<Rightarrow> \<lparr>v_ok = False, v_errors = [''agent must be an object'']\<rparr>)"

section \<open>Tables\<close>

datatype tier = Builtin | Custom

record skill_input =
  si_name :: string
  si_description :: string
  si_instructions :: string
  si_tools :: "string list"
  si_tier :: tier
  si_created_by :: "string option"
  si_agent_types :: "string list option"
  si_references :: "string list option"

record agent_input =
  ai_name :: string
  ai_description :: string
  ai_persona :: string
  ai_keywords :: "string list"
  ai_gateway :: string
  ai_model :: "string option"
  ai_tier :: tier
  ai_created_by :: "string option"
  ai_type :: "string option"
  ai_gateways :: "string list option"
  ai_language :: "string option"

record skill_row =
  s_id :: int
  s_name :: string
  s_description :: string
  s_instructions :: string
  s_tools :: "string list"
  s_tier :: tier
  s_hash :: string
  s_created_by :: "string option"
  s_agent_types :: "string list"
  s_references :: "string list"
  s_version :: int
  s_enabled :: bool

record agent_row =
  a_id :: int
  a_name :: string
  a_description :: string
  a_persona :: string
  a_keywords :: "string list"
  a_gateway :: string
  a_model :: "string option"
  a_tier :: tier
  a_created_by :: "string option"
  a_type :: string
  a_gateways :: "string list"
  a_language :: "string option"
  a_version :: int
  a_enabled :: bool

record skill_link =
  l_agent :: int
  l_skill :: int
  l_ord :: int

record agent_space =
  sp_account :: string
  sp_agents :: "int list"
  sp_skills :: "int list"
  sp_integrations :: "int list"
  sp_tools :: "string list"
  sp_private :: bool
  sp_authoring :: bool
  sp_version :: int

record audit =
  au_actor :: string
  au_action :: string
  au_type :: string
  au_object :: string

record catalog =
  c_skills :: "skill_row list"
  c_agents :: "agent_row list"
  c_links :: "skill_link list"
  c_spaces :: "agent_space list"
  c_audit :: "audit list"
  c_next_skill :: int
  c_next_agent :: int

section \<open>Statements\<close>

text \<open>
  \<open>computeSkillHash\<close>: the text whose SHA-256 is the skill's content hash. The digest itself
  is a parameter \<open>sha\<close>.
\<close>

definition skill_canonical :: "string \<Rightarrow> string \<Rightarrow> string \<Rightarrow> string list \<Rightarrow> string" where
  "skill_canonical n d i tools = to_json (JObj
     [(''name'', JStr n), (''description'', JStr d), (''instructions'', JStr i),
      (''toolAllowlist'', JArr (map JStr (sort tools)))])"

definition compute_skill_hash :: "(string \<Rightarrow> string) \<Rightarrow> string \<Rightarrow> string \<Rightarrow> string \<Rightarrow> string list \<Rightarrow> string" where
  "compute_skill_hash sha n d i tools = sha (skill_canonical n d i tools)"

text \<open>
  \<open>INSERT ... ON CONFLICT (name) DO UPDATE ... WHERE tier = 'custom' RETURNING id\<close>: with no
  row of that name a fresh row is added; a custom row is merged in place and keeps its id; a
  built-in row is left alone and no row is returned.
\<close>

definition upsert_by ::
  "('r \<Rightarrow> string) \<Rightarrow> ('r \<Rightarrow> tier) \<Rightarrow> ('r \<Rightarrow> int) \<Rightarrow> 'r \<Rightarrow> ('r \<Rightarrow> 'r) \<Rightarrow> 'r list \<Rightarrow> ('r list \<times> int) option" where
  "upsert_by name_of tier_of id_of fresh merge rows =
     (case find (\<lambda>r. name_of r = name_of fresh) rows of
        None \<Rightarrow> Some (rows @ [fresh], id_of fresh)
      | Some old \<Rightarrow>
          if tier_of old = Custom
          then Some (map (\<lambda>r. if name_of r = name_of fresh then merge r else r) rows, id_of old)
          else None)"

definition or_default :: "'a option \<Rightarrow> 'a \<Rightarrow> 'a" where
  "or_default x d = (case x of None \<Rightarrow> d | Some y \<Rightarrow> y)"

definition new_skill :: "(string \<Rightarrow> string) \<Rightarrow> int \<Rightarrow> skill_input \<Rightarrow> skill_row" where
  "new_skill sha n i = \<lparr>s_id = n, s_name = si_name i, s_description = si_description i,
     s_instructions = si_instructions i, s_tools = si_tools i, s_tier = si_tier i,
     s_hash = compute_skill_hash sha (si_name i) (si_description i) (si_instructions i) (si_tools i),
     s_created_by = si_created_by i, s_agent_types = or_default (si_agent_types i) [''generic''],
     s_references = or_default (si_references i) [], s_version = 1, s_enabled = False\<rparr>"

definition merge_skill :: "skill_row \<Rightarrow> skill_row \<Rightarrow> skill_row" where
  "merge_skill excluded r = r\<lparr>s_description := s_description excluded,
     s_instructions := s_instructions excluded, s_tools := s_tools excluded, s_hash := s_hash excluded,
     s_agent_types := s_agent_types excluded, s_references := s_references excluded,
     s_version := s_version r + 1, s_enabled := False\<rparr>"

definition new_agent :: "int \<Rightarrow> agent_input \<Rightarrow> agent_row" where
  "new_agent n i = \<lparr>a_id = n, a_name = ai_name i, a_description = ai_description i,
     a_persona = ai_persona i, a_keywords = ai_keywords i, a_gateway = ai_gateway i,
     a_model = ai_model i, a_tier = ai_tier i, a_created_by = ai_created_by i,
     a_type = or_default (ai_type i) ''generic'',
     a_gateways = (case ai_gateways i of None \<Rightarrow> [ai_gateway i] | Some [] \<Rightarrow> [ai_gateway i] | Some gs \<Rightarrow> gs),
     a_language = ai_language i, a_version = 1, a_enabled = False\<rparr>"

definition merge_agent :: "agent_row \<Rightarrow> agent_row \<Rightarrow> agent_row" where
  "merge_agent excluded r = r\<lparr>a_description := a_description excluded, a_persona := a_persona excluded,
     a_keywords := a_keywords excluded, a_gateway := a_gateway excluded, a_model := a_model excluded,
     a_type := a_type excluded, a_gateways := a_gateways excluded, a_language := a_language excluded,
     a_version := a_version r + 1, a_enabled := False\<rparr>"

text \<open>The id sequence of a table advances with every insertion attempted, kept or not.\<close>

definition upsert_skill :: "(string \<Rightarrow> string) \<Rightarrow> skill_input \<Rightarrow> catalog \<Rightarrow> (string + int) \<times> catalog" where
  "upsert_skill sha i c =
     (let n = c_next_skill c; fresh = new_skill sha n i; c' = c\<lparr>c_next_skill := n + 1\<rparr> in
      case upsert_by s_name s_tier s_id fresh (merge_skill fresh) (c_skills c) of
        None \<Rightarrow> (Inl ''name conflicts with a built-in skill'', c')
      | Some (rows, r) \<Rightarrow> (Inr r, c'\<lparr>c_skills := rows\<rparr>))"

definition upsert_agent :: "agent_input \<Rightarrow> catalog \<Rightarrow> (string + int) \<times> catalog" where
  "upsert_agent i c =
     (let n = c_next_agent c; fresh = new_agent n i; c' = c\<lparr>c_next_agent := n + 1\<rparr> in
      case upsert_by a_name a_tier a_id fresh (merge_agent fresh) (c_agents c) of
        None \<Rightarrow> (Inl ''name conflicts with a built-in agent'', c')
      | Some (rows, r) \<Rightarrow> (Inr r, c'\<lparr>c_agents := rows\<rparr>))"

text \<open>\<open>COALESCE(MAX(ord), -1) + 1\<close> over the agent's bindings, and the binding's own order.\<close>

definition next_ord :: "int \<Rightarrow> skill_link list \<Rightarrow> int" where
  "next_ord a ls = foldl (\<lambda>m l. if l_agent l = a then max m (l_ord l) else m) (- 1) ls + 1"

definition link_of :: "int \<Rightarrow> int \<Rightarrow> skill_link list \<Rightarrow> skill_link option" where
  "link_of a s ls = find (\<lambda>l. l_agent l = a \<and> l_skill l = s) ls"

definition attach_skill :: "int \<Rightarrow> int \<Rightarrow> catalog \<Rightarrow> (string + int) \<times> catalog" where
  "attach_skill a s c =
     (if \<not> list_ex (\<lambda>r. a_id r = a \<and> a_tier r = Custom) (c_agents c)
      then (Inl ''Custom agent not found'', c)
      else if \<not> list_ex (\<lambda>r. s_id r = s) (c_skills c)
      then (Inl ''violates foreign key constraint'', c)
      else (case link_of a s (c_links c) of
          Some l \<Rightarrow> (Inr (l_ord l), c)
        | None \<Rightarrow>
            let k = next_ord a (c_links c) in
            (Inr k, c\<lparr>c_links := c_links c @ [\<lparr>l_agent = a, l_skill = s, l_ord = k\<rparr>]\<rparr>)))"

datatype object_kind = Skill_Kind | Agent_Kind

definition set_enabled :: "object_kind \<Rightarrow> int \<Rightarrow> bool \<Rightarrow> catalog \<Rightarrow> catalog" where
  "set_enabled k n on c = (case k of
      Skill_Kind \<Rightarrow> c\<lparr>c_skills := map (\<lambda>r. if s_id r = n \<and> s_tier r = Custom then r\<lparr>s_enabled := on\<rparr> else r) (c_skills c)\<rparr>
    | Agent_Kind \<Rightarrow> c\<lparr>c_agents := map (\<lambda>r. if a_id r = n \<and> a_tier r = Custom then r\<lparr>a_enabled := on\<rparr> else r) (c_agents c)\<rparr>)"

definition write_audit :: "audit \<Rightarrow> catalog \<Rightarrow> catalog" where
  "write_audit a c = c\<lparr>c_audit := c_audit c @ [a]\<rparr>"

definition is_custom_agent_enabled :: "string \<Rightarrow> catalog \<Rightarrow> bool" where
  "is_custom_agent_enabled n c \<longleftrightarrow>
     list_ex (\<lambda>r. a_name r = n \<and> a_tier r = Custom \<and> a_enabled r) (c_agents c)"

section \<open>Reads\<close>

record skill_ref =
  sr_name :: string
  sr_instructions :: string
  sr_hash :: string
  sr_ord :: int
  sr_tools :: "string list"

record agent_with_skills =
  aw_id :: int
  aw_name :: string
  aw_description :: string
  aw_persona :: string
  aw_gateway :: string
  aw_tier :: tier
  aw_version :: int
  aw_enabled :: bool
  aw_keywords :: "string list"
  aw_skills :: "skill_ref list"
  aw_type :: string
  aw_gateways :: "string list"
  aw_language :: "string option"
  aw_policy :: bool

text \<open>
  \<open>ORDER BY name\<close> is the database's collation, a parameter \<open>le\<close>. The skills of an agent are
  its bindings joined with the skill rows, in the order of \<open>ord\<close>; only enabled ones are listed,
  but the policy flag looks at all of them.
\<close>

definition list_skills :: "(string \<Rightarrow> string \<Rightarrow> bool) \<Rightarrow> catalog \<Rightarrow> skill_row list" where
  "list_skills le c = sort_le (\<lambda>x y. le (s_name x) (s_name y)) (c_skills c)"

definition bindings :: "catalog \<Rightarrow> int \<Rightarrow> (skill_link \<times> skill_row) list" where
  "bindings c a =
     concat (map (\<lambda>l. map (\<lambda>s. (l, s)) (filter (\<lambda>s. s_id s = l_skill l) (c_skills c)))
       (filter (\<lambda>l. l_agent l = a) (c_links c)))"

definition ref_of :: "skill_link \<times> skill_row \<Rightarrow> skill_ref" where
  "ref_of b = (case b of (l, s) \<Rightarrow>
     \<lparr>sr_name = s_name s, sr_instructions = s_instructions s, sr_hash = s_hash s, sr_ord = l_ord l,
      sr_tools = s_tools s\<rparr>)"

definition with_skills :: "catalog \<Rightarrow> agent_row \<Rightarrow> agent_with_skills" where
  "with_skills c a =
     \<lparr>aw_id = a_id a, aw_name = a_name a, aw_description = a_description a, aw_persona = a_persona a,
      aw_gateway = a_gateway a, aw_tier = a_tier a, aw_version = a_version a, aw_enabled = a_enabled a,
      aw_keywords = a_keywords a,
      aw_skills = map ref_of (filter (\<lambda>(l, s). s_enabled s)
        (sort_le (\<lambda>x y. l_ord (fst x) \<le> l_ord (fst y)) (bindings c (a_id a)))),
      aw_type = a_type a, aw_gateways = a_gateways a, aw_language = a_language a,
      aw_policy = list_ex (\<lambda>(l, s). 0 < length (s_tools s)) (bindings c (a_id a))\<rparr>"

definition list_agents_with_skills :: "(string \<Rightarrow> string \<Rightarrow> bool) \<Rightarrow> bool \<Rightarrow> catalog \<Rightarrow> agent_with_skills list" where
  "list_agents_with_skills le enabled_only c =
     map (with_skills c) (sort_le (\<lambda>x y. le (a_name x) (a_name y))
       (filter (\<lambda>a. \<not> enabled_only \<or> a_enabled a) (c_agents c)))"

section \<open>Agent spaces\<close>

definition get_agent_space :: "string \<Rightarrow> catalog \<Rightarrow> agent_space option" where
  "get_agent_space acct c = find (\<lambda>sp. sp_account sp = acct) (c_spaces c)"

definition new_space :: "string \<Rightarrow> int list \<Rightarrow> int list \<Rightarrow> int list \<Rightarrow> string list \<Rightarrow> agent_space" where
  "new_space acct agents skills integrations tools =
     \<lparr>sp_account = acct, sp_agents = agents, sp_skills = skills, sp_integrations = integrations,
      sp_tools = tools, sp_private = False, sp_authoring = False, sp_version = 1\<rparr>"

definition merge_space :: "agent_space \<Rightarrow> agent_space \<Rightarrow> agent_space" where
  "merge_space x sp = sp\<lparr>sp_agents := sp_agents x, sp_skills := sp_skills x,
     sp_integrations := sp_integrations x, sp_tools := sp_tools x, sp_version := sp_version sp + 1\<rparr>"

definition upsert_space_rows :: "agent_space \<Rightarrow> agent_space list \<Rightarrow> agent_space list" where
  "upsert_space_rows x sps =
     (if list_ex (\<lambda>sp. sp_account sp = sp_account x) sps
      then map (\<lambda>sp. if sp_account sp = sp_account x then merge_space x sp else sp) sps
      else sps @ [x])"

definition upsert_agent_space :: "string \<Rightarrow> agent_space \<Rightarrow> catalog \<Rightarrow> catalog" where
  "upsert_agent_space actor x c =
     write_audit \<lparr>au_actor = actor, au_action = ''upsert'', au_type = ''space'', au_object = sp_account x\<rparr>
       (c\<lparr>c_spaces := upsert_space_rows x (c_spaces c)\<rparr>)"

section \<open>The context of one chat turn\<close>

datatype custom_context =
    Available "agent_with_skills list" "agent_space option"
  | Unavailable

text \<open>
  \<open>getCustomAgentContext\<close>: \<open>reads = None\<close> is a failing policy or catalog query, \<open>aurora\<close> whether
  a database is configured at all.
\<close>

definition get_custom_agent_context ::
  "(string \<Rightarrow> string \<Rightarrow> bool) \<Rightarrow> bool \<Rightarrow> string \<Rightarrow> catalog option \<Rightarrow> custom_context" where
  "get_custom_agent_context le aurora acct reads =
     (if \<not> aurora then Available [] None
      else (case reads of
          None \<Rightarrow> Unavailable
        | Some c \<Rightarrow>
            let space = get_agent_space acct c;
                data = filter (\<lambda>a. aw_tier a = Custom \<and> \<not> is_reserved_agent_name (aw_name a))
                  (list_agents_with_skills le True c)
            in Available
                 (case space of
                    None \<Rightarrow> data
                  | Some sp \<Rightarrow> filter (\<lambda>a. aw_id a \<in> set (sp_agents sp)) data)
                 space))"

definition get_enabled_custom_agents ::
  "(string \<Rightarrow> string \<Rightarrow> bool) \<Rightarrow> bool \<Rightarrow> string \<Rightarrow> catalog option \<Rightarrow> string + agent_with_skills list" where
  "get_enabled_custom_agents le aurora acct reads =
     (case get_custom_agent_context le aurora acct reads of
        Unavailable \<Rightarrow> Inl ''Custom-agent catalog unavailable''
      | Available agents _ \<Rightarrow> Inr agents)"

section \<open>Tables keyed by name\<close>

text \<open>
  What the two upserts share: a merge keeps a row's name, tier and id. Skills and agents are
  the two instances.
\<close>

locale named_table =
  fixes name_of :: "'r \<Rightarrow> string" and tier_of :: "'r \<Rightarrow> tier" and id_of :: "'r \<Rightarrow> int"
    and merge :: "'r \<Rightarrow> 'r \<Rightarrow> 'r"
  assumes merge_name: "name_of (merge x r) = name_of r"
    and merge_tier: "tier_of (merge x r) = tier_of r"
    and merge_id: "id_of (merge x r) = id_of r"
begin

abbreviation upsert :: "'r \<Rightarrow> 'r list \<Rightarrow> ('r list \<times> int) option" where
  "upsert fresh rows \<equiv> upsert_by name_of tier_of id_of fresh (merge fresh) rows"

abbreviation builtins :: "'r list \<Rightarrow> 'r list" where
  "builtins rows \<equiv> filter (\<lambda>r. tier_of r = Builtin) rows"

lemma upsert_cases:
  assumes "upsert fresh rows = Some (rows', n)"
  obtains (added) "name_of fresh \<notin> name_of ` set rows" "rows' = rows @ [fresh]" "n = id_of fresh"
  | (merged) old where "old \<in> set rows" "name_of old = name_of fresh" "tier_of old = Custom" "n = id_of old"
      "find (\<lambda>r. name_of r = name_of fresh) rows = Some old"
      "rows' = map (\<lambda>r. if name_of r = name_of fresh then merge fresh r else r) rows"
proof (cases "find (\<lambda>r. name_of r = name_of fresh) rows")
  case None
  with assms show thesis by (intro added) (auto simp: upsert_by_def find_None_iff)
next
  case (Some old)
  with assms show thesis
    by (intro merged [of old]) (auto simp: upsert_by_def find_Some_iff split: if_splits)
qed

lemma merge_row_attrs:
  "name_of (if b then merge x r else r) = name_of r"
  "tier_of (if b then merge x r else r) = tier_of r"
  "id_of (if b then merge x r else r) = id_of r"
  by (simp_all add: merge_name merge_tier merge_id)

lemma distinct_names:
  assumes "upsert fresh rows = Some (rows', n)" "distinct (map name_of rows)"
  shows "distinct (map name_of rows')"
  using assms(1) by (cases rule: upsert_cases) (use assms(2) in \<open>auto simp: comp_def merge_row_attrs\<close>)

lemma ids_kept:
  assumes "upsert fresh rows = Some (rows', n)"
  shows "map id_of rows' = map id_of rows \<or> map id_of rows' = map id_of rows @ [id_of fresh]"
  using assms by (cases rule: upsert_cases) (auto simp: merge_row_attrs)

lemma ids_subset:
  assumes "upsert fresh rows = Some (rows', n)"
  shows "id_of ` set rows \<subseteq> id_of ` set rows'"
proof -
  have "set (map id_of rows) \<subseteq> set (map id_of rows')"
    using ids_kept [OF assms] by (elim disjE) auto
  then show ?thesis by simp
qed

lemma builtins_kept:
  assumes "upsert fresh rows = Some (rows', n)" "distinct (map name_of rows)" "tier_of fresh = Custom"
  shows "builtins rows' = builtins rows"
  using assms(1)
proof (cases rule: upsert_cases)
  case added
  then show ?thesis using assms(3) by simp
next
  case (merged old)
  have custom: "tier_of r = Custom" if "r \<in> set rows" "name_of r = name_of fresh" for r
    using that merged(1-3) assms(2) by (metis distinct_map inj_onD)
  have "builtins (map (\<lambda>r. if name_of r = name_of fresh then merge fresh r else r) xs) = builtins xs"
    if "set xs \<subseteq> set rows" for xs
    using that by (induction xs) (auto simp: merge_tier custom)
  then show ?thesis using merged(6) by simp
qed

lemma named_row:
  assumes "upsert fresh rows = Some (rows', n)" "r \<in> set rows'" "name_of r = name_of fresh"
  shows "r = fresh \<or> (\<exists>old\<in>set rows. name_of old = name_of fresh \<and> r = merge fresh old)"
  using assms(1)
proof (cases rule: upsert_cases)
  case added
  then show ?thesis using assms(2,3) by (metis image_eqI in_set_conv_decomp_last rotate1.simps(2) set_ConsD set_rotate1)
next
  case (merged old)
  then show ?thesis using assms(2,3) by (auto split: if_splits)
qed

end

interpretation skills: named_table s_name s_tier s_id merge_skill
  by unfold_locales (simp_all add: merge_skill_def)

interpretation agents: named_table a_name a_tier a_id merge_agent
  by unfold_locales (simp_all add: merge_agent_def)

section \<open>The catalog's invariant\<close>

definition links_ok :: "catalog \<Rightarrow> bool" where
  "links_ok c \<longleftrightarrow>
     distinct (map (\<lambda>l. (l_agent l, l_skill l)) (c_links c))
     \<and> distinct (map (\<lambda>l. (l_agent l, l_ord l)) (c_links c))
     \<and> (\<forall>l\<in>set (c_links c). 0 \<le> l_ord l \<and> l_agent l \<in> a_id ` set (c_agents c)
          \<and> l_skill l \<in> s_id ` set (c_skills c))"

definition keyed_ok :: "string list \<Rightarrow> int list \<Rightarrow> int \<Rightarrow> bool" where
  "keyed_ok names ids next \<longleftrightarrow> distinct names \<and> distinct ids \<and> (\<forall>n\<in>set ids. n < next)"

definition tables_ok :: "catalog \<Rightarrow> bool" where
  "tables_ok c \<longleftrightarrow>
     keyed_ok (map s_name (c_skills c)) (map s_id (c_skills c)) (c_next_skill c)
     \<and> keyed_ok (map a_name (c_agents c)) (map a_id (c_agents c)) (c_next_agent c)
     \<and> distinct (map sp_account (c_spaces c))"

lemma keyed_ok_names: "keyed_ok names ids next \<Longrightarrow> distinct names"
  by (simp add: keyed_ok_def)

lemma keyed_ok_next:
  "keyed_ok names ids next \<Longrightarrow> distinct names' \<Longrightarrow> ids' = ids \<or> ids' = ids @ [next] \<Longrightarrow>
   keyed_ok names' ids' (next + 1)"
  unfolding keyed_ok_def by (elim disjE) (auto intro: less_trans [of _ "next"])

lemma keyed_ok_skip: "keyed_ok names ids next \<Longrightarrow> keyed_ok names ids (next + 1)"
  using keyed_ok_next keyed_ok_names by blast

definition catalog_ok :: "catalog \<Rightarrow> bool" where
  "catalog_ok c \<longleftrightarrow> tables_ok c \<and> links_ok c"

text \<open>The operations the administration handlers perform; both upserts with tier \<open>custom\<close>.\<close>

inductive catalog_step :: "(string \<Rightarrow> string) \<Rightarrow> catalog \<Rightarrow> catalog \<Rightarrow> bool" for sha where
  step_skill: "si_tier i = Custom \<Longrightarrow> catalog_step sha c (snd (upsert_skill sha i c))"
| step_agent: "ai_tier i = Custom \<Longrightarrow> catalog_step sha c (snd (upsert_agent i c))"
| step_attach: "catalog_step sha c (snd (attach_skill a s c))"
| step_enable: "catalog_step sha c (set_enabled k n on c)"
| step_space: "catalog_step sha c (upsert_agent_space actor (new_space acct ags sks ints tools) c)"
| step_audit: "catalog_step sha c (write_audit au c)"

lemma upsert_skill_cases:
  obtains (refused) "upsert_skill sha i c = (Inl ''name conflicts with a built-in skill'', c\<lparr>c_next_skill := c_next_skill c + 1\<rparr>)"
      "skills.upsert (new_skill sha (c_next_skill c) i) (c_skills c) = None"
  | (stored) rows n where "skills.upsert (new_skill sha (c_next_skill c) i) (c_skills c) = Some (rows, n)"
      "upsert_skill sha i c = (Inr n, c\<lparr>c_next_skill := c_next_skill c + 1, c_skills := rows\<rparr>)"
  by (cases "skills.upsert (new_skill sha (c_next_skill c) i) (c_skills c)")
    (auto simp: upsert_skill_def Let_def)

lemma upsert_agent_cases:
  obtains (refused) "upsert_agent i c = (Inl ''name conflicts with a built-in agent'', c\<lparr>c_next_agent := c_next_agent c + 1\<rparr>)"
      "agents.upsert (new_agent (c_next_agent c) i) (c_agents c) = None"
  | (stored) rows n where "agents.upsert (new_agent (c_next_agent c) i) (c_agents c) = Some (rows, n)"
      "upsert_agent i c = (Inr n, c\<lparr>c_next_agent := c_next_agent c + 1, c_agents := rows\<rparr>)"
  by (cases "agents.upsert (new_agent (c_next_agent c) i) (c_agents c)")
    (auto simp: upsert_agent_def Let_def)

lemma attach_skill_cases:
  obtains (refused) e where "attach_skill a s c = (Inl e, c)"
  | (kept) l where "link_of a s (c_links c) = Some l" "attach_skill a s c = (Inr (l_ord l), c)"
  | (added) "link_of a s (c_links c) = None" "a \<in> a_id ` set (c_agents c)" "s \<in> s_id ` set (c_skills c)"
      "attach_skill a s c = (Inr (next_ord a (c_links c)),
        c\<lparr>c_links := c_links c @ [\<lparr>l_agent = a, l_skill = s, l_ord = next_ord a (c_links c)\<rparr>]\<rparr>)"
proof -
  consider "\<not> list_ex (\<lambda>r. a_id r = a \<and> a_tier r = Custom) (c_agents c)"
    | "list_ex (\<lambda>r. a_id r = a \<and> a_tier r = Custom) (c_agents c)" "\<not> list_ex (\<lambda>r. s_id r = s) (c_skills c)"
    | "list_ex (\<lambda>r. a_id r = a \<and> a_tier r = Custom) (c_agents c)" "list_ex (\<lambda>r. s_id r = s) (c_skills c)"
    by blast
  then show thesis
  proof cases
    case 1
    then show thesis by (intro refused [of "''Custom agent not found''"]) (simp add: attach_skill_def)
  next
    case 2
    then show thesis by (intro refused [of "''violates foreign key constraint''"]) (simp add: attach_skill_def)
  next
    case 3
    then have "a \<in> a_id ` set (c_agents c)" "s \<in> s_id ` set (c_skills c)" by (auto simp: list_ex_iff)
    with 3 show thesis
      by (cases "link_of a s (c_links c)") (simp_all add: attach_skill_def Let_def added kept)
  qed
qed

lemma next_ord_fold:
  "m \<le> foldl (\<lambda>m l. if l_agent l = a then max m (l_ord l) else m) m ls"
  "l \<in> set ls \<Longrightarrow> l_agent l = a \<Longrightarrow> l_ord l \<le> foldl (\<lambda>m l. if l_agent l = a then max m (l_ord l) else m) m ls"
proof (induction ls arbitrary: m)
  case (Cons k ls)
  {
    case (1 m)
    let ?m = "if l_agent k = a then max m (l_ord k) else m"
    have "m \<le> ?m" by simp
    then show ?case using Cons.IH(1) [of ?m] by (simp only: foldl.simps)
  next
    case (2 m)
    let ?m = "if l_agent k = a then max m (l_ord k) else m"
    from 2 show ?case using Cons.IH(1) [of ?m] Cons.IH(2) [of ?m] by auto
  }
qed simp_all

lemma next_ord_above: "l \<in> set ls \<Longrightarrow> l_agent l = a \<Longrightarrow> l_ord l < next_ord a ls"
  unfolding next_ord_def using next_ord_fold(2) by (rule zle_add1_eq_le [THEN iffD2])

lemma next_ord_nonneg: "0 \<le> next_ord a ls"
  unfolding next_ord_def using next_ord_fold(1) [of "- 1" a ls] by (simp add: algebra_simps)

lemma new_skill_attrs [simp]:
  "s_id (new_skill sha n i) = n" "s_name (new_skill sha n i) = si_name i" "s_tier (new_skill sha n i) = si_tier i"
  "s_enabled (new_skill sha n i) = False"
  by (simp_all add: new_skill_def)

lemma new_agent_attrs [simp]:
  "a_id (new_agent n i) = n" "a_name (new_agent n i) = ai_name i" "a_tier (new_agent n i) = ai_tier i"
  "a_enabled (new_agent n i) = False"
  by (simp_all add: new_agent_def)

lemma tables_ok_upsert_skill: "tables_ok c \<Longrightarrow> tables_ok (snd (upsert_skill sha i c))"
proof (cases rule: upsert_skill_cases [of sha i c])
  case refused
  assume "tables_ok c"
  with refused show ?thesis
    by (simp add: tables_ok_def keyed_ok_skip)
next
  case (stored rows n)
  assume ok: "tables_ok c"
  then have keyed: "keyed_ok (map s_name (c_skills c)) (map s_id (c_skills c)) (c_next_skill c)"
    by (simp add: tables_ok_def)
  have "keyed_ok (map s_name rows) (map s_id rows) (c_next_skill c + 1)"
    using skills.distinct_names [OF stored(1) keyed_ok_names [OF keyed]] skills.ids_kept [OF stored(1)]
    by (intro keyed_ok_next [OF keyed]) simp_all
  then show ?thesis using stored(2) ok by (simp add: tables_ok_def)
qed

lemma tables_ok_upsert_agent: "tables_ok c \<Longrightarrow> tables_ok (snd (upsert_agent i c))"
proof (cases rule: upsert_agent_cases [of i c])
  case refused
  assume "tables_ok c"
  with refused show ?thesis
    by (simp add: tables_ok_def keyed_ok_skip)
next
  case (stored rows n)
  assume ok: "tables_ok c"
  then have keyed: "keyed_ok (map a_name (c_agents c)) (map a_id (c_agents c)) (c_next_agent c)"
    by (simp add: tables_ok_def)
  have "keyed_ok (map a_name rows) (map a_id rows) (c_next_agent c + 1)"
    using agents.distinct_names [OF stored(1) keyed_ok_names [OF keyed]] agents.ids_kept [OF stored(1)]
    by (intro keyed_ok_next [OF keyed]) simp_all
  then show ?thesis using stored(2) ok by (simp add: tables_ok_def)
qed

lemma set_enabled_attrs:
  "map s_name (c_skills (set_enabled k n on c)) = map s_name (c_skills c)"
  "map s_id (c_skills (set_enabled k n on c)) = map s_id (c_skills c)"
  "map a_name (c_agents (set_enabled k n on c)) = map a_name (c_agents c)"
  "map a_id (c_agents (set_enabled k n on c)) = map a_id (c_agents c)"
  "c_links (set_enabled k n on c) = c_links c" "c_spaces (set_enabled k n on c) = c_spaces c"
  "c_next_skill (set_enabled k n on c) = c_next_skill c" "c_next_agent (set_enabled k n on c) = c_next_agent c"
  by (auto simp: set_enabled_def split: object_kind.splits)

lemma accounts_upsert_space:
  "map sp_account (upsert_space_rows x sps) = map sp_account sps
   \<or> sp_account x \<notin> sp_account ` set sps \<and> map sp_account (upsert_space_rows x sps) = map sp_account sps @ [sp_account x]"
  by (auto simp: upsert_space_rows_def merge_space_def list_ex_iff)

lemma distinct_accounts_upsert_space:
  "distinct (map sp_account sps) \<Longrightarrow> distinct (map sp_account (upsert_space_rows x sps))"
  using accounts_upsert_space [of x sps] by auto

lemma tables_ok_step: "catalog_step sha c c' \<Longrightarrow> tables_ok c \<Longrightarrow> tables_ok c'"
proof (induction rule: catalog_step.induct)
  case (step_attach c a s)
  then show ?case by (cases rule: attach_skill_cases [of a s c]) (auto simp: tables_ok_def)
next
  case (step_enable c k n on)
  then show ?case unfolding tables_ok_def set_enabled_attrs .
next
  case (step_space c actor acct ags sks ints tools)
  then show ?case
    by (simp add: tables_ok_def upsert_agent_space_def write_audit_def distinct_accounts_upsert_space)
next
  case (step_audit c au)
  then show ?case by (simp add: tables_ok_def write_audit_def)
qed (simp_all add: tables_ok_upsert_skill tables_ok_upsert_agent)

lemma links_ok_cong:
  assumes "links_ok c" "c_links c' = c_links c"
    "a_id ` set (c_agents c) \<subseteq> a_id ` set (c_agents c')" "s_id ` set (c_skills c) \<subseteq> s_id ` set (c_skills c')"
  shows "links_ok c'"
  using assms unfolding links_ok_def by auto

lemma links_ok_attach: "links_ok c \<Longrightarrow> links_ok (snd (attach_skill a s c))"
proof (cases rule: attach_skill_cases [of a s c])
  case added
  assume ok: "links_ok c"
  let ?k = "next_ord a (c_links c)"
  have "(a, s) \<notin> (\<lambda>l. (l_agent l, l_skill l)) ` set (c_links c)"
    using added(1) by (auto simp: link_of_def find_None_iff)
  moreover have "(a, ?k) \<notin> (\<lambda>l. (l_agent l, l_ord l)) ` set (c_links c)"
    using next_ord_above by force
  ultimately show ?thesis using ok added(2,3) next_ord_nonneg [of a] by (simp add: links_ok_def added(4))
qed auto

lemma links_ok_step: "catalog_step sha c c' \<Longrightarrow> links_ok c \<Longrightarrow> links_ok c'"
proof (induction rule: catalog_step.induct)
  case (step_skill i c)
  show ?case
  proof (cases rule: upsert_skill_cases [of sha i c])
    case (stored rows n)
    have "s_id ` set (c_skills c) \<subseteq> s_id ` set rows"
      by (rule skills.ids_subset [OF stored(1)])
    then show ?thesis using stored(2) by (intro links_ok_cong [OF step_skill(2)]) simp_all
  next
    case refused
    then show ?thesis by (intro links_ok_cong [OF step_skill(2)]) simp_all
  qed
next
  case (step_agent i c)
  show ?case
  proof (cases rule: upsert_agent_cases [of i c])
    case (stored rows n)
    have "a_id ` set (c_agents c) \<subseteq> a_id ` set rows"
      by (rule agents.ids_subset [OF stored(1)])
    then show ?thesis using stored(2) by (intro links_ok_cong [OF step_agent(2)]) simp_all
  next
    case refused
    then show ?thesis by (intro links_ok_cong [OF step_agent(2)]) simp_all
  qed
next
  case (step_enable c k n on)
  have ids: "set (map a_id (c_agents c)) \<subseteq> set (map a_id (c_agents (set_enabled k n on c)))"
    "set (map s_id (c_skills c)) \<subseteq> set (map s_id (c_skills (set_enabled k n on c)))"
    by (simp_all only: set_enabled_attrs order_refl)
  show ?case
    by (rule links_ok_cong [OF step_enable set_enabled_attrs(5) ids [unfolded list.set_map]])
next
  case (step_space c actor acct ags sks ints tools)
  then show ?case by (simp add: links_ok_def upsert_agent_space_def write_audit_def)
next
  case (step_audit c au)
  then show ?case by (simp add: links_ok_def write_audit_def)
qed (rule links_ok_attach)

lemma catalog_ok_step: "catalog_step sha c c' \<Longrightarrow> catalog_ok c \<Longrightarrow> catalog_ok c'"
  unfolding catalog_ok_def using tables_ok_step links_ok_step by blast

lemma catalog_ok_steps: "(catalog_step sha)\<^sup>*\<^sup>* c c' \<Longrightarrow> catalog_ok c \<Longrightarrow> catalog_ok c'"
  by (induction rule: rtranclp_induct) (auto intro: catalog_ok_step)

section \<open>Built-in rows\<close>

definition builtin_skills :: "catalog \<Rightarrow> skill_row list" where
  "builtin_skills c = filter (\<lambda>r. s_tier r = Builtin) (c_skills c)"

definition builtin_agents :: "catalog \<Rightarrow> agent_row list" where
  "builtin_agents c = filter (\<lambda>r. a_tier r = Builtin) (c_agents c)"

lemma builtin_skills_step:
  "catalog_step sha c c' \<Longrightarrow> tables_ok c \<Longrightarrow> builtin_skills c' = builtin_skills c"
proof (induction rule: catalog_step.induct)
  case (step_skill i c)
  show ?case
  proof (cases rule: upsert_skill_cases [of sha i c])
    case (stored rows n)
    then show ?thesis
      using skills.builtins_kept [OF stored(1)] step_skill by (simp add: builtin_skills_def tables_ok_def keyed_ok_def)
  qed (simp add: builtin_skills_def)
next
  case (step_agent i c)
  show ?case by (cases rule: upsert_agent_cases [of i c]) (simp_all add: builtin_skills_def)
next
  case (step_attach c a s)
  show ?case by (cases rule: attach_skill_cases [of a s c]) (simp_all add: builtin_skills_def)
next
  case (step_enable c k n on)
  have "filter (\<lambda>r. s_tier r = Builtin) (map (\<lambda>r. if s_id r = n \<and> s_tier r = Custom then r\<lparr>s_enabled := on\<rparr> else r) rs)
      = filter (\<lambda>r. s_tier r = Builtin) rs" for rs by (induction rs) auto
  then show ?case by (cases k) (simp_all add: builtin_skills_def set_enabled_def)
qed (simp_all add: builtin_skills_def upsert_agent_space_def write_audit_def)

lemma builtin_agents_step:
  "catalog_step sha c c' \<Longrightarrow> tables_ok c \<Longrightarrow> builtin_agents c' = builtin_agents c"
proof (induction rule: catalog_step.induct)
  case (step_agent i c)
  show ?case
  proof (cases rule: upsert_agent_cases [of i c])
    case (stored rows n)
    then show ?thesis
      using agents.builtins_kept [OF stored(1)] step_agent by (simp add: builtin_agents_def tables_ok_def keyed_ok_def)
  qed (simp add: builtin_agents_def)
next
  case (step_skill i c)
  show ?case by (cases rule: upsert_skill_cases [of sha i c]) (simp_all add: builtin_agents_def)
next
  case (step_attach c a s)
  show ?case by (cases rule: attach_skill_cases [of a s c]) (simp_all add: builtin_agents_def)
next
  case (step_enable c k n on)
  have "filter (\<lambda>r. a_tier r = Builtin) (map (\<lambda>r. if a_id r = n \<and> a_tier r = Custom then r\<lparr>a_enabled := on\<rparr> else r) rs)
      = filter (\<lambda>r. a_tier r = Builtin) rs" for rs by (induction rs) auto
  then show ?case by (cases k) (simp_all add: builtin_agents_def set_enabled_def)
qed (simp_all add: builtin_agents_def upsert_agent_space_def write_audit_def)

section \<open>Properties of the catalog\<close>

lemma builtins_steps:
  assumes "(catalog_step sha)\<^sup>*\<^sup>* c c'" "catalog_ok c"
  shows "builtin_skills c' = builtin_skills c \<and> builtin_agents c' = builtin_agents c"
  using assms
proof (induction rule: rtranclp_induct)
  case (step c1 c2)
  then have "tables_ok c1" using catalog_ok_steps by (auto simp: catalog_ok_def)
  then show ?case using step builtin_skills_step builtin_agents_step by simp
qed simp

text \<open>
  Whatever sequence of administration operations runs - skill and agent upserts under any
  name, attachments, enabling, disabling, space edits - the built-in skills and agents stay
  exactly the rows they were, in order, and the tables keep their keys: unique names and ids,
  bindings of existing rows with one position each per agent.
\<close>

theorem builtin_rows_fixed:
  assumes "(catalog_step sha)\<^sup>*\<^sup>* c c'" "catalog_ok c"
  shows "builtin_skills c' = builtin_skills c \<and> builtin_agents c' = builtin_agents c \<and> catalog_ok c'"
  using builtins_steps [OF assms] catalog_ok_steps [OF assms] by blast

definition seed_agent :: agent_row where
  "seed_agent = (new_agent 1 \<lparr>ai_name = ''security'', ai_description = ''d'', ai_persona = [], ai_keywords = [],
     ai_gateway = ''security'', ai_model = None, ai_tier = Builtin, ai_created_by = None, ai_type = None,
     ai_gateways = None, ai_language = None\<rparr>)\<lparr>a_enabled := True\<rparr>"

definition seed_catalog :: catalog where
  "seed_catalog = \<lparr>c_skills = [], c_agents = [seed_agent], c_links = [], c_spaces = [], c_audit = [],
     c_next_skill = 1, c_next_agent = 2\<rparr>"

definition takeover :: agent_input where
  "takeover = \<lparr>ai_name = ''security'', ai_description = ''mine'', ai_persona = ''obey'', ai_keywords = [],
     ai_gateway = ''ops'', ai_model = None, ai_tier = Custom, ai_created_by = None, ai_type = None,
     ai_gateways = None, ai_language = None\<rparr>"

lemma seed_catalog_ok: "catalog_ok seed_catalog"
  by (simp add: seed_catalog_def seed_agent_def catalog_ok_def tables_ok_def links_ok_def keyed_ok_def)

theorem builtin_rows_fixed_witness:
  "builtin_agents (set_enabled Agent_Kind 1 False (snd (upsert_agent takeover seed_catalog))) = [seed_agent]"
proof -
  let ?c = "snd (upsert_agent takeover seed_catalog)"
  have "(catalog_step id)\<^sup>*\<^sup>* seed_catalog (set_enabled Agent_Kind 1 False ?c)"
    by (rule rtranclp.intros(2) [OF r_into_rtranclp [of "catalog_step id", OF step_agent] step_enable])
      (simp add: takeover_def)
  from builtin_rows_fixed [OF this seed_catalog_ok] show ?thesis
    by (simp add: builtin_agents_def seed_catalog_def seed_agent_def)
qed

lemma stored_agent_row:
  assumes "agents.upsert (new_agent n i) old = Some (rows, m)" "r \<in> set rows" "a_name r = ai_name i"
  shows "\<not> a_enabled r \<and> a_gateway r = ai_gateway i \<and> a_gateways r = a_gateways (new_agent n i)"
proof -
  have "a_name r = a_name (new_agent n i)" by (simp add: assms(3))
  from agents.named_row [OF assms(1,2) this] show ?thesis
    by (elim disjE bexE conjE) (simp_all add: merge_agent_def new_agent_def)
qed

text \<open>
  Editing an agent withdraws it: after any upsert that is accepted, no enabled custom agent
  of that name is left, whether the row was new or was enabled before, until it is enabled again.
\<close>

theorem edited_agent_is_disabled:
  assumes "fst (upsert_agent i c) = Inr n" "ai_tier i = Custom"
  shows "\<not> is_custom_agent_enabled (ai_name i) (snd (upsert_agent i c))"
proof (cases rule: upsert_agent_cases [of i c])
  case refused
  then show ?thesis using assms by simp
next
  case (stored rows m)
  have "\<not> a_enabled r" if "r \<in> set rows" "a_name r = ai_name i" for r
    using stored_agent_row [OF stored(1) that] by simp
  then show ?thesis using stored(2) by (auto simp: is_custom_agent_enabled_def list_ex_iff)
qed

definition my_agent :: agent_input where
  "my_agent = takeover\<lparr>ai_name := ''netops''\<rparr>"

theorem edited_agent_is_disabled_witness:
  "\<not> is_custom_agent_enabled ''netops''
     (snd (upsert_agent my_agent (set_enabled Agent_Kind 2 True (snd (upsert_agent my_agent seed_catalog)))))"
  using edited_agent_is_disabled
    [of my_agent "set_enabled Agent_Kind 2 True (snd (upsert_agent my_agent seed_catalog))" 2]
  by (simp add: my_agent_def takeover_def seed_catalog_def seed_agent_def upsert_agent_def upsert_by_def
      new_agent_def merge_agent_def set_enabled_def Let_def)

section \<open>The content hash\<close>

lemma quoted_field_inj: "json_quote s @ sep @ r = json_quote t @ sep @ r' \<Longrightarrow> s = t \<and> r = r'"
  by (drule json_quote_inj) simp

lemma skill_canonical_text:
  "skill_canonical n d i ts = (''{'' @ json_quote ''name'' @ '':'') @ json_quote n
     @ ('','' @ json_quote ''description'' @ '':'') @ json_quote d
     @ ('','' @ json_quote ''instructions'' @ '':'') @ json_quote i
     @ ('','' @ json_quote ''toolAllowlist'' @ '':'') @ json_strings (sort ts) @ ''}''"
  by (simp add: skill_canonical_def json_strings_def)

lemma skill_canonical_fields:
  assumes "skill_canonical n d i ts = skill_canonical n' d' i' ts'"
  shows "n = n' \<and> d = d' \<and> i = i' \<and> sort ts = sort ts'"
proof -
  note name = quoted_field_inj [OF assms [unfolded skill_canonical_text same_append_eq]]
  note description = quoted_field_inj [OF name [THEN conjunct2]]
  note instructions = json_quote_inj [OF description [THEN conjunct2]]
  note tools = json_strings_inj [OF instructions [THEN conjunct2, unfolded same_append_eq]]
  show ?thesis
    using name [THEN conjunct1] description [THEN conjunct1] instructions [THEN conjunct1] tools [THEN conjunct1]
    by (intro conjI)
qed

text \<open>
  The text a skill's content hash is taken of determines the skill: two skills have the
  same text exactly when name, description and instructions agree and their tool lists agree
  up to order. So reordering an allow-list keeps the hash, and any other edit changes the text.
\<close>

theorem canonical_text_injective:
  "skill_canonical n d i ts = skill_canonical n' d' i' ts' \<longleftrightarrow> n = n' \<and> d = d' \<and> i = i' \<and> mset ts = mset ts'"
proof
  assume "skill_canonical n d i ts = skill_canonical n' d' i' ts'"
  then have "n = n' \<and> d = d' \<and> i = i' \<and> sort ts = sort ts'" by (rule skill_canonical_fields)
  then show "n = n' \<and> d = d' \<and> i = i' \<and> mset ts = mset ts'" by (metis mset_sort)
next
  assume eq: "n = n' \<and> d = d' \<and> i = i' \<and> mset ts = mset ts'"
  then have "sort ts = sort ts'" by (intro properties_for_sort) simp_all
  with eq show "skill_canonical n d i ts = skill_canonical n' d' i' ts'" by (simp add: skill_canonical_def)
qed

section \<open>Attachment order\<close>

lemma insert_le_last: "le x y \<Longrightarrow> insert_le le x (xs @ [y]) = insert_le le x xs @ [y]"
  by (induction xs) auto

lemma sort_le_snoc: "(\<And>x. x \<in> set xs \<Longrightarrow> le x y) \<Longrightarrow> sort_le le (xs @ [y]) = sort_le le xs @ [y]"
  by (induction xs) (auto simp: sort_le_def insert_le_last)

lemma bindings_link: "b \<in> set (bindings c a) \<Longrightarrow> fst b \<in> set (c_links c) \<and> l_agent (fst b) = a \<and> snd b \<in> set (c_skills c) \<and> s_id (snd b) = l_skill (fst b)"
  by (auto simp: bindings_def)

lemma filter_unique: "distinct (map f xs) \<Longrightarrow> x \<in> set xs \<Longrightarrow> filter (\<lambda>y. f y = f x) xs = [x]"
  by (induction xs) (auto simp: filter_empty_conv image_iff)

lemma bindings_attach:
  assumes "catalog_ok c" "attach_skill (a_id ag) (s_id sk) c = (Inr k, c')" "link_of (a_id ag) (s_id sk) (c_links c) = None"
    "sk \<in> set (c_skills c)"
  shows "bindings c' (a_id ag) = bindings c (a_id ag) @ [(\<lparr>l_agent = a_id ag, l_skill = s_id sk, l_ord = k\<rparr>, sk)]"
    "k = next_ord (a_id ag) (c_links c)"
proof -
  have ids: "distinct (map s_id (c_skills c))"
    using assms(1) by (simp add: catalog_ok_def tables_ok_def keyed_ok_def)
  have "k = next_ord (a_id ag) (c_links c) \<and>
      c' = c\<lparr>c_links := c_links c @ [\<lparr>l_agent = a_id ag, l_skill = s_id sk, l_ord = k\<rparr>]\<rparr>"
    by (cases rule: attach_skill_cases [of "a_id ag" "s_id sk" c]) (use assms(2,3) in auto)
  then show "bindings c' (a_id ag) = bindings c (a_id ag) @ [(\<lparr>l_agent = a_id ag, l_skill = s_id sk, l_ord = k\<rparr>, sk)]"
    "k = next_ord (a_id ag) (c_links c)"
    using filter_unique [OF ids assms(4)] by (simp_all add: bindings_def)
qed

text \<open>
  Attaching an enabled skill for the first time appends it: the agent's composed skills are
  the ones it had, unchanged and in their order, followed by the new one at a position above all
  of the agent's, disabled bindings included.
\<close>

theorem attached_skill_comes_last:
  assumes "catalog_ok c" "sk \<in> set (c_skills c)" "s_enabled sk"
    "link_of (a_id ag) (s_id sk) (c_links c) = None" "attach_skill (a_id ag) (s_id sk) c = (Inr k, c')"
  shows "aw_skills (with_skills c' ag) = aw_skills (with_skills c ag) @
      [\<lparr>sr_name = s_name sk, sr_instructions = s_instructions sk, sr_hash = s_hash sk, sr_ord = k, sr_tools = s_tools sk\<rparr>]"
proof -
  note new = bindings_attach [OF assms(1,5,4,2)]
  have "l_ord (fst b) \<le> k" if "b \<in> set (bindings c (a_id ag))" for b
    using bindings_link [OF that] next_ord_above [of "fst b" "c_links c" "a_id ag"] new(2) by simp
  then have "sort_le (\<lambda>x y. l_ord (fst x) \<le> l_ord (fst y)) (bindings c' (a_id ag))
      = sort_le (\<lambda>x y. l_ord (fst x) \<le> l_ord (fst y)) (bindings c (a_id ag))
        @ [(\<lparr>l_agent = a_id ag, l_skill = s_id sk, l_ord = k\<rparr>, sk)]"
    unfolding new(1) by (intro sort_le_snoc) simp
  then show ?thesis using assms(3) by (simp add: with_skills_def ref_of_def)
qed

definition my_skill :: skill_input where
  "my_skill = \<lparr>si_name = ''runbook'', si_description = ''d'', si_instructions = ''i'', si_tools = [''list_vpcs''],
     si_tier = Custom, si_created_by = None, si_agent_types = None, si_references = None\<rparr>"

definition demo_catalog :: catalog where
  "demo_catalog = set_enabled Skill_Kind 1 True (snd (upsert_skill id my_skill (snd (upsert_agent my_agent seed_catalog))))"

lemma demo_catalog_ok: "catalog_ok demo_catalog"
proof -
  have "catalog_step id seed_catalog (snd (upsert_agent my_agent seed_catalog))"
    by (rule step_agent) (simp add: my_agent_def takeover_def)
  moreover have "catalog_step id (snd (upsert_agent my_agent seed_catalog))
      (snd (upsert_skill id my_skill (snd (upsert_agent my_agent seed_catalog))))"
    by (rule step_skill) (simp add: my_skill_def)
  ultimately show ?thesis
    unfolding demo_catalog_def by (meson catalog_ok_step seed_catalog_ok step_enable)
qed

lemmas demo_defs = demo_catalog_def my_skill_def my_agent_def takeover_def seed_catalog_def seed_agent_def
  upsert_skill_def upsert_agent_def upsert_by_def new_agent_def new_skill_def set_enabled_def or_default_def
  attach_skill_def link_of_def next_ord_def

theorem attached_skill_comes_last_witness:
  "map sr_ord (aw_skills (with_skills (snd (attach_skill 2 1 demo_catalog)) (new_agent 2 my_agent))) = [0]"
proof -
  let ?sk = "(new_skill id 1 my_skill)\<lparr>s_enabled := True\<rparr>"
  have "?sk \<in> set (c_skills demo_catalog)" by (simp add: demo_defs Let_def)
  moreover have "link_of (a_id (new_agent 2 my_agent)) (s_id ?sk) (c_links demo_catalog) = None"
    by (simp add: demo_defs Let_def)
  moreover have "attach_skill (a_id (new_agent 2 my_agent)) (s_id ?sk) demo_catalog = (Inr 0, snd (attach_skill 2 1 demo_catalog))"
    by (simp add: demo_defs Let_def)
  moreover have "aw_skills (with_skills demo_catalog (new_agent 2 my_agent)) = []"
    by (simp add: with_skills_def bindings_def demo_defs Let_def)
  ultimately show ?thesis
    using attached_skill_comes_last [OF demo_catalog_ok, of ?sk "new_agent 2 my_agent" 0 "snd (attach_skill 2 1 demo_catalog)"]
    by simp
qed

end
