(* ===== verification/Integrations.thy ===== *)
theory Integrations
  imports Catalog Ssrf_Guard Http_Body Auth
begin

text \<open>
  The registry of integrations: \<^verbatim>\<open>web/lib/integration-validation.ts\<close>, \<^verbatim>\<open>web/lib/integrations.ts\<close>
  and the handlers of \<^verbatim>\<open>web/app/api/integrations/route.ts\<close>. The table is an interpretation of
  \<open>named_table\<close>; the URL parser, the random receive path, the collation and whether the database
  answers are arguments.
\<close>

section \<open>Validation\<close>

definition INTEGRATION_KINDS_EGRESS :: "string list" where
  "INTEGRATION_KINDS_EGRESS = [''grafana'', ''datadog'', ''splunk'', ''prometheus'', ''newrelic'', ''notion'', ''confluence'', ''jira'',
     ''servicenow'', ''slack'', ''github'', ''gitlab'', ''custom_mcp'', ''clickhouse'', ''mimir'', ''loki'', ''tempo'', ''jaeger'', ''dynatrace'']"

definition INTEGRATION_KINDS_INGRESS :: "string list" where
  "INTEGRATION_KINDS_INGRESS = [''cloudwatch_sns'', ''alertmanager'', ''grafana_alert'', ''pagerduty'', ''datadog_monitor'', ''generic_webhook'']"

definition INTEGRATION_TRANSPORTS :: "string list" where
  "INTEGRATION_TRANSPORTS = [''sigv4'', ''oauth_client_credentials'', ''oauth_3lo'', ''api_key'']"

definition INTEGRATION_DIRECTIONS :: "string list" where
  "INTEGRATION_DIRECTIONS = [''egress'', ''ingress'']"

definition INTEGRATION_CAPABILITIES :: "string list" where
  "INTEGRATION_CAPABILITIES = [''read'', ''read_write'']"

definition INGRESS_TRIGGER_TARGETS :: "string list" where
  "INGRESS_TRIGGER_TARGETS = [''incident'']"

definition kebab_char :: "char \<Rightarrow> bool" where
  "kebab_char c \<longleftrightarrow> (let k = of_char c :: nat in 97 \<le> k \<and> k \<le> 122) \<or> is_digit c"

text \<open>\<open>^[a-z0-9][a-z0-9-]{1,63}$\<close>\<close>

definition integration_name :: "string \<Rightarrow> bool" where
  "integration_name s \<longleftrightarrow> 2 \<le> length s \<and> length s \<le> 64 \<and> kebab_char (hd s) \<and> list_all (\<lambda>c. kebab_char c \<or> c = CHR ''-'') (tl s)"

definition is_https_url :: "(string \<Rightarrow> url option) \<Rightarrow> string \<Rightarrow> bool" where
  "is_https_url parse s \<longleftrightarrow> (case parse s of None \<Rightarrow> False | Some u \<Rightarrow> u_protocol u = ''https:'')"

text \<open>\<open>list.includes(v)\<close> for a list of strings, and \<open>typeof v === 'string' && p(v)\<close>.\<close>

definition listed :: "string list \<Rightarrow> js \<Rightarrow> bool" where
  "listed ss v \<longleftrightarrow> (case v of JStr s \<Rightarrow> s \<in> set ss | _ \<Rightarrow> False)"

definition string_with :: "(string \<Rightarrow> bool) \<Rightarrow> js \<Rightarrow> bool" where
  "string_with P v \<longleftrightarrow> (case v of JStr s \<Rightarrow> P s | _ \<Rightarrow> False)"

definition string_list :: "js \<Rightarrow> bool" where
  "string_list v \<longleftrightarrow> (case v of JArr vs \<Rightarrow> list_all is_string vs | _ \<Rightarrow> False)"

definition one_of_error :: "string \<Rightarrow> string list \<Rightarrow> string" where
  "one_of_error what ss = what @ '' must be one of '' @ join_with '', '' ss"

text \<open>The errors of an object, in the order the checks are made; each is a condition and its message.\<close>

definition integration_checks :: "(string \<Rightarrow> url option) \<Rightarrow> js \<Rightarrow> (bool \<times> string) list" where
  "integration_checks parse i =
     (let egress = attr i ''direction'' = JStr ''egress''; ingress = attr i ''direction'' = JStr ''ingress'' in
     [(attr i ''kind'' = JStr ''custom_mcp'', ''custom_mcp is retired; use a curated integration''),
      (\<not> string_with integration_name (attr i ''name''), ''name must be kebab-case, 2-64 chars''),
      (\<not> listed INTEGRATION_DIRECTIONS (attr i ''direction''), one_of_error ''direction'' INTEGRATION_DIRECTIONS),
      (egress \<and> \<not> listed INTEGRATION_KINDS_EGRESS (attr i ''kind''), one_of_error ''egress kind'' INTEGRATION_KINDS_EGRESS),
      (ingress \<and> \<not> listed INTEGRATION_KINDS_INGRESS (attr i ''kind''), one_of_error ''ingress kind'' INTEGRATION_KINDS_INGRESS),
      (attr i ''capability'' \<noteq> JUndef \<and> \<not> listed INTEGRATION_CAPABILITIES (attr i ''capability''),
         one_of_error ''capability'' INTEGRATION_CAPABILITIES),
      (egress \<and> \<not> string_with (is_https_url parse) (attr i ''endpoint''), ''egress requires a valid https endpoint URL''),
      (egress \<and> \<not> listed INTEGRATION_TRANSPORTS (attr i ''transport''), one_of_error ''egress transport'' INTEGRATION_TRANSPORTS),
      (ingress \<and> \<not> string_with (\<lambda>s. trim s \<noteq> []) (attr i ''authMode''), ''ingress requires an auth_mode''),
      (ingress \<and> attr i ''triggerTarget'' \<noteq> JUndef \<and> \<not> listed INGRESS_TRIGGER_TARGETS (attr i ''triggerTarget''),
         one_of_error ''triggerTarget'' INGRESS_TRIGGER_TARGETS)] @
      map (\<lambda>f. (attr i f \<noteq> JUndef \<and> \<not> string_list (attr i f), f @ '' must be string[]''))
        [''exposedTools'', ''writeActionRefs'', ''sourceAllowlist''] @
     [(attr i ''credentialsRef'' \<noteq> JUndef \<and> \<not> string_with (\<lambda>s. 0 < length (trim s)) (attr i ''credentialsRef''),
         ''credentialsRef must be a non-empty string (Secrets Manager ARN recommended)'')])"

definition plain_object :: "js \<Rightarrow> bool" where
  "plain_object v \<longleftrightarrow> (case v of JObj _ \<Rightarrow> True | _ \<Rightarrow> False)"

definition validate_integration :: "(string \<Rightarrow> url option) \<Rightarrow> js \<Rightarrow> string list" where
  "validate_integration parse i =
     (if \<not> plain_object i then [''integration must be an object'']
      else map snd (filter fst (integration_checks parse i)))"

section \<open>The table\<close>

record integration_row =
  ir_id :: int
  ir_name :: string
  ir_kind :: string
  ir_direction :: string
  ir_description :: string
  ir_endpoint :: "string option"
  ir_transport :: "string option"
  ir_credentials :: "string option"
  ir_private_connection :: "string option"
  ir_capability :: string
  ir_tools :: "string list"
  ir_context :: js_object
  ir_write_actions :: "string list"
  ir_auth_mode :: "string option"
  ir_receive_path :: "string option"
  ir_inbound_auth :: "string option"
  ir_allowlist :: "string list"
  ir_trigger :: "string option"
  ir_tier :: tier
  ir_created_by :: "string option"
  ir_enabled :: bool

record registry =
  rg_rows :: "integration_row list"
  rg_next :: int
  rg_audit :: "audit list"

definition merge_integration :: "integration_row \<Rightarrow> integration_row \<Rightarrow> integration_row" where
  "merge_integration x r = r\<lparr>ir_kind := ir_kind x, ir_direction := ir_direction x, ir_description := ir_description x,
     ir_endpoint := ir_endpoint x, ir_transport := ir_transport x, ir_credentials := ir_credentials x,
     ir_private_connection := ir_private_connection x, ir_capability := ir_capability x, ir_tools := ir_tools x,
     ir_context := ir_context x, ir_write_actions := ir_write_actions x, ir_auth_mode := ir_auth_mode x,
     ir_receive_path := ir_receive_path x, ir_inbound_auth := ir_inbound_auth x, ir_allowlist := ir_allowlist x,
     ir_trigger := ir_trigger x, ir_enabled := False\<rparr>"

definition upsert_integration :: "integration_row \<Rightarrow> registry \<Rightarrow> (string + int) \<times> registry" where
  "upsert_integration i g =
     (if ir_kind i = ''custom_mcp'' then (Inl ''custom_mcp is retired; use a curated integration'', g)
      else let fresh = i\<lparr>ir_id := rg_next g, ir_enabled := False\<rparr>; g' = g\<lparr>rg_next := rg_next g + 1\<rparr> in
        case upsert_by ir_name ir_tier ir_id fresh (merge_integration fresh) (rg_rows g) of
          None \<Rightarrow> (Inl ''name conflicts with a built-in integration'', g')
        | Some (rows, n) \<Rightarrow> (Inr n, g'\<lparr>rg_rows := rows\<rparr>))"

definition list_integrations :: "(string \<Rightarrow> string \<Rightarrow> bool) \<Rightarrow> registry \<Rightarrow> integration_row list" where
  "list_integrations le g = sort_le (\<lambda>a b. le (ir_name a) (ir_name b)) (rg_rows g)"

definition switchable :: "int \<Rightarrow> bool \<Rightarrow> integration_row \<Rightarrow> bool" where
  "switchable n on r \<longleftrightarrow> ir_id r = n \<and> ir_tier r = Custom \<and> (\<not> on \<or> ir_kind r \<noteq> ''custom_mcp'')"

definition set_integration_enabled :: "int \<Rightarrow> bool \<Rightarrow> registry \<Rightarrow> bool \<times> registry" where
  "set_integration_enabled n on g =
     (list_ex (switchable n on) (rg_rows g),
      g\<lparr>rg_rows := map (\<lambda>r. if switchable n on r then r\<lparr>ir_enabled := on\<rparr> else r) (rg_rows g)\<rparr>)"

text \<open>\<open>db\<close>: none without Aurora or when the query throws.\<close>

definition egress_writer :: "string \<Rightarrow> integration_row \<Rightarrow> bool" where
  "egress_writer kind r \<longleftrightarrow> ir_kind r = kind \<and> ir_direction r = ''egress'' \<and> ir_capability r = ''read_write'' \<and> ir_enabled r"

definition get_egress_write_allowlist :: "string \<Rightarrow> registry option \<Rightarrow> string list" where
  "get_egress_write_allowlist kind db = (case db of
      None \<Rightarrow> []
    | Some g \<Rightarrow> (case sort_le (\<lambda>a b. ir_id a \<le> ir_id b) (filter (egress_writer kind) (rg_rows g)) of
        [] \<Rightarrow> [] | r # _ \<Rightarrow> ir_allowlist r))"

definition in_space :: "string \<Rightarrow> agent_space list \<Rightarrow> integration_row \<Rightarrow> bool" where
  "in_space acct spaces r \<longleftrightarrow>
     \<not> list_ex (\<lambda>s. sp_account s = acct) spaces \<or>
     list_ex (\<lambda>s. sp_account s = acct \<and> ir_id r \<in> set (sp_integrations s)) spaces"

definition get_enabled_integrations ::
  "(string \<Rightarrow> string \<Rightarrow> bool) \<Rightarrow> string \<Rightarrow> (registry \<times> agent_space list) option \<Rightarrow> integration_row list" where
  "get_enabled_integrations le acct db = (case db of
      None \<Rightarrow> []
    | Some (g, spaces) \<Rightarrow> sort_le (\<lambda>a b. le (ir_name a) (ir_name b))
        (filter (\<lambda>r. ir_enabled r \<and> ir_kind r \<noteq> ''custom_mcp'' \<and> in_space acct spaces r) (rg_rows g)))"

section \<open>The handlers\<close>

record integration_request =
  iq_user :: "user option"
  iq_admin :: bool
  iq_aurora :: "string option"
  iq_account :: string
  iq_spaces :: "agent_space list option"
  iq_body :: "body_error + js"
  iq_random :: string
  iq_stored :: "string + unit"

datatype integration_reply =
    I_Unauthenticated
  | I_Admin_Required
  | I_No_Aurora
  | I_Body_Over_Limit
  | I_Bad_Json
  | I_Not_An_Object
  | I_Invalid "string list"
  | I_Endpoint_Rejected endpoint_error
  | I_Conflict string
  | I_Registered int "string option"
  | I_Id_Required
  | I_Not_Switchable
  | I_Switched
  | I_Unknown_Op
  | I_Listed "integration_row list"

definition integration_gate :: "integration_request \<Rightarrow> integration_reply + user" where
  "integration_gate q = (case iq_user q of
      None \<Rightarrow> Inl I_Unauthenticated
    | Some u \<Rightarrow> if \<not> iq_admin q then Inl I_Admin_Required
        else if \<not> present (iq_aurora q) then Inl I_No_Aurora else Inr u)"

definition object_body :: "integration_request \<Rightarrow> integration_reply + js" where
  "object_body q = (case iq_body q of
      Inl Body_Too_Large \<Rightarrow> Inl I_Body_Over_Limit
    | Inl Syntax_Error \<Rightarrow> Inl I_Bad_Json
    | Inr b \<Rightarrow> if plain_object b then Inr b else Inl I_Not_An_Object)"

definition get_allow_private :: "string \<Rightarrow> agent_space list option \<Rightarrow> bool" where
  "get_allow_private acct db = (case db of
      None \<Rightarrow> False
    | Some spaces \<Rightarrow> (case find (\<lambda>s. sp_account s = acct) spaces of None \<Rightarrow> False | Some s \<Rightarrow> sp_private s))"

definition text_if :: "js \<Rightarrow> string option" where
  "text_if v = (if truthy v then Some (to_string v) else None)"

definition strings_or_none :: "js \<Rightarrow> string list" where
  "strings_or_none v = map to_string (as_array v)"

definition row_of_body :: "js \<Rightarrow> string option \<Rightarrow> user \<Rightarrow> integration_row" where
  "row_of_body b receive u =
     \<lparr>ir_id = 0, ir_name = to_string (attr b ''name''), ir_kind = to_string (attr b ''kind''),
      ir_direction = to_string (attr b ''direction''),
      ir_description = (case text_if (attr b ''description'') of None \<Rightarrow> [] | Some d \<Rightarrow> d),
      ir_endpoint = text_if (attr b ''endpoint''), ir_transport = text_if (attr b ''transport''),
      ir_credentials = text_if (attr b ''credentialsRef''), ir_private_connection = text_if (attr b ''privateConnectionRef''),
      ir_capability = to_string (coalesce (attr b ''capability'') (JStr ''read'')),
      ir_tools = strings_or_none (attr b ''exposedTools''), ir_context = [],
      ir_write_actions = strings_or_none (attr b ''writeActionRefs''), ir_auth_mode = text_if (attr b ''authMode''),
      ir_receive_path = receive, ir_inbound_auth = text_if (attr b ''inboundAuthRef''),
      ir_allowlist = strings_or_none (attr b ''sourceAllowlist''), ir_trigger = text_if (attr b ''triggerTarget''),
      ir_tier = Custom, ir_created_by = u_email u, ir_enabled = False\<rparr>"

definition log_integration :: "user \<Rightarrow> string \<Rightarrow> int \<Rightarrow> registry \<Rightarrow> registry" where
  "log_integration u act n g = g\<lparr>rg_audit := rg_audit g @
     [\<lparr>au_actor = (case u_email u of Some e \<Rightarrow> e | None \<Rightarrow> u_sub u), au_action = act, au_type = ''integration'', au_object = show_int n\<rparr>]\<rparr>"

definition register :: "integration_request \<Rightarrow> user \<Rightarrow> js \<Rightarrow> string option \<Rightarrow> registry \<Rightarrow> integration_reply \<times> registry" where
  "register q u b receive g = (case iq_stored q of
      Inl e \<Rightarrow> (I_Conflict e, g)
    | Inr _ \<Rightarrow> (case upsert_integration (row_of_body b receive u) g of
        (Inl e, g1) \<Rightarrow> (I_Conflict e, g1)
      | (Inr n, g1) \<Rightarrow> (I_Registered n receive, log_integration u ''upsert'' n g1)))"

definition post_integration ::
  "(string \<Rightarrow> url option) \<Rightarrow> integration_request \<Rightarrow> registry \<Rightarrow> integration_reply \<times> registry" where
  "post_integration parse q g = (case integration_gate q of
      Inl e \<Rightarrow> (e, g)
    | Inr u \<Rightarrow> (case object_body q of
        Inl e \<Rightarrow> (e, g)
      | Inr b \<Rightarrow>
          let errors = validate_integration parse b in
          if errors \<noteq> [] then (I_Invalid errors, g)
          else if attr b ''direction'' = JStr ''egress''
          then (case assert_egress_endpoint_allowed parse (to_string (attr b ''endpoint'')) (get_allow_private (iq_account q) (iq_spaces q)) of
              Inl e \<Rightarrow> (I_Endpoint_Rejected e, g)
            | Inr _ \<Rightarrow> register q u b None g)
          else register q u b (Some (''/api/integrations/ingress/'' @ iq_random q)) g))"

definition put_integration :: "integration_request \<Rightarrow> registry \<Rightarrow> integration_reply \<times> registry" where
  "put_integration q g = (case integration_gate q of
      Inl e \<Rightarrow> (e, g)
    | Inr u \<Rightarrow> (case object_body q of
        Inl e \<Rightarrow> (e, g)
      | Inr b \<Rightarrow>
          if attr b ''op'' = JStr ''enable'' \<or> attr b ''op'' = JStr ''disable''
          then (case attr b ''id'' of
              JNum n \<Rightarrow>
                if n \<le> 0 \<or> 2 ^ 53 \<le> n then (I_Id_Required, g)
                else (case set_integration_enabled n (attr b ''op'' = JStr ''enable'') g of
                    (changed, g1) \<Rightarrow>
                      if \<not> changed then (I_Not_Switchable, g1)
                      else (I_Switched, log_integration u (to_string (attr b ''op'')) n g1))
            | _ \<Rightarrow> (I_Id_Required, g))
          else (I_Unknown_Op, g)))"

definition get_integrations :: "(string \<Rightarrow> string \<Rightarrow> bool) \<Rightarrow> integration_request \<Rightarrow> registry \<Rightarrow> integration_reply" where
  "get_integrations le q g = (case integration_gate q of Inl e \<Rightarrow> e | Inr _ \<Rightarrow> I_Listed (list_integrations le g))"


interpretation integration_rows: named_table ir_name ir_tier ir_id merge_integration
  by unfold_locales (simp_all add: merge_integration_def)

section \<open>What can be registered\<close>

datatype integration_call = Post_Integration integration_request | Put_Integration integration_request

definition registry_step :: "(string \<Rightarrow> url option) \<Rightarrow> integration_call \<Rightarrow> registry \<Rightarrow> registry" where
  "registry_step parse c g = (case c of
      Post_Integration q \<Rightarrow> snd (post_integration parse q g)
    | Put_Integration q \<Rightarrow> snd (put_integration q g))"

definition registry_run :: "(string \<Rightarrow> url option) \<Rightarrow> registry \<Rightarrow> integration_call list \<Rightarrow> registry" where
  "registry_run parse g cs = foldl (\<lambda>g c. registry_step parse c g) g cs"

text \<open>The columns a request sets.\<close>

definition integration_config :: "integration_row \<Rightarrow> integration_row" where
  "integration_config r = r\<lparr>ir_id := 0, ir_created_by := None, ir_enabled := False\<rparr>"

text \<open>An administrator's request that passed the validation and, for an egress, the endpoint guard.\<close>

definition accepted_body :: "(string \<Rightarrow> url option) \<Rightarrow> integration_request \<Rightarrow> js \<Rightarrow> bool" where
  "accepted_body parse q b \<longleftrightarrow> object_body q = Inr b \<and> validate_integration parse b = [] \<and>
     (attr b ''direction'' = JStr ''egress'' \<longrightarrow>
        assert_egress_endpoint_allowed parse (to_string (attr b ''endpoint'')) (get_allow_private (iq_account q) (iq_spaces q)) = Inr ())"

definition configured_by :: "(string \<Rightarrow> url option) \<Rightarrow> integration_call list \<Rightarrow> integration_row \<Rightarrow> bool" where
  "configured_by parse cs r \<longleftrightarrow> (\<exists>q u b receive. Post_Integration q \<in> set cs \<and> integration_gate q = Inr u \<and> accepted_body parse q b \<and>
     integration_config r = integration_config (row_of_body b receive u))"

definition enabled_by :: "integration_call list \<Rightarrow> int \<Rightarrow> bool" where
  "enabled_by cs n \<longleftrightarrow> (\<exists>q u b. Put_Integration q \<in> set cs \<and> integration_gate q = Inr u \<and> object_body q = Inr b \<and>
     attr b ''op'' = JStr ''enable'' \<and> attr b ''id'' = JNum n)"

definition vetted :: "(string \<Rightarrow> url option) \<Rightarrow> integration_call list \<Rightarrow> integration_row \<Rightarrow> bool" where
  "vetted parse cs r \<longleftrightarrow> configured_by parse cs r \<and> (ir_enabled r \<longrightarrow> enabled_by cs (ir_id r))"

definition registry_ok :: "(string \<Rightarrow> url option) \<Rightarrow> integration_row list \<Rightarrow> integration_call list \<Rightarrow> registry \<Rightarrow> bool" where
  "registry_ok parse b0 cs g \<longleftrightarrow> distinct (map ir_name (rg_rows g)) \<and> integration_rows.builtins (rg_rows g) = b0 \<and>
     (\<forall>r\<in>set (rg_rows g). ir_tier r = Custom \<longrightarrow> vetted parse cs r)"

lemma vetted_mono: "vetted parse cs r \<Longrightarrow> set cs \<subseteq> set cs' \<Longrightarrow> vetted parse cs' r"
  unfolding vetted_def configured_by_def enabled_by_def by blast

lemma registry_ok_snoc: "registry_ok parse b0 cs g \<Longrightarrow> registry_ok parse b0 (cs @ [c]) g"
  unfolding registry_ok_def by (auto intro: vetted_mono)

lemma log_integration_rows [simp]: "rg_rows (log_integration u act n g) = rg_rows g"
  by (simp add: log_integration_def)

lemma registry_ok_rows: "rg_rows g' = rg_rows g \<Longrightarrow> registry_ok parse b0 cs g' = registry_ok parse b0 cs g"
  by (simp add: registry_ok_def)

lemma config_merge:
  assumes "ir_name x = ir_name r" "ir_tier x = ir_tier r"
  shows "integration_config (merge_integration x r) = integration_config x"
  using assms by (simp add: integration_config_def merge_integration_def)

lemma registry_ok_upsert:
  assumes ok: "registry_ok parse b0 cs g" and up: "upsert_integration i g = (res, g')"
    and i: "ir_tier i = Custom" "configured_by parse cs i"
  shows "registry_ok parse b0 cs g'"
proof (cases "rg_rows g' = rg_rows g")
  case False
  let ?fresh = "i\<lparr>ir_id := rg_next g, ir_enabled := False\<rparr>"
  have rows: "\<exists>n. integration_rows.upsert ?fresh (rg_rows g) = Some (rg_rows g', n)"
    using up False by (auto simp: upsert_integration_def Let_def split: if_splits option.splits)
  then obtain n where n: "integration_rows.upsert ?fresh (rg_rows g) = Some (rg_rows g', n)" ..
  have conf: "integration_config ?fresh = integration_config i" by (simp add: integration_config_def)
  have d: "distinct (map ir_name (rg_rows g'))"
    using integration_rows.distinct_names [OF n] ok by (simp add: registry_ok_def)
  have b: "integration_rows.builtins (rg_rows g') = b0"
    using integration_rows.builtins_kept [OF n] ok i(1) by (simp add: registry_ok_def)
  have "vetted parse cs r" if r: "r \<in> set (rg_rows g')" "ir_tier r = Custom" for r
  proof (cases "ir_name r = ir_name i")
    case True
    with integration_rows.named_row [OF n r(1)] have
      "r = ?fresh \<or> (\<exists>old. ir_name old = ir_name i \<and> r = merge_integration ?fresh old)" by auto
    with r(2) i(1) have "integration_config r = integration_config i" "\<not> ir_enabled r"
      using conf config_merge [of ?fresh] by (auto simp: merge_integration_def integration_config_def)
    with i(2) show ?thesis unfolding vetted_def configured_by_def by auto
  next
    case False
    from n have "r \<in> set (rg_rows g)"
      by (cases rule: integration_rows.upsert_cases) (use False r(1) in \<open>auto split: if_splits simp: merge_integration_def\<close>)
    with ok r(2) show ?thesis by (simp add: registry_ok_def)
  qed
  with d b show ?thesis by (simp add: registry_ok_def)
qed (use ok registry_ok_rows in metis)

lemma registry_ok_post:
  assumes "registry_ok parse b0 cs g"
  shows "registry_ok parse b0 (cs @ [Post_Integration q]) (snd (post_integration parse q g))"
proof (cases "\<exists>u b receive. integration_gate q = Inr u \<and> accepted_body parse q b \<and> snd (post_integration parse q g) = snd (register q u b receive g)")
  case True
  then obtain u b receive where h: "integration_gate q = Inr u" "accepted_body parse q b"
    "snd (post_integration parse q g) = snd (register q u b receive g)" by blast
  let ?i = "row_of_body b receive u"
  have "configured_by parse (cs @ [Post_Integration q]) ?i" using h(1,2) unfolding configured_by_def by auto
  moreover obtain res g1 where u: "upsert_integration ?i g = (res, g1)" by fastforce
  moreover have "ir_tier ?i = Custom" by (simp add: row_of_body_def)
  ultimately have "registry_ok parse b0 (cs @ [Post_Integration q]) g1"
    using registry_ok_upsert registry_ok_snoc [OF assms] by blast
  moreover have "snd (register q u b receive g) = g \<or> rg_rows (snd (register q u b receive g)) = rg_rows g1"
    using u by (auto simp: register_def split: sum.splits)
  ultimately show ?thesis using registry_ok_snoc [OF assms] registry_ok_rows h(3) by metis
next
  case False
  then have "snd (post_integration parse q g) = g"
    unfolding post_integration_def Let_def accepted_body_def by (auto split: sum.splits if_splits)
  with registry_ok_snoc [OF assms] show ?thesis by simp
qed

lemma registry_ok_switch:
  assumes "registry_ok parse b0 cs g" "on \<Longrightarrow> enabled_by cs n"
  shows "registry_ok parse b0 cs (snd (set_integration_enabled n on g))"
proof -
  let ?f = "\<lambda>r. if switchable n on r then r\<lparr>ir_enabled := on\<rparr> else r"
  have attrs: "ir_name (?f r) = ir_name r" "ir_tier (?f r) = ir_tier r" for r by simp_all
  have "integration_rows.builtins (map ?f rs) = integration_rows.builtins rs" for rs
    by (induction rs) (auto simp: switchable_def)
  moreover have "vetted parse cs (r\<lparr>ir_enabled := on\<rparr>)"
    if "r \<in> set (rg_rows g)" "ir_tier r = Custom" "switchable n on r" for r
    using that assms by (auto simp: registry_ok_def vetted_def configured_by_def integration_config_def switchable_def)
  ultimately show ?thesis
    using assms(1) by (auto simp: registry_ok_def set_integration_enabled_def comp_def attrs)
qed

lemma registry_ok_put:
  assumes "registry_ok parse b0 cs g"
  shows "registry_ok parse b0 (cs @ [Put_Integration q]) (snd (put_integration q g))"
proof (cases "\<exists>u b n on. integration_gate q = Inr u \<and> object_body q = Inr b \<and> attr b ''id'' = JNum n \<and>
    (on \<longrightarrow> attr b ''op'' = JStr ''enable'') \<and> rg_rows (snd (put_integration q g)) = rg_rows (snd (set_integration_enabled n on g))")
  case True
  then obtain u b n on where h: "integration_gate q = Inr u" "object_body q = Inr b" "attr b ''id'' = JNum n"
    "on \<longrightarrow> attr b ''op'' = JStr ''enable''" "rg_rows (snd (put_integration q g)) = rg_rows (snd (set_integration_enabled n on g))" by blast
  then have "on \<Longrightarrow> enabled_by (cs @ [Put_Integration q]) n" unfolding enabled_by_def by auto
  from registry_ok_switch [OF registry_ok_snoc [OF assms] this] registry_ok_rows [OF h(5)] show ?thesis by simp
next
  case False
  have "snd (put_integration q g) = g"
  proof (rule ccontr)
    assume ne: "snd (put_integration q g) \<noteq> g"
    then obtain u b n where h: "integration_gate q = Inr u" "object_body q = Inr b" "attr b ''id'' = JNum n"
      by (auto simp: put_integration_def split: sum.splits if_splits js.splits)
    with ne have "rg_rows (snd (put_integration q g)) = rg_rows (snd (set_integration_enabled n (attr b ''op'' = JStr ''enable'') g))"
      by (auto simp: put_integration_def split: if_splits prod.splits)
    with h False show False by blast
  qed
  with registry_ok_snoc [OF assms] show ?thesis by simp
qed

lemma registry_run_ok:
  assumes "\<forall>r\<in>set (rg_rows g0). ir_tier r = Builtin" "distinct (map ir_name (rg_rows g0))"
  shows "registry_ok parse (rg_rows g0) cs (registry_run parse g0 cs)"
proof (induction cs rule: rev_induct)
  case Nil
  have "integration_rows.builtins (rg_rows g0) = rg_rows g0" using assms(1) by (simp add: filter_id_conv)
  with assms show ?case by (auto simp: registry_ok_def registry_run_def)
next
  case (snoc c cs)
  then show ?case
    by (cases c) (simp_all add: registry_run_def registry_step_def registry_ok_post registry_ok_put)
qed

lemma accepted_body_checks:
  assumes "accepted_body parse q b"
  shows "attr b ''kind'' \<noteq> JStr ''custom_mcp''" "listed INTEGRATION_DIRECTIONS (attr b ''direction'')"
    "attr b ''direction'' = JStr ''egress'' \<Longrightarrow> string_with (is_https_url parse) (attr b ''endpoint'')"
    "listed INTEGRATION_KINDS_EGRESS (attr b ''kind'') \<or> listed INTEGRATION_KINDS_INGRESS (attr b ''kind'')"
  using assms
  by (auto simp: accepted_body_def validate_integration_def integration_checks_def Let_def filter_empty_conv listed_def
      INTEGRATION_DIRECTIONS_def split: if_splits js.splits)


definition slack_url :: url where
  "slack_url = \<lparr>u_protocol = ''https:'', u_hostname = ''slack.com'', u_username = [], u_password = [], u_search = [], u_hash = []\<rparr>"

definition slack_request :: "js \<Rightarrow> integration_request" where
  "slack_request b = \<lparr>iq_user = Some \<lparr>u_sub = ''s'', u_email = None, u_groups = None, u_iat = None\<rparr>, iq_admin = True,
     iq_aurora = Some ''db'', iq_account = ''self'', iq_spaces = Some [], iq_body = Inr b, iq_random = [], iq_stored = Inr ()\<rparr>"

definition slack_calls :: "integration_call list" where
  "slack_calls =
    [Post_Integration (slack_request (JObj [(''name'', JStr ''slack''), (''kind'', JStr ''slack''), (''direction'', JStr ''egress''),
       (''capability'', JStr ''read_write''), (''endpoint'', JStr ''https://slack.com''), (''transport'', JStr ''api_key''),
       (''sourceAllowlist'', JArr [JStr ''#ops''])])),
     Put_Integration (slack_request (JObj [(''op'', JStr ''enable''), (''id'', JNum 1)]))]"

definition empty_registry :: registry where
  "empty_registry = \<lparr>rg_rows = [], rg_next = 1, rg_audit = []\<rparr>"

lemma slack_rows:
  "map ir_enabled (rg_rows (registry_run (\<lambda>_. Some slack_url) empty_registry slack_calls)) = [True]"
  "map ir_tier (rg_rows (registry_run (\<lambda>_. Some slack_url) empty_registry slack_calls)) = [Custom]"
  "map ir_id (rg_rows (registry_run (\<lambda>_. Some slack_url) empty_registry slack_calls)) = [1]"
  by code_simp+


end
