(* ===== verification/Remediation.thy ===== *)
theory Remediation
  imports Egress_Dlp Integrations
begin

text \<open>
  Actions under four eyes: the data layer \<^verbatim>\<open>web/lib/remediation.ts\<close> and the handlers of
  \<^verbatim>\<open>web/app/api/actions/route.ts\<close> (a plan is created, without effect) and
  \<^verbatim>\<open>web/app/api/actions/[id]/route.ts\<close> (it is canceled, or approved and enqueued). The parameter
  store, generated ids, the clock and how the enqueue ends are arguments. An execution is split at
  its awaits - the checks, the claim of the plan, the enqueue - so that requests interleave.
\<close>

section \<open>The tables\<close>

record action_row =
  ac_name :: string
  ac_description :: string
  ac_executor :: string
  ac_target :: string
  ac_approval :: string
  ac_inputs :: "string list"
  ac_enabled :: bool

datatype plan_status = Planned | Approved | Executing | Canceled

record action_plan =
  pl_id :: string
  pl_action :: string
  pl_token :: string
  pl_inputs :: js
  pl_dry_run :: js_object
  pl_rollback :: js_object
  pl_status :: plan_status
  pl_created_by :: string
  pl_approved_by :: "string option"
  pl_job :: "string option"
  pl_expires :: int

record action_job =
  aj_id :: string
  aj_plan :: string
  aj_payload :: js_object

record action_message =
  am_job :: string
  am_action :: string
  am_executor :: string
  am_plan :: string
  am_payload :: js_object

record rem_audit =
  ra_plan :: "string option"
  ra_job :: "string option"
  ra_action :: "string option"
  ra_phase :: string
  ra_principal :: string
  ra_decision :: "string option"
  ra_detail :: js

record rem_store =
  rm_catalog :: "action_row list"
  rm_plans :: "action_plan list"
  rm_jobs :: "action_job list"
  rm_sent :: "action_message list"
  rm_audit :: "rem_audit list"

record rem_env =
  re_aurora :: "string option"
  re_remediation :: "string option"
  re_integrations_write :: "string option"
  re_mutating_param :: "string option"
  re_integrations_param :: "string option"
  re_queue :: "string option"

section \<open>The data layer\<close>

definition list_catalog :: "(string \<Rightarrow> string \<Rightarrow> bool) \<Rightarrow> rem_env \<Rightarrow> rem_store \<Rightarrow> action_row list" where
  "list_catalog le env st =
     (if \<not> present (re_aurora env) then [] else sort_le (\<lambda>a b. le (ac_name a) (ac_name b)) (rm_catalog st))"

definition get_action :: "(string \<Rightarrow> string \<Rightarrow> bool) \<Rightarrow> rem_env \<Rightarrow> string \<Rightarrow> rem_store \<Rightarrow> action_row option" where
  "get_action le env n st = find (\<lambda>a. ac_name a = n) (list_catalog le env st)"

definition PLAN_LIFETIME_MS :: int where "PLAN_LIFETIME_MS = 5 * 60000"

definition new_plan :: "string \<Rightarrow> string \<Rightarrow> string \<Rightarrow> js \<Rightarrow> string \<Rightarrow> js_object \<Rightarrow> js_object \<Rightarrow> int \<Rightarrow> action_plan" where
  "new_plan n token act inputs creator dry_run rollback now =
     \<lparr>pl_id = n, pl_action = act, pl_token = token, pl_inputs = inputs, pl_dry_run = dry_run, pl_rollback = rollback,
      pl_status = Planned, pl_created_by = creator, pl_approved_by = None, pl_job = None, pl_expires = now + PLAN_LIFETIME_MS\<rparr>"

definition create_plan :: "action_plan \<Rightarrow> rem_store \<Rightarrow> rem_store" where
  "create_plan p st = st\<lparr>rm_plans := rm_plans st @ [p]\<rparr>"

text \<open>A uuid column compares without regard to case; generated ids are lower case.\<close>

definition get_plan :: "string \<Rightarrow> rem_store \<Rightarrow> action_plan option" where
  "get_plan n st = find (\<lambda>p. pl_id p = lower n) (rm_plans st)"

definition expired :: "int \<Rightarrow> action_plan \<Rightarrow> bool" where
  "expired now p \<longleftrightarrow> pl_expires p < now"

definition approvable :: "string \<Rightarrow> string list \<Rightarrow> int \<Rightarrow> action_plan \<Rightarrow> bool" where
  "approvable n keys now p \<longleftrightarrow> pl_id p = lower n \<and> pl_status p = Planned \<and> now < pl_expires p \<and> pl_created_by p \<notin> set keys"

definition approve :: "string \<Rightarrow> string \<Rightarrow> action_plan \<Rightarrow> action_plan" where
  "approve by job p = p\<lparr>pl_status := Executing, pl_approved_by := Some by, pl_job := Some job\<rparr>"

definition set_approved_and_executing ::
  "string \<Rightarrow> string \<Rightarrow> string \<Rightarrow> string list \<Rightarrow> int \<Rightarrow> rem_store \<Rightarrow> bool \<times> rem_store" where
  "set_approved_and_executing n by job keys now st =
     (list_ex (approvable n keys now) (rm_plans st),
      st\<lparr>rm_plans := map (\<lambda>p. if approvable n keys now p then approve by job p else p) (rm_plans st)\<rparr>)"

definition cancel_plan :: "string \<Rightarrow> rem_store \<Rightarrow> rem_store" where
  "cancel_plan n st = st\<lparr>rm_plans := map (\<lambda>p.
     if pl_id p = lower n \<and> (pl_status p = Planned \<or> pl_status p = Approved) then p\<lparr>pl_status := Canceled\<rparr> else p) (rm_plans st)\<rparr>"

definition record_audit :: "rem_env \<Rightarrow> rem_audit \<Rightarrow> rem_store \<Rightarrow> rem_store" where
  "record_audit env a st = (if \<not> present (re_aurora env) then st else st\<lparr>rm_audit := rm_audit st @ [a]\<rparr>)"

section \<open>Requests\<close>

datatype exec_end = Exec_Ok | Exec_Insert_Fails | Exec_Send_Fails

record action_request =
  aq_user :: "user option"
  aq_admin :: bool
  aq_id :: string
  aq_body :: "body_error + js"
  aq_ssm :: "string \<Rightarrow> string option option"
  aq_registry :: "registry option"
  aq_uuids :: "string \<times> string"
  aq_iso :: string
  aq_end :: exec_end

datatype action_reply =
    A_Admin_Required
  | A_Bad_Id
  | A_Too_Large
  | A_Bad_Json
  | A_Unknown_Action
  | A_Action_Disabled
  | A_Missing_Input string
  | A_Channel string
  | A_Planned action_plan
  | A_Catalog "action_row list"
  | A_Plan "action_plan \<times> bool"
  | A_No_Plan
  | A_Bad_Op
  | A_Canceled
  | A_Flag_Off
  | A_Kill_Switch
  | A_Expired
  | A_Self_Approval
  | A_Unprovable
  | A_Not_Approvable
  | A_Executing string string
  | A_Error

definition principal :: "user \<Rightarrow> string" where
  "principal u = (case u_email u of Some e \<Rightarrow> e | None \<Rightarrow> u_sub u)"

definition action_admin :: "action_request \<Rightarrow> user option" where
  "action_admin q = (if aq_admin q then aq_user q else None)"

definition uuid_text :: "string \<Rightarrow> bool" where
  "uuid_text s \<longleftrightarrow> map length (split_on (CHR ''-'') s) = [8, 4, 4, 4, 12] \<and> list_all (list_all hex_char) (split_on (CHR ''-'') s)"

definition is_external :: "action_row option \<Rightarrow> bool" where
  "is_external a \<longleftrightarrow> (case a of None \<Rightarrow> False | Some r \<Rightarrow> starts_with ''external:'' (ac_target r))"

section \<open>Planning\<close>

definition get_actions :: "(string \<Rightarrow> string \<Rightarrow> bool) \<Rightarrow> rem_env \<Rightarrow> action_request \<Rightarrow> rem_store \<Rightarrow> action_reply" where
  "get_actions le env q st = (case action_admin q of None \<Rightarrow> A_Admin_Required | Some _ \<Rightarrow> A_Catalog (list_catalog le env st))"

definition plan_inputs :: "js \<Rightarrow> js" where
  "plan_inputs body = (case attr body ''inputs'' of JObj fs \<Rightarrow> JObj fs | JArr vs \<Rightarrow> JArr vs | _ \<Rightarrow> JObj [])"

definition target_kind :: "action_row \<Rightarrow> string" where
  "target_kind a = (case split_on (CHR '':'') (ac_target a) of _ # k # _ \<Rightarrow> k | _ \<Rightarrow> [])"

text \<open>The inputs as they are stored: for an external write, to an allowed channel and redacted.\<close>

definition outgoing_inputs :: "action_request \<Rightarrow> action_row \<Rightarrow> js \<Rightarrow> string + js" where
  "outgoing_inputs q a inputs =
     (if is_external (Some a)
      then (case assert_channel_allowed (to_string (coalesce (attr inputs ''channel'') (JStr [])))
                (get_egress_write_allowlist (target_kind a) (aq_registry q)) of
          Inl e \<Rightarrow> Inl e | Inr _ \<Rightarrow> Inr (fst (redact_egress inputs)))
      else Inr inputs)"

definition plan_dry_run :: "action_row \<Rightarrow> js \<Rightarrow> js_object" where
  "plan_dry_run a inputs = [(''mode'', JStr ''plan''), (''action'', JStr (ac_name a)), (''inputs'', inputs), (''mutates'', JBool False)]"

definition plan_rollback :: "action_row \<Rightarrow> string \<Rightarrow> js \<Rightarrow> js_object" where
  "plan_rollback a stamp inputs = [(''action'', JStr (ac_name a)), (''captured_at'', JStr stamp), (''inputs'', inputs)]"

definition plan_of :: "action_request \<Rightarrow> user \<Rightarrow> action_row \<Rightarrow> js \<Rightarrow> int \<Rightarrow> action_plan" where
  "plan_of q u a inputs now = new_plan (fst (aq_uuids q)) (snd (aq_uuids q)) (ac_name a) inputs (u_sub u)
     (plan_dry_run a inputs) (plan_rollback a (aq_iso q) inputs) now"

definition check_plan :: "action_request \<Rightarrow> action_row option \<Rightarrow> js \<Rightarrow> action_reply + action_row \<times> js" where
  "check_plan q action body = (case action of
      None \<Rightarrow> Inl A_Unknown_Action
    | Some a \<Rightarrow>
        if \<not> ac_enabled a then Inl A_Action_Disabled
        else (case find (\<lambda>k. \<not> has_member k (plan_inputs body)) (ac_inputs a) of
            Some k \<Rightarrow> Inl (A_Missing_Input k)
          | None \<Rightarrow> (case outgoing_inputs q a (plan_inputs body) of Inl e \<Rightarrow> Inl (A_Channel e) | Inr i \<Rightarrow> Inr (a, i))))"

definition post_plan :: "(string \<Rightarrow> string \<Rightarrow> bool) \<Rightarrow> rem_env \<Rightarrow> action_request \<Rightarrow> int \<Rightarrow> rem_store \<Rightarrow> action_reply \<times> rem_store" where
  "post_plan le env q now st = (case action_admin q of
      None \<Rightarrow> (A_Admin_Required, st)
    | Some u \<Rightarrow> (case aq_body q of
        Inl Body_Too_Large \<Rightarrow> (A_Too_Large, st)
      | Inl Syntax_Error \<Rightarrow> (A_Bad_Json, st)
      | Inr body \<Rightarrow>
          (case check_plan q (get_action le env (to_string (coalesce (attr body ''action'') (JStr []))) st) body of
             Inl r \<Rightarrow> (r, st)
           | Inr (a, inputs) \<Rightarrow>
               let p = plan_of q u a inputs now in
               (A_Planned p, record_audit env
                  \<lparr>ra_plan = Some (pl_id p), ra_job = None, ra_action = Some (ac_name a), ra_phase = ''plan'',
                   ra_principal = principal u, ra_decision = None, ra_detail = JObj [(''inputs'', inputs)]\<rparr> (create_plan p st)))))"

section \<open>Execution\<close>

definition kill_switch_on :: "(string \<Rightarrow> string option option) \<Rightarrow> string option \<Rightarrow> bool" where
  "kill_switch_on ssm name \<longleftrightarrow> (if \<not> present name then False else (case ssm (the name) of
      None \<Rightarrow> False
    | Some v \<Rightarrow> lower (case v of None \<Rightarrow> [] | Some s \<Rightarrow> s) = ''true''))"

definition plane_flag :: "rem_env \<Rightarrow> bool \<Rightarrow> string option" where
  "plane_flag env external = (if external then re_integrations_write env else re_remediation env)"

definition plane_param :: "rem_env \<Rightarrow> bool \<Rightarrow> string option" where
  "plane_param env external = (if external then re_integrations_param env else re_mutating_param env)"

text \<open>What the checks of a request end in: an answer and its audit, the cancellation, or a ticket to claim the plan.\<close>

record ticket =
  tk_user :: user
  tk_plan :: action_plan
  tk_action :: action_row
  tk_external :: bool

datatype checked = Answer action_reply "rem_audit list" | Cancel user | Go ticket

definition exec_audit :: "action_request \<Rightarrow> user \<Rightarrow> string \<Rightarrow> string \<Rightarrow> rem_audit" where
  "exec_audit q u phase d = \<lparr>ra_plan = Some (lower (aq_id q)), ra_job = None, ra_action = None, ra_phase = phase,
     ra_principal = principal u, ra_decision = Some d, ra_detail = JObj []\<rparr>"

definition hard_gates :: "rem_env \<Rightarrow> action_request \<Rightarrow> int \<Rightarrow> user \<Rightarrow> action_plan \<Rightarrow> action_row option \<Rightarrow> checked" where
  "hard_gates env q now u p action =
     (let external = is_external action; refuse = (\<lambda>r d. Answer r [exec_audit q u ''execute'' d]) in
      if plane_flag env external \<noteq> Some ''true'' then refuse A_Flag_Off ''flag_off''
      else if \<not> kill_switch_on (aq_ssm q) (plane_param env external) then refuse A_Kill_Switch ''killswitch_blocked''
      else if expired now p then Answer A_Expired []
      else if pl_created_by p \<in> set (identity_keys u) then refuse A_Self_Approval ''denied_self_approval''
      else if CHR 0x40 \<in> set (pl_created_by p) then refuse A_Unprovable ''denied_unprovable_4eyes''
      else (case action of
          None \<Rightarrow> Answer A_Action_Disabled []
        | Some a \<Rightarrow> if \<not> ac_enabled a then Answer A_Action_Disabled []
            else Go \<lparr>tk_user = u, tk_plan = p, tk_action = a, tk_external = external\<rparr>))"

definition check_action :: "(string \<Rightarrow> string \<Rightarrow> bool) \<Rightarrow> rem_env \<Rightarrow> action_request \<Rightarrow> int \<Rightarrow> rem_store \<Rightarrow> checked" where
  "check_action le env q now st = (case action_admin q of
      None \<Rightarrow> Answer A_Admin_Required []
    | Some u \<Rightarrow>
        if \<not> uuid_text (aq_id q) then Answer A_Bad_Id []
        else (case aq_body q of
            Inl Body_Too_Large \<Rightarrow> Answer A_Too_Large []
          | Inl Syntax_Error \<Rightarrow> Answer A_Bad_Json []
          | Inr body \<Rightarrow> (case get_plan (aq_id q) st of
              None \<Rightarrow> Answer A_No_Plan []
            | Some p \<Rightarrow>
                if attr body ''op'' = JStr ''cancel'' then Cancel u
                else if attr body ''op'' \<noteq> JStr ''execute'' then Answer A_Bad_Op []
                else hard_gates env q now u p (get_action le env (pl_action p) st))))"

definition audit_all :: "rem_env \<Rightarrow> rem_audit list \<Rightarrow> rem_store \<Rightarrow> rem_store" where
  "audit_all env aus st = foldl (\<lambda>st a. record_audit env a st) st aus"

definition cancel_action :: "rem_env \<Rightarrow> action_request \<Rightarrow> user \<Rightarrow> rem_store \<Rightarrow> rem_store" where
  "cancel_action env q u st = record_audit env (exec_audit q u ''approve'' ''canceled'') (cancel_plan (aq_id q) st)"

definition job_id :: "action_request \<Rightarrow> string" where
  "job_id q = fst (aq_uuids q)"

definition claim_plan :: "action_request \<Rightarrow> ticket \<Rightarrow> int \<Rightarrow> rem_store \<Rightarrow> bool \<times> rem_store" where
  "claim_plan q t now st =
     set_approved_and_executing (aq_id q) (principal (tk_user t)) (job_id q) (identity_keys (tk_user t)) now st"

definition raw_inputs :: "ticket \<Rightarrow> js" where
  "raw_inputs t = coalesce (field (pl_dry_run (tk_plan t)) ''inputs'') (JObj [])"

definition exec_inputs :: "ticket \<Rightarrow> js" where
  "exec_inputs t = (if tk_external t then fst (redact_egress (raw_inputs t)) else raw_inputs t)"

definition own_fields :: "js \<Rightarrow> js_object" where
  "own_fields v = (case v of JObj fs \<Rightarrow> fs | JArr vs \<Rightarrow> zip (map show_nat [0..<length vs]) vs | _ \<Rightarrow> [])"

definition action_job_of :: "action_request \<Rightarrow> ticket \<Rightarrow> action_job" where
  "action_job_of q t = \<lparr>aj_id = job_id q, aj_plan = lower (aq_id q),
     aj_payload = spread (spread [(''rollback_plan'', JObj (pl_rollback (tk_plan t)))] (pl_dry_run (tk_plan t))) [(''inputs'', exec_inputs t)]\<rparr>"

definition action_message_of :: "action_request \<Rightarrow> ticket \<Rightarrow> action_message" where
  "action_message_of q t = \<lparr>am_job = job_id q, am_action = pl_action (tk_plan t), am_executor = ac_executor (tk_action t),
     am_plan = aq_id q, am_payload = spread [(''rollback_plan'', JObj (pl_rollback (tk_plan t)))] (own_fields (exec_inputs t))\<rparr>"

definition enqueue_action :: "rem_env \<Rightarrow> action_request \<Rightarrow> ticket \<Rightarrow> rem_store \<Rightarrow> action_reply \<times> rem_store" where
  "enqueue_action env q t st =
     (if aq_end q = Exec_Insert_Fails then (A_Error, st)
      else let st1 = st\<lparr>rm_jobs := rm_jobs st @ [action_job_of q t]\<rparr> in
        if present (re_queue env) \<and> aq_end q = Exec_Send_Fails then (A_Error, st1)
        else let st2 = (if present (re_queue env) then st1\<lparr>rm_sent := rm_sent st1 @ [action_message_of q t]\<rparr> else st1) in
          (A_Executing (job_id q) (principal (tk_user t)), record_audit env
             \<lparr>ra_plan = Some (lower (aq_id q)), ra_job = Some (job_id q), ra_action = Some (pl_action (tk_plan t)), ra_phase = ''execute'',
              ra_principal = principal (tk_user t), ra_decision = Some ''approved'', ra_detail = JObj []\<rparr> st2))"

definition post_action :: "(string \<Rightarrow> string \<Rightarrow> bool) \<Rightarrow> rem_env \<Rightarrow> action_request \<Rightarrow> int \<Rightarrow> rem_store \<Rightarrow> action_reply \<times> rem_store" where
  "post_action le env q now st = (case check_action le env q now st of
      Answer r aus \<Rightarrow> (r, audit_all env aus st)
    | Cancel u \<Rightarrow> (A_Canceled, cancel_action env q u st)
    | Go t \<Rightarrow> (case claim_plan q t now st of
        (ok, st1) \<Rightarrow> if \<not> ok then (A_Not_Approvable, st1) else enqueue_action env q t st1))"

definition get_plan_action :: "action_request \<Rightarrow> int \<Rightarrow> rem_store \<Rightarrow> action_reply" where
  "get_plan_action q now st = (case action_admin q of
      None \<Rightarrow> A_Admin_Required
    | Some _ \<Rightarrow> if \<not> uuid_text (aq_id q) then A_Bad_Id
        else (case get_plan (aq_id q) st of None \<Rightarrow> A_No_Plan | Some p \<Rightarrow> A_Plan (p, expired now p)))"


section \<open>Interleaved requests\<close>

text \<open>
  Tickets of requests that passed their checks, and of requests that hold their plan and have not
  enqueued yet. The approvals granted are kept with their time. The catalog changes at any time.
\<close>

record rem_world =
  rw_store :: rem_store
  rw_checked :: "(action_request \<times> ticket) list"
  rw_claimed :: "(action_request \<times> ticket) list"
  rw_approvals :: "(action_request \<times> ticket \<times> int) list"

inductive rem_step :: "(string \<Rightarrow> string \<Rightarrow> bool) \<Rightarrow> rem_env \<Rightarrow> rem_world \<Rightarrow> rem_world \<Rightarrow> bool" for le env where
  plan: "fst (aq_uuids q) \<notin> pl_id ` set (rm_plans (rw_store w)) \<Longrightarrow>
    rem_step le env w (w\<lparr>rw_store := snd (post_plan le env q now (rw_store w))\<rparr>)"
| answer: "check_action le env q now (rw_store w) = Answer r aus \<Longrightarrow>
    rem_step le env w (w\<lparr>rw_store := audit_all env aus (rw_store w)\<rparr>)"
| cancel: "check_action le env q now (rw_store w) = Cancel u \<Longrightarrow>
    rem_step le env w (w\<lparr>rw_store := cancel_action env q u (rw_store w)\<rparr>)"
| check: "check_action le env q now (rw_store w) = Go t \<Longrightarrow>
    rem_step le env w (w\<lparr>rw_checked := (q, t) # rw_checked w\<rparr>)"
| claim: "(q, t) \<in> set (rw_checked w) \<Longrightarrow> claim_plan q t now (rw_store w) = (True, st) \<Longrightarrow>
    rem_step le env w (w\<lparr>rw_store := st, rw_checked := remove1 (q, t) (rw_checked w),
      rw_claimed := (q, t) # rw_claimed w, rw_approvals := (q, t, now) # rw_approvals w\<rparr>)"
| refuse: "(q, t) \<in> set (rw_checked w) \<Longrightarrow> claim_plan q t now (rw_store w) = (False, st) \<Longrightarrow>
    rem_step le env w (w\<lparr>rw_store := st, rw_checked := remove1 (q, t) (rw_checked w)\<rparr>)"
| enqueue: "(q, t) \<in> set (rw_claimed w) \<Longrightarrow>
    rem_step le env w (w\<lparr>rw_store := snd (enqueue_action env q t (rw_store w)), rw_claimed := remove1 (q, t) (rw_claimed w)\<rparr>)"
| catalog: "rem_step le env w (w\<lparr>rw_store := (rw_store w)\<lparr>rm_catalog := c\<rparr>\<rparr>)"

definition rem_start :: "action_row list \<Rightarrow> rem_world" where
  "rem_start catalog = \<lparr>rw_store = \<lparr>rm_catalog = catalog, rm_plans = [], rm_jobs = [], rm_sent = [], rm_audit = []\<rparr>,
     rw_checked = [], rw_claimed = [], rw_approvals = []\<rparr>"

definition rem_reachable :: "(string \<Rightarrow> string \<Rightarrow> bool) \<Rightarrow> rem_env \<Rightarrow> rem_world \<Rightarrow> bool" where
  "rem_reachable le env w \<longleftrightarrow> (\<exists>c. (rem_step le env)\<^sup>*\<^sup>* (rem_start c) w)"

subsection \<open>The whole handler is a run of steps\<close>

lemma post_action_is_a_run:
  "\<exists>aps. (rem_step le env)\<^sup>*\<^sup>* w (w\<lparr>rw_store := snd (post_action le env q now (rw_store w)), rw_approvals := aps\<rparr>)"
proof (cases "check_action le env q now (rw_store w)")
  case (Answer r aus)
  from r_into_rtranclp [of "rem_step le env", OF answer [OF Answer]] show ?thesis
    by (intro exI [of _ "rw_approvals w"]) (simp add: post_action_def Answer)
next
  case (Cancel u)
  from r_into_rtranclp [of "rem_step le env", OF cancel [OF Cancel]] show ?thesis
    by (intro exI [of _ "rw_approvals w"]) (simp add: post_action_def Cancel)
next
  case (Go t)
  let ?w1 = "w\<lparr>rw_checked := (q, t) # rw_checked w\<rparr>"
  have 1: "rem_step le env w ?w1" using check [OF Go] .
  have m: "(q, t) \<in> set (rw_checked ?w1)" by simp
  obtain ok st where c: "claim_plan q t now (rw_store w) = (ok, st)" by fastforce
  show ?thesis
  proof (cases ok)
    case False
    with c have "claim_plan q t now (rw_store ?w1) = (False, st)" by simp
    from rem_step.refuse [OF m this, of le env] have 2: "rem_step le env ?w1 (w\<lparr>rw_store := st, rw_approvals := rw_approvals w\<rparr>)" by simp
    have "snd (post_action le env q now (rw_store w)) = st" using c False by (simp add: post_action_def Go)
    with rtranclp.rtrancl_into_rtrancl [OF r_into_rtranclp [of "rem_step le env", OF 1] 2] show ?thesis by metis
  next
    case True
    let ?w2 = "w\<lparr>rw_store := st, rw_claimed := (q, t) # rw_claimed w, rw_approvals := (q, t, now) # rw_approvals w\<rparr>"
    from True c have "claim_plan q t now (rw_store ?w1) = (True, st)" by simp
    from rem_step.claim [OF m this, of le env] have 2: "rem_step le env ?w1 ?w2" by simp
    have "(q, t) \<in> set (rw_claimed ?w2)" by simp
    then have "rem_step le env ?w2 (?w2\<lparr>rw_store := snd (enqueue_action env q t (rw_store ?w2)), rw_claimed := remove1 (q, t) (rw_claimed ?w2)\<rparr>)"
      by (rule rem_step.enqueue)
    moreover have "?w2\<lparr>rw_store := snd (enqueue_action env q t (rw_store ?w2)), rw_claimed := remove1 (q, t) (rw_claimed ?w2)\<rparr> =
        w\<lparr>rw_store := snd (enqueue_action env q t st), rw_approvals := (q, t, now) # rw_approvals w\<rparr>"
      by (cases w) simp
    ultimately have 3: "rem_step le env ?w2
        (w\<lparr>rw_store := snd (enqueue_action env q t st), rw_approvals := (q, t, now) # rw_approvals w\<rparr>)" by metis
    have "snd (post_action le env q now (rw_store w)) = snd (enqueue_action env q t st)"
      using c True by (simp add: post_action_def Go)
    with rtranclp.rtrancl_into_rtrancl [OF rtranclp.rtrancl_into_rtrancl [OF r_into_rtranclp [of "rem_step le env", OF 1] 2] 3]
    show ?thesis by metis
  qed
qed

subsection \<open>What the tables keep\<close>

text \<open>The columns no statement changes.\<close>

definition fixed :: "action_plan \<Rightarrow> action_plan" where
  "fixed p = p\<lparr>pl_status := Planned, pl_approved_by := None, pl_job := None\<rparr>"

definition plan_ok :: "action_plan \<Rightarrow> bool" where
  "plan_ok p \<longleftrightarrow> (if pl_status p = Executing then pl_approved_by p \<noteq> None \<and> pl_job p \<noteq> None
     else pl_status p \<noteq> Approved \<and> pl_approved_by p = None \<and> pl_job p = None)"

text \<open>A ticket: the plane was on, the plan is one of the table, its creator is not the approver and no e-mail.\<close>

definition ticket_ok :: "rem_env \<Rightarrow> rem_store \<Rightarrow> action_request \<times> ticket \<Rightarrow> bool" where
  "ticket_ok env st x \<longleftrightarrow> (case x of (q, t) \<Rightarrow>
     aq_admin q \<and> aq_user q = Some (tk_user t) \<and> pl_id (tk_plan t) = lower (aq_id q) \<and>
     fixed (tk_plan t) \<in> fixed ` set (rm_plans st) \<and>
     plane_flag env (tk_external t) = Some ''true'' \<and> kill_switch_on (aq_ssm q) (plane_param env (tk_external t)) \<and>
     ac_enabled (tk_action t) \<and> tk_external t = is_external (Some (tk_action t)) \<and>
     CHR 0x40 \<notin> set (pl_created_by (tk_plan t)))"

definition approved_in_time :: "action_request \<times> ticket \<times> int \<Rightarrow> bool" where
  "approved_in_time x \<longleftrightarrow> (case x of (q, t, now) \<Rightarrow>
     now < pl_expires (tk_plan t) \<and> pl_created_by (tk_plan t) \<notin> set (identity_keys (tk_user t)))"

definition approval_for :: "action_request \<times> ticket \<times> int \<Rightarrow> action_plan \<Rightarrow> bool" where
  "approval_for x p \<longleftrightarrow> (case x of (q, t, now) \<Rightarrow> fixed (tk_plan t) = fixed p \<and> pl_status p = Executing \<and>
     pl_approved_by p = Some (principal (tk_user t)) \<and> pl_job p = Some (job_id q))"

definition strip_time :: "action_request \<times> ticket \<times> int \<Rightarrow> action_request \<times> ticket" where
  "strip_time x = (fst x, fst (snd x))"

definition plan_key :: "action_request \<times> ticket \<Rightarrow> string" where
  "plan_key x = lower (aq_id (fst x))"

definition plans_ok :: "rem_env \<Rightarrow> rem_world \<Rightarrow> bool" where
  "plans_ok env w \<longleftrightarrow> (let st = rw_store w; aps = rw_approvals w in
     distinct (map pl_id (rm_plans st)) \<and> (\<forall>p\<in>set (rm_plans st). plan_ok p) \<and>
     (\<forall>x\<in>set (rw_checked w). ticket_ok env st x) \<and>
     (\<forall>x\<in>set aps. ticket_ok env st (strip_time x) \<and> approved_in_time x \<and> (\<exists>p\<in>set (rm_plans st). approval_for x p)) \<and>
     (\<forall>p\<in>set (rm_plans st). pl_status p = Executing \<longrightarrow> (\<exists>x\<in>set aps. approval_for x p)) \<and>
     distinct (map (plan_key \<circ> strip_time) aps))"

definition jobs_ok :: "rem_world \<Rightarrow> bool" where
  "jobs_ok w \<longleftrightarrow> (let st = rw_store w; aps = map strip_time (rw_approvals w) in
     mset (map aj_plan (rm_jobs st)) + mset (map plan_key (rw_claimed w)) \<subseteq># mset (map (plan_key \<circ> strip_time) (rw_approvals w)) \<and>
     set (rw_claimed w) \<subseteq> set aps \<and>
     set (rm_jobs st) \<subseteq> case_prod action_job_of ` set aps \<and>
     set (rm_sent st) \<subseteq> case_prod action_message_of ` {x \<in> set aps. case_prod action_job_of x \<in> set (rm_jobs st)})"

text \<open>What the statements change.\<close>

lemma record_audit_keeps [simp]:
  "rm_plans (record_audit env a st) = rm_plans st" "rm_jobs (record_audit env a st) = rm_jobs st"
  "rm_sent (record_audit env a st) = rm_sent st" "rm_catalog (record_audit env a st) = rm_catalog st"
  by (simp_all add: record_audit_def)

lemma audit_all_keeps [simp]:
  "rm_plans (audit_all env aus st) = rm_plans st" "rm_jobs (audit_all env aus st) = rm_jobs st"
  "rm_sent (audit_all env aus st) = rm_sent st"
  by (induction aus arbitrary: st) (simp_all add: audit_all_def)

lemma post_plan_tables:
  obtains "snd (post_plan le env q now st) = st"
  | p where "rm_plans (snd (post_plan le env q now st)) = rm_plans st @ [p]" "pl_id p = fst (aq_uuids q)" "pl_status p = Planned"
      "pl_approved_by p = None" "pl_job p = None"
      "rm_jobs (snd (post_plan le env q now st)) = rm_jobs st" "rm_sent (snd (post_plan le env q now st)) = rm_sent st"
proof (cases "snd (post_plan le env q now st) = st")
  case False
  then obtain u a i where "snd (post_plan le env q now st) = record_audit env
      \<lparr>ra_plan = Some (pl_id (plan_of q u a i now)), ra_job = None, ra_action = Some (ac_name a), ra_phase = ''plan'',
       ra_principal = principal u, ra_decision = None, ra_detail = JObj [(''inputs'', i)]\<rparr> (create_plan (plan_of q u a i now) st)"
    by (auto simp: post_plan_def Let_def split: option.splits sum.splits body_error.splits)
  then show thesis
    by (intro that(2) [of "plan_of q u a i now"]) (simp_all add: create_plan_def plan_of_def new_plan_def)
qed (use that(1) in blast)

lemma fixed_simps [simp]:
  "fixed (approve b j p) = fixed p" "fixed (p\<lparr>pl_status := s\<rparr>) = fixed p"
  "pl_id (fixed p) = pl_id p" "pl_created_by (fixed p) = pl_created_by p" "pl_expires (fixed p) = pl_expires p"
  by (simp_all add: fixed_def approve_def)

lemma approve_simps [simp]:
  "pl_status (approve b j p) = Executing" "pl_approved_by (approve b j p) = Some b" "pl_job (approve b j p) = Some j"
  "pl_id (approve b j p) = pl_id p"
  by (simp_all add: approve_def)

lemma fixed_eq: "fixed p = fixed q \<Longrightarrow> pl_id p = pl_id q \<and> pl_created_by p = pl_created_by q \<and> pl_expires p = pl_expires q"
  by (metis fixed_simps(3-5))

text \<open>The plans, seen through the columns that never change, only grow.\<close>

lemma ticket_ok_mono:
  "ticket_ok env st x \<Longrightarrow> fixed ` set (rm_plans st) \<subseteq> fixed ` set (rm_plans st') \<Longrightarrow> ticket_ok env st' x"
  by (auto simp: ticket_ok_def)

lemma check_ticket:
  assumes "check_action le env q now st = Go t"
  shows "ticket_ok env st (q, t)"
proof -
  obtain u p a where h: "aq_admin q" "aq_user q = Some u" "get_plan (aq_id q) st = Some p"
    "hard_gates env q now u p a = Go t" 
    using assms by (auto simp: check_action_def action_admin_def split: if_splits option.splits sum.splits body_error.splits)
  then have t: "t = \<lparr>tk_user = u, tk_plan = p, tk_action = the a, tk_external = is_external a\<rparr>" "a \<noteq> None" "ac_enabled (the a)"
    "plane_flag env (is_external a) = Some ''true''" "kill_switch_on (aq_ssm q) (plane_param env (is_external a))"
    "CHR 0x40 \<notin> set (pl_created_by p)"
    by (auto simp: hard_gates_def Let_def split: if_splits option.splits)
  from h(3) have "p \<in> set (rm_plans st)" "pl_id p = lower (aq_id q)" by (auto simp: get_plan_def find_Some_iff)
  with h t show ?thesis by (auto simp: ticket_ok_def)
qed

lemma claim_plan_tables:
  assumes "claim_plan q t now st = (ok, st')"
  shows "rm_jobs st' = rm_jobs st" "rm_sent st' = rm_sent st" "fixed ` set (rm_plans st') = fixed ` set (rm_plans st)"
    "map pl_id (rm_plans st') = map pl_id (rm_plans st)" "\<not> ok \<Longrightarrow> st' = st"
proof -
  have d: "st' = st\<lparr>rm_plans := map (\<lambda>p. if approvable (aq_id q) (identity_keys (tk_user t)) now p
      then approve (principal (tk_user t)) (job_id q) p else p) (rm_plans st)\<rparr>"
    and ok: "ok \<longleftrightarrow> list_ex (approvable (aq_id q) (identity_keys (tk_user t)) now) (rm_plans st)"
    using assms by (auto simp: claim_plan_def set_approved_and_executing_def)
  from d show "rm_jobs st' = rm_jobs st" "rm_sent st' = rm_sent st" by simp_all
  from d have "map fixed (rm_plans st') = map fixed (rm_plans st)" by auto
  then show "fixed ` set (rm_plans st') = fixed ` set (rm_plans st)" by (metis set_map)
  from d show "map pl_id (rm_plans st') = map pl_id (rm_plans st)" by (auto simp: approve_def)
  show "st' = st" if "\<not> ok"
  proof -
    have "map (\<lambda>p. if approvable (aq_id q) (identity_keys (tk_user t)) now p then approve (principal (tk_user t)) (job_id q) p else p)
        (rm_plans st) = rm_plans st"
      using ok that by (intro map_idI) (auto simp: list_ex_iff)
    then show ?thesis using d by simp
  qed
qed


lemma plan_ok_changes:
  "plan_ok (approve b j p)"
  "plan_ok p \<Longrightarrow> pl_status p \<noteq> Executing \<Longrightarrow> plan_ok (p\<lparr>pl_status := Canceled\<rparr>)"
  by (auto simp: plan_ok_def approve_def split: if_splits)

lemma same_plan: "distinct (map pl_id ps) \<Longrightarrow> p \<in> set ps \<Longrightarrow> p' \<in> set ps \<Longrightarrow> pl_id p = pl_id p' \<Longrightarrow> p = p'"
  by (metis distinct_map inj_onD)

lemma plans_okD:
  assumes "plans_ok env w"
  shows "distinct (map pl_id (rm_plans (rw_store w)))" "\<And>p. p \<in> set (rm_plans (rw_store w)) \<Longrightarrow> plan_ok p"
    "\<And>x. x \<in> set (rw_checked w) \<Longrightarrow> ticket_ok env (rw_store w) x"
    "\<And>x. x \<in> set (rw_approvals w) \<Longrightarrow> ticket_ok env (rw_store w) (strip_time x) \<and> approved_in_time x \<and>
       (\<exists>p\<in>set (rm_plans (rw_store w)). approval_for x p)"
    "\<And>p. p \<in> set (rm_plans (rw_store w)) \<Longrightarrow> pl_status p = Executing \<Longrightarrow> \<exists>x\<in>set (rw_approvals w). approval_for x p"
    "distinct (map (plan_key \<circ> strip_time) (rw_approvals w))"
  using assms unfolding plans_ok_def Let_def by blast+

lemma approval_plan:
  assumes "ticket_ok env st (strip_time x)" "approval_for x p"
  shows "pl_id p = plan_key (strip_time x)" "pl_status p = Executing"
proof -
  obtain q t now where x: "x = (q, t, now)" by (cases x)
  with assms have f: "fixed (tk_plan t) = fixed p" and "pl_id (tk_plan t) = lower (aq_id q)" "pl_status p = Executing"
    by (simp_all add: ticket_ok_def approval_for_def strip_time_def)
  with fixed_eq [OF f] x show "pl_id p = plan_key (strip_time x)" "pl_status p = Executing"
    by (simp_all add: plan_key_def strip_time_def)
qed

text \<open>A step that only adds planned rows, or only changes rows that are not executing.\<close>

lemma plans_ok_store:
  assumes ok: "plans_ok env w" and w': "rw_approvals w' = rw_approvals w" "set (rw_checked w') \<subseteq> set (rw_checked w)"
    and ids: "distinct (map pl_id (rm_plans (rw_store w')))" "\<And>p. p \<in> set (rm_plans (rw_store w')) \<Longrightarrow> plan_ok p"
    and grow: "fixed ` set (rm_plans (rw_store w)) \<subseteq> fixed ` set (rm_plans (rw_store w'))"
    and exec: "\<And>p. pl_status p = Executing \<Longrightarrow> p \<in> set (rm_plans (rw_store w')) \<longleftrightarrow> p \<in> set (rm_plans (rw_store w))"
  shows "plans_ok env w'"
  unfolding plans_ok_def Let_def
proof (intro conjI ballI impI)
  fix x assume "x \<in> set (rw_checked w')"
  with w'(2) plans_okD(3) [OF ok] show "ticket_ok env (rw_store w') x" using ticket_ok_mono [OF _ grow] by blast
next
  fix x assume "x \<in> set (rw_approvals w')"
  with w'(1) plans_okD(4) [OF ok, of x] obtain p where x: "ticket_ok env (rw_store w) (strip_time x)" "approved_in_time x"
    "p \<in> set (rm_plans (rw_store w))" "approval_for x p" by auto
  from x show "ticket_ok env (rw_store w') (strip_time x)" "approved_in_time x" using ticket_ok_mono [OF _ grow] by blast+
  from x exec approval_plan(2) show "\<exists>p\<in>set (rm_plans (rw_store w')). approval_for x p" by blast
next
  fix p assume "p \<in> set (rm_plans (rw_store w'))" "pl_status p = Executing"
  with exec plans_okD(5) [OF ok] w'(1) show "\<exists>x\<in>set (rw_approvals w'). approval_for x p" by simp
qed (use ids w'(1) plans_okD(6) [OF ok] in simp_all)

lemma plans_ok_same:
  assumes "plans_ok env w" "rm_plans (rw_store w') = rm_plans (rw_store w)" "rw_approvals w' = rw_approvals w"
    "set (rw_checked w') \<subseteq> set (rw_checked w)"
  shows "plans_ok env w'"
  by (rule plans_ok_store [OF assms(1,3,4)]) (simp_all add: assms(2) plans_okD(1,2) [OF assms(1)])

lemma cancel_plan_plans:
  assumes ok: "plans_ok env w" and w': "rm_plans (rw_store w') = rm_plans (cancel_plan n (rw_store w))"
    "rw_approvals w' = rw_approvals w" "rw_checked w' = rw_checked w"
  shows "plans_ok env w'"
proof -
  let ?f = "\<lambda>p. if pl_id p = lower n \<and> (pl_status p = Planned \<or> pl_status p = Approved) then p\<lparr>pl_status := Canceled\<rparr> else p"
  have m: "rm_plans (rw_store w') = map ?f (rm_plans (rw_store w))" using w'(1) by (simp add: cancel_plan_def)
  have "map pl_id (rm_plans (rw_store w')) = map pl_id (rm_plans (rw_store w))" "map fixed (rm_plans (rw_store w')) = map fixed (rm_plans (rw_store w))"
    by (simp_all add: m)
  then have ids: "distinct (map pl_id (rm_plans (rw_store w')))"
    and grow: "fixed ` set (rm_plans (rw_store w)) \<subseteq> fixed ` set (rm_plans (rw_store w'))"
    using plans_okD(1) [OF ok] by (simp, metis set_map subset_refl)
  have okp: "plan_ok p" if "p \<in> set (rm_plans (rw_store w'))" for p
    using that plans_okD(2) [OF ok] plan_ok_changes(2) by (auto simp: m)
  have exec: "p \<in> set (rm_plans (rw_store w')) \<longleftrightarrow> p \<in> set (rm_plans (rw_store w))" if "pl_status p = Executing" for p
    using that by (auto simp: m image_iff split: if_splits intro!: bexI [of _ p])
  show ?thesis by (rule plans_ok_store [OF ok w'(2) _ ids okp grow exec]) (simp_all add: w'(3))
qed

lemma claim_plan_ok:
  assumes ok: "plans_ok env w" and x: "(q, t) \<in> set (rw_checked w)" and c: "claim_plan q t now (rw_store w) = (True, st)"
    and w': "rw_store w' = st" "rw_approvals w' = (q, t, now) # rw_approvals w" "set (rw_checked w') \<subseteq> set (rw_checked w)"
  shows "plans_ok env w'"
proof -
  let ?ps = "rm_plans (rw_store w)" and ?P = "approvable (aq_id q) (identity_keys (tk_user t)) now"
  let ?g = "approve (principal (tk_user t)) (job_id q)"
  have m: "rm_plans st = map (\<lambda>p. if ?P p then ?g p else p) ?ps" and e: "list_ex ?P ?ps"
    using c by (auto simp: claim_plan_def set_approved_and_executing_def)
  from e obtain p where p: "p \<in> set ?ps" "?P p" by (auto simp: list_ex_iff)
  note t = plans_okD(3) [OF ok x]
  from t obtain p0 where p0: "p0 \<in> set ?ps" "fixed (tk_plan t) = fixed p0" and "pl_id (tk_plan t) = lower (aq_id q)"
    by (auto simp: ticket_ok_def)
  with fixed_eq [OF p0(2)] have "pl_id p0 = lower (aq_id q)" by simp
  with p p0 same_plan [OF plans_okD(1) [OF ok], of p0 p] have f: "fixed (tk_plan t) = fixed p" by (simp add: approvable_def)
  have only: "p' = p" if "p' \<in> set ?ps" "?P p'" for p'
    using that p same_plan [OF plans_okD(1) [OF ok]] by (auto simp: approvable_def)
  have grow: "fixed ` set (rm_plans (rw_store w)) \<subseteq> fixed ` set (rm_plans st)" using claim_plan_tables(3) [OF c] by simp
  have new: "approval_for (q, t, now) (?g p)" "?g p \<in> set (rm_plans st)" "approved_in_time (q, t, now)"
    using f p fixed_eq [OF f] by (auto simp: approval_for_def approved_in_time_def approvable_def m)
  have kept: "p' \<in> set (rm_plans st)" if "p' \<in> set ?ps" "pl_status p' = Executing" for p'
    using that by (auto simp: m approvable_def image_iff intro!: bexI [of _ p'])
  have fresh: "plan_key (q, t) \<notin> (plan_key \<circ> strip_time) ` set (rw_approvals w)"
  proof
    assume "plan_key (q, t) \<in> (plan_key \<circ> strip_time) ` set (rw_approvals w)"
    then obtain y where y: "y \<in> set (rw_approvals w)" "plan_key (strip_time y) = plan_key (q, t)" by auto
    from plans_okD(4) [OF ok y(1)] obtain p' where p': "p' \<in> set ?ps" "approval_for y p'" "ticket_ok env (rw_store w) (strip_time y)" by auto
    with approval_plan y(2) p have "pl_id p' = pl_id p" "pl_status p' = Executing" by (auto simp: plan_key_def approvable_def)
    with same_plan [OF plans_okD(1) [OF ok] p'(1) p(1)] p(2) show False by (auto simp: approvable_def)
  qed
  show ?thesis
    unfolding plans_ok_def Let_def w'(1,2)
  proof (intro conjI ballI impI)
    show "distinct (map pl_id (rm_plans st))" using claim_plan_tables(4) [OF c] plans_okD(1) [OF ok] by simp
    show "distinct (map (plan_key \<circ> strip_time) ((q, t, now) # rw_approvals w))"
      using fresh plans_okD(6) [OF ok] by (simp add: strip_time_def)
  next
    fix r assume "r \<in> set (rm_plans st)"
    with m plans_okD(2) [OF ok] plan_ok_changes(1) show "plan_ok r" by auto
  next
    fix y assume "y \<in> set (rw_checked w')"
    with w'(3) plans_okD(3) [OF ok] show "ticket_ok env st y" using ticket_ok_mono [OF _ grow] by blast
  next
    fix y assume y: "y \<in> set ((q, t, now) # rw_approvals w)"
    have both: "ticket_ok env st (strip_time y) \<and> approved_in_time y"
    proof (cases "y = (q, t, now)")
      case True
      then show ?thesis using t ticket_ok_mono [OF _ grow] new(3) by (simp add: strip_time_def)
    next
      case False
      with y have "y \<in> set (rw_approvals w)" by simp
      from plans_okD(4) [OF ok this] ticket_ok_mono [OF _ grow] show ?thesis by blast
    qed
    then show "ticket_ok env st (strip_time y)" "approved_in_time y" by blast+
    show "\<exists>p\<in>set (rm_plans st). approval_for y p"
    proof (cases "y = (q, t, now)")
      case False
      with y plans_okD(4) [OF ok, of y] kept approval_plan(2) show ?thesis by fastforce
    qed (use new in blast)
  next
    fix r assume "r \<in> set (rm_plans st)" "pl_status r = Executing"
    with m obtain p' where p': "p' \<in> set ?ps" "r = (if ?P p' then ?g p' else p')" by auto
    show "\<exists>y\<in>set ((q, t, now) # rw_approvals w). approval_for y r"
    proof (cases "?P p'")
      case True
      with only p' new(1) show ?thesis by auto
    next
      case False
      with p' \<open>pl_status r = Executing\<close> plans_okD(5) [OF ok, of p'] show ?thesis by auto
    qed
  qed
qed


lemma plans_ok_step: "rem_step le env w w' \<Longrightarrow> plans_ok env w \<Longrightarrow> plans_ok env w'"
proof (induction rule: rem_step.induct)
  case (plan q w now)
  let ?w' = "w\<lparr>rw_store := snd (post_plan le env q now (rw_store w))\<rparr>"
  show ?case
  proof (cases rule: post_plan_tables [of le env q now "rw_store w"])
    case (2 p)
    have ids: "distinct (map pl_id (rm_plans (rw_store ?w')))" using 2 plan plans_okD(1) by simp
    have okp: "plan_ok r" if "r \<in> set (rm_plans (rw_store ?w'))" for r
    proof -
      have "plan_ok p" using 2 by (simp add: plan_ok_def)
      with that 2(1) plans_okD(2) [OF plan.prems] show ?thesis by auto
    qed
    have exec: "r \<in> set (rm_plans (rw_store ?w')) \<longleftrightarrow> r \<in> set (rm_plans (rw_store w))" if "pl_status r = Executing" for r
      using that 2 by auto
    show ?thesis by (rule plans_ok_store [OF plan.prems _ _ ids okp _ exec]) (use 2 in auto)
  qed (use plan.prems in simp)
next
  case (answer q now w r aus)
  then show ?case by (intro plans_ok_same [OF answer.prems]) simp_all
next
  case (cancel q now w u)
  show ?case by (rule cancel_plan_plans [OF cancel.prems, of _ "aq_id q"]) (simp_all add: cancel_action_def)
next
  case (check q now w t)
  from check_ticket [OF check.hyps] check.prems show ?case by (auto simp: plans_ok_def Let_def)
next
  case (claim q t w now st)
  show ?case by (rule claim_plan_ok [OF claim.prems claim.hyps]) (simp_all add: set_remove1_subset)
next
  case (refuse q t w now st)
  with claim_plan_tables(5) [OF refuse.hyps(2)] show ?case
    by (intro plans_ok_same [OF refuse.prems]) (simp_all add: set_remove1_subset)
next
  case (enqueue q t w)
  have "rm_plans (snd (enqueue_action env q t st)) = rm_plans st" for st by (simp add: enqueue_action_def Let_def)
  then show ?case by (intro plans_ok_same [OF enqueue.prems]) simp_all
next
  case (catalog w c)
  then show ?case by (intro plans_ok_same [OF catalog.prems]) simp_all
qed

text \<open>The jobs.\<close>

lemma jobs_ok_same:
  assumes "jobs_ok w" "rm_jobs (rw_store w') = rm_jobs (rw_store w)" "rm_sent (rw_store w') = rm_sent (rw_store w)"
    "rw_claimed w' = rw_claimed w" "rw_approvals w' = rw_approvals w"
  shows "jobs_ok w'"
  using assms by (simp add: jobs_ok_def Let_def)

lemma enqueue_tables:
  obtains "rm_jobs (snd (enqueue_action env q t st)) = rm_jobs st" "rm_sent (snd (enqueue_action env q t st)) = rm_sent st"
  | "rm_jobs (snd (enqueue_action env q t st)) = rm_jobs st @ [action_job_of q t]"
    "set (rm_sent (snd (enqueue_action env q t st))) \<subseteq> insert (action_message_of q t) (set (rm_sent st))"
proof (cases "aq_end q = Exec_Insert_Fails")
  case True
  then show thesis by (intro that(1)) (simp_all add: enqueue_action_def)
next
  case False
  then show thesis by (intro that(2)) (auto simp: enqueue_action_def Let_def)
qed

lemma aj_plan_of [simp]: "aj_plan (action_job_of q t) = plan_key (q, t)"
  by (simp add: action_job_of_def plan_key_def)

lemma jobs_ok_enqueue:
  assumes ok: "jobs_ok w" and x: "(q, t) \<in> set (rw_claimed w)"
  shows "jobs_ok (w\<lparr>rw_store := snd (enqueue_action env q t (rw_store w)), rw_claimed := remove1 (q, t) (rw_claimed w)\<rparr>)"
proof -
  let ?aps = "map strip_time (rw_approvals w)"
  have o: "mset (map aj_plan (rm_jobs (rw_store w))) + mset (map plan_key (rw_claimed w)) \<subseteq># mset (map (plan_key \<circ> strip_time) (rw_approvals w))"
    "set (rw_claimed w) \<subseteq> set ?aps" "set (rm_jobs (rw_store w)) \<subseteq> case_prod action_job_of ` set ?aps"
    "set (rm_sent (rw_store w)) \<subseteq> case_prod action_message_of ` {x \<in> set ?aps. case_prod action_job_of x \<in> set (rm_jobs (rw_store w))}"
    using ok unfolding jobs_ok_def Let_def by blast+
  have c: "mset (map plan_key (rw_claimed w)) = add_mset (plan_key (q, t)) (mset (map plan_key (remove1 (q, t) (rw_claimed w))))"
  proof -
    have "mset (rw_claimed w) = add_mset (q, t) (mset (remove1 (q, t) (rw_claimed w)))" using x by simp
    then show ?thesis by (metis image_mset_add_mset mset_map)
  qed
  have sub: "set (remove1 (q, t) (rw_claimed w)) \<subseteq> set ?aps" using o(2) set_remove1_subset by fastforce
  have qt: "(q, t) \<in> set ?aps" using x o(2) by blast
  show ?thesis
  proof (cases rule: enqueue_tables [of env q t "rw_store w"])
    case 1
    have "mset (map aj_plan (rm_jobs (rw_store w))) + mset (map plan_key (remove1 (q, t) (rw_claimed w))) \<subseteq># mset (map (plan_key \<circ> strip_time) (rw_approvals w))"
      using o(1) unfolding c by (simp add: subset_mset.le_add_same_cancel1) (meson mset_subset_eq_insertD subset_mset.less_imp_le)
    with 1 o sub show ?thesis by (simp add: jobs_ok_def Let_def)
  next
    case 2
    let ?st = "snd (enqueue_action env q t (rw_store w))" and ?J = "case_prod action_job_of" and ?M = "case_prod action_message_of"
    have "set (rm_jobs ?st) \<subseteq> ?J ` set ?aps" using 2(1) o(3) qt by (auto intro!: image_eqI [of _ _ "(q, t)"])
    moreover have "set (rm_sent ?st) \<subseteq> ?M ` {x \<in> set ?aps. ?J x \<in> set (rm_jobs ?st)}"
    proof
      fix m assume "m \<in> set (rm_sent ?st)"
      with 2(2) consider "m = ?M (q, t)" | "m \<in> set (rm_sent (rw_store w))" by auto
      then show "m \<in> ?M ` {x \<in> set ?aps. ?J x \<in> set (rm_jobs ?st)}"
      proof cases
        case 1
        then show ?thesis using 2(1) qt by (intro image_eqI [of _ _ "(q, t)"]) simp_all
      next
        case m: 2
        from o(4) m 2(1) show ?thesis by (simp add: subset_iff image_iff) blast
      qed
    qed
    ultimately show ?thesis using o(1) c sub 2(1) by (simp add: jobs_ok_def Let_def)
  qed
qed

lemma jobs_ok_step: "rem_step le env w w' \<Longrightarrow> jobs_ok w \<Longrightarrow> jobs_ok w'"
proof (induction rule: rem_step.induct)
  case (plan q w now)
  show ?case
    by (cases rule: post_plan_tables [of le env q now "rw_store w"]) (use plan.prems jobs_ok_same in simp_all)
next
  case (cancel q now w u)
  then show ?case by (intro jobs_ok_same [OF cancel.prems]) (simp_all add: cancel_action_def cancel_plan_def)
next
  case (claim q t w now st)
  note st = claim_plan_tables(1,2) [OF claim.hyps(2)]
  let ?A = "set (map strip_time (rw_approvals w))" and ?J = "case_prod action_job_of" and ?M = "case_prod action_message_of"
  have o: "mset (map aj_plan (rm_jobs (rw_store w))) + mset (map plan_key (rw_claimed w)) \<subseteq># mset (map (plan_key \<circ> strip_time) (rw_approvals w))"
    "set (rw_claimed w) \<subseteq> ?A" "set (rm_jobs (rw_store w)) \<subseteq> ?J ` ?A"
    "set (rm_sent (rw_store w)) \<subseteq> ?M ` {x \<in> ?A. ?J x \<in> set (rm_jobs (rw_store w))}"
    using claim.prems unfolding jobs_ok_def Let_def by blast+
  have "?M ` {x \<in> ?A. ?J x \<in> set (rm_jobs (rw_store w))} \<subseteq> ?M ` {x \<in> insert (q, t) ?A. ?J x \<in> set (rm_jobs (rw_store w))}"
    by (rule image_mono) blast
  with o(4) have "set (rm_sent (rw_store w)) \<subseteq> ?M ` {x \<in> insert (q, t) ?A. ?J x \<in> set (rm_jobs (rw_store w))}"
    by (rule order_trans)
  with o(1-3) show ?case by (auto simp: jobs_ok_def Let_def st strip_time_def)
next
  case (refuse q t w now st)
  note st = claim_plan_tables(1,2) [OF refuse.hyps(2)]
  show ?case by (rule jobs_ok_same [OF refuse.prems]) (simp_all add: st)
next
  case (enqueue q t w)
  then show ?case using jobs_ok_enqueue by blast
qed (auto intro: jobs_ok_same)

lemma jobs_okD:
  assumes "jobs_ok w"
  shows "mset (map aj_plan (rm_jobs (rw_store w))) \<subseteq># mset (map (plan_key \<circ> strip_time) (rw_approvals w))"
    "\<And>j. j \<in> set (rm_jobs (rw_store w)) \<Longrightarrow> \<exists>x\<in>set (rw_approvals w). j = case_prod action_job_of (strip_time x)"
    "\<And>m. m \<in> set (rm_sent (rw_store w)) \<Longrightarrow> \<exists>x. m = case_prod action_message_of x \<and> case_prod action_job_of x \<in> set (rm_jobs (rw_store w))"
proof -
  have o: "mset (map aj_plan (rm_jobs (rw_store w))) + mset (map plan_key (rw_claimed w)) \<subseteq># mset (map (plan_key \<circ> strip_time) (rw_approvals w))"
    "set (rm_jobs (rw_store w)) \<subseteq> case_prod action_job_of ` set (map strip_time (rw_approvals w))"
    "set (rm_sent (rw_store w)) \<subseteq> case_prod action_message_of ` {x \<in> set (map strip_time (rw_approvals w)). case_prod action_job_of x \<in> set (rm_jobs (rw_store w))}"
    using assms unfolding jobs_ok_def Let_def by blast+
  from o(1) show "mset (map aj_plan (rm_jobs (rw_store w))) \<subseteq># mset (map (plan_key \<circ> strip_time) (rw_approvals w))"
    by (meson mset_subset_eq_add_left subset_mset.order_trans)
  show "\<exists>x\<in>set (rw_approvals w). j = case_prod action_job_of (strip_time x)" if "j \<in> set (rm_jobs (rw_store w))" for j
    using o(2) that unfolding set_map by blast
  show "\<exists>x. m = case_prod action_message_of x \<and> case_prod action_job_of x \<in> set (rm_jobs (rw_store w))" if "m \<in> set (rm_sent (rw_store w))" for m
    using o(3) that by blast
qed

lemma rem_reachable_ok: "rem_reachable le env w \<Longrightarrow> plans_ok env w \<and> jobs_ok w"
proof -
  assume "rem_reachable le env w"
  then obtain c where "(rem_step le env)\<^sup>*\<^sup>* (rem_start c) w" unfolding rem_reachable_def by blast
  then show ?thesis
  proof (induction rule: rtranclp_induct)
    case base
    show ?case by (simp add: plans_ok_def jobs_ok_def rem_start_def Let_def)
  next
    case (step w w')
    then show ?case using plans_ok_step jobs_ok_step by blast
  qed
qed

section \<open>Four eyes\<close>

lemma distinct_submset: "mset xs \<subseteq># mset ys \<Longrightarrow> distinct ys \<Longrightarrow> distinct xs"
  by (metis distinct_append ex_mset mset_append mset_eq_imp_distinct_iff subset_mset.add_diff_inverse)

lemma executing_approval:
  assumes "rem_reachable le env w" "p \<in> set (rm_plans (rw_store w))" "pl_status p = Executing"
  obtains q t now where "(q, t, now) \<in> set (rw_approvals w)" "ticket_ok env (rw_store w) (q, t)"
    "approved_in_time (q, t, now)" "approval_for (q, t, now) p"
proof -
  note ok = rem_reachable_ok [OF assms(1), THEN conjunct1]
  from plans_okD(5) [OF ok assms(2,3)] obtain q t now where x: "(q, t, now) \<in> set (rw_approvals w)" "approval_for (q, t, now) p"
    by auto
  with plans_okD(4) [OF ok x(1)] that show thesis by (auto simp: strip_time_def)
qed


text \<open>
  C5. However requests interleave, no plan has two jobs, every job belongs to an executing plan that
  names it, and every message sent names a recorded job. So a plan that was canceled, or was never
  approved, has none.
\<close>

theorem plan_runs_at_most_once:
  assumes "rem_reachable le env w"
  shows "distinct (map aj_plan (rm_jobs (rw_store w))) \<and>
    (\<forall>j\<in>set (rm_jobs (rw_store w)). \<exists>p\<in>set (rm_plans (rw_store w)).
       pl_id p = aj_plan j \<and> pl_status p = Executing \<and> pl_job p = Some (aj_id j)) \<and>
    (\<forall>m\<in>set (rm_sent (rw_store w)). \<exists>j\<in>set (rm_jobs (rw_store w)). aj_id j = am_job m)"
proof (intro conjI ballI)
  note ok = rem_reachable_ok [OF assms, THEN conjunct1] and jobs = rem_reachable_ok [OF assms, THEN conjunct2]
  from jobs_okD(1) [OF jobs] plans_okD(6) [OF ok] show "distinct (map aj_plan (rm_jobs (rw_store w)))" by (metis distinct_submset)
next
  note ok = rem_reachable_ok [OF assms, THEN conjunct1] and jobs = rem_reachable_ok [OF assms, THEN conjunct2]
  fix j assume "j \<in> set (rm_jobs (rw_store w))"
  with jobs_okD(2) [OF jobs] obtain x where x: "x \<in> set (rw_approvals w)" "j = case_prod action_job_of (strip_time x)" by blast
  from plans_okD(4) [OF ok x(1)] obtain p where p: "p \<in> set (rm_plans (rw_store w))" "approval_for x p"
    "ticket_ok env (rw_store w) (strip_time x)" by blast
  have "aj_plan j = plan_key (strip_time x)" "pl_job p = Some (aj_id j)"
    using x(2) p(2) by (auto simp: approval_for_def strip_time_def action_job_of_def plan_key_def split: prod.splits)
  with approval_plan [OF p(3,2)] p(1)
  show "\<exists>p\<in>set (rm_plans (rw_store w)). pl_id p = aj_plan j \<and> pl_status p = Executing \<and> pl_job p = Some (aj_id j)" by auto
next
  note ok = rem_reachable_ok [OF assms, THEN conjunct1] and jobs = rem_reachable_ok [OF assms, THEN conjunct2]
  fix m assume "m \<in> set (rm_sent (rw_store w))"
  with jobs_okD(3) [OF jobs] obtain x where "case_prod action_job_of x \<in> set (rm_jobs (rw_store w))" "m = case_prod action_message_of x"
    by blast
  then show "\<exists>j\<in>set (rm_jobs (rw_store w)). aj_id j = am_job m"
    by (intro bexI [of _ "case_prod action_job_of x"]) (simp_all add: action_job_of_def action_message_of_def split: prod.splits)
qed

lemma allowlisted:
  assumes "assert_channel_allowed ch (get_egress_write_allowlist kind db) = Inr u"
  shows "\<exists>g r. db = Some g \<and> r \<in> set (rg_rows g) \<and> egress_writer kind r \<and> ch \<in> set (ir_allowlist r)"
proof -
  from assms have m: "ch \<in> set (get_egress_write_allowlist kind db)"
    by (auto simp: assert_channel_allowed_def split: if_splits)
  then obtain g where g: "db = Some g" by (auto simp: get_egress_write_allowlist_def split: option.splits)
  let ?rs = "sort_le (\<lambda>a b. ir_id a \<le> ir_id b) (filter (egress_writer kind) (rg_rows g))"
  from m g obtain r rest where r: "?rs = r # rest" "ch \<in> set (ir_allowlist r)"
    by (cases ?rs) (auto simp: get_egress_write_allowlist_def)
  from r(1) have "r \<in> set ?rs" by (metis list.set_intros(1))
  with g r(2) show ?thesis by auto
qed

text \<open>
  A plan for an external write is only made for a channel that an enabled read-write egress
  integration of the action's kind lists, and what it stores, and what a reviewer is shown, is the
  redaction of the requested inputs, without a string over 3000 characters.
\<close>

theorem external_write_is_allowlisted:
  assumes "post_plan le env q now st = (A_Planned p, st')"
    and "get_action le env (pl_action p) st = Some a" "is_external (Some a)" "collation le"
  shows "(\<exists>body g r. aq_body q = Inr body \<and> aq_registry q = Some g \<and> r \<in> set (rg_rows g) \<and> egress_writer (target_kind a) r \<and>
      to_string (coalesce (attr (plan_inputs body) ''channel'') (JStr [])) \<in> set (ir_allowlist r) \<and>
      pl_inputs p = fst (redact_egress (plan_inputs body))) \<and>
    field (pl_dry_run p) ''inputs'' = pl_inputs p \<and> list_all (\<lambda>s. length s \<le> SIZE_CAP) (strings_of (pl_inputs p))"
proof -
  have "check_plan q x y \<noteq> Inl (A_Planned p)" for x y
    by (auto simp: check_plan_def split: option.split sum.split)
  then obtain u body b i where h: "aq_body q = Inr body"
    "check_plan q (get_action le env (to_string (coalesce (attr body ''action'') (JStr []))) st) body = Inr (b, i)" "p = plan_of q u b i now"
    using assms(1) by (auto simp: post_plan_def Let_def split: option.splits sum.splits body_error.splits)
  then have g: "get_action le env (to_string (coalesce (attr body ''action'') (JStr []))) st = Some b" and o: "outgoing_inputs q b (plan_inputs body) = Inr i"
    by (auto simp: check_plan_def split: option.splits if_splits sum.splits)
  from g have "get_action le env (ac_name b) st = Some b" by (auto simp: get_action_def find_Some_iff)
  with assms(2) h(3) have "b = a" by (simp add: plan_of_def new_plan_def)
  with o assms(3) obtain v where "assert_channel_allowed (to_string (coalesce (attr (plan_inputs body) ''channel'') (JStr [])))
      (get_egress_write_allowlist (target_kind a) (aq_registry q)) = Inr v" and i: "i = fst (redact_egress (plan_inputs body))"
    by (auto simp: outgoing_inputs_def split: sum.splits)
  from allowlisted [OF this(1)] h(1,3) i egress_strings_bounded [of "plan_inputs body"] show ?thesis
    by (auto simp: plan_of_def new_plan_def plan_dry_run_def field_def)
qed

section \<open>A plan made and approved\<close>

definition demo_rem :: rem_env where
  "demo_rem = \<lparr>re_aurora = Some ''db'', re_remediation = Some ''true'', re_integrations_write = Some ''true'', re_mutating_param = Some ''/kill'',
     re_integrations_param = Some ''/kill'', re_queue = Some ''q''\<rparr>"

definition demo_actions :: "action_row list" where
  "demo_actions =
    [\<lparr>ac_name = ''tag'', ac_description = [], ac_executor = ''ssm'', ac_target = ''ec2:instance'', ac_approval = ''four_eyes'',
       ac_inputs = [''key''], ac_enabled = True\<rparr>,
     \<lparr>ac_name = ''post'', ac_description = [], ac_executor = ''lambda'', ac_target = ''external:slack'', ac_approval = ''four_eyes'',
       ac_inputs = [''channel''], ac_enabled = True\<rparr>]"

definition demo_plan_id :: string where
  "demo_plan_id = ''00000000-0000-0000-0000-00000000000a''"

definition demo_action :: "string \<Rightarrow> js_object \<Rightarrow> action_request" where
  "demo_action who body = \<lparr>aq_user = Some \<lparr>u_sub = who, u_email = None, u_groups = None, u_iat = None\<rparr>, aq_admin = True,
     aq_id = demo_plan_id, aq_body = Inr (JObj body), aq_ssm = (\<lambda>_. Some (Some ''true'')),
     aq_registry = Some (registry_run (\<lambda>_. Some slack_url) empty_registry slack_calls), aq_uuids = (demo_plan_id, ''t''), aq_iso = ''now'', aq_end = Exec_Ok\<rparr>"

definition any_order :: "string \<Rightarrow> string \<Rightarrow> bool" where
  "any_order a b \<longleftrightarrow> True"

definition planned_store :: rem_store where
  "planned_store = snd (post_plan any_order demo_rem
     (demo_action ''s1'' [(''action'', JStr ''tag''), (''inputs'', JObj [(''key'', JStr ''v'')])]) 0 (rw_store (rem_start demo_actions)))"

definition executed_store :: rem_store where
  "executed_store = snd (post_action any_order demo_rem (demo_action ''s2'' [(''op'', JStr ''execute'')]) 1 planned_store)"

lemma executed_demo:
  "map pl_status (rm_plans executed_store) = [Executing]" "map pl_created_by (rm_plans executed_store) = [''s1'']"
  "map aj_plan (rm_jobs executed_store) = [demo_plan_id]"
  by code_simp+

lemma executed_reachable: "\<exists>w. rem_reachable any_order demo_rem w \<and> rw_store w = executed_store"
proof -
  let ?w0 = "rem_start demo_actions"
  let ?w1 = "?w0\<lparr>rw_store := planned_store\<rparr>"
  have 1: "rem_step any_order demo_rem ?w0 ?w1"
    unfolding planned_store_def by (rule rem_step.plan) (simp add: rem_start_def)
  obtain aps where "(rem_step any_order demo_rem)\<^sup>*\<^sup>* ?w1 (?w1\<lparr>rw_store := executed_store, rw_approvals := aps\<rparr>)"
    using post_action_is_a_run [of any_order demo_rem ?w1 "demo_action ''s2'' [(''op'', JStr ''execute'')]" 1]
    unfolding executed_store_def by auto
  with 1 have "(rem_step any_order demo_rem)\<^sup>*\<^sup>* ?w0 (?w1\<lparr>rw_store := executed_store, rw_approvals := aps\<rparr>)"
    by (rule converse_rtranclp_into_rtranclp)
  then have "rem_reachable any_order demo_rem (?w1\<lparr>rw_store := executed_store, rw_approvals := aps\<rparr>)"
    unfolding rem_reachable_def by blast
  moreover have "rw_store (?w1\<lparr>rw_store := executed_store, rw_approvals := aps\<rparr>) = executed_store" by (simp add: rem_start_def)
  ultimately show ?thesis by blast
qed


theorem plan_runs_at_most_once_witness:
  "\<exists>p\<in>set (rm_plans executed_store). pl_id p = demo_plan_id \<and> pl_status p = Executing"
proof -
  obtain w where w: "rem_reachable any_order demo_rem w" "rw_store w = executed_store" using executed_reachable by blast
  obtain j where "rm_jobs executed_store = [j]" "aj_plan j = demo_plan_id"
    using executed_demo(3) by (auto simp: map_eq_Cons_conv)
  with plan_runs_at_most_once [OF w(1)] w(2) show ?thesis by auto
qed

definition demo_post :: action_request where
  "demo_post = demo_action ''s1'' [(''action'', JStr ''post''), (''inputs'', JObj [(''channel'', JStr ''#ops'')])]"

theorem external_write_is_allowlisted_witness:
  "\<exists>p. fst (post_plan (\<le>) demo_rem demo_post 0 (rw_store (rem_start demo_actions))) = A_Planned p \<and>
     list_all (\<lambda>s. length s \<le> SIZE_CAP) (strings_of (pl_inputs p))"
proof -
  let ?r = "post_plan (\<le>) demo_rem demo_post 0 (rw_store (rem_start demo_actions))"
  have "(case fst ?r of A_Planned p \<Rightarrow> pl_action p = ''post'' | _ \<Rightarrow> False)" by code_simp
  then obtain p where p: "fst ?r = A_Planned p" "pl_action p = ''post''" by (auto split: action_reply.splits)
  have a: "get_action (\<le>) demo_rem ''post'' (rw_store (rem_start demo_actions)) = Some (demo_actions ! 1)" by code_simp
  have "is_external (Some (demo_actions ! 1))" by code_simp
  from external_write_is_allowlisted [of "(\<le>)" demo_rem demo_post 0 "rw_store (rem_start demo_actions)" p "snd ?r", OF _ _ this collation_code_units]
    p a show ?thesis by (metis prod.collapse)
qed

section \<open>What can go wrong\<close>

text \<open>A cancellation is answered, and audited, as done whatever state the plan is in.\<close>

theorem cancel_of_executing_plan_is_reported:
  assumes "action_admin q = Some u" "uuid_text (aq_id q)" "aq_body q = Inr (JObj [(''op'', JStr ''cancel'')])"
    and "get_plan (aq_id q) st = Some p" "pl_status p = Executing" "distinct (map pl_id (rm_plans st))" "present (re_aurora env)"
  shows "post_action le env q now st = (A_Canceled, st\<lparr>rm_audit := rm_audit st @ [exec_audit q u ''approve'' ''canceled'']\<rparr>)"
proof -
  have "pl_id r = lower (aq_id q) \<Longrightarrow> r \<in> set (rm_plans st) \<Longrightarrow> r = p" for r
    using assms(4) same_plan [OF assms(6)] by (auto simp: get_plan_def find_Some_iff)
  then have "cancel_plan (aq_id q) st = st"
    using assms(5) unfolding cancel_plan_def by (cases st) (auto intro!: map_idI)
  moreover have "check_action le env q now st = Cancel u"
    using assms by (simp add: check_action_def attr_def field_def)
  ultimately show ?thesis using assms(7) by (simp add: post_action_def cancel_action_def record_audit_def)
qed

text \<open>An input named as the captured rollback plan takes its place in the message the workers run.\<close>

theorem input_replaces_rollback_plan:
  assumes "exec_inputs t = JObj [(''rollback_plan'', v)]"
  shows "am_payload (action_message_of q t) = [(''rollback_plan'', v)]"
  using assms by (simp add: action_message_of_def own_fields_def spread_def)

text \<open>
  The plan is claimed before its job is inserted. When the insertion fails the plan stays executing
  with a job that does not exist, and no request can approve or cancel it again.
\<close>

theorem failed_insert_strands_plan:
  assumes "check_action le env q now st = Go t" "claim_plan q t now st = (True, st1)" "aq_end q = Exec_Insert_Fails"
    and "distinct (map pl_id (rm_plans st))" "lower (aq_id q') = lower (aq_id q)"
  shows "post_action le env q now st = (A_Error, st1) \<and> rm_jobs st1 = rm_jobs st \<and>
    fst (claim_plan q' t' later st1) = False \<and> rm_plans (cancel_plan (aq_id q') st1) = rm_plans st1"
proof -
  let ?P = "approvable (aq_id q) (identity_keys (tk_user t)) now" and ?g = "approve (principal (tk_user t)) (job_id q)"
  have m: "rm_plans st1 = map (\<lambda>p. if ?P p then ?g p else p) (rm_plans st)" and "list_ex ?P (rm_plans st)"
    using assms(2) by (auto simp: claim_plan_def set_approved_and_executing_def)
  then obtain p where p: "p \<in> set (rm_plans st)" "?P p" by (auto simp: list_ex_iff)
  have ex: "pl_status r = Executing" if r: "r \<in> set (rm_plans st1)" "pl_id r = lower (aq_id q')" for r
  proof -
    from r(1) m obtain r0 where r0: "r0 \<in> set (rm_plans st)" "r = (if ?P r0 then ?g r0 else r0)" by auto
    with r(2) assms(5) p have "pl_id r0 = pl_id p" by (auto simp: approvable_def split: if_splits)
    with same_plan [OF assms(4) r0(1) p(1)] p(2) r0(2) show ?thesis by simp
  qed
  then have "\<not> list_ex (approvable (aq_id q') (identity_keys (tk_user t')) later) (rm_plans st1)"
    by (auto simp: list_ex_iff approvable_def)
  moreover have "rm_plans (cancel_plan (aq_id q') st1) = rm_plans st1" using ex by (auto simp: cancel_plan_def intro!: map_idI)
  ultimately show ?thesis
    using assms(1-3) claim_plan_tables(1) [OF assms(2)]
    by (simp add: post_action_def enqueue_action_def claim_plan_def set_approved_and_executing_def)
qed

end
