(* ===== verification/Jobs_Api.thy ===== *)
theory Jobs_Api
  imports Jobs Http_Body Remediation
begin

text \<open>
  The handlers of the job ledger (\<^verbatim>\<open>web/app/api/jobs\<close>) and the timing of observed jobs
  (\<^verbatim>\<open>web/lib/job-observability.ts\<close>). The verified user is an argument, none where verification
  fails; so are the administrator's verdict, the codec, the length of a serialized payload and the
  answers of the ledger. Rows are kept in the order they were created.
\<close>

section \<open>Submitting\<close>

definition ALLOWED :: "string list" where "ALLOWED = [''noop'', ''noop-heavy'']"

datatype job_answer =
    Ja_Unauthenticated | Ja_Unconfigured | Ja_Too_Large | Ja_Bad_Json | Ja_Unknown_Type | Ja_Payload_Too_Large
  | Ja_Accepted string string | Ja_Undelivered string string | Ja_Conflict | Ja_Error
  | Ja_Bad_Id | Ja_Not_Found | Ja_Forbidden | Ja_Job job_row | Ja_Jobs "job_row list"

definition job_status_code :: "job_answer \<Rightarrow> nat" where
  "job_status_code a = (case a of
      Ja_Unauthenticated \<Rightarrow> 401 | Ja_Unconfigured \<Rightarrow> 503 | Ja_Too_Large \<Rightarrow> 413 | Ja_Bad_Json \<Rightarrow> 400 | Ja_Unknown_Type \<Rightarrow> 400
    | Ja_Payload_Too_Large \<Rightarrow> 413 | Ja_Accepted _ _ \<Rightarrow> 202 | Ja_Undelivered _ _ \<Rightarrow> 202 | Ja_Conflict \<Rightarrow> 409 | Ja_Error \<Rightarrow> 500
    | Ja_Bad_Id \<Rightarrow> 400 | Ja_Not_Found \<Rightarrow> 404 | Ja_Forbidden \<Rightarrow> 403 | Ja_Job _ \<Rightarrow> 200 | Ja_Jobs _ \<Rightarrow> 200)"

text \<open>\<open>body?.payload && typeof body.payload === 'object'\<close>, spread: an array has its indices for keys.\<close>

definition payload_fields :: "js \<Rightarrow> js_object" where
  "payload_fields v = (case v of JObj fs \<Rightarrow> fs | JArr vs \<Rightarrow> zip (map show_nat [0..<length vs]) vs | _ \<Rightarrow> [])"

definition payload_value :: "js \<Rightarrow> js" where
  "payload_value v = (case v of JObj fs \<Rightarrow> v | JArr vs \<Rightarrow> v | _ \<Rightarrow> JObj [])"

text \<open>A key the client chose is put under the requester's own prefix.\<close>

definition client_key :: "string \<Rightarrow> string \<Rightarrow> string" where
  "client_key sub raw = ''u:'' @ sub @ '':'' @ raw"

definition key_of_body :: "string \<Rightarrow> js \<Rightarrow> string option" where
  "key_of_body sub body = (case attr body ''idempotency_key'' of
      JStr raw \<Rightarrow> if raw = [] then None else Some (client_key sub raw) | _ \<Rightarrow> None)"

definition client_opts :: "user \<Rightarrow> js \<Rightarrow> enqueue_opts" where
  "client_opts u body = \<lparr>opt_key = key_of_body (u_sub u) body, opt_dry_run = Some (truthy (attr body ''dry_run'')),
     opt_job_id = None, opt_requested_by = Some (u_sub u)\<rparr>"

definition enqueue_answer :: "enqueue_error + enqueue_result \<Rightarrow> job_answer" where
  "enqueue_answer out = (case out of
      Inr r \<Rightarrow> Ja_Accepted (r_job_id r) (r_status r)
    | Inl (Delivery_Error i s) \<Rightarrow> Ja_Undelivered i s
    | Inl Key_Collision \<Rightarrow> Ja_Conflict
    | Inl _ \<Rightarrow> Ja_Error)"

definition submit_job ::
  "(js \<Rightarrow> nat) \<Rightarrow> string option \<Rightarrow> string \<Rightarrow> bool \<Rightarrow> user \<Rightarrow> js \<Rightarrow> job_state \<Rightarrow> job_answer \<times> job_state" where
  "submit_job json_len url fresh delivered u body st =
     (case attr body ''type'' of
        JStr t \<Rightarrow>
          if t \<notin> set ALLOWED then (Ja_Unknown_Type, st)
          else if 200000 < json_len (payload_value (attr body ''payload'')) then (Ja_Payload_Too_Large, st)
          else (let (out, st') = enqueue_job url fresh delivered t (payload_fields (attr body ''payload'')) (client_opts u body) st
                in (enqueue_answer out, st'))
      | _ \<Rightarrow> (Ja_Unknown_Type, st))"

definition post_job ::
  "codec \<Rightarrow> (js \<Rightarrow> nat) \<Rightarrow> string option \<Rightarrow> string \<Rightarrow> bool \<Rightarrow> user option \<Rightarrow> http_request \<Rightarrow> job_state \<Rightarrow> job_answer \<times> job_state" where
  "post_job cd json_len url fresh delivered u req st = (case u of
      None \<Rightarrow> (Ja_Unauthenticated, st)
    | Some v \<Rightarrow> if url = None \<or> url = Some [] then (Ja_Unconfigured, st)
        else (case read_json_bounded cd DEFAULT_MAX_BYTES req of
            Inl Body_Too_Large \<Rightarrow> (Ja_Too_Large, st)
          | Inl Syntax_Error \<Rightarrow> (Ja_Bad_Json, st)
          | Inr body \<Rightarrow> submit_job json_len url fresh delivered v body st))"

section \<open>Reading\<close>

definition newest_jobs :: "ledger \<Rightarrow> job_row list" where
  "newest_jobs L = take 50 (rev L)"

definition visible_jobs :: "env \<Rightarrow> bool \<Rightarrow> user \<Rightarrow> ledger \<Rightarrow> ledger" where
  "visible_jobs e admin v L = (if admin then L
     else filter (\<lambda>x. case j_owner x of None \<Rightarrow> False | Some w \<Rightarrow> w \<in> set (owner_keys_for_read e v)) L)"

definition list_jobs :: "env \<Rightarrow> bool \<Rightarrow> user option \<Rightarrow> ledger \<Rightarrow> job_answer" where
  "list_jobs e admin u L = (case u of None \<Rightarrow> Ja_Unauthenticated | Some v \<Rightarrow> Ja_Jobs (newest_jobs (visible_jobs e admin v L)))"

definition show_job :: "env \<Rightarrow> bool \<Rightarrow> user option \<Rightarrow> string \<Rightarrow> ledger \<Rightarrow> job_answer" where
  "show_job e admin u i L = (case u of
      None \<Rightarrow> Ja_Unauthenticated
    | Some v \<Rightarrow> if \<not> uuid_text i then Ja_Bad_Id
        else (case List.find (\<lambda>x. j_id x = lower i) L of
            None \<Rightarrow> Ja_Not_Found
          | Some x \<Rightarrow> if \<not> matches_identity e (j_owner x) v \<and> \<not> admin then Ja_Forbidden else Ja_Job x))"

section \<open>Observed jobs\<close>

text \<open>A time that is missing or cannot be read is none.\<close>

record observed_job =
  oj_id :: string
  oj_status :: string
  oj_attempt :: js
  oj_created :: "int option"
  oj_started :: "int option"
  oj_finished :: "int option"

definition TERMINAL :: "string list" where
  "TERMINAL = [''succeeded'', ''failed'', ''canceled'', ''manual_intervention'']"

definition past_time :: "int option \<Rightarrow> int \<Rightarrow> int option" where
  "past_time t now = (case t of None \<Rightarrow> None | Some x \<Rightarrow> if x \<le> now then Some x else None)"

record job_times =
  jt_id :: string
  jt_wait :: "int option"
  jt_worker :: "int option"
  jt_total :: "int option"
  jt_age :: "int option"
  jt_attempts :: "int option"
  jt_complete :: bool

text \<open>The time between two instants in order.\<close>

definition elapsed :: "int option \<Rightarrow> int option \<Rightarrow> int option" where
  "elapsed a b = (case (a, b) of (Some x, Some y) \<Rightarrow> if x \<le> y then Some (y - x) else None | _ \<Rightarrow> None)"

definition start_valid :: "int option \<Rightarrow> int option \<Rightarrow> int option \<Rightarrow> bool" where
  "start_valid created started finished \<longleftrightarrow> elapsed created started \<noteq> None \<and> (finished = None \<or> elapsed started finished \<noteq> None)"

definition job_timing :: "observed_job \<Rightarrow> int \<Rightarrow> job_times" where
  "job_timing j now =
     (let created = past_time (oj_created j) now; started = past_time (oj_started j) now;
          finished = (if oj_status j \<in> set TERMINAL then past_time (oj_finished j) now else None);
          valid = start_valid created started finished;
          total = elapsed created finished; wait = (if valid then elapsed created started else None);
          worker = (if valid \<and> finished \<noteq> None then elapsed started finished else None)
      in \<lparr>jt_id = oj_id j, jt_wait = wait, jt_worker = worker, jt_total = total,
          jt_age = map_option (\<lambda>c. now - c) created,
          jt_attempts = (case oj_attempt j of JNum n \<Rightarrow> if 0 \<le> n then Some n else None | _ \<Rightarrow> None),
          jt_complete = (wait \<noteq> None \<and> worker \<noteq> None \<and> total \<noteq> None)\<rparr>)"

datatype job_judgement = Good | Bad | Waiting | Unknown

definition job_verdict :: "int \<Rightarrow> int \<Rightarrow> observed_job \<Rightarrow> job_judgement" where
  "job_verdict now target j = (let t = job_timing j now in
     if oj_status j = ''succeeded'' then (case jt_total t of None \<Rightarrow> Unknown | Some d \<Rightarrow> if d \<le> target then Good else Bad)
     else if oj_status j \<in> set TERMINAL then Bad
     else if oj_status j = ''queued'' \<or> oj_status j = ''running'' then
       (case jt_age t of None \<Rightarrow> Unknown | Some a \<Rightarrow> if target < a then Bad else Waiting)
     else Unknown)"

record job_summary =
  js_target :: "int option"
  js_good :: nat
  js_bad :: nat
  js_pending :: nat
  js_unknown :: nat
  js_missing :: nat
  js_sampled :: nat
  js_total_count :: "int option"
  js_complete :: bool
  js_attainment :: "(nat \<times> nat) option"
  js_p95 :: "int option"

definition verdicts :: "job_judgement \<Rightarrow> int \<Rightarrow> int option \<Rightarrow> observed_job list \<Rightarrow> nat" where
  "verdicts v now target js = (case target of None \<Rightarrow> 0 | Some t \<Rightarrow> length (filter (\<lambda>j. job_verdict now t j = v) js))"

definition job_durations :: "int \<Rightarrow> observed_job list \<Rightarrow> int list" where
  "job_durations now js = sort (List.map_filter (\<lambda>j. jt_total (job_timing j now)) js)"

definition missing_durations :: "int \<Rightarrow> observed_job list \<Rightarrow> nat" where
  "missing_durations now js = length (filter (\<lambda>j. jt_total (job_timing j now) = None \<and> oj_status j \<in> set TERMINAL) js)"

text \<open>\<open>Math.ceil(n * 0.95) - 1\<close>, in whole numbers.\<close>

definition p95 :: "int list \<Rightarrow> int option" where
  "p95 ds = (if ds = [] then None else Some (ds ! ((19 * length ds + 19) div 20 - 1)))"

text \<open>The attained share is kept as its numerator and denominator.\<close>

definition summarize_jobs :: "int \<Rightarrow> int option \<Rightarrow> int \<Rightarrow> observed_job list \<Rightarrow> job_summary" where
  "summarize_jobs now asked count_all js =
     (let target = (case asked of None \<Rightarrow> None | Some t \<Rightarrow> if 0 < t then Some t else None);
          good = verdicts Good now target js; bad = verdicts Bad now target js; unknown = verdicts Unknown now target js;
          missing = missing_durations now js; known = (int (length js) \<le> count_all \<and> count_all \<le> 2 ^ 53 - 1);
          complete = (known \<and> count_all = int (length js) \<and> unknown = 0 \<and> missing = 0)
      in \<lparr>js_target = target, js_good = good, js_bad = bad, js_pending = verdicts Waiting now target js,
          js_unknown = (if target = None then missing else unknown), js_missing = missing, js_sampled = length js,
          js_total_count = (if known then Some count_all else None), js_complete = complete,
          js_attainment = (if target \<noteq> None \<and> complete \<and> 0 < good + bad then Some (good, good + bad) else None),
          js_p95 = (if complete then p95 (job_durations now js) else None)\<rparr>)"

section \<open>A client's keys are its own\<close>

text \<open>
  Submissions, enqueues of the other routes, and the workers' updates, in any order. Subjects are
  identifiers without colons, and no other route makes a key that starts with \<open>u:\<close>.
\<close>

datatype submit_event =
    Client "string option" string bool user js
  | Server request
  | Moved string string

fun submit_step :: "(js \<Rightarrow> nat) \<Rightarrow> submit_event \<Rightarrow> job_state \<Rightarrow> job_state" where
  "submit_step n (Client url fresh dlv u body) st = snd (submit_job n url fresh dlv u body st)"
| "submit_step n (Server q) st = snd (run_request q st)"
| "submit_step n (Moved i s) st = set_status i s st"

definition submit_run :: "(js \<Rightarrow> nat) \<Rightarrow> submit_event list \<Rightarrow> job_state" where
  "submit_run n es = foldl (\<lambda>st e. submit_step n e st) \<lparr>ledger = [], queue = []\<rparr> es"

definition plain_sub :: "user \<Rightarrow> bool" where "plain_sub u \<longleftrightarrow> CHR '':'' \<notin> set (u_sub u)"

fun fair_event :: "submit_event \<Rightarrow> bool" where
  "fair_event (Client _ _ _ u _) = plain_sub u"
| "fair_event (Server q) = (case opt_key (q_opts q) of None \<Rightarrow> True | Some k \<Rightarrow> \<not> starts_with ''u:'' k)"
| "fair_event (Moved _ _) = True"

definition client_owned :: "ledger \<Rightarrow> bool" where
  "client_owned L \<longleftrightarrow> (\<forall>x\<in>set L. \<forall>k. j_key x = Some k \<longrightarrow> starts_with ''u:'' k \<longrightarrow>
     (\<exists>sub raw. j_owner x = Some sub \<and> CHR '':'' \<notin> set sub \<and> k = client_key sub raw))"

lemma client_key_inj:
  "CHR '':'' \<notin> set a \<Longrightarrow> CHR '':'' \<notin> set b \<Longrightarrow> client_key a x = client_key b y \<Longrightarrow> a = b"
proof (induction a arbitrary: b)
  case Nil
  then show ?case by (cases b) (auto simp: client_key_def)
next
  case (Cons c a)
  then obtain d b' where b: "b = d # b'" by (cases b) (auto simp: client_key_def)
  then have "client_key a x = client_key b' y" using Cons.prems by (auto simp: client_key_def)
  then show ?case using Cons b by (auto simp: client_key_def)
qed

lemma client_key_prefix: "starts_with ''u:'' (client_key sub raw)"
  by (simp add: starts_with_def client_key_def)

lemma submit_jobE:
  assumes "submit_job n url fresh dlv u body st = (a, st')"
  obtains "st' = st" "a = Ja_Unknown_Type \<or> a = Ja_Payload_Too_Large"
  | q out where "run_request q st = (out, st')" "q_opts q = client_opts u body" "a = enqueue_answer out"
proof -
  have "(st' = st \<and> (a = Ja_Unknown_Type \<or> a = Ja_Payload_Too_Large)) \<or>
    (\<exists>q out. run_request q st = (out, st') \<and> q_opts q = client_opts u body \<and> a = enqueue_answer out)"
  proof (cases "a = Ja_Unknown_Type \<or> a = Ja_Payload_Too_Large")
    case True
    then show ?thesis using assms
      by (auto simp: submit_job_def enqueue_answer_def split: js.splits if_splits prod.splits sum.splits enqueue_error.splits)
  next
    case False
    then obtain t where t: "attr body ''type'' = JStr t"
      "(case enqueue_job url fresh dlv t (payload_fields (attr body ''payload'')) (client_opts u body) st of
          (out, s) \<Rightarrow> (enqueue_answer out, s)) = (a, st')"
      using assms by (auto simp: submit_job_def split: js.splits if_splits)
    let ?q = "\<lparr>q_url = url, q_fresh = fresh, q_delivered = dlv, q_type = t,
      q_payload = payload_fields (attr body ''payload''), q_opts = client_opts u body\<rparr>"
    obtain out where "run_request ?q st = (out, st')" "a = enqueue_answer out"
      using t(2) by (auto simp: run_request_def split: prod.splits)
    then show ?thesis by fastforce
  qed
  then show thesis using that by blast
qed

lemma run_request_ledger:
  assumes "job_ok st" "run_request q st = (out, st')"
  shows "ledger st' = ledger st \<or> (\<exists>r. ledger st' = ledger st @ [r] \<and> j_key r = opt_key (q_opts q) \<and>
    j_owner r = opt_requested_by (q_opts q))"
proof -
  have L: "ledger_ok (ledger st)" using assms(1) by (simp add: job_ok_def)
  show ?thesis using assms(2) [unfolded run_request_def] L by (cases rule: enqueue_jobE) auto
qed

lemma request_keys:
  assumes "job_ok st" "client_owned (ledger st)" "run_request q st = (out, st')"
    "\<And>k. opt_key (q_opts q) = Some k \<Longrightarrow> starts_with ''u:'' k \<Longrightarrow>
       \<exists>sub raw. opt_requested_by (q_opts q) = Some sub \<and> CHR '':'' \<notin> set sub \<and> k = client_key sub raw"
  shows "client_owned (ledger st')"
  using run_request_ledger [OF assms(1,3)] assms(2,4) by (auto simp: client_owned_def)

lemma submit_step_keys:
  assumes "job_ok st" "client_owned (ledger st)" "fair_event ev"
  shows "job_ok (submit_step n ev st) \<and> client_owned (ledger (submit_step n ev st))"
proof (cases ev)
  case (Client url fresh dlv u body)
  obtain a st' where r: "submit_job n url fresh dlv u body st = (a, st')" by fastforce
  from r show ?thesis
  proof (cases rule: submit_jobE)
    case 1
    then show ?thesis using assms Client r by simp
  next
    case (2 q out)
    have "client_owned (ledger st')"
      using 2(2) assms(3) Client
      by (intro request_keys [OF assms(1,2) 2(1)])
        (auto simp: client_opts_def key_of_body_def plain_sub_def split: js.splits if_splits)
    then show ?thesis using Client r run_request_ok [OF assms(1), of q] 2(1) by simp
  qed
next
  case (Server q)
  obtain out st' where r: "run_request q st = (out, st')" by fastforce
  have "client_owned (ledger st')"
    using assms(3) Server by (intro request_keys [OF assms(1,2) r]) auto
  then show ?thesis using Server r run_request_ok [OF assms(1), of q] by simp
next
  case (Moved i s)
  have "client_owned (ledger (set_status i s st))"
    using assms(2) by (auto simp: client_owned_def set_status_def)
  then show ?thesis using Moved set_status_ok [OF assms(1)] by simp
qed

lemma submit_run_keys:
  "list_all fair_event es \<Longrightarrow> job_ok (submit_run n es) \<and> client_owned (ledger (submit_run n es))"
proof (induction es rule: rev_induct)
  case Nil
  show ?case by (simp add: submit_run_def job_ok_def ledger_ok_def client_owned_def)
next
  case (snoc e es)
  then show ?case using submit_step_keys [of "submit_run n es" e n] by (simp add: submit_run_def)
qed

lemma own_key_never_collides:
  assumes "client_owned L" "j_key r = None \<or> (\<exists>sub raw. j_owner r = Some sub \<and> CHR '':'' \<notin> set sub \<and> j_key r = Some (client_key sub raw))"
  shows "fst (insert_or_get L r) \<noteq> Inl Key_Collision"
proof -
  have own: "j_owner x = j_owner r" if "x \<in> set L" "same_key (j_key x) (j_key r)" for x
    using assms that client_key_prefix client_key_inj unfolding client_owned_def same_key_def by metis
  have found: "find_own_job L (j_key r) (j_owner r) \<noteq> None" if "x \<in> set L" "same_key (j_key x) (j_key r)" for x
    using that own by (auto simp: find_own_job_def find_None_iff)
  show ?thesis
  proof (cases "\<exists>x\<in>set L. same_key (j_key x) (j_key r)")
    case True
    then obtain y where "find_own_job L (j_key r) (j_owner r) = Some y" using found by fastforce
    then show ?thesis by (simp add: insert_or_get_def Let_def split: insert_outcome.splits option.splits)
  next
    case False
    then have none: "\<not> arbiter_conflict L r" by (auto simp: arbiter_conflict_def)
    have "\<not> contains ''idempotency_key'' ''worker_jobs_pkey''" by code_simp
    then show ?thesis using False none by (auto simp: insert_or_get_def insert_job_def Let_def)
  qed
qed

text \<open>
  C20. A client's idempotency key is its own. Whatever clients submitted and other routes enqueued
  before, a submission is never refused as a conflict with another requester's key; and the job it
  is answered with is recorded under the caller's own subject.
\<close>

theorem client_key_never_collides:
  assumes "list_all fair_event es" "plain_sub v"
    and "submit_job n url fresh dlv v body (submit_run n es) = (a, st')"
  shows "a \<noteq> Ja_Conflict \<and>
    (\<forall>i s. a \<in> {Ja_Accepted i s, Ja_Undelivered i s} \<longrightarrow> (\<exists>x\<in>set (ledger st'). j_id x = i \<and> j_owner x = Some (u_sub v)))"
  using assms(3)
proof (cases rule: submit_jobE)
  case (2 q out)
  let ?st = "submit_run n es" and ?r = "new_row (q_fresh q) (q_type q) (q_payload q) (q_opts q)"
  have ok: "job_ok ?st" "client_owned (ledger ?st)" using submit_run_keys [OF assms(1)] by auto
  have "j_owner ?r = Some (u_sub v)" "j_key ?r = key_of_body (u_sub v) body" using 2(2) by (simp_all add: client_opts_def)
  moreover have "key_of_body (u_sub v) body = None \<or> (\<exists>raw. key_of_body (u_sub v) body = Some (client_key (u_sub v) raw))"
    by (auto simp: key_of_body_def split: js.splits)
  ultimately have "fst (insert_or_get (ledger ?st) ?r) \<noteq> Inl Key_Collision"
    using own_key_never_collides [OF ok(2)] assms(2) unfolding plain_sub_def by fastforce
  then have "out \<noteq> Inl Key_Collision" using 2(1)
    by (auto simp: run_request_def enqueue_job_def split: if_splits prod.splits sum.splits)
  moreover have L: "ledger_ok (ledger ?st)" using ok(1) by (simp add: job_ok_def)
  have "\<exists>x\<in>set (ledger st'). j_id x = i \<and> j_owner x = Some (u_sub v)"
    if "a = Ja_Accepted i s \<or> a = Ja_Undelivered i s" for i s
    using 2(1) [unfolded run_request_def] L
  proof (cases rule: enqueue_jobE)
    case (3 x)
    then show ?thesis using that 2(2,3) by (auto simp: enqueue_answer_def client_opts_def split: if_splits)
  qed (use that 2(3) in \<open>auto simp: enqueue_answer_def split: enqueue_error.splits\<close>)
  ultimately show ?thesis using 2(3) by (auto simp: enqueue_answer_def split: sum.splits enqueue_error.splits)
qed auto

text \<open>Two clients with the same key of their own choosing.\<close>

definition demo_submitter :: "string \<Rightarrow> user" where
  "demo_submitter sub = \<lparr>u_sub = sub, u_email = None, u_groups = None, u_iat = None\<rparr>"

definition demo_submission :: js where
  "demo_submission = JObj [(''type'', JStr ''noop''), (''idempotency_key'', JStr ''k'')]"

definition demo_submitted :: "submit_event list" where
  "demo_submitted = [Client (Some ''q'') ''j1'' True (demo_submitter ''a'') demo_submission]"

lemma demo_submits:
  "u_sub u = sub \<Longrightarrow> fresh \<notin> j_id ` set (ledger st) \<Longrightarrow> list_all (\<lambda>x. j_key x \<noteq> Some (client_key sub ''k'')) (ledger st) \<Longrightarrow>
   fst (submit_job (\<lambda>_. 2) (Some ''q'') fresh True u demo_submission st) = Ja_Accepted fresh ''queued'' \<and>
   ledger (snd (submit_job (\<lambda>_. 2) (Some ''q'') fresh True u demo_submission st)) = ledger st @
     [\<lparr>j_id = fresh, j_type = ''noop'', j_payload = Some [], j_dry_run = False, j_key = Some (client_key sub ''k''),
       j_owner = Some sub, j_status = ''queued''\<rparr>]"
  by (auto simp: submit_job_def demo_submission_def attr_def field_def ALLOWED_def payload_value_def payload_fields_def
      enqueue_job_def client_opts_def key_of_body_def new_row_def insert_or_get_def insert_job_def arbiter_conflict_def same_key_def
      safe_payload_def enqueue_answer_def message_of_def list_all_iff)

lemma demo_first_submission:
  "ledger (submit_run (\<lambda>_. 2) demo_submitted) = [\<lparr>j_id = ''j1'', j_type = ''noop'', j_payload = Some [], j_dry_run = False,
     j_key = Some (client_key ''a'' ''k''), j_owner = Some ''a'', j_status = ''queued''\<rparr>]"
  using demo_submits [of "demo_submitter ''a''" "''a''" "''j1''" "\<lparr>ledger = [], queue = []\<rparr>"]
  by (simp add: submit_run_def demo_submitted_def demo_submitter_def)

lemma demo_second_submission:
  "submit_job (\<lambda>_. 2) (Some ''q'') ''j2'' True (demo_submitter ''b'') demo_submission (submit_run (\<lambda>_. 2) demo_submitted) =
     (Ja_Accepted ''j2'' ''queued'',
      snd (submit_job (\<lambda>_. 2) (Some ''q'') ''j2'' True (demo_submitter ''b'') demo_submission (submit_run (\<lambda>_. 2) demo_submitted)))"
  using demo_submits [of "demo_submitter ''b''" "''b''" "''j2''" "submit_run (\<lambda>_. 2) demo_submitted"]
  by (simp add: demo_first_submission demo_submitter_def client_key_def prod_eq_iff)

theorem client_key_never_collides_witness:
  "\<exists>x\<in>set (ledger (snd (submit_job (\<lambda>_. 2) (Some ''q'') ''j2'' True (demo_submitter ''b'') demo_submission (submit_run (\<lambda>_. 2) demo_submitted)))).
     j_id x = ''j2'' \<and> j_owner x = Some ''b''"
proof -
  have "list_all fair_event demo_submitted" "plain_sub (demo_submitter ''b'')" "u_sub (demo_submitter ''b'') = ''b''"
    by (simp_all add: demo_submitted_def plain_sub_def demo_submitter_def)
  then show ?thesis using client_key_never_collides [OF _ _ demo_second_submission] by auto
qed

section \<open>Who sees a job\<close>

lemma owner_listed:
  "w \<noteq> Some [] \<Longrightarrow> matches_identity e w v \<longleftrightarrow> (case w of None \<Rightarrow> False | Some o' \<Rightarrow> o' \<in> set (owner_keys_for_read e v))"
proof (cases w)
  case None
  then show ?thesis by (simp add: matches_identity_def present_def)
next
  case (Some o')
  moreover assume "w \<noteq> Some []"
  ultimately show ?thesis using ownership_checks_agree [of o' e v] by simp
qed

text \<open>
  Every job that a caller may open under its id is in what the list is drawn from, and every job
  the list shows can be opened.
\<close>

theorem listed_jobs_open:
  assumes "\<forall>x\<in>set L. uuid_text (j_id x) \<and> lower (j_id x) = j_id x \<and> j_owner x \<noteq> Some []" "distinct (map j_id L)"
  shows "set (visible_jobs e admin v L) = {x \<in> set L. show_job e admin (Some v) (j_id x) L = Ja_Job x} \<and>
    list_jobs e admin (Some v) L = Ja_Jobs (take 50 (rev (visible_jobs e admin v L)))"
proof -
  have find: "List.find (\<lambda>y. j_id y = lower (j_id x)) L = Some x" if "x \<in> set L" for x
    using that assms by (auto simp: find_Some_iff in_set_conv_nth distinct_conv_nth)
  have "x \<in> set (visible_jobs e admin v L) \<longleftrightarrow> show_job e admin (Some v) (j_id x) L = Ja_Job x" if x: "x \<in> set L" for x
  proof -
    have "j_owner x \<noteq> Some []" "uuid_text (j_id x)" using x assms(1) by auto
    then show ?thesis using x find [OF x] owner_listed [of "j_owner x" e v]
      by (auto simp: visible_jobs_def show_job_def)
  qed
  then show ?thesis by (auto simp: list_jobs_def newest_jobs_def visible_jobs_def)
qed

text \<open>The verdicts on a cohort partition it, and a share is only reported for a complete one.\<close>

lemma verdict_count: "length xs = length (filter (\<lambda>j. f j = Good) xs) + length (filter (\<lambda>j. f j = Bad) xs) +
    length (filter (\<lambda>j. f j = Waiting) xs) + length (filter (\<lambda>j. f j = Unknown) xs)"
proof (induction xs)
  case (Cons x xs)
  then show ?case by (cases "f x") auto
qed simp

theorem summary_partitions_jobs:
  assumes "0 < t"
  shows "let s = summarize_jobs now (Some t) n js in
    js_good s + js_bad s + js_pending s + js_unknown s = length js \<and>
    (\<forall>a b. js_attainment s = Some (a, b) \<longrightarrow> a \<le> b \<and> 0 < b \<and> n = int (length js) \<and> js_unknown s = 0)"
  using assms verdict_count [of js "job_verdict now t"]
  by (auto simp: summarize_jobs_def Let_def verdicts_def)

end
