(* ===== verification/Network_Path.thy ===== *)
theory Network_Path
  imports Auth Jobs
begin

text \<open>
  \<open>web/lib/network-path.ts\<close>: saved network path checks, their ownership, and runs that snapshot
  the definition and ride the job ledger. The job ledger is used through an interface; the
  administrator test, the clock and the identifier generator are arguments.
\<close>

section \<open>Data\<close>

record np_check =
  c_id :: string
  c_name :: string
  c_account :: string
  c_definition :: js_object
  c_created_by :: string
  c_created_at :: nat
  c_updated_at :: nat
  c_deleted_at :: "nat option"

record np_run =
  n_id :: string
  n_check :: string
  n_requested_by :: string
  n_snapshot :: js_object
  n_status :: string
  n_phase :: string
  n_job :: "string option"
  n_created_at :: nat

datatype np_error =
    Not_Found
  | Forbidden
  | Validation string
  | Duplicate_Id
  | Enqueue_Failed enqueue_error

record 'q np_state =
  np_checks :: "np_check list"
  np_runs :: "np_run list"
  np_jobs :: 'q

section \<open>Validation\<close>

text \<open>\<open>v && typeof v === 'object'\<close>.\<close>

definition is_object :: "js \<Rightarrow> bool" where
  "is_object v \<longleftrightarrow> (case v of JObj _ \<Rightarrow> True | JArr _ \<Rightarrow> True | _ \<Rightarrow> False)"

fun missing_part :: "js \<Rightarrow> string list \<Rightarrow> string option" where
  "missing_part d [] = None"
| "missing_part d (k # ks) = (if is_object (attr d k) then missing_part d ks else Some k)"

definition validate_definition :: "js \<Rightarrow> np_error + js_object" where
  "validate_definition d =
     (if \<not> is_object d then Inl (Validation ''definition must be an object'')
      else case missing_part d [''source'', ''destination'', ''request''] of
          Some k \<Rightarrow> Inl (Validation (''definition.'' @ k @ '' must be an object''))
        | None \<Rightarrow> Inr (case d of JObj fs \<Rightarrow> fs | _ \<Rightarrow> []))"

definition account_id_ok :: "js \<Rightarrow> bool" where
  "account_id_ok v \<longleftrightarrow> (case v of JStr s \<Rightarrow> length s = 12 \<and> (\<forall>c\<in>set s. is_digit c) | _ \<Rightarrow> False)"

definition name_ok :: "js \<Rightarrow> bool" where
  "name_ok v \<longleftrightarrow> (case v of JStr s \<Rightarrow> trim s \<noteq> [] | _ \<Rightarrow> False)"

section \<open>Checks\<close>

definition get_check :: "string \<Rightarrow> np_check list \<Rightarrow> np_check option" where
  "get_check i cs = List.find (\<lambda>c. c_id c = i) cs"

definition visible :: "bool \<Rightarrow> string list \<Rightarrow> np_check \<Rightarrow> bool" where
  "visible admin enabled c \<longleftrightarrow> c_deleted_at c = None \<and> (admin \<or> c_account c \<in> set enabled)"

definition list_checks :: "bool \<Rightarrow> string list \<Rightarrow> np_check list \<Rightarrow> np_check list" where
  "list_checks admin enabled cs =
     take 200 (sort_le (\<lambda>a b. c_created_at b \<le> c_created_at a) (filter (visible admin enabled) cs))"

definition create_check ::
  "string \<Rightarrow> nat \<Rightarrow> user \<Rightarrow> js \<Rightarrow> 'q np_state \<Rightarrow> (np_error + np_check) \<times> 'q np_state" where
  "create_check fresh now u inp st =
     (if \<not> name_ok (attr inp ''name'') then (Inl (Validation ''name is required''), st)
      else if \<not> account_id_ok (attr inp ''source_account_id'')
        then (Inl (Validation ''source_account_id must be a 12-digit account id''), st)
      else case validate_definition (attr inp ''definition'') of
          Inl e \<Rightarrow> (Inl e, st)
        | Inr d \<Rightarrow>
            if get_check fresh (np_checks st) \<noteq> None then (Inl Duplicate_Id, st)
            else let c = \<lparr>c_id = fresh, c_name = trim (to_string (attr inp ''name'')),
                       c_account = to_string (attr inp ''source_account_id''), c_definition = d,
                       c_created_by = u_sub u, c_created_at = now, c_updated_at = now, c_deleted_at = None\<rparr>
                 in (Inr c, st\<lparr>np_checks := np_checks st @ [c]\<rparr>))"

text \<open>The checks of \<open>updateCheck\<close> and \<open>softDeleteCheck\<close> before they write.\<close>

definition editable :: "env \<Rightarrow> bool \<Rightarrow> user \<Rightarrow> string \<Rightarrow> 'q np_state \<Rightarrow> np_error + np_check" where
  "editable e admin u i st =
     (case get_check i (np_checks st) of
        None \<Rightarrow> Inl Not_Found
      | Some c \<Rightarrow>
          if c_deleted_at c \<noteq> None then Inl Not_Found
          else if \<not> admin \<and> \<not> matches_identity e (Some (c_created_by c)) u then Inl Forbidden
          else Inr c)"

text \<open>\<open>UPDATE ... WHERE id = i\<close>.\<close>

definition write_check :: "string \<Rightarrow> (np_check \<Rightarrow> np_check) \<Rightarrow> 'q np_state \<Rightarrow> 'q np_state" where
  "write_check i f st = st\<lparr>np_checks := map (\<lambda>c. if c_id c = i then f c else c) (np_checks st)\<rparr>"

definition patched_name :: "js \<Rightarrow> np_check \<Rightarrow> string" where
  "patched_name v c = (if name_ok v then trim (to_string v) else c_name c)"

definition update_check ::
  "env \<Rightarrow> bool \<Rightarrow> nat \<Rightarrow> user \<Rightarrow> string \<Rightarrow> js \<Rightarrow> js \<Rightarrow> 'q np_state \<Rightarrow> (np_error + np_check) \<times> 'q np_state" where
  "update_check e admin now u i new_name new_def st =
     (case editable e admin u i st of
        Inl err \<Rightarrow> (Inl err, st)
      | Inr c \<Rightarrow>
          (case (if new_def = JUndef then Inr (c_definition c) else validate_definition new_def) of
             Inl err \<Rightarrow> (Inl err, st)
           | Inr d \<Rightarrow>
               let f = (\<lambda>x. x\<lparr>c_name := patched_name new_name c, c_definition := d, c_updated_at := now\<rparr>)
               in (Inr (f c), write_check i f st)))"

definition soft_delete_check ::
  "env \<Rightarrow> bool \<Rightarrow> nat \<Rightarrow> user \<Rightarrow> string \<Rightarrow> 'q np_state \<Rightarrow> (np_error + unit) \<times> 'q np_state" where
  "soft_delete_check e admin now u i st =
     (case editable e admin u i st of
        Inl err \<Rightarrow> (Inl err, st)
      | Inr c \<Rightarrow> (Inr (), write_check i (\<lambda>x. x\<lparr>c_deleted_at := Some now\<rparr>) st))"

section \<open>Runs\<close>

type_synonym 'q enqueue = "string \<Rightarrow> js_object \<Rightarrow> enqueue_opts \<Rightarrow> 'q \<Rightarrow> (enqueue_error + enqueue_result) \<times> 'q"

definition run_payload :: "string \<Rightarrow> np_check \<Rightarrow> js_object" where
  "run_payload run_id c = [(''run_id'', JStr run_id), (''definition'', JObj (c_definition c)),
     (''source_account_id'', JStr (c_account c))]"

definition run_opts :: "user \<Rightarrow> enqueue_opts" where
  "run_opts u = \<lparr>opt_key = None, opt_dry_run = None, opt_job_id = None, opt_requested_by = Some (u_sub u)\<rparr>"

text \<open>The row is inserted first; if the enqueue throws it stays, without a job id.\<close>

definition create_run ::
  "'q enqueue \<Rightarrow> string \<Rightarrow> nat \<Rightarrow> user \<Rightarrow> string \<Rightarrow> 'q np_state \<Rightarrow> (np_error + np_run) \<times> 'q np_state" where
  "create_run enq fresh now u i st =
     (case get_check i (np_checks st) of
        None \<Rightarrow> (Inl Not_Found, st)
      | Some c \<Rightarrow>
          if c_deleted_at c \<noteq> None then (Inl Not_Found, st)
          else if \<exists>r\<in>set (np_runs st). n_id r = fresh then (Inl Duplicate_Id, st)
          else
            let r = \<lparr>n_id = fresh, n_check = i, n_requested_by = u_sub u, n_snapshot = c_definition c,
                     n_status = ''queued'', n_phase = ''resolve'', n_job = None, n_created_at = now\<rparr>
            in case enq ''network_path'' (run_payload fresh c) (run_opts u) (np_jobs st) of
                 (Inl err, q) \<Rightarrow> (Inl (Enqueue_Failed err), st\<lparr>np_runs := np_runs st @ [r], np_jobs := q\<rparr>)
               | (Inr res, q) \<Rightarrow>
                   (Inr (r\<lparr>n_job := Some (r_job_id res)\<rparr>),
                    st\<lparr>np_runs := np_runs st @ [r\<lparr>n_job := Some (r_job_id res)\<rparr>], np_jobs := q\<rparr>))"

definition clamp_limit :: "int \<Rightarrow> nat" where
  "clamp_limit n = nat (min 200 (max 1 n))"

definition list_runs_for_check :: "string \<Rightarrow> int \<Rightarrow> np_run list \<Rightarrow> np_run list" where
  "list_runs_for_check i limit rs =
     take (clamp_limit limit) (sort_le (\<lambda>a b. n_created_at b \<le> n_created_at a) (filter (\<lambda>r. n_check r = i) rs))"

section \<open>Requests\<close>

datatype np_event =
    Create_Check string nat user js
  | Update_Check bool nat user string js js
  | Delete_Check bool nat user string
  | Create_Run string nat user string

fun np_step :: "env \<Rightarrow> 'q enqueue \<Rightarrow> np_event \<Rightarrow> 'q np_state \<Rightarrow> 'q np_state" where
  "np_step e enq (Create_Check fresh now u inp) st = snd (create_check fresh now u inp st)"
| "np_step e enq (Update_Check admin now u i nm d) st = snd (update_check e admin now u i nm d st)"
| "np_step e enq (Delete_Check admin now u i) st = snd (soft_delete_check e admin now u i st)"
| "np_step e enq (Create_Run fresh now u i) st = snd (create_run enq fresh now u i st)"

text \<open>Events may each see a different enqueue (a fresh id, a delivery that fails).\<close>

definition np_exec :: "env \<Rightarrow> (np_event \<times> 'q enqueue) list \<Rightarrow> 'q np_state \<Rightarrow> 'q np_state" where
  "np_exec e es st = foldl (\<lambda>st (ev, enq). np_step e enq ev st) st es"

lemmas np_ops = create_check_def update_check_def soft_delete_check_def create_run_def write_check_def

lemma np_exec_inv:
  assumes "P st" "\<And>ev enq st. (ev, enq) \<in> set es \<Longrightarrow> P st \<Longrightarrow> P (np_step e enq ev st)"
  shows "P (np_exec e es st)"
  using assms
proof (induction es rule: rev_induct)
  case (snoc x es)
  then have "P (np_exec e es st)" by simp
  then have "P (np_step e (snd x) (fst x) (np_exec e es st))" using snoc.prems(2) by simp
  then show ?case by (simp add: np_exec_def split_beta)
qed (simp add: np_exec_def)

section \<open>Steps on checks and runs\<close>

lemma get_check_Some: "get_check i cs = Some c \<Longrightarrow> c \<in> set cs \<and> c_id c = i"
  by (auto simp: get_check_def find_Some_iff)

lemma get_check_unique: "distinct (map c_id cs) \<Longrightarrow> c \<in> set cs \<Longrightarrow> get_check (c_id c) cs = Some c"
  by (induction cs) (auto simp: get_check_def rev_image_eqI)

lemma get_check_None: "get_check i cs = None \<longleftrightarrow> i \<notin> c_id ` set cs"
  by (auto simp: get_check_def find_None_iff)

lemma editableD: "editable e admin u i st = Inr c \<Longrightarrow>
    get_check i (np_checks st) = Some c \<and> c_deleted_at c = None \<and> (admin \<or> matches_identity e (Some (c_created_by c)) u)"
  by (auto simp: editable_def split: option.splits if_splits)

text \<open>What one request can do to the checks: nothing, append one, or rewrite one by its editor.\<close>

lemma np_step_checks:
  obtains "np_checks (np_step e enq ev st) = np_checks st"
  | c where "np_checks (np_step e enq ev st) = np_checks st @ [c]" "c_id c \<notin> c_id ` set (np_checks st)"
  | c f admin u where "np_checks (np_step e enq ev st) = map (\<lambda>x. if c_id x = c_id c then f x else x) (np_checks st)"
      "get_check (c_id c) (np_checks st) = Some c" "c_deleted_at c = None"
      "admin \<or> matches_identity e (Some (c_created_by c)) u"
      "\<And>x. c_id (f x) = c_id x \<and> c_created_by (f x) = c_created_by x \<and> c_account (f x) = c_account x"
      "(\<exists>now nm d. ev = Update_Check admin now u (c_id c) nm d) \<or> (\<exists>now. ev = Delete_Check admin now u (c_id c))"
proof (cases ev)
  case (Create_Check fresh now u inp)
  have "np_checks (snd (create_check fresh now u inp st)) = np_checks st \<or>
      (\<exists>c. np_checks (snd (create_check fresh now u inp st)) = np_checks st @ [c] \<and>
         c_id c = fresh \<and> get_check fresh (np_checks st) = None)"
    by (auto simp: create_check_def Let_def split: sum.splits)
  then show thesis using that(1,2) Create_Check by (auto simp: get_check_None)
next
  case (Update_Check admin now u i nm d)
  show thesis
  proof (cases "editable e admin u i st")
    case (Inr c)
    note c = editableD [OF Inr]
    then have i: "c_id c = i" using get_check_Some by blast
    show thesis
    proof (cases "if d = JUndef then Inr (c_definition c) else validate_definition d")
      case (Inr d')
      let ?f = "\<lambda>x. x\<lparr>c_name := patched_name nm c, c_definition := d', c_updated_at := now\<rparr>"
      have "np_checks (np_step e enq ev st) = map (\<lambda>x. if c_id x = c_id c then ?f x else x) (np_checks st)"
        using Update_Check \<open>editable e admin u i st = Inr c\<close> Inr i
        by (simp add: update_check_def write_check_def Let_def)
      then show thesis by (rule that(3)) (use c i Update_Check in auto)
    qed (use that(1) Update_Check Inr in \<open>simp add: update_check_def\<close>)
  qed (use that(1) Update_Check in \<open>simp add: update_check_def\<close>)
next
  case (Delete_Check admin now u i)
  show thesis
  proof (cases "editable e admin u i st")
    case (Inr c)
    note c = editableD [OF Inr]
    then have i: "c_id c = i" using get_check_Some by blast
    let ?f = "\<lambda>x. x\<lparr>c_deleted_at := Some now\<rparr>"
    have "np_checks (np_step e enq ev st) = map (\<lambda>x. if c_id x = c_id c then ?f x else x) (np_checks st)"
      using Delete_Check Inr i by (simp add: soft_delete_check_def write_check_def)
    then show thesis by (rule that(3)) (use c i Delete_Check in auto)
  qed (use that(1) Delete_Check in \<open>simp add: soft_delete_check_def\<close>)
next
  case (Create_Run fresh now u i)
  then show thesis using that(1) by (auto simp: create_run_def Let_def split: option.splits sum.splits prod.splits)
qed

lemma np_step_runs:
  obtains "np_runs (np_step e enq ev st) = np_runs st" "np_jobs (np_step e enq ev st) = np_jobs st"
  | fresh now u c r out q where "ev = Create_Run fresh now u (c_id c)"
      "get_check (c_id c) (np_checks st) = Some c" "c_deleted_at c = None" "\<forall>r\<in>set (np_runs st). n_id r \<noteq> fresh"
      "enq ''network_path'' (run_payload fresh c) (run_opts u) (np_jobs st) = (out, q)"
      "np_runs (np_step e enq ev st) = np_runs st @ [r]" "np_jobs (np_step e enq ev st) = q"
      "n_id r = fresh" "n_check r = c_id c" "n_requested_by r = u_sub u" "n_snapshot r = c_definition c"
      "n_job r = (case out of Inl _ \<Rightarrow> None | Inr res \<Rightarrow> Some (r_job_id res))"
proof (cases ev)
  case (Create_Run fresh now u i)
  show thesis
  proof (cases "get_check i (np_checks st)")
    case (Some c)
    then have i: "c_id c = i" using get_check_Some by blast
    obtain out q where enq: "enq ''network_path'' (run_payload fresh c) (run_opts u) (np_jobs st) = (out, q)" by fastforce
    show thesis
    proof (cases "c_deleted_at c = None \<and> (\<forall>r\<in>set (np_runs st). n_id r \<noteq> fresh)")
      case True
      show thesis
        by (rule that(2) [OF _ _ _ _ enq, of now "\<lparr>n_id = fresh, n_check = i, n_requested_by = u_sub u,
            n_snapshot = c_definition c, n_status = ''queued'', n_phase = ''resolve'',
            n_job = (case out of Inl _ \<Rightarrow> None | Inr res \<Rightarrow> Some (r_job_id res)), n_created_at = now\<rparr>"])
          (use True Some enq i Create_Run in \<open>auto simp: create_run_def Let_def split: sum.splits\<close>)
    next
      case False
      then have "create_run enq fresh now u i st = (Inl Not_Found, st) \<or>
          create_run enq fresh now u i st = (Inl Duplicate_Id, st)"
        using Some by (cases "c_deleted_at c = None") (auto simp: create_run_def)
      then show thesis using that(1) Create_Run by auto
    qed
  qed (use that(1) Create_Run in \<open>simp add: create_run_def\<close>)
qed (use that(1) in \<open>auto simp: create_check_def update_check_def soft_delete_check_def write_check_def Let_def
      split: sum.splits if_splits\<close>)

section \<open>Theorems on checks and history\<close>

text \<open>
  Only the creator or an administrator changes a saved check: if a request alters or removes
  a stored check, it is an update or deletion of exactly that check, which was not deleted, by
  an administrator or a user who owns it; and the row keeps its id, owner and account.
\<close>

theorem only_editor_changes_check:
  assumes "distinct (map c_id (np_checks st))" "c \<in> set (np_checks st)"
    and "c \<notin> set (np_checks (np_step e enq ev st))"
  shows "c_deleted_at c = None \<and>
    (\<exists>admin u. ((\<exists>now nm d. ev = Update_Check admin now u (c_id c) nm d) \<or> (\<exists>now. ev = Delete_Check admin now u (c_id c))) \<and>
      (admin \<or> matches_identity e (Some (c_created_by c)) u)) \<and>
    (\<exists>c'\<in>set (np_checks (np_step e enq ev st)). c_id c' = c_id c \<and> c_created_by c' = c_created_by c \<and> c_account c' = c_account c)"
proof (rule np_step_checks [of e enq ev st])
  fix d f admin u
  assume map: "np_checks (np_step e enq ev st) = map (\<lambda>x. if c_id x = c_id d then f x else x) (np_checks st)"
    and d: "get_check (c_id d) (np_checks st) = Some d" "c_deleted_at d = None"
    and may: "admin \<or> matches_identity e (Some (c_created_by d)) u"
    and keep: "\<And>x. c_id (f x) = c_id x \<and> c_created_by (f x) = c_created_by x \<and> c_account (f x) = c_account x"
    and ev: "(\<exists>now nm d'. ev = Update_Check admin now u (c_id d) nm d') \<or> (\<exists>now. ev = Delete_Check admin now u (c_id d))"
  have "c_id c = c_id d"
  proof (rule ccontr)
    assume "c_id c \<noteq> c_id d"
    then have "c \<in> set (np_checks (np_step e enq ev st))" unfolding map using assms(2) by force
    with assms(3) show False by simp
  qed
  then have "c = d" using d(1) get_check_unique [OF assms(1,2)] by simp
  moreover have "f c \<in> set (np_checks (np_step e enq ev st))"
    unfolding map using assms(2) \<open>c_id c = c_id d\<close> by force
  ultimately show ?thesis using d(2) may ev keep by blast
qed (use assms in auto)

lemma np_runs_grow: "set (np_runs (st :: 'q np_state)) \<subseteq> set (np_runs (np_exec e es st))"
proof (rule np_exec_inv [where P = "\<lambda>s :: 'q np_state. set (np_runs st) \<subseteq> set (np_runs s)"])
  fix ev enq and s :: "'q np_state" assume "set (np_runs st) \<subseteq> set (np_runs s)"
  then show "set (np_runs st) \<subseteq> set (np_runs (np_step e enq ev s))"
    by (rule_tac np_step_runs [of e enq ev s]) auto
qed simp

lemma np_run_ids: "distinct (map n_id (np_runs (st :: 'q np_state))) \<Longrightarrow> distinct (map n_id (np_runs (np_exec e es st)))"
proof (rule np_exec_inv [where P = "\<lambda>s :: 'q np_state. distinct (map n_id (np_runs s))"])
  fix ev enq and s :: "'q np_state" assume "distinct (map n_id (np_runs s))"
  then show "distinct (map n_id (np_runs (np_step e enq ev s)))"
    by (rule_tac np_step_runs [of e enq ev s]) auto
qed simp

text \<open>
  Run history is immutable evidence: a run records the definition its check had, un-deleted,
  when it was requested, and no later sequence of requests (editing or deleting the check
  included) alters or drops the recorded row.
\<close>

theorem run_history_immutable:
  assumes "create_run enq fresh now u i st = (Inr r, st')" and "distinct (map n_id (np_runs st))"
  shows "\<exists>c. get_check i (np_checks st) = Some c \<and> c_deleted_at c = None \<and>
    n_snapshot r = c_definition c \<and> n_requested_by r = u_sub u \<and>
    [x \<leftarrow> np_runs (np_exec e es st'). n_id x = n_id r] = [r]"
proof -
  obtain c where c: "get_check i (np_checks st) = Some c" "c_deleted_at c = None" "n_id r = fresh"
      "n_snapshot r = c_definition c" "n_requested_by r = u_sub u" "np_runs st' = np_runs st @ [r]"
      "\<forall>x\<in>set (np_runs st). n_id x \<noteq> fresh"
    using assms(1) by (auto simp: create_run_def Let_def split: option.splits sum.splits prod.splits if_splits)
  let ?runs = "np_runs (np_exec e es st')"
  have "distinct (map n_id (np_runs st'))" using assms(2) c(3,6,7) by auto
  then have d: "distinct (map n_id ?runs)" by (rule np_run_ids)
  have "r \<in> set ?runs" using np_runs_grow [of st' e es] c(6) by auto
  moreover have "[x \<leftarrow> xs. n_id x = n_id r] = [r]" if "r \<in> set xs" "distinct (map n_id xs)" for xs
    using that by (induction xs) (auto simp: filter_empty_conv rev_image_eqI)
  ultimately show ?thesis using c d by blast
qed

definition retired :: "string \<Rightarrow> np_run list \<Rightarrow> 'q np_state \<Rightarrow> bool" where
  "retired i rs st \<longleftrightarrow> (\<exists>c. get_check i (np_checks st) = Some c \<and> c_deleted_at c \<noteq> None) \<and>
     distinct (map c_id (np_checks st)) \<and> [r \<leftarrow> np_runs st. n_check r = i] = rs"

lemma retired_step: "retired i rs st \<Longrightarrow> retired i rs (np_step e enq ev st)"
proof -
  assume r: "retired i rs st"
  then obtain c where c: "get_check i (np_checks st) = Some c" "c_deleted_at c \<noteq> None"
    and d: "distinct (map c_id (np_checks st))" unfolding retired_def by blast
  have mem: "c \<in> set (np_checks st)" "c_id c = i" using get_check_Some [OF c(1)] by auto
  have "c \<in> set (np_checks (np_step e enq ev st)) \<and> distinct (map c_id (np_checks (np_step e enq ev st)))"
  proof (rule np_step_checks [of e enq ev st])
    fix x f admin u
    assume map: "np_checks (np_step e enq ev st) = map (\<lambda>y. if c_id y = c_id x then f y else y) (np_checks st)"
      and x: "get_check (c_id x) (np_checks st) = Some x" "c_deleted_at x = None"
      and keep: "\<And>y. c_id (f y) = c_id y \<and> c_created_by (f y) = c_created_by y \<and> c_account (f y) = c_account y"
    have "c_id c \<noteq> c_id x"
    proof
      assume "c_id c = c_id x"
      then have "c = x" using x(1) c(1) mem(2) by simp
      with c(2) x(2) show False by simp
    qed
    then have "c \<in> set (np_checks (np_step e enq ev st))" unfolding map using mem(1) by force
    moreover have "map c_id (np_checks (np_step e enq ev st)) = map c_id (np_checks st)"
      unfolding map using keep by simp
    ultimately show ?thesis using d by simp
  qed (use mem d in auto)
  then have "get_check i (np_checks (np_step e enq ev st)) = Some c" "distinct (map c_id (np_checks (np_step e enq ev st)))"
    using get_check_unique mem(2) by blast+
  moreover have "[x \<leftarrow> np_runs (np_step e enq ev st). n_check x = i] = rs"
  proof (rule np_step_runs [of e enq ev st])
    fix fresh now u x y out q
    assume "get_check (c_id x) (np_checks st) = Some x" "c_deleted_at x = None"
      "np_runs (np_step e enq ev st) = np_runs st @ [y]" "n_check y = c_id x"
    moreover from this have "c_id x \<noteq> i" using c by auto
    ultimately show ?thesis using r by (simp add: retired_def)
  qed (use r in \<open>simp add: retired_def\<close>)
  ultimately show ?thesis using c(2) unfolding retired_def by blast
qed

text \<open>
  Deleting a check retires it for good: from then on it is listed for nobody, every attempt
  to run, edit or delete it again answers "not found", and its run history stays as it is.
\<close>

theorem deleted_check_is_retired:
  assumes "soft_delete_check e admin now u i st = (Inr (), st')" and "distinct (map c_id (np_checks st))"
  shows "let s = np_exec e es st' in
    (\<forall>c\<in>set (list_checks admin' enabled (np_checks s)). c_id c \<noteq> i) \<and>
    fst (create_run enq fresh now' u' i s) = Inl Not_Found \<and>
    fst (update_check e admin' now' u' i nm d s) = Inl Not_Found \<and>
    fst (soft_delete_check e admin' now' u' i s) = Inl Not_Found \<and>
    [r \<leftarrow> np_runs s. n_check r = i] = [r \<leftarrow> np_runs st. n_check r = i]"
proof -
  obtain c where c: "get_check i (np_checks st) = Some c"
    and st': "st' = write_check i (\<lambda>x. x\<lparr>c_deleted_at := Some now\<rparr>) st"
    using assms(1) by (auto simp: soft_delete_check_def editable_def split: option.splits if_splits)
  let ?f = "\<lambda>x. if c_id x = i then x\<lparr>c_deleted_at := Some now\<rparr> else x"
  have ids: "map c_id (np_checks st') = map c_id (np_checks st)" by (simp add: st' write_check_def)
  have fc: "?f c \<in> set (np_checks st')" "c_id (?f c) = i"
    using get_check_Some [OF c] by (auto simp: st' write_check_def)
  have d': "distinct (map c_id (np_checks st'))" using ids assms(2) by simp
  have "get_check i (np_checks st') = Some (?f c)" using get_check_unique [OF d' fc(1)] unfolding fc(2) .
  moreover have "c_deleted_at (?f c) \<noteq> None" using get_check_Some [OF c] by simp
  moreover have "np_runs st' = np_runs st" by (simp add: st' write_check_def)
  ultimately have "retired i [r \<leftarrow> np_runs st. n_check r = i] st'" using d' unfolding retired_def by metis
  then have ret: "retired i [r \<leftarrow> np_runs st. n_check r = i] (np_exec e es st')"
    by (rule np_exec_inv) (rule retired_step)
  then obtain x where x: "get_check i (np_checks (np_exec e es st')) = Some x" "c_deleted_at x \<noteq> None"
    and d: "distinct (map c_id (np_checks (np_exec e es st')))" unfolding retired_def by blast
  have "c_id y \<noteq> i" if "y \<in> set (list_checks admin' enabled (np_checks (np_exec e es st')))" for y
  proof
    assume "c_id y = i"
    moreover have "y \<in> set (np_checks (np_exec e es st'))" "c_deleted_at y = None"
      using that by (auto simp: list_checks_def visible_def dest!: in_set_takeD)
    ultimately show False using x get_check_unique [OF d] by fastforce
  qed
  then show ?thesis
    using x ret by (auto simp: Let_def retired_def create_run_def update_check_def soft_delete_check_def editable_def)
qed

section \<open>Runs and the job ledger\<close>

text \<open>
  What a run relies on of the job queue: a provider with per-call parameters keeps its
  invariant, forgets no job, and, asked without an idempotency key, records under a new id
  exactly the job it was given. Only the id and recorded facts of a job are visible here.
\<close>

definition unshared_jobs :: "np_run list \<Rightarrow> bool" where
  "unshared_jobs rs \<longleftrightarrow> (\<forall>r\<in>set rs. \<forall>s\<in>set rs. \<forall>j. n_job r = Some j \<longrightarrow> n_job s = Some j \<longrightarrow> r = s)"

lemma unshared_jobs_snoc:
  "unshared_jobs rs \<Longrightarrow> (\<And>s j. s \<in> set rs \<Longrightarrow> n_job s = Some j \<Longrightarrow> n_job r \<noteq> Some j) \<Longrightarrow> unshared_jobs (rs @ [r])"
  unfolding unshared_jobs_def by auto

locale job_queue =
  fixes enq :: "'p \<Rightarrow> 'q enqueue"
    and recorded :: "'q \<Rightarrow> string \<Rightarrow> string \<Rightarrow> js_object \<Rightarrow> string option \<Rightarrow> bool"
    and known :: "'q \<Rightarrow> string \<Rightarrow> bool"
    and ok :: "'q \<Rightarrow> bool"
  assumes ok_enq: "ok q \<Longrightarrow> enq p type pl opts q = (out, q') \<Longrightarrow> ok q'"
    and keeps: "ok q \<Longrightarrow> enq p type pl opts q = (out, q') \<Longrightarrow> recorded q i t x w \<Longrightarrow> recorded q' i t x w"
    and fresh_job: "ok q \<Longrightarrow> opt_key opts = None \<Longrightarrow> enq p type pl opts q = (Inr res, q') \<Longrightarrow>
      recorded q' (r_job_id res) type (safe_payload pl) (opt_requested_by opts) \<and> \<not> known q (r_job_id res)"
    and recorded_known: "ok q \<Longrightarrow> recorded q i t x w \<Longrightarrow> known q i"
begin

definition run_backed :: "'q np_state \<Rightarrow> np_run \<Rightarrow> bool" where
  "run_backed st r \<longleftrightarrow>
     (\<forall>j. n_job r = Some j \<longrightarrow>
        (\<exists>c\<in>set (np_checks st). c_id c = n_check r \<and>
           recorded (np_jobs st) j ''network_path''
             [(''run_id'', JStr (n_id r)), (''definition'', JObj (n_snapshot r)), (''source_account_id'', JStr (c_account c))]
             (Some (n_requested_by r))))"

definition all_backed :: "'q np_state \<Rightarrow> bool" where
  "all_backed st \<longleftrightarrow> ok (np_jobs st) \<and> (\<forall>r\<in>set (np_runs st). run_backed st r) \<and>
     unshared_jobs (np_runs st)"

lemma checks_kept:
  assumes "c \<in> set (np_checks st)"
  shows "\<exists>c'\<in>set (np_checks (np_step e enq' ev st)). c_id c' = c_id c \<and> c_account c' = c_account c"
proof (rule np_step_checks [of e enq' ev st])
  fix d f
  assume map: "np_checks (np_step e enq' ev st) = map (\<lambda>x. if c_id x = c_id d then f x else x) (np_checks st)"
    and keep: "\<And>x. c_id (f x) = c_id x \<and> c_created_by (f x) = c_created_by x \<and> c_account (f x) = c_account x"
  show ?thesis
    by (rule bexI [of _ "if c_id c = c_id d then f c else c"]) (use assms keep in \<open>auto simp: map\<close>)
qed (use assms in auto)

lemma run_backed_step:
  assumes "run_backed st r" "\<And>i t x w. recorded (np_jobs st) i t x w \<Longrightarrow> recorded (np_jobs (np_step e enq' ev st)) i t x w"
  shows "run_backed (np_step e enq' ev st) r"
  unfolding run_backed_def
proof (intro allI impI)
  fix j assume "n_job r = Some j"
  then obtain c where c: "c \<in> set (np_checks st)" "c_id c = n_check r"
    "recorded (np_jobs st) j ''network_path'' [(''run_id'', JStr (n_id r)), (''definition'', JObj (n_snapshot r)),
       (''source_account_id'', JStr (c_account c))] (Some (n_requested_by r))"
    using assms(1) unfolding run_backed_def by blast
  obtain c' where c': "c' \<in> set (np_checks (np_step e enq' ev st))" "c_id c' = c_id c" "c_account c' = c_account c"
    using checks_kept [OF c(1)] by blast
  from assms(2) [OF c(3)] c c' show "\<exists>c\<in>set (np_checks (np_step e enq' ev st)). c_id c = n_check r \<and>
      recorded (np_jobs (np_step e enq' ev st)) j ''network_path'' [(''run_id'', JStr (n_id r)),
        (''definition'', JObj (n_snapshot r)), (''source_account_id'', JStr (c_account c))] (Some (n_requested_by r))"
    by (intro bexI [of _ c']) simp_all
qed

lemma safe_run_payload: "safe_payload (run_payload i c) = run_payload i c"
  by (simp add: safe_payload_def run_payload_def)

lemma all_backed_step:
  assumes "all_backed st"
  shows "all_backed (np_step e (enq p) ev st)"
proof (rule np_step_runs [of e "enq p" ev st])
  assume same: "np_runs (np_step e (enq p) ev st) = np_runs st" "np_jobs (np_step e (enq p) ev st) = np_jobs st"
  then have "run_backed (np_step e (enq p) ev st) r" if "r \<in> set (np_runs st)" for r
    using assms that by (intro run_backed_step) (simp_all add: all_backed_def)
  with same assms show ?thesis by (simp add: all_backed_def)
next
  fix fresh now u c r out q
  assume ev: "ev = Create_Run fresh now u (c_id c)"
    and c: "get_check (c_id c) (np_checks st) = Some c"
    and new: "\<forall>r\<in>set (np_runs st). n_id r \<noteq> fresh"
    and call: "enq p ''network_path'' (run_payload fresh c) (run_opts u) (np_jobs st) = (out, q)"
    and st': "np_runs (np_step e (enq p) ev st) = np_runs st @ [r]" "np_jobs (np_step e (enq p) ev st) = q"
    and r: "n_id r = fresh" "n_check r = c_id c" "n_requested_by r = u_sub u" "n_snapshot r = c_definition c"
      "n_job r = (case out of Inl _ \<Rightarrow> None | Inr res \<Rightarrow> Some (r_job_id res))"
  let ?st' = "np_step e (enq p) ev st"
  have ok: "ok (np_jobs st)" using assms by (simp add: all_backed_def)
  have keep: "recorded (np_jobs st) i t x w \<Longrightarrow> recorded (np_jobs ?st') i t x w" for i t x w
    unfolding st'(2) by (rule keeps [OF ok call])
  have old: "run_backed ?st' s" if "s \<in> set (np_runs st)" for s
    using assms that keep by (intro run_backed_step) (simp_all add: all_backed_def)
  have checks: "np_checks ?st' = np_checks st"
    using ev by (auto simp: create_run_def Let_def split: option.splits sum.splits prod.splits)
  have job: "recorded q j ''network_path'' (run_payload fresh c) (Some (u_sub u)) \<and> \<not> known (np_jobs st) j"
    if "n_job r = Some j" for j
  proof (cases out)
    case (Inr res)
    have "opt_key (run_opts u) = None" "opt_requested_by (run_opts u) = Some (u_sub u)" by (simp_all add: run_opts_def)
    with fresh_job [OF ok _ call [unfolded Inr]] that r(5) Inr show ?thesis by (simp add: safe_run_payload)
  qed (use that r(5) in simp)
  have "run_backed ?st' r"
    unfolding run_backed_def checks st'(2)
    using job get_check_Some [OF c] r by (auto simp: run_payload_def)
  moreover have "unshared_jobs (np_runs st @ [r])"
  proof (rule unshared_jobs_snoc)
    show "unshared_jobs (np_runs st)" using assms by (simp add: all_backed_def)
    fix s j assume s: "s \<in> set (np_runs st)" "n_job s = Some j"
    then have "known (np_jobs st) j"
      using assms recorded_known [OF ok] unfolding all_backed_def run_backed_def by metis
    then show "n_job r \<noteq> Some j" using job by blast
  qed
  ultimately show ?thesis
    using old st' ok_enq [OF ok call] unfolding all_backed_def by simp
qed

lemma all_backed_exec:
  "all_backed st \<Longrightarrow> all_backed (np_exec e (map (\<lambda>(ev, p). (ev, enq p)) es) st)"
  by (rule np_exec_inv) (auto intro: all_backed_step)

end

text \<open>The ledger of \<open>web/lib/jobs.ts\<close> is such a queue; a call's parameters are its URL, fresh id and delivery.\<close>

definition ledger_enqueue :: "string option \<times> string \<times> bool \<Rightarrow> job_state enqueue" where
  "ledger_enqueue = (\<lambda>(url, fresh, dlv) type pl opts st. enqueue_job url fresh dlv type pl opts st)"

definition ledger_recorded :: "job_state \<Rightarrow> string \<Rightarrow> string \<Rightarrow> js_object \<Rightarrow> string option \<Rightarrow> bool" where
  "ledger_recorded st i t pl w \<longleftrightarrow> (\<exists>x\<in>set (ledger st). j_id x = i \<and> j_type x = t \<and> j_payload x = Some pl \<and> j_owner x = w)"

lemma ledger_grows:
  assumes "ledger_ok (ledger q)" "enqueue_job url fresh dlv type pl opts q = (out, q')"
  shows "set (ledger q) \<subseteq> set (ledger q')"
  using assms(2,1) by (cases rule: enqueue_jobE) auto

interpretation ledger_queue: job_queue ledger_enqueue ledger_recorded "\<lambda>st i. i \<in> j_id ` set (ledger st)" job_ok
proof
  fix q q' out opts type pl and p :: "string option \<times> string \<times> bool"
  assume q: "job_ok q" and call: "ledger_enqueue p type pl opts q = (out, q')"
  obtain url fresh dlv where p: "p = (url, fresh, dlv)" by (cases p)
  let ?r = "\<lparr>q_url = url, q_fresh = fresh, q_delivered = dlv, q_type = type, q_payload = pl, q_opts = opts\<rparr>"
  have "run_request ?r q = (out, q')" using call p by (simp add: run_request_def ledger_enqueue_def)
  then show "job_ok q'" using run_request_ok [OF q, of ?r] by simp
  show "ledger_recorded q i t x w \<Longrightarrow> ledger_recorded q' i t x w" for i t x w
    using ledger_grows [of q url fresh dlv type pl opts out q'] q call p
    by (auto simp: ledger_recorded_def ledger_enqueue_def job_ok_def)
next
  fix q q' opts type pl res and p :: "string option \<times> string \<times> bool"
  assume q: "job_ok q" and key: "opt_key opts = None" and call: "ledger_enqueue p type pl opts q = (Inr res, q')"
  obtain url fresh dlv where p: "p = (url, fresh, dlv)" by (cases p)
  have L: "ledger_ok (ledger q)" using q by (simp add: job_ok_def)
  have "enqueue_job url fresh dlv type pl opts q = (Inr res, q')" using call p by (simp add: ledger_enqueue_def)
  then show "ledger_recorded q' (r_job_id res) type (safe_payload pl) (opt_requested_by opts) \<and>
      r_job_id res \<notin> j_id ` set (ledger q)"
    using L
  proof (cases rule: enqueue_jobE)
    case (3 x)
    then have x: "x = new_row fresh type pl opts" "r_job_id res = j_id x" using key by (auto simp: same_key_def split: if_splits)
    have "ledger q' = ledger q @ [x]" using 3(4) key by (auto simp: same_key_def)
    with 3(2) x show ?thesis unfolding ledger_ok_def by (auto simp: ledger_recorded_def new_row_def)
  qed simp_all
next
  show "ledger_recorded q i t x w \<Longrightarrow> i \<in> j_id ` set (ledger q)" if "job_ok q" for q i t x w
    by (auto simp: ledger_recorded_def)
qed

definition np_start :: "job_event list \<Rightarrow> job_state np_state" where
  "np_start jes = \<lparr>np_checks = [], np_runs = [], np_jobs = job_run jes\<rparr>"

abbreviation np_requests :: "env \<Rightarrow> job_event list \<Rightarrow> (np_event \<times> string option \<times> string \<times> bool) list \<Rightarrow> job_state np_state" where
  "np_requests e jes es \<equiv> np_exec e (map (\<lambda>(ev, p). (ev, ledger_enqueue p)) es) (np_start jes)"

lemma np_start_backed: "ledger_queue.all_backed (np_start jes)"
  by (simp add: ledger_queue.all_backed_def np_start_def job_ok_run unshared_jobs_def)

text \<open>
  C24. What a worker executes is what the run recorded: after any requests, a run linked to a job
  is the only run linked to it, and the ledger row of that job is a network-path job of the same
  requester whose payload is exactly the run's id, its definition snapshot and the account of
  its check.
\<close>

theorem run_job_carries_snapshot:
  assumes "r \<in> set (np_runs (np_requests e jes es))" "n_job r = Some j"
  shows "(\<exists>c\<in>set (np_checks (np_requests e jes es)). \<exists>x\<in>set (ledger (np_jobs (np_requests e jes es))).
      c_id c = n_check r \<and> j_id x = j \<and> j_type x = ''network_path'' \<and> j_owner x = Some (n_requested_by r) \<and>
      j_payload x = Some [(''run_id'', JStr (n_id r)), (''definition'', JObj (n_snapshot r)),
        (''source_account_id'', JStr (c_account c))]) \<and>
    (\<forall>s\<in>set (np_runs (np_requests e jes es)). n_job s = Some j \<longrightarrow> s = r)"
proof -
  have b: "ledger_queue.all_backed (np_requests e jes es)"
    by (rule ledger_queue.all_backed_exec [OF np_start_backed])
  then have "ledger_queue.run_backed (np_requests e jes es) r" "unshared_jobs (np_runs (np_requests e jes es))"
    using assms(1) by (simp_all add: ledger_queue.all_backed_def)
  then show ?thesis
    using assms unfolding ledger_queue.run_backed_def ledger_recorded_def unshared_jobs_def by blast
qed

section \<open>A sample history\<close>

definition sample_def :: js where
  "sample_def = JObj [(''source'', JObj [(''ip'', JStr ''10.0.0.1'')]), (''destination'', JObj []), (''request'', JObj [])]"

definition sample_input :: js where
  "sample_input = JObj [(''name'', JStr '' web ''), (''source_account_id'', JStr ''123456789012''), (''definition'', sample_def)]"

definition create_sample :: "np_event \<times> string option \<times> string \<times> bool" where
  "create_sample = (Create_Check ''c1'' 1 sample_user sample_input, Some ''https://q'', ''x'', True)"

definition run_sample :: "np_event \<times> string option \<times> string \<times> bool" where
  "run_sample = (Create_Run ''r1'' 2 sample_user ''c1'', Some ''https://q'', ''j1'', True)"

abbreviation sample_checks :: "job_state np_state" where
  "sample_checks \<equiv> np_requests sample_env [] [create_sample]"

abbreviation sample_run_state :: "job_state np_state" where
  "sample_run_state \<equiv> np_requests sample_env [] [create_sample, run_sample]"

definition sample_run :: np_run where
  "sample_run = \<lparr>n_id = ''r1'', n_check = ''c1'', n_requested_by = ''u-1'',
     n_snapshot = [(''source'', JObj [(''ip'', JStr ''10.0.0.1'')]), (''destination'', JObj []), (''request'', JObj [])],
     n_status = ''queued'', n_phase = ''resolve'', n_job = Some ''j1'', n_created_at = 2\<rparr>"

definition sample_check :: np_check where
  "sample_check = \<lparr>c_id = ''c1'', c_name = ''web'', c_account = ''123456789012'',
     c_definition = [(''source'', JObj [(''ip'', JStr ''10.0.0.1'')]), (''destination'', JObj []), (''request'', JObj [])],
     c_created_by = ''u-1'', c_created_at = 1, c_updated_at = 1, c_deleted_at = None\<rparr>"

lemma sample_checks_eq: "np_checks sample_checks = [sample_check]" "np_runs sample_checks = []"
  by code_simp+

lemma sample_run_state_eq: "np_runs sample_run_state = [sample_run]"
  by code_simp

theorem run_job_carries_snapshot_witness:
  "\<exists>x\<in>set (ledger (np_jobs sample_run_state)). j_id x = ''j1'' \<and> j_type x = ''network_path'' \<and> j_owner x = Some ''u-1''"
proof -
  have r: "sample_run \<in> set (np_runs sample_run_state)" unfolding sample_run_state_eq by simp
  have j: "n_job sample_run = Some ''j1''" "n_requested_by sample_run = ''u-1''" by (simp_all add: sample_run_def)
  from run_job_carries_snapshot [OF r j(1)] show ?thesis unfolding j(2) by blast
qed

theorem only_editor_changes_check_witness:
  "\<exists>c'\<in>set (np_checks (np_step sample_env (ledger_enqueue (None, [], True)) (Delete_Check True 3 sample_user ''c1'') sample_checks)).
     c_id c' = ''c1'' \<and> c_created_by c' = ''u-1''"
proof -
  let ?ev = "Delete_Check True 3 sample_user ''c1''"
  have c: "c_id sample_check = ''c1''" "c_created_by sample_check = ''u-1''" by (simp_all add: sample_check_def)
  have d: "distinct (map c_id (np_checks sample_checks))" unfolding sample_checks_eq by simp
  have m: "sample_check \<in> set (np_checks sample_checks)" unfolding sample_checks_eq by simp
  have "np_checks (np_step sample_env (ledger_enqueue (None, [], True)) ?ev sample_checks) = [sample_check\<lparr>c_deleted_at := Some 3\<rparr>]"
    by code_simp
  then have "sample_check \<notin> set (np_checks (np_step sample_env (ledger_enqueue (None, [], True)) ?ev sample_checks))"
    by (simp add: sample_check_def)
  from only_editor_changes_check [OF d m this] show ?thesis unfolding c by blast
qed

lemma sample_create_run:
  "fst (create_run (ledger_enqueue (Some ''https://q'', ''j1'', True)) ''r1'' 2 sample_user ''c1'' sample_checks) = Inr sample_run"
  by code_simp

theorem run_history_immutable_witness:
  "\<exists>st'. fst (create_run (ledger_enqueue (Some ''https://q'', ''j1'', True)) ''r1'' 2 sample_user ''c1'' sample_checks) = Inr sample_run \<and>
     [x \<leftarrow> np_runs (np_exec sample_env [(Delete_Check True 3 sample_user ''c1'', ledger_enqueue (None, [], True))] st').
        n_id x = n_id sample_run] = [sample_run]"
proof -
  let ?res = "create_run (ledger_enqueue (Some ''https://q'', ''j1'', True)) ''r1'' 2 sample_user ''c1'' sample_checks"
  have run: "?res = (Inr sample_run, snd ?res)" using surjective_pairing [of ?res] unfolding sample_create_run .
  have "distinct (map n_id (np_runs sample_checks))" unfolding sample_checks_eq by simp
  from run_history_immutable [OF run this] sample_create_run show ?thesis by blast
qed

theorem deleted_check_is_retired_witness:
  "fst (create_run (ledger_enqueue (None, [], True)) ''r2'' 9 sample_user ''c1''
     (snd (soft_delete_check sample_env False 3 sample_user ''c1'' sample_checks))) = Inl Not_Found"
proof -
  let ?res = "soft_delete_check sample_env False 3 sample_user ''c1'' sample_checks"
  have "fst ?res = Inr ()" by code_simp
  then have res: "?res = (Inr (), snd ?res)" using surjective_pairing [of ?res] by simp
  have "distinct (map c_id (np_checks sample_checks))" unfolding sample_checks_eq by simp
  from deleted_check_is_retired [OF res this, of "[]"] show ?thesis by (simp add: Let_def np_exec_def)
qed

end
