(* ===== verification/Network_Path_Api.thy ===== *)
theory Network_Path_Api
  imports Network_Path Http_Body
begin

text \<open>
  The handlers of network path checks (\<^verbatim>\<open>web/app/api/network-paths\<close>, \<^verbatim>\<open>web/app/api/network-path-runs\<close>,
  with the gates of \<^verbatim>\<open>web/lib/network-path-gate.ts\<close>) and the detail of a run. The verified user is an
  argument, none where verification fails; so are the codec, the administrator's verdict, the enabled
  accounts, the collation, and the rows the workers write.
\<close>

section \<open>The detail of a run\<close>

record np_candidate =
  nc_run :: string
  nc_id :: string
  nc_kind :: string
  nc_status :: "string option"
  nc_blocker :: "string option"

record np_step_row =
  ns_run :: string
  ns_candidate :: string
  ns_ordinal :: int
  ns_status :: string
  ns_summary :: string

record np_detail =
  nd_run :: np_run
  nd_candidates :: "np_candidate list"
  nd_steps :: "np_step_row list"

definition get_run_detail ::
  "(string \<Rightarrow> string \<Rightarrow> bool) \<Rightarrow> np_candidate list \<Rightarrow> np_step_row list \<Rightarrow> string \<Rightarrow> np_run list \<Rightarrow> np_detail option" where
  "get_run_detail le cands steps i rs = (case List.find (\<lambda>r. n_id r = i) rs of
      None \<Rightarrow> None
    | Some r \<Rightarrow> Some \<lparr>nd_run = r,
        nd_candidates = sort_le (\<lambda>a b. le (nc_id a) (nc_id b)) (filter (\<lambda>c. nc_run c = i) cands),
        nd_steps = sort_le (\<lambda>a b. if ns_candidate a = ns_candidate b then ns_ordinal a \<le> ns_ordinal b
            else le (ns_candidate a) (ns_candidate b)) (filter (\<lambda>s. ns_run s = i) steps)\<rparr>)"

section \<open>Gates\<close>

definition network_path_check_gate :: "string option \<Rightarrow> bool" where
  "network_path_check_gate flag \<longleftrightarrow> flag = Some ''true''"

definition LIVE_TOPOLOGY_IMPLEMENTED :: bool where "LIVE_TOPOLOGY_IMPLEMENTED = False"

section \<open>Handlers\<close>

datatype np_answer =
    Np_Unauthenticated | Np_Unconfigured | Np_Unimplemented
  | Np_Too_Large | Np_Bad_Json
  | Np_Missing | Np_Forbidden | Np_Invalid string | Np_Fault
  | Np_Collision | Np_Undelivered string
  | Np_Checks "np_check list" | Np_Check np_check | Np_Created np_check | Np_Deleted
  | Np_Runs "np_run list" | Np_Detail np_detail | Np_Started np_run

definition np_status :: "np_answer \<Rightarrow> nat" where
  "np_status a = (case a of
      Np_Unauthenticated \<Rightarrow> 401 | Np_Unconfigured \<Rightarrow> 503 | Np_Unimplemented \<Rightarrow> 503
    | Np_Too_Large \<Rightarrow> 413 | Np_Bad_Json \<Rightarrow> 400
    | Np_Missing \<Rightarrow> 404 | Np_Forbidden \<Rightarrow> 403 | Np_Invalid _ \<Rightarrow> 400 | Np_Fault \<Rightarrow> 500
    | Np_Collision \<Rightarrow> 409 | Np_Undelivered _ \<Rightarrow> 202
    | Np_Created _ \<Rightarrow> 201 | Np_Started _ \<Rightarrow> 202
    | _ \<Rightarrow> 200)"

text \<open>The errors of a check's handlers; a delivery that failed names the job under \<open>run_id\<close>.\<close>

definition check_error :: "np_error \<Rightarrow> np_answer" where
  "check_error err = (case err of Not_Found \<Rightarrow> Np_Missing | Forbidden \<Rightarrow> Np_Forbidden | Validation m \<Rightarrow> Np_Invalid m | _ \<Rightarrow> Np_Fault)"

definition run_error :: "np_error \<Rightarrow> np_answer" where
  "run_error err = (case err of
      Not_Found \<Rightarrow> Np_Missing
    | Enqueue_Failed (Delivery_Error j _) \<Rightarrow> Np_Undelivered j
    | Enqueue_Failed Key_Collision \<Rightarrow> Np_Collision
    | _ \<Rightarrow> Np_Fault)"

text \<open>A request after the checks that every handler starts with.\<close>

definition gated :: "string option \<Rightarrow> user option \<Rightarrow> (user \<Rightarrow> np_answer \<times> 's) \<Rightarrow> 's \<Rightarrow> np_answer \<times> 's" where
  "gated flag u h st = (case u of
      None \<Rightarrow> (Np_Unauthenticated, st)
    | Some v \<Rightarrow> if network_path_check_gate flag then h v else (Np_Unconfigured, st))"

definition with_body :: "codec \<Rightarrow> http_request \<Rightarrow> (js \<Rightarrow> np_answer \<times> 's) \<Rightarrow> 's \<Rightarrow> np_answer \<times> 's" where
  "with_body cd req h st = (case read_json_bounded cd 65536 req of
      Inl Body_Too_Large \<Rightarrow> (Np_Too_Large, st)
    | Inl Syntax_Error \<Rightarrow> (Np_Bad_Json, st)
    | Inr body \<Rightarrow> h (if nullish body then JObj [] else body))"

record np_ctx =
  nx_flag :: "string option"
  nx_env :: env
  nx_codec :: codec
  nx_admin :: bool
  nx_enabled :: "string list"
  nx_now :: nat
  nx_fresh :: string
  nx_le :: "string \<Rightarrow> string \<Rightarrow> bool"
  nx_candidates :: "np_candidate list"
  nx_steps :: "np_step_row list"

datatype np_request =
    List_Checks | Post_Check http_request
  | Show_Check string | Patch_Check string http_request | Delete_Check_Of string
  | List_Runs string | Post_Run string | Show_Run string

definition shown_check :: "string \<Rightarrow> 'q np_state \<Rightarrow> np_answer" where
  "shown_check i st = (case get_check i (np_checks st) of
      None \<Rightarrow> Np_Missing | Some c \<Rightarrow> if c_deleted_at c \<noteq> None then Np_Missing else Np_Check c)"

definition shown_runs :: "string \<Rightarrow> 'q np_state \<Rightarrow> np_answer" where
  "shown_runs i st = (case get_check i (np_checks st) of
      None \<Rightarrow> Np_Missing | Some _ \<Rightarrow> Np_Runs (list_runs_for_check i 50 (np_runs st)))"

definition post_check :: "np_ctx \<Rightarrow> user \<Rightarrow> js \<Rightarrow> 'q np_state \<Rightarrow> np_answer \<times> 'q np_state" where
  "post_check x u body st = (case create_check (nx_fresh x) (nx_now x) u body st of
      (Inr c, st') \<Rightarrow> (Np_Created c, st')
    | (Inl (Validation m), st') \<Rightarrow> (Np_Invalid m, st')
    | (Inl _, st') \<Rightarrow> (Np_Fault, st'))"

definition patch_check :: "np_ctx \<Rightarrow> user \<Rightarrow> string \<Rightarrow> js \<Rightarrow> 'q np_state \<Rightarrow> np_answer \<times> 'q np_state" where
  "patch_check x u i body st =
     (case update_check (nx_env x) (nx_admin x) (nx_now x) u i (attr body ''name'') (attr body ''definition'') st of
        (Inr c, st') \<Rightarrow> (Np_Check c, st') | (Inl err, st') \<Rightarrow> (check_error err, st'))"

definition delete_check_of :: "np_ctx \<Rightarrow> user \<Rightarrow> string \<Rightarrow> 'q np_state \<Rightarrow> np_answer \<times> 'q np_state" where
  "delete_check_of x u i st = (case soft_delete_check (nx_env x) (nx_admin x) (nx_now x) u i st of
      (Inr _, st') \<Rightarrow> (Np_Deleted, st') | (Inl err, st') \<Rightarrow> (check_error err, st'))"

text \<open>A run is only created behind a second gate, which is closed in this release.\<close>

definition post_run :: "np_ctx \<Rightarrow> 'q enqueue \<Rightarrow> user \<Rightarrow> string \<Rightarrow> 'q np_state \<Rightarrow> np_answer \<times> 'q np_state" where
  "post_run x enq u i st = (if \<not> LIVE_TOPOLOGY_IMPLEMENTED then (Np_Unimplemented, st)
     else (case create_run enq (nx_fresh x) (nx_now x) u i st of
         (Inr r, st') \<Rightarrow> (Np_Started r, st') | (Inl err, st') \<Rightarrow> (run_error err, st')))"

definition np_handle ::
  "np_ctx \<Rightarrow> 'q enqueue \<Rightarrow> user option \<Rightarrow> np_request \<Rightarrow> 'q np_state \<Rightarrow> np_answer \<times> 'q np_state" where
  "np_handle x enq u q st = gated (nx_flag x) u (\<lambda>v. case q of
      List_Checks \<Rightarrow> (Np_Checks (list_checks (nx_admin x) (nx_enabled x) (np_checks st)), st)
    | Post_Check req \<Rightarrow> with_body (nx_codec x) req (\<lambda>b. post_check x v b st) st
    | Show_Check i \<Rightarrow> (shown_check i st, st)
    | Patch_Check i req \<Rightarrow> with_body (nx_codec x) req (\<lambda>b. patch_check x v i b st) st
    | Delete_Check_Of i \<Rightarrow> delete_check_of x v i st
    | List_Runs i \<Rightarrow> (shown_runs i st, st)
    | Post_Run i \<Rightarrow> post_run x enq v i st
    | Show_Run i \<Rightarrow> (case get_run_detail (nx_le x) (nx_candidates x) (nx_steps x) i (np_runs st) of
          None \<Rightarrow> Np_Missing | Some d \<Rightarrow> Np_Detail d, st)) st"

section \<open>What a request may change\<close>

lemma create_check_adds:
  "create_check fresh now u inp st = (out, st') \<Longrightarrow> st' = st \<and> (\<forall>c. out \<noteq> Inr c) \<or>
     (\<exists>c. out = Inr c \<and> st' = st\<lparr>np_checks := np_checks st @ [c]\<rparr> \<and> c_created_by c = u_sub u)"
  by (auto simp: create_check_def Let_def split: if_splits sum.splits)

lemma editable_check:
  "editable e admin u i st = Inr c \<Longrightarrow>
     get_check i (np_checks st) = Some c \<and> c_deleted_at c = None \<and> (admin \<or> matches_identity e (Some (c_created_by c)) u)"
  by (auto simp: editable_def split: option.splits if_splits)

lemma update_check_writes:
  "update_check e admin now u i nm d st = (out, st') \<Longrightarrow> st' = st \<or>
     (\<exists>c f. editable e admin u i st = Inr c \<and> st' = write_check i f st)"
  by (auto simp: update_check_def Let_def split: sum.splits)

lemma soft_delete_writes:
  "soft_delete_check e admin now u i st = (out, st') \<Longrightarrow> st' = st \<or>
     (\<exists>c f. editable e admin u i st = Inr c \<and> st' = write_check i f st)"
  by (auto simp: soft_delete_check_def split: sum.splits)

definition allowed_change :: "np_ctx \<Rightarrow> user \<Rightarrow> 'q np_state \<Rightarrow> 'q np_state \<Rightarrow> bool" where
  "allowed_change x u st st' \<longleftrightarrow>
     (\<exists>c. st' = st\<lparr>np_checks := np_checks st @ [c]\<rparr> \<and> c_created_by c = u_sub u) \<or>
     (\<exists>i c f. editable (nx_env x) (nx_admin x) u i st = Inr c \<and> st' = write_check i f st)"

lemma with_body_changes:
  assumes "with_body cd req h st = (a, st')"
  shows "st' = st \<or> (\<exists>b. h b = (a, st'))"
  using assms by (auto simp: with_body_def split: sum.splits body_error.splits)

lemma post_check_changes: "post_check x u b st = (a, st') \<Longrightarrow> st' = st \<or> allowed_change x u st st'"
  using create_check_adds [of "nx_fresh x" "nx_now x" u b st]
  by (auto simp: post_check_def allowed_change_def split: prod.splits sum.splits np_error.splits)

lemma patch_check_changes: "patch_check x u i b st = (a, st') \<Longrightarrow> st' = st \<or> allowed_change x u st st'"
  using update_check_writes [of "nx_env x" "nx_admin x" "nx_now x" u i "attr b ''name''" "attr b ''definition''" st]
  unfolding allowed_change_def by (auto simp: patch_check_def split: prod.splits sum.splits)

lemma delete_check_changes: "delete_check_of x u i st = (a, st') \<Longrightarrow> st' = st \<or> allowed_change x u st st'"
  using soft_delete_writes [of "nx_env x" "nx_admin x" "nx_now x" u i st]
  unfolding allowed_change_def by (auto simp: delete_check_of_def split: prod.splits sum.splits)

text \<open>
  A request changes nothing but checks, and only those its user may change: without a verified user
  or with the feature off it has no effect; otherwise it appends one check under the user's own
  identity, or writes one undeleted check that the user created or administers. No request starts
  a run or touches the job ledger.
\<close>

theorem path_requests_change_own_checks:
  assumes "np_handle x enq u q st = (a, st')" "st' \<noteq> st"
  shows "nx_flag x = Some ''true'' \<and> np_runs st' = np_runs st \<and> np_jobs st' = np_jobs st \<and>
    (\<exists>v. u = Some v \<and>
      ((\<exists>c. np_checks st' = np_checks st @ [c] \<and> c_created_by c = u_sub v) \<or>
       (\<exists>i c f. get_check i (np_checks st) = Some c \<and> c_deleted_at c = None \<and>
         (nx_admin x \<or> matches_identity (nx_env x) (Some (c_created_by c)) v) \<and> st' = write_check i f st)))"
proof -
  obtain v where v: "u = Some v" "network_path_check_gate (nx_flag x)"
    using assms by (auto simp: np_handle_def gated_def split: option.splits if_splits)
  have "allowed_change x v st st'"
  proof (cases q)
    case (Post_Check req)
    then show ?thesis using assms v with_body_changes post_check_changes
      by (fastforce simp: np_handle_def gated_def)
  next
    case (Patch_Check i req)
    then show ?thesis using assms v with_body_changes patch_check_changes
      by (fastforce simp: np_handle_def gated_def)
  next
    case (Delete_Check_Of i)
    then show ?thesis using assms v delete_check_changes by (fastforce simp: np_handle_def gated_def)
  qed (use assms v in \<open>auto simp: np_handle_def gated_def post_run_def LIVE_TOPOLOGY_IMPLEMENTED_def\<close>)
  moreover have "np_runs (write_check i f st) = np_runs st \<and> np_jobs (write_check i f st) = np_jobs st" for i f
    by (simp add: write_check_def)
  moreover have "nx_flag x = Some ''true''" using v(2) by (simp add: network_path_check_gate_def)
  ultimately show ?thesis unfolding allowed_change_def
  proof (elim disjE exE conjE)
    fix c
    assume "st' = st\<lparr>np_checks := np_checks st @ [c]\<rparr>" "c_created_by c = u_sub v"
    then show ?thesis using v(1) \<open>nx_flag x = Some ''true''\<close> by auto
  next
    fix i c f
    assume "editable (nx_env x) (nx_admin x) v i st = Inr c" "st' = write_check i f st"
    then show ?thesis using v(1) \<open>nx_flag x = Some ''true''\<close> editable_check [of "nx_env x" "nx_admin x" v i st c]
        \<open>\<And>i f. np_runs (write_check i f st) = np_runs st \<and> np_jobs (write_check i f st) = np_jobs st\<close> by blast
  qed
qed

end
