(* ===== verification/Diagnosis.thy ===== *)
theory Diagnosis
  imports Jobs Http_Body Auth Js_Json
begin

text \<open>
  The table of diagnosis reports: the queries of \<^verbatim>\<open>web/lib/diagnosis.ts\<close> and the handlers of
  \<^verbatim>\<open>web/app/api/diagnosis/[id]/route.ts\<close>, with the list handler of
  \<^verbatim>\<open>web/app/api/diagnosis/route.ts\<close>. The database clock is an argument. What only the worker
  writes (sources, summary, artifact, progress, finishing time) is not a column here. The answer of
  the administrator check is an argument; it is modelled in the theory \<open>Admin\<close>.
\<close>

section \<open>Rows\<close>

datatype diag_tier = Light | Mid | Deep

datatype diag_model = Sonnet | Opus

datatype report_status = Running | Succeeded | Failed | Partial

record report_row =
  dr_id :: nat
  dr_job :: "string option"
  dr_parent :: "nat option"
  dr_tier :: diag_tier
  dr_status :: report_status
  dr_owner :: string
  dr_error :: "string option"
  dr_created :: int
  dr_model :: "diag_model option"
  dr_title :: "string option"
  dr_tags :: "string list"
  dr_deleted :: "int option"

text \<open>The sequence behind the id column gives every insert the next number.\<close>

record report_store =
  rs_rows :: "report_row list"
  rs_next :: nat

definition live :: "report_row \<Rightarrow> bool" where
  "live r \<longleftrightarrow> dr_deleted r = None"

definition change_row :: "nat \<Rightarrow> (report_row \<Rightarrow> report_row) \<Rightarrow> report_store \<Rightarrow> report_store" where
  "change_row i f st = st\<lparr>rs_rows := map (\<lambda>r. if dr_id r = i then f r else r) (rs_rows st)\<rparr>"

text \<open>
  \<open>payload->>'k'\<close>, the text of a field. The code compares it with account numbers and decimal ids
  only, which the text of an array or object never is, whatever its spacing.
\<close>

definition json_text :: "js_object \<Rightarrow> string \<Rightarrow> string option" where
  "json_text p k = (case field p k of
      JUndef \<Rightarrow> None
    | JNull \<Rightarrow> None
    | JStr s \<Rightarrow> Some s
    | v \<Rightarrow> Some (to_json v))"

definition job_text :: "job_row \<Rightarrow> string \<Rightarrow> string option" where
  "job_text j k = (case j_payload j of None \<Rightarrow> None | Some p \<Rightarrow> json_text p k)"

text \<open>\<open>ORDER BY r.created_at DESC\<close>: of rows created at one instant SQL picks any, here the first.\<close>

definition newest_first :: "report_row list \<Rightarrow> report_row list" where
  "newest_first = sort_le (\<lambda>r s. dr_created s \<le> dr_created r)"

section \<open>Reading\<close>

definition list_reports :: "nat \<Rightarrow> string list option \<Rightarrow> report_store \<Rightarrow> report_row list" where
  "list_reports limit owners st =
     take limit (newest_first (filter (\<lambda>r. live r \<and>
       (case owners of None \<Rightarrow> True | Some ks \<Rightarrow> dr_owner r \<in> set ks)) (rs_rows st)))"

text \<open>The account shown beside a listed report, from the job it is linked to.\<close>

definition account_of :: "ledger \<Rightarrow> report_row \<Rightarrow> string option" where
  "account_of L r = (case dr_job r of
      None \<Rightarrow> None
    | Some i \<Rightarrow> (case List.find (\<lambda>j. j_id j = i) L of None \<Rightarrow> None | Some j \<Rightarrow> job_text j ''account''))"

definition get_report :: "nat \<Rightarrow> report_store \<Rightarrow> report_row option" where
  "get_report i st = List.find (\<lambda>r. dr_id r = i \<and> live r) (rs_rows st)"

definition can_mutate_report :: "env \<Rightarrow> bool \<Rightarrow> user \<Rightarrow> report_row \<Rightarrow> bool" where
  "can_mutate_report e admin u r \<longleftrightarrow> admin \<or> matches_identity e (Some (dr_owner r)) u"

section \<open>Lineage\<close>

definition names_report :: "job_row \<Rightarrow> nat \<Rightarrow> bool" where
  "names_report j i \<longleftrightarrow> j_type j = ''report'' \<and> job_text j ''report_id'' = Some (show_nat i)"

text \<open>A job a report is attributed to: linked, or naming it in the payload of the same owner.\<close>

definition attributes :: "job_row \<Rightarrow> report_row \<Rightarrow> bool" where
  "attributes j r \<longleftrightarrow> dr_job r = Some (j_id j) \<or>
     names_report j (dr_id r) \<and> j_owner j = Some (dr_owner r)"

definition baseline :: "diag_tier \<Rightarrow> string list \<Rightarrow> report_row \<Rightarrow> bool" where
  "baseline tier keys r \<longleftrightarrow> dr_tier r = tier \<and> dr_owner r \<in> set keys \<and> dr_status r = Succeeded \<and> live r"

definition attributed_baselines ::
  "ledger \<Rightarrow> diag_tier \<Rightarrow> string list \<Rightarrow> string option \<Rightarrow> report_store \<Rightarrow> report_row list" where
  "attributed_baselines L tier keys account st = filter (\<lambda>r. baseline tier keys r \<and>
     list_ex (\<lambda>j. attributes j r \<and> (account = None \<or> job_text j ''account'' = account)) L) (rs_rows st)"

definition unattributed_baselines ::
  "ledger \<Rightarrow> diag_tier \<Rightarrow> string list \<Rightarrow> string option \<Rightarrow> report_store \<Rightarrow> report_row list" where
  "unattributed_baselines L tier keys account st = filter (\<lambda>r. account = None \<and> baseline tier keys r \<and>
     \<not> list_ex (\<lambda>j. attributes j r) L) (rs_rows st)"

definition first_id :: "report_row list \<Rightarrow> nat option" where
  "first_id rows = (case rows of [] \<Rightarrow> None | r # _ \<Rightarrow> Some (dr_id r))"

definition parent_report ::
  "ledger \<Rightarrow> diag_tier \<Rightarrow> string list \<Rightarrow> string option \<Rightarrow> report_store \<Rightarrow> nat option" where
  "parent_report L tier keys account st =
     (case first_id (newest_first (attributed_baselines L tier keys account st)) of
        Some i \<Rightarrow> Some i
      | None \<Rightarrow> first_id (newest_first (unattributed_baselines L tier keys account st)))"

definition create_report ::
  "int \<Rightarrow> ledger \<Rightarrow> diag_tier \<Rightarrow> string \<Rightarrow> diag_model \<Rightarrow> string list \<Rightarrow> string option \<Rightarrow> report_store \<Rightarrow>
   nat \<times> report_store" where
  "create_report now L tier owner model keys account st =
     (let keys = (if keys = [] then [owner] else keys);
          r = \<lparr>dr_id = rs_next st, dr_job = None, dr_parent = parent_report L tier keys account st,
            dr_tier = tier, dr_status = Running, dr_owner = owner, dr_error = None, dr_created = now,
            dr_model = Some model, dr_title = None, dr_tags = [], dr_deleted = None\<rparr>
      in (rs_next st, \<lparr>rs_rows = rs_rows st @ [r], rs_next = Suc (rs_next st)\<rparr>))"

section \<open>Links and settling\<close>

text \<open>
  One live report per job is a unique index; the update that would break it fails. Any other
  failure of the update is an argument.
\<close>

datatype link_outcome = Linked | Already_Linked | Link_Failed

definition link_report_job :: "bool \<Rightarrow> nat \<Rightarrow> string \<Rightarrow> report_store \<Rightarrow> link_outcome \<times> report_store" where
  "link_report_job up i job st =
     (if \<not> up then (Link_Failed, st)
      else if \<exists>r\<in>set (rs_rows st). dr_id r = i \<and> live r \<and>
          (\<exists>s\<in>set (rs_rows st). dr_id s \<noteq> i \<and> live s \<and> dr_job s = Some job)
        then (Already_Linked, st)
      else (Linked, change_row i (\<lambda>r. r\<lparr>dr_job := Some job\<rparr>) st))"

definition greatest_id :: "nat list \<Rightarrow> nat option" where
  "greatest_id ids = (case ids of [] \<Rightarrow> None | i # is \<Rightarrow> Some (foldl max i is))"

definition report_for_key :: "string \<Rightarrow> ledger \<Rightarrow> report_store \<Rightarrow> nat option" where
  "report_for_key key L st =
     (case greatest_id (map dr_id (filter (\<lambda>r. live r \<and>
         list_ex (\<lambda>j. j_key j = Some key \<and> names_report j (dr_id r)) L) (rs_rows st))) of
        Some i \<Rightarrow> Some i
      | None \<Rightarrow> greatest_id (map dr_id (filter (\<lambda>r. live r \<and>
         list_ex (\<lambda>j. dr_job r = Some (j_id j) \<and> j_key j = Some key \<and> job_text j ''report_id'' = None) L)
         (rs_rows st))))"

definition mark_report_failed :: "nat \<Rightarrow> string \<Rightarrow> report_store \<Rightarrow> report_store" where
  "mark_report_failed i msg st = change_row i
     (\<lambda>r. if dr_status r = Running then r\<lparr>dr_status := Failed, dr_error := Some msg\<rparr> else r) st"

record report_meta =
  me_title :: "string option option"
  me_tags :: "string list option"

text \<open>Only the columns provided are set.\<close>

definition edit_row :: "report_meta \<Rightarrow> report_row \<Rightarrow> report_row" where
  "edit_row m r = r\<lparr>dr_title := (case me_title m of None \<Rightarrow> dr_title r | Some t \<Rightarrow> t),
     dr_tags := (case me_tags m of None \<Rightarrow> dr_tags r | Some ts \<Rightarrow> ts)\<rparr>"

definition update_report_meta :: "nat \<Rightarrow> report_meta \<Rightarrow> report_store \<Rightarrow> report_store" where
  "update_report_meta i m st = change_row i (\<lambda>r. if live r then edit_row m r else r) st"

definition soft_delete_report :: "int \<Rightarrow> nat \<Rightarrow> report_store \<Rightarrow> report_store" where
  "soft_delete_report now i st = change_row i (\<lambda>r. if live r then r\<lparr>dr_deleted := Some now\<rparr> else r) st"

section \<open>The handlers of one report\<close>

text \<open>\<open>/[\u0000-\u001f\u007f]/g\<close> stripped, then trimmed.\<close>

definition clean :: "string \<Rightarrow> string" where
  "clean s = trim (filter (\<lambda>c. let k = of_char c :: nat in \<not> (k \<le> 31 \<or> k = 127)) s)"

definition MAX_TITLE :: nat where "MAX_TITLE = 200"
definition MAX_TAGS :: nat where "MAX_TAGS = 10"
definition MAX_TAG_LEN :: nat where "MAX_TAG_LEN = 40"

text \<open>\<open>'title' in body\<close> throws on a primitive; an array has neither key.\<close>

datatype meta_outcome = Type_Error | Bad_Meta | Meta report_meta

definition meta_title :: "js_object \<Rightarrow> string option option option" where
  "meta_title fs = (case map_of fs ''title'' of
      None \<Rightarrow> Some None
    | Some JNull \<Rightarrow> Some (Some None)
    | Some (JStr s) \<Rightarrow> Some (Some (Some (take MAX_TITLE (clean s))))
    | Some _ \<Rightarrow> None)"

definition clean_tags :: "js list \<Rightarrow> string list" where
  "clean_tags vs = take MAX_TAGS (js_set (filter (\<lambda>t. t \<noteq> [])
     (concat (map (\<lambda>v. case v of JStr s \<Rightarrow> [take MAX_TAG_LEN (clean s)] | _ \<Rightarrow> []) vs))))"

definition meta_tags :: "js_object \<Rightarrow> string list option option" where
  "meta_tags fs = (case map_of fs ''tags'' of
      None \<Rightarrow> Some None
    | Some (JArr vs) \<Rightarrow> if MAX_TAGS < length vs then None else Some (Some (clean_tags vs))
    | Some _ \<Rightarrow> None)"

definition sanitize_meta :: "js \<Rightarrow> meta_outcome" where
  "sanitize_meta body = (case body of
      JObj fs \<Rightarrow> (case (meta_title fs, meta_tags fs) of
          (Some t, Some ts) \<Rightarrow> if t = None \<and> ts = None then Bad_Meta else Meta \<lparr>me_title = t, me_tags = ts\<rparr>
        | _ \<Rightarrow> Bad_Meta)
    | JArr _ \<Rightarrow> Bad_Meta
    | _ \<Rightarrow> Type_Error)"

datatype report_answer =
    Unauthenticated
  | Invalid_Id
  | Not_Found
  | Forbidden
  | Too_Large
  | Invalid_Body
  | Invalid_Meta
  | Server_Error
  | Done
  | Shown report_row

text \<open>\<open>Number(params.id)\<close> when it is an integer comes in as \<open>pid\<close>; no row has a negative id.\<close>

definition load_report :: "env \<Rightarrow> bool \<Rightarrow> user option \<Rightarrow> int option \<Rightarrow> report_store \<Rightarrow> report_answer + report_row" where
  "load_report e admin u pid st = (case u of
      None \<Rightarrow> Inl Unauthenticated
    | Some u \<Rightarrow> (case pid of
        None \<Rightarrow> Inl Invalid_Id
      | Some i \<Rightarrow> (case (if i < 0 then None else get_report (nat i) st) of
          None \<Rightarrow> Inl Not_Found
        | Some r \<Rightarrow> if can_mutate_report e admin u r then Inr r else Inl Forbidden)))"

definition get_one :: "env \<Rightarrow> bool \<Rightarrow> user option \<Rightarrow> int option \<Rightarrow> report_store \<Rightarrow> report_answer" where
  "get_one e admin u pid st = (case load_report e admin u pid st of Inl a \<Rightarrow> a | Inr r \<Rightarrow> Shown r)"

definition patch_report ::
  "env \<Rightarrow> bool \<Rightarrow> user option \<Rightarrow> int option \<Rightarrow> codec \<Rightarrow> http_request \<Rightarrow> report_store \<Rightarrow>
   report_answer \<times> report_store" where
  "patch_report e admin u pid cd req st = (case load_report e admin u pid st of
      Inl a \<Rightarrow> (a, st)
    | Inr r \<Rightarrow> (case read_json_bounded cd 65536 req of
        Inl Body_Too_Large \<Rightarrow> (Too_Large, st)
      | Inl Syntax_Error \<Rightarrow> (Invalid_Body, st)
      | Inr body \<Rightarrow> (case sanitize_meta body of
          Type_Error \<Rightarrow> (Server_Error, st)
        | Bad_Meta \<Rightarrow> (Invalid_Meta, st)
        | Meta m \<Rightarrow> (Done, update_report_meta (dr_id r) m st))))"

definition delete_report ::
  "env \<Rightarrow> bool \<Rightarrow> user option \<Rightarrow> int option \<Rightarrow> int \<Rightarrow> report_store \<Rightarrow> report_answer \<times> report_store" where
  "delete_report e admin u pid now st = (case load_report e admin u pid st of
      Inl a \<Rightarrow> (a, st)
    | Inr r \<Rightarrow> (Done, soft_delete_report now (dr_id r) st))"

text \<open>The list, each report with whether the caller may edit it.\<close>

definition get_list :: "env \<Rightarrow> bool \<Rightarrow> user \<Rightarrow> report_store \<Rightarrow> (report_row \<times> bool) list" where
  "get_list e admin u st =
     map (\<lambda>r. (r, admin \<or> matches_identity e (Some (dr_owner r)) u))
       (list_reports 50 (if admin then None else Some (owner_keys_for_read e u)) st)"

text \<open>
  The object an artifact's address names: \<open>s3://bucket/key\<close>, and only under \<open>diagnosis/\<close>. In the
  pattern \<open>.\<close> is no line terminator.
\<close>

definition artifact_key :: "string \<Rightarrow> (string \<times> string) option" where
  "artifact_key uri =
     (if \<not> starts_with ''s3://'' uri then None
      else (let rest = drop 5 uri; bucket = takeWhile (\<lambda>c. c \<noteq> CHR ''/'') rest;
                key = drop (Suc (length bucket)) rest in
        if bucket = [] \<or> length bucket = length rest \<or> key = [] \<or>
           (\<exists>c\<in>set key. (of_char c :: nat) = 10 \<or> (of_char c :: nat) = 13) then None
        else if starts_with ''diagnosis/'' key then Some (bucket, key) else None))"

section \<open>Newest first\<close>

interpretation newest: collation "\<lambda>r s. dr_created s \<le> dr_created r"
  by unfold_locales auto

lemma set_newest_first [simp]: "set (newest_first rows) = set rows"
  by (simp add: newest_first_def)

lemma first_newest:
  "first_id (newest_first rows) = Some i \<Longrightarrow>
    \<exists>r\<in>set rows. dr_id r = i \<and> (\<forall>s\<in>set rows. dr_created s \<le> dr_created r)"
proof -
  assume first: "first_id (newest_first rows) = Some i"
  then obtain r rs where rs: "newest_first rows = r # rs" "dr_id r = i"
    by (auto simp: first_id_def split: list.splits)
  have "sorted_wrt (\<lambda>r s. dr_created s \<le> dr_created r) (newest_first rows)"
    unfolding newest_first_def by (rule newest.sorted_sort_le)
  then have "\<forall>s\<in>set (newest_first rows). dr_created s \<le> dr_created r" using rs(1) by auto
  moreover have "r \<in> set (newest_first rows)" using rs(1) by simp
  ultimately show ?thesis using rs(2) unfolding set_newest_first by blast
qed

lemma first_newest_None: "first_id (newest_first rows) = None \<longleftrightarrow> rows = []"
proof -
  have "newest_first rows = [] \<longleftrightarrow> rows = []" using set_newest_first [of rows] by (metis set_empty)
  then show ?thesis by (cases "newest_first rows") (simp_all add: first_id_def)
qed

section \<open>Theorems\<close>

text \<open>Whether a job of the ledger attributes the report, and to the account when one is given.\<close>

definition shown_for :: "ledger \<Rightarrow> string option \<Rightarrow> report_row \<Rightarrow> bool" where
  "shown_for L account r \<longleftrightarrow> (\<exists>j\<in>set L. attributes j r \<and> (account = None \<or> job_text j ''account'' = account))"

lemma attributed_set:
  "set (attributed_baselines L tier keys account st) = {r \<in> set (rs_rows st). baseline tier keys r \<and> shown_for L account r}"
  by (auto simp: attributed_baselines_def shown_for_def list_ex_iff)

lemma unattributed_set:
  "set (unattributed_baselines L tier keys account st) =
    {r \<in> set (rs_rows st). account = None \<and> baseline tier keys r \<and> \<not> shown_for L None r}"
  by (auto simp: unattributed_baselines_def shown_for_def list_ex_iff)

text \<open>
  The baseline a new report is compared with is one the requester may be shown: a succeeded,
  undeleted report of the same tier under one of the owner keys, and when the diagnosis names an
  account, one that a job of the ledger attributes to that very account; no qualifying report is
  newer. A report without a baseline had none to take. The new row is running, unlinked and owned
  by the requester, and no other row changes.
\<close>

theorem baseline_is_the_newest_own:
  assumes "create_report now L tier owner model keys account st = (i, st')"
  shows "\<exists>r. rs_rows st' = rs_rows st @ [r] \<and> i = rs_next st \<and> dr_id r = i \<and> dr_status r = Running \<and>
    dr_owner r = owner \<and> dr_job r = None \<and>
    (let ok = (\<lambda>s. s \<in> set (rs_rows st) \<and> baseline tier (if keys = [] then [owner] else keys) s) in
     case dr_parent r of
       None \<Rightarrow> \<not> (\<exists>s. ok s \<and> (account = None \<or> shown_for L account s))
     | Some p \<Rightarrow> \<exists>s. ok s \<and> dr_id s = p \<and> (account \<noteq> None \<longrightarrow> shown_for L account s) \<and>
         (\<forall>t. ok t \<and> (shown_for L account t \<longleftrightarrow> shown_for L account s) \<longrightarrow> dr_created t \<le> dr_created s))"
proof -
  let ?ks = "if keys = [] then [owner] else keys"
  let ?p = "parent_report L tier ?ks account st"
  let ?ok = "\<lambda>s. s \<in> set (rs_rows st) \<and> baseline tier ?ks s"
  have none: "\<not> (\<exists>s. ?ok s \<and> (account = None \<or> shown_for L account s))" if "?p = None"
    using that attributed_set [of L tier ?ks account st] unattributed_set [of L tier ?ks account st]
    by (cases account) (auto simp: parent_report_def first_newest_None split: option.splits)
  have some: "\<exists>s. ?ok s \<and> dr_id s = p \<and> (account \<noteq> None \<longrightarrow> shown_for L account s) \<and>
      (\<forall>t. ?ok t \<and> (shown_for L account t \<longleftrightarrow> shown_for L account s) \<longrightarrow> dr_created t \<le> dr_created s)"
    if p: "?p = Some p" for p
  proof (cases "first_id (newest_first (attributed_baselines L tier ?ks account st))")
    case (Some q)
    then show ?thesis using first_newest [OF Some] p
      unfolding attributed_set parent_report_def by auto
  next
    case None
    then have "first_id (newest_first (unattributed_baselines L tier ?ks account st)) = Some p"
      using p by (simp add: parent_report_def)
    from first_newest [OF this] show ?thesis unfolding unattributed_set by auto
  qed
  show ?thesis
    using assms none some
    by (intro exI [of _ "last (rs_rows st')"]) (auto simp: create_report_def Let_def split: option.splits)
qed

definition past_reports :: report_store where
  "past_reports = \<lparr>rs_rows =
     [\<lparr>dr_id = 1, dr_job = Some ''j1'', dr_parent = None, dr_tier = Mid, dr_status = Succeeded, dr_owner = ''u-1'',
        dr_error = None, dr_created = 10, dr_model = None, dr_title = None, dr_tags = [], dr_deleted = None\<rparr>,
      \<lparr>dr_id = 2, dr_job = Some ''j2'', dr_parent = None, dr_tier = Mid, dr_status = Succeeded, dr_owner = ''u-1'',
        dr_error = None, dr_created = 20, dr_model = None, dr_title = None, dr_tags = [], dr_deleted = None\<rparr>], rs_next = 3\<rparr>"

definition past_job :: "string \<Rightarrow> int \<Rightarrow> string \<Rightarrow> job_row" where
  "past_job i n account = \<lparr>j_id = i, j_type = ''report'',
     j_payload = Some [(''report_id'', JNum n), (''account'', JStr account)],
     j_dry_run = False, j_key = Some i, j_owner = Some ''u-1'', j_status = ''succeeded''\<rparr>"

text \<open>The newer report belongs to another account, so the older one is the baseline.\<close>

theorem baseline_is_the_newest_own_witness:
  "\<exists>r. rs_rows (snd (create_report 30 [past_job ''j1'' 1 ''111'', past_job ''j2'' 2 ''222''] Mid ''u-1'' Sonnet
      [''u-1''] (Some ''111'') past_reports)) = rs_rows past_reports @ [r] \<and> dr_owner r = ''u-1''"
  using baseline_is_the_newest_own
    [of 30 "[past_job ''j1'' 1 ''111'', past_job ''j2'' 2 ''222'']" Mid "''u-1''" Sonnet "[''u-1'']" "Some ''111''"
      past_reports, OF prod.collapse [symmetric]]
  by blast

section \<open>Listing and editing\<close>

lemma set_list_reports:
  "r \<in> set (list_reports limit owners st) \<Longrightarrow>
    r \<in> set (rs_rows st) \<and> live r \<and> (case owners of None \<Rightarrow> True | Some ks \<Rightarrow> dr_owner r \<in> set ks)"
  unfolding list_reports_def by (drule in_set_takeD) simp

lemma get_report_Some: "get_report i st = Some r \<Longrightarrow> r \<in> set (rs_rows st) \<and> dr_id r = i \<and> live r"
  by (auto simp: get_report_def find_Some_iff)

lemma find_keyed: "distinct (map f xs) \<Longrightarrow> x \<in> set xs \<Longrightarrow> P x \<Longrightarrow> List.find (\<lambda>y. f y = f x \<and> P y) xs = Some x"
  by (induction xs) (auto simp: image_iff)

lemma get_report_row:
  "distinct (map dr_id (rs_rows st)) \<Longrightarrow> r \<in> set (rs_rows st) \<Longrightarrow> live r \<Longrightarrow> get_report (dr_id r) st = Some r"
  unfolding get_report_def by (rule find_keyed)

lemma owner_keys_match:
  "u_sub u \<noteq> [] \<Longrightarrow> owner \<in> set (owner_keys_for_read e u) \<longleftrightarrow> matches_identity e (Some owner) u"
  by (auto simp: matches_identity_def matches_legacy_email_owner_def owner_keys_for_read_def present_def)

text \<open>
  The list and the single-report page agree: every report listed is offered for editing and
  opens for the caller, none of them is deleted, a caller who is no administrator is listed own
  reports only, and at most fifty, newest first; conversely, whatever report opens for the caller
  would pass the list's filter.
\<close>

theorem listed_reports_open:
  assumes "distinct (map dr_id (rs_rows st))" "u_sub u \<noteq> []"
  shows "(\<forall>(r, can_edit)\<in>set (get_list e admin u st). can_edit \<and> live r \<and>
      (admin \<or> dr_owner r \<in> set (owner_keys_for_read e u)) \<and>
      get_one e admin (Some u) (Some (int (dr_id r))) st = Shown r) \<and>
    length (get_list e admin u st) \<le> 50 \<and>
    sorted_wrt (\<lambda>r s. dr_created s \<le> dr_created r) (map fst (get_list e admin u st)) \<and>
    (\<forall>pid r. get_one e admin (Some u) pid st = Shown r \<longrightarrow>
      r \<in> set (rs_rows st) \<and> live r \<and> (admin \<or> dr_owner r \<in> set (owner_keys_for_read e u)))"
proof (intro conjI)
  let ?owners = "if admin then None else Some (owner_keys_for_read e u)"
  show "\<forall>(r, can_edit)\<in>set (get_list e admin u st). can_edit \<and> live r \<and>
      (admin \<or> dr_owner r \<in> set (owner_keys_for_read e u)) \<and>
      get_one e admin (Some u) (Some (int (dr_id r))) st = Shown r"
    using assms set_list_reports [of _ 50 ?owners st] get_report_row [OF assms(1)]
    by (auto simp: get_list_def get_one_def load_report_def can_mutate_report_def owner_keys_match)
  show "length (get_list e admin u st) \<le> 50" by (simp add: get_list_def list_reports_def)
  show "sorted_wrt (\<lambda>r s. dr_created s \<le> dr_created r) (map fst (get_list e admin u st))"
    by (simp add: get_list_def list_reports_def comp_def newest_first_def sorted_wrt_take newest.sorted_sort_le)
  show "\<forall>pid r. get_one e admin (Some u) pid st = Shown r \<longrightarrow>
      r \<in> set (rs_rows st) \<and> live r \<and> (admin \<or> dr_owner r \<in> set (owner_keys_for_read e u))"
    using assms(2) by (auto simp: get_one_def load_report_def can_mutate_report_def owner_keys_match
      split: option.splits if_splits dest!: get_report_Some)
qed

theorem listed_reports_open_witness:
  "get_list sample_env False sample_user past_reports \<noteq> [] \<and>
   length (get_list sample_env False sample_user past_reports) \<le> 50"
proof -
  have "distinct (map dr_id (rs_rows past_reports))" "u_sub sample_user \<noteq> []" by code_simp+
  note listed_reports_open [OF this, of sample_env False]
  then have "length (get_list sample_env False sample_user past_reports) \<le> 50" by blast
  moreover have "get_list sample_env False sample_user past_reports \<noteq> []" by code_simp
  ultimately show ?thesis by simp
qed

section \<open>Metadata\<close>

definition plain_text :: "nat \<Rightarrow> string \<Rightarrow> bool" where
  "plain_text n s \<longleftrightarrow> length s \<le> n \<and> (\<forall>c\<in>set s. 31 < (of_char c :: nat) \<and> (of_char c :: nat) \<noteq> 127)"

definition meta_bounded :: "report_meta \<Rightarrow> bool" where
  "meta_bounded m \<longleftrightarrow> (\<forall>t. me_title m = Some (Some t) \<longrightarrow> plain_text 200 t) \<and>
     (\<forall>ts. me_tags m = Some ts \<longrightarrow> length ts \<le> 10 \<and> distinct ts \<and>
       (\<forall>t\<in>set ts. t \<noteq> [] \<and> plain_text 40 t)) \<and> (me_title m \<noteq> None \<or> me_tags m \<noteq> None)"

lemma clean_plain: "plain_text n (take n (clean s))"
  using set_trim [of "filter (\<lambda>c. let k = of_char c :: nat in \<not> (k \<le> 31 \<or> k = 127)) s"]
  by (fastforce simp: plain_text_def clean_def Let_def dest!: in_set_takeD)

lemma clean_tags_bounded:
  "length (clean_tags vs) \<le> 10 \<and> distinct (clean_tags vs) \<and> (\<forall>t\<in>set (clean_tags vs). t \<noteq> [] \<and> plain_text 40 t)"
  by (auto simp: clean_tags_def MAX_TAGS_def MAX_TAG_LEN_def clean_plain dest!: in_set_takeD split: js.splits)

lemma meta_title_bounded: "meta_title fs = Some (Some (Some t)) \<Longrightarrow> plain_text 200 t"
  by (auto simp: meta_title_def clean_plain MAX_TITLE_def split: js.splits option.splits)

lemma meta_tags_bounded: "meta_tags fs = Some (Some ts) \<Longrightarrow>
    length ts \<le> 10 \<and> distinct ts \<and> (\<forall>t\<in>set ts. t \<noteq> [] \<and> plain_text 40 t)"
  using clean_tags_bounded by (auto simp: meta_tags_def split: js.splits option.splits if_splits)

lemma sanitize_bounded:
  assumes "sanitize_meta body = Meta m"
  shows "meta_bounded m"
proof -
  obtain fs where "meta_title fs = Some (me_title m)" "meta_tags fs = Some (me_tags m)"
      "me_title m \<noteq> None \<or> me_tags m \<noteq> None"
    using assms by (auto simp: sanitize_meta_def split: js.splits option.splits if_splits)
  then show ?thesis
    using meta_title_bounded [of fs] meta_tags_bounded [of fs] unfolding meta_bounded_def by simp
qed


text \<open>An owner's edit; the tag that is no string is dropped, the repeated one stored once.\<close>

definition meta_codec :: codec where
  "meta_codec = \<lparr>decode = (\<lambda>_. ''x''), encode = (\<lambda>_. []), parse_json = (\<lambda>s. Some (JObj
     [(''tags'', JArr [JStr '' cost '', JNum 3, JStr ''cost'', JStr []])])), header_number = (\<lambda>_. None)\<rparr>"

abbreviation (input) meta_request :: http_request where
  "meta_request \<equiv> \<lparr>hr_length = None, hr_stream = Some [[1]], hr_text = []\<rparr>"

lemma owner_edit:
  "fst (patch_report sample_env False (Some sample_user) (Some 2) meta_codec meta_request past_reports) = Done"
proof -
  have "load_report sample_env False (Some sample_user) (Some 2) past_reports = Inr (rs_rows past_reports ! 1)" by code_simp
  moreover have "read_json_bounded meta_codec 65536 meta_request =
      Inr (JObj [(''tags'', JArr [JStr '' cost '', JNum 3, JStr ''cost'', JStr []])])"
    by (simp add: read_json_bounded_def read_text_bounded_def over_cap_header_def meta_codec_def)
  moreover have "\<exists>m. sanitize_meta (JObj [(''tags'', JArr [JStr '' cost '', JNum 3, JStr ''cost'', JStr []])]) = Meta m"
    by (simp add: sanitize_meta_def meta_title_def meta_tags_def MAX_TAGS_def)
  ultimately show ?thesis by (auto simp: patch_report_def)
qed


end
