(* ===== verification/Diagnosis_Run.thy ===== *)
theory Diagnosis_Run
  imports Diagnosis
begin

text \<open>
  Asking for a diagnosis: the handler \<^verbatim>\<open>POST\<close> of \<^verbatim>\<open>web/app/api/diagnosis/route.ts\<close>, cut at its
  database and queue calls so that requests interleave with one another, with the worker, with edits
  and deletions, and with the other routes that enqueue jobs. What a call depends on (clock, random
  job id, whether the queue takes the message, whether the link update fails) is an argument.
\<close>

section \<open>What is asked for\<close>

record diag_env =
  de_auth :: env
  de_account :: "string option"

record diag_order =
  do_tier :: diag_tier
  do_model :: diag_model
  do_lang :: string
  do_account :: string
  do_scope :: string
  do_owner :: string
  do_owner_keys :: "string list"
  do_key :: string
  do_legacy_key :: "string option"

datatype diag_answer =
    Unauthorized
  | Oversized
  | Invalid_Lang
  | No_Account
  | Existing nat
  | Collided
  | Thrown
  | Gone nat
  | Deduped string nat
  | Beaten
  | Started string nat

definition tier_of_body :: "js \<Rightarrow> diag_tier" where
  "tier_of_body body =
     (if attr body ''tier'' = JStr ''light'' then Light
      else if attr body ''tier'' = JStr ''deep'' then Deep else Mid)"

definition tier_text :: "diag_tier \<Rightarrow> string" where
  "tier_text t = (case t of Light \<Rightarrow> ''light'' | Mid \<Rightarrow> ''mid'' | Deep \<Rightarrow> ''deep'')"

definition model_of_body :: "js \<Rightarrow> diag_model" where
  "model_of_body body =
     (if tier_of_body body = Deep \<and> attr body ''model'' = JStr ''opus'' then Opus else Sonnet)"

definition model_text :: "diag_model \<Rightarrow> string" where
  "model_text m = (case m of Sonnet \<Rightarrow> ''sonnet'' | Opus \<Rightarrow> ''opus'')"

definition lang_of_body :: "js \<Rightarrow> string option" where
  "lang_of_body body = (case attr body ''lang'' of
      JUndef \<Rightarrow> Some ''ko''
    | JStr s \<Rightarrow> if s \<in> set [''ko'', ''en'', ''zh'', ''ja''] then Some s else None
    | _ \<Rightarrow> None)"

definition account_id :: "string \<Rightarrow> bool" where
  "account_id s \<longleftrightarrow> length s = 12 \<and> list_all is_digit s"

text \<open>
  The account diagnosed and its scope. \<open>member\<close> is the query for an enabled account that is not
  the host's; it gives no answer when the query fails.
\<close>

definition target_account :: "(string \<Rightarrow> bool option) \<Rightarrow> string \<Rightarrow> js \<Rightarrow> string \<times> string" where
  "target_account member host body =
     (let requested = (case attr body ''account'' of JStr s \<Rightarrow> trim s | _ \<Rightarrow> []) in
      if requested \<noteq> [] \<and> requested \<noteq> host \<and> account_id requested \<and> member requested = Some True
      then (requested, requested) else (host, ''self''))"

definition order_of :: "env \<Rightarrow> user \<Rightarrow> js \<Rightarrow> string \<Rightarrow> string \<times> string \<Rightarrow> string \<Rightarrow> diag_order" where
  "order_of e u body lang target hour =
     (let tier = tier_of_body body; model = model_of_body body; scope = snd target;
          stem = ''report:'' @ identity u @ '':'' @ tier_text tier @ '':'' @ model_text model @ '':'' @ scope
      in \<lparr>do_tier = tier, do_model = model, do_lang = lang, do_account = fst target, do_scope = scope,
          do_owner = u_sub u, do_owner_keys = owner_keys_for_read e u,
          do_key = stem @ '':'' @ lang @ '':'' @ hour,
          do_legacy_key = (if lang = ''ko'' then Some (stem @ '':'' @ hour) else None)\<rparr>)"

text \<open>The handler up to its first query. A body that is empty or no JSON asks for the defaults.\<close>

definition read_order ::
  "diag_env \<Rightarrow> user option \<Rightarrow> codec \<Rightarrow> http_request \<Rightarrow> (string \<Rightarrow> bool option) \<Rightarrow> string \<Rightarrow> diag_answer + diag_order" where
  "read_order de u cd req member hour = (case u of
      None \<Rightarrow> Inl Unauthorized
    | Some u \<Rightarrow> (case read_json_bounded cd DEFAULT_MAX_BYTES req of
        Inl Body_Too_Large \<Rightarrow> Inl Oversized
      | parsed \<Rightarrow>
          let body = (case parsed of Inr b \<Rightarrow> b | Inl _ \<Rightarrow> JObj []) in
          (case lang_of_body body of
             None \<Rightarrow> Inl Invalid_Lang
           | Some lang \<Rightarrow> (case de_account de of
                 None \<Rightarrow> Inl No_Account
               | Some host \<Rightarrow> if host = [] then Inl No_Account
                   else Inr (order_of (de_auth de) u body lang (target_account member host body) hour)))))"

section \<open>The calls, one at a time\<close>

text \<open>Where a request stands, with the report it has created.\<close>

datatype post_phase =
    Checking
  | Creating
  | Enqueueing nat
  | Failing nat enqueue_error
  | Judging nat enqueue_result
  | Linking nat enqueue_result
  | Retiring nat diag_answer
  | Yielding nat string
  | Electing string
  | Finished diag_answer

record tick =
  tk_now :: int
  tk_url :: "string option"
  tk_fresh :: string
  tk_delivered :: bool
  tk_link_up :: bool

record diag_tables =
  dt_reports :: report_store
  dt_jobs :: job_state

definition order_payload :: "diag_order \<Rightarrow> nat \<Rightarrow> js_object" where
  "order_payload ord rid = [(''account'', JStr (do_account ord)), (''scope'', JStr (do_scope ord)),
     (''tier'', JStr (tier_text (do_tier ord))), (''model'', JStr (model_text (do_model ord))),
     (''lang'', JStr (do_lang ord)), (''requested_by'', JStr (do_owner ord)), (''report_id'', JNum (int rid))]"

definition order_opts :: "diag_order \<Rightarrow> enqueue_opts" where
  "order_opts ord = \<lparr>opt_key = Some (do_key ord), opt_dry_run = None, opt_job_id = None,
     opt_requested_by = Some (do_owner ord)\<rparr>"

text \<open>A positive number, or a run of digits that reads as one; beyond \<open>2 ^ 53\<close> the code rounds.\<close>

definition ledger_report_id :: "js_object \<Rightarrow> nat option" where
  "ledger_report_id p = (case field p ''report_id'' of
      JNum n \<Rightarrow> if 0 < n then Some (nat n) else None
    | JStr s \<Rightarrow> if s \<noteq> [] \<and> list_all is_digit s \<and> 0 < nat_of_digits s then Some (nat_of_digits s) else None
    | _ \<Rightarrow> None)"

text \<open>\<open>(await f(key)) ?? (legacyKey ? await f(legacyKey) : null)\<close>, and then its truth value.\<close>

definition existing_report :: "diag_order \<Rightarrow> diag_tables \<Rightarrow> nat option" where
  "existing_report ord st =
     (let look = (\<lambda>k. report_for_key k (ledger (dt_jobs st)) (dt_reports st));
          found = (case look (do_key ord) of
              Some i \<Rightarrow> Some i
            | None \<Rightarrow> (case do_legacy_key ord of None \<Rightarrow> None | Some k \<Rightarrow> look k))
      in if found = Some 0 then None else found)"

fun advance :: "tick \<Rightarrow> diag_order \<Rightarrow> post_phase \<Rightarrow> diag_tables \<Rightarrow> post_phase \<times> diag_tables" where
  "advance t ord Checking st =
     (case existing_report ord st of Some i \<Rightarrow> (Finished (Existing i), st) | None \<Rightarrow> (Creating, st))"
| "advance t ord Creating st =
     (let (rid, reports) = create_report (tk_now t) (ledger (dt_jobs st)) (do_tier ord) (do_owner ord)
            (do_model ord) (do_owner_keys ord) (Some (do_account ord)) (dt_reports st)
      in (Enqueueing rid, st\<lparr>dt_reports := reports\<rparr>))"
| "advance t ord (Enqueueing rid) st =
     (case enqueue_job (tk_url t) (tk_fresh t) (tk_delivered t) ''report'' (order_payload ord rid) (order_opts ord) (dt_jobs st) of
        (Inl e, jobs) \<Rightarrow> (Failing rid e, st\<lparr>dt_jobs := jobs\<rparr>)
      | (Inr res, jobs) \<Rightarrow> (Judging rid res, st\<lparr>dt_jobs := jobs\<rparr>))"
| "advance t ord (Failing rid e) st =
     (Finished (if e = Key_Collision then Collided else Thrown),
      st\<lparr>dt_reports := mark_report_failed rid ''enqueue failed'' (dt_reports st)\<rparr>)"
| "advance t ord (Judging rid res) st =
     (case ledger_report_id (r_payload res) of
        None \<Rightarrow> (Linking rid res, st)
      | Some i \<Rightarrow>
          if i = rid then (Linking rid res, st)
          else (Retiring rid (if get_report i (dt_reports st) = None then Gone i else Deduped (r_job_id res) i), st))"
| "advance t ord (Retiring rid a) st =
     (Finished a, st\<lparr>dt_reports := soft_delete_report (tk_now t) rid (dt_reports st)\<rparr>)"
| "advance t ord (Linking rid res) st =
     (case link_report_job (tk_link_up t) rid (r_job_id res) (dt_reports st) of
        (Linked, reports) \<Rightarrow> (Finished (Started (r_job_id res) rid), st\<lparr>dt_reports := reports\<rparr>)
      | (Link_Failed, _) \<Rightarrow> (Finished Thrown, st)
      | (Already_Linked, _) \<Rightarrow>
          (if ledger_report_id (r_payload res) = Some rid then Finished (Started (r_job_id res) rid)
           else Yielding rid (r_job_id res), st))"
| "advance t ord (Yielding rid job) st =
     (Electing job, st\<lparr>dt_reports := soft_delete_report (tk_now t) rid (dt_reports st)\<rparr>)"
| "advance t ord (Electing job) st =
     (case report_for_key (do_key ord) (ledger (dt_jobs st)) (dt_reports st) of
        Some i \<Rightarrow> (Finished (if i = 0 then Beaten else Deduped job i), st)
      | None \<Rightarrow> (Finished Beaten, st))"
| "advance t ord (Finished a) st = (Finished a, st)"

text \<open>A request on its own, from its first query.\<close>

fun run_post :: "tick list \<Rightarrow> diag_order \<Rightarrow> post_phase \<Rightarrow> diag_tables \<Rightarrow> post_phase \<times> diag_tables" where
  "run_post [] ord p st = (p, st)"
| "run_post (t # ts) ord p st = (let (p', st') = advance t ord p st in run_post ts ord p' st')"

section \<open>Interleaving\<close>

record diag_system =
  ds_tables :: diag_tables
  ds_posts :: "(diag_order \<times> post_phase) list"

definition diag_start :: diag_system where
  "diag_start = \<lparr>ds_tables = \<lparr>dt_reports = \<lparr>rs_rows = [], rs_next = 1\<rparr>, dt_jobs = \<lparr>ledger = [], queue = []\<rparr>\<rparr>,
     ds_posts = []\<rparr>"

abbreviation set_reports :: "report_store \<Rightarrow> diag_system \<Rightarrow> diag_system" where
  "set_reports rs s \<equiv> s\<lparr>ds_tables := (ds_tables s)\<lparr>dt_reports := rs\<rparr>\<rparr>"

abbreviation set_jobs :: "job_state \<Rightarrow> diag_system \<Rightarrow> diag_system" where
  "set_jobs js s \<equiv> s\<lparr>ds_tables := (ds_tables s)\<lparr>dt_jobs := js\<rparr>\<rparr>"

text \<open>
  The other routes enqueue jobs of other types, under keys of their own (\<^verbatim>\<open>app/api/jobs/route.ts\<close>
  prefixes a client's key and admits its own types only).
\<close>

definition foreign_request :: "request \<Rightarrow> bool" where
  "foreign_request q \<longleftrightarrow> q_type q \<noteq> ''report'' \<and>
     (case opt_key (q_opts q) of None \<Rightarrow> True | Some k \<Rightarrow> \<not> starts_with ''report:'' k)"

definition message_names :: "message \<Rightarrow> nat \<Rightarrow> bool" where
  "message_names m i \<longleftrightarrow> m_type m = ''report'' \<and> json_text (m_payload m) ''report_id'' = Some (show_nat i)"

text \<open>
  Steps of the system. The worker writes the report its message names: its status, and the title
  and tags it suggests. The reaper may fail any running report.
\<close>

inductive diag_step :: "diag_system \<Rightarrow> diag_system \<Rightarrow> bool" where
  Arrive: "read_order de u cd req member hour = Inr ord \<Longrightarrow>
    diag_step s (s\<lparr>ds_posts := ds_posts s @ [(ord, Checking)]\<rparr>)"
| Advance: "i < length (ds_posts s) \<Longrightarrow> ds_posts s ! i = (ord, p) \<Longrightarrow> advance t ord p (ds_tables s) = (p', st) \<Longrightarrow>
    diag_step s \<lparr>ds_tables = st, ds_posts = (ds_posts s)[i := (ord, p')]\<rparr>"
| Foreign: "foreign_request q \<Longrightarrow>
    diag_step s (set_jobs (snd (run_request q (dt_jobs (ds_tables s)))) s)"
| Progressed: "diag_step s (set_jobs (set_status j status (dt_jobs (ds_tables s))) s)"
| Worked: "m \<in> set (queue (dt_jobs (ds_tables s))) \<Longrightarrow> message_names m i \<Longrightarrow>
    diag_step s (set_reports (change_row i
      (\<lambda>r. r\<lparr>dr_status := status, dr_title := title r, dr_tags := tags r\<rparr>) (dt_reports (ds_tables s))) s)"
| Reaped: "diag_step s (set_reports (mark_report_failed i ''reaped'' (dt_reports (ds_tables s))) s)"
| Edited: "patch_report e admin u pid cd req (dt_reports (ds_tables s)) = (a, rs) \<Longrightarrow> diag_step s (set_reports rs s)"
| Deleted: "delete_report e admin u pid now (dt_reports (ds_tables s)) = (a, rs) \<Longrightarrow> diag_step s (set_reports rs s)"

inductive diag_reachable :: "diag_system \<Rightarrow> bool" where
  diag_init: "diag_reachable diag_start"
| diag_next: "diag_reachable s \<Longrightarrow> diag_step s s' \<Longrightarrow> diag_reachable s'"

section \<open>What a step keeps\<close>

text \<open>The ledger only grows, but for statuses, and the queue only grows.\<close>

definition same_job :: "job_row \<Rightarrow> job_row \<Rightarrow> bool" where
  "same_job x y \<longleftrightarrow> j_id x = j_id y \<and> j_type x = j_type y \<and> j_payload x = j_payload y \<and>
     j_dry_run x = j_dry_run y \<and> j_key x = j_key y \<and> j_owner x = j_owner y"

definition grows :: "job_state \<Rightarrow> job_state \<Rightarrow> bool" where
  "grows J J' \<longleftrightarrow> (\<forall>x\<in>set (ledger J). \<exists>y\<in>set (ledger J'). same_job x y) \<and> set (queue J) \<subseteq> set (queue J')"

lemma same_job_refl [simp]: "same_job x x"
  by (simp add: same_job_def)

lemma grows_refl [simp]: "grows J J"
  unfolding grows_def using same_job_refl by blast

lemma grows_append:
  "set (ledger J) \<subseteq> set (ledger J') \<Longrightarrow> set (queue J) \<subseteq> set (queue J') \<Longrightarrow> grows J J'"
  unfolding grows_def using same_job_refl by blast

lemma same_job_status [simp]: "same_job x (x\<lparr>j_status := s\<rparr>)"
  by (simp add: same_job_def)

lemma grows_status: "grows J (set_status i s J)"
proof -
  let ?f = "\<lambda>x. if j_id x = i then x\<lparr>j_status := s\<rparr> else x"
  have "?f x \<in> set (ledger (set_status i s J)) \<and> same_job x (?f x)" if "x \<in> set (ledger J)" for x
    using that by (simp add: set_status_def)
  moreover have "queue (set_status i s J) = queue J" by (simp add: set_status_def)
  ultimately show ?thesis unfolding grows_def by (metis order_refl)
qed

lemma enqueue_grows:
  assumes "enqueue_job url fresh dlv type payload opts J = (out, J')" "ledger_ok (ledger J)"
  shows "grows J J' \<and> (\<forall>x\<in>set (ledger J'). x \<in> set (ledger J) \<or> x = new_row fresh type payload opts)"
  using assms
proof (cases rule: enqueue_jobE)
  case (3 x)
  from 3(5,6) have "grows J J'" by (intro grows_append) auto
  with 3(5) show ?thesis by auto
qed simp_all

lemma names_same: "same_job x y \<Longrightarrow> names_report x i = names_report y i"
  by (simp add: same_job_def names_report_def job_text_def)

text \<open>A job recorded under the route's keys is one of its own: it names the report it renders.\<close>

definition own_jobs :: "job_state \<Rightarrow> bool" where
  "own_jobs J \<longleftrightarrow> (\<forall>x\<in>set (ledger J). \<forall>k. j_key x = Some k \<longrightarrow> starts_with ''report:'' k \<longrightarrow>
     j_type x = ''report'' \<and>
     (\<exists>p n. j_payload x = Some p \<and> field p ''report_id'' = JNum (int n) \<and> 0 < n))"

definition order_ok :: "diag_order \<Rightarrow> bool" where
  "order_ok ord \<longleftrightarrow> starts_with ''report:'' (do_key ord) \<and>
     (case do_legacy_key ord of None \<Rightarrow> True | Some k \<Rightarrow> starts_with ''report:'' k)"

text \<open>The job that answers an order, as the ledger and the queue have it.\<close>

definition backing :: "job_state \<Rightarrow> diag_order \<Rightarrow> string \<Rightarrow> nat \<Rightarrow> bool" where
  "backing J ord job i \<longleftrightarrow> (\<exists>x\<in>set (ledger J). j_id x = job \<and> names_report x i \<and>
     j_owner x = Some (do_owner ord) \<and> j_key x = Some (do_key ord) \<and>
     (\<exists>m\<in>set (queue J). m_job_id m = job \<and> message_names m i))"

fun answer_ok :: "job_state \<Rightarrow> diag_order \<Rightarrow> diag_answer \<Rightarrow> bool" where
  "answer_ok J ord (Existing i) \<longleftrightarrow> (\<exists>x\<in>set (ledger J). names_report x i)"
| "answer_ok J ord (Started job i) \<longleftrightarrow> backing J ord job i"
| "answer_ok J ord (Deduped job i) \<longleftrightarrow> backing J ord job i"
| "answer_ok J ord Beaten \<longleftrightarrow> False"
| "answer_ok J ord _ \<longleftrightarrow> True"

fun phase_ok :: "job_state \<Rightarrow> nat \<Rightarrow> diag_order \<Rightarrow> post_phase \<Rightarrow> bool" where
  "phase_ok J n ord Checking \<longleftrightarrow> True"
| "phase_ok J n ord Creating \<longleftrightarrow> True"
| "phase_ok J n ord (Enqueueing rid) \<longleftrightarrow> 0 < rid \<and> rid < n"
| "phase_ok J n ord (Failing rid e) \<longleftrightarrow> True"
| "phase_ok J n ord (Judging rid res) \<longleftrightarrow>
     (\<exists>i. ledger_report_id (r_payload res) = Some i \<and> backing J ord (r_job_id res) i)"
| "phase_ok J n ord (Linking rid res) \<longleftrightarrow>
     ledger_report_id (r_payload res) = Some rid \<and> backing J ord (r_job_id res) rid"
| "phase_ok J n ord (Retiring rid a) \<longleftrightarrow> answer_ok J ord a"
| "phase_ok J n ord (Yielding rid job) \<longleftrightarrow> False"
| "phase_ok J n ord (Electing job) \<longleftrightarrow> False"
| "phase_ok J n ord (Finished a) \<longleftrightarrow> answer_ok J ord a"

fun holding :: "post_phase \<Rightarrow> nat option" where
  "holding (Enqueueing rid) = Some rid"
| "holding (Failing rid e) = Some rid"
| "holding (Judging rid res) = Some rid"
| "holding (Linking rid res) = Some rid"
| "holding (Retiring rid a) = Some rid"
| "holding (Yielding rid job) = Some rid"
| "holding _ = None"

definition store_ok :: "report_store \<Rightarrow> bool" where
  "store_ok rs \<longleftrightarrow> distinct (map dr_id (rs_rows rs)) \<and> 0 < rs_next rs \<and>
     (\<forall>r\<in>set (rs_rows rs). 0 < dr_id r \<and> dr_id r < rs_next rs)"

lemma backing_grows: "backing J ord job i \<Longrightarrow> grows J J' \<Longrightarrow> backing J' ord job i"
proof -
  assume b: "backing J ord job i" and g: "grows J J'"
  then obtain x m where x: "x \<in> set (ledger J)" "j_id x = job" "names_report x i" "j_owner x = Some (do_owner ord)"
      "j_key x = Some (do_key ord)" and m: "m \<in> set (queue J)" "m_job_id m = job" "message_names m i"
    unfolding backing_def by blast
  from g x(1) obtain y where y: "y \<in> set (ledger J')" "same_job x y" unfolding grows_def by blast
  have "names_report y i" using names_same [OF y(2)] x(3) by simp
  moreover have "m \<in> set (queue J')" using g m(1) unfolding grows_def by blast
  ultimately show ?thesis using x y m unfolding backing_def same_job_def by metis
qed

lemma answer_ok_grows: "answer_ok J ord a \<Longrightarrow> grows J J' \<Longrightarrow> answer_ok J' ord a"
proof (cases a)
  case (Existing i)
  moreover assume "answer_ok J ord a" "grows J J'"
  ultimately show ?thesis unfolding grows_def by simp (metis names_same)
qed (simp_all add: backing_grows)

lemma phase_ok_grows: "phase_ok J n ord p \<Longrightarrow> grows J J' \<Longrightarrow> n \<le> n' \<Longrightarrow> phase_ok J' n' ord p"
  by (cases p) (auto simp: backing_grows answer_ok_grows)

lemma own_jobs_grow:
  assumes "own_jobs J" "\<And>x. x \<in> set (ledger J') \<Longrightarrow> x \<in> set (ledger J) \<or> x = r"
    "\<And>k. j_key r = Some k \<Longrightarrow> starts_with ''report:'' k \<Longrightarrow> j_type r = ''report'' \<and>
      (\<exists>p n. j_payload r = Some p \<and> field p ''report_id'' = JNum (int n) \<and> 0 < n)"
  shows "own_jobs J'"
  using assms unfolding own_jobs_def by blast

lemma own_jobs_status: "own_jobs J \<Longrightarrow> own_jobs (set_status i s J)"
  by (fastforce simp: own_jobs_def set_status_def)

lemma read_order_ok: "read_order de u cd req member hour = Inr ord \<Longrightarrow> order_ok ord"
  by (auto simp: read_order_def order_of_def order_ok_def starts_with_def Let_def
      split: option.splits sum.splits body_error.splits if_splits)

lemma payload_names: "field p ''report_id'' = JNum (int n) \<Longrightarrow> json_text p ''report_id'' = Some (show_nat n)"
  by (simp add: json_text_def show_int_def)

lemma order_payload_id: "field (safe_payload (order_payload ord rid)) ''report_id'' = JNum (int rid)"
  by (simp add: order_payload_def safe_payload_def field_def)

lemma enqueue_order:
  assumes "job_ok J" "own_jobs J" "order_ok ord" "0 < rid"
    and run: "enqueue_job url fresh dlv ''report'' (order_payload ord rid) (order_opts ord) J = (out, J')"
  shows "job_ok J'" "own_jobs J'" "grows J J'"
    "out = Inr res \<Longrightarrow> \<exists>i. ledger_report_id (r_payload res) = Some i \<and> backing J' ord (r_job_id res) i"
proof -
  let ?row = "new_row fresh ''report'' (order_payload ord rid) (order_opts ord)"
  have L: "ledger_ok (ledger J)" using assms(1) by (simp add: job_ok_def)
  note grow = enqueue_grows [OF run L]
  show "grows J J'" using grow by simp
  show "job_ok J'"
    using run_request_ok [OF assms(1), of "\<lparr>q_url = url, q_fresh = fresh, q_delivered = dlv, q_type = ''report'',
        q_payload = order_payload ord rid, q_opts = order_opts ord\<rparr>"] run
    by (simp add: run_request_def)
  show own: "own_jobs J'"
  proof (rule own_jobs_grow [OF assms(2), of _ ?row])
    show "x \<in> set (ledger J) \<or> x = ?row" if "x \<in> set (ledger J')" for x using grow that by blast
    show "j_type ?row = ''report'' \<and> (\<exists>p n. j_payload ?row = Some p \<and> field p ''report_id'' = JNum (int n) \<and> 0 < n)"
      using order_payload_id assms(4) by (auto simp: new_row_def)
  qed
  show "\<exists>i. ledger_report_id (r_payload res) = Some i \<and> backing J' ord (r_job_id res) i" if out: "out = Inr res"
    using run L
  proof (cases rule: enqueue_jobE)
    case (3 x)
    have key: "j_key x = Some (do_key ord)" "j_owner x = Some (do_owner ord)"
      using 3(3,4) by (auto simp: order_opts_def same_key_def)
    then obtain p n where p: "j_type x = ''report''" "j_payload x = Some p" "field p ''report_id'' = JNum (int n)" "0 < n"
      using own 3(1) assms(3) unfolding own_jobs_def order_ok_def by blast
    have msg: "message_of x \<in> set (queue J')" "r_payload res = p" "r_job_id res = j_id x"
      using 3(6,7) out p(2) by (auto simp: message_of_def split: if_splits)
    have "names_report x n" "message_names (message_of x) n" "m_job_id (message_of x) = j_id x"
      using p by (simp_all add: names_report_def job_text_def message_names_def message_of_def payload_names)
    then have "backing J' ord (r_job_id res) n" using 3(1) key msg unfolding backing_def by metis
    moreover have "ledger_report_id (r_payload res) = Some n" using p msg by (simp add: ledger_report_id_def)
    ultimately show ?thesis by blast
  qed (use out in auto)
qed

lemma foreign_ok:
  assumes "foreign_request q" "job_ok J" "own_jobs J"
  shows "job_ok (snd (run_request q J)) \<and> own_jobs (snd (run_request q J)) \<and> grows J (snd (run_request q J))"
proof -
  obtain out J' where run: "run_request q J = (out, J')" by fastforce
  have L: "ledger_ok (ledger J)" using assms(2) by (simp add: job_ok_def)
  note grow = enqueue_grows [OF run [unfolded run_request_def] L]
  have "own_jobs J'"
    by (rule own_jobs_grow [OF assms(3), of _ "new_row (q_fresh q) (q_type q) (q_payload q) (q_opts q)"])
      (use grow assms(1) in \<open>auto simp: foreign_request_def\<close>)
  then show ?thesis using run_request_ok [OF assms(2), of q] grow run by simp
qed

section \<open>Rows under a step\<close>

lemma set_change_row:
  "set (rs_rows (change_row i f st)) = (\<lambda>q. if dr_id q = i then f q else q) ` set (rs_rows st)"
  by (simp add: change_row_def)

lemma next_change_row [simp]: "rs_next (change_row i f st) = rs_next st"
  by (simp add: change_row_def)

lemma store_ok_change:
  assumes "store_ok st" "\<And>r. dr_id (f r) = dr_id r"
  shows "store_ok (change_row i f st)"
proof -
  have ids: "map dr_id (rs_rows (change_row i f st)) = map dr_id (rs_rows st)"
    using assms(2) by (simp add: change_row_def)
  then have "dr_id ` set (rs_rows (change_row i f st)) = dr_id ` set (rs_rows st)" by (metis list.set_map)
  moreover have "\<forall>k\<in>dr_id ` set (rs_rows st). 0 < k \<and> k < rs_next st" using assms(1) by (simp add: store_ok_def)
  ultimately have "\<forall>r\<in>set (rs_rows (change_row i f st)). 0 < dr_id r \<and> dr_id r < rs_next st" by (metis imageI)
  with ids assms(1) show ?thesis by (simp add: store_ok_def)
qed

text \<open>The reports still to be settled.\<close>

definition unsettled :: "report_row \<Rightarrow> bool" where
  "unsettled r \<longleftrightarrow> dr_status r = Running \<and> live r"

definition pending :: "report_store \<Rightarrow> nat set" where
  "pending st = {dr_id r |r. r \<in> set (rs_rows st) \<and> unsettled r}"

lemma pending_change:
  assumes "\<And>r. dr_id (f r) = dr_id r" "k \<in> pending (change_row i f st)"
  obtains q where "q \<in> set (rs_rows st)" "dr_id q = k" "unsettled (if k = i then f q else q)"
proof -
  from assms(2) obtain q where "q \<in> set (rs_rows st)" "k = dr_id (if dr_id q = i then f q else q)"
      "unsettled (if dr_id q = i then f q else q)"
    unfolding pending_def set_change_row by blast
  moreover from this have "dr_id q = k" using assms(1) by (simp split: if_splits)
  ultimately show thesis using that by simp
qed

lemma pending_kept:
  assumes "\<And>r. dr_id (f r) = dr_id r" "\<And>r. unsettled (f r) \<Longrightarrow> unsettled r"
  shows "pending (change_row i f st) \<subseteq> pending st"
proof
  fix k assume "k \<in> pending (change_row i f st)"
  then obtain q where "q \<in> set (rs_rows st)" "dr_id q = k" "unsettled (if k = i then f q else q)"
    using pending_change [OF assms(1)] by blast
  then show "k \<in> pending st" using assms(2) by (auto simp: pending_def split: if_splits)
qed

lemma pending_settled:
  assumes "k \<in> pending (change_row i f st)" "\<And>r. dr_id (f r) = dr_id r" "\<And>r. \<not> unsettled (f r)"
  shows "k \<in> pending st \<and> k \<noteq> i"
proof -
  obtain q where "q \<in> set (rs_rows st)" "dr_id q = k" "unsettled (if k = i then f q else q)"
    using pending_change [OF assms(2,1)] by blast
  then show ?thesis using assms(3) by (auto simp: pending_def split: if_splits)
qed

lemma pending_mark: "k \<in> pending (mark_report_failed i msg st) \<Longrightarrow> k \<in> pending st \<and> k \<noteq> i"
  unfolding mark_report_failed_def by (erule pending_settled) (auto simp: unsettled_def)

lemma pending_delete: "k \<in> pending (soft_delete_report now i st) \<Longrightarrow> k \<in> pending st \<and> k \<noteq> i"
  unfolding soft_delete_report_def by (erule pending_settled) (auto simp: unsettled_def live_def)

lemma store_ok_settled:
  "store_ok st \<Longrightarrow> store_ok (mark_report_failed i msg st)" "store_ok st \<Longrightarrow> store_ok (soft_delete_report now i st)"
  by (simp_all add: mark_report_failed_def soft_delete_report_def store_ok_change)

lemma next_settled [simp]:
  "rs_next (mark_report_failed i msg st) = rs_next st" "rs_next (soft_delete_report now i st) = rs_next st"
  by (simp_all add: mark_report_failed_def soft_delete_report_def)

section \<open>The invariant\<close>

definition covered :: "diag_system \<Rightarrow> nat \<Rightarrow> bool" where
  "covered s i \<longleftrightarrow> (\<exists>ord p. (ord, p) \<in> set (ds_posts s) \<and> holding p = Some i) \<or>
     (\<exists>m\<in>set (queue (dt_jobs (ds_tables s))). message_names m i)"

definition diag_ok :: "diag_system \<Rightarrow> bool" where
  "diag_ok s \<longleftrightarrow> store_ok (dt_reports (ds_tables s)) \<and> job_ok (dt_jobs (ds_tables s)) \<and> own_jobs (dt_jobs (ds_tables s)) \<and>
     (\<forall>(ord, p)\<in>set (ds_posts s). order_ok ord \<and> phase_ok (dt_jobs (ds_tables s)) (rs_next (dt_reports (ds_tables s))) ord p) \<and>
     (\<forall>i\<in>pending (dt_reports (ds_tables s)). covered s i)"

lemma store_ok_create:
  assumes "store_ok st" "create_report now L tier owner model keys account st = (rid, st')"
  shows "store_ok st' \<and> 0 < rid \<and> rid < rs_next st' \<and> rs_next st \<le> rs_next st' \<and> pending st' \<subseteq> pending st \<union> {rid}"
proof -
  obtain r where r: "rs_rows st' = rs_rows st @ [r]" "rid = rs_next st" "dr_id r = rid" "rs_next st' = Suc (rs_next st)"
    using assms(2) by (auto simp: create_report_def Let_def)
  have "rid \<notin> dr_id ` set (rs_rows st)" using assms(1) r(2) by (fastforce simp: store_ok_def)
  then show ?thesis using assms(1) r by (auto simp: store_ok_def pending_def)
qed

lemma link_report_cases:
  assumes "link_report_job up rid job st = (out, st')" "store_ok st"
  shows "store_ok st' \<and> rs_next st' = rs_next st \<and> pending st' \<subseteq> pending st"
  using assms store_ok_change [OF assms(2)] pending_kept [of "\<lambda>r. r\<lparr>dr_job := Some job\<rparr>" rid st]
  by (auto simp: link_report_job_def unsettled_def live_def split: if_splits)

lemma foldl_max_in: "foldl max (i :: nat) is \<in> set (i # is)"
proof (induction "is" arbitrary: i)
  case (Cons j js)
  then show ?case by (cases "i \<le> j") (auto simp: max_def)
qed simp

lemma greatest_id_in: "greatest_id ids = Some i \<Longrightarrow> i \<in> set ids"
  using foldl_max_in by (auto simp: greatest_id_def split: list.splits)

lemma report_for_key_names:
  assumes own: "own_jobs J" and key: "starts_with ''report:'' k" and found: "report_for_key k (ledger J) st = Some i"
  shows "\<exists>x\<in>set (ledger J). names_report x i"
proof -
  have "\<not> (\<exists>x\<in>set (ledger J). j_key x = Some k \<and> job_text x ''report_id'' = None)"
    using own key unfolding own_jobs_def by (fastforce simp: job_text_def payload_names)
  then show ?thesis using found
    by (simp add: report_for_key_def list_ex_iff split: option.splits) (force dest!: greatest_id_in)+
qed

lemma existing_names:
  "own_jobs (dt_jobs st) \<Longrightarrow> order_ok ord \<Longrightarrow> existing_report ord st = Some i \<Longrightarrow>
    \<exists>x\<in>set (ledger (dt_jobs st)). names_report x i"
  unfolding existing_report_def order_ok_def Let_def
  by (auto intro: report_for_key_names split: option.splits if_splits)

lemma backing_message: "backing J ord job i \<Longrightarrow> \<exists>m\<in>set (queue J). message_names m i"
  by (auto simp: backing_def)

text \<open>
  One call of a request: tables stay well formed, the request's own promise holds, and a report
  still running is held by the request, named on the queue, or was another's before.
\<close>

lemma advance_ok:
  assumes "store_ok (dt_reports st)" "job_ok (dt_jobs st)" "own_jobs (dt_jobs st)" "order_ok ord"
    "phase_ok (dt_jobs st) (rs_next (dt_reports st)) ord p"
    and run: "advance t ord p st = (p', st')"
  shows "store_ok (dt_reports st')" "rs_next (dt_reports st) \<le> rs_next (dt_reports st')"
    "job_ok (dt_jobs st')" "own_jobs (dt_jobs st')" "grows (dt_jobs st) (dt_jobs st')"
    "phase_ok (dt_jobs st') (rs_next (dt_reports st')) ord p'"
    "i \<in> pending (dt_reports st') \<Longrightarrow> holding p' = Some i \<or>
      (\<exists>m\<in>set (queue (dt_jobs st')). message_names m i) \<or> i \<in> pending (dt_reports st) \<and> holding p \<noteq> Some i"
proof -
  have "store_ok (dt_reports st') \<and> rs_next (dt_reports st) \<le> rs_next (dt_reports st') \<and>
    job_ok (dt_jobs st') \<and> own_jobs (dt_jobs st') \<and> grows (dt_jobs st) (dt_jobs st') \<and>
    phase_ok (dt_jobs st') (rs_next (dt_reports st')) ord p' \<and>
    (i \<in> pending (dt_reports st') \<longrightarrow> holding p' = Some i \<or>
      (\<exists>m\<in>set (queue (dt_jobs st')). message_names m i) \<or> i \<in> pending (dt_reports st) \<and> holding p \<noteq> Some i)"
  proof (cases p)
    case Checking
    then show ?thesis using assms existing_names [OF assms(3,4)] by (auto split: option.splits)
  next
    case Creating
    then show ?thesis using assms store_ok_create [OF assms(1)] by (fastforce split: prod.splits)
  next
    case (Enqueueing rid)
    obtain out jobs where enq: "enqueue_job (tk_url t) (tk_fresh t) (tk_delivered t) ''report''
        (order_payload ord rid) (order_opts ord) (dt_jobs st) = (out, jobs)" by fastforce
    have "0 < rid" using assms(5) Enqueueing by simp
    note new = enqueue_order [OF assms(2-4) this enq]
    show ?thesis using run Enqueueing enq new assms(1) by (cases out) auto
  next
    case (Failing rid e)
    then show ?thesis using assms by (auto simp: store_ok_settled dest: pending_mark)
  next
    case (Judging rid res)
    then obtain k where "ledger_report_id (r_payload res) = Some k" "backing (dt_jobs st) ord (r_job_id res) k"
      using assms(5) by auto
    then show ?thesis using assms Judging by (auto split: if_splits)
  next
    case (Retiring rid a)
    then show ?thesis using assms by (auto simp: store_ok_settled dest: pending_delete)
  next
    case (Linking rid res)
    obtain out reports where link: "link_report_job (tk_link_up t) rid (r_job_id res) (dt_reports st) = (out, reports)"
      by fastforce
    have b: "backing (dt_jobs st) ord (r_job_id res) rid" "ledger_report_id (r_payload res) = Some rid"
      using assms(5) Linking by auto
    show ?thesis using run Linking link link_report_cases [OF link assms(1)] assms(1-3) b backing_message [OF b(1)]
      by (cases out) auto
  qed (use assms in auto)
  then show "store_ok (dt_reports st')" "rs_next (dt_reports st) \<le> rs_next (dt_reports st')"
    "job_ok (dt_jobs st')" "own_jobs (dt_jobs st')" "grows (dt_jobs st) (dt_jobs st')"
    "phase_ok (dt_jobs st') (rs_next (dt_reports st')) ord p'"
    "i \<in> pending (dt_reports st') \<Longrightarrow> holding p' = Some i \<or>
      (\<exists>m\<in>set (queue (dt_jobs st')). message_names m i) \<or> i \<in> pending (dt_reports st) \<and> holding p \<noteq> Some i"
    by blast+
qed

lemma diag_okD:
  assumes "diag_ok s"
  shows "store_ok (dt_reports (ds_tables s))" "job_ok (dt_jobs (ds_tables s))" "own_jobs (dt_jobs (ds_tables s))"
    "(ord, p) \<in> set (ds_posts s) \<Longrightarrow> order_ok ord \<and>
       phase_ok (dt_jobs (ds_tables s)) (rs_next (dt_reports (ds_tables s))) ord p"
    "i \<in> pending (dt_reports (ds_tables s)) \<Longrightarrow> covered s i"
  using assms unfolding diag_ok_def by blast+

lemma covered_grows:
  "covered s i \<Longrightarrow> grows (dt_jobs (ds_tables s)) (dt_jobs (ds_tables s')) \<Longrightarrow> ds_posts s' = ds_posts s \<Longrightarrow> covered s' i"
  unfolding covered_def grows_def by auto

lemma diag_ok_jobs:
  assumes "diag_ok s" "job_ok J" "own_jobs J" "grows (dt_jobs (ds_tables s)) J"
  shows "diag_ok (set_jobs J s)"
  using assms diag_okD [OF assms(1)] covered_grows [of s _ "set_jobs J s"]
  unfolding diag_ok_def by (auto intro: phase_ok_grows)

lemma diag_ok_reports:
  assumes "diag_ok s" "store_ok rs" "rs_next rs = rs_next (dt_reports (ds_tables s))"
    "\<And>k. k \<in> pending rs \<Longrightarrow> covered s k"
  shows "diag_ok (set_reports rs s)"
  using assms unfolding diag_ok_def covered_def by auto

lemma diag_ok_advance:
  assumes ok: "diag_ok s" and i: "i < length (ds_posts s)" "ds_posts s ! i = (ord, p)"
    and run: "advance t ord p (ds_tables s) = (p', st)"
  shows "diag_ok \<lparr>ds_tables = st, ds_posts = (ds_posts s)[i := (ord, p')]\<rparr>"
proof -
  let ?s' = "\<lparr>ds_tables = st, ds_posts = (ds_posts s)[i := (ord, p')]\<rparr>"
  have mem: "(ord, p) \<in> set (ds_posts s)" using i nth_mem by fastforce
  note old = diag_okD [OF ok]
  note new = advance_ok [OF old(1-3) _ _ run]
  have order: "order_ok ord" "phase_ok (dt_jobs (ds_tables s)) (rs_next (dt_reports (ds_tables s))) ord p"
    using old(4) [OF mem] by auto
  have posts: "x \<in> set ((ds_posts s)[i := (ord, p')]) \<Longrightarrow> x = (ord, p') \<or> x \<in> set (ds_posts s)" for x
    using set_update_subset_insert by fastforce
  have kept: "x \<in> set ((ds_posts s)[i := (ord, p')])" if "x \<in> set (ds_posts s)" "x \<noteq> (ord, p)" for x
    using that i by (metis in_set_conv_nth length_list_update nth_list_update_neq)
  have "covered ?s' k" if k: "k \<in> pending (dt_reports st)" for k
    using new(7) [OF order k]
  proof (elim disjE)
    assume "holding p' = Some k"
    moreover have "(ord, p') \<in> set ((ds_posts s)[i := (ord, p')])" using i set_update_memI by fastforce
    ultimately show ?thesis unfolding covered_def by auto
  next
    assume "k \<in> pending (dt_reports (ds_tables s)) \<and> holding p \<noteq> Some k"
    then show ?thesis using old(5) [of k] kept new(5) [OF order] unfolding covered_def grows_def by fastforce
  qed (simp add: covered_def)
  moreover have "order_ok od \<and> phase_ok (dt_jobs st) (rs_next (dt_reports st)) od q"
    if "(od, q) \<in> set ((ds_posts s)[i := (ord, p')])" for od q
    using posts [OF that] old(4) [of od q] order new(2,5,6) [OF order] by (auto intro: phase_ok_grows)
  ultimately show ?thesis using new [OF order] unfolding diag_ok_def by auto
qed

lemma meta_keeps:
  assumes "store_ok st"
  shows "store_ok (update_report_meta i m st) \<and> rs_next (update_report_meta i m st) = rs_next st \<and>
    pending (update_report_meta i m st) \<subseteq> pending st"
proof -
  let ?f = "\<lambda>r. if live r then edit_row m r else r"
  have f: "dr_id (?f r) = dr_id r" "unsettled (?f r) \<Longrightarrow> unsettled r" for r
    by (simp_all add: edit_row_def unsettled_def live_def split: if_splits)
  show ?thesis unfolding update_report_meta_def
    using store_ok_change [of st ?f, OF assms f(1)] pending_kept [of ?f, OF f] by simp
qed

lemma patch_effect:
  "patch_report e admin u pid cd req st = (a, rs) \<Longrightarrow> rs = st \<or> (\<exists>i m. rs = update_report_meta i m st)"
  by (auto simp: patch_report_def split: sum.splits body_error.splits meta_outcome.splits)

lemma delete_effect:
  "delete_report e admin u pid now st = (a, rs) \<Longrightarrow> rs = st \<or> (\<exists>i. rs = soft_delete_report now i st)"
  by (auto simp: delete_report_def split: sum.splits)

lemma diag_ok_step: "diag_step s s' \<Longrightarrow> diag_ok s \<Longrightarrow> diag_ok s'"
proof (induction rule: diag_step.induct)
  case (Arrive de u cd req member hour ord s)
  then show ?case using read_order_ok unfolding diag_ok_def covered_def by fastforce
next
  case (Advance i s ord p t p' st)
  then show ?case by (intro diag_ok_advance)
next
  case (Foreign q s)
  then show ?case using foreign_ok diag_okD(2,3) by (intro diag_ok_jobs) blast+
next
  case (Progressed s j status)
  then show ?case using set_status_ok own_jobs_status grows_status diag_okD(2,3) by (intro diag_ok_jobs) blast+
next
  case (Worked m s i tags title status)
  let ?f = "\<lambda>r. r\<lparr>dr_status := status, dr_title := title r, dr_tags := tags r\<rparr>"
  let ?rs = "dt_reports (ds_tables s)"
  have "covered s k" if k: "k \<in> pending (change_row i ?f ?rs)" for k
  proof (cases "k = i")
    case True
    then show ?thesis using Worked unfolding covered_def by auto
  next
    case False
    obtain q where "q \<in> set (rs_rows ?rs)" "dr_id q = k" "unsettled (if k = i then ?f q else q)"
      using pending_change [of ?f, OF _ k] by auto
    with False have "k \<in> pending ?rs" unfolding pending_def by auto
    then show ?thesis using diag_okD(5) [OF Worked(3)] by simp
  qed
  then show ?case using store_ok_change [OF diag_okD(1) [OF Worked(3)], of ?f]
    by (intro diag_ok_reports Worked) simp_all
next
  case (Reaped s i)
  then show ?case using diag_okD(1,5) [of s]
    by (intro diag_ok_reports) (auto simp: store_ok_settled dest: pending_mark)
next
  case (Edited e admin u pid cd req s a rs)
  let ?rs = "dt_reports (ds_tables s)"
  have "store_ok rs \<and> rs_next rs = rs_next ?rs \<and> pending rs \<subseteq> pending ?rs"
    using patch_effect [OF Edited(1)] diag_okD(1) [OF Edited(2)] meta_keeps by blast
  then show ?case using diag_okD(5) [OF Edited(2)] by (intro diag_ok_reports Edited) auto
next
  case (Deleted e admin u pid now s a rs)
  then show ?case using delete_effect [OF Deleted(1)] diag_okD(1,5) [of s]
    by (intro diag_ok_reports) (auto simp: store_ok_settled dest: pending_delete)
qed

lemma diag_reachable_ok: "diag_reachable s \<Longrightarrow> diag_ok s"
proof (induction rule: diag_reachable.induct)
  case diag_init
  show ?case
    by (simp add: diag_ok_def diag_start_def store_ok_def job_ok_def ledger_ok_def own_jobs_def pending_def)
qed (rule diag_ok_step)

section \<open>Theorems\<close>



text \<open>How many calls a request may still need.\<close>

fun calls_left :: "post_phase \<Rightarrow> nat" where
  "calls_left (Finished a) = 0"
| "calls_left (Electing job) = 1"
| "calls_left (Retiring rid a) = 1"
| "calls_left (Failing rid e) = 1"
| "calls_left (Yielding rid job) = 2"
| "calls_left (Linking rid res) = 3"
| "calls_left (Judging rid res) = 4"
| "calls_left (Enqueueing rid) = 5"
| "calls_left Creating = 6"
| "calls_left Checking = 7"

lemma advance_decreases:
  "calls_left (fst (advance t ord p st)) \<le> calls_left p - 1"
  by (cases p) (auto simp: Let_def split: option.splits sum.splits prod.splits link_outcome.splits)

text \<open>
  A request is answered after at most seven of its calls, whatever the tables and the queue have
  become when it makes each of them, and however the calls fare.
\<close>

theorem request_is_answered:
  "\<exists>a. foldl (\<lambda>p (t, st). fst (advance t ord p st)) Checking [c1, c2, c3, c4, c5, c6, c7] = Finished a"
proof -
  have run: "calls_left (foldl (\<lambda>p (t, st). fst (advance t ord p st)) p cs) \<le> calls_left p - length cs" for cs p
  proof (induction cs arbitrary: p)
    case (Cons c cs)
    obtain t st where "c = (t, st)" by fastforce
    with Cons [of "fst (advance t ord p st)"] advance_decreases [of t ord p st] show ?case by simp
  qed simp
  let ?p = "foldl (\<lambda>p (t, st). fst (advance t ord p st)) Checking [c1, c2, c3, c4, c5, c6, c7]"
  have "calls_left ?p = 0" using run [of Checking "[c1, c2, c3, c4, c5, c6, c7]"] by simp
  then show ?thesis by (cases ?p) simp_all
qed

section \<open>A request on its own\<close>

lemma run_post_reachable:
  "diag_reachable \<lparr>ds_tables = st, ds_posts = [(ord, p)]\<rparr> \<Longrightarrow> run_post ts ord p st = (p', st') \<Longrightarrow>
    diag_reachable \<lparr>ds_tables = st', ds_posts = [(ord, p')]\<rparr>"
proof (induction ts arbitrary: p st)
  case (Cons t ts)
  obtain q sq where adv: "advance t ord p st = (q, sq)" by fastforce
  have "diag_step \<lparr>ds_tables = st, ds_posts = [(ord, p)]\<rparr> \<lparr>ds_tables = sq, ds_posts = [(ord, q)]\<rparr>"
    using diag_step.Advance [of 0 "\<lparr>ds_tables = st, ds_posts = [(ord, p)]\<rparr>" ord p t q sq] adv by simp
  with Cons adv show ?case by (auto intro: diag_next)
qed simp

definition sample_de :: diag_env where
  "sample_de = \<lparr>de_auth = sample_env, de_account = Some ''111122223333''\<rparr>"

definition sample_order :: diag_order where
  "sample_order = order_of sample_env sample_user (JObj []) ''ko'' (''111122223333'', ''self'') ''2026-01-01T00''"

lemma sample_read:
  "read_order sample_de (Some sample_user) meta_codec \<lparr>hr_length = None, hr_stream = None, hr_text = []\<rparr>
     (\<lambda>_. None) ''2026-01-01T00'' = Inr sample_order"
  by (simp add: read_order_def read_json_bounded_def read_text_bounded_def over_cap_header_def read_plain_def
      sample_de_def sample_order_def lang_of_body_def attr_def field_def target_account_def)

lemma sample_arrived:
  "diag_reachable \<lparr>ds_tables = ds_tables diag_start, ds_posts = [(sample_order, Checking)]\<rparr>"
  using diag_next [OF diag_init diag_step.Arrive [OF sample_read]] by (simp add: diag_start_def)

definition sample_tick :: "bool \<Rightarrow> tick" where
  "sample_tick delivered = \<lparr>tk_now = 7, tk_url = Some ''https://q'', tk_fresh = ''j1'',
     tk_delivered = delivered, tk_link_up = True\<rparr>"

definition finished_run :: "post_phase \<times> diag_tables" where
  "finished_run = run_post (replicate 5 (sample_tick True)) sample_order Checking (ds_tables diag_start)"

lemma finished_run_reachable: "diag_reachable \<lparr>ds_tables = snd finished_run, ds_posts = [(sample_order, fst finished_run)]\<rparr>"
  using run_post_reachable [OF sample_arrived, of "replicate 5 (sample_tick True)" "fst finished_run" "snd finished_run"]
  by (simp add: finished_run_def)

lemma finished_run_facts:
  "fst finished_run = Finished (Started ''j1'' 1)" "map dr_id (rs_rows (dt_reports (snd finished_run))) = [1]"
  "map dr_status (rs_rows (dt_reports (snd finished_run))) = [Running]" "list_all live (rs_rows (dt_reports (snd finished_run)))"
  by code_simp+



section \<open>Findings\<close>

text \<open>
  A request whose message could not be delivered leaves the job queued in the ledger and its report
  failed. The same request repeated within the hour is answered with that failed report as if it
  were a run in progress, and sends nothing.
\<close>

theorem retry_after_failed_delivery_is_deduped:
  "(let (p, st) = run_post (replicate 4 (sample_tick False)) sample_order Checking (ds_tables diag_start);
        (p', st') = run_post [sample_tick True] sample_order Checking st
    in p = Finished Thrown \<and> p' = Finished (Existing 1) \<and>
       map dr_status (rs_rows (dt_reports st')) = [Failed] \<and>
       map j_status (ledger (dt_jobs st')) = [''queued''] \<and> queue (dt_jobs st') = [])"
  by code_simp

end
