(* ===== verification/Graph_State.thy ===== *)
theory Graph_State
  imports Js_Values
begin

text \<open>
  The collection state of a materialized graph (\<^verbatim>\<open>web/lib/graph-state.ts\<close>): one row per account and
  graph class, written with every attempt and read with every graph. Details are the JSON object the
  column holds. Instants are milliseconds; a setting read with \<open>Number\<close> is an argument, absent when
  it is no finite number.
\<close>

section \<open>Attempts and rows\<close>

datatype graph_class = Flow_Class | Infra_Class | Trace_Class

datatype collection_status = Status_Ok | Status_Empty | Status_Partial | Status_Unavailable | Status_Error

definition class_text :: "graph_class \<Rightarrow> string" where
  "class_text c = (case c of Flow_Class \<Rightarrow> ''flow'' | Infra_Class \<Rightarrow> ''infra'' | Trace_Class \<Rightarrow> ''trace'')"

definition collection_text :: "collection_status \<Rightarrow> string" where
  "collection_text s = (case s of Status_Ok \<Rightarrow> ''ok'' | Status_Empty \<Rightarrow> ''empty'' | Status_Partial \<Rightarrow> ''partial''
     | Status_Unavailable \<Rightarrow> ''unavailable'' | Status_Error \<Rightarrow> ''error'')"

record graph_attempt =
  ga_status :: collection_status
  ga_attempted :: int
  ga_publish :: bool
  ga_details :: js_object

record state_row =
  gs_account :: string
  gs_class :: graph_class
  gs_status :: collection_status
  gs_attempted :: int
  gs_captured :: "int option"
  gs_details :: js_object

definition state_at :: "string \<Rightarrow> graph_class \<Rightarrow> state_row list \<Rightarrow> state_row option" where
  "state_at account cls rows = List.find (\<lambda>r. gs_account r = account \<and> gs_class r = cls) rows"

definition graph_diagnostic :: "string \<Rightarrow> js \<Rightarrow> string \<times> string" where
  "graph_diagnostic stage error =
     (if stage \<in> set [''flow'', ''infra'', ''trace_sources'', ''trace'', ''graph_state'', ''graph_read''] then stage else ''unknown'',
      case attr error ''code'' of
        JStr c \<Rightarrow> if length c = 5 \<and> list_all (\<lambda>x. is_digit x \<or> (65 \<le> (of_char x :: nat) \<and> (of_char x :: nat) \<le> 90)) c
          then c else ''unknown''
      | _ \<Rightarrow> ''unknown'')"

section \<open>Writing\<close>

text \<open>\<open>d->'k'\<close>, SQL's null for a missing field; \<open>coalesce\<close> keeps a JSON null.\<close>

definition json_field :: "js_object \<Rightarrow> string \<Rightarrow> js" where
  "json_field d k = (case map_of d k of None \<Rightarrow> JNull | Some v \<Rightarrow> v)"

definition kept_sources :: "js_object \<Rightarrow> js" where
  "kept_sources d = (case map_of d ''publishedSources'' of None \<Rightarrow> JArr [] | Some v \<Rightarrow> v)"

definition captured_by :: "int \<Rightarrow> graph_class \<Rightarrow> graph_attempt \<Rightarrow> int option" where
  "captured_by now cls a = (if \<not> ga_publish a then None
     else if cls = Trace_Class then Some (ga_attempted a) else Some now)"

definition inserted_details :: "graph_class \<Rightarrow> graph_attempt \<Rightarrow> js_object" where
  "inserted_details cls a = spread (ga_details a)
     (if cls = Trace_Class then []
      else [(''publishedSources'', if ga_publish a then json_field (ga_details a) ''sources'' else JArr [])])"

definition updated_row :: "int \<Rightarrow> graph_attempt \<Rightarrow> state_row \<Rightarrow> state_row" where
  "updated_row now a r = r\<lparr>gs_status := ga_status a, gs_attempted := ga_attempted a,
     gs_captured := (if ga_publish a then captured_by now (gs_class r) a else gs_captured r),
     gs_details := spread (inserted_details (gs_class r) a)
       (if \<not> ga_publish a \<and> gs_class r \<noteq> Trace_Class
        then [(''publishedSources'', kept_sources (gs_details r))] else [])\<rparr>"

text \<open>
  \<open>ON CONFLICT (account_id, class) DO UPDATE ... WHERE attempted_at < EXCLUDED.attempted_at\<close>: whether
  a row was written, and the table. \<open>now\<close> is the database clock.
\<close>

definition write_graph_state ::
  "int \<Rightarrow> string \<Rightarrow> graph_class \<Rightarrow> graph_attempt \<Rightarrow> state_row list \<Rightarrow> bool \<times> state_row list" where
  "write_graph_state now account cls a rows = (case state_at account cls rows of
      None \<Rightarrow> (True, rows @ [\<lparr>gs_account = account, gs_class = cls, gs_status = ga_status a,
        gs_attempted = ga_attempted a, gs_captured = captured_by now cls a, gs_details = inserted_details cls a\<rparr>])
    | Some old \<Rightarrow>
        if gs_attempted old < ga_attempted a
        then (True, map (\<lambda>r. if gs_account r = account \<and> gs_class r = cls then updated_row now a r else r) rows)
        else (False, rows))"

section \<open>Reading\<close>

datatype read_failure = Missing_Table | Read_Failed

definition safe_integer :: "int \<Rightarrow> bool" where
  "safe_integer n \<longleftrightarrow> \<bar>n\<bar> \<le> 2 ^ 53 - 1"

definition fresh_clock :: "int \<Rightarrow> int \<Rightarrow> js \<Rightarrow> bool" where
  "fresh_clock now minutes v \<longleftrightarrow> (case v of
      JNum c \<Rightarrow> 0 < c \<and> c \<le> now \<and> now - c \<le> minutes * 60000
    | _ \<Rightarrow> False)"

definition source_fresh :: "int \<Rightarrow> int \<Rightarrow> js \<Rightarrow> bool" where
  "source_fresh now minutes v \<longleftrightarrow> (case attr v ''itemCount'' of
      JNum n \<Rightarrow> safe_integer n \<and> 0 \<le> n \<and> attr v ''producerStatus'' = JStr ''succeeded'' \<and>
        (attr v ''status'' = JStr ''ok'' \<or> attr v ''status'' = JStr ''empty'') \<and>
        fresh_clock now minutes (attr v ''lastSuccessAtMs'') \<and>
        (0 < n \<longrightarrow> fresh_clock now minutes (attr v ''capturedAtMs''))
    | _ \<Rightarrow> False)"

definition stale_minutes :: "int option \<Rightarrow> int" where
  "stale_minutes configured = (case configured of
      None \<Rightarrow> 30 | Some n \<Rightarrow> if 0 < n \<and> n \<le> 1440 then n else 30)"

definition inventory_sources_stale :: "int \<Rightarrow> int option \<Rightarrow> js \<Rightarrow> bool" where
  "inventory_sources_stale now configured v = (case v of
      JArr vs \<Rightarrow> vs = [] \<or> \<not> list_all (source_fresh now (stale_minutes configured)) vs
    | _ \<Rightarrow> True)"

definition unknown_state :: "graph_class \<Rightarrow> js_object" where
  "unknown_state cls = [(''status'', JStr ''unknown''), (''stale'', JBool True), (''attempted_at'', JNull),
     (''captured_at'', JNull), (''sources'', JArr []),
     (''evidenceKind'', JStr (if cls = Trace_Class then ''trace'' else ''inventory''))]"

definition max_age_minutes :: "int option \<Rightarrow> int" where
  "max_age_minutes interval = (case interval of None \<Rightarrow> 15 | Some n \<Rightarrow> max 15 (n * 2))"

definition row_stale :: "int \<Rightarrow> int option \<Rightarrow> int option \<Rightarrow> state_row \<Rightarrow> bool" where
  "row_stale now interval configured r \<longleftrightarrow>
     (case gs_captured r of None \<Rightarrow> True | Some c \<Rightarrow> now - c > max_age_minutes interval * 60000) \<or>
     gs_status r = Status_Error \<or> gs_status r = Status_Unavailable \<or>
     field (gs_details r) ''retainedPrevious'' = JBool True \<or>
     gs_class r \<noteq> Trace_Class \<and> inventory_sources_stale now configured (field (gs_details r) ''publishedSources'')"

definition instant :: "int option \<Rightarrow> js" where
  "instant t = (case t of None \<Rightarrow> JNull | Some ms \<Rightarrow> JNum ms)"

definition shown_state :: "int \<Rightarrow> int option \<Rightarrow> int option \<Rightarrow> state_row \<Rightarrow> js_object" where
  "shown_state now interval configured r =
     spread (filter (\<lambda>(k, _). k \<noteq> ''lastSourceAttemptedAtMs'') (gs_details r))
       ((if gs_class r \<noteq> Trace_Class then [(''evidenceKind'', JStr ''inventory'')] else []) @
        [(''status'', JStr (collection_text (gs_status r))), (''stale'', JBool (row_stale now interval configured r)),
         (''attempted_at'', JNum (gs_attempted r)), (''captured_at'', instant (gs_captured r))])"

definition read_graph_state ::
  "int \<Rightarrow> int option \<Rightarrow> int option \<Rightarrow> string \<Rightarrow> graph_class \<Rightarrow> read_failure + state_row list \<Rightarrow> js_object option" where
  "read_graph_state now interval configured account cls table =
     (if account = ''__all__'' \<and> cls \<noteq> Trace_Class
      then Some (spread (unknown_state cls) [(''coverage'', JStr ''unknown'')])
      else (case table of
          Inl Missing_Table \<Rightarrow> Some (unknown_state cls)
        | Inl Read_Failed \<Rightarrow> None
        | Inr rows \<Rightarrow>
            (case state_at (if account = ''__all__'' then ''self'' else account) cls rows of
               None \<Rightarrow> Some (unknown_state cls)
             | Some r \<Rightarrow> Some (shown_state now interval configured r))))"

section \<open>What the state says\<close>

lemma field_update: "field (AList.update k v m) j = (if j = k then v else field m j)"
  by (simp add: field_def AList.update_conv')

lemma field_spread_other: "j \<notin> fst ` set extra \<Longrightarrow> field (spread base extra) j = field base j"
  by (induction extra arbitrary: base) (auto simp: spread_def field_update)

lemma field_spread_snoc: "field (spread base (extra @ [(k, v)])) j = (if j = k then v else field (spread base extra) j)"
  by (simp add: spread_def field_update)

lemma field_spread:
  "distinct (map fst extra) \<Longrightarrow> (k, v) \<in> set extra \<Longrightarrow> field (spread base extra) k = v"
  by (induction extra rule: rev_induct) (auto simp: field_spread_snoc, force+)

lemma shown_stale: "field (shown_state now interval configured r) ''stale'' = JBool (row_stale now interval configured r)"
  unfolding shown_state_def by (rule field_spread) auto

lemma unknown_stale: "field (unknown_state cls) ''stale'' = JBool True"
    "field (spread (unknown_state cls) [(''coverage'', JStr ''unknown'')]) ''stale'' = JBool True"
  by (simp_all add: unknown_state_def field_def field_spread_other spread_def)

text \<open>
  Only proven, recent evidence is shown as current. When the state of a graph reads as not
  stale, there is a row for that account and class (never for a union of accounts, save the host's
  traces), its rows were captured within twice the rebuild interval, its last attempt neither
  failed nor retained an older graph, and for an inventory graph there are published sources, each
  of which succeeded, is complete, and was collected within the configured age.
\<close>

theorem current_graph_is_evidenced:
  assumes "read_graph_state now interval configured account cls table = Some s" "field s ''stale'' = JBool False"
  shows "\<exists>rows r c. table = Inr rows \<and> r \<in> set rows \<and> gs_class r = cls \<and>
    gs_account r = (if account = ''__all__'' then ''self'' else account) \<and> (account = ''__all__'' \<longrightarrow> cls = Trace_Class) \<and>
    gs_captured r = Some c \<and> now - c \<le> max_age_minutes interval * 60000 \<and>
    gs_status r \<in> {Status_Ok, Status_Empty, Status_Partial} \<and>
    field (gs_details r) ''retainedPrevious'' \<noteq> JBool True \<and>
    (cls \<noteq> Trace_Class \<longrightarrow> (\<exists>vs. field (gs_details r) ''publishedSources'' = JArr vs \<and> vs \<noteq> [] \<and>
      (\<forall>v\<in>set vs. source_fresh now (stale_minutes configured) v)))"
proof -
  obtain rows r where r: "table = Inr rows" "state_at (if account = ''__all__'' then ''self'' else account) cls rows = Some r"
      "s = shown_state now interval configured r" "account = ''__all__'' \<longrightarrow> cls = Trace_Class"
    using assms by (auto simp: read_graph_state_def unknown_stale split: if_splits sum.splits read_failure.splits option.splits)
  then have here: "r \<in> set rows" "gs_class r = cls" "gs_account r = (if account = ''__all__'' then ''self'' else account)"
    by (auto simp: state_at_def find_Some_iff split: if_splits)
  have "\<not> row_stale now interval configured r" using assms(2) r(3) by (simp add: shown_stale)
  then have "\<exists>c. gs_captured r = Some c \<and> now - c \<le> max_age_minutes interval * 60000"
    "gs_status r \<in> {Status_Ok, Status_Empty, Status_Partial}" "field (gs_details r) ''retainedPrevious'' \<noteq> JBool True"
    "cls \<noteq> Trace_Class \<longrightarrow> (\<exists>vs. field (gs_details r) ''publishedSources'' = JArr vs \<and> vs \<noteq> [] \<and>
      (\<forall>v\<in>set vs. source_fresh now (stale_minutes configured) v))"
    using here(2) by (cases "gs_status r"; auto simp: row_stale_def inventory_sources_stale_def list_all_iff
      split: option.splits js.splits)+
  with r here show ?thesis by blast
qed

text \<open>A flow graph captured a minute ago from one complete source.\<close>

definition minute_old :: state_row where
  "minute_old = \<lparr>gs_account = ''self'', gs_class = Flow_Class, gs_status = Status_Ok, gs_attempted = 40000, gs_captured = Some 40000,
     gs_details = [(''publishedSources'', JArr [JObj [(''itemCount'', JNum 2), (''producerStatus'', JStr ''succeeded''),
       (''status'', JStr ''ok''), (''lastSuccessAtMs'', JNum 30000), (''capturedAtMs'', JNum 30000)]])]\<rparr>"

theorem current_graph_is_evidenced_witness:
  "field (the (read_graph_state 100000 None None ''self'' Flow_Class (Inr [minute_old]))) ''stale'' = JBool False \<and>
   (\<exists>vs. field (gs_details minute_old) ''publishedSources'' = JArr vs \<and> vs \<noteq> [])"
proof -
  have read: "read_graph_state 100000 None None ''self'' Flow_Class (Inr [minute_old]) = Some (shown_state 100000 None None minute_old)"
    by (simp add: read_graph_state_def state_at_def minute_old_def)
  have "\<not> row_stale 100000 None None minute_old"
    by (simp add: row_stale_def minute_old_def max_age_minutes_def inventory_sources_stale_def field_def source_fresh_def attr_def
        safe_integer_def fresh_clock_def stale_minutes_def)
  then have fresh: "field (shown_state 100000 None None minute_old) ''stale'' = JBool False" by (simp add: shown_stale)
  from current_graph_is_evidenced [OF read fresh] show ?thesis using read fresh by auto
qed

end
