(* ===== verification/Graph_Store.thy ===== *)
theory Graph_Store
  imports Graph_State
begin

text \<open>
  Publication of a materialized graph (\<^verbatim>\<open>web/lib/graph-store.ts\<close>): the tables of nodes and edges,
  their replacement inside one transaction, and the state row written with it. Locks, failures of
  the database and its clock are arguments of a transaction.
\<close>

section \<open>Tables\<close>

record g_node =
  gn_id :: string
  gn_kind :: string
  gn_label :: string
  gn_meta :: "js_object option"

record g_edge =
  ge_source :: string
  ge_target :: string
  ge_rel :: string
  ge_confidence :: string
  ge_meta :: "js_object option"

record topo_node =
  tn_account :: string
  tn_class :: graph_class
  tn_id :: string
  tn_kind :: string
  tn_label :: string
  tn_meta :: js_object
  tn_run :: string

record topo_edge =
  te_account :: string
  te_class :: graph_class
  te_source :: string
  te_target :: string
  te_rel :: string
  te_confidence :: string
  te_meta :: js_object
  te_run :: string

record graph_tables =
  gt_nodes :: "topo_node list"
  gt_edges :: "topo_edge list"
  gt_states :: "state_row list"

definition node_key :: "topo_node \<Rightarrow> string \<times> graph_class \<times> string" where
  "node_key n = (tn_account n, tn_class n, tn_id n)"

definition edge_key :: "topo_edge \<Rightarrow> string \<times> graph_class \<times> string \<times> string \<times> string" where
  "edge_key e = (te_account e, te_class e, te_source e, te_target e, te_rel e)"

text \<open>\<open>coalesce(meta, '{}')\<close>.\<close>

definition meta_or_empty :: "js_object option \<Rightarrow> js_object" where
  "meta_or_empty m = (case m of None \<Rightarrow> [] | Some fs \<Rightarrow> fs)"

definition node_row :: "string \<Rightarrow> graph_class \<Rightarrow> string \<Rightarrow> g_node \<Rightarrow> topo_node" where
  "node_row account cls run n = \<lparr>tn_account = account, tn_class = cls, tn_id = gn_id n, tn_kind = gn_kind n,
     tn_label = gn_label n, tn_meta = meta_or_empty (gn_meta n), tn_run = run\<rparr>"

definition edge_row :: "string \<Rightarrow> graph_class \<Rightarrow> string \<Rightarrow> g_edge \<Rightarrow> topo_edge" where
  "edge_row account cls run e = \<lparr>te_account = account, te_class = cls, te_source = ge_source e, te_target = ge_target e,
     te_rel = ge_rel e, te_confidence = ge_confidence e,
     te_meta = (if cls = Trace_Class then meta_or_empty (ge_meta e) else []), te_run = run\<rparr>"

text \<open>An edge met again keeps its metadata unless the graph is the trace graph.\<close>

definition merge_edge :: "topo_edge \<Rightarrow> topo_edge \<Rightarrow> topo_edge" where
  "merge_edge x old = old\<lparr>te_confidence := te_confidence x, te_run := te_run x,
     te_meta := (if te_class x = Trace_Class then te_meta x else te_meta old)\<rparr>"

text \<open>
  \<open>INSERT ... ON CONFLICT (key) DO UPDATE\<close> of a batch: a statement that would touch one row twice
  fails (SQLSTATE 21000).
\<close>

definition upsert_keyed :: "('r \<Rightarrow> 'k) \<Rightarrow> ('r \<Rightarrow> 'r \<Rightarrow> 'r) \<Rightarrow> 'r list \<Rightarrow> 'r \<Rightarrow> 'r list" where
  "upsert_keyed key merge rows x =
     (if key x \<in> key ` set rows then map (\<lambda>r. if key r = key x then merge x r else r) rows else rows @ [x])"

definition upsert_batch :: "('r \<Rightarrow> 'k) \<Rightarrow> ('r \<Rightarrow> 'r \<Rightarrow> 'r) \<Rightarrow> 'r list \<Rightarrow> 'r list \<Rightarrow> 'r list option" where
  "upsert_batch key merge xs rows = (if distinct (map key xs) then Some (foldl (upsert_keyed key merge) rows xs) else None)"

function batches :: "nat \<Rightarrow> 'a list \<Rightarrow> 'a list list" where
  "batches n xs = (if n = 0 \<or> xs = [] then [] else take n xs # batches n (drop n xs))"
  by auto
termination by (relation "measure (\<lambda>(n, xs). length xs)") auto

declare batches.simps [simp del]

fun upsert_batches :: "('r \<Rightarrow> 'k) \<Rightarrow> ('r \<Rightarrow> 'r \<Rightarrow> 'r) \<Rightarrow> 'r list list \<Rightarrow> 'r list \<Rightarrow> 'r list option" where
  "upsert_batches key merge [] rows = Some rows"
| "upsert_batches key merge (b # bs) rows = (case upsert_batch key merge b rows of
      None \<Rightarrow> None | Some rows' \<Rightarrow> upsert_batches key merge bs rows')"

definition BATCH :: nat where "BATCH = 200"

definition replace_graph ::
  "graph_class \<Rightarrow> string \<Rightarrow> g_node list \<Rightarrow> g_edge list \<Rightarrow> string \<Rightarrow> graph_tables \<Rightarrow> graph_tables option" where
  "replace_graph cls account nodes edges run st =
     (case upsert_batches node_key (\<lambda>x _. x) (batches BATCH (map (node_row account cls run) nodes)) (gt_nodes st) of
        None \<Rightarrow> None
      | Some ns \<Rightarrow> (case upsert_batches edge_key merge_edge (batches BATCH (map (edge_row account cls run) edges)) (gt_edges st) of
          None \<Rightarrow> None
        | Some es \<Rightarrow> Some (st\<lparr>
            gt_edges := filter (\<lambda>e. \<not> (te_account e = account \<and> te_class e = cls \<and> te_run e \<noteq> run)) es,
            gt_nodes := filter (\<lambda>n. \<not> (tn_account n = account \<and> tn_class n = cls \<and> tn_run n \<noteq> run)) ns\<rparr>)))"

section \<open>Publication\<close>

record rebuild_result =
  rr_nodes :: nat
  rr_edges :: nat
  rr_published :: nat
  rr_retained :: nat
  rr_skipped :: nat
  rr_degraded :: nat
  rr_reasons :: "string list"
  rr_truncated :: bool

definition empty_result :: rebuild_result where
  "empty_result = \<lparr>rr_nodes = 0, rr_edges = 0, rr_published = 0, rr_retained = 0, rr_skipped = 0,
     rr_degraded = 0, rr_reasons = [], rr_truncated = False\<rparr>"

text \<open>How a transaction fares: whether it gets its lock, whether the database lets it commit, its clock.\<close>

record tx =
  tx_locked :: bool
  tx_commits :: bool
  tx_now :: int

text \<open>A transaction's result, or none when it throws and is rolled back.\<close>

definition publish_graph ::
  "tx \<Rightarrow> graph_class \<Rightarrow> string \<Rightarrow> g_node list \<Rightarrow> g_edge list \<Rightarrow> string \<Rightarrow> graph_attempt \<Rightarrow> graph_tables \<Rightarrow>
   rebuild_result option \<times> graph_tables" where
  "publish_graph t cls account nodes edges run a st =
     (if \<not> tx_commits t then (None, st)
      else if \<not> tx_locked t then (Some (empty_result\<lparr>rr_skipped := 1, rr_reasons := [''publication_busy'']\<rparr>), st)
      else (case write_graph_state (tx_now t) account cls a (gt_states st) of
          (False, _) \<Rightarrow> (Some (empty_result\<lparr>rr_skipped := 1, rr_reasons := [''superseded'']\<rparr>), st)
        | (True, states) \<Rightarrow>
            if \<not> ga_publish a
            then (Some (empty_result\<lparr>rr_retained := 1, rr_reasons :=
                   (if cls = Trace_Class then [''collection_'' @ collection_text (ga_status a)] else [])\<rparr>),
                  st\<lparr>gt_states := states\<rparr>)
            else (case replace_graph cls account nodes edges run (st\<lparr>gt_states := states\<rparr>) of
                None \<Rightarrow> (None, st)
              | Some st' \<Rightarrow> (Some (empty_result\<lparr>rr_nodes := length nodes, rr_edges := length edges, rr_published := 1,
                    rr_degraded := (if ga_status a = Status_Partial then 1 else 0)\<rparr>), st'))))"

definition failed_attempt :: "graph_attempt \<Rightarrow> graph_attempt" where
  "failed_attempt a = a\<lparr>ga_status := Status_Error, ga_publish := False, ga_details := spread (ga_details a)
     [(''retainedPrevious'', JBool True), (''failureReason'', JStr ''publication_failed'')]\<rparr>"

text \<open>\<open>writeGraph\<close>: when the publication throws, a second transaction records it and the error goes on.\<close>

definition write_graph ::
  "tx \<Rightarrow> tx \<Rightarrow> graph_class \<Rightarrow> string \<Rightarrow> g_node list \<Rightarrow> g_edge list \<Rightarrow> string \<Rightarrow> graph_attempt \<Rightarrow> graph_tables \<Rightarrow>
   rebuild_result option \<times> graph_tables" where
  "write_graph t t' cls account nodes edges run a st =
     (case publish_graph t cls account nodes edges run a st of
        (Some r, st') \<Rightarrow> (Some r, st')
      | (None, st') \<Rightarrow> (None, snd (publish_graph t' cls account nodes edges run (failed_attempt a) st')))"

text \<open>\<open>recordUnattempted\<close>: one statement for the accounts a run did not reach; no graph row is touched.\<close>

definition unattempted_details :: "bool \<Rightarrow> js_object" where
  "unattempted_details retained = [(''sources'', JArr []), (''sourceAttempted'', JBool False),
     (''failureReason'', JStr ''not_attempted''), (''retainedPrevious'', JBool retained)]"

definition last_source_attempt :: "state_row \<Rightarrow> js" where
  "last_source_attempt r =
     (if field (gs_details r) ''sourceAttempted'' = JBool False
      then json_field (gs_details r) ''lastSourceAttemptedAtMs'' else JNum (gs_attempted r))"

definition mark_unattempted :: "graph_class \<Rightarrow> int \<Rightarrow> graph_tables \<Rightarrow> string \<Rightarrow> graph_tables" where
  "mark_unattempted cls at_ms st account =
     (let retained = list_ex (\<lambda>n. tn_account n = account \<and> tn_class n = cls) (gt_nodes st) in
      case state_at account cls (gt_states st) of
        None \<Rightarrow> st\<lparr>gt_states := gt_states st @ [\<lparr>gs_account = account, gs_class = cls, gs_status = Status_Unavailable,
          gs_attempted = at_ms, gs_captured = None, gs_details = unattempted_details retained\<rparr>]\<rparr>
      | Some old \<Rightarrow>
          if gs_attempted old < at_ms
          then st\<lparr>gt_states := map (\<lambda>r. if gs_account r = account \<and> gs_class r = cls then
              r\<lparr>gs_status := Status_Unavailable, gs_attempted := at_ms,
                gs_details := spread (unattempted_details retained)
                  [(''retainedPrevious'', JBool (gs_captured r \<noteq> None \<or> retained)),
                   (''publishedSources'', kept_sources (gs_details r)),
                   (''lastSourceAttemptedAtMs'', last_source_attempt r)]\<rparr> else r) (gt_states st)\<rparr>
          else st)"

definition record_unattempted ::
  "tx \<Rightarrow> graph_class \<Rightarrow> string list \<Rightarrow> int \<Rightarrow> graph_tables \<Rightarrow> bool option \<times> graph_tables" where
  "record_unattempted t cls accounts at_ms st =
     (if accounts = [] then (Some True, st)
      else if \<not> tx_commits t then (None, st)
      else if \<not> tx_locked t then (Some False, st)
      else (Some True, foldl (mark_unattempted cls at_ms) st accounts))"

section \<open>Keyed rows\<close>

lemma concat_batches: "0 < n \<Longrightarrow> concat (batches n xs) = xs"
  by (induction n xs rule: batches.induct) (subst batches.simps, simp)

lemma upsert_row_set:
  assumes "\<And>r. r \<in> set rows \<Longrightarrow> key r = key x \<Longrightarrow> merge x r = x"
  shows "set (upsert_keyed key merge rows x) = insert x {r \<in> set rows. key r \<noteq> key x}"
proof (cases "key x \<in> key ` set rows")
  case True
  have "map (\<lambda>r. if key r = key x then merge x r else r) rows = map (\<lambda>r. if key r = key x then x else r) rows"
    using assms by simp
  then show ?thesis using True by (auto simp: upsert_keyed_def)
next
  case False
  then show ?thesis by (auto simp: upsert_keyed_def image_iff)
qed

lemma upsert_row_distinct:
  assumes "\<And>r. r \<in> set rows \<Longrightarrow> key r = key x \<Longrightarrow> merge x r = x" "distinct (map key rows)"
  shows "distinct (map key (upsert_keyed key merge rows x))"
proof (cases "key x \<in> key ` set rows")
  case True
  have "map key (map (\<lambda>r. if key r = key x then merge x r else r) rows) = map key rows" using assms(1) by simp
  then show ?thesis using True assms(2) by (simp add: upsert_keyed_def del: map_map)
next
  case False
  then show ?thesis using assms(2) by (simp add: upsert_keyed_def)
qed

lemma upsert_all:
  assumes "distinct (map key rows)" "distinct (map key xs)"
    "\<And>x r. x \<in> set xs \<Longrightarrow> r \<in> set rows \<Longrightarrow> key r = key x \<Longrightarrow> merge x r = x"
  shows "set (foldl (upsert_keyed key merge) rows xs) = set xs \<union> {r \<in> set rows. key r \<notin> key ` set xs} \<and>
    distinct (map key (foldl (upsert_keyed key merge) rows xs))"
  using assms
proof (induction xs arbitrary: rows)
  case (Cons x xs)
  let ?rows = "upsert_keyed key merge rows x"
  have s: "set ?rows = insert x {r \<in> set rows. key r \<noteq> key x}"
    using Cons.prems(3) [of x] by (intro upsert_row_set) simp
  have d: "distinct (map key ?rows)" using Cons.prems(1) Cons.prems(3) [of x] by (intro upsert_row_distinct) simp_all
  have new: "key x \<notin> key ` set xs" using Cons.prems(2) by simp
  have "set (foldl (upsert_keyed key merge) ?rows xs) = set xs \<union> {r \<in> set ?rows. key r \<notin> key ` set xs} \<and>
      distinct (map key (foldl (upsert_keyed key merge) ?rows xs))"
  proof (rule Cons.IH [OF d])
    show "distinct (map key xs)" using Cons.prems(2) by simp
    show "merge y r = y" if "y \<in> set xs" "r \<in> set ?rows" "key r = key y" for y r
    proof -
      have "r \<noteq> x" using new that by (metis imageI)
      then show ?thesis using that Cons.prems(3) [of y r] s by auto
    qed
  qed
  then show ?case using s new by auto
qed auto

lemma upsert_batches_concat:
  "distinct (map key (concat bs)) \<Longrightarrow>
    upsert_batches key merge bs rows = Some (foldl (upsert_keyed key merge) rows (concat bs))"
  by (induction bs arbitrary: rows) (simp_all add: upsert_batch_def)

section \<open>The stored graph\<close>

text \<open>What a builder owes: distinct ids, one edge per relation between two nodes, no loose end.\<close>

definition edge_triple :: "g_edge \<Rightarrow> string \<times> string \<times> string" where
  "edge_triple e = (ge_source e, ge_target e, ge_rel e)"

definition graph_ok :: "g_node list \<Rightarrow> g_edge list \<Rightarrow> bool" where
  "graph_ok nodes edges \<longleftrightarrow> distinct (map gn_id nodes) \<and> distinct (map edge_triple edges) \<and>
     (\<forall>e\<in>set edges. ge_source e \<in> gn_id ` set nodes \<and> ge_target e \<in> gn_id ` set nodes)"

definition nodes_at :: "string \<Rightarrow> graph_class \<Rightarrow> graph_tables \<Rightarrow> topo_node set" where
  "nodes_at account cls st = {n \<in> set (gt_nodes st). tn_account n = account \<and> tn_class n = cls}"

definition edges_at :: "string \<Rightarrow> graph_class \<Rightarrow> graph_tables \<Rightarrow> topo_edge set" where
  "edges_at account cls st = {e \<in> set (gt_edges st). te_account e = account \<and> te_class e = cls}"

text \<open>The keys of the three tables, and the column inventory edges never fill.\<close>

definition graph_tables_ok :: "graph_tables \<Rightarrow> bool" where
  "graph_tables_ok st \<longleftrightarrow> distinct (map node_key (gt_nodes st)) \<and> distinct (map edge_key (gt_edges st)) \<and>
     distinct (map (\<lambda>r. (gs_account r, gs_class r)) (gt_states st)) \<and>
     (\<forall>e\<in>set (gt_edges st). te_class e \<noteq> Trace_Class \<longrightarrow> te_meta e = [])"

definition unused_run :: "string \<Rightarrow> string \<Rightarrow> graph_class \<Rightarrow> graph_tables \<Rightarrow> bool" where
  "unused_run run account cls st \<longleftrightarrow> (\<forall>n\<in>nodes_at account cls st. tn_run n \<noteq> run) \<and> (\<forall>e\<in>edges_at account cls st. te_run e \<noteq> run)"

lemma row_fields [simp]:
  "tn_account (node_row account cls run n) = account" "tn_class (node_row account cls run n) = cls"
  "tn_run (node_row account cls run n) = run" "tn_id (node_row account cls run n) = gn_id n"
  "te_account (edge_row account cls run e) = account" "te_class (edge_row account cls run e) = cls"
  "te_run (edge_row account cls run e) = run" "te_source (edge_row account cls run e) = ge_source e"
  "te_target (edge_row account cls run e) = ge_target e"
  by (simp_all add: node_row_def edge_row_def)

lemma node_rows_distinct: "distinct (map gn_id nodes) \<Longrightarrow> distinct (map node_key (map (node_row account cls run) nodes))"
  by (simp add: distinct_map inj_on_def node_key_def)

lemma edge_rows_distinct: "distinct (map edge_triple edges) \<Longrightarrow> distinct (map edge_key (map (edge_row account cls run) edges))"
  by (simp add: distinct_map inj_on_def edge_key_def edge_triple_def edge_row_def)

lemma replace_graph_spec:
  assumes ok: "graph_tables_ok st" "graph_ok nodes edges" and new: "unused_run run account cls st"
  shows "\<exists>st'. replace_graph cls account nodes edges run st = Some st' \<and> graph_tables_ok st' \<and> gt_states st' = gt_states st \<and>
    nodes_at account cls st' = node_row account cls run ` set nodes \<and>
    edges_at account cls st' = edge_row account cls run ` set edges \<and>
    (\<forall>a c. (a, c) \<noteq> (account, cls) \<longrightarrow> nodes_at a c st' = nodes_at a c st \<and> edges_at a c st' = edges_at a c st)"
proof -
  let ?ns = "map (node_row account cls run) nodes" and ?es = "map (edge_row account cls run) edges"
  let ?N = "foldl (upsert_keyed node_key (\<lambda>x _. x)) (gt_nodes st) ?ns"
  let ?E = "foldl (upsert_keyed edge_key merge_edge) (gt_edges st) ?es"
  have d: "distinct (map node_key ?ns)" "distinct (map edge_key ?es)"
    using ok(2) node_rows_distinct edge_rows_distinct unfolding graph_ok_def by blast+
  have meta: "merge_edge x r = x" if x: "x \<in> set ?es" and r: "r \<in> set (gt_edges st)" "edge_key r = edge_key x" for x r
  proof -
    obtain e where e: "x = edge_row account cls run e" using x by auto
    have "cls \<noteq> Trace_Class \<Longrightarrow> te_meta r = []"
      using r ok(1) e by (simp add: graph_tables_ok_def edge_key_def)
    then show ?thesis using r(2) e by (cases r) (simp add: merge_edge_def edge_key_def edge_row_def)
  qed
  have N: "set ?N = set ?ns \<union> {n \<in> set (gt_nodes st). node_key n \<notin> node_key ` set ?ns}" "distinct (map node_key ?N)"
    using upsert_all [OF _ d(1), of "gt_nodes st" "\<lambda>x _. x"] ok(1) by (auto simp: graph_tables_ok_def)
  have E: "set ?E = set ?es \<union> {e \<in> set (gt_edges st). edge_key e \<notin> edge_key ` set ?es}" "distinct (map edge_key ?E)"
    using upsert_all [OF _ d(2), of "gt_edges st" merge_edge] ok(1) meta by (auto simp: graph_tables_ok_def)
  let ?st' = "st\<lparr>gt_edges := filter (\<lambda>e. \<not> (te_account e = account \<and> te_class e = cls \<and> te_run e \<noteq> run)) ?E,
      gt_nodes := filter (\<lambda>n. \<not> (tn_account n = account \<and> tn_class n = cls \<and> tn_run n \<noteq> run)) ?N\<rparr>"
  have "replace_graph cls account nodes edges run st = Some ?st'"
    using d by (simp add: replace_graph_def upsert_batches_concat concat_batches BATCH_def)
  moreover have "graph_tables_ok ?st'"
    using ok(1) N(2) E by (auto simp: graph_tables_ok_def distinct_map_filter edge_row_def)
  moreover have "nodes_at account cls ?st' = node_row account cls run ` set nodes"
    using new N(1) by (auto simp: nodes_at_def unused_run_def)
  moreover have "edges_at account cls ?st' = edge_row account cls run ` set edges"
    using new E(1) by (auto simp: edges_at_def unused_run_def)
  moreover have "nodes_at a c ?st' = nodes_at a c st \<and> edges_at a c ?st' = edges_at a c st" if "(a, c) \<noteq> (account, cls)" for a c
    using that N(1) E(1) by (auto simp: nodes_at_def edges_at_def node_key_def edge_key_def)
  ultimately show ?thesis by auto
qed

section \<open>Evidence\<close>

text \<open>What the tables hold for an account and class: the graph, when it was captured, and from what.\<close>

definition captured_at :: "string \<Rightarrow> graph_class \<Rightarrow> graph_tables \<Rightarrow> int option" where
  "captured_at account cls st = (case state_at account cls (gt_states st) of None \<Rightarrow> None | Some r \<Rightarrow> gs_captured r)"

definition published_sources :: "string \<Rightarrow> graph_class \<Rightarrow> graph_tables \<Rightarrow> js" where
  "published_sources account cls st = (if cls = Trace_Class then JArr []
     else case state_at account cls (gt_states st) of None \<Rightarrow> JArr [] | Some r \<Rightarrow> kept_sources (gs_details r))"

definition evidence :: "string \<Rightarrow> graph_class \<Rightarrow> graph_tables \<Rightarrow> topo_node set \<times> topo_edge set \<times> int option \<times> js" where
  "evidence account cls st = (nodes_at account cls st, edges_at account cls st,
     captured_at account cls st, published_sources account cls st)"

lemma kept_spread: "kept_sources (spread base (extra @ [(''publishedSources'', v)])) = v"
  by (simp add: kept_sources_def spread_def AList.update_conv')

lemma spread_Nil [simp]: "spread base [] = base"
  by (simp add: spread_def)

lemma state_at_map:
  assumes "\<And>r. gs_account (f r) = gs_account r \<and> gs_class (f r) = gs_class r"
  shows "state_at x c (map (\<lambda>r. if gs_account r = account \<and> gs_class r = cls then f r else r) rows) =
    (if (x, c) = (account, cls) then map_option f (state_at x c rows) else state_at x c rows)"
  using assms by (induction rows) (auto simp: state_at_def)

lemma state_at_snoc: "state_at x c (rows @ [r]) =
    (case state_at x c rows of Some q \<Rightarrow> Some q | None \<Rightarrow> if gs_account r = x \<and> gs_class r = c then Some r else None)"
  by (induction rows) (auto simp: state_at_def)

lemma state_at_None: "state_at x c rows = None \<longleftrightarrow> (x, c) \<notin> (\<lambda>r. (gs_account r, gs_class r)) ` set rows"
  by (auto simp: state_at_def find_None_iff)

lemma state_keys_map:
  assumes "\<And>r. gs_account (f r) = gs_account r \<and> gs_class (f r) = gs_class r"
  shows "map (\<lambda>r. (gs_account r, gs_class r)) (map (\<lambda>r. if gs_account r = account \<and> gs_class r = cls then f r else r) rows) =
    map (\<lambda>r. (gs_account r, gs_class r)) rows"
  using assms by auto

lemma state_keys_distinct:
  assumes "distinct (map (\<lambda>r. (gs_account r, gs_class r)) rows)"
    "\<And>r. gs_account (f r) = gs_account r \<and> gs_class (f r) = gs_class r"
  shows "distinct (map (\<lambda>r. (gs_account r, gs_class r))
    (map (\<lambda>r. if gs_account r = account \<and> gs_class r = cls then f r else r) rows))"
  using assms(1) unfolding state_keys_map [of f, OF assms(2)] .

lemma updated_row_key: "gs_account (updated_row now a r) = gs_account r \<and> gs_class (updated_row now a r) = gs_class r"
  by (simp add: updated_row_def)

text \<open>One write of the state row.\<close>

lemma write_state_spec:
  assumes run: "write_graph_state now account cls a (gt_states st) = (True, states)" and ok: "graph_tables_ok st"
  shows "graph_tables_ok (st\<lparr>gt_states := states\<rparr>)"
    "(x, c) \<noteq> (account, cls) \<Longrightarrow> state_at x c states = state_at x c (gt_states st)"
    "\<exists>r. state_at account cls states = Some r \<and> gs_attempted r = ga_attempted a \<and> gs_status r = ga_status a \<and>
      gs_captured r = (if ga_publish a then captured_by now cls a else captured_at account cls st) \<and>
      (cls \<noteq> Trace_Class \<longrightarrow> kept_sources (gs_details r) =
        (if ga_publish a then json_field (ga_details a) ''sources'' else published_sources account cls st))"
    "state_at account cls (gt_states st) = Some old \<Longrightarrow> gs_attempted old < ga_attempted a"
proof -
  note defs = write_graph_state_def updated_row_def inserted_details_def captured_by_def published_sources_def captured_at_def
  have key: "gs_class q = cls" if "state_at account cls (gt_states st) = Some q" for q
    using that by (auto simp: state_at_def find_Some_iff)
  show "graph_tables_ok (st\<lparr>gt_states := states\<rparr>)"
  proof (cases "state_at account cls (gt_states st)")
    case None
    then show ?thesis using run ok state_at_None [of account cls "gt_states st"]
      by (auto simp: write_graph_state_def graph_tables_ok_def)
  next
    case (Some q)
    then have "states = map (\<lambda>r. if gs_account r = account \<and> gs_class r = cls then updated_row now a r else r) (gt_states st)"
      using run by (simp add: write_graph_state_def split: if_splits)
    then show ?thesis using ok state_keys_distinct [of "gt_states st" "updated_row now a", OF _ updated_row_key]
      by (simp add: graph_tables_ok_def del: map_map)
  qed
  show "(x, c) \<noteq> (account, cls) \<Longrightarrow> state_at x c states = state_at x c (gt_states st)"
    using run state_at_map [of "updated_row now a", OF updated_row_key]
    by (auto simp: write_graph_state_def state_at_snoc split: option.splits if_splits)
  show "\<exists>r. state_at account cls states = Some r \<and> gs_attempted r = ga_attempted a \<and> gs_status r = ga_status a \<and>
      gs_captured r = (if ga_publish a then captured_by now cls a else captured_at account cls st) \<and>
      (cls \<noteq> Trace_Class \<longrightarrow> kept_sources (gs_details r) =
        (if ga_publish a then json_field (ga_details a) ''sources'' else published_sources account cls st))"
  proof (cases "state_at account cls (gt_states st)")
    case None
    then show ?thesis using run kept_spread [of _ "[]"] by (auto simp: defs state_at_snoc)
  next
    case (Some q)
    then have "state_at account cls states = Some (updated_row now a q)"
      using run state_at_map [of "updated_row now a", OF updated_row_key]
      by (auto simp: write_graph_state_def split: if_splits)
    then show ?thesis using Some key [OF Some] kept_spread [of _ "[]"] by (auto simp: defs)
  qed
  show "state_at account cls (gt_states st) = Some old \<Longrightarrow> gs_attempted old < ga_attempted a"
    using run by (auto simp: write_graph_state_def split: if_splits)
qed

text \<open>What a transaction can do to the evidence: nothing, or publish one graph for one key.\<close>

definition holds_graph ::
  "string \<Rightarrow> graph_class \<Rightarrow> g_node list \<Rightarrow> g_edge list \<Rightarrow> string \<Rightarrow> graph_tables \<Rightarrow> bool" where
  "holds_graph account cls nodes edges run st \<longleftrightarrow>
     nodes_at account cls st = node_row account cls run ` set nodes \<and>
     edges_at account cls st = edge_row account cls run ` set edges"

lemma evidence_rows:
  "gt_nodes st' = gt_nodes st \<Longrightarrow> gt_edges st' = gt_edges st \<Longrightarrow> gt_states st' = gt_states st \<Longrightarrow> evidence x c st' = evidence x c st"
  by (simp add: evidence_def nodes_at_def edges_at_def captured_at_def published_sources_def)

lemma publish_spec:
  assumes ok: "graph_tables_ok st" "graph_ok nodes edges" "ga_publish a \<Longrightarrow> unused_run run account cls st"
    and run: "publish_graph t cls account nodes edges run a st = (res, st')"
  shows "graph_tables_ok st' \<and> (\<forall>x c. (x, c) \<noteq> (account, cls) \<longrightarrow> evidence x c st' = evidence x c st) \<and>
    (if \<exists>r. res = Some r \<and> rr_published r = 1
     then ga_publish a \<and> holds_graph account cls nodes edges run st' \<and>
       captured_at account cls st' = captured_by (tx_now t) cls a \<and>
       (cls \<noteq> Trace_Class \<longrightarrow> published_sources account cls st' = json_field (ga_details a) ''sources'') \<and>
       (\<forall>old. state_at account cls (gt_states st) = Some old \<longrightarrow> gs_attempted old < ga_attempted a)
     else evidence account cls st' = evidence account cls st)"
proof (cases "tx_commits t \<and> tx_locked t \<and> fst (write_graph_state (tx_now t) account cls a (gt_states st))")
  case False
  then show ?thesis using run ok(1)
    by (auto simp: publish_graph_def empty_result_def split: if_splits prod.splits bool.splits)
next
  case True
  then obtain states where w: "write_graph_state (tx_now t) account cls a (gt_states st) = (True, states)"
    by (metis prod.collapse)
  let ?s = "st\<lparr>gt_states := states\<rparr>"
  note spec = write_state_spec [OF w ok(1)]
  have s: "graph_tables_ok ?s" "gt_nodes ?s = gt_nodes st" "gt_edges ?s = gt_edges st" using spec(1) by simp_all
  have others: "evidence x c ?s = evidence x c st" if "(x, c) \<noteq> (account, cls)" for x c
    using spec(2) [OF that] by (simp add: evidence_def nodes_at_def edges_at_def captured_at_def published_sources_def)
  show ?thesis
  proof (cases "ga_publish a")
    case False
    have "evidence account cls ?s = evidence account cls st" using spec(3) False
      by (auto simp: evidence_def nodes_at_def edges_at_def captured_at_def published_sources_def)
    then show ?thesis using run True w False s(1) others by (auto simp: publish_graph_def empty_result_def)
  next
    case publish: True
    have "unused_run run account cls ?s" using ok(3) [OF publish] by (simp add: unused_run_def nodes_at_def edges_at_def)
    from replace_graph_spec [OF s(1) ok(2) this] obtain u where
      u: "replace_graph cls account nodes edges run ?s = Some u" "graph_tables_ok u" "gt_states u = states"
        "holds_graph account cls nodes edges run u"
        "\<forall>x c. (x, c) \<noteq> (account, cls) \<longrightarrow> nodes_at x c u = nodes_at x c ?s \<and> edges_at x c u = edges_at x c ?s"
      unfolding holds_graph_def by auto
    have "evidence x c u = evidence x c st" if "(x, c) \<noteq> (account, cls)" for x c
    proof -
      have "nodes_at x c ?s = nodes_at x c st" "edges_at x c ?s = edges_at x c st"
        by (simp_all add: nodes_at_def edges_at_def)
      then show ?thesis using spec(2) [OF that] u(3,5) that
        by (simp add: evidence_def captured_at_def published_sources_def)
    qed
    moreover have "captured_at account cls u = captured_by (tx_now t) cls a"
      "cls \<noteq> Trace_Class \<longrightarrow> published_sources account cls u = json_field (ga_details a) ''sources''"
      using spec(3) publish u(3) by (auto simp: captured_at_def published_sources_def)
    moreover have "res = Some (empty_result\<lparr>rr_nodes := length nodes, rr_edges := length edges, rr_published := 1,
        rr_degraded := (if ga_status a = Status_Partial then 1 else 0)\<rparr>)" "st' = u"
      using run True w publish u(1) by (simp_all add: publish_graph_def)
    ultimately show ?thesis using u(2,4) publish spec(4) by auto
  qed
qed

lemma write_graph_spec:
  assumes ok: "graph_tables_ok st" "graph_ok nodes edges" "ga_publish a \<Longrightarrow> unused_run run account cls st"
    and run: "write_graph t t' cls account nodes edges run a st = (res, st')"
  shows "graph_tables_ok st' \<and> (\<forall>x c. (x, c) \<noteq> (account, cls) \<longrightarrow> evidence x c st' = evidence x c st) \<and>
    (if \<exists>r. res = Some r \<and> rr_published r = 1
     then ga_publish a \<and> holds_graph account cls nodes edges run st' \<and>
       captured_at account cls st' = captured_by (tx_now t) cls a \<and>
       (cls \<noteq> Trace_Class \<longrightarrow> published_sources account cls st' = json_field (ga_details a) ''sources'') \<and>
       (\<forall>old. state_at account cls (gt_states st) = Some old \<longrightarrow> gs_attempted old < ga_attempted a)
     else evidence account cls st' = evidence account cls st)"
proof -
  obtain r1 s1 where one: "publish_graph t cls account nodes edges run a st = (r1, s1)" by fastforce
  note first = publish_spec [OF ok(1,2) ok(3) one]
  show ?thesis
  proof (cases r1)
    case (Some r)
    then have "r1 = res" "s1 = st'" using run one by (simp_all add: write_graph_def)
    then show ?thesis using first by blast
  next
    case None
    obtain r2 s2 where two: "publish_graph t' cls account nodes edges run (failed_attempt a) s1 = (r2, s2)" by fastforce
    have "\<not> ga_publish (failed_attempt a)" by (simp add: failed_attempt_def)
    with publish_spec [OF _ ok(2) _ two] first None run one two show ?thesis
      by (auto simp: write_graph_def split: if_splits)
  qed
qed

text \<open>
  Publication is all or nothing. Whatever happens to its transactions, a rebuild of one account
  and class leaves every other key's graph, capture time and sources alone, and its own either
  exactly as they were, or, when it reports a publication, exactly the new graph under the new run
  with the new capture time and sources; and it publishes only over an older attempt, and only when
  its attempt asks for it.
\<close>

theorem publication_is_all_or_nothing:
  assumes ok: "graph_tables_ok st" "graph_ok nodes edges" "ga_publish a \<Longrightarrow> unused_run run account cls st"
    and run: "write_graph t t' cls account nodes edges run a st = (res, st')"
  shows "graph_tables_ok st' \<and> (\<forall>x c. (x, c) \<noteq> (account, cls) \<longrightarrow> evidence x c st' = evidence x c st) \<and>
    (if \<exists>r. res = Some r \<and> rr_published r = 1
     then ga_publish a \<and> holds_graph account cls nodes edges run st' \<and>
       captured_at account cls st' = captured_by (tx_now t) cls a \<and>
       (cls \<noteq> Trace_Class \<longrightarrow> published_sources account cls st' = json_field (ga_details a) ''sources'') \<and>
       (\<forall>old. state_at account cls (gt_states st) = Some old \<longrightarrow> gs_attempted old < ga_attempted a)
     else evidence account cls st' = evidence account cls st)"
  by (rule write_graph_spec [OF assms])

section \<open>Rebuilds in any order\<close>

lemma mark_unattempted_spec:
  assumes "graph_tables_ok st"
  shows "graph_tables_ok (mark_unattempted cls at_ms st account) \<and>
    (\<forall>x c. evidence x c (mark_unattempted cls at_ms st account) = evidence x c st)"
proof (cases "state_at account cls (gt_states st)")
  case None
  then show ?thesis using assms state_at_None [of account cls "gt_states st"]
    by (auto simp: mark_unattempted_def Let_def graph_tables_ok_def evidence_def nodes_at_def edges_at_def captured_at_def
        published_sources_def state_at_snoc unattempted_details_def kept_sources_def split: option.splits)
next
  case (Some old)
  define retained where "retained = list_ex (\<lambda>n. tn_account n = account \<and> tn_class n = cls) (gt_nodes st)"
  define f where "f r = r\<lparr>gs_status := Status_Unavailable, gs_attempted := at_ms,
      gs_details := spread (unattempted_details retained)
        [(''retainedPrevious'', JBool (gs_captured r \<noteq> None \<or> retained)),
         (''publishedSources'', kept_sources (gs_details r)),
         (''lastSourceAttemptedAtMs'', last_source_attempt r)]\<rparr>" for r
  have f: "gs_account (f r) = gs_account r \<and> gs_class (f r) = gs_class r"
    "gs_captured (f r) = gs_captured r" "kept_sources (gs_details (f r)) = kept_sources (gs_details r)" for r
    by (simp_all add: f_def kept_sources_def spread_def AList.update_conv')
  let ?rows = "map (\<lambda>r. if gs_account r = account \<and> gs_class r = cls then f r else r) (gt_states st)"
  have keep: "graph_tables_ok (st\<lparr>gt_states := ?rows\<rparr>) \<and> (\<forall>x c. evidence x c (st\<lparr>gt_states := ?rows\<rparr>) = evidence x c st)"
    using assms state_keys_distinct [of "gt_states st" f account cls, OF _ f(1)] state_at_map [of f, OF f(1)] f(2,3)
    by (auto simp: graph_tables_ok_def evidence_def nodes_at_def edges_at_def captured_at_def published_sources_def
        simp del: map_map split: option.splits)
  have "mark_unattempted cls at_ms st account = (if gs_attempted old < at_ms then st\<lparr>gt_states := ?rows\<rparr> else st)"
    unfolding mark_unattempted_def Let_def Some f_def retained_def by simp
  then show ?thesis using keep assms by simp
qed

lemma record_unattempted_spec:
  assumes "graph_tables_ok st" "record_unattempted t cls accounts at_ms st = (res, st')"
  shows "graph_tables_ok st' \<and> (\<forall>x c. evidence x c st' = evidence x c st)"
proof -
  have fold: "graph_tables_ok s \<Longrightarrow> graph_tables_ok (foldl (mark_unattempted cls at_ms) s accounts) \<and>
      (\<forall>x c. evidence x c (foldl (mark_unattempted cls at_ms) s accounts) = evidence x c s)" for s
  proof (induction accounts arbitrary: s)
    case (Cons a as)
    then show ?case using mark_unattempted_spec [OF Cons.prems, of cls at_ms a] by simp
  qed simp
  show ?thesis using assms fold [OF assms(1)] by (auto simp: record_unattempted_def split: if_splits)
qed

text \<open>
  The transactions of any number of rebuilds, in whatever order they commit. A run's id is fresh
  (\<open>randomUUID\<close>), and a run visits an account once.
\<close>

inductive graph_step :: "graph_tables \<Rightarrow> graph_tables \<Rightarrow> bool" where
  Rebuilt: "graph_ok nodes edges \<Longrightarrow> (ga_publish a \<Longrightarrow> unused_run run account cls st) \<Longrightarrow>
    write_graph t t' cls account nodes edges run a st = (res, st') \<Longrightarrow> graph_step st st'"
| Unattempted: "record_unattempted t cls accounts at_ms st = (done_mark, st') \<Longrightarrow> graph_step st st'"

inductive graph_reachable :: "graph_tables \<Rightarrow> bool" where
  graph_init: "graph_reachable \<lparr>gt_nodes = [], gt_edges = [], gt_states = []\<rparr>"
| graph_next: "graph_reachable st \<Longrightarrow> graph_step st st' \<Longrightarrow> graph_reachable st'"

definition one_publication :: "string \<Rightarrow> graph_class \<Rightarrow> graph_tables \<Rightarrow> bool" where
  "one_publication account cls st \<longleftrightarrow> (\<exists>nodes edges run. graph_ok nodes edges \<and>
     holds_graph account cls nodes edges run st \<and> (nodes \<noteq> [] \<longrightarrow> captured_at account cls st \<noteq> None))"

lemma one_publication_evidence:
  "one_publication account cls st \<Longrightarrow> evidence account cls st' = evidence account cls st \<Longrightarrow> one_publication account cls st'"
  by (simp add: one_publication_def holds_graph_def evidence_def)

lemma graph_step_keeps:
  assumes "graph_step st st'" "graph_tables_ok st" "\<And>account cls. one_publication account cls st"
  shows "graph_tables_ok st' \<and> one_publication x c st'"
  using assms(1)
proof (cases rule: graph_step.cases)
  case (Rebuilt nodes edges a run account cls t t' res)
  note w = write_graph_spec [OF assms(2) Rebuilt]
  show ?thesis
  proof (cases "(x, c) = (account, cls) \<and> (\<exists>r. res = Some r \<and> rr_published r = 1)")
    case True
    then have "holds_graph x c nodes edges run st'" "captured_at x c st' = captured_by (tx_now t) cls a" "ga_publish a"
      using w by auto
    then show ?thesis using w Rebuilt(1) unfolding one_publication_def captured_by_def by (metis option.distinct(1))
  next
    case False
    then have "evidence x c st' = evidence x c st" using w by (auto split: if_splits)
    then show ?thesis using w one_publication_evidence assms(3) by blast
  qed
next
  case (Unattempted t cls accounts at_ms done_mark)
  then show ?thesis using record_unattempted_spec [OF assms(2) Unattempted] one_publication_evidence assms(3) by blast
qed

lemma graph_reachable_ok: "graph_reachable st \<Longrightarrow> graph_tables_ok st \<and> (\<forall>x c. one_publication x c st)"
proof (induction rule: graph_reachable.induct)
  case graph_init
  show ?case
    by (auto simp: graph_tables_ok_def one_publication_def holds_graph_def nodes_at_def edges_at_def graph_ok_def
        intro!: exI [of _ "[]"])
next
  case (graph_next st st')
  then show ?case using graph_step_keeps by blast
qed

text \<open>
  C14. No reader ever sees a graph in pieces. In every state the rebuilds of all classes and accounts
  can reach, however their transactions interleave, fail or are skipped, the rows stored for an
  account and class are exactly one published graph: under a single run, with one node per id and
  one edge per relation, no edge with a missing end, and a capture time.
\<close>

theorem stored_graph_is_one_publication:
  assumes "graph_reachable st"
  shows "\<exists>nodes edges run. graph_ok nodes edges \<and>
    nodes_at account cls st = node_row account cls run ` set nodes \<and>
    edges_at account cls st = edge_row account cls run ` set edges \<and>
    (nodes_at account cls st \<noteq> {} \<longrightarrow> captured_at account cls st \<noteq> None)"
proof -
  have "one_publication account cls st" using graph_reachable_ok [OF assms] by blast
  then obtain nodes edges run where "graph_ok nodes edges" "holds_graph account cls nodes edges run st"
      "nodes \<noteq> [] \<longrightarrow> captured_at account cls st \<noteq> None"
    unfolding one_publication_def by blast
  then show ?thesis by (intro exI [of _ nodes] exI [of _ edges] exI [of _ run]) (simp add: holds_graph_def)
qed

text \<open>A first publication of two nodes.\<close>

definition two_nodes :: "g_node list" where
  "two_nodes = [\<lparr>gn_id = ''r53:a'', gn_kind = ''route53'', gn_label = ''a'', gn_meta = None\<rparr>,
     \<lparr>gn_id = ''alb:b'', gn_kind = ''alb'', gn_label = ''b'', gn_meta = None\<rparr>]"

definition one_edge :: "g_edge list" where
  "one_edge = [\<lparr>ge_source = ''r53:a'', ge_target = ''alb:b'', ge_rel = ''ROUTES_TO'', ge_confidence = ''observed'', ge_meta = None\<rparr>]"

definition first_attempt :: graph_attempt where
  "first_attempt = \<lparr>ga_status = Status_Ok, ga_attempted = 5, ga_publish = True, ga_details = [(''sources'', JArr [])]\<rparr>"

definition good_tx :: tx where
  "good_tx = \<lparr>tx_locked = True, tx_commits = True, tx_now = 7\<rparr>"

definition no_graphs :: graph_tables where
  "no_graphs = \<lparr>gt_nodes = [], gt_edges = [], gt_states = []\<rparr>"

definition first_run :: "rebuild_result option \<times> graph_tables" where
  "first_run = write_graph good_tx good_tx Flow_Class ''self'' two_nodes one_edge ''run-1'' first_attempt no_graphs"

lemma first_run_facts:
  "graph_tables_ok no_graphs" "graph_ok two_nodes one_edge" "unused_run ''run-1'' ''self'' Flow_Class no_graphs"
  "write_graph good_tx good_tx Flow_Class ''self'' two_nodes one_edge ''run-1'' first_attempt no_graphs = (fst first_run, snd first_run)"
  by (simp_all add: first_run_def no_graphs_def graph_tables_ok_def unused_run_def nodes_at_def edges_at_def
      graph_ok_def two_nodes_def one_edge_def)

lemma first_run_published: "map_option rr_published (fst first_run) = Some 1"
  by code_simp

theorem publication_is_all_or_nothing_witness:
  "nodes_at ''self'' Flow_Class (snd first_run) = node_row ''self'' Flow_Class ''run-1'' ` set two_nodes \<and>
   captured_at ''self'' Flow_Class (snd first_run) = Some 7"
  using publication_is_all_or_nothing [OF first_run_facts(1,2) first_run_facts(3) first_run_facts(4)] first_run_published
  by (auto simp: holds_graph_def captured_by_def good_tx_def)

theorem stored_graph_is_one_publication_witness:
  "captured_at ''self'' Flow_Class (snd first_run) \<noteq> None"
proof -
  have "graph_reachable (snd first_run)"
    using graph_next [OF graph_init [folded no_graphs_def] Rebuilt [OF first_run_facts(2,3,4)]] .
  moreover have "gt_nodes (snd first_run) \<noteq> []" "list_all (\<lambda>n. tn_account n = ''self'' \<and> tn_class n = Flow_Class) (gt_nodes (snd first_run))"
    by code_simp+
  then have "nodes_at ''self'' Flow_Class (snd first_run) \<noteq> {}"
    by (cases "gt_nodes (snd first_run)") (auto simp: nodes_at_def)
  ultimately show ?thesis using stored_graph_is_one_publication [of "snd first_run" "''self''" Flow_Class] by blast
qed

end
