(* ===== verification/Flow_Resolve.thy ===== *)
theory Flow_Resolve
  imports Js_Values
begin

text \<open>
  Name resolution for the request-flow graph (\<open>web/lib/flow-topology.ts\<close>, helpers): coercion
  of inventory columns, host names and ARNs, the owner of a private address among ECS tasks, and
  the Route53 alias chain. Inventory rows are objects of dynamic values; the run-time's
  \<open>JSON.parse\<close>, applied only to columns that arrive as text, is the parameter \<open>parse\<close>. The
  elements of a row's nested arrays are taken to be objects, as the inventory writes them.
\<close>

section \<open>Columns\<close>

type_synonym row = js_object

definition str :: "js \<Rightarrow> string" where
  "str v = (if nullish v then [] else to_string v)"

definition arr :: "(string \<Rightarrow> js option) \<Rightarrow> js \<Rightarrow> js list" where
  "arr parse v = (case v of
      JArr vs \<Rightarrow> vs
    | JStr s \<Rightarrow>
        if starts_with ''['' (trim s) then (case parse s of Some (JArr vs) \<Rightarrow> vs | _ \<Rightarrow> []) else []
    | _ \<Rightarrow> [])"

definition strs :: "js \<Rightarrow> string list" where
  "strs v = (case v of JArr vs \<Rightarrow> map str vs | _ \<Rightarrow> [])"

definition scoped_target_ip :: "string \<Rightarrow> string \<Rightarrow> string \<Rightarrow> string" where
  "scoped_target_ip region vpc ip = region @ ''|'' @ vpc @ ''|'' @ ip"

definition drop_last_dot :: "string \<Rightarrow> string" where
  "drop_last_dot s = (if s \<noteq> [] \<and> last s = CHR ''.'' then butlast s else s)"

definition dns :: "js \<Rightarrow> string" where
  "dns v = lower (drop_last_dot (str v))"

definition or_else :: "string \<Rightarrow> string \<Rightarrow> string" where
  "or_else a b = (if a \<noteq> [] then a else b)"

definition aliases_of :: "row \<Rightarrow> string list" where
  "aliases_of c = (case field c ''aliases'' of
      JArr vs \<Rightarrow> map str vs
    | JObj fs \<Rightarrow> (case field fs ''Items'' of JArr vs \<Rightarrow> map str vs | _ \<Rightarrow> [])
    | _ \<Rightarrow> [])"

section \<open>Host names and ARNs\<close>

text \<open>\<open>/^(.+?)\.s3[.-][^/]*amazonaws\.com$/i\<close>: the shortest non-empty prefix before such a tail.\<close>

definition s3_tail :: "string \<Rightarrow> bool" where
  "s3_tail s = (let t = lower s in
     starts_with ''.s3'' t \<and> length t > 3 \<and> t ! 3 \<in> {CHR ''.'', CHR ''-''} \<and>
     ends_with ''amazonaws.com'' (drop 4 t) \<and> CHR ''/'' \<notin> set (drop 4 t))"

fun s3_prefix :: "string \<Rightarrow> string \<Rightarrow> string option" where
  "s3_prefix pre [] = None"
| "s3_prefix pre (c # cs) =
     (if pre \<noteq> [] \<and> s3_tail (c # cs) then Some pre
      else if c = CHR 0x0A \<or> c = CHR 0x0D then None
      else s3_prefix (pre @ [c]) cs)"

definition s3_bucket :: "string \<Rightarrow> string option" where
  "s3_bucket domain = s3_prefix [] domain"

definition alnum :: "char \<Rightarrow> bool" where
  "alnum c \<longleftrightarrow> is_digit c \<or> (let k = of_char (lower_char c) :: nat in 97 \<le> k \<and> k \<le> 122)"

definition execute_api_id :: "string \<Rightarrow> string option" where
  "execute_api_id domain = (case split_on CHR ''.'' domain of
      [api, service, region, aws, com] \<Rightarrow>
        if api \<noteq> [] \<and> (\<forall>c\<in>set api. alnum c) \<and> lower service = ''execute-api'' \<and> region \<noteq> [] \<and>
           lower aws = ''amazonaws'' \<and> lower com = ''com''
        then Some api else None
    | _ \<Rightarrow> None)"

text \<open>\<open>/\/functions\/(arn:aws:lambda:[^/]+)\/invocations/i\<close> on the parts between slashes.\<close>

fun wrapped_function :: "string list \<Rightarrow> string option" where
  "wrapped_function (_ # p # q # r # ps) =
     (if lower p = ''functions'' \<and> starts_with ''arn:aws:lambda:'' (lower q) \<and> length q > 15 \<and>
         starts_with ''invocations'' (lower r)
      then Some q else wrapped_function (p # q # r # ps))"
| "wrapped_function _ = None"

definition lambda_arn_from_integration :: "string \<Rightarrow> string option" where
  "lambda_arn_from_integration uri =
     (let a = (case wrapped_function (split_on CHR ''/'' uri) of Some w \<Rightarrow> w | None \<Rightarrow> uri);
          parts = split_on CHR '':'' a
      in if \<not> starts_with ''arn:aws:lambda:'' (lower a) then None
         else Some (if 7 < length parts then join_with '':'' (take 7 parts) else a))"

fun replace_first :: "string \<Rightarrow> string \<Rightarrow> string \<Rightarrow> string" where
  "replace_first pat rep [] = []"
| "replace_first pat rep (c # cs) =
     (if starts_with pat (c # cs) then rep @ drop (length pat) (c # cs) else c # replace_first pat rep cs)"

definition listener_arn :: "string \<Rightarrow> bool" where
  "listener_arn uri = (case split_on CHR '':'' uri of
      p0 # p1 # p2 # p3 # p4 # rest \<Rightarrow>
        lower p0 = ''arn'' \<and> lower p1 = ''aws'' \<and> lower p2 = ''elasticloadbalancing'' \<and> rest \<noteq> [] \<and>
        (case split_on CHR ''/'' (join_with '':'' rest) of
           [l, k, x, y, z] \<Rightarrow> lower l = ''listener'' \<and> lower k \<in> {''app'', ''net''} \<and> x \<noteq> [] \<and> y \<noteq> [] \<and> z \<noteq> []
         | _ \<Rightarrow> False)
    | _ \<Rightarrow> False)"

text \<open>\<open>replace(/\/[^/]+$/, '')\<close>: the last segment goes when it is not empty.\<close>

definition drop_last_segment :: "string \<Rightarrow> string" where
  "drop_last_segment s = (let parts = split_on CHR ''/'' s in
     if 1 < length parts \<and> last parts \<noteq> [] then join_with ''/'' (butlast parts) else s)"

definition lb_arn_from_listener :: "string \<Rightarrow> string option" where
  "lb_arn_from_listener uri =
     (if \<not> listener_arn uri then None
      else Some (drop_last_segment (replace_first '':listener/'' '':loadbalancer/'' uri)))"

definition is_elb_host :: "string \<Rightarrow> bool" where
  "is_elb_host h = (case rev (split_on CHR ''.'' (lower h)) of
      com # aws # x # y # rest \<Rightarrow>
        com = ''com'' \<and> aws = ''amazonaws'' \<and>
        (x = ''elb'' \<or>
         (y = ''elb'' \<and> rest \<noteq> [] \<and> x \<noteq> [] \<and> (\<forall>c\<in>set x. alnum c \<or> c = CHR ''-'')))
    | _ \<Rightarrow> False)"

definition bare_dns :: "js \<Rightarrow> string" where
  "bare_dns v = (let d = dns v;
      stripped = (if starts_with ''dualstack.'' d then drop (length ''dualstack.'') d else d)
     in if stripped \<noteq> d \<and> is_elb_host stripped then stripped else d)"

section \<open>Who owns an ECS address\<close>

record resolved_ip =
  ri_label :: string
  ri_resolved :: string
  ri_meta :: "js_object option"

definition sub_object :: "js \<Rightarrow> js_object" where
  "sub_object v = (case v of JObj fs \<Rightarrow> fs | _ \<Rightarrow> [])"

definition add_member :: "'k \<Rightarrow> 'v \<Rightarrow> ('k \<times> 'v list) list \<Rightarrow> ('k \<times> 'v list) list" where
  "add_member k v m = AList.update k (js_add v (case map_of m k of None \<Rightarrow> [] | Some s \<Rightarrow> s)) m"

definition add_subnet :: "(string \<times> string list) list \<Rightarrow> row \<Rightarrow> (string \<times> string list) list" where
  "add_subnet m subnet =
     (let region = str (field subnet ''region''); sid = str (field subnet ''resource_id'') in
      if region = [] \<or> sid = [] then m
      else add_member (region @ ''|'' @ sid) (str (field subnet ''vpc_id'')) m)"

definition subnet_vpcs :: "row list \<Rightarrow> (string \<times> string list) list" where
  "subnet_vpcs subnets = foldl add_subnet [] subnets"

definition single :: "string list \<Rightarrow> string" where
  "single xs = (case xs of [x] \<Rightarrow> x | _ \<Rightarrow> [])"

record ecs_state =
  es_map :: "(string \<times> resolved_ip) list"
  es_ambiguous :: "string list"
  es_unknown :: "string list"

definition ecs_entry :: "string \<Rightarrow> string \<Rightarrow> string \<Rightarrow> string \<Rightarrow> string \<Rightarrow> string \<Rightarrow> resolved_ip" where
  "ecs_entry svc task cluster region vpc subnet =
     \<lparr>ri_label = or_else svc task, ri_resolved = ''ecs'',
      ri_meta = Some [(''ecsService'', JStr svc), (''task'', JStr task), (''cluster'', JStr cluster),
        (''region'', JStr region), (''vpcId'', JStr vpc), (''subnetId'', JStr subnet)]\<rparr>"

definition meta_field :: "resolved_ip \<Rightarrow> string \<Rightarrow> js" where
  "meta_field r k = (case ri_meta r of None \<Rightarrow> JUndef | Some fs \<Rightarrow> field fs k)"

definition same_task :: "resolved_ip \<Rightarrow> resolved_ip \<Rightarrow> bool" where
  "same_task a b \<longleftrightarrow> meta_field a ''task'' = meta_field b ''task'' \<and>
     meta_field a ''cluster'' = meta_field b ''cluster'' \<and> meta_field a ''subnetId'' = meta_field b ''subnetId''"

text \<open>One address of a task: scoped by its own attachment, dropped for good once two tasks claim it.\<close>

definition claim_ip :: "row \<Rightarrow> string \<Rightarrow> string \<Rightarrow> ecs_state \<Rightarrow> js \<Rightarrow> ecs_state" where
  "claim_ip t subnet vpc st d =
     (let region = str (field t ''region''); ip = str (attr d ''Value'') in
      if str (attr d ''Name'') \<noteq> ''privateIPv4Address'' \<or> \<not> truthy (attr d ''Value'') then st
      else if region = [] \<or> vpc = [] \<or> (truthy (field t ''vpc_id'') \<and> str (field t ''vpc_id'') \<noteq> vpc)
        then st\<lparr>es_unknown := js_add (region @ ''|'' @ ip) (es_unknown st)\<rparr>
      else
        (let key = scoped_target_ip region vpc ip;
             group = str (field t ''task_group'');
             svc = (if starts_with ''service:'' group then drop 8 group else group);
             task = or_else (last (split_on CHR ''/'' (str (field t ''resource_id'')))) (str (field t ''resource_id''));
             entry = ecs_entry svc task (last (split_on CHR ''/'' (str (field t ''cluster_arn'')))) region vpc subnet
         in if key \<in> set (es_ambiguous st) then st
            else case map_of (es_map st) key of
              Some previous \<Rightarrow>
                if \<not> same_task previous entry
                then st\<lparr>es_map := AList.delete key (es_map st), es_ambiguous := js_add key (es_ambiguous st)\<rparr>
                else st\<lparr>es_map := AList.update key entry (es_map st)\<rparr>
            | None \<Rightarrow> st\<lparr>es_map := AList.update key entry (es_map st)\<rparr>))"

definition claim_attachment ::
    "(string \<Rightarrow> js option) \<Rightarrow> (string \<times> string list) list \<Rightarrow> row \<Rightarrow> ecs_state \<Rightarrow> js \<Rightarrow> ecs_state" where
  "claim_attachment parse vpcs t st att =
     (let details = arr parse (attr att ''Details'');
          subnet = single (js_set (map (\<lambda>d. str (attr d ''Value'')) (filter (\<lambda>d. str (attr d ''Name'') = ''subnetId'') details)));
          vpc = (if subnet = [] then []
            else case map_of vpcs (str (field t ''region'') @ ''|'' @ subnet) of None \<Rightarrow> [] | Some vs \<Rightarrow> single vs)
      in foldl (claim_ip t subnet vpc) st details)"

definition claim_task ::
    "(string \<Rightarrow> js option) \<Rightarrow> (string \<times> string list) list \<Rightarrow> ecs_state \<Rightarrow> row \<Rightarrow> ecs_state" where
  "claim_task parse vpcs st t = foldl (claim_attachment parse vpcs t) st (arr parse (field t ''attachments''))"

text \<open>An address that a task of unknown VPC also claims is not attributed to anyone.\<close>

definition ruled_out :: "string list \<Rightarrow> string \<Rightarrow> bool" where
  "ruled_out unknown key = (case split_on CHR ''|'' key of
      region # _ # ip # _ \<Rightarrow> region @ ''|'' @ ip \<in> set unknown \<or> ''|'' @ ip \<in> set unknown
    | _ \<Rightarrow> False)"

definition ecs_ip_map :: "(string \<Rightarrow> js option) \<Rightarrow> row list \<Rightarrow> row list \<Rightarrow> (string \<times> resolved_ip) list" where
  "ecs_ip_map parse tasks subnets =
     (let st = foldl (claim_task parse (subnet_vpcs subnets)) \<lparr>es_map = [], es_ambiguous = [], es_unknown = []\<rparr> tasks
      in filter (\<lambda>(k, _). \<not> ruled_out (es_unknown st) k) (es_map st))"

section \<open>The Route53 alias chain\<close>

definition record_name :: "row \<Rightarrow> string" where
  "record_name r = or_else (dns (field r ''name'')) (dns (field r ''resource_id''))"

definition record_target :: "(string \<Rightarrow> js option) \<Rightarrow> row \<Rightarrow> string" where
  "record_target parse r =
     (let target = bare_dns (attr (field r ''alias_target'') ''DNSName'') in
      if target \<noteq> [] then target
      else (case arr parse (field r ''records'') of
          [] \<Rightarrow> bare_dns (JStr [])
        | JStr s # _ \<Rightarrow> bare_dns (JStr s)
        | v # _ \<Rightarrow> bare_dns (JStr (str (attr v ''Value'')))))"

definition add_alias :: "(string \<Rightarrow> js option) \<Rightarrow> (string \<times> string list) list \<Rightarrow> row \<Rightarrow> (string \<times> string list) list" where
  "add_alias parse m r =
     (let name = record_name r; target = record_target parse r in
      if field r ''private_zone'' \<noteq> JBool False then m
      else if name \<noteq> [] \<and> target \<noteq> [] \<and> name \<noteq> target then add_member name target m
      else m)"

definition alias_by_name :: "(string \<Rightarrow> js option) \<Rightarrow> row list \<Rightarrow> (string \<times> string) list" where
  "alias_by_name parse records =
     map (\<lambda>(n, ts). (n, hd ts)) (filter (\<lambda>(n, ts). length ts = 1) (foldl (add_alias parse) [] records))"

fun chase :: "(string \<times> string) list \<Rightarrow> nat \<Rightarrow> string list \<Rightarrow> string \<Rightarrow> string option" where
  "chase m hops seen cur = (case map_of m cur of
      None \<Rightarrow> Some cur
    | Some nxt \<Rightarrow>
        if cur \<in> set seen then None
        else (case hops of 0 \<Rightarrow> None | Suc n \<Rightarrow> chase m n (seen @ [cur]) nxt))"

declare chase.simps [simp del]

definition resolve_via_r53 :: "(string \<times> string) list \<Rightarrow> string \<Rightarrow> string option" where
  "resolve_via_r53 m domain = (case chase m 4 [] domain of
      None \<Rightarrow> None
    | Some t \<Rightarrow> if t = domain then None else Some t)"

text \<open>The chain that a resolution follows, as a specification: \<open>n\<close> hops from \<open>a\<close> to \<open>b\<close>.\<close>

fun hops_to :: "(string \<times> string) list \<Rightarrow> nat \<Rightarrow> string \<Rightarrow> string \<Rightarrow> bool" where
  "hops_to m 0 a b \<longleftrightarrow> a = b"
| "hops_to m (Suc n) a b \<longleftrightarrow> (\<exists>c. map_of m a = Some c \<and> hops_to m n c b)"

lemma chase_hops:
  "chase m k seen a = Some b \<Longrightarrow> \<exists>n\<le>k. hops_to m n a b \<and> map_of m b = None"
proof (induction m k seen a rule: chase.induct)
  case (1 m k seen a)
  show ?case
  proof (cases "map_of m a")
    case None
    with "1.prems" have "a = b" by (subst (asm) chase.simps) simp
    with None show ?thesis by (intro exI [of _ 0]) simp
  next
    case (Some c)
    with "1.prems" obtain j where "k = Suc j" "a \<notin> set seen" "chase m j (seen @ [a]) c = Some b"
      by (subst (asm) chase.simps) (auto split: if_splits nat.splits)
    with "1.IH" Some obtain n where "n \<le> j" "hops_to m n c b" "map_of m b = None" by blast
    with Some \<open>k = Suc j\<close> show ?thesis by (intro exI [of _ "Suc n"]) auto
  qed
qed

lemma hops_chase:
  "hops_to m n a b \<Longrightarrow> map_of m b = None \<Longrightarrow> n \<le> k \<Longrightarrow>
   (\<And>j x. hops_to m j a x \<Longrightarrow> j < n \<Longrightarrow> x \<notin> set seen) \<Longrightarrow>
   (\<And>i j x y. hops_to m i a x \<Longrightarrow> hops_to m j a y \<Longrightarrow> i < j \<Longrightarrow> j < n \<Longrightarrow> x \<noteq> y) \<Longrightarrow>
   chase m k seen a = Some b"
proof (induction n arbitrary: a k seen)
  case 0
  then show ?case by (subst chase.simps) simp
next
  case (Suc n)
  then obtain c j where c: "map_of m a = Some c" "hops_to m n c b" "k = Suc j" "n \<le> j"
    by (cases k) auto
  have fresh: "a \<notin> set seen" using Suc.prems(4) [of 0 a] by simp
  have "chase m j (seen @ [a]) c = Some b"
  proof (rule Suc.IH [OF c(2) Suc.prems(2) c(4)])
    fix i x assume h: "hops_to m i c x" "i < n"
    have "x \<notin> set seen" using Suc.prems(4) [of "Suc i" x] c(1) h by simp
    moreover have "x \<noteq> a" using Suc.prems(5) [of 0 a "Suc i" x] c(1) h by fastforce
    ultimately show "x \<notin> set (seen @ [a])" by simp
  next
    fix i l x y assume "hops_to m i c x" "hops_to m l c y" "i < l" "l < n"
    then show "x \<noteq> y" using Suc.prems(5) [of "Suc i" x "Suc l" y] c(1) by simp
  qed
  with c(1,3) fresh show ?case by (subst chase.simps) simp
qed

text \<open>A chain that ends never revisits a name, so the cycle guard never cuts one short.\<close>

lemma hops_add: "hops_to m i a x \<Longrightarrow> hops_to m j x b \<Longrightarrow> hops_to m (i + j) a b"
  by (induction i arbitrary: a) auto

lemma hops_det: "hops_to m i a x \<Longrightarrow> hops_to m i a y \<Longrightarrow> x = y"
  by (induction i arbitrary: a) auto

lemma hops_split: "hops_to m (i + j) a b \<Longrightarrow> \<exists>x. hops_to m i a x \<and> hops_to m j x b"
  by (induction i arbitrary: a) auto

lemma hops_end: "hops_to m n b x \<Longrightarrow> map_of m b = None \<Longrightarrow> n = 0"
  by (cases n) auto

lemma hops_length: "hops_to m n a b \<Longrightarrow> hops_to m k a b \<Longrightarrow> map_of m b = None \<Longrightarrow> n = k"
proof (induction n arbitrary: a k)
  case 0
  then show ?case using hops_end by auto
next
  case (Suc n)
  then show ?case by (cases k) auto
qed

lemma hops_acyclic:
  assumes "hops_to m n a b" "map_of m b = None" "hops_to m i a x" "hops_to m j a x" "i < j" "j < n"
  shows False
proof -
  obtain y where y: "hops_to m j a y" "hops_to m (n - j) y b"
    using hops_split [of m j "n - j" a b] assms(1,6) by auto
  then have "hops_to m (n - j) x b" using hops_det assms(4) by blast
  then have "hops_to m (i + (n - j)) a b" using hops_add assms(3) by blast
  from hops_length [OF assms(1) this assms(2)] assms(5,6) show False by linarith
qed

lemma resolve_via_r53_iff:
  "resolve_via_r53 m a = Some b \<longleftrightarrow> (\<exists>n. 1 \<le> n \<and> n \<le> 4 \<and> hops_to m n a b) \<and> map_of m b = None"
proof
  assume "resolve_via_r53 m a = Some b"
  then have c: "chase m 4 [] a = Some b" "b \<noteq> a"
    by (auto simp: resolve_via_r53_def split: option.splits if_splits)
  from chase_hops [OF c(1)] obtain n where "n \<le> 4" "hops_to m n a b" "map_of m b = None" by blast
  with c(2) show "(\<exists>n. 1 \<le> n \<and> n \<le> 4 \<and> hops_to m n a b) \<and> map_of m b = None"
    by (cases n) auto
next
  assume r: "(\<exists>n. 1 \<le> n \<and> n \<le> 4 \<and> hops_to m n a b) \<and> map_of m b = None"
  then obtain n where n: "1 \<le> n" "n \<le> 4" "hops_to m n a b" by blast
  have "chase m 4 [] a = Some b"
    by (rule hops_chase [OF n(3) _ n(2)]) (use r n hops_acyclic in auto)
  moreover have "b \<noteq> a" using n r by (cases n) auto
  ultimately show "resolve_via_r53 m a = Some b" by (simp add: resolve_via_r53_def)
qed

text \<open>
  A custom origin resolves to \<open>b\<close> exactly when the public alias records lead from it to \<open>b\<close> in
  one to four hops and \<open>b\<close> is itself no alias: cycles and longer chains resolve to nothing, and
  the cycle guard cuts no chain that ends.
\<close>

theorem alias_chain_resolution:
  "resolve_via_r53 m a = Some b \<longleftrightarrow> (\<exists>n. 1 \<le> n \<and> n \<le> 4 \<and> hops_to m n a b) \<and> map_of m b = None"
  by (rule resolve_via_r53_iff)

end
