(* ===== verification/Infra_Topology.thy ===== *)
theory Infra_Topology
  imports Flow_Resolve
begin

text \<open>
  The placement graph of the inventory (\<^verbatim>\<open>web/lib/infra-topology.ts\<close>): resources and the VPCs,
  subnets and security groups they are placed in. Rows are the objects of the inventory.
\<close>

section \<open>Rows\<close>

record infra_node =
  in_id :: string
  in_kind :: string
  in_label :: string
  in_meta :: "js_object option"

record infra_edge =
  ie_id :: string
  ie_source :: string
  ie_target :: string
  ie_rel :: string

record infra_graph =
  ig_nodes :: "infra_node list"
  ig_edges :: "infra_edge list"

record infra_input =
  ii_resources :: "row list"
  ii_vpcs :: "row list"
  ii_subnets :: "row list"
  ii_groups :: "row list"

definition non_empty_text :: "string list \<Rightarrow> string list" where
  "non_empty_text = filter (\<lambda>s. s \<noteq> [])"

definition id_of :: "js \<Rightarrow> string" where
  "id_of x = (case x of
      JStr s \<Rightarrow> s
    | _ \<Rightarrow> str (coalesce (attr x ''GroupId'') (coalesce (attr x ''group_id'') (coalesce (attr x ''VpcSecurityGroupId'')
        (coalesce (attr x ''SubnetId'') (coalesce (attr x ''subnet_id'') (attr x ''Id'')))))))"

definition ids_from :: "js \<Rightarrow> string list" where
  "ids_from v = (if nullish v then [] else non_empty_text (map id_of (case v of JArr vs \<Rightarrow> vs | _ \<Rightarrow> [v])))"

definition data_of :: "row \<Rightarrow> js" where
  "data_of r = field r ''data''"

definition name_of_row :: "row \<Rightarrow> string" where
  "name_of_row r = (let d = data_of r in
     str (coalesce (attr (attr d ''tags'') ''Name'') (coalesce (attr d ''group_name'')
       (coalesce (attr d ''title'') (coalesce (attr d ''name'') (field r ''resource_id''))))))"

section \<open>The graph\<close>

definition add_infra_node :: "string \<Rightarrow> string \<Rightarrow> string \<Rightarrow> js_object option \<Rightarrow> infra_graph \<Rightarrow> infra_graph" where
  "add_infra_node i kind label meta g =
     (if i \<in> in_id ` set (ig_nodes g) then g
      else g\<lparr>ig_nodes := ig_nodes g @ [\<lparr>in_id = i, in_kind = kind, in_label = label, in_meta = meta\<rparr>]\<rparr>)"

definition infra_edge_id :: "string \<Rightarrow> string \<Rightarrow> string \<Rightarrow> string" where
  "infra_edge_id source target rel = rel @ '':'' @ source @ ''->'' @ target"

definition add_infra_edge :: "string \<Rightarrow> string \<Rightarrow> string \<Rightarrow> infra_graph \<Rightarrow> infra_graph" where
  "add_infra_edge source target rel g =
     (let i = infra_edge_id source target rel in
      if i \<in> ie_id ` set (ig_edges g) then g
      else g\<lparr>ig_edges := ig_edges g @ [\<lparr>ie_id = i, ie_source = source, ie_target = target, ie_rel = rel\<rparr>]\<rparr>)"

definition vpc_node :: "infra_graph \<Rightarrow> row \<Rightarrow> infra_graph" where
  "vpc_node g v = add_infra_node (''vpc:'' @ str (field v ''resource_id'')) ''vpc'' (name_of_row v) None g"

definition subnet_node :: "infra_graph \<Rightarrow> row \<Rightarrow> infra_graph" where
  "subnet_node g s = (let vpc = str (attr (data_of s) ''vpc_id'') in
     add_infra_node (''subnet:'' @ str (field s ''resource_id'')) ''subnet'' (name_of_row s)
       (Some [(''vpc'', if vpc = [] then JUndef else JStr vpc)]) g)"

definition group_node :: "infra_graph \<Rightarrow> row \<Rightarrow> infra_graph" where
  "group_node g s = add_infra_node (''sg:'' @ str (field s ''resource_id'')) ''sg'' (name_of_row s)
     (Some [(''default'', JBool (str (attr (data_of s) ''group_name'') = ''default''))]) g"

text \<open>Where a resource is placed: kind of the target, its id, and the relation, in the code's order.\<close>

definition subnet_ids_of :: "row \<Rightarrow> string list" where
  "subnet_ids_of r = js_set (concat (map (\<lambda>k. ids_from (attr (data_of r) k))
     [''subnet_id'', ''subnet_ids'', ''vpc_subnet_ids'', ''subnets'', ''availability_zones'']))"

definition group_ids_of :: "row \<Rightarrow> string list" where
  "group_ids_of r = js_set (concat (map (\<lambda>k. ids_from (attr (data_of r) k))
     [''security_groups'', ''security_group_ids'', ''vpc_security_group_ids'', ''vpc_security_groups'']))"

definition placements :: "row \<Rightarrow> (string \<times> string \<times> string) list" where
  "placements r = (let vpc = str (attr (data_of r) ''vpc_id'') in
     (if vpc = [] then [] else [(''vpc'', vpc, ''infra:in_vpc'')]) @
     map (\<lambda>s. (''subnet'', s, ''infra:in_subnet'')) (subnet_ids_of r) @
     map (\<lambda>g. (''sg'', g, ''infra:uses_sg'')) (group_ids_of r))"

definition resource_node_id :: "row \<Rightarrow> string" where
  "resource_node_id r = str (field r ''resource_type'') @ '':'' @ str (field r ''resource_id'')"

definition place :: "string \<Rightarrow> infra_graph \<Rightarrow> string \<times> string \<times> string \<Rightarrow> infra_graph" where
  "place rid g p = (case p of (kind, i, rel) \<Rightarrow>
     add_infra_edge rid (kind @ '':'' @ i) rel (add_infra_node (kind @ '':'' @ i) kind i None g))"

definition resource_step :: "infra_graph \<Rightarrow> row \<Rightarrow> infra_graph" where
  "resource_step g r =
     (if placements r = [] then g
      else (let host = str (attr (data_of r) ''endpoint_address'') in
        foldl (place (resource_node_id r))
          (add_infra_node (resource_node_id r) (str (field r ''resource_type'')) (name_of_row r)
            (Some ([(''invType'', JStr (str (field r ''resource_type''))), (''resourceId'', JStr (str (field r ''resource_id'')))] @
              (if host = [] then [] else [(''host'', JStr host)]))) g)
          (placements r)))"

definition build_infra_graph :: "infra_input \<Rightarrow> infra_graph" where
  "build_infra_graph ii =
     (let g = foldl vpc_node \<lparr>ig_nodes = [], ig_edges = []\<rparr> (ii_vpcs ii);
          g = foldl subnet_node g (ii_subnets ii);
          g = foldl group_node g (ii_groups ii)
      in foldl resource_step g (ii_resources ii))"

section \<open>Well-formedness\<close>

definition infra_wf :: "infra_graph \<Rightarrow> bool" where
  "infra_wf g \<longleftrightarrow> distinct (map in_id (ig_nodes g)) \<and> distinct (map ie_id (ig_edges g)) \<and>
     (\<forall>e\<in>set (ig_edges g). ie_id e = infra_edge_id (ie_source e) (ie_target e) (ie_rel e) \<and>
       ie_source e \<in> in_id ` set (ig_nodes g) \<and> ie_target e \<in> in_id ` set (ig_nodes g))"

lemma wf_infra_node: "infra_wf g \<Longrightarrow> infra_wf (add_infra_node i k l m g)"
  by (auto simp: infra_wf_def add_infra_node_def)

lemma wf_infra_edge:
  "infra_wf g \<Longrightarrow> s \<in> in_id ` set (ig_nodes g) \<Longrightarrow> t \<in> in_id ` set (ig_nodes g) \<Longrightarrow> infra_wf (add_infra_edge s t rel g)"
  by (auto simp: infra_wf_def add_infra_edge_def Let_def)

lemma infra_node_added [simp]: "in_id ` set (ig_nodes (add_infra_node i k l m g)) = insert i (in_id ` set (ig_nodes g))"
  by (auto simp: add_infra_node_def)

lemma infra_edges_kept [simp]: "ig_edges (add_infra_node i k l m g) = ig_edges g"
  by (simp add: add_infra_node_def)

lemma infra_nodes_kept [simp]: "ig_nodes (add_infra_edge s t rel g) = ig_nodes g"
  by (simp add: add_infra_edge_def Let_def)

lemma infra_edge_added:
  "ie_id ` set (ig_edges (add_infra_edge s t rel g)) = insert (infra_edge_id s t rel) (ie_id ` set (ig_edges g))"
  by (auto simp: add_infra_edge_def Let_def)

lemma wf_nodes: "infra_wf g \<Longrightarrow> infra_wf (foldl vpc_node g rows)" "infra_wf g \<Longrightarrow> infra_wf (foldl subnet_node g rows)"
    "infra_wf g \<Longrightarrow> infra_wf (foldl group_node g rows)"
  by (induction rows arbitrary: g)
    (simp_all add: vpc_node_def subnet_node_def group_node_def Let_def wf_infra_node)

lemma edges_of_nodes: "ig_edges (foldl vpc_node g rows) = ig_edges g" "ig_edges (foldl subnet_node g rows) = ig_edges g"
    "ig_edges (foldl group_node g rows) = ig_edges g"
  by (induction rows arbitrary: g) (simp_all add: vpc_node_def subnet_node_def group_node_def Let_def)

text \<open>The ids of the edges that a resource's placements give.\<close>

definition placed :: "string \<Rightarrow> string \<times> string \<times> string \<Rightarrow> string" where
  "placed rid p = (case p of (kind, i, rel) \<Rightarrow> infra_edge_id rid (kind @ '':'' @ i) rel)"

lemma places_spec:
  "infra_wf g \<Longrightarrow> rid \<in> in_id ` set (ig_nodes g) \<Longrightarrow> infra_wf (foldl (place rid) g ps) \<and>
    ie_id ` set (ig_edges (foldl (place rid) g ps)) = ie_id ` set (ig_edges g) \<union> placed rid ` set ps"
proof (induction ps arbitrary: g)
  case (Cons p ps)
  obtain kind i rel where p: "p = (kind, i, rel)" by (cases p)
  have "infra_wf (place rid g p)" "rid \<in> in_id ` set (ig_nodes (place rid g p))"
    using Cons.prems by (auto simp: place_def p intro!: wf_infra_edge wf_infra_node)
  moreover have "ie_id ` set (ig_edges (place rid g p)) = insert (placed rid p) (ie_id ` set (ig_edges g))"
    by (simp add: place_def p placed_def infra_edge_added)
  ultimately show ?case using Cons.IH by simp
qed simp

lemma resource_step_spec:
  "infra_wf g \<Longrightarrow> infra_wf (resource_step g r) \<and>
    ie_id ` set (ig_edges (resource_step g r)) = ie_id ` set (ig_edges g) \<union> placed (resource_node_id r) ` set (placements r)"
  by (simp add: resource_step_def Let_def places_spec wf_infra_node)

lemma resources_spec:
  "infra_wf g \<Longrightarrow> infra_wf (foldl resource_step g rs) \<and> ie_id ` set (ig_edges (foldl resource_step g rs)) =
    ie_id ` set (ig_edges g) \<union> (\<Union>r\<in>set rs. placed (resource_node_id r) ` set (placements r))"
  by (induction rs arbitrary: g) (auto simp: resource_step_spec)

lemma build_infra_spec:
  "infra_wf (build_infra_graph ii)"
  "ie_id ` set (ig_edges (build_infra_graph ii)) =
    (\<Union>r\<in>set (ii_resources ii). placed (resource_node_id r) ` set (placements r))"
proof -
  let ?e = "\<lparr>ig_nodes = [], ig_edges = []\<rparr> :: infra_graph"
  let ?g = "foldl group_node (foldl subnet_node (foldl vpc_node ?e (ii_vpcs ii)) (ii_subnets ii)) (ii_groups ii)"
  have "infra_wf ?e" by (simp add: infra_wf_def)
  then have "infra_wf ?g" by (intro wf_nodes)
  then show "infra_wf (build_infra_graph ii)"
    "ie_id ` set (ig_edges (build_infra_graph ii)) =
      (\<Union>r\<in>set (ii_resources ii). placed (resource_node_id r) ` set (placements r))"
    using resources_spec [of ?g "ii_resources ii"] by (simp_all add: build_infra_graph_def Let_def edges_of_nodes)
qed

text \<open>
  The placement graph is exact: its nodes and edges have distinct ids, every edge joins two of
  its nodes, and there is an edge for each VPC, subnet and security group that a resource's row
  names, and no other.
\<close>

theorem infra_graph_is_exact:
  "infra_wf (build_infra_graph ii) \<and>
   ie_id ` set (ig_edges (build_infra_graph ii)) = {infra_edge_id (resource_node_id r) (kind @ '':'' @ i) rel |r kind i rel.
     r \<in> set (ii_resources ii) \<and> (kind, i, rel) \<in> set (placements r)}"
  using build_infra_spec [of ii] by (force simp: placed_def)

end
