(* ===== verification/Graph_Inventory.thy ===== *)
theory Graph_Inventory
  imports Graph_Store Infra_Topology
begin

text \<open>
  What an inventory graph is built from (\<^verbatim>\<open>web/lib/graph-inventory.ts\<close>): the bounded snapshot of an
  account's rows and the ledger of its collection, and the attempt that says whether the snapshot
  proves enough to replace the stored graph. The size of a JSON value, the database's collation and
  the clock are arguments.
\<close>

section \<open>The tables read\<close>

record inv_row =
  iv_account :: string
  iv_type :: string
  iv_region :: string
  iv_id :: string
  iv_captured :: "int option"
  iv_data :: js

record sync_run =
  sy_account :: string
  sy_type :: string
  sy_status :: string
  sy_started :: "int option"
  sy_finished :: "int option"
  sy_success :: "int option"
  sy_rows :: "int option"
  sy_unknown :: "int option"

record count_point =
  cp_account :: string
  cp_type :: string
  cp_count :: int
  cp_captured :: "int option"

text \<open>\<open>db_collected\<close>: the account is enabled, with all regions or an enabled one.\<close>

record inventory_db =
  db_rows :: "inv_row list"
  db_runs :: "sync_run list"
  db_points :: "count_point list"
  db_collected :: "string \<Rightarrow> bool"

record snapshot =
  sp_rows :: "inv_row list"
  sp_runs :: "sync_run list"
  sp_counts :: "(string \<times> int) list"
  sp_points :: "count_point list"
  sp_truncated :: bool

definition HOST_ONLY_TREND_TYPES :: "string list" where
  "HOST_ONLY_TREND_TYPES = [''s3'', ''s3_public_access'', ''opensearch_serverless'', ''cloudfront_vpc_origin'',
     ''alb_listener_rule'', ''public_s3_buckets'']"

definition inventory_types_for_account :: "string list \<Rightarrow> string \<Rightarrow> string list" where
  "inventory_types_for_account types account =
     (if account = ''self'' then types else filter (\<lambda>t. t \<notin> set HOST_ONLY_TREND_TYPES) types)"

definition INFRA_TYPES :: "string list" where
  "INFRA_TYPES = [''vpc'', ''subnet'', ''security_group'', ''ec2'', ''lambda'', ''rds'',
     ''alb'', ''nlb'', ''target_group'', ''elasticache'', ''route_table'', ''nat_gateway'', ''neptune_cluster'']"

definition INFRA_FIELDS :: "string list" where
  "INFRA_FIELDS = [''vpc_id'', ''subnet_id'', ''subnet_ids'', ''vpc_subnet_ids'', ''subnets'',
     ''availability_zones'', ''security_groups'', ''security_group_ids'', ''vpc_security_group_ids'',
     ''vpc_security_groups'', ''endpoint_address'', ''group_name'', ''title'', ''name'', ''tags'']"

definition FLOW_FIELDS :: "string list" where
  "FLOW_FIELDS = [''name'', ''arn'', ''dns_name'', ''domain_name'', ''aliases'', ''origins'', ''web_acl_id'',
     ''target_group_name'', ''target_type'', ''target_health_descriptions'', ''load_balancer_arns'',
     ''vpc_id'', ''scheme'', ''private_zone'', ''alias_target'', ''records'', ''type'', ''last_status'',
     ''task_group'', ''cluster_arn'', ''attachments'', ''origin_refs'', ''api_id'', ''integration_uri'',
     ''connection_type'', ''tags'', ''status'', ''enabled'', ''protocol'', ''port'', ''subnet_ids'', ''security_groups'']"

definition fields_of :: "graph_class \<Rightarrow> string list" where
  "fields_of cls = (if cls = Infra_Class then INFRA_FIELDS else FLOW_FIELDS)"

definition ROW_CAP :: nat where "ROW_CAP = 2000"
definition ROW_BYTES :: nat where "ROW_BYTES = 64 * 1024"
definition SNAPSHOT_BYTES :: nat where "SNAPSHOT_BYTES = 8 * 1024 * 1024"

section \<open>The snapshot\<close>

definition project :: "string list \<Rightarrow> inv_row \<Rightarrow> inv_row" where
  "project fields_kept r = r\<lparr>iv_data := JObj (case iv_data r of
     JObj fs \<Rightarrow> filter (\<lambda>(k, _). k \<in> set fields_kept) fs | _ \<Rightarrow> [])\<rparr>"

text \<open>\<open>ORDER BY resource_type, region, resource_id\<close>.\<close>

definition row_le :: "(string \<Rightarrow> string \<Rightarrow> bool) \<Rightarrow> inv_row \<Rightarrow> inv_row \<Rightarrow> bool" where
  "row_le le a b \<longleftrightarrow>
     (if iv_type a \<noteq> iv_type b then le (iv_type a) (iv_type b)
      else if iv_region a \<noteq> iv_region b then le (iv_region a) (iv_region b) else le (iv_id a) (iv_id b))"

definition row_bytes :: "(js \<Rightarrow> nat) \<Rightarrow> inv_row \<Rightarrow> nat" where
  "row_bytes size_of r = size_of (iv_data r) + length (iv_id r) + length (iv_region r)"

text \<open>Rows past the budgets come back blank and marked; the sum runs over all rows before.\<close>

fun budgeted :: "(js \<Rightarrow> nat) \<Rightarrow> nat \<Rightarrow> inv_row list \<Rightarrow> (inv_row \<times> bool) list" where
  "budgeted size_of used [] = []"
| "budgeted size_of used (r # rs) =
     (let used' = used + row_bytes size_of r;
          over = (ROW_BYTES < row_bytes size_of r \<or> SNAPSHOT_BYTES < used')
      in (if over then r\<lparr>iv_id := [], iv_region := [], iv_data := JNull\<rparr> else r, over) # budgeted size_of used' rs)"

definition rows_of_account :: "string list \<Rightarrow> string \<Rightarrow> string list \<Rightarrow> inventory_db \<Rightarrow> inv_row list" where
  "rows_of_account fields_kept account types db =
     map (project fields_kept) (filter (\<lambda>r. iv_account r = account \<and> iv_type r \<in> set types) (db_rows db))"

text \<open>\<open>DISTINCT ON (resource_type) ... ORDER BY resource_type, captured_at DESC\<close>, for one type.\<close>

definition latest_point :: "string \<Rightarrow> string \<Rightarrow> inventory_db \<Rightarrow> count_point list" where
  "latest_point account ty db = take 1 (sort_le (\<lambda>p q. case (cp_captured p, cp_captured q) of
       (None, _) \<Rightarrow> True | (Some _, None) \<Rightarrow> False | (Some a, Some b) \<Rightarrow> b \<le> a)
     (filter (\<lambda>p. cp_account p = account \<and> cp_type p = ty) (db_points db)))"

definition inventory_snapshot ::
  "(string \<Rightarrow> string \<Rightarrow> bool) \<Rightarrow> (js \<Rightarrow> nat) \<Rightarrow> graph_class \<Rightarrow> string \<Rightarrow> string list \<Rightarrow> inventory_db \<Rightarrow> snapshot" where
  "inventory_snapshot le size_of cls account types db =
     (let runs = filter (\<lambda>y. sy_account y \<in> {''self'', account} \<and> sy_type y \<in> set types) (db_runs db);
          points = (if account = ''self'' \<or> \<not> db_collected db account then []
                    else concat (map (\<lambda>ty. latest_point account ty db) (remdups types)));
          bounded = take (ROW_CAP + 1) (sort_le (row_le le)
            (rows_of_account (fields_of cls) account types db));
          sized = budgeted size_of 0 bounded;
          count_types = map sy_type (filter (\<lambda>y. sy_account y = ''self'' \<and> sy_status y = ''succeeded'') runs)
      in \<lparr>sp_rows = map fst sized, sp_runs = runs,
          sp_counts = map (\<lambda>ty. (ty, int (length (filter (\<lambda>r. iv_type r = ty) (db_rows db))))) count_types,
          sp_points = points, sp_truncated = (ROW_CAP < length sized \<or> list_ex snd sized)\<rparr>)"

section \<open>The attempt\<close>

definition stamp :: "int option \<Rightarrow> int option" where
  "stamp t = (case t of None \<Rightarrow> None | Some ms \<Rightarrow> if 0 < ms then Some ms else None)"

text \<open>A count is a safe integer and not negative.\<close>

definition good_count :: "int option \<Rightarrow> bool" where
  "good_count n \<longleftrightarrow> (case n of None \<Rightarrow> False | Some k \<Rightarrow> safe_integer k \<and> 0 \<le> k)"

definition participated :: "int \<Rightarrow> string \<Rightarrow> sync_run option \<Rightarrow> count_point option \<Rightarrow> bool" where
  "participated now account run point \<longleftrightarrow> account = ''self'' \<or>
     (case (run, point) of
        (Some y, Some p) \<Rightarrow> sy_status y = ''succeeded'' \<and>
          (case (stamp (cp_captured p), stamp (sy_started y), stamp (sy_finished y)) of
             (Some pa, Some st, Some fi) \<Rightarrow> st \<le> pa \<and> pa \<le> fi \<and> fi \<le> now \<and> Some fi = stamp (sy_success y)
           | _ \<Rightarrow> False) \<and> good_count (Some (cp_count p))
      | _ \<Rightarrow> False)"

record source_facts =
  sf_run :: "sync_run option"
  sf_point :: "count_point option"
  sf_items :: "inv_row list"
  sf_participated :: bool
  sf_producer :: string
  sf_captured :: "int option"
  sf_success :: "int option"
  sf_counted :: bool
  sf_unknown :: bool

definition producer_of :: "sync_run option \<Rightarrow> string" where
  "producer_of run = (case run of
      Some y \<Rightarrow> if sy_status y \<in> set [''succeeded'', ''failed'', ''partial'', ''running''] then sy_status y else ''unknown''
    | None \<Rightarrow> ''unknown'')"

text \<open>\<open>Math.min\<close> of the capture times, when every row has one.\<close>

fun least_capture :: "int option list \<Rightarrow> int option" where
  "least_capture [] = None"
| "least_capture [t] = t"
| "least_capture (t # ts) = (case (t, least_capture ts) of (Some a, Some b) \<Rightarrow> Some (min a b) | _ \<Rightarrow> None)"

definition source_facts_of :: "int \<Rightarrow> string \<Rightarrow> snapshot \<Rightarrow> string \<Rightarrow> source_facts" where
  "source_facts_of now account sp ty =
     (let items = filter (\<lambda>r. iv_type r = ty) (sp_rows sp);
          run = List.find (\<lambda>y. sy_type y = ty \<and> sy_account y = ''self'') (sp_runs sp);
          point = List.find (\<lambda>p. cp_type p = ty) (sp_points sp);
          part = participated now account run point;
          row_count = (case run of None \<Rightarrow> None | Some y \<Rightarrow> sy_rows y)
      in \<lparr>sf_run = run, sf_point = point, sf_items = items, sf_participated = part,
          sf_producer = producer_of run, sf_captured = least_capture (map (\<lambda>r. stamp (iv_captured r)) items),
          sf_success = (case run of None \<Rightarrow> None | Some y \<Rightarrow> stamp (sy_success y)),
          sf_counted = (good_count row_count \<and> map_of (rev (sp_counts sp)) ty = row_count \<and>
            (account = ''self'' \<or> part \<and> map_option cp_count point = Some (int (length items)))),
          sf_unknown = (case run of None \<Rightarrow> True | Some y \<Rightarrow>
            (case sy_unknown y of None \<Rightarrow> True | Some n \<Rightarrow> \<not> safe_integer n \<or> n \<noteq> 0))\<rparr>)"

definition blockers :: "source_facts \<Rightarrow> string list" where
  "blockers f =
     (if sf_run f = None then [''missing_ledger'']
      else if sf_producer f = ''failed'' then [''source_failed'']
      else if \<not> sf_participated f then [''unknown_account_coverage'']
      else if sf_producer f \<noteq> ''succeeded'' then [''incomplete_collection'']
      else if sf_items f \<noteq> [] \<and> \<not> sf_counted f then [''count_not_confirmed'']
      else if sf_items f = [] \<and> (\<not> sf_counted f \<or> sf_unknown f) then [''empty_not_confirmed'']
      else if sf_success f = None \<or> sf_items f \<noteq> [] \<and> sf_captured f = None then [''unknown_capture'']
      else [])"

definition source_reasons :: "source_facts \<Rightarrow> string list" where
  "source_reasons f = blockers f @ (if sf_run f \<noteq> None \<and> sf_unknown f then [''unknown_attributes''] else [])"

definition source_collection :: "source_facts \<Rightarrow> collection_status" where
  "source_collection f =
     (if sf_producer f = ''failed'' then Status_Error
      else if sf_producer f = ''unknown'' \<or> sf_success f = None \<or> \<not> sf_participated f then Status_Unavailable
      else if source_reasons f \<noteq> [] then Status_Partial
      else if sf_items f \<noteq> [] then Status_Ok else Status_Empty)"

definition source_record :: "string \<Rightarrow> string \<Rightarrow> source_facts \<Rightarrow> js" where
  "source_record account ty f = JObj
     [(''sourceId'', JStr (''inventory:'' @ ty)),
      (''scope'', JStr (if account \<noteq> ''self'' \<and> sf_participated f then ''account'' else ''aggregate'')),
      (''status'', JStr (collection_text (source_collection f))), (''producerStatus'', JStr (sf_producer f)),
      (''reasons'', JArr (map JStr (source_reasons f))), (''itemCount'', JNum (int (length (sf_items f)))),
      (''capturedAtMs'', instant (sf_captured f)), (''lastSuccessAtMs'', instant (sf_success f)),
      (''attemptedAtMs'', instant (case sf_run f of None \<Rightarrow> None | Some y \<Rightarrow> stamp (sy_started y))),
      (''finishedAtMs'', instant (case sf_run f of None \<Rightarrow> None | Some y \<Rightarrow> stamp (sy_finished y)))]"

definition inventory_attempt :: "int \<Rightarrow> snapshot \<Rightarrow> string list \<Rightarrow> string \<Rightarrow> int \<Rightarrow> graph_attempt" where
  "inventory_attempt now sp types account attempted =
     (let required = js_set types;
          facts = map (source_facts_of now account sp) required;
          safe = (required \<noteq> [] \<and> \<not> sp_truncated sp \<and> list_all (\<lambda>f. blockers f = []) facts);
          statuses = map source_collection facts
      in \<lparr>ga_status = (if Status_Error \<in> set statuses then Status_Error
            else if facts = [] \<or> Status_Unavailable \<in> set statuses then Status_Unavailable
            else if sp_truncated sp \<or> Status_Partial \<in> set statuses then Status_Partial
            else if sp_rows sp \<noteq> [] then Status_Ok else Status_Empty),
          ga_attempted = attempted, ga_publish = safe,
          ga_details = [(''sources'', JArr (map2 (source_record account) required facts)),
            (''retainedPrevious'', JBool (\<not> safe))] @
            (if sp_truncated sp then [(''inputTruncated'', JBool True)] else [])\<rparr>)"

section \<open>What a publication proves\<close>

lemma length_budgeted [simp]: "length (budgeted size_of used rs) = length rs"
  by (induction rs arbitrary: used) (simp_all add: Let_def)

lemma budgeted_whole: "\<not> list_ex snd (budgeted size_of used rs) \<Longrightarrow> map fst (budgeted size_of used rs) = rs"
  by (induction rs arbitrary: used) (auto simp: Let_def split: if_splits)

lemma whole_snapshot:
  assumes "\<not> sp_truncated (inventory_snapshot le size_of cls account types db)"
  shows "sp_rows (inventory_snapshot le size_of cls account types db) =
    sort_le (row_le le) (rows_of_account (fields_of cls) account types db)"
proof -
  let ?all = "sort_le (row_le le) (rows_of_account (fields_of cls) account types db)"
  let ?sized = "budgeted size_of 0 (take (ROW_CAP + 1) ?all)"
  have cut: "\<not> (ROW_CAP < length ?sized \<or> list_ex snd ?sized)"
    using assms unfolding inventory_snapshot_def Let_def by (simp only: snapshot.select_convs not_False_eq_True)
  then have "length ?all \<le> ROW_CAP" by (auto simp: min_def split: if_splits)
  then have "take (ROW_CAP + 1) ?all = ?all" by simp
  moreover have "map fst ?sized = take (ROW_CAP + 1) ?all" using cut by (intro budgeted_whole) blast
  ultimately have "take (ROW_CAP + 1) ?all = ?all" "map fst ?sized = take (ROW_CAP + 1) ?all" by simp_all
  then show ?thesis by (simp add: inventory_snapshot_def Let_def)
qed

lemma project_fields [simp]:
  "iv_type (project ks r) = iv_type r" "iv_account (project ks r) = iv_account r" "iv_id (project ks r) = iv_id r"
  by (simp_all add: project_def)

lemma count_sorted: "length (filter P (sort_le le rows)) = length (filter P rows)"
  by (metis mset_filter mset_sort_le size_mset)

lemma count_rows_of_account:
  "ty \<in> set types \<Longrightarrow> length (filter (\<lambda>r. iv_type r = ty) (rows_of_account ks account types db)) =
    length (filter (\<lambda>r. iv_account r = account \<and> iv_type r = ty) (db_rows db))"
proof -
  assume "ty \<in> set types"
  then have "filter (\<lambda>r. iv_type r = ty) (filter (\<lambda>r. iv_account r = account \<and> iv_type r \<in> set types) (db_rows db)) =
      filter (\<lambda>r. iv_account r = account \<and> iv_type r = ty) (db_rows db)"
    unfolding filter_filter by (intro filter_cong) auto
  then show ?thesis by (simp add: rows_of_account_def filter_map comp_def)
qed

lemma counts_of_type:
  "map_of (rev (map (\<lambda>ty. (ty, f ty)) tys)) ty = Some n \<Longrightarrow> n = f ty"
  by (auto dest!: map_of_SomeD)

lemma latest_point_in: "p \<in> set (latest_point account ty db) \<Longrightarrow> p \<in> set (db_points db) \<and> cp_account p = account \<and> cp_type p = ty"
  unfolding latest_point_def by (drule in_set_takeD) simp

text \<open>How many rows the database holds, in all and for one account.\<close>

definition rows_in_all :: "string \<Rightarrow> inventory_db \<Rightarrow> int" where
  "rows_in_all ty db = int (length (filter (\<lambda>r. iv_type r = ty) (db_rows db)))"

definition rows_in_account :: "string \<Rightarrow> string \<Rightarrow> inventory_db \<Rightarrow> int" where
  "rows_in_account account ty db = int (length (filter (\<lambda>r. iv_account r = account \<and> iv_type r = ty) (db_rows db)))"

text \<open>The ledger accounts for every row of a type.\<close>

definition proven :: "string \<Rightarrow> string \<Rightarrow> inventory_db \<Rightarrow> bool" where
  "proven account ty db \<longleftrightarrow>
     (\<exists>y\<in>set (db_runs db). sy_account y = ''self'' \<and> sy_type y = ty \<and> sy_status y = ''succeeded'' \<and>
        stamp (sy_success y) \<noteq> None \<and> sy_rows y = Some (rows_in_all ty db)) \<and>
     (account \<noteq> ''self'' \<longrightarrow> (\<exists>p\<in>set (db_points db). cp_account p = account \<and> cp_type p = ty \<and>
        cp_count p = rows_in_account account ty db))"

lemma no_blockers:
  assumes "blockers f = []"
  shows "sf_run f \<noteq> None \<and> sf_participated f \<and> sf_producer f = ''succeeded'' \<and> sf_counted f \<and> sf_success f \<noteq> None"
  using assms by (auto simp: blockers_def split: if_splits)

lemma facts_proven:
  fixes le size_of cls account types db
  defines "sp \<equiv> inventory_snapshot le size_of cls account types db"
  assumes whole: "\<not> sp_truncated sp" and ty: "ty \<in> set types" and clear: "blockers (source_facts_of now account sp ty) = []"
  shows "proven account ty db"
proof -
  let ?f = "source_facts_of now account sp ty"
  note c = no_blockers [OF clear]
  obtain y where y: "List.find (\<lambda>y. sy_type y = ty \<and> sy_account y = ''self'') (sp_runs sp) = Some y"
    using c by (auto simp: source_facts_of_def Let_def)
  then have here: "y \<in> set (sp_runs sp)" "sy_type y = ty" "sy_account y = ''self''" by (auto simp: find_Some_iff)
  have run: "y \<in> set (db_runs db)" using here(1) by (auto simp: sp_def inventory_snapshot_def Let_def)
  have ok: "sy_status y = ''succeeded''" "stamp (sy_success y) \<noteq> None"
    using c y by (auto simp: source_facts_of_def Let_def producer_of_def split: if_splits)
  have counted: "good_count (sy_rows y)" "map_of (rev (sp_counts sp)) ty = sy_rows y"
    "account \<noteq> ''self'' \<Longrightarrow> map_option cp_count (List.find (\<lambda>p. cp_type p = ty) (sp_points sp)) =
      Some (int (length (filter (\<lambda>r. iv_type r = ty) (sp_rows sp))))"
    using c y by (auto simp: source_facts_of_def Let_def)
  obtain n where n: "sy_rows y = Some n" using counted(1) by (auto simp: good_count_def split: option.splits)
  have "n = rows_in_all ty db"
    using counted(2) n counts_of_type [of "\<lambda>ty. rows_in_all ty db" _ ty n]
    by (simp add: sp_def inventory_snapshot_def Let_def rows_in_all_def del: map_map)
  moreover have "\<exists>p\<in>set (db_points db). cp_account p = account \<and> cp_type p = ty \<and> cp_count p = rows_in_account account ty db"
    if member: "account \<noteq> ''self''"
  proof -
    obtain p where p: "List.find (\<lambda>p. cp_type p = ty) (sp_points sp) = Some p"
        "cp_count p = int (length (filter (\<lambda>r. iv_type r = ty) (sp_rows sp)))"
      using counted(3) [OF member] by auto
    have "p \<in> set (sp_points sp)" "cp_type p = ty" using p(1) by (auto simp: find_Some_iff)
    then have "p \<in> set (db_points db) \<and> cp_account p = account"
      using latest_point_in by (fastforce simp: sp_def inventory_snapshot_def Let_def split: if_splits)
    moreover have "cp_count p = rows_in_account account ty db"
      using p(2) whole_snapshot [OF whole [unfolded sp_def]] ty
      by (simp add: sp_def count_sorted count_rows_of_account rows_in_account_def)
    ultimately show ?thesis using \<open>cp_type p = ty\<close> by blast
  qed
  ultimately show ?thesis using here(2,3) run ok n unfolding proven_def by blast
qed

lemma publication_proven:
  assumes "ga_publish (inventory_attempt now (inventory_snapshot le size_of cls account types db) types account attempted)"
  shows "types \<noteq> [] \<and> list_all (\<lambda>ty. proven account ty db) types \<and>
    mset (sp_rows (inventory_snapshot le size_of cls account types db)) = mset (rows_of_account (fields_of cls) account types db)"
proof -
  have safe: "js_set types \<noteq> []" "\<not> sp_truncated (inventory_snapshot le size_of cls account types db)"
    "\<forall>ty\<in>set types. blockers (source_facts_of now account (inventory_snapshot le size_of cls account types db) ty) = []"
    using assms by (auto simp: inventory_attempt_def Let_def list_all_iff)
  then have "proven account ty db" if "ty \<in> set types" for ty using that facts_proven by blast
  moreover have "types \<noteq> []" using safe(1) by auto
  ultimately show ?thesis using whole_snapshot [OF safe(2)] by (simp add: list_all_iff mset_sort_le)
qed

text \<open>
  Nothing is swept away on a doubtful reading. An attempt asks for publication only when every
  type of the class is accounted for: its collection succeeded, with as many rows as the database
  holds of that type in all, and for a member account with a count of its own that is the number of
  its rows; and then the graph is built from every row the account has, none cut off by a budget.
\<close>

theorem publication_needs_a_proven_reading:
  assumes "ga_publish (inventory_attempt now (inventory_snapshot le size_of cls account types db) types account attempted)"
  shows "types \<noteq> [] \<and> list_all (\<lambda>ty. proven account ty db) types \<and>
    mset (sp_rows (inventory_snapshot le size_of cls account types db)) = mset (rows_of_account (fields_of cls) account types db)"
  by (rule publication_proven [OF assms])

text \<open>A host account with one load balancer, collected in full.\<close>

definition one_lb_db :: inventory_db where
  "one_lb_db = \<lparr>db_rows = [\<lparr>iv_account = ''self'', iv_type = ''alb'', iv_region = ''eu'', iv_id = ''web'',
       iv_captured = Some 50, iv_data = JObj [(''name'', JStr ''web''), (''secret'', JNum 1)]\<rparr>],
     db_runs = [\<lparr>sy_account = ''self'', sy_type = ''alb'', sy_status = ''succeeded'', sy_started = Some 40, sy_finished = Some 60,
       sy_success = Some 60, sy_rows = Some 1, sy_unknown = Some 0\<rparr>],
     db_points = [], db_collected = (\<lambda>_. False)\<rparr>"

lemma one_lb_published:
  "ga_publish (inventory_attempt 100 (inventory_snapshot (\<lambda>_ _. True) (\<lambda>_. 10) Flow_Class ''self'' [''alb''] one_lb_db) [''alb''] ''self'' 90)"
  by (simp add: inventory_attempt_def inventory_snapshot_def one_lb_db_def Let_def rows_of_account_def sort_le_def row_bytes_def
      ROW_BYTES_def SNAPSHOT_BYTES_def ROW_CAP_def project_def source_facts_of_def blockers_def producer_of_def participated_def
      good_count_def safe_integer_def stamp_def js_set_def)

theorem publication_needs_a_proven_reading_witness:
  "proven ''self'' ''alb'' one_lb_db \<and>
   map iv_data (sp_rows (inventory_snapshot (\<lambda>_ _. True) (\<lambda>_. 10) Flow_Class ''self'' [''alb''] one_lb_db)) = [JObj [(''name'', JStr ''web'')]]"
proof -
  note ok = publication_needs_a_proven_reading [OF one_lb_published]
  have "rows_of_account (fields_of Flow_Class) ''self'' [''alb''] one_lb_db =
      [\<lparr>iv_account = ''self'', iv_type = ''alb'', iv_region = ''eu'', iv_id = ''web'', iv_captured = Some 50,
        iv_data = JObj [(''name'', JStr ''web'')]\<rparr>]"
    by (simp add: rows_of_account_def one_lb_db_def project_def fields_of_def FLOW_FIELDS_def)
  with ok show ?thesis by simp
qed

end
