(* ===== verification/Flow_Topology.thy ===== *)
theory Flow_Topology
  imports Flow_Resolve
begin

text \<open>
  The request-flow graph (\<open>web/lib/flow-topology.ts\<close>): Route53, CloudFront, load balancers,
  target groups and their targets, built by adding nodes and edges to a growing graph, and the
  subtree below an entry point, found by a breadth-first search.
\<close>

section \<open>Graph and builder\<close>

datatype flow_kind = Route53 | Cloudfront | Alb | Nlb | Tg | Target | Waf | Origin | More | Apigw | Lambda_Fn
datatype confidence = Observed | Inferred

record flow_node =
  fn_id :: string
  fn_kind :: flow_kind
  fn_label :: string
  fn_meta :: "js_object option"

record flow_edge =
  fe_id :: string
  fe_source :: string
  fe_target :: string
  fe_confidence :: confidence
  fe_label :: "string option"

record flow_graph =
  fg_nodes :: "flow_node list"
  fg_edges :: "flow_edge list"

definition node_ids :: "flow_graph \<Rightarrow> string set" where
  "node_ids g = fn_id ` set (fg_nodes g)"

definition edge_id :: "string \<Rightarrow> string \<Rightarrow> string" where
  "edge_id source target = source @ ''->'' @ target"

definition add_node :: "string \<Rightarrow> flow_kind \<Rightarrow> string \<Rightarrow> js_object option \<Rightarrow> flow_graph \<Rightarrow> flow_graph" where
  "add_node i kind label meta g =
     (if ends_with '':'' i \<or> i \<in> fn_id ` set (fg_nodes g) then g
      else g\<lparr>fg_nodes := fg_nodes g @ [\<lparr>fn_id = i, fn_kind = kind, fn_label = label, fn_meta = meta\<rparr>]\<rparr>)"

text \<open>The first edge with the id takes the further label.\<close>

fun append_label :: "string \<Rightarrow> string \<Rightarrow> flow_edge list \<Rightarrow> flow_edge list" where
  "append_label i label [] = []"
| "append_label i label (e # es) =
     (if fe_id e = i
      then e\<lparr>fe_label := Some (case fe_label e of
          Some (c # l) \<Rightarrow> (c # l) @ '' | '' @ label
        | _ \<Rightarrow> label)\<rparr> # es
      else e # append_label i label es)"

definition has_text :: "string option \<Rightarrow> bool" where
  "has_text l \<longleftrightarrow> (case l of None \<Rightarrow> False | Some t \<Rightarrow> t \<noteq> [])"

definition add_edge :: "string \<Rightarrow> string \<Rightarrow> confidence \<Rightarrow> string option \<Rightarrow> flow_graph \<Rightarrow> flow_graph" where
  "add_edge source target conf label g =
     (let i = edge_id source target in
      if source \<notin> fn_id ` set (fg_nodes g) \<or> target \<notin> fn_id ` set (fg_nodes g) then g
      else if i \<in> fe_id ` set (fg_edges g) then
        (if has_text label then g\<lparr>fg_edges := append_label i (the label) (fg_edges g)\<rparr> else g)
      else g\<lparr>fg_edges := fg_edges g @
        [\<lparr>fe_id = i, fe_source = source, fe_target = target, fe_confidence = conf,
          fe_label = (if has_text label then label else None)\<rparr>]\<rparr>)"

section \<open>Input and indexes\<close>

record flow_input =
  in_route53 :: "row list"
  in_cloudfront :: "row list"
  in_alb :: "row list"
  in_nlb :: "row list"
  in_tg :: "row list"
  in_waf :: "row list"
  in_ec2 :: "row list"
  in_lambda :: "row list"
  in_ecs_task :: "row list"
  in_subnet :: "row list"
  in_s3 :: "row list"
  in_api :: "row list"
  in_integration :: "row list"
  in_vpc_origin :: "row list"
  in_listener_rule :: "row list"
  in_route :: "row list"
  in_ip_resolved :: "(string \<times> resolved_ip) list"

definition rid :: "row \<Rightarrow> string" where
  "rid r = str (field r ''resource_id'')"

definition lb_id :: "flow_kind \<Rightarrow> row \<Rightarrow> string" where
  "lb_id kind r = (if kind = Alb then ''alb:'' else ''nlb:'') @ or_else (str (field r ''arn'')) (rid r)"

definition row_meta :: "row \<Rightarrow> string \<Rightarrow> js_object" where
  "row_meta r kind = [(''row'', JObj r), (''invType'', JStr kind)]"

definition index_by :: "string \<Rightarrow> (row \<Rightarrow> string) \<Rightarrow> (row \<Rightarrow> 'v) \<Rightarrow> row list \<Rightarrow> (string \<times> 'v) list \<Rightarrow> (string \<times> 'v) list" where
  "index_by col key value rows m =
     foldl (\<lambda>m r. if truthy (field r col) then AList.update (key r) (value r) m else m) m rows"

definition lb_by_dns :: "flow_input \<Rightarrow> (string \<times> string) list" where
  "lb_by_dns fi =
     index_by ''dns_name'' (\<lambda>r. lower (str (field r ''dns_name''))) (lb_id Nlb) (in_nlb fi)
       (index_by ''dns_name'' (\<lambda>r. lower (str (field r ''dns_name''))) (lb_id Alb) (in_alb fi) [])"

definition lb_by_arn :: "flow_input \<Rightarrow> (string \<times> string) list" where
  "lb_by_arn fi =
     index_by ''arn'' (\<lambda>r. str (field r ''arn'')) (lb_id Nlb) (in_nlb fi)
       (index_by ''arn'' (\<lambda>r. str (field r ''arn'')) (lb_id Alb) (in_alb fi) [])"

definition waf_by_arn :: "flow_input \<Rightarrow> (string \<times> string) list" where
  "waf_by_arn fi = index_by ''arn'' (\<lambda>r. str (field r ''arn'')) (\<lambda>r. ''waf:'' @ rid r) (in_waf fi) []"

definition ec2_by_id :: "flow_input \<Rightarrow> (string \<times> string) list" where
  "ec2_by_id fi = foldl (\<lambda>m r. AList.update (rid r) (or_else (str (field r ''name'')) (rid r)) m) [] (in_ec2 fi)"

definition lambda_by_arn :: "flow_input \<Rightarrow> (string \<times> string) list" where
  "lambda_by_arn fi = index_by ''arn'' (\<lambda>r. str (field r ''arn''))
     (\<lambda>r. or_else (rid r) (str (field r ''arn''))) (in_lambda fi) []"

definition lambda_row_by_arn :: "flow_input \<Rightarrow> (string \<times> row) list" where
  "lambda_row_by_arn fi = index_by ''arn'' (\<lambda>r. str (field r ''arn'')) (\<lambda>r. r) (in_lambda fi) []"

definition s3_by_name :: "flow_input \<Rightarrow> (string \<times> row) list" where
  "s3_by_name fi = foldl (\<lambda>m r. AList.update (rid r) r m) [] (in_s3 fi)"

definition apigw_ids :: "flow_input \<Rightarrow> string list" where
  "apigw_ids fi = js_set (map rid (in_api fi))"

definition ref_key :: "js \<Rightarrow> string" where
  "ref_key ref = str (attr ref ''distribution_id'') @ ''|'' @ str (attr ref ''domain'')"

definition vpc_origin_keys :: "(string \<Rightarrow> js option) \<Rightarrow> flow_input \<Rightarrow> string list" where
  "vpc_origin_keys parse fi = js_set (concat (map (\<lambda>v. map ref_key (arr parse (field v ''origin_refs''))) (in_vpc_origin fi)))"

definition push_to :: "'k \<Rightarrow> 'v \<Rightarrow> ('k \<times> 'v list) list \<Rightarrow> ('k \<times> 'v list) list" where
  "push_to k v m = AList.update k ((case map_of m k of None \<Rightarrow> [] | Some vs \<Rightarrow> vs) @ [v]) m"

definition vo_by_dist_domain :: "(string \<Rightarrow> js option) \<Rightarrow> flow_input \<Rightarrow> (string \<times> string list) list" where
  "vo_by_dist_domain parse fi = foldl (\<lambda>m v.
     if str (field v ''status'') \<noteq> ''Deployed'' \<or> \<not> truthy (field v ''arn'') then m
     else foldl (\<lambda>m ref. push_to (ref_key ref) (str (field v ''arn'')) m) m (arr parse (field v ''origin_refs'')))
     [] (in_vpc_origin fi)"

definition append_text :: "string \<Rightarrow> string \<Rightarrow> (string \<times> string) list \<Rightarrow> (string \<times> string) list" where
  "append_text key label m = AList.update key
     (case map_of m key of Some l \<Rightarrow> l @ '' | '' @ label | None \<Rightarrow> label) m"

definition condition_values :: "js \<Rightarrow> string list" where
  "condition_values c =
     (if str (attr c ''Field'') = ''path-pattern''
        then strs (coalesce (attr (attr c ''PathPatternConfig'') ''Values'') (attr c ''Values''))
      else if str (attr c ''Field'') = ''host-header''
        then strs (coalesce (attr (attr c ''HostHeaderConfig'') ''Values'') (attr c ''Values''))
      else [])"

definition rule_label :: "(string \<Rightarrow> js option) \<Rightarrow> row \<Rightarrow> string" where
  "rule_label parse r =
     (let port = str (field r ''port'');
          vals = concat (map condition_values (arr parse (field r ''conditions'')));
          routing = (if vals \<noteq> [] then join_with '','' vals
            else if truthy (field r ''is_default'') then ''default'' else [])
      in or_else routing ''rule'' @ (if port \<noteq> [] then '' :'' @ port else []))"

definition action_targets :: "(string \<Rightarrow> js option) \<Rightarrow> js \<Rightarrow> string list" where
  "action_targets parse a =
     (if truthy (attr a ''TargetGroupArn'') then [str (attr a ''TargetGroupArn'')] else []) @
     map (\<lambda>t. str (attr t ''TargetGroupArn''))
       (filter (\<lambda>t. truthy (attr t ''TargetGroupArn'')) (arr parse (attr (attr a ''ForwardConfig'') ''TargetGroups'')))"

definition rule_label_by_lb_tg :: "(string \<Rightarrow> js option) \<Rightarrow> flow_input \<Rightarrow> (string \<times> string) list" where
  "rule_label_by_lb_tg parse fi = foldl (\<lambda>m r.
     (let lb = str (field r ''load_balancer_arn'') in
      if lb = [] then m
      else foldl (\<lambda>m tg. append_text (lb @ ''|'' @ tg) (rule_label parse r) m) m
        (js_set (concat (map (action_targets parse) (arr parse (field r ''actions'')))))))
     [] (in_listener_rule fi)"

text \<open>\<open>/^integrations\/(.+)$/\<close>.\<close>

definition integration_id :: "string \<Rightarrow> string option" where
  "integration_id target =
     (let rest = drop (length ''integrations/'') target in
      if starts_with ''integrations/'' target \<and> rest \<noteq> [] \<and> CHR 0x0A \<notin> set rest \<and> CHR 0x0D \<notin> set rest
      then Some rest else None)"

definition route_key_by_integration :: "flow_input \<Rightarrow> (string \<times> string) list" where
  "route_key_by_integration fi = foldl (\<lambda>m r.
     (case integration_id (str (field r ''target'')) of
        None \<Rightarrow> m
      | Some i \<Rightarrow>
          (let rk = str (field r ''route_key'') in
           if rk = [] then m else append_text (str (field r ''api_id'') @ '':'' @ i) rk m)))
     [] (in_route fi)"

definition cf_by_domain :: "flow_input \<Rightarrow> (string \<times> string) list" where
  "cf_by_domain fi = index_by ''domain_name'' (\<lambda>c. dns (field c ''domain_name'')) (\<lambda>c. ''cf:'' @ rid c) (in_cloudfront fi) []"

definition cf_by_alias :: "flow_input \<Rightarrow> (string \<times> string) list" where
  "cf_by_alias fi = foldl (\<lambda>m c. foldl (\<lambda>m a. AList.update (dns (JStr a)) (''cf:'' @ rid c) m) m (aliases_of c))
     [] (in_cloudfront fi)"

definition internet_facing_lb_dns :: "flow_input \<Rightarrow> string list" where
  "internet_facing_lb_dns fi = js_set (map (\<lambda>r. lower (str (field r ''dns_name'')))
     (filter (\<lambda>r. truthy (field r ''dns_name'') \<and> lower (str (field r ''scheme'')) = ''internet-facing'')
       (in_alb fi @ in_nlb fi)))"

section \<open>The steps of the construction\<close>

definition add_resource_nodes :: "flow_input \<Rightarrow> flow_graph \<Rightarrow> flow_graph" where
  "add_resource_nodes fi g =
     (let g = foldl (\<lambda>g c. (let al = aliases_of c in
            add_node (''cf:'' @ rid c) Cloudfront
              (case al of (x # xs) # _ \<Rightarrow> x # xs | _ \<Rightarrow> or_else (str (field c ''name'')) (rid c))
              (Some (row_meta c ''cloudfront'' @ (if al \<noteq> [] then [(''aliases'', JArr (map JStr al))] else []))) g))
          g (in_cloudfront fi);
          g = foldl (\<lambda>g a. add_node (lb_id Alb a) Alb (or_else (str (field a ''dns_name'')) (rid a)) (Some (row_meta a ''alb'')) g)
          g (in_alb fi);
          g = foldl (\<lambda>g n. add_node (lb_id Nlb n) Nlb (or_else (str (field n ''dns_name'')) (rid n)) (Some (row_meta n ''nlb'')) g)
          g (in_nlb fi);
          g = foldl (\<lambda>g w. add_node (''waf:'' @ rid w) Waf (rid w) (Some (row_meta w ''waf'')) g) g (in_waf fi);
          g = foldl (\<lambda>g t. add_node (''tg:'' @ rid t) Tg (or_else (str (field t ''target_group_name'')) (rid t))
              (Some ((''targetType'', JStr (str (field t ''target_type''))) # row_meta t ''target_group'')) g)
          g (in_tg fi)
      in foldl (\<lambda>g a. add_node (''apigw:'' @ rid a) Apigw (or_else (str (field a ''name'')) (rid a))
           (Some (row_meta a ''apigatewayv2_api'')) g) g (in_api fi))"

definition route53_step :: "flow_input \<Rightarrow> flow_graph \<Rightarrow> row \<Rightarrow> flow_graph" where
  "route53_step fi g r =
     (let target = dns (attr (field r ''alias_target'') ''DNSName'');
          name = record_name r;
          downstream = (case map_of (cf_by_domain fi) target of
              Some n \<Rightarrow> Some n
            | None \<Rightarrow> (case map_of (lb_by_dns fi) target of
                Some n \<Rightarrow> Some n
              | None \<Rightarrow> map_of (cf_by_alias fi) name))
      in case downstream of
           None \<Rightarrow> g
         | Some d \<Rightarrow>
             (let i = ''r53:'' @ or_else (rid r) name;
                  meta = (''recordType'', JStr (str (field r ''type''))) # row_meta r ''route53''
              in add_edge i d Observed None (add_node i Route53 (or_else name (rid r)) (Some meta) g)))"

text \<open>What an origin resolves to; the cases are tried in the order of the source.\<close>

datatype origin_link =
    Link_Observed string
  | Link_Many "string list"
  | Link_Inferred string
  | Unresolved "string option"

definition is_object_type :: "js \<Rightarrow> bool" where
  "is_object_type v \<longleftrightarrow> (case v of JObj _ \<Rightarrow> True | JArr _ \<Rightarrow> True | _ \<Rightarrow> False)"

definition public_link :: "(string \<Rightarrow> js option) \<Rightarrow> flow_input \<Rightarrow> string \<Rightarrow> origin_link" where
  "public_link parse fi domain =
     (case resolve_via_r53 (alias_by_name parse (in_route53 fi)) (dns (JStr domain)) of
        None \<Rightarrow> Unresolved None
      | Some term \<Rightarrow>
          (case map_of (lb_by_dns fi) term of
             Some lid \<Rightarrow>
               if term \<in> set (internet_facing_lb_dns fi) then Link_Inferred lid else Unresolved (Some term)
           | None \<Rightarrow> Unresolved (Some term)))"

definition origin_link_of :: "(string \<Rightarrow> js option) \<Rightarrow> flow_input \<Rightarrow> row \<Rightarrow> js \<Rightarrow> origin_link" where
  "origin_link_of parse fi c org =
     (let domain = str (attr org ''DomainName''); key = rid c @ ''|'' @ domain in
      case map_of (lb_by_dns fi) (lower domain) of
        Some lid \<Rightarrow> Link_Observed lid
      | None \<Rightarrow>
          (case (case execute_api_id domain of None \<Rightarrow> None
                 | Some api \<Rightarrow> if api \<in> set (apigw_ids fi) then Some api else None) of
             Some api \<Rightarrow> Link_Observed (''apigw:'' @ api)
           | None \<Rightarrow>
               (let arns = (case map_of (vo_by_dist_domain parse fi) key of None \<Rightarrow> [] | Some xs \<Rightarrow> xs);
                    lbs = map the (filter (\<lambda>x. x \<noteq> None) (map (map_of (lb_by_arn fi)) arns));
                    is_vpc = (key \<in> set (vpc_origin_keys parse fi) \<or> is_object_type (attr org ''VpcOriginConfig''))
                in if lbs \<noteq> [] then Link_Many lbs
                   else if domain \<noteq> [] \<and> \<not> is_vpc then public_link parse fi domain
                   else Unresolved None)))"

text \<open>The arrow of the label, U+2192, is the one code unit written \<open>CHR 0x1A\<close> here.\<close>

definition arrow :: string where
  "arrow = [CHR '' '', CHR 0x1A, CHR '' '']"

definition origin_node :: "flow_input \<Rightarrow> row \<Rightarrow> js \<Rightarrow> nat \<Rightarrow> string option \<Rightarrow> flow_graph \<Rightarrow> flow_graph" where
  "origin_node fi c org i resolved g =
     (let domain = str (attr org ''DomainName'');
          vpc = (if is_object_type (attr org ''VpcOriginConfig'') then '' (VPC origin)'' else []);
          oid = ''origin:'' @ rid c @ '':'' @ or_else domain (show_nat i)
      in case (if domain \<noteq> [] then s3_bucket domain else None) of
           Some bucket \<Rightarrow>
             (let r = (case map_of (s3_by_name fi) bucket of
                  Some r \<Rightarrow> r
                | None \<Rightarrow> [(''resource_id'', JStr bucket), (''name'', JStr bucket), (''arn'', JStr (''arn:aws:s3:::'' @ bucket))])
              in add_node oid Origin bucket
                (Some [(''service'', JStr ''s3''), (''bucket'', JStr bucket), (''domain'', JStr domain),
                  (''invType'', JStr ''s3''), (''row'', JObj r)]) g)
         | None \<Rightarrow>
             add_node oid Origin
               (case resolved of Some t \<Rightarrow> domain @ arrow @ t | None \<Rightarrow> or_else domain ''origin'' @ vpc)
               (Some ((''unresolved'', JBool True) # (case resolved of Some t \<Rightarrow> [(''resolvedTarget'', JStr t)] | None \<Rightarrow> []))) g)"

definition origin_step :: "(string \<Rightarrow> js option) \<Rightarrow> flow_input \<Rightarrow> row \<Rightarrow> flow_graph \<Rightarrow> nat \<times> js \<Rightarrow> flow_graph" where
  "origin_step parse fi c g io =
     (let (i, org) = io; cf = ''cf:'' @ rid c; domain = str (attr org ''DomainName'') in
      case origin_link_of parse fi c org of
        Link_Observed t \<Rightarrow> add_edge cf t Observed None g
      | Link_Many ts \<Rightarrow> foldl (\<lambda>g t. add_edge cf t Observed None g) g ts
      | Link_Inferred t \<Rightarrow> add_edge cf t Inferred None g
      | Unresolved resolved \<Rightarrow>
          add_edge cf (''origin:'' @ rid c @ '':'' @ or_else domain (show_nat i)) Observed None
            (origin_node fi c org i resolved g))"

definition cloudfront_step :: "(string \<Rightarrow> js option) \<Rightarrow> flow_input \<Rightarrow> flow_graph \<Rightarrow> row \<Rightarrow> flow_graph" where
  "cloudfront_step parse fi g c =
     (let waf = str (field c ''web_acl_id'');
          g = (case (if waf \<noteq> [] then map_of (waf_by_arn fi) waf else None) of
              Some w \<Rightarrow> add_edge (''cf:'' @ rid c) w Observed None g
            | None \<Rightarrow> g);
          origins = arr parse (field c ''origins'')
      in foldl (origin_step parse fi c) g (zip [0..<length origins] origins))"

text \<open>\<open>s.split(pat)[1]\<close>: what stands between the first and the second \<open>pat\<close>.\<close>

fun before_first :: "string \<Rightarrow> string \<Rightarrow> string" where
  "before_first pat [] = []"
| "before_first pat (c # cs) = (if starts_with pat (c # cs) then [] else c # before_first pat cs)"

fun after_first :: "string \<Rightarrow> string \<Rightarrow> string option" where
  "after_first pat [] = None"
| "after_first pat (c # cs) =
     (if starts_with pat (c # cs) then Some (drop (length pat) (c # cs)) else after_first pat cs)"

definition function_name :: "string \<Rightarrow> string" where
  "function_name arn = (case after_first '':function:'' arn of
      None \<Rightarrow> arn
    | Some rest \<Rightarrow> or_else (before_first '':function:'' rest) arn)"

definition integration_step :: "flow_input \<Rightarrow> flow_graph \<Rightarrow> row \<Rightarrow> flow_graph" where
  "integration_step fi g ig =
     (let api = str (field ig ''api_id''); node = ''apigw:'' @ api; uri = str (field ig ''integration_uri'');
          route_key = map_of (route_key_by_integration fi) (api @ '':'' @ rid ig)
      in if api \<notin> set (apigw_ids fi) then g
         else case lambda_arn_from_integration uri of
           Some arn \<Rightarrow>
             (let r = map_of (lambda_row_by_arn fi) arn;
                  label = (case r of Some x \<Rightarrow> or_else (rid x) arn | None \<Rightarrow> function_name arn);
                  meta = (case r of Some x \<Rightarrow> row_meta x ''lambda'' | None \<Rightarrow> [(''arn'', JStr arn)])
              in add_edge node (''lambda:'' @ arn) Observed route_key
                   (add_node (''lambda:'' @ arn) Lambda_Fn label (Some meta) g))
         | None \<Rightarrow>
             if str (field ig ''connection_type'') \<noteq> ''VPC_LINK'' then g
             else (case (case lb_arn_from_listener uri of None \<Rightarrow> None | Some arn \<Rightarrow> map_of (lb_by_arn fi) arn) of
                 Some lid \<Rightarrow> add_edge node lid Observed route_key g
               | None \<Rightarrow> g))"

subsection \<open>Targets, grouped by workload\<close>

record member =
  mb_id :: string
  mb_port :: js
  mb_health :: string
  mb_label :: string
  mb_pod :: "(string \<times> string) option"

record target_group =
  tg_key :: string
  tg_label :: string
  tg_resolved :: string
  tg_meta :: js_object
  tg_members :: "member list"

definition target_cap :: nat where
  "target_cap = 20"

definition in_scope :: "row \<Rightarrow> resolved_ip option \<Rightarrow> resolved_ip option" where
  "in_scope t candidate = (case candidate of
      None \<Rightarrow> None
    | Some c \<Rightarrow>
        (let region = field t ''region''; vpc = field t ''vpc_id'';
             mr = meta_field c ''region''; mv = meta_field c ''vpcId'' in
         if (ri_resolved c \<noteq> ''ecs'' \<or> (truthy region \<and> truthy vpc \<and> mr = region \<and> mv = vpc)) \<and>
            \<not> (truthy mr \<and> truthy region \<and> mr \<noteq> region) \<and> \<not> (truthy mv \<and> truthy vpc \<and> mv \<noteq> vpc)
         then Some c else None))"

definition owner_of_ip ::
    "(string \<times> resolved_ip) list \<Rightarrow> (string \<times> resolved_ip) list \<Rightarrow> row \<Rightarrow> string \<Rightarrow> resolved_ip option" where
  "owner_of_ip resolved ecs t target =
     (let scoped = scoped_target_ip (str (field t ''region'')) (str (field t ''vpc_id'')) target;
          pod = (case map_of resolved scoped of Some r \<Rightarrow> Some r | None \<Rightarrow> map_of resolved target)
      in case in_scope t pod of
           Some c \<Rightarrow> Some c
         | None \<Rightarrow> in_scope t (map_of ecs scoped))"

text \<open>The group of a target: key, label in the group, the group's label, resolution and meta.\<close>

definition classify_target ::
    "flow_input \<Rightarrow> (string \<times> resolved_ip) list \<Rightarrow> row \<Rightarrow> string \<Rightarrow> string \<times> string \<times> string \<times> string \<times> js_object" where
  "classify_target fi ecs t target =
     (let ttype = str (field t ''target_type'') in
      if ttype = ''instance'' then
        (''ec2'', (case map_of (ec2_by_id fi) target of Some n \<Rightarrow> or_else n target | None \<Rightarrow> target), ''EC2 instances'',
         (if map_of (ec2_by_id fi) target \<noteq> None then ''ec2'' else []), [])
      else if ttype = ''lambda'' then
        (let l = (case map_of (lambda_by_arn fi) target of Some n \<Rightarrow> or_else n target | None \<Rightarrow> target) in
         (''lambda:'' @ target, l, l, (if map_of (lambda_by_arn fi) target \<noteq> None then ''lambda'' else []), []))
      else if ttype = ''ip'' then
        (case owner_of_ip (in_ip_resolved fi) ecs t target of
           Some r \<Rightarrow>
             (ri_resolved r @ '':'' @ str (meta_field r ''cluster'') @ ''/'' @ ri_label r, ri_label r, ri_label r,
              ri_resolved r, (case ri_meta r of None \<Rightarrow> [] | Some m \<Rightarrow> m))
         | None \<Rightarrow> (''ip'', target, ''targets'', [], []))
      else (''ip'', target, ''targets'', [], []))"

definition add_target ::
    "flow_input \<Rightarrow> (string \<times> resolved_ip) list \<Rightarrow> row \<Rightarrow> (string \<times> target_group) list \<Rightarrow> nat \<times> js \<Rightarrow>
     (string \<times> target_group) list" where
  "add_target fi ecs t m ithd =
     (let (i, thd) = ithd;
          tgt = attr thd ''Target'';
          target = or_else (str (attr tgt ''Id'')) (''unknown-'' @ show_nat i);
          (key, mlabel, glabel, resolved, meta) = classify_target fi ecs t target;
          g = (case map_of m key of
              Some g \<Rightarrow> g
            | None \<Rightarrow> \<lparr>tg_key = key, tg_label = glabel, tg_resolved = resolved, tg_meta = meta, tg_members = []\<rparr>);
          mb = \<lparr>mb_id = target, mb_port = coalesce (attr tgt ''Port'') JNull,
                mb_health = or_else (str (attr (attr thd ''TargetHealth'') ''State'')) ''unknown'', mb_label = mlabel,
                mb_pod = (if resolved = ''eks'' then Some (str (field meta ''pod''), str (field meta ''namespace'')) else None)\<rparr>
      in AList.update key (g\<lparr>tg_members := tg_members g @ [mb]\<rparr>) m)"

definition target_groups ::
    "(string \<Rightarrow> js option) \<Rightarrow> flow_input \<Rightarrow> (string \<times> resolved_ip) list \<Rightarrow> row \<Rightarrow> (string \<times> target_group) list" where
  "target_groups parse fi ecs t =
     (let thds = arr parse (field t ''target_health_descriptions'') in
      foldl (add_target fi ecs t) [] (zip [0..<length thds] thds))"

definition healthy_count :: "target_group \<Rightarrow> nat" where
  "healthy_count g = length (filter (\<lambda>m. mb_health m = ''healthy'') (tg_members g))"

definition aggregate_health :: "target_group \<Rightarrow> string" where
  "aggregate_health g =
     (if length (tg_members g) = healthy_count g then ''healthy''
      else if \<exists>m\<in>set (tg_members g). mb_health m = ''unhealthy'' then ''unhealthy''
      else (case find (\<lambda>m. mb_health m \<noteq> ''healthy'') (tg_members g) of
          Some m \<Rightarrow> or_else (mb_health m) ''unknown''
        | None \<Rightarrow> ''unknown''))"

definition member_address :: "string \<Rightarrow> member \<Rightarrow> string" where
  "member_address ttype m =
     (let address = (if ttype = ''ip'' \<and> CHR '':'' \<in> set (mb_id m) then ''['' @ mb_id m @ '']'' else mb_id m) in
      if nullish (mb_port m) then address else address @ '':'' @ to_string (mb_port m))"

definition member_identity :: "member \<Rightarrow> js" where
  "member_identity m = (case mb_pod m of
      Some (pod, ns) \<Rightarrow> JObj [(''id'', JStr (mb_id m)), (''pod'', JStr pod), (''namespace'', JStr ns)]
    | None \<Rightarrow> JObj [(''id'', JStr (mb_id m)), (''pod'', JUndef), (''namespace'', JUndef)])"

definition target_meta :: "string \<Rightarrow> target_group \<Rightarrow> js_object" where
  "target_meta ttype g =
     (let total = length (tg_members g); shown = take target_cap (tg_members g) in
      spread
        ([(''targetType'', JStr ttype), (''health'', JStr (aggregate_health g))] @
         (if total = 1
          then [(''id'', JStr (mb_id (hd (tg_members g)))), (''port'', mb_port (hd (tg_members g)))]
          else [(''count'', JNum (int total)),
                (''healthSummary'', JStr (show_nat (healthy_count g) @ ''/'' @ show_nat total @ '' healthy'')),
                (''members'', JArr (map (JStr \<circ> member_address ttype) shown))] @
               (if tg_resolved g = ''eks'' then [(''memberIdentities'', JArr (map member_identity shown))] else []) @
               (if target_cap < total then [(''membersTruncated'', JNum (int (total - target_cap)))] else [])) @
         (if tg_resolved g \<noteq> [] then [(''resolved'', JStr (tg_resolved g))] else []))
        (tg_meta g))"

definition target_step :: "row \<Rightarrow> flow_graph \<Rightarrow> target_group \<Rightarrow> flow_graph" where
  "target_step t g grp =
     (let total = length (tg_members grp);
          node = ''target:'' @ rid t @ '':'' @ tg_key grp;
          label = (if total = 1 then mb_label (hd (tg_members grp))
            else tg_label grp @ [CHR '' '', CHR 0xD7] @ show_nat total)
      in add_edge (''tg:'' @ rid t) node Observed None
           (add_node node Target label (Some (target_meta (str (field t ''target_type'')) grp)) g))"

definition tg_step :: "(string \<Rightarrow> js option) \<Rightarrow> flow_input \<Rightarrow> (string \<times> resolved_ip) list \<Rightarrow> flow_graph \<Rightarrow> row \<Rightarrow> flow_graph" where
  "tg_step parse fi ecs g t =
     (let g = foldl (\<lambda>g lb. case map_of (lb_by_arn fi) lb of
            Some lid \<Rightarrow> add_edge lid (''tg:'' @ rid t) Observed
              (map_of (rule_label_by_lb_tg parse fi) (lb @ ''|'' @ rid t)) g
          | None \<Rightarrow> g) g (map str (arr parse (field t ''load_balancer_arns'')))
      in foldl (target_step t) g (map snd (target_groups parse fi ecs t)))"

definition empty_flow :: flow_graph where
  "empty_flow = \<lparr>fg_nodes = [], fg_edges = []\<rparr>"

definition build_flow_graph :: "(string \<Rightarrow> js option) \<Rightarrow> flow_input \<Rightarrow> flow_graph" where
  "build_flow_graph parse fi =
     (let ecs = ecs_ip_map parse (in_ecs_task fi) (in_subnet fi);
          g = add_resource_nodes fi empty_flow;
          g = foldl (route53_step fi) g (in_route53 fi);
          g = foldl (cloudfront_step parse fi) g (in_cloudfront fi);
          g = foldl (integration_step fi) g (in_integration fi)
      in foldl (tg_step parse fi ecs) g (in_tg fi))"

section \<open>The subtree of an entry\<close>

text \<open>\<open>for (const e of out.get(cur) ?? []) if (!keep.has(e.target)) ...\<close>\<close>

definition new_targets :: "flow_edge list \<Rightarrow> string list \<Rightarrow> string \<Rightarrow> string list" where
  "new_targets es keep cur =
     foldl (\<lambda>acc e. if fe_source e = cur \<and> fe_target e \<notin> set keep \<and> fe_target e \<notin> set acc
       then acc @ [fe_target e] else acc) [] es"

lemma new_targets_snoc:
  "new_targets (es @ [e]) keep cur = (let acc = new_targets es keep cur in
     if fe_source e = cur \<and> fe_target e \<notin> set keep \<and> fe_target e \<notin> set acc then acc @ [fe_target e] else acc)"
  by (simp add: new_targets_def Let_def)

lemma set_new_targets:
  "set (new_targets es keep cur) = {t. \<exists>e\<in>set es. fe_source e = cur \<and> fe_target e = t} - set keep"
proof (induction es rule: rev_induct)
  case Nil
  show ?case by (simp add: new_targets_def)
next
  case (snoc e es)
  then show ?case by (auto simp: new_targets_snoc Let_def)
qed

lemma search_decreases:
  "new_targets es keep cur \<noteq> [] \<Longrightarrow>
   card (fe_target ` set es - set (keep @ new_targets es keep cur)) < card (fe_target ` set es - set keep)"
proof (rule psubset_card_mono)
  assume "new_targets es keep cur \<noteq> []"
  then obtain t where "t \<in> set (new_targets es keep cur)" by (metis list.set_intros(1) neq_Nil_conv)
  then show "fe_target ` set es - set (keep @ new_targets es keep cur) \<subset> fe_target ` set es - set keep"
    unfolding set_append set_new_targets by blast
qed simp

function search :: "flow_edge list \<Rightarrow> string list \<Rightarrow> string list \<Rightarrow> string list" where
  "search es keep [] = keep"
| "search es keep (cur # queue) =
     (let new = new_targets es keep cur in search es (keep @ new) (queue @ new))"
  by pat_completeness auto

termination
proof (relation "(\<lambda>(es, keep, queue). card (fe_target ` set es - set keep)) <*mlex*> measure (\<lambda>(es, keep, queue). length queue)")
  show "wf ((\<lambda>(es, keep, queue). card (fe_target ` set es - set keep)) <*mlex*> measure (\<lambda>(es :: flow_edge list, keep, queue). length queue))"
    by (intro wf_mlex wf_measure)
next
  fix es :: "flow_edge list" and keep queue :: "string list" and cur new
  assume n: "new = new_targets es keep cur"
  show "((es, keep @ new, queue @ new), (es, keep, cur # queue)) \<in>
      (\<lambda>(es, keep, queue). card (fe_target ` set es - set keep)) <*mlex*> measure (\<lambda>(es, keep, queue). length queue)"
  proof (cases "new = []")
    case True
    then show ?thesis by (intro mlex_leq) auto
  next
    case False
    with n search_decreases [of es keep cur] show ?thesis by (intro mlex_less) simp
  qed
qed

definition filter_from_entry :: "flow_graph \<Rightarrow> string option \<Rightarrow> flow_graph" where
  "filter_from_entry g entry = (case entry of
      None \<Rightarrow> g
    | Some i \<Rightarrow>
        if i = [] \<or> i \<notin> fn_id ` set (fg_nodes g) then g
        else (let keep = search (fg_edges g) [i] [i] in
          \<lparr>fg_nodes = filter (\<lambda>n. fn_id n \<in> set keep) (fg_nodes g),
           fg_edges = filter (\<lambda>e. fe_source e \<in> set keep \<and> fe_target e \<in> set keep) (fg_edges g)\<rparr>))"

section \<open>Reachability\<close>

definition links :: "flow_edge list \<Rightarrow> (string \<times> string) set" where
  "links es = (\<lambda>e. (fe_source e, fe_target e)) ` set es"

lemma new_targets_links: "set (new_targets es keep cur) = links es `` {cur} - set keep"
  unfolding set_new_targets links_def by auto

lemma search_keeps: "set keep \<subseteq> set (search es keep queue)"
  by (induction es keep queue rule: search.induct) (auto simp: Let_def)

lemma search_reaches: "set (search es keep queue) \<subseteq> set keep \<union> (links es)\<^sup>* `` set queue"
proof (induction es keep queue rule: search.induct)
  case (2 es keep cur queue)
  let ?new = "new_targets es keep cur"
  have r: "x \<in> (links es)\<^sup>* `` {cur}" if "x \<in> set ?new" for x
    using that by (auto simp: new_targets_links)
  have t: "y \<in> (links es)\<^sup>* `` {cur}" if "y \<in> (links es)\<^sup>* `` set ?new" for y
    using that r by (meson Image_singleton_iff ImageE rtrancl_trans)
  have i: "set (search es (keep @ ?new) (queue @ ?new)) \<subseteq>
      (set keep \<union> set ?new) \<union> ((links es)\<^sup>* `` set queue \<union> (links es)\<^sup>* `` set ?new)"
    using 2 [OF refl] by (simp add: Image_Un)
  have "(links es)\<^sup>* `` set (cur # queue) = (links es)\<^sup>* `` {cur} \<union> (links es)\<^sup>* `` set queue" by auto
  then show ?case using i r t by (simp only: search.simps Let_def) blast
qed simp

lemma search_closed:
  "(\<forall>x\<in>set keep. x \<in> set queue \<or> links es `` {x} \<subseteq> set keep) \<Longrightarrow>
   links es `` set (search es keep queue) \<subseteq> set (search es keep queue)"
proof (induction es keep queue rule: search.induct)
  case (2 es keep cur queue)
  have "\<forall>x\<in>set (keep @ new_targets es keep cur). x \<in> set (queue @ new_targets es keep cur) \<or>
      links es `` {x} \<subseteq> set (keep @ new_targets es keep cur)"
    using 2(2) by (auto simp: new_targets_links)
  with 2(1) [OF refl] show ?case by (simp add: Let_def)
qed auto

lemma search_reachable: "set (search es [i] [i]) = (links es)\<^sup>* `` {i}"
proof
  show "set (search es [i] [i]) \<subseteq> (links es)\<^sup>* `` {i}" using search_reaches [of es "[i]" "[i]"] by auto
  have "(links es)\<^sup>* `` {i} \<subseteq> (links es)\<^sup>* `` set (search es [i] [i])"
    using search_keeps [of "[i]" es "[i]"] by (intro Image_mono) auto
  also have "\<dots> = set (search es [i] [i])"
    by (rule Image_closed_trancl) (rule search_closed, simp)
  finally show "(links es)\<^sup>* `` {i} \<subseteq> set (search es [i] [i])" .
qed

text \<open>
  C38. The search below an entry point ends, and the subtree it returns has exactly the nodes that
  the edges lead to from the entry, and exactly the edges between two of them.
\<close>

theorem subtree_is_reachable:
  "i \<noteq> [] \<Longrightarrow> i \<in> node_ids g \<Longrightarrow>
   filter_from_entry g (Some i) =
     \<lparr>fg_nodes = filter (\<lambda>n. (i, fn_id n) \<in> (links (fg_edges g))\<^sup>*) (fg_nodes g),
      fg_edges = filter (\<lambda>e. (i, fe_source e) \<in> (links (fg_edges g))\<^sup>* \<and> (i, fe_target e) \<in> (links (fg_edges g))\<^sup>*)
        (fg_edges g)\<rparr>"
  by (simp add: filter_from_entry_def node_ids_def search_reachable Let_def del: search.simps)

definition sample_flow_graph :: flow_graph where
  "sample_flow_graph =
     add_edge ''b'' ''a'' Observed None (add_edge ''a'' ''b'' Observed None
       (add_node ''c'' Tg ''c'' None (add_node ''b'' Alb ''b'' None (add_node ''a'' Cloudfront ''a'' None empty_flow))))"

theorem subtree_is_reachable_witness:
  "fg_nodes (filter_from_entry sample_flow_graph (Some ''a'')) =
     filter (\<lambda>n. (''a'', fn_id n) \<in> (links (fg_edges sample_flow_graph))\<^sup>*) (fg_nodes sample_flow_graph)"
proof -
  have "''a'' \<in> node_ids sample_flow_graph" by code_simp
  from subtree_is_reachable [OF _ this] show ?thesis by simp
qed

section \<open>The invariant of the construction\<close>

definition flow_wf :: "(string \<Rightarrow> string \<Rightarrow> bool) \<Rightarrow> flow_graph \<Rightarrow> bool" where
  "flow_wf P g \<longleftrightarrow> distinct (map fn_id (fg_nodes g)) \<and> distinct (map fe_id (fg_edges g)) \<and>
     (\<forall>e\<in>set (fg_edges g). fe_id e = edge_id (fe_source e) (fe_target e) \<and>
        fe_source e \<in> node_ids g \<and> fe_target e \<in> node_ids g \<and>
        (fe_confidence e = Inferred \<longrightarrow> P (fe_source e) (fe_target e)))"

lemma append_label_ids: "map fe_id (append_label i l es) = map fe_id es"
  by (induction es) auto

lemma append_label_edges:
  "e \<in> set (append_label i l es) \<Longrightarrow> \<exists>e'\<in>set es. fe_id e = fe_id e' \<and> fe_source e = fe_source e' \<and>
     fe_target e = fe_target e' \<and> fe_confidence e = fe_confidence e'"
  by (induction es) (auto split: if_splits)

lemma wf_empty: "flow_wf P empty_flow"
  by (simp add: flow_wf_def empty_flow_def)

lemma wf_add_node: "flow_wf P g \<Longrightarrow> flow_wf P (add_node i k l m g)"
  by (auto simp: flow_wf_def add_node_def node_ids_def)

lemma wf_add_edge:
  assumes wf: "flow_wf P g" and c: "conf = Inferred \<Longrightarrow> P s t"
  shows "flow_wf P (add_edge s t conf label g)"
proof (cases "s \<in> node_ids g \<and> t \<in> node_ids g")
  case False
  then have "add_edge s t conf label g = g" by (simp add: add_edge_def node_ids_def Let_def)
  with wf show ?thesis by simp
next
  case here: True
  show ?thesis
  proof (cases "edge_id s t \<in> fe_id ` set (fg_edges g)")
    case False
    with here wf c show ?thesis by (auto simp: flow_wf_def add_edge_def node_ids_def Let_def)
  next
    case True
    with here have "add_edge s t conf label g =
        (if has_text label then g\<lparr>fg_edges := append_label (edge_id s t) (the label) (fg_edges g)\<rparr> else g)"
      by (simp add: add_edge_def node_ids_def Let_def)
    with wf show ?thesis
      by (auto simp: flow_wf_def node_ids_def append_label_ids dest!: append_label_edges)
  qed
qed

lemma wf_add_observed: "flow_wf P g \<Longrightarrow> flow_wf P (add_edge s t Observed label g)"
  by (rule wf_add_edge) simp_all

lemma wf_foldl: "(\<And>g x. x \<in> set xs \<Longrightarrow> flow_wf P g \<Longrightarrow> flow_wf P (f g x)) \<Longrightarrow> flow_wf P g \<Longrightarrow> flow_wf P (foldl f g xs)"
  by (induction xs arbitrary: g) auto

lemmas wf_intros = wf_add_node wf_add_observed wf_foldl

lemma wf_resource_nodes: "flow_wf P g \<Longrightarrow> flow_wf P (add_resource_nodes fi g)"
  unfolding add_resource_nodes_def Let_def by (intro wf_intros)

lemma wf_route53_step: "flow_wf P g \<Longrightarrow> flow_wf P (route53_step fi g r)"
  unfolding route53_step_def Let_def by (auto intro: wf_intros split: option.splits)

lemma wf_origin_node: "flow_wf P g \<Longrightarrow> flow_wf P (origin_node fi c org i resolved g)"
  unfolding origin_node_def Let_def by (auto intro: wf_add_node split: option.splits)

lemma wf_integration_step: "flow_wf P g \<Longrightarrow> flow_wf P (integration_step fi g ig)"
  unfolding integration_step_def Let_def by (auto intro: wf_intros split: option.splits)

lemma wf_target_step: "flow_wf P g \<Longrightarrow> flow_wf P (target_step t g grp)"
  unfolding target_step_def Let_def by (intro wf_add_observed wf_add_node)

lemma wf_tg_step: "flow_wf P g \<Longrightarrow> flow_wf P (tg_step parse fi ecs g t)"
  unfolding tg_step_def Let_def
  by (intro wf_foldl wf_target_step) (auto intro: wf_add_observed split: option.splits)

text \<open>What backs an inferred edge from a distribution to a load balancer.\<close>

definition public_path :: "(string \<Rightarrow> js option) \<Rightarrow> flow_input \<Rightarrow> string \<Rightarrow> string \<Rightarrow> bool" where
  "public_path parse fi source target \<longleftrightarrow>
     (\<exists>c\<in>set (in_cloudfront fi). \<exists>org\<in>set (arr parse (field c ''origins'')). \<exists>term n.
        source = ''cf:'' @ rid c \<and>
        rid c @ ''|'' @ str (attr org ''DomainName'') \<notin> set (vpc_origin_keys parse fi) \<and>
        \<not> is_object_type (attr org ''VpcOriginConfig'') \<and> 1 \<le> n \<and> n \<le> 4 \<and>
        hops_to (alias_by_name parse (in_route53 fi)) n (dns (JStr (str (attr org ''DomainName'')))) term \<and>
        term \<in> set (internet_facing_lb_dns fi) \<and> map_of (lb_by_dns fi) term = Some target)"

lemma inferred_link:
  assumes "origin_link_of parse fi c org = Link_Inferred t" "c \<in> set (in_cloudfront fi)"
    "org \<in> set (arr parse (field c ''origins''))"
  shows "public_path parse fi (''cf:'' @ rid c) t"
proof -
  let ?d = "str (attr org ''DomainName'')"
  from assms(1) have p: "public_link parse fi ?d = Link_Inferred t"
    "rid c @ ''|'' @ ?d \<notin> set (vpc_origin_keys parse fi)" "\<not> is_object_type (attr org ''VpcOriginConfig'')"
    by (auto simp: origin_link_of_def Let_def split: option.splits if_splits)
  then obtain tm where "resolve_via_r53 (alias_by_name parse (in_route53 fi)) (dns (JStr ?d)) = Some tm"
    "map_of (lb_by_dns fi) tm = Some t" "tm \<in> set (internet_facing_lb_dns fi)"
    by (auto simp: public_link_def split: option.splits if_splits)
  with p(2,3) assms(2,3) show ?thesis unfolding public_path_def resolve_via_r53_iff by blast
qed

lemma wf_origin_step:
  assumes "flow_wf (public_path parse fi) g" "c \<in> set (in_cloudfront fi)"
    "snd io \<in> set (arr parse (field c ''origins''))"
  shows "flow_wf (public_path parse fi) (origin_step parse fi c g io)"
proof (cases "origin_link_of parse fi c (snd io)")
  case (Link_Inferred t)
  with assms have "public_path parse fi (''cf:'' @ rid c) t" by (intro inferred_link) auto
  with Link_Inferred assms(1) show ?thesis
    unfolding origin_step_def Let_def split_def Link_Inferred origin_link.case by (rule_tac wf_add_edge)
qed (use assms(1) in \<open>auto simp: origin_step_def Let_def split_def intro: wf_intros wf_origin_node\<close>)

lemma wf_cloudfront_step:
  assumes "flow_wf (public_path parse fi) g" "c \<in> set (in_cloudfront fi)"
  shows "flow_wf (public_path parse fi) (cloudfront_step parse fi g c)"
  unfolding cloudfront_step_def Let_def
proof (rule wf_foldl)
  fix g io
  assume io: "io \<in> set (zip [0..<length (arr parse (field c ''origins''))] (arr parse (field c ''origins'')))"
    and g: "flow_wf (public_path parse fi) g"
  from io have "snd io \<in> set (arr parse (field c ''origins''))" by (metis prod.collapse set_zip_rightD)
  with g assms(2) show "flow_wf (public_path parse fi) (origin_step parse fi c g io)" by (intro wf_origin_step)
qed (use assms(1) in \<open>auto intro: wf_add_observed split: option.splits\<close>)

lemma build_flow_wf: "flow_wf (public_path parse fi) (build_flow_graph parse fi)"
  unfolding build_flow_graph_def Let_def
  by (intro wf_foldl wf_tg_step wf_integration_step wf_cloudfront_step wf_route53_step wf_resource_nodes wf_empty)

text \<open>
  C34. The graph is well formed whatever the inventory holds: node and edge ids are unique, an
  edge's id is made of its ends, and both ends are nodes of the graph.
\<close>

theorem flow_graph_well_formed:
  "flow_wf (\<lambda>_ _. True) (build_flow_graph parse fi)"
  using build_flow_wf [of parse fi] by (auto simp: flow_wf_def)

text \<open>
  C33. A dashed (inferred) edge is drawn only from a distribution to the load balancer its origin
  publicly resolves to: the origin is no VPC origin, one to four public alias records lead from
  its domain to a DNS name of the balancer, and that balancer faces the internet.
\<close>

theorem inferred_edges_are_public:
  "e \<in> set (fg_edges (build_flow_graph parse fi)) \<Longrightarrow> fe_confidence e = Inferred \<Longrightarrow>
   public_path parse fi (fe_source e) (fe_target e)"
  using build_flow_wf [of parse fi] by (auto simp: flow_wf_def)

definition sample_flow_input :: flow_input where
  "sample_flow_input =
     \<lparr>in_route53 = [[(''name'', JStr ''app.example.com.''), (''private_zone'', JBool False),
        (''alias_target'', JObj [(''DNSName'', JStr ''dualstack.web.eu.elb.amazonaws.com.'')])]],
      in_cloudfront = [[(''resource_id'', JStr ''E1''), (''origins'', JArr [JObj [(''DomainName'', JStr ''app.example.com'')]])]],
      in_alb = [[(''resource_id'', JStr ''web''), (''arn'', JStr ''arn:web''), (''dns_name'', JStr ''web.eu.elb.amazonaws.com''),
        (''scheme'', JStr ''internet-facing'')]],
      in_nlb = [], in_tg = [], in_waf = [], in_ec2 = [], in_lambda = [], in_ecs_task = [], in_subnet = [],
      in_s3 = [], in_api = [], in_integration = [], in_vpc_origin = [], in_listener_rule = [], in_route = [],
      in_ip_resolved = []\<rparr>"

definition sample_flow_edge :: flow_edge where
  "sample_flow_edge = hd (fg_edges (build_flow_graph (\<lambda>_. None) sample_flow_input))"

theorem inferred_edges_are_public_witness:
  "public_path (\<lambda>_. None) sample_flow_input ''cf:E1'' ''alb:arn:web''"
proof -
  have "sample_flow_edge \<in> set (fg_edges (build_flow_graph (\<lambda>_. None) sample_flow_input))"
    "fe_confidence sample_flow_edge = Inferred" "fe_source sample_flow_edge = ''cf:E1''" "fe_target sample_flow_edge = ''alb:arn:web''"
    by code_simp+
  with inferred_edges_are_public [of sample_flow_edge "\<lambda>_. None" sample_flow_input] show ?thesis by simp
qed

end
