(* ===== verification/Graph_Rebuild.thy ===== *)
theory Graph_Rebuild
  imports Graph_Inventory Flow_Topology
begin

text \<open>
  Rebuilding the inventory graphs (\<^verbatim>\<open>rebuildInventory\<close>, \<^verbatim>\<open>rebuildGraph\<close> and \<^verbatim>\<open>rebuildInfraGraph\<close> of
  \<^verbatim>\<open>web/lib/graph-store.ts\<close>): which accounts are visited, what a visit reads, builds and publishes,
  and the time and size budgets. A visit's clocks, the inventory it finds and the fate of its
  transactions are arguments.
\<close>

section \<open>Accounts\<close>

text \<open>When an account was last attempted; one never attempted has no time and comes first.\<close>

definition attempt_order :: "state_row option \<Rightarrow> int option" where
  "attempt_order r = (case r of
      None \<Rightarrow> None
    | Some r \<Rightarrow>
        if field (gs_details r) ''sourceAttempted'' = JBool False
        then (case field (gs_details r) ''lastSourceAttemptedAtMs'' of JNum n \<Rightarrow> Some n | _ \<Rightarrow> None)
        else Some (gs_attempted r))"

definition account_le ::
  "(string \<Rightarrow> string \<Rightarrow> bool) \<Rightarrow> graph_class \<Rightarrow> graph_tables \<Rightarrow> string \<Rightarrow> string \<Rightarrow> bool" where
  "account_le le cls st a b =
     (case (attempt_order (state_at a cls (gt_states st)), attempt_order (state_at b cls (gt_states st))) of
        (None, Some _) \<Rightarrow> True
      | (Some _, None) \<Rightarrow> False
      | (x, y) \<Rightarrow> if x \<noteq> y then the x \<le> the y
          else if a = ''self'' \<or> b = ''self'' then a = ''self'' else le a b)"

text \<open>\<open>members\<close> are the enabled accounts other than the host with a region to collect.\<close>

definition inventory_accounts ::
  "(string \<Rightarrow> string \<Rightarrow> bool) \<Rightarrow> graph_class \<Rightarrow> string list \<Rightarrow> string list \<Rightarrow> inventory_db \<Rightarrow> graph_tables \<Rightarrow> string list" where
  "inventory_accounts le cls types members db st =
     take 101 (sort_le (account_le le cls st) (js_set (''self'' #
       map tn_account (filter (\<lambda>n. tn_class n = cls) (gt_nodes st)) @
       map gs_account (filter (\<lambda>r. gs_class r = cls) (gt_states st)) @
       map iv_account (filter (\<lambda>r. iv_type r \<in> set types) (db_rows db)) @
       map sy_account (filter (\<lambda>y. sy_type y \<in> set types) (db_runs db)) @
       map cp_account (filter (\<lambda>p. cp_type p \<in> set types) (db_points db)) @
       filter (\<lambda>a. a \<noteq> ''self'') members)))"

section \<open>One visit\<close>

type_synonym builder = "inv_row list \<Rightarrow> g_node list \<times> g_edge list"

text \<open>\<open>vs_db\<close> is what the snapshot reads, absent when its transaction fails.\<close>

record visit =
  vs_elapsed :: int
  vs_started :: int
  vs_now :: int
  vs_db :: "inventory_db option"
  vs_tx :: tx
  vs_tx2 :: tx

record graph_limits =
  gl_le :: "string \<Rightarrow> string \<Rightarrow> bool"
  gl_size :: "js \<Rightarrow> nat"
  gl_bytes :: "g_node list \<times> g_edge list \<Rightarrow> nat"

definition NODE_LIMIT :: nat where "NODE_LIMIT = 4000"
definition EDGE_LIMIT :: nat where "EDGE_LIMIT = 8000"
definition GRAPH_BYTES :: nat where "GRAPH_BYTES = 8 * 1024 * 1024"
definition ACCOUNT_LIMIT :: nat where "ACCOUNT_LIMIT = 100"
definition DEADLINE_MS :: int where "DEADLINE_MS = 30000"

definition over_limit :: "graph_limits \<Rightarrow> g_node list \<times> g_edge list \<Rightarrow> bool" where
  "over_limit gl g \<longleftrightarrow> NODE_LIMIT < length (fst g) \<or> EDGE_LIMIT < length (snd g) \<or> GRAPH_BYTES < gl_bytes gl g"

definition limited_attempt :: "graph_limits \<Rightarrow> g_node list \<times> g_edge list \<Rightarrow> graph_attempt \<Rightarrow> graph_attempt" where
  "limited_attempt gl g a =
     (if over_limit gl g
      then a\<lparr>ga_publish := False, ga_status := Status_Partial, ga_details := spread (ga_details a)
        [(''retainedPrevious'', JBool True), (''graphTruncated'', JBool True)]\<rparr>
      else if ga_publish a \<and> ga_status a \<noteq> Status_Partial
        then a\<lparr>ga_status := (if fst g = [] then Status_Empty else Status_Ok)\<rparr>
      else a)"

definition read_failure_attempt :: "int \<Rightarrow> graph_attempt" where
  "read_failure_attempt at_ms = \<lparr>ga_status = Status_Error, ga_attempted = at_ms, ga_publish = False,
     ga_details = [(''sources'', JArr []), (''retainedPrevious'', JBool True), (''failureReason'', JStr ''source_read_failed'')]\<rparr>"

definition add_reason :: "string \<Rightarrow> rebuild_result \<Rightarrow> rebuild_result" where
  "add_reason w r = r\<lparr>rr_reasons := js_add w (rr_reasons r)\<rparr>"

definition add_result :: "rebuild_result \<Rightarrow> rebuild_result \<Rightarrow> rebuild_result" where
  "add_result tally o1 = foldl (\<lambda>r w. add_reason w r)
     (tally\<lparr>rr_nodes := rr_nodes tally + rr_nodes o1, rr_edges := rr_edges tally + rr_edges o1,
       rr_published := rr_published tally + rr_published o1, rr_retained := rr_retained tally + rr_retained o1,
       rr_skipped := rr_skipped tally + rr_skipped o1, rr_degraded := rr_degraded tally + rr_degraded o1\<rparr>)
     (rr_reasons o1)"

definition account_failed :: "rebuild_result \<Rightarrow> rebuild_result" where
  "account_failed r = add_reason ''account_failed'' (r\<lparr>rr_retained := rr_retained r + 1\<rparr>)"

text \<open>The totals so far, and whether an account has failed.\<close>

type_synonym progress = "rebuild_result \<times> bool"

text \<open>What a visit reads and builds: the snapshot, the attempt and the graph.\<close>

definition visit_work ::
  "graph_limits \<Rightarrow> builder \<Rightarrow> graph_class \<Rightarrow> string list \<Rightarrow> visit \<Rightarrow> string \<Rightarrow> inventory_db \<Rightarrow>
   snapshot \<times> graph_attempt \<times> g_node list \<times> g_edge list" where
  "visit_work gl build cls types v account db =
     (let tys = inventory_types_for_account types account;
          sp = inventory_snapshot (gl_le gl) (gl_size gl) cls account tys db;
          a = inventory_attempt (vs_now v) sp tys account (vs_started v)
      in (sp, a, if ga_publish a then build (sp_rows sp) else ([], [])))"

definition visit_account ::
  "graph_limits \<Rightarrow> builder \<Rightarrow> graph_class \<Rightarrow> string \<Rightarrow> string list \<Rightarrow> visit \<Rightarrow> string \<Rightarrow> progress \<times> graph_tables \<Rightarrow>
   progress \<times> graph_tables" where
  "visit_account gl build cls run types v account ps = (case ps of ((tally, failed), st) \<Rightarrow>
     (case vs_db v of
        None \<Rightarrow> ((account_failed tally, True),
          snd (write_graph (vs_tx v) (vs_tx2 v) cls account [] [] run (read_failure_attempt (vs_started v)) st))
      | Some db \<Rightarrow>
          (let (sp, a, g) = visit_work gl build cls types v account db;
               tally = (if sp_truncated sp then add_reason ''snapshot_limit'' tally else tally);
               tally = (if over_limit gl g then add_reason ''graph_limit'' tally else tally)
           in case write_graph (vs_tx v) (vs_tx2 v) cls account (fst g) (snd g) run (limited_attempt gl g a) st of
                (Some o1, st') \<Rightarrow> ((add_result tally o1, failed), st')
              | (None, st') \<Rightarrow> ((account_failed tally, True), st'))))"

section \<open>A run\<close>

text \<open>Past the deadline the accounts not reached are recorded as such and the run stops.\<close>

fun visit_accounts ::
  "graph_limits \<Rightarrow> builder \<Rightarrow> graph_class \<Rightarrow> string \<Rightarrow> string list \<Rightarrow> int \<Rightarrow> (string \<times> visit) list \<Rightarrow>
   progress \<times> graph_tables \<Rightarrow> progress \<times> graph_tables" where
  "visit_accounts gl build cls run types started [] ps = ps"
| "visit_accounts gl build cls run types started ((account, v) # rest) ps =
     (if DEADLINE_MS - 4000 \<le> vs_elapsed v
      then (case ps of ((tally, failed), st) \<Rightarrow>
        (let tally = add_reason ''time_limit'' (tally\<lparr>rr_skipped := rr_skipped tally + Suc (length rest)\<rparr>) in
         case record_unattempted (vs_tx v) cls (account # map fst rest) started st of
           (Some True, st') \<Rightarrow> ((tally, failed), st')
         | (Some False, st') \<Rightarrow> ((add_reason ''skip_record_busy'' tally, failed), st')
         | (None, st') \<Rightarrow> ((add_reason ''skip_record_failed'' tally, failed), st')))
      else visit_accounts gl build cls run types started rest (visit_account gl build cls run types v account ps))"

datatype accounts_read = Accounts_Failed | Schema_Missing | Accounts "string list"

datatype rebuild_outcome = Rebuild_Failed | Rebuild_Done rebuild_result

definition rebuild_inventory ::
  "graph_limits \<Rightarrow> builder \<Rightarrow> graph_class \<Rightarrow> string \<Rightarrow> string list \<Rightarrow> bool \<Rightarrow> int \<Rightarrow> tx \<times> tx \<Rightarrow> accounts_read \<Rightarrow>
   (nat \<Rightarrow> visit) \<Rightarrow> graph_tables \<Rightarrow> rebuild_outcome \<times> graph_tables" where
  "rebuild_inventory gl build cls run types busy started txs read visits st =
     (if busy then (Rebuild_Done (empty_result\<lparr>rr_skipped := 1, rr_reasons := [''rebuild_busy'']\<rparr>), st)
      else (case read of
          Accounts_Failed \<Rightarrow> (Rebuild_Failed,
            snd (write_graph (fst txs) (snd txs) cls ''self'' [] [] run (read_failure_attempt started) st))
        | Schema_Missing \<Rightarrow> (Rebuild_Done (empty_result\<lparr>rr_skipped := 1, rr_reasons := [''state_schema_missing'']\<rparr>), st)
        | Accounts accounts \<Rightarrow>
            (let selected = take ACCOUNT_LIMIT accounts;
                 tally = (if ACCOUNT_LIMIT < length accounts
                   then add_reason ''account_limit'' (empty_result\<lparr>rr_skipped := 1, rr_truncated := True\<rparr>) else empty_result);
                 ((tally, failed), st') = visit_accounts gl build cls run types started
                   (map (\<lambda>i. (selected ! i, visits i)) [0..<length selected]) ((tally, False), st)
             in (if failed then Rebuild_Failed else Rebuild_Done tally, st'))))"

section \<open>The two builders\<close>

definition FLOW_TYPES :: "string list" where
  "FLOW_TYPES = [''route53'', ''cloudfront'', ''alb'', ''nlb'', ''target_group'', ''waf'', ''ec2'', ''lambda'', ''ecs_task'', ''s3'',
     ''subnet'', ''apigatewayv2_api'', ''apigatewayv2_integration'', ''cloudfront_vpc_origin'']"

text \<open>\<open>{ ...(row.data ?? {}), resource_id, region }\<close>.\<close>

definition flow_row :: "inv_row \<Rightarrow> row" where
  "flow_row r = spread (case iv_data r of JObj fs \<Rightarrow> fs | _ \<Rightarrow> [])
     [(''resource_id'', JStr (iv_id r)), (''region'', JStr (iv_region r))]"

definition rows_of_type :: "string \<Rightarrow> inv_row list \<Rightarrow> row list" where
  "rows_of_type ty rows = map flow_row (filter (\<lambda>r. iv_type r = ty) rows)"

definition flow_input_of :: "inv_row list \<Rightarrow> flow_input" where
  "flow_input_of rows = \<lparr>in_route53 = rows_of_type ''route53'' rows, in_cloudfront = rows_of_type ''cloudfront'' rows,
     in_alb = rows_of_type ''alb'' rows, in_nlb = rows_of_type ''nlb'' rows, in_tg = rows_of_type ''target_group'' rows,
     in_waf = rows_of_type ''waf'' rows, in_ec2 = rows_of_type ''ec2'' rows, in_lambda = rows_of_type ''lambda'' rows,
     in_ecs_task = rows_of_type ''ecs_task'' rows, in_subnet = rows_of_type ''subnet'' rows, in_s3 = rows_of_type ''s3'' rows,
     in_api = rows_of_type ''apigatewayv2_api'' rows, in_integration = rows_of_type ''apigatewayv2_integration'' rows,
     in_vpc_origin = rows_of_type ''cloudfront_vpc_origin'' rows, in_listener_rule = [], in_route = [], in_ip_resolved = []\<rparr>"

definition kind_text :: "flow_kind \<Rightarrow> string" where
  "kind_text k = (case k of Route53 \<Rightarrow> ''route53'' | Cloudfront \<Rightarrow> ''cloudfront'' | Alb \<Rightarrow> ''alb'' | Nlb \<Rightarrow> ''nlb'' | Tg \<Rightarrow> ''tg''
     | Target \<Rightarrow> ''target'' | Waf \<Rightarrow> ''waf'' | Origin \<Rightarrow> ''origin'' | More \<Rightarrow> ''more'' | Apigw \<Rightarrow> ''apigw'' | Lambda_Fn \<Rightarrow> ''lambda'')"

definition rel_for :: "flow_kind option \<Rightarrow> flow_kind option \<Rightarrow> string" where
  "rel_for sk tk = (case sk of
      Some Route53 \<Rightarrow> ''ROUTES_TO''
    | Some Cloudfront \<Rightarrow> if tk = Some Waf then ''PROTECTED_BY'' else ''ORIGIN''
    | Some Alb \<Rightarrow> ''TARGETS''
    | Some Nlb \<Rightarrow> ''TARGETS''
    | Some Tg \<Rightarrow> ''TARGETS''
    | _ \<Rightarrow> ''EDGE'')"

definition flow_kind_at :: "flow_graph \<Rightarrow> string \<Rightarrow> flow_kind option" where
  "flow_kind_at g i = map_of (rev (map (\<lambda>n. (fn_id n, fn_kind n)) (fg_nodes g))) i"

definition flow_builder :: "(string \<Rightarrow> js option) \<Rightarrow> builder" where
  "flow_builder parse rows = (let g = build_flow_graph parse (flow_input_of rows) in
     (map (\<lambda>n. \<lparr>gn_id = fn_id n, gn_kind = kind_text (fn_kind n), gn_label = fn_label n, gn_meta = fn_meta n\<rparr>) (fg_nodes g),
      map (\<lambda>e. \<lparr>ge_source = fe_source e, ge_target = fe_target e,
        ge_rel = rel_for (flow_kind_at g (fe_source e)) (flow_kind_at g (fe_target e)),
        ge_confidence = (case fe_confidence e of Observed \<Rightarrow> ''observed'' | Inferred \<Rightarrow> ''inferred''), ge_meta = None\<rparr>) (fg_edges g)))"

text \<open>The infrastructure builder reads the row itself, its data nested.\<close>

definition infra_row :: "inv_row \<Rightarrow> row" where
  "infra_row r = [(''account_id'', JStr (iv_account r)), (''resource_type'', JStr (iv_type r)), (''resource_id'', JStr (iv_id r)),
     (''region'', JStr (iv_region r)), (''captured_at'', instant (iv_captured r)), (''data'', iv_data r)]"

definition NET_TYPES :: "string list" where
  "NET_TYPES = [''vpc'', ''subnet'', ''security_group'']"

definition infra_rows :: "(string \<Rightarrow> bool) \<Rightarrow> inv_row list \<Rightarrow> row list" where
  "infra_rows P rows = map infra_row (filter (\<lambda>r. P (iv_type r)) rows)"

definition infra_builder :: builder where
  "infra_builder rows = (let g = build_infra_graph
       \<lparr>ii_resources = infra_rows (\<lambda>t. t \<notin> set NET_TYPES) rows, ii_vpcs = infra_rows (\<lambda>t. t = ''vpc'') rows,
        ii_subnets = infra_rows (\<lambda>t. t = ''subnet'') rows, ii_groups = infra_rows (\<lambda>t. t = ''security_group'') rows\<rparr> in
     (map (\<lambda>n. \<lparr>gn_id = in_id n, gn_kind = in_kind n, gn_label = in_label n, gn_meta = in_meta n\<rparr>) (ig_nodes g),
      map (\<lambda>e. \<lparr>ge_source = ie_source e, ge_target = ie_target e, ge_rel = ie_rel e, ge_confidence = ''observed'',
        ge_meta = None\<rparr>) (ig_edges g)))"

definition rebuild_graph where
  "rebuild_graph parse gl = rebuild_inventory gl (flow_builder parse) Flow_Class"

definition rebuild_infra_graph where
  "rebuild_infra_graph gl = rebuild_inventory gl infra_builder Infra_Class"

section \<open>A layer of the graph\<close>

text \<open>
  What a run relies on of its builder: whatever the rows, the graph has distinct nodes, one edge per
  relation and no loose end. Then the run's transactions are steps of the store, and a key's graph
  changes only to the one built from a proven reading of its account.
\<close>

locale graph_layer =
  fixes build :: builder and cls :: graph_class
  assumes well_formed: "graph_ok (fst (build rows)) (snd (build rows))"
begin

definition rebuilt :: "graph_limits \<Rightarrow> string list \<Rightarrow> string \<Rightarrow> string \<Rightarrow> visit \<Rightarrow> graph_tables \<Rightarrow> bool" where
  "rebuilt gl types run account v st \<longleftrightarrow> (\<exists>db rows. vs_db v = Some db \<and>
     list_all (\<lambda>ty. proven account ty db) (inventory_types_for_account types account) \<and>
     mset rows = mset (rows_of_account (fields_of cls) account (inventory_types_for_account types account) db) \<and>
     holds_graph account cls (fst (build rows)) (snd (build rows)) run st)"

lemma empty_graph_ok: "graph_ok [] []"
  by (simp add: graph_ok_def)

lemma limited_publish: "ga_publish (limited_attempt gl g a) \<Longrightarrow> ga_publish a"
  by (auto simp: limited_attempt_def split: if_splits)

lemma unpublished_write:
  assumes "graph_tables_ok st" "\<not> ga_publish a" "graph_ok nodes edges" "write_graph t t' cls account nodes edges run a st = (res, st')"
  shows "graph_step st st' \<and> graph_tables_ok st' \<and> (\<forall>x c. evidence x c st' = evidence x c st)"
proof -
  note w = write_graph_spec [OF assms(1,3) _ assms(4)]
  have "graph_step st st'" using assms by (intro Rebuilt [OF assms(3) _ assms(4)]) simp
  moreover have "evidence x c st' = evidence x c st" for x c
    using w assms(2) by (cases "(x, c) = (account, cls)") (auto split: if_splits)
  ultimately show ?thesis using w assms(2) by blast
qed

lemma visit_account_spec:
  assumes ok: "graph_tables_ok st" "unused_run run account cls st"
    and run: "visit_account gl build cls run types v account ((tally, failed), st) = (p, st')"
  shows "graph_step st st' \<and> graph_tables_ok st' \<and> (\<forall>x c. (x, c) \<noteq> (account, cls) \<longrightarrow> evidence x c st' = evidence x c st) \<and>
    (evidence account cls st' = evidence account cls st \<or> rebuilt gl types run account v st')"
proof (cases "vs_db v")
  case None
  obtain res st1 where w: "write_graph (vs_tx v) (vs_tx2 v) cls account [] [] run (read_failure_attempt (vs_started v)) st = (res, st1)"
    by fastforce
  have "\<not> ga_publish (read_failure_attempt (vs_started v))" by (simp add: read_failure_attempt_def)
  from unpublished_write [OF ok(1) this empty_graph_ok w] show ?thesis
    using run None w by (simp add: visit_account_def)
next
  case (Some db)
  define tys where "tys = inventory_types_for_account types account"
  define sp where "sp = inventory_snapshot (gl_le gl) (gl_size gl) cls account tys db"
  define a where "a = inventory_attempt (vs_now v) sp tys account (vs_started v)"
  define g where "g = (if ga_publish a then build (sp_rows sp) else ([], []))"
  have work: "visit_work gl build cls types v account db = (sp, a, g)"
    by (simp add: visit_work_def Let_def tys_def sp_def a_def g_def)
  obtain res st1 where w: "write_graph (vs_tx v) (vs_tx2 v) cls account (fst g) (snd g) run (limited_attempt gl g a) st = (res, st1)"
    by fastforce
  have st1: "st' = st1"
    using run by (simp add: visit_account_def Some work w Let_def split: option.splits)
  have g: "graph_ok (fst g) (snd g)" using well_formed empty_graph_ok by (simp add: g_def)
  note spec = write_graph_spec [OF ok(1) g ok(2) w]
  have step: "graph_step st st'" unfolding st1 by (rule Rebuilt [OF g ok(2) w])
  show ?thesis
  proof (cases "\<exists>r. res = Some r \<and> rr_published r = 1")
    case True
    then have "ga_publish (limited_attempt gl g a)" "holds_graph account cls (fst g) (snd g) run st'"
      using spec st1 by auto
    then have pub: "ga_publish a" "holds_graph account cls (fst g) (snd g) run st'"
      using limited_publish [of gl g a] by blast+
    then have "list_all (\<lambda>ty. proven account ty db) tys" "mset (sp_rows sp) = mset (rows_of_account (fields_of cls) account tys db)"
      using publication_proven [of "vs_now v" "gl_le gl" "gl_size gl" cls account tys db "vs_started v"]
      by (simp_all add: a_def sp_def)
    moreover have "holds_graph account cls (fst (build (sp_rows sp))) (snd (build (sp_rows sp))) run st'"
      using pub by (simp add: g_def)
    ultimately have "rebuilt gl types run account v st'"
      unfolding rebuilt_def tys_def [symmetric] using Some by blast
    then show ?thesis using spec step st1 by auto
  next
    case False
    then show ?thesis using spec step st1 by auto
  qed
qed

lemma rebuilt_evidence:
  "rebuilt gl types run account v st \<Longrightarrow> evidence account cls st' = evidence account cls st \<Longrightarrow> rebuilt gl types run account v st'"
  by (simp add: rebuilt_def holds_graph_def evidence_def)

lemma unused_evidence:
  "unused_run run account cls st \<Longrightarrow> evidence account cls st' = evidence account cls st \<Longrightarrow> unused_run run account cls st'"
  by (simp add: unused_run_def evidence_def)

lemma visit_accounts_spec:
  assumes "graph_tables_ok st" "distinct (map fst avs)" "\<forall>av\<in>set avs. unused_run run (fst av) cls st"
    and "visit_accounts gl build cls run types started avs ((tally, failed), st) = (p, st')"
  shows "graph_step\<^sup>*\<^sup>* st st' \<and> graph_tables_ok st' \<and>
    (\<forall>x c. evidence x c st' = evidence x c st \<or> c = cls \<and> (\<exists>v. (x, v) \<in> set avs \<and> rebuilt gl types run x v st'))"
  using assms
proof (induction avs arbitrary: tally failed st)
  case (Cons av avs)
  obtain account v where av: "av = (account, v)" by fastforce
  show ?case
  proof (cases "DEADLINE_MS - 4000 \<le> vs_elapsed v")
    case True
    obtain res st1 where rec: "record_unattempted (vs_tx v) cls (account # map fst avs) started st = (res, st1)" by fastforce
    have "st' = st1" using Cons.prems(4) True av rec by (auto simp: Let_def split: option.splits bool.splits)
    moreover have "graph_step st st1" by (rule Unattempted [OF rec])
    ultimately show ?thesis using record_unattempted_spec [OF Cons.prems(1) rec] by blast
  next
    case False
    obtain q st1 where one: "visit_account gl build cls run types v account ((tally, failed), st) = (q, st1)" by fastforce
    have unused: "unused_run run account cls st" using Cons.prems(3) av by simp
    note first = visit_account_spec [OF Cons.prems(1) unused one]
    have rest: "visit_accounts gl build cls run types started avs (q, st1) = (p, st')"
      using Cons.prems(4) False av one by simp
    have others: "evidence (fst b) cls st1 = evidence (fst b) cls st" "unused_run run (fst b) cls st1" if "b \<in> set avs" for b
    proof -
      have "fst b \<noteq> account" using that Cons.prems(2) av by force
      then show "evidence (fst b) cls st1 = evidence (fst b) cls st" using first by simp
      then show "unused_run run (fst b) cls st1" using Cons.prems(3) that unused_evidence by auto
    qed
    obtain t1 f1 where q: "q = (t1, f1)" by fastforce
    have "distinct (map fst avs)" "graph_tables_ok st1" using Cons.prems(2) first by simp_all
    note tail = Cons.IH [OF this(2,1) _ rest [unfolded q]]
    have tail: "graph_step\<^sup>*\<^sup>* st1 st' \<and> graph_tables_ok st' \<and>
      (\<forall>x c. evidence x c st' = evidence x c st1 \<or> c = cls \<and> (\<exists>v. (x, v) \<in> set avs \<and> rebuilt gl types run x v st'))"
      using tail others by blast
    have "evidence x c st' = evidence x c st \<or> c = cls \<and> (\<exists>v. (x, v) \<in> set (av # avs) \<and> rebuilt gl types run x v st')" for x c
    proof (cases "evidence x c st' = evidence x c st1")
      case True
      then show ?thesis using first av rebuilt_evidence [of gl types run account v st1 st']
        by (cases "(x, c) = (account, cls)") auto
    next
      case False
      then show ?thesis using tail by auto
    qed
    moreover have "graph_step\<^sup>*\<^sup>* st st'" using first tail by (meson converse_rtranclp_into_rtranclp)
    ultimately show ?thesis using tail by blast
  qed
qed simp

lemma rebuild_spec:
  assumes "graph_tables_ok st" "distinct accounts" "\<And>account. unused_run run account cls st"
    and run: "rebuild_inventory gl build cls run types busy started txs (Accounts accounts) visits st = (res, st')"
  shows "graph_step\<^sup>*\<^sup>* st st' \<and>
    (\<forall>x c. evidence x c st' = evidence x c st \<or> c = cls \<and>
      (\<exists>i < length accounts. accounts ! i = x \<and> rebuilt gl types run x (visits i) st'))"
proof (cases busy)
  case True
  then show ?thesis using run by (simp add: rebuild_inventory_def)
next
  case False
  let ?sel = "take ACCOUNT_LIMIT accounts"
  let ?avs = "map (\<lambda>i. (?sel ! i, visits i)) [0..<length ?sel]"
  have names: "map fst ?avs = ?sel" by (rule nth_equalityI) simp_all
  obtain p where vis: "\<exists>tally. visit_accounts gl build cls run types started ?avs ((tally, False), st) = (p, st')"
    using run False by (auto simp: rebuild_inventory_def Let_def split: prod.splits)
  have "distinct (map fst ?avs)" unfolding names using assms(2) by simp
  with vis visit_accounts_spec [OF assms(1)] assms(3) have
    "graph_step\<^sup>*\<^sup>* st st' \<and> (\<forall>x c. evidence x c st' = evidence x c st \<or>
      c = cls \<and> (\<exists>v. (x, v) \<in> set ?avs \<and> rebuilt gl types run x v st'))" by blast
  then show ?thesis by fastforce
qed

end

section \<open>The flow and infrastructure layers\<close>

lemma flow_builder_ok: "graph_ok (fst (flow_builder parse rows)) (snd (flow_builder parse rows))"
proof -
  let ?g = "build_flow_graph parse (flow_input_of rows)"
  have wf: "distinct (map fn_id (fg_nodes ?g))" "distinct (map fe_id (fg_edges ?g))"
    "\<And>e. e \<in> set (fg_edges ?g) \<Longrightarrow> fe_id e = edge_id (fe_source e) (fe_target e) \<and>
      fe_source e \<in> fn_id ` set (fg_nodes ?g) \<and> fe_target e \<in> fn_id ` set (fg_nodes ?g)"
    using build_flow_wf [of parse "flow_input_of rows"] by (auto simp: flow_wf_def node_ids_def)
  have "inj_on (\<lambda>e. (fe_source e, fe_target e)) (set (fg_edges ?g))"
    using wf(2,3) unfolding distinct_map inj_on_def by (metis Pair_inject)
  then show ?thesis using wf
    by (auto simp: flow_builder_def Let_def graph_ok_def comp_def edge_triple_def distinct_map inj_on_def image_image)
qed

lemma infra_builder_ok: "graph_ok (fst (infra_builder rows)) (snd (infra_builder rows))"
proof -
  let ?g = "build_infra_graph \<lparr>ii_resources = infra_rows (\<lambda>t. t \<notin> set NET_TYPES) rows,
    ii_vpcs = infra_rows (\<lambda>t. t = ''vpc'') rows, ii_subnets = infra_rows (\<lambda>t. t = ''subnet'') rows,
    ii_groups = infra_rows (\<lambda>t. t = ''security_group'') rows\<rparr>"
  have wf: "distinct (map in_id (ig_nodes ?g))" "distinct (map ie_id (ig_edges ?g))"
    "\<And>e. e \<in> set (ig_edges ?g) \<Longrightarrow> ie_id e = infra_edge_id (ie_source e) (ie_target e) (ie_rel e) \<and>
      ie_source e \<in> in_id ` set (ig_nodes ?g) \<and> ie_target e \<in> in_id ` set (ig_nodes ?g)"
    using build_infra_spec(1) unfolding infra_wf_def by blast+
  have "inj_on (\<lambda>e. (ie_source e, ie_target e, ie_rel e)) (set (ig_edges ?g))"
    using wf(2,3) unfolding distinct_map inj_on_def by (metis Pair_inject)
  then show ?thesis using wf
    by (auto simp: infra_builder_def Let_def graph_ok_def comp_def edge_triple_def distinct_map inj_on_def image_image)
qed

interpretation flow_layer: graph_layer "flow_builder parse" Flow_Class for parse
  by unfold_locales (rule flow_builder_ok)

interpretation infra_layer: graph_layer infra_builder Infra_Class
  by unfold_locales (rule infra_builder_ok)

lemma distinct_accounts: "distinct (inventory_accounts le cls types members db st)"
  unfolding inventory_accounts_def by (intro distinct_take distinct_sort_le [THEN iffD2] distinct_js_set)

lemma reachable_steps: "graph_step\<^sup>*\<^sup>* st st' \<Longrightarrow> graph_reachable st \<Longrightarrow> graph_reachable st'"
  by (induction rule: rtranclp_induct) (auto intro: graph_next)

text \<open>
  C13. A rebuild of the flow graph replaces what is stored only by what the inventory proves. It is a
  sequence of the store's transactions, so no reader sees a graph in pieces; the graphs, capture
  times and sources of the other classes stay as they are; and each account of the class keeps its
  evidence exactly, unless the run visited it, its ledger accounted for every type of the class, and
  the stored graph is now the flow graph of every row the account has, under the run's id.
\<close>

theorem rebuild_replaces_only_proven_graphs:
  assumes "graph_reachable st" "\<And>account. unused_run run account Flow_Class st"
    and "rebuild_graph parse gl run FLOW_TYPES busy started txs
      (Accounts (inventory_accounts le Flow_Class FLOW_TYPES members db0 st)) visits st = (out, st')"
  shows "graph_reachable st' \<and> (\<forall>x c. evidence x c st' = evidence x c st \<or> c = Flow_Class \<and>
    (\<exists>i db rows. x = inventory_accounts le Flow_Class FLOW_TYPES members db0 st ! i \<and> vs_db (visits i) = Some db \<and>
      list_all (\<lambda>ty. proven x ty db) (inventory_types_for_account FLOW_TYPES x) \<and>
      mset rows = mset (rows_of_account FLOW_FIELDS x (inventory_types_for_account FLOW_TYPES x) db) \<and>
      holds_graph x Flow_Class (fst (flow_builder parse rows)) (snd (flow_builder parse rows)) run st'))"
proof -
  have "graph_tables_ok st" using graph_reachable_ok [OF assms(1)] by blast
  from flow_layer.rebuild_spec [OF this distinct_accounts assms(2) assms(3) [unfolded rebuild_graph_def]]
  have steps: "graph_step\<^sup>*\<^sup>* st st'" and ev: "\<forall>x c. evidence x c st' = evidence x c st \<or> c = Flow_Class \<and>
      (\<exists>i < length (inventory_accounts le Flow_Class FLOW_TYPES members db0 st).
        inventory_accounts le Flow_Class FLOW_TYPES members db0 st ! i = x \<and>
        flow_layer.rebuilt parse gl FLOW_TYPES run x (visits i) st')"
    by blast+
  have "graph_reachable st'" using reachable_steps [OF steps assms(1)] .
  moreover have "fields_of Flow_Class = FLOW_FIELDS" by (simp add: fields_of_def)
  ultimately show ?thesis using ev unfolding flow_layer.rebuilt_def by metis
qed

text \<open>A rebuild of the host account's flow graph from an inventory of one load balancer.\<close>

definition host_rebuild :: "rebuild_outcome \<times> graph_tables" where
  "host_rebuild = rebuild_graph (\<lambda>_. None) \<lparr>gl_le = \<lambda>_ _. True, gl_size = \<lambda>_. 10, gl_bytes = \<lambda>_. 100\<rparr> ''run-1'' FLOW_TYPES
     False 90 (good_tx, good_tx) (Accounts (inventory_accounts (\<lambda>_ _. True) Flow_Class FLOW_TYPES [] one_lb_db no_graphs))
     (\<lambda>_. \<lparr>vs_elapsed = 10, vs_started = 90, vs_now = 100, vs_db = Some one_lb_db, vs_tx = good_tx, vs_tx2 = good_tx\<rparr>) no_graphs"

theorem rebuild_replaces_only_proven_graphs_witness:
  "graph_reachable (snd host_rebuild) \<and> nodes_at ''self'' Infra_Class (snd host_rebuild) = {}"
proof -
  have start: "graph_reachable no_graphs" using graph_init by (simp add: no_graphs_def)
  have unused: "unused_run ''run-1'' x Flow_Class no_graphs" for x
    by (simp add: unused_run_def no_graphs_def nodes_at_def edges_at_def)
  note run = rebuild_replaces_only_proven_graphs [OF start unused
    trans [OF host_rebuild_def [symmetric] prod.collapse [symmetric]]]
  have "evidence ''self'' Infra_Class (snd host_rebuild) = evidence ''self'' Infra_Class no_graphs"
    using conjunct2 [OF run, THEN spec, THEN spec, of "''self''" Infra_Class] by (simp only: graph_class.distinct simp_thms)
  then have "nodes_at ''self'' Infra_Class (snd host_rebuild) = nodes_at ''self'' Infra_Class no_graphs"
    by (simp only: evidence_def prod.inject)
  moreover have "nodes_at ''self'' Infra_Class no_graphs = {}" by (simp add: nodes_at_def no_graphs_def)
  ultimately show ?thesis using conjunct1 [OF run] by (simp only: simp_thms)
qed

end
