(* ===== verification/Trace_Graph.thy ===== *)
theory Trace_Graph
  imports Graph_Store Infra_Topology
begin

text \<open>
  The graph of observed calls (\<^verbatim>\<open>web/lib/trace-graph.ts\<close>, \<^verbatim>\<open>web/lib/trace-evidence.ts\<close>): services,
  databases, workloads and queues from the spans and service-graph metrics of the datasources. The
  SHA-256 digest of a scope and a name is an argument; a duration and a call count are whole numbers.
\<close>

section \<open>Observations\<close>

record trace_identity =
  ti_source :: "string option"
  ti_account :: "string option"
  ti_region :: "string option"
  ti_environment :: "string option"
  ti_namespace :: "string option"
  ti_k8s_namespace :: "string option"
  ti_cluster :: "string option"

record trace_span =
  tp_identity :: trace_identity
  tp_trace :: string
  tp_span :: string
  tp_parent :: "string option"
  tp_service :: string
  tp_kind :: string
  tp_status :: "string option"
  tp_links :: "(string \<times> string) list"
  tp_messaging :: "string option"
  tp_destination :: "string option"
  tp_broker :: "string option"
  tp_db :: "string option"
  tp_db_name :: "string option"
  tp_db_host :: "string option"
  tp_pod :: "string option"
  tp_deployment :: "string option"
  tp_duration :: int

record service_call =
  ca_client :: string
  ca_server :: string
  ca_count :: int
  ca_client_identity :: "trace_identity option"
  ca_server_identity :: "trace_identity option"

definition no_identity :: trace_identity where
  "no_identity = \<lparr>ti_source = None, ti_account = None, ti_region = None, ti_environment = None,
     ti_namespace = None, ti_k8s_namespace = None, ti_cluster = None\<rparr>"

text \<open>\<open>v ?? d\<close>, \<open>v ?? null\<close> and the truth of an optional string.\<close>

definition text_or :: "string \<Rightarrow> string option \<Rightarrow> string" where
  "text_or d v = (case v of None \<Rightarrow> d | Some s \<Rightarrow> s)"

definition or_null :: "string option \<Rightarrow> js" where
  "or_null v = (case v of None \<Rightarrow> JNull | Some s \<Rightarrow> JStr s)"

definition has_value :: "string option \<Rightarrow> bool" where
  "has_value v \<longleftrightarrow> v \<noteq> None \<and> v \<noteq> Some []"

section \<open>Identity\<close>

definition trace_scope :: "trace_identity \<Rightarrow> string list" where
  "trace_scope i = map (text_or []) [ti_source i, ti_account i, ti_region i, ti_environment i,
     ti_namespace i, ti_cluster i, ti_k8s_namespace i]"

type_synonym digest = "string list \<Rightarrow> string list \<Rightarrow> string"

definition node_id :: "digest \<Rightarrow> string \<Rightarrow> trace_identity \<Rightarrow> string list \<Rightarrow> string" where
  "node_id digest kind i name = kind @ '':'' @ digest (trace_scope i) name"

definition service_id :: "digest \<Rightarrow> string \<Rightarrow> trace_identity \<Rightarrow> string" where
  "service_id digest service i = node_id digest ''svc'' i [service]"

definition resource_scope :: "trace_identity \<Rightarrow> trace_identity" where
  "resource_scope i = no_identity\<lparr>ti_source := ti_source i, ti_account := ti_account i, ti_region := ti_region i,
     ti_environment := ti_environment i\<rparr>"

definition span_key_of :: "string option \<Rightarrow> string \<Rightarrow> string \<Rightarrow> string \<times> string \<times> string" where
  "span_key_of source trace span = (text_or [] source, trace, span)"

definition span_key :: "trace_span \<Rightarrow> string \<times> string \<times> string" where
  "span_key s = span_key_of (ti_source (tp_identity s)) (tp_trace s) (tp_span s)"

definition resolve_infra_ref :: "string option \<Rightarrow> (string \<times> js_object) list \<Rightarrow> string option" where
  "resolve_infra_ref host infra = (if \<not> has_value host then None
     else (let h = lower (text_or [] host) in
       map_option fst (List.find (\<lambda>(_, meta). let c = lower (str (field meta ''host'')) in
         c \<noteq> [] \<and> (c = h \<or> starts_with (h @ ''.'') c)) infra)))"

section \<open>Queues\<close>

definition queue_arn_char :: "char \<Rightarrow> bool" where
  "queue_arn_char c \<longleftrightarrow> 97 \<le> (of_char c :: nat) \<and> (of_char c :: nat) \<le> 122 \<or> is_digit c \<or> c = CHR ''-''"

definition twelve_digits :: "string \<Rightarrow> bool" where
  "twelve_digits s \<longleftrightarrow> length s = 12 \<and> list_all is_digit s"

text \<open>Account and region of a destination that is an ARN.\<close>

definition queue_destination_arn :: "js \<Rightarrow> (string \<times> string option) option" where
  "queue_destination_arn v = (case v of
      JStr s \<Rightarrow> (case split_on CHR '':'' (trim s) of
          arn # part # service # region # account # rest \<Rightarrow>
            if arn = ''arn'' \<and> part \<noteq> [] \<and> list_all queue_arn_char part \<and> service \<noteq> [] \<and> list_all queue_arn_char service \<and>
               list_all queue_arn_char region \<and> twelve_digits account \<and> join_with '':'' rest \<noteq> [] \<and>
               list_all (\<lambda>c. \<not> is_space c) (join_with '':'' rest)
            then Some (account, if region = [] then None else Some region) else None
        | _ \<Rightarrow> None)
    | _ \<Rightarrow> None)"

definition queue_claim_meta :: "js_object \<Rightarrow> js_object" where
  "queue_claim_meta meta = (let claim = queue_destination_arn (field meta ''destination'') in
     spread (filter (\<lambda>(k, _). k \<notin> {''accountId'', ''region'', ''infra_ref'', ''claimedAccountId'', ''claimedRegion''}) meta)
       [(''claimedAccountId'', or_null (map_option fst claim)),
        (''claimedRegion'', or_null (case claim of None \<Rightarrow> None | Some (_, r) \<Rightarrow> r)),
        (''identityProvenance'', JStr ''telemetry_claim'')])"

section \<open>The graph in progress\<close>

record service_counts =
  sn_spans :: nat
  sn_errors :: nat
  sn_unknown :: nat
  sn_duration :: int
  sn_traces :: "string list"

datatype trace_meta = Service_Meta js_object service_counts | Workload_Meta js_object "string list" | Plain_Meta js_object

record trace_node =
  xn_kind :: string
  xn_label :: string
  xn_meta :: trace_meta

text \<open>Nodes and edges are \<open>Map\<close>s; an edge keeps its counts of spans and of metric calls.\<close>

type_synonym edge_name = "string \<times> string \<times> string"

record trace_state =
  xs_nodes :: "(string \<times> trace_node) list"
  xs_edges :: "(edge_name \<times> nat \<times> int) list"
  xs_orphans :: nat
  xs_unresolved :: nat

definition service_meta :: "string \<Rightarrow> trace_identity \<Rightarrow> trace_meta" where
  "service_meta service i = Service_Meta
     [(''service'', JStr service), (''sourceId'', or_null (ti_source i)), (''accountId'', or_null (ti_account i)),
      (''region'', or_null (ti_region i)), (''environment'', or_null (ti_environment i)),
      (''serviceNamespace'', or_null (ti_namespace i)), (''cluster'', or_null (ti_cluster i)),
      (''namespace'', or_null (ti_k8s_namespace i))]
     \<lparr>sn_spans = 0, sn_errors = 0, sn_unknown = 0, sn_duration = 0, sn_traces = []\<rparr>"

definition service_node :: "digest \<Rightarrow> string \<Rightarrow> trace_identity \<Rightarrow> trace_state \<Rightarrow> trace_state" where
  "service_node digest service i st = (let sid = service_id digest service i in
     if sid \<in> fst ` set (xs_nodes st) then st
     else st\<lparr>xs_nodes := xs_nodes st @ [(sid, \<lparr>xn_kind = ''service'', xn_label = take 240 service, xn_meta = service_meta service i\<rparr>)]\<rparr>)"

definition trace_edge :: "string \<Rightarrow> string \<Rightarrow> string \<Rightarrow> nat \<Rightarrow> int \<Rightarrow> trace_state \<Rightarrow> trace_state" where
  "trace_edge source target rel spans metrics st = st\<lparr>xs_edges := AList.update (source, target, rel)
     (case map_of (xs_edges st) (source, target, rel) of
        None \<Rightarrow> (spans, metrics) | Some (n, m) \<Rightarrow> (n + spans, m + metrics)) (xs_edges st)\<rparr>"

definition counted_span :: "trace_span \<Rightarrow> trace_meta \<Rightarrow> trace_meta" where
  "counted_span s m = (case m of
      Service_Meta about c \<Rightarrow> Service_Meta about
        \<lparr>sn_spans = sn_spans c + 1, sn_errors = (if tp_status s = Some ''error'' then sn_errors c + 1 else sn_errors c),
         sn_unknown = (if \<not> has_value (tp_status s) \<or> tp_status s = Some ''unset'' then sn_unknown c + 1 else sn_unknown c),
         sn_duration = sn_duration c + max 0 (tp_duration s),
         sn_traces = (if length (sn_traces c) < 20 then js_add (tp_trace s) (sn_traces c) else sn_traces c)\<rparr>
    | _ \<Rightarrow> m)"

definition own_service :: "digest \<Rightarrow> trace_span \<Rightarrow> string" where
  "own_service digest s = service_id digest (tp_service s) (tp_identity s)"

definition count_span :: "digest \<Rightarrow> trace_span \<Rightarrow> trace_state \<Rightarrow> trace_state" where
  "count_span digest s st = (let st = service_node digest (tp_service s) (tp_identity s) st in
     st\<lparr>xs_nodes := map (\<lambda>(k, n). (k, if k = own_service digest s then n\<lparr>xn_meta := counted_span s (xn_meta n)\<rparr> else n)) (xs_nodes st)\<rparr>)"

text \<open>\<open>by_id\<close> holds the valid spans by source, trace and id.\<close>

type_synonym span_index = "((string \<times> string \<times> string) \<times> trace_span) list"

definition span_at :: "span_index \<Rightarrow> trace_span \<Rightarrow> string \<Rightarrow> string \<Rightarrow> trace_span option" where
  "span_at by_id s trace span = map_of by_id (span_key_of (ti_source (tp_identity s)) trace span)"

definition join_span :: "digest \<Rightarrow> string \<Rightarrow> trace_span \<Rightarrow> trace_span option \<Rightarrow> trace_state \<Rightarrow> trace_state" where
  "join_span digest rel s other st = (case other of
      None \<Rightarrow> st\<lparr>xs_orphans := xs_orphans st + 1\<rparr>
    | Some p \<Rightarrow> (let st = service_node digest (tp_service p) (tp_identity p) st in
        if own_service digest p \<noteq> own_service digest s
        then trace_edge (own_service digest p) (own_service digest s) rel 1 0 st else st))"

definition parent_step :: "digest \<Rightarrow> span_index \<Rightarrow> trace_span \<Rightarrow> trace_state \<Rightarrow> trace_state" where
  "parent_step digest by_id s st = (if \<not> has_value (tp_parent s) then st
     else join_span digest ''calls'' s (span_at by_id s (tp_trace s) (text_or [] (tp_parent s))) st)"

definition link_step :: "digest \<Rightarrow> span_index \<Rightarrow> trace_span \<Rightarrow> trace_state \<Rightarrow> trace_state" where
  "link_step digest by_id s st =
     foldl (\<lambda>st (trace, span). join_span digest ''linked'' s (span_at by_id s trace span) st) st (tp_links s)"

definition set_node :: "string \<Rightarrow> string \<Rightarrow> string \<Rightarrow> trace_meta \<Rightarrow> trace_state \<Rightarrow> trace_state" where
  "set_node i kind label meta st =
     st\<lparr>xs_nodes := AList.update i \<lparr>xn_kind = kind, xn_label = label, xn_meta = meta\<rparr> (xs_nodes st)\<rparr>"

definition on_host :: "string \<Rightarrow> trace_span \<Rightarrow> bool" where
  "on_host host s \<longleftrightarrow> (let a = ti_account (tp_identity s) in
     \<not> has_value a \<or> a = Some ''self'' \<or> twelve_digits host \<and> a = Some host)"

definition db_step :: "digest \<Rightarrow> (string \<times> js_object) list \<Rightarrow> string \<Rightarrow> trace_span \<Rightarrow> trace_state \<Rightarrow> trace_state" where
  "db_step digest infra host s st = (if \<not> has_value (tp_db s) then st
     else (let name = text_or [] (tp_db s) @ '':'' @ text_or ''unknown'' (tp_db_host s) @ ''/'' @ text_or [] (tp_db_name s);
               i = node_id digest ''db'' (resource_scope (tp_identity s)) [name];
               ref = (if on_host host s then resolve_infra_ref (tp_db_host s) infra else None)
           in trace_edge (own_service digest s) i ''queries'' 1 0
             (set_node i ''db'' name (Plain_Meta
               ([(''system'', or_null (tp_db s)), (''host'', or_null (tp_db_host s)), (''dbName'', or_null (tp_db_name s)),
                 (''sourceId'', or_null (ti_source (tp_identity s))), (''environment'', or_null (ti_environment (tp_identity s)))] @
                (if has_value ref then [(''infra_ref'', or_null ref)] else []))) st)))"

definition add_workload_pod :: "string option \<Rightarrow> trace_meta \<Rightarrow> trace_meta" where
  "add_workload_pod pod m = (case m of
      Workload_Meta about pods \<Rightarrow> Workload_Meta about (if has_value pod then js_add (text_or [] pod) pods else pods)
    | _ \<Rightarrow> m)"

definition workload_step :: "digest \<Rightarrow> trace_span \<Rightarrow> trace_state \<Rightarrow> trace_state" where
  "workload_step digest s st = (let ns = ti_k8s_namespace (tp_identity s) in
     if \<not> has_value ns \<or> \<not> has_value (tp_deployment s) then st
     else (let name = text_or [] ns @ ''/'' @ text_or [] (tp_deployment s);
               i = node_id digest ''workload'' (tp_identity s) [name];
               st = (if i \<in> fst ` set (xs_nodes st) then st
                 else set_node i ''workload'' name (Workload_Meta
                   [(''namespace'', or_null ns), (''deployment'', or_null (tp_deployment s)),
                    (''cluster'', or_null (ti_cluster (tp_identity s))), (''environment'', or_null (ti_environment (tp_identity s))),
                    (''sourceId'', or_null (ti_source (tp_identity s)))] []) st);
               st = st\<lparr>xs_nodes := map (\<lambda>(k, n). (k, if k = i then n\<lparr>xn_meta := add_workload_pod (tp_pod s) (xn_meta n)\<rparr> else n)) (xs_nodes st)\<rparr>
           in trace_edge (own_service digest s) i ''runs_on'' 1 0 st))"

text \<open>The name of a queue: its system, its broker when the destination does not qualify it, and itself.\<close>

definition queue_step :: "digest \<Rightarrow> trace_span \<Rightarrow> trace_state \<Rightarrow> trace_state" where
  "queue_step digest s st = (if \<not> has_value (tp_messaging s) \<or> \<not> has_value (tp_destination s) then st
     else (let i0 = tp_identity s; destination = trim (text_or [] (tp_destination s));
               qualified = queue_destination_arn (JStr destination)
           in if qualified = None \<and> \<not> has_value (tp_broker s) then st\<lparr>xs_unresolved := xs_unresolved st + 1\<rparr>
           else (let identity = (case qualified of
                       Some (account, region) \<Rightarrow> no_identity\<lparr>ti_source := ti_source i0, ti_environment := ti_environment i0,
                         ti_region := Some (text_or [] region), ti_account := Some account\<rparr>
                     | None \<Rightarrow> (resource_scope i0)\<lparr>ti_cluster := ti_cluster i0,
                         ti_k8s_namespace := (if contains ''.'' (text_or [] (tp_broker s)) then None else ti_k8s_namespace i0)\<rparr>);
                     broker = (if qualified = None then or_null (tp_broker s) else JNull);
                     i = node_id digest ''queue'' identity
                       [text_or [] (tp_messaging s), text_or [] (if qualified = None then tp_broker s else None), destination];
                     st = set_node i ''queue'' (text_or [] (tp_messaging s) @ '':'' @ destination) (Plain_Meta (queue_claim_meta
                       [(''system'', or_null (tp_messaging s)), (''destination'', JStr destination), (''broker'', broker),
                        (''cluster'', if qualified = None then or_null (ti_cluster i0) else JNull),
                        (''sourceId'', or_null (ti_source i0)), (''environment'', or_null (ti_environment i0))])) st;
                     st = (if tp_kind s = ''PRODUCER'' then trace_edge (own_service digest s) i ''publishes'' 1 0 st else st)
                 in if tp_kind s = ''CONSUMER'' then trace_edge i (own_service digest s) ''consumes'' 1 0 st else st)))"

definition span_step ::
  "digest \<Rightarrow> span_index \<Rightarrow> (string \<times> js_object) list \<Rightarrow> string \<Rightarrow> trace_state \<Rightarrow> trace_span \<Rightarrow> trace_state" where
  "span_step digest by_id infra host st s = queue_step digest s (workload_step digest s (db_step digest infra host s
     (link_step digest by_id s (parent_step digest by_id s (count_span digest s st)))))"

definition identity_or_none :: "trace_identity option \<Rightarrow> trace_identity" where
  "identity_or_none i = (case i of None \<Rightarrow> no_identity | Some i \<Rightarrow> i)"

definition caller_of :: "digest \<Rightarrow> service_call \<Rightarrow> string" where
  "caller_of digest c = service_id digest (ca_client c) (identity_or_none (ca_client_identity c))"

definition callee_of :: "digest \<Rightarrow> service_call \<Rightarrow> string" where
  "callee_of digest c = service_id digest (ca_server c) (identity_or_none (ca_server_identity c))"

definition call_step :: "digest \<Rightarrow> trace_state \<Rightarrow> service_call \<Rightarrow> trace_state" where
  "call_step digest st c = (if ca_count c \<le> 0 then st
     else trace_edge (caller_of digest c) (callee_of digest c) ''calls'' 0 (ca_count c)
       (service_node digest (ca_server c) (identity_or_none (ca_server_identity c))
         (service_node digest (ca_client c) (identity_or_none (ca_client_identity c)) st)))"

definition valid_span :: "trace_span \<Rightarrow> bool" where
  "valid_span s \<longleftrightarrow> tp_trace s \<noteq> [] \<and> tp_span s \<noteq> [] \<and> tp_service s \<noteq> []"

definition span_index_of :: "trace_span list \<Rightarrow> span_index" where
  "span_index_of spans = js_map span_key (filter valid_span spans)"

definition no_trace :: trace_state where
  "no_trace = \<lparr>xs_nodes = [], xs_edges = [], xs_orphans = 0, xs_unresolved = 0\<rparr>"

record trace_graph =
  xg_state :: trace_state
  xg_invalid :: nat

definition build_trace_graph ::
  "digest \<Rightarrow> trace_span list \<Rightarrow> service_call list \<Rightarrow> (string \<times> js_object) list \<Rightarrow> string \<Rightarrow> trace_graph" where
  "build_trace_graph digest spans calls infra host = (let by_id = span_index_of spans in
     \<lparr>xg_state = foldl (call_step digest) (foldl (span_step digest by_id infra host) no_trace (map snd by_id)) calls,
      xg_invalid = length (filter (\<lambda>s. \<not> valid_span s) spans)\<rparr>)"

section \<open>Well-formedness\<close>

definition trace_ids :: "trace_state \<Rightarrow> string set" where
  "trace_ids st = fst ` set (xs_nodes st)"

definition sound_edge :: "string set \<Rightarrow> edge_name \<times> nat \<times> int \<Rightarrow> bool" where
  "sound_edge ids e \<longleftrightarrow> (case e of ((s, t, r), n, m) \<Rightarrow> s \<in> ids \<and> t \<in> ids \<and> 0 \<le> m \<and> 0 < int n + m)"

definition trace_wf :: "trace_state \<Rightarrow> bool" where
  "trace_wf st \<longleftrightarrow> distinct (map fst (xs_nodes st)) \<and> distinct (map fst (xs_edges st)) \<and>
     (\<forall>e\<in>set (xs_edges st). sound_edge (trace_ids st) e)"

lemma map_nodes_keep [simp]:
  "fst ` set (map (\<lambda>(k, n). (k, f k n)) xs) = fst ` set xs" "map fst (map (\<lambda>(k, n). (k, f k n)) xs) = map fst xs"
  by (force simp: image_image case_prod_beta, simp add: comp_def case_prod_beta)

named_theorems trace_frames \<open>what a step leaves of the nodes and edges\<close>

lemma service_node_frame [trace_frames]:
  "trace_ids (service_node digest service i st) = insert (service_id digest service i) (trace_ids st)"
  "xs_edges (service_node digest service i st) = xs_edges st"
  by (auto simp: service_node_def Let_def trace_ids_def)

lemma set_node_frame [trace_frames]:
  "trace_ids (set_node i kind label meta st) = insert i (trace_ids st)" "xs_edges (set_node i kind label meta st) = xs_edges st"
  by (auto simp: set_node_def trace_ids_def dom_update)

lemma trace_edge_frame [trace_frames]:
  "trace_ids (trace_edge s t r n m st) = trace_ids st" "xs_nodes (trace_edge s t r n m st) = xs_nodes st"
  by (simp_all add: trace_edge_def trace_ids_def)

lemma count_span_frame [trace_frames]:
  "trace_ids (count_span digest s st) = insert (own_service digest s) (trace_ids st)" "xs_edges (count_span digest s st) = xs_edges st"
  using service_node_frame [of digest "tp_service s" "tp_identity s" st]
  by (simp_all add: count_span_def Let_def trace_ids_def own_service_def del: set_map)

lemma sound_edge_mono: "ids \<subseteq> ids' \<Longrightarrow> sound_edge ids e \<Longrightarrow> sound_edge ids' e"
  by (auto simp: sound_edge_def)

lemma wf_more: "xs_edges st' = xs_edges st \<Longrightarrow> trace_ids st \<subseteq> trace_ids st' \<Longrightarrow> distinct (map fst (xs_nodes st')) \<Longrightarrow> trace_wf st \<Longrightarrow> trace_wf st'"
  using sound_edge_mono by (fastforce simp: trace_wf_def)

lemma wf_service_node: "trace_wf st \<Longrightarrow> trace_wf (service_node digest service i st)"
  by (rule wf_more [OF service_node_frame(2)]) (auto simp: trace_frames, auto simp: service_node_def trace_wf_def Let_def)

lemma wf_set_node: "trace_wf st \<Longrightarrow> trace_wf (set_node i kind label meta st)"
  by (rule wf_more [OF set_node_frame(2)]) (auto simp: trace_frames, auto simp: set_node_def trace_wf_def distinct_update)

lemma wf_map_nodes: "trace_wf st \<Longrightarrow> trace_wf (st\<lparr>xs_nodes := map (\<lambda>(k, n). (k, f k n)) (xs_nodes st)\<rparr>)"
  by (rule wf_more [of _ st]) (auto simp: trace_ids_def trace_wf_def simp del: set_map map_map)

lemma wf_trace_edge:
  assumes "trace_wf st" "s \<in> trace_ids st" "t \<in> trace_ids st" "0 \<le> m" "0 < int n + m"
  shows "trace_wf (trace_edge s t r n m st)"
proof -
  obtain c where c: "xs_edges (trace_edge s t r n m st) = AList.update (s, t, r) c (xs_edges st)" "0 \<le> snd c" "0 < int (fst c) + snd c"
  proof (cases "map_of (xs_edges st) (s, t, r)")
    case None
    then show ?thesis using that [of "(n, m)"] assms(4,5) by (simp add: trace_edge_def)
  next
    case (Some c)
    then have "((s, t, r), c) \<in> set (xs_edges st)" by (rule map_of_SomeD)
    then have "0 \<le> snd c \<and> 0 < int (fst c) + snd c" using assms(1) by (cases c) (fastforce simp: trace_wf_def sound_edge_def)
    then show ?thesis using Some that [of "(fst c + n, snd c + m)"] assms(4,5) by (cases c) (simp add: trace_edge_def)
  qed
  have "sound_edge (trace_ids st) x" if "x \<in> set (AList.update (s, t, r) c (xs_edges st))" for x
    using alist_update_in [OF that] assms(1-3) c(2,3) by (cases c) (auto simp: trace_wf_def sound_edge_def)
  then show ?thesis using assms(1) c(1) by (simp add: trace_wf_def trace_frames distinct_update)
qed

text \<open>Each step keeps well-formedness, the nodes there were and the span's own service.\<close>

definition kept_by :: "(trace_state \<Rightarrow> trace_state) \<Rightarrow> string \<Rightarrow> bool" where
  "kept_by f sid \<longleftrightarrow> (\<forall>st. trace_wf st \<longrightarrow> sid \<in> trace_ids st \<longrightarrow> trace_wf (f st) \<and> sid \<in> trace_ids (f st))"

lemma kept_join: "kept_by (join_span digest rel s other) (own_service digest s)"
  by (auto simp: kept_by_def join_span_def Let_def trace_frames own_service_def wf_service_node
      intro!: wf_trace_edge split: option.splits) (auto simp: trace_wf_def trace_ids_def)

lemma kept_comp: "kept_by f sid \<Longrightarrow> kept_by g sid \<Longrightarrow> kept_by (\<lambda>st. g (f st)) sid"
  by (simp add: kept_by_def)

lemma kept_parent: "kept_by (parent_step digest by_id s) (own_service digest s)"
  using kept_join by (auto simp: parent_step_def kept_by_def)

lemma kept_links: "kept_by (link_step digest by_id s) (own_service digest s)"
proof -
  have "kept_by (\<lambda>st. foldl (\<lambda>st (trace, span). join_span digest ''linked'' s (span_at by_id s trace span) st) st ls) (own_service digest s)" for ls
  proof (induction ls)
    case (Cons l ls)
    then show ?case using kept_join by (cases l) (simp add: kept_by_def)
  qed (simp add: kept_by_def)
  then show ?thesis unfolding link_step_def .
qed

lemma kept_set_edge:
  "\<lbrakk>trace_wf st; s \<in> trace_ids st; t \<in> trace_ids st\<rbrakk> \<Longrightarrow> trace_wf (trace_edge s t r (Suc 0) 0 st) \<and> trace_ids (trace_edge s t r (Suc 0) 0 st) = trace_ids st"
  by (simp add: wf_trace_edge trace_frames)

lemma kept_db: "kept_by (db_step digest infra host s) (own_service digest s)"
  by (auto simp: kept_by_def db_step_def Let_def kept_set_edge wf_set_node trace_frames)

lemma kept_map_nodes:
  "trace_wf st \<Longrightarrow> trace_wf (st\<lparr>xs_nodes := map (\<lambda>(k, n). (k, f k n)) (xs_nodes st)\<rparr>) \<and>
    trace_ids (st\<lparr>xs_nodes := map (\<lambda>(k, n). (k, f k n)) (xs_nodes st)\<rparr>) = trace_ids st"
  using wf_map_nodes by (simp add: trace_ids_def del: set_map)

lemma kept_workload: "kept_by (workload_step digest s) (own_service digest s)"
proof -
  define name where "name = text_or [] (ti_k8s_namespace (tp_identity s)) @ ''/'' @ text_or [] (tp_deployment s)"
  define i where "i = node_id digest ''workload'' (tp_identity s) [name]"
  have "trace_wf (workload_step digest s st) \<and> own_service digest s \<in> trace_ids (workload_step digest s st)"
    if st: "trace_wf st" "own_service digest s \<in> trace_ids st" for st
  proof -
    define st1 where "st1 = (if i \<in> fst ` set (xs_nodes st) then st
      else set_node i ''workload'' name (Workload_Meta
        [(''namespace'', or_null (ti_k8s_namespace (tp_identity s))), (''deployment'', or_null (tp_deployment s)),
         (''cluster'', or_null (ti_cluster (tp_identity s))), (''environment'', or_null (ti_environment (tp_identity s))),
         (''sourceId'', or_null (ti_source (tp_identity s)))] []) st)"
    define st2 where "st2 = st1\<lparr>xs_nodes := map (\<lambda>(k, n). (k, if k = i then n\<lparr>xn_meta := add_workload_pod (tp_pod s) (xn_meta n)\<rparr> else n)) (xs_nodes st1)\<rparr>"
    have st1: "trace_wf st1" "own_service digest s \<in> trace_ids st1" "i \<in> trace_ids st1"
      using st by (auto simp: st1_def wf_set_node trace_frames) (force simp: trace_ids_def)
    then have "trace_wf st2" "own_service digest s \<in> trace_ids st2" "i \<in> trace_ids st2"
      using kept_map_nodes [OF st1(1)] unfolding st2_def by auto
    moreover have "workload_step digest s st =
        (if \<not> has_value (ti_k8s_namespace (tp_identity s)) \<or> \<not> has_value (tp_deployment s) then st
         else trace_edge (own_service digest s) i ''runs_on'' 1 0 st2)"
      unfolding workload_step_def Let_def st2_def st1_def i_def name_def by simp
    ultimately show ?thesis using st kept_set_edge by simp
  qed
  then show ?thesis by (simp add: kept_by_def)
qed

lemma kept_queue: "kept_by (queue_step digest s) (own_service digest s)"
  by (auto simp: kept_by_def queue_step_def Let_def kept_set_edge wf_set_node trace_frames)
    (auto simp: trace_wf_def trace_ids_def)

lemma wf_count_span: "trace_wf st \<Longrightarrow> trace_wf (count_span digest s st)"
  unfolding count_span_def Let_def by (intro wf_map_nodes wf_service_node)

lemma wf_span_step: "trace_wf st \<Longrightarrow> trace_wf (span_step digest by_id infra host st s)"
  using kept_comp [OF kept_comp [OF kept_comp [OF kept_comp [OF kept_parent kept_links] kept_db] kept_workload] kept_queue]
    wf_count_span count_span_frame(1)
  by (fastforce simp: kept_by_def span_step_def)

lemma wf_call_step: "trace_wf st \<Longrightarrow> trace_wf (call_step digest st c)"
  by (auto simp: call_step_def caller_of_def callee_of_def trace_frames intro!: wf_trace_edge wf_service_node)

lemma wf_spans: "trace_wf st \<Longrightarrow> trace_wf (foldl (span_step digest by_id infra host) st ss)"
  by (induction ss arbitrary: st) (simp_all add: wf_span_step)

lemma wf_calls: "trace_wf st \<Longrightarrow> trace_wf (foldl (call_step digest) st cs)"
  by (induction cs arbitrary: st) (simp_all add: wf_call_step)

lemma trace_graph_wf: "trace_wf (xg_state (build_trace_graph digest spans calls infra host))"
  by (simp add: build_trace_graph_def Let_def wf_spans wf_calls) (intro wf_calls wf_spans, simp add: no_trace_def trace_wf_def)

section \<open>Observed calls\<close>

text \<open>The call a span gives evidence of: its parent is in the same trace and another service.\<close>

definition observed_call :: "digest \<Rightarrow> span_index \<Rightarrow> trace_span \<Rightarrow> (string \<times> string) option" where
  "observed_call digest by_id s = (if \<not> has_value (tp_parent s) then None
     else case span_at by_id s (tp_trace s) (text_or [] (tp_parent s)) of
        None \<Rightarrow> None
      | Some p \<Rightarrow> if own_service digest p = own_service digest s then None else Some (own_service digest p, own_service digest s))"

definition edge_count :: "trace_state \<Rightarrow> edge_name \<Rightarrow> nat \<times> int" where
  "edge_count st k = (case map_of (xs_edges st) k of None \<Rightarrow> (0, 0) | Some c \<Rightarrow> c)"

lemma edge_count_frame: "xs_edges st' = xs_edges st \<Longrightarrow> edge_count st' k = edge_count st k"
  by (simp add: edge_count_def)

lemma edge_count_edge:
  "edge_count (trace_edge s t r n m st) k =
     (if k = (s, t, r) then (fst (edge_count st k) + n, snd (edge_count st k) + m) else edge_count st k)"
  by (auto simp: edge_count_def trace_edge_def update_conv' split: option.splits)

lemmas edge_counts = edge_count_edge edge_count_frame [OF service_node_frame(2)] edge_count_frame [OF set_node_frame(2)]
  edge_count_frame [OF count_span_frame(2)]

lemma join_count:
  "edge_count (join_span digest rel s other st) (a, b, ''calls'') = (fst (edge_count st (a, b, ''calls'')) +
    (case other of None \<Rightarrow> 0 | Some p \<Rightarrow> if rel = ''calls'' \<and> own_service digest p \<noteq> own_service digest s \<and>
       a = own_service digest p \<and> b = own_service digest s then 1 else 0), snd (edge_count st (a, b, ''calls'')))"
  by (auto simp: join_span_def Let_def edge_counts edge_count_frame [of "_\<lparr>xs_orphans := _\<rparr>"] split: option.split)

lemma parent_count:
  "edge_count (parent_step digest by_id s st) (a, b, ''calls'') = (fst (edge_count st (a, b, ''calls'')) +
    (if observed_call digest by_id s = Some (a, b) then 1 else 0), snd (edge_count st (a, b, ''calls'')))"
  by (auto simp: parent_step_def observed_call_def join_count split: option.splits)

lemma link_count: "edge_count (link_step digest by_id s st) (a, b, ''calls'') = edge_count st (a, b, ''calls'')"
proof -
  have "edge_count (foldl (\<lambda>st (trace, span). join_span digest ''linked'' s (span_at by_id s trace span) st) st ls) (a, b, ''calls'') =
      edge_count st (a, b, ''calls'')" for ls
    by (induction ls arbitrary: st) (auto simp: join_count split: option.split)
  then show ?thesis unfolding link_step_def .
qed

lemma other_counts:
  "edge_count (db_step digest infra host s st) (a, b, ''calls'') = edge_count st (a, b, ''calls'')"
  "edge_count (workload_step digest s st) (a, b, ''calls'') = edge_count st (a, b, ''calls'')"
  "edge_count (queue_step digest s st) (a, b, ''calls'') = edge_count st (a, b, ''calls'')"
  by (simp_all add: db_step_def workload_step_def queue_step_def Let_def edge_counts
      edge_count_frame [of "_\<lparr>xs_nodes := _\<rparr>"] edge_count_frame [of "_\<lparr>xs_unresolved := _\<rparr>"])

lemma span_count:
  "edge_count (span_step digest by_id infra host st s) (a, b, ''calls'') = (fst (edge_count st (a, b, ''calls'')) +
    (if observed_call digest by_id s = Some (a, b) then 1 else 0), snd (edge_count st (a, b, ''calls'')))"
  by (simp add: span_step_def other_counts link_count parent_count edge_counts)

lemma spans_count:
  "edge_count (foldl (span_step digest by_id infra host) st ss) (a, b, ''calls'') = (fst (edge_count st (a, b, ''calls'')) +
    length (filter (\<lambda>s. observed_call digest by_id s = Some (a, b)) ss), snd (edge_count st (a, b, ''calls'')))"
  by (induction ss arbitrary: st) (simp_all add: span_count)

definition reported_calls :: "digest \<Rightarrow> string \<Rightarrow> string \<Rightarrow> service_call list \<Rightarrow> int" where
  "reported_calls digest a b calls =
     sum_list (map ca_count (filter (\<lambda>c. 0 < ca_count c \<and> caller_of digest c = a \<and> callee_of digest c = b) calls))"

lemma calls_count:
  "edge_count (foldl (call_step digest) st calls) (a, b, ''calls'') =
    (fst (edge_count st (a, b, ''calls'')), snd (edge_count st (a, b, ''calls'')) + reported_calls digest a b calls)"
  by (induction calls arbitrary: st) (auto simp: call_step_def edge_counts reported_calls_def)

lemma count_stored: "trace_wf st \<Longrightarrow> map_of (xs_edges st) k = (if edge_count st k = (0, 0) then None else Some (edge_count st k))"
  by (cases k) (auto simp: edge_count_def trace_wf_def sound_edge_def dest!: map_of_SomeD split: option.splits)

text \<open>
  C16. The dependency graph counts its evidence exactly. A call edge between two services is there if
  and only if some span or metric shows one; its span count is the number of distinct valid spans
  whose parent span is known and belongs to the calling service, each span of a source and trace
  counted once however often it was read, and its metric count is the sum of the positive counts
  the metric sources report for the pair.
\<close>

theorem call_edges_count_their_evidence:
  "let by_id = span_index_of spans;
       n = length (filter (\<lambda>s. observed_call digest by_id s = Some (a, b)) (map snd by_id));
       m = reported_calls digest a b calls
   in map_of (xs_edges (xg_state (build_trace_graph digest spans calls infra host))) (a, b, ''calls'') =
        (if n = 0 \<and> m = 0 then None else Some (n, m)) \<and>
      distinct (map span_key (map snd by_id)) \<and> span_key ` set (map snd by_id) = span_key ` set (filter valid_span spans)"
proof -
  let ?by_id = "span_index_of spans"
  have "edge_count (xg_state (build_trace_graph digest spans calls infra host)) (a, b, ''calls'') =
      (length (filter (\<lambda>s. observed_call digest ?by_id s = Some (a, b)) (map snd ?by_id)), reported_calls digest a b calls)"
    by (simp add: build_trace_graph_def Let_def calls_count spans_count) (simp add: no_trace_def edge_count_def)
  then have "map_of (xs_edges (xg_state (build_trace_graph digest spans calls infra host))) (a, b, ''calls'') =
      (let n = length (filter (\<lambda>s. observed_call digest ?by_id s = Some (a, b)) (map snd ?by_id));
           m = reported_calls digest a b calls in if n = 0 \<and> m = 0 then None else Some (n, m))"
    using count_stored [OF trace_graph_wf, of digest spans calls infra host "(a, b, ''calls'')"] by (simp add: Let_def)
  then show ?thesis unfolding Let_def span_index_of_def
    by (intro conjI distinct_js_map_values keys_js_map_values)
qed

end
