(* ===== verification/Trace_Rebuild.thy ===== *)
theory Trace_Rebuild
  imports Graph_Rebuild Trace_Graph
begin

text \<open>
  Rebuilding the graph of observed calls (\<^verbatim>\<open>rebuildTraceGraph\<close> of \<^verbatim>\<open>web/lib/graph-store.ts\<close>): what the
  datasources answered, whether that is enough to replace the stored graph, and the bounds on what is
  kept of it. What a datasource reads is an argument, absent when the adapter throws.
\<close>

section \<open>Reads\<close>

datatype read_status = Read_Ok | Read_Partial | Read_Unavailable | Read_Error

record 'a source_read =
  rd_source :: string
  rd_items :: "'a list"
  rd_status :: read_status
  rd_reasons :: "string list"
  rd_start :: int
  rd_end :: int
  rd_sweepable :: bool

definition TRACE_WINDOW_MINS :: int where "TRACE_WINDOW_MINS = 60"
definition TRACE_NODE_CAP :: nat where "TRACE_NODE_CAP = 200"
definition TRACE_EDGE_CAP :: nat where "TRACE_EDGE_CAP = 500"

definition read_status_text :: "read_status \<Rightarrow> string" where
  "read_status_text s = (case s of Read_Ok \<Rightarrow> ''ok'' | Read_Partial \<Rightarrow> ''partial'' | Read_Unavailable \<Rightarrow> ''unavailable''
     | Read_Error \<Rightarrow> ''error'')"

definition failed_read :: "int \<Rightarrow> string \<Rightarrow> 'a source_read" where
  "failed_read end_ms source = \<lparr>rd_source = source, rd_items = [], rd_status = Read_Error, rd_reasons = [''source_failed''],
     rd_start = end_ms - TRACE_WINDOW_MINS * 60000, rd_end = end_ms, rd_sweepable = True\<rparr>"

text \<open>The answers of the sources in order, a failed read for the \<open>i\<close>-th that throws.\<close>

definition settled_reads :: "int \<Rightarrow> string \<Rightarrow> 'a source_read option list \<Rightarrow> 'a source_read list" where
  "settled_reads end_ms prefix answers = map (\<lambda>(i, r). case r of
     None \<Rightarrow> failed_read end_ms (prefix @ '':'' @ show_nat i) | Some r \<Rightarrow> r) (zip [0..<length answers] answers)"

text \<open>What the decision looks at of a read, of spans and of calls alike.\<close>

record read_summary =
  rs_source_id :: string
  rs_read_status :: read_status
  rs_read_reasons :: "string list"
  rs_items :: nat
  rs_start :: int
  rs_end :: int
  rs_sweepable :: bool

definition summary_of :: "'a source_read \<Rightarrow> read_summary" where
  "summary_of r = \<lparr>rs_source_id = rd_source r, rs_read_status = rd_status r, rs_read_reasons = rd_reasons r,
     rs_items = length (rd_items r), rs_start = rd_start r, rs_end = rd_end r, rs_sweepable = rd_sweepable r\<rparr>"

definition read_detail :: "read_summary \<Rightarrow> js" where
  "read_detail r = JObj [(''sourceId'', JStr (rs_source_id r)), (''status'', JStr (read_status_text (rs_read_status r))),
     (''reasons'', JArr (map JStr (rs_read_reasons r))), (''itemCount'', JNum (int (rs_items r))),
     (''windowStartMs'', JNum (rs_start r)), (''windowEndMs'', JNum (rs_end r))]"

definition has_failure :: "read_summary list \<Rightarrow> bool" where
  "has_failure reads \<longleftrightarrow> list_ex (\<lambda>r. rs_read_status r = Read_Error \<or> rs_read_status r = Read_Unavailable) reads"

definition cannot_sweep :: "read_summary list \<Rightarrow> bool" where
  "cannot_sweep reads \<longleftrightarrow> list_ex (\<lambda>r. \<not> rs_sweepable r) reads"

definition partial_reads :: "read_summary list \<Rightarrow> bool" where
  "partial_reads reads \<longleftrightarrow> cannot_sweep reads \<or> list_ex (\<lambda>r. rs_read_status r = Read_Partial) reads"

definition nothing_to_publish :: "read_summary list \<Rightarrow> bool" where
  "nothing_to_publish reads \<longleftrightarrow> reads = [] \<or> has_failure reads \<or> cannot_sweep reads \<or>
     partial_reads reads \<and> list_all (\<lambda>r. rs_items r = 0) reads"

text \<open>A span or call without a source takes the one of its read.\<close>

definition source_or :: "string \<Rightarrow> trace_identity \<Rightarrow> trace_identity" where
  "source_or source i = i\<lparr>ti_source := Some (text_or source (ti_source i))\<rparr>"

definition read_spans :: "trace_span source_read list \<Rightarrow> trace_span list" where
  "read_spans reads = concat (map (\<lambda>r. map (\<lambda>s. s\<lparr>tp_identity := source_or (rd_source r) (tp_identity s)\<rparr>) (rd_items r)) reads)"

definition read_calls :: "service_call source_read list \<Rightarrow> service_call list" where
  "read_calls reads = concat (map (\<lambda>r. map (\<lambda>c. c
     \<lparr>ca_client_identity := Some (source_or (rd_source r) (identity_or_none (ca_client_identity c))),
      ca_server_identity := Some (source_or (rd_source r) (identity_or_none (ca_server_identity c)))\<rparr>) (rd_items r)) reads)"

section \<open>What is kept\<close>

definition kind_rank :: "string \<times> trace_node \<Rightarrow> int" where
  "kind_rank n = (if xn_kind (snd n) = ''service'' then 0 else 1)"

definition node_spans :: "string \<times> trace_node \<Rightarrow> int" where
  "node_spans n = (case xn_meta (snd n) of Service_Meta _ c \<Rightarrow> int (sn_spans c) | _ \<Rightarrow> 0)"

definition kept_nodes :: "trace_state \<Rightarrow> (string \<times> trace_node) list" where
  "kept_nodes st = take TRACE_NODE_CAP (sort_le (\<lambda>a b.
     (if kind_rank b - kind_rank a \<noteq> 0 then kind_rank b - kind_rank a else node_spans b - node_spans a) \<le> 0) (xs_nodes st))"

definition edge_weight :: "edge_name \<times> nat \<times> int \<Rightarrow> int" where
  "edge_weight e = int (fst (snd e)) + snd (snd e)"

definition kept_edges :: "trace_state \<Rightarrow> (edge_name \<times> nat \<times> int) list" where
  "kept_edges st = take TRACE_EDGE_CAP (sort_le (\<lambda>a b. edge_weight b - edge_weight a \<le> 0)
     (filter (\<lambda>((s, t, _), _). s \<in> fst ` set (kept_nodes st) \<and> t \<in> fst ` set (kept_nodes st)) (xs_edges st)))"

definition trace_meta_fields :: "trace_meta \<Rightarrow> js_object" where
  "trace_meta_fields m = (case m of
      Service_Meta about c \<Rightarrow> about @ [(''spanCount'', JNum (int (sn_spans c))), (''errorSpanCount'', JNum (int (sn_errors c))),
        (''unknownStatusSpanCount'', JNum (int (sn_unknown c))), (''sampledDurationMs'', JNum (sn_duration c)),
        (''traceIds'', JArr (map JStr (sn_traces c)))]
    | Workload_Meta about pods \<Rightarrow> about @ [(''pods'', JArr (map JStr pods))]
    | Plain_Meta fs \<Rightarrow> fs)"

definition stored_trace_node :: "string \<times> trace_node \<Rightarrow> g_node" where
  "stored_trace_node n = \<lparr>gn_id = fst n, gn_kind = xn_kind (snd n), gn_label = xn_label (snd n),
     gn_meta = Some (trace_meta_fields (xn_meta (snd n)))\<rparr>"

definition stored_trace_edge :: "edge_name \<times> nat \<times> int \<Rightarrow> g_edge" where
  "stored_trace_edge e = (case e of ((s, t, r), n, m) \<Rightarrow> \<lparr>ge_source = s, ge_target = t, ge_rel = r, ge_confidence = ''observed'',
     ge_meta = Some [(''spanCount'', JNum (int n)), (''metricCount'', JNum m)]\<rparr>)"

section \<open>The rebuild\<close>

text \<open>The inventory nodes the host's databases are looked up in; none when the query fails.\<close>

definition infra_nodes_of :: "graph_tables \<Rightarrow> (string \<times> js_object) list" where
  "infra_nodes_of st = map (\<lambda>n. (tn_id n, tn_meta n))
     (filter (\<lambda>n. tn_account n = ''self'' \<and> tn_class n = Infra_Class) (gt_nodes st))"

definition retained_trace :: "int \<Rightarrow> read_summary list \<Rightarrow> graph_attempt" where
  "retained_trace end_ms reads = \<lparr>
     ga_status = (if list_ex (\<lambda>r. rs_read_status r = Read_Error) reads then Status_Error
       else if partial_reads reads then Status_Partial else Status_Unavailable),
     ga_attempted = end_ms, ga_publish = False,
     ga_details = [(''sources'', JArr (map read_detail reads)), (''retainedPrevious'', JBool True),
       (''windowStartMs'', JNum (end_ms - TRACE_WINDOW_MINS * 60000)), (''windowEndMs'', JNum end_ms)]\<rparr>"

definition published_trace :: "int \<Rightarrow> read_summary list \<Rightarrow> bool \<Rightarrow> trace_graph \<Rightarrow> graph_attempt" where
  "published_trace end_ms reads infra_unavailable g =
     (let st = xg_state g; node_drops = length (xs_nodes st) - length (kept_nodes st);
          edge_drops = length (xs_edges st) - length (kept_edges st)
      in \<lparr>ga_status = (if partial_reads reads \<or> infra_unavailable \<or> 0 < node_drops \<or> 0 < edge_drops \<or>
              0 < xs_orphans st \<or> 0 < xg_invalid g \<or> 0 < xs_unresolved st then Status_Partial
            else if kept_nodes st \<noteq> [] then Status_Ok else Status_Empty),
          ga_attempted = end_ms, ga_publish = True,
          ga_details = [(''sources'', JArr (map read_detail reads)), (''retainedPrevious'', JBool False),
            (''windowStartMs'', JNum (end_ms - TRACE_WINDOW_MINS * 60000)), (''windowEndMs'', JNum end_ms),
            (''nodeDrops'', JNum (int node_drops)), (''edgeDrops'', JNum (int edge_drops)),
            (''orphanSpans'', JNum (int (xs_orphans st))), (''invalidSpans'', JNum (int (xg_invalid g))),
            (''unresolvedMessaging'', JNum (int (xs_unresolved st))), (''infraUnavailable'', JBool infra_unavailable)]\<rparr>)"

record trace_inputs =
  tr_spans :: "trace_span source_read option list"
  tr_calls :: "service_call source_read option list"
  tr_infra_fails :: bool
  tr_end :: int

definition span_reads :: "trace_inputs \<Rightarrow> trace_span source_read list" where
  "span_reads x = settled_reads (tr_end x) ''trace'' (tr_spans x)"

definition call_reads :: "trace_inputs \<Rightarrow> service_call source_read list" where
  "call_reads x = settled_reads (tr_end x) ''metrics'' (tr_calls x)"

definition all_reads :: "trace_inputs \<Rightarrow> read_summary list" where
  "all_reads x = map summary_of (span_reads x) @ map summary_of (call_reads x)"

definition trace_graph_of :: "digest \<Rightarrow> string \<Rightarrow> trace_inputs \<Rightarrow> graph_tables \<Rightarrow> trace_graph" where
  "trace_graph_of digest host x st = build_trace_graph digest (read_spans (span_reads x)) (read_calls (call_reads x))
     (if tr_infra_fails x then [] else infra_nodes_of st) host"

definition rebuild_trace_graph ::
  "digest \<Rightarrow> string \<Rightarrow> bool \<Rightarrow> string \<Rightarrow> tx \<Rightarrow> tx \<Rightarrow> trace_inputs \<Rightarrow> graph_tables \<Rightarrow> rebuild_result option \<times> graph_tables" where
  "rebuild_trace_graph digest host ready run t t' x st =
     (if \<not> ready then (Some (empty_result\<lparr>rr_skipped := 1, rr_reasons := [''state_schema_missing'']\<rparr>), st)
      else if nothing_to_publish (all_reads x)
        then write_graph t t' Trace_Class ''self'' [] [] run (retained_trace (tr_end x) (all_reads x)) st
      else (let g = trace_graph_of digest host x st in
        write_graph t t' Trace_Class ''self'' (map stored_trace_node (kept_nodes (xg_state g)))
          (map stored_trace_edge (kept_edges (xg_state g))) run (published_trace (tr_end x) (all_reads x) (tr_infra_fails x) g) st))"

section \<open>What a rebuild of the trace graph does\<close>

lemma kept_nodes_distinct: "distinct (map fst (xs_nodes st)) \<Longrightarrow> distinct (map fst (kept_nodes st))"
  unfolding kept_nodes_def take_map [symmetric] by (intro distinct_take) simp

lemma kept_edges_in: "e \<in> set (kept_edges st) \<Longrightarrow> e \<in> set (xs_edges st) \<and>
    fst (fst e) \<in> fst ` set (kept_nodes st) \<and> fst (snd (fst e)) \<in> fst ` set (kept_nodes st)"
  unfolding kept_edges_def by (drule in_set_takeD) force

lemma kept_edges_distinct: "distinct (map fst (xs_edges st)) \<Longrightarrow> distinct (map fst (kept_edges st))"
  unfolding kept_edges_def take_map [symmetric] by (intro distinct_take) (simp add: distinct_map_filter)

lemma trace_graph_ok:
  assumes "trace_wf st"
  shows "graph_ok (map stored_trace_node (kept_nodes st)) (map stored_trace_edge (kept_edges st))"
proof -
  have ids: "map gn_id (map stored_trace_node (kept_nodes st)) = map fst (kept_nodes st)"
    by (simp add: stored_trace_node_def comp_def)
  have keys: "map edge_triple (map stored_trace_edge (kept_edges st)) = map fst (kept_edges st)"
    by (simp add: stored_trace_edge_def edge_triple_def comp_def case_prod_beta)
  have "ge_source e \<in> fst ` set (kept_nodes st) \<and> ge_target e \<in> fst ` set (kept_nodes st)"
    if e: "e \<in> set (map stored_trace_edge (kept_edges st))" for e
  proof -
    obtain k where "k \<in> set (kept_edges st)" "e = stored_trace_edge k" using e by auto
    then show ?thesis using kept_edges_in [of k st] by (auto simp: stored_trace_edge_def split: prod.splits)
  qed
  moreover have "gn_id ` set (map stored_trace_node (kept_nodes st)) = fst ` set (kept_nodes st)"
    by (simp only: set_map [symmetric] ids)
  ultimately show ?thesis unfolding graph_ok_def ids keys
    using assms kept_nodes_distinct kept_edges_distinct by (auto simp: trace_wf_def simp del: set_map)
qed

lemma settled_answered:
  assumes "\<forall>r\<in>set (settled_reads end_ms prefix answers). rd_status r \<noteq> Read_Error"
  shows "None \<notin> set answers"
proof
  assume "None \<in> set answers"
  then obtain i where i: "i < length answers" "answers ! i = None" by (auto simp: in_set_conv_nth)
  then have "failed_read end_ms (prefix @ '':'' @ show_nat i) \<in> set (settled_reads end_ms prefix answers)"
    unfolding settled_reads_def set_map set_zip by (intro image_eqI [of _ _ "(i, None)"]) (auto intro!: exI [of _ i])
  then show False using assms by (force simp: failed_read_def)
qed

lemma publishable_reads:
  assumes "\<not> nothing_to_publish (all_reads x)"
  shows "all_reads x \<noteq> [] \<and> list_all (\<lambda>r. rs_read_status r \<in> {Read_Ok, Read_Partial} \<and> rs_sweepable r) (all_reads x) \<and>
    None \<notin> set (tr_spans x) \<and> None \<notin> set (tr_calls x)"
proof -
  have all: "list_all (\<lambda>r. rs_read_status r \<in> {Read_Ok, Read_Partial} \<and> rs_sweepable r) (all_reads x)"
    using assms by (auto simp: nothing_to_publish_def has_failure_def cannot_sweep_def list_all_iff list_ex_iff
      intro: read_status.exhaust [of "rs_read_status r" for r])
  have "\<forall>r\<in>set (span_reads x). rd_status r \<noteq> Read_Error" "\<forall>r\<in>set (call_reads x). rd_status r \<noteq> Read_Error"
    using all by (fastforce simp: all_reads_def list_all_iff ball_Un summary_of_def)+
  then have "None \<notin> set (tr_spans x)" "None \<notin> set (tr_calls x)"
    unfolding span_reads_def call_reads_def by (auto dest: settled_answered)
  then show ?thesis using all assms by (simp add: nothing_to_publish_def)
qed

text \<open>
  C36. The graph of observed calls is replaced as a whole or not at all. A rebuild is one transaction
  of the store, so the stored graph stays a single well-formed publication; and it changes only when
  there is a source, every source answered without failing and none forbids the sweep, and then the
  stored graph is the one built from everything they read, bounded with its edges' ends kept.
\<close>

theorem trace_rebuild_needs_every_source:
  assumes "graph_reachable st" "unused_run run ''self'' Trace_Class st"
    and "rebuild_trace_graph digest host ready run t t' x st = (res, st')"
  shows "graph_reachable st' \<and> (\<forall>a c. evidence a c st' = evidence a c st \<or> (a, c) = (''self'', Trace_Class) \<and>
    all_reads x \<noteq> [] \<and> list_all (\<lambda>r. rs_read_status r \<in> {Read_Ok, Read_Partial} \<and> rs_sweepable r) (all_reads x) \<and>
    None \<notin> set (tr_spans x) \<and> None \<notin> set (tr_calls x) \<and>
    holds_graph ''self'' Trace_Class (map stored_trace_node (kept_nodes (xg_state (trace_graph_of digest host x st))))
      (map stored_trace_edge (kept_edges (xg_state (trace_graph_of digest host x st)))) run st')"
proof -
  let ?g = "xg_state (trace_graph_of digest host x st)"
  let ?ns = "map stored_trace_node (kept_nodes ?g)" and ?es = "map stored_trace_edge (kept_edges ?g)"
  have ok: "graph_ok ?ns ?es" "graph_ok [] []"
    unfolding trace_graph_of_def using trace_graph_ok trace_graph_wf by (blast, simp add: graph_ok_def)
  have tables: "graph_tables_ok st" using graph_reachable_ok [OF assms(1)] by blast
  show ?thesis
  proof (cases "ready \<and> \<not> nothing_to_publish (all_reads x)")
    case True
    then have w: "write_graph t t' Trace_Class ''self'' ?ns ?es run
        (published_trace (tr_end x) (all_reads x) (tr_infra_fails x) (trace_graph_of digest host x st)) st = (res, st')"
      using assms(3) by (simp add: rebuild_trace_graph_def Let_def)
    have "graph_reachable st'" using graph_next [OF assms(1) Rebuilt [OF ok(1) assms(2) w]] .
    moreover have "evidence a c st' = evidence a c st \<or> (a, c) = (''self'', Trace_Class) \<and> holds_graph ''self'' Trace_Class ?ns ?es run st'"
      for a c using write_graph_spec [OF tables ok(1) assms(2) w]
      by (cases "(a, c) = (''self'', Trace_Class)") (auto split: if_splits)
    ultimately show ?thesis using publishable_reads [of x] True by blast
  next
    case False
    show ?thesis
    proof (cases ready)
      case True
      then have w: "write_graph t t' Trace_Class ''self'' [] [] run (retained_trace (tr_end x) (all_reads x)) st = (res, st')"
        using False assms(3) by (simp add: rebuild_trace_graph_def)
      have "\<not> ga_publish (retained_trace (tr_end x) (all_reads x))" by (simp add: retained_trace_def)
      then have "evidence a c st' = evidence a c st" for a c
        using write_graph_spec [OF tables ok(2) assms(2) w] by (cases "(a, c) = (''self'', Trace_Class)") (auto split: if_splits)
      moreover have "graph_reachable st'" using graph_next [OF assms(1) Rebuilt [OF ok(2) assms(2) w]] .
      ultimately show ?thesis by blast
    next
      case no: False
      then show ?thesis using assms(1,3) by (simp add: rebuild_trace_graph_def)
    qed
  qed
qed

text \<open>One span of one service, read without fault.\<close>

definition one_span_read :: trace_inputs where
  "one_span_read = \<lparr>tr_spans = [Some \<lparr>rd_source = ''ch'', rd_items = [\<lparr>tp_identity = no_identity, tp_trace = ''t'', tp_span = ''a'',
      tp_parent = None, tp_service = ''web'', tp_kind = ''SERVER'', tp_status = None, tp_links = [], tp_messaging = None,
      tp_destination = None, tp_broker = None, tp_db = None, tp_db_name = None, tp_db_host = None, tp_pod = None,
      tp_deployment = None, tp_duration = 3\<rparr>], rd_status = Read_Ok, rd_reasons = [], rd_start = 0, rd_end = 9, rd_sweepable = True\<rparr>],
     tr_calls = [], tr_infra_fails = False, tr_end = 9\<rparr>"

definition first_trace :: "rebuild_result option \<times> graph_tables" where
  "first_trace = rebuild_trace_graph (\<lambda>_. concat) ''self'' True ''run-1'' good_tx good_tx one_span_read no_graphs"

theorem trace_rebuild_needs_every_source_witness:
  "graph_reachable (snd first_trace) \<and> nodes_at ''self'' Infra_Class (snd first_trace) = {}"
proof -
  have start: "graph_reachable no_graphs" using graph_init by (simp add: no_graphs_def)
  have unused: "unused_run ''run-1'' ''self'' Trace_Class no_graphs"
    by (simp add: unused_run_def no_graphs_def nodes_at_def edges_at_def)
  note run = trace_rebuild_needs_every_source [OF start unused
    trans [OF first_trace_def [symmetric] prod.collapse [symmetric]]]
  have "evidence ''self'' Infra_Class (snd first_trace) = evidence ''self'' Infra_Class no_graphs"
    using conjunct2 [OF run, THEN spec, THEN spec, of "''self''" Infra_Class] by (simp only: graph_class.distinct prod.inject simp_thms)
  then have "nodes_at ''self'' Infra_Class (snd first_trace) = nodes_at ''self'' Infra_Class no_graphs"
    by (simp only: evidence_def prod.inject)
  moreover have "nodes_at ''self'' Infra_Class no_graphs = {}" by (simp add: nodes_at_def no_graphs_def)
  ultimately show ?thesis using conjunct1 [OF run] by (simp only: simp_thms)
qed

end
