(* ===== verification/Graph_Query.thy ===== *)
theory Graph_Query
  imports Graph_Store Complex_Main
begin

text \<open>
  Traversal of the stored graph (\<^verbatim>\<open>web/lib/graph-query.ts\<close>): the recursive query with its cycle
  clause, its depth and fan-out bounds, and the nodes it does not expand. The collation of the
  database is an argument; a depth is a rational, absent when it is no finite number.
\<close>

section \<open>The query\<close>

datatype hop_direction = Down | Up

definition MAX_DEPTH :: nat where "MAX_DEPTH = 8"
definition FANOUT_CAP :: nat where "FANOUT_CAP = 20"

definition in_account :: "string \<Rightarrow> string \<Rightarrow> bool" where
  "in_account scope account \<longleftrightarrow> scope = ''__all__'' \<or> account = scope"

definition from_end :: "hop_direction \<Rightarrow> topo_edge \<Rightarrow> string" where
  "from_end dir e = (case dir of Down \<Rightarrow> te_source e | Up \<Rightarrow> te_target e)"

definition to_end :: "hop_direction \<Rightarrow> topo_edge \<Rightarrow> string" where
  "to_end dir e = (case dir of Down \<Rightarrow> te_target e | Up \<Rightarrow> te_source e)"

definition all_next :: "hop_direction \<Rightarrow> string \<Rightarrow> graph_class \<Rightarrow> graph_tables \<Rightarrow> string \<Rightarrow> string list" where
  "all_next dir scope cls st node =
     map (to_end dir) (filter (\<lambda>e. in_account scope (te_account e) \<and> te_class e = cls \<and> from_end dir e = node) (gt_edges st))"

definition next_nodes ::
  "(string \<Rightarrow> string \<Rightarrow> bool) \<Rightarrow> hop_direction \<Rightarrow> string \<Rightarrow> graph_class \<Rightarrow> graph_tables \<Rightarrow> string \<Rightarrow> string list" where
  "next_nodes le dir scope cls st node = take FANOUT_CAP (sort_le le (all_next dir scope cls st node))"

text \<open>\<open>meta ->> 'default' = 'true'\<close> of a security group.\<close>

definition default_group :: "string \<Rightarrow> graph_class \<Rightarrow> graph_tables \<Rightarrow> string \<Rightarrow> bool" where
  "default_group scope cls st node \<longleftrightarrow> list_ex (\<lambda>n. in_account scope (tn_account n) \<and> tn_class n = cls \<and> tn_id n = node \<and>
     tn_kind n = ''sg'' \<and> field (tn_meta n) ''default'' \<in> {JBool True, JStr ''true''}) (gt_nodes st)"

text \<open>A row of the recursive query: node, depth, the path kept by the cycle clause and its mark.\<close>

type_synonym walk_row = "string \<times> nat \<times> string list \<times> bool"

definition walk_step ::
  "(string \<Rightarrow> string list) \<Rightarrow> (string \<Rightarrow> bool) \<Rightarrow> nat \<Rightarrow> walk_row \<Rightarrow> walk_row list" where
  "walk_step nxt stop limit r = (case r of (w, d, path, cyc) \<Rightarrow>
     if cyc \<or> \<not> d < limit \<or> d \<noteq> 0 \<and> stop w then []
     else map (\<lambda>x. (x, d + 1, path @ [x], x \<in> set path)) (nxt w))"

text \<open>The working tables in turn, until one is empty; \<open>limit + 1\<close> of them are enough.\<close>

fun walk_rows :: "(string \<Rightarrow> string list) \<Rightarrow> (string \<Rightarrow> bool) \<Rightarrow> nat \<Rightarrow> nat \<Rightarrow> walk_row list \<Rightarrow> walk_row list" where
  "walk_rows nxt stop limit 0 rows = rows"
| "walk_rows nxt stop limit (Suc k) rows = rows @ walk_rows nxt stop limit k (concat (map (walk_step nxt stop limit) rows))"

definition walk :: "(string \<Rightarrow> string list) \<Rightarrow> (string \<Rightarrow> bool) \<Rightarrow> nat \<Rightarrow> string \<Rightarrow> walk_row list" where
  "walk nxt stop limit start = walk_rows nxt stop limit (limit + 1) [(start, 0, [start], False)]"

definition least_depth :: "string \<Rightarrow> walk_row list \<Rightarrow> nat" where
  "least_depth x rows = Min (set (map (\<lambda>(_, d, _). d) (filter (\<lambda>(w, _). w = x) rows)))"

text \<open>\<open>GROUP BY node ORDER BY min(depth), node\<close>.\<close>

definition reached :: "(string \<Rightarrow> string \<Rightarrow> bool) \<Rightarrow> string \<Rightarrow> walk_row list \<Rightarrow> (string \<times> nat) list" where
  "reached le start rows =
     sort_le (\<lambda>(a, m) (b, n). if m \<noteq> n then m \<le> n else le a b)
       (map (\<lambda>x. (x, least_depth x rows)) (js_set (filter (\<lambda>x. x \<noteq> start) (map fst rows))))"

definition clamp_depth :: "rat option \<Rightarrow> nat" where
  "clamp_depth d = (case d of None \<Rightarrow> MAX_DEPTH | Some d \<Rightarrow> min MAX_DEPTH (max 1 (nat \<lfloor>d\<rfloor>)))"

definition traverse ::
  "(string \<Rightarrow> string \<Rightarrow> bool) \<Rightarrow> hop_direction \<Rightarrow> string \<Rightarrow> graph_class \<Rightarrow> graph_tables \<Rightarrow> rat option \<Rightarrow> string \<Rightarrow> (string \<times> nat) list" where
  "traverse le dir scope cls st depth start = reached le start
     (walk (next_nodes le dir scope cls st) (default_group scope cls st) (clamp_depth depth) start)"

section \<open>Hops\<close>

text \<open>What the traversal computes: nodes some number of expansions away.\<close>

inductive hops :: "(string \<Rightarrow> string list) \<Rightarrow> (string \<Rightarrow> bool) \<Rightarrow> string \<Rightarrow> nat \<Rightarrow> string \<Rightarrow> bool"
  for nxt stop start where
  hop_start: "hops nxt stop start 0 start"
| hop_next: "hops nxt stop start n u \<Longrightarrow> n = 0 \<or> \<not> stop u \<Longrightarrow> v \<in> set (nxt u) \<Longrightarrow> hops nxt stop start (Suc n) v"

inductive_cases hop_sucE: "hops nxt stop start (Suc n) v"
inductive_simps hop_zero [simp]: "hops nxt stop start 0 v"

text \<open>The working tables of the recursion.\<close>

definition walk_table :: "(string \<Rightarrow> string list) \<Rightarrow> (string \<Rightarrow> bool) \<Rightarrow> nat \<Rightarrow> string \<Rightarrow> nat \<Rightarrow> walk_row list" where
  "walk_table nxt stop limit start k = ((\<lambda>rows. concat (map (walk_step nxt stop limit) rows)) ^^ k) [(start, 0, [start], False)]"

lemma table_0: "walk_table nxt stop limit start 0 = [(start, 0, [start], False)]"
  by (simp add: walk_table_def)

lemma table_Suc: "walk_table nxt stop limit start (Suc k) = concat (map (walk_step nxt stop limit) (walk_table nxt stop limit start k))"
  by (simp add: walk_table_def)

lemma walk_rows_tables: "set (walk_rows nxt stop limit k (walk_table nxt stop limit start j)) = (\<Union>i\<le>k. set (walk_table nxt stop limit start (j + i)))"
proof (induction k arbitrary: j)
  case (Suc k)
  have "set (walk_rows nxt stop limit (Suc k) (walk_table nxt stop limit start j)) = set (walk_table nxt stop limit start j) \<union> (\<Union>i\<le>k. set (walk_table nxt stop limit start (Suc j + i)))"
    using Suc [of "Suc j"] by (simp add: table_Suc)
  also have "\<dots> = (\<Union>i\<le>Suc k. set (walk_table nxt stop limit start (j + i)))"
    by (simp add: atMost_Suc_eq_insert_0 image_image)
  finally show ?case .
qed simp

lemma walk_tables: "set (walk nxt stop limit start) = (\<Union>i\<le>limit + 1. set (walk_table nxt stop limit start i))"
  unfolding walk_def table_0 [of nxt stop limit start, symmetric] walk_rows_tables by simp

text \<open>A row of the \<open>k\<close>-th table is \<open>k\<close> hops away, within the bound.\<close>

lemma table_hops: "(w, d, path, cyc) \<in> set (walk_table nxt stop limit start k) \<Longrightarrow> d = k \<and> hops nxt stop start k w \<and> k \<le> limit"
proof (induction k arbitrary: w d path cyc)
  case (Suc k)
  then obtain u e p c where u: "(u, e, p, c) \<in> set (walk_table nxt stop limit start k)" "(w, d, path, cyc) \<in> set (walk_step nxt stop limit (u, e, p, c))"
    by (fastforce simp: table_Suc)
  note prev = Suc.IH [OF u(1)]
  from u(2) have "\<not> (c \<or> \<not> e < limit \<or> e \<noteq> 0 \<and> stop u)" "w \<in> set (nxt u)" "d = e + 1"
    by (auto simp: walk_step_def split: if_splits)
  with prev show ?case by (auto intro: hop_next)
qed (simp add: table_0)

text \<open>A node first met after \<open>k\<close> hops has a row there that is no cycle.\<close>

lemma table_complete:
  "hops nxt stop start k w \<Longrightarrow> k \<le> limit \<Longrightarrow> (\<forall>i<k. \<not> hops nxt stop start i w) \<Longrightarrow>
    \<exists>path. (w, k, path, False) \<in> set (walk_table nxt stop limit start k) \<and> (\<forall>p\<in>set path. \<exists>i\<le>k. hops nxt stop start i p)"
proof (induction k arbitrary: w)
  case 0
  then show ?case by (auto simp: table_0 intro: hop_start)
next
  case (Suc k)
  from Suc.prems(1) obtain u where u: "hops nxt stop start k u" "k = 0 \<or> \<not> stop u" "w \<in> set (nxt u)"
    by (rule hop_sucE) blast
  have "\<forall>i<k. \<not> hops nxt stop start i u"
  proof (intro allI impI notI)
    fix i assume "i < k" "hops nxt stop start i u"
    then have "hops nxt stop start (Suc i) w" using u by (auto intro: hop_next)
    then show False using Suc.prems(3) \<open>i < k\<close> by auto
  qed
  with Suc.IH [OF u(1)] Suc.prems(2) obtain path where
    path: "(u, k, path, False) \<in> set (walk_table nxt stop limit start k)" "\<forall>p\<in>set path. \<exists>i\<le>k. hops nxt stop start i p" by auto
  have "w \<notin> set path" using path(2) Suc.prems(3) by (auto simp: less_Suc_eq_le)
  then have "(w, Suc k, path @ [w], False) \<in> set (walk_step nxt stop limit (u, k, path, False))"
    using u Suc.prems(2) by (auto simp: walk_step_def)
  then have "(w, Suc k, path @ [w], False) \<in> set (walk_table nxt stop limit start (Suc k))" using path(1) by (force simp: table_Suc)
  moreover have "\<exists>i\<le>Suc k. hops nxt stop start i p" if "p \<in> set (path @ [w])" for p
    using that path(2) Suc.prems(1) by (auto intro: le_SucI)
  ultimately show ?case by blast
qed

lemma walk_hops: "(w, d, path, cyc) \<in> set (walk nxt stop limit start) \<Longrightarrow> hops nxt stop start d w \<and> d \<le> limit"
  using table_hops by (fastforce simp: walk_tables)

lemma walk_has:
  assumes "hops nxt stop start n w" "n \<le> limit"
  shows "\<exists>d path. d \<le> n \<and> (w, d, path, False) \<in> set (walk nxt stop limit start) \<and> (\<forall>i<d. \<not> hops nxt stop start i w)"
proof -
  define d where "d = (LEAST i. hops nxt stop start i w)"
  have d: "hops nxt stop start d w" "d \<le> n" "\<forall>i<d. \<not> hops nxt stop start i w"
    unfolding d_def using assms(1) by (auto intro: LeastI Least_le dest: not_less_Least)
  then obtain path where "(w, d, path, False) \<in> set (walk_table nxt stop limit start d)" using table_complete [of nxt stop start d w limit] assms(2) by auto
  then show ?thesis using d assms(2) by (force simp: walk_tables)
qed

lemma least_depth_hops:
  assumes "w \<in> fst ` set (walk nxt stop limit start)"
  shows "hops nxt stop start (least_depth w (walk nxt stop limit start)) w \<and> least_depth w (walk nxt stop limit start) \<le> limit \<and>
    (\<forall>i < least_depth w (walk nxt stop limit start). \<not> hops nxt stop start i w)"
proof -
  define ds where "ds = set (map (\<lambda>(_, d, _). d) (filter (\<lambda>(u, _). u = w) (walk nxt stop limit start)))"
  have ds: "d \<in> ds \<longleftrightarrow> (\<exists>path cyc. (w, d, path, cyc) \<in> set (walk nxt stop limit start))" for d
    unfolding ds_def by force
  have "ds \<noteq> {}" "finite ds" using assms ds by (force, simp add: ds_def)
  then have m: "Min ds \<in> ds" "d \<in> ds \<Longrightarrow> Min ds \<le> d" for d by simp_all
  have h: "hops nxt stop start (Min ds) w" "Min ds \<le> limit" using m(1) ds walk_hops by blast+
  have "\<not> hops nxt stop start i w" if below: "i < Min ds" for i
  proof
    assume i: "hops nxt stop start i w"
    have "i \<le> limit" using below h(2) by simp
    from walk_has [OF i this] obtain d where "d \<le> i" "d \<in> ds" unfolding ds by blast
    then show False using m(2) [of d] below by simp
  qed
  then show ?thesis using h unfolding least_depth_def ds_def by blast
qed

lemma reached_iff:
  "(w, d) \<in> set (reached le start (walk nxt stop limit start)) \<longleftrightarrow>
     w \<noteq> start \<and> d \<le> limit \<and> hops nxt stop start d w \<and> (\<forall>i<d. \<not> hops nxt stop start i w)"
proof -
  have "(w, d) \<in> set (reached le start (walk nxt stop limit start)) \<longleftrightarrow>
      w \<noteq> start \<and> w \<in> fst ` set (walk nxt stop limit start) \<and> d = least_depth w (walk nxt stop limit start)"
    by (auto simp: reached_def)
  moreover have "w \<in> fst ` set (walk nxt stop limit start)" if "d \<le> limit" "hops nxt stop start d w"
    using walk_has [OF that(2,1)] by force
  moreover have "d = e" if "hops nxt stop start d w" "\<forall>i<d. \<not> hops nxt stop start i w" "hops nxt stop start e w" "\<forall>i<e. \<not> hops nxt stop start i w" for d e
    using that by (metis linorder_neqE_nat)
  ultimately show ?thesis using least_depth_hops [of w] by blast
qed

lemma reached_distinct: "distinct (map fst (reached le start (walk nxt stop limit start)))"
  by (simp add: reached_def comp_def)

text \<open>The last working table is empty: the recursion has ended.\<close>

lemma last_table_empty: "walk_table nxt stop limit start (limit + 1) = []"
proof (rule ccontr)
  assume "walk_table nxt stop limit start (limit + 1) \<noteq> []"
  then obtain w d path cyc where "(w, d, path, cyc) \<in> set (walk_table nxt stop limit start (limit + 1))"
    by (metis last_in_set prod_cases4)
  then show False using table_hops by fastforce
qed


end
