(* ===== verification/Graph_Read.thy ===== *)
theory Graph_Read
  imports Graph_Query Trace_Graph
begin

text \<open>
  Reading a stored graph (\<^verbatim>\<open>web/app/api/graph/route.ts\<close>): the checks of a request, the subgraph of a
  start node, the bounded rows, and what the answer says of their evidence. Whether the caller is
  verified, the pool is free and the queries succeed are fields of the request and of the snapshot;
  the database's collation and the capture times of rows are arguments.
\<close>

section \<open>Requests and answers\<close>

record graph_request =
  gq_verified :: bool
  gq_class :: "string option"
  gq_account :: "string option"
  gq_from :: "string option"
  gq_depth :: "rat option"

text \<open>What the one snapshot of the read transaction holds, and whether it is there to be read.\<close>

record read_snapshot =
  sn_busy :: bool
  sn_query_fails :: bool
  sn_states :: "read_failure + state_row list"
  sn_tables :: graph_tables

record shown_edge =
  se_source :: string
  se_target :: string
  se_rel :: string
  se_confidence :: string
  se_meta :: js_object

record subgraph_note =
  sg_from :: string
  sg_depth :: rat
  sg_capped :: bool

record graph_answer =
  an_class :: graph_class
  an_account :: string
  an_subgraph :: "subgraph_note option"
  an_nodes :: "topo_node list"
  an_edges :: "shown_edge list"
  an_captured :: js
  an_collection :: js_object

datatype graph_response =
    Unauthenticated
  | Unknown_Class string
  | Invalid_Account string
  | Read_Failure nat js_object
  | Graph_Shown graph_answer

definition READ_NODE_LIMIT :: nat where "READ_NODE_LIMIT = 4000"
definition READ_EDGE_LIMIT :: nat where "READ_EDGE_LIMIT = 8000"

section \<open>Rows\<close>

fun distinct_on :: "('a \<Rightarrow> 'k) \<Rightarrow> 'a list \<Rightarrow> 'a list" where
  "distinct_on key [] = []"
| "distinct_on key (x # xs) = x # filter (\<lambda>y. key y \<noteq> key x) (distinct_on key xs)"

record graph_clock =
  gc_le :: "string \<Rightarrow> string \<Rightarrow> bool"
  gc_node :: "topo_node \<Rightarrow> int"
  gc_edge :: "topo_edge \<Rightarrow> int"

definition node_order :: "graph_clock \<Rightarrow> topo_node \<Rightarrow> topo_node \<Rightarrow> bool" where
  "node_order ck a b \<longleftrightarrow> (if tn_id a \<noteq> tn_id b then gc_le ck (tn_id a) (tn_id b) else gc_node ck b \<le> gc_node ck a)"

definition edge_order :: "graph_clock \<Rightarrow> topo_edge \<Rightarrow> topo_edge \<Rightarrow> bool" where
  "edge_order ck a b \<longleftrightarrow>
     (if te_source a \<noteq> te_source b then gc_le ck (te_source a) (te_source b)
      else if te_target a \<noteq> te_target b then gc_le ck (te_target a) (te_target b)
      else if te_rel a \<noteq> te_rel b then gc_le ck (te_rel a) (te_rel b)
      else gc_edge ck b \<le> gc_edge ck a)"

definition shown_edge_of :: "topo_edge \<Rightarrow> shown_edge" where
  "shown_edge_of e = \<lparr>se_source = te_source e, se_target = te_target e, se_rel = te_rel e,
     se_confidence = te_confidence e, se_meta = te_meta e\<rparr>"

definition scoped_nodes :: "graph_class \<Rightarrow> string \<Rightarrow> string list option \<Rightarrow> graph_tables \<Rightarrow> topo_node list" where
  "scoped_nodes cls scope ids st = filter (\<lambda>n. in_account scope (tn_account n) \<and> tn_class n = cls \<and>
     (case ids of None \<Rightarrow> True | Some is \<Rightarrow> tn_id n \<in> set is)) (gt_nodes st)"

definition graph_rows ::
  "graph_clock \<Rightarrow> graph_class \<Rightarrow> string \<Rightarrow> string list option \<Rightarrow> graph_tables \<Rightarrow> topo_node list \<times> shown_edge list \<times> bool" where
  "graph_rows ck cls scope ids st =
     (let nodes = take (READ_NODE_LIMIT + 1) (distinct_on tn_id (sort_le (node_order ck) (scoped_nodes cls scope ids st)));
          visible = take READ_NODE_LIMIT nodes;
          names = map tn_id visible;
          edges = take (READ_EDGE_LIMIT + 1) (sort_le (edge_order ck)
            (filter (\<lambda>e. in_account scope (te_account e) \<and> te_class e = cls \<and>
               te_source e \<in> set names \<and> te_target e \<in> set names) (gt_edges st)))
      in (visible, js_set (map shown_edge_of (take READ_EDGE_LIMIT edges)),
          READ_NODE_LIMIT < length nodes \<or> READ_EDGE_LIMIT < length edges))"

definition evidence_nodes :: "graph_class \<Rightarrow> topo_node list \<Rightarrow> topo_node list" where
  "evidence_nodes cls ns = (if cls \<noteq> Trace_Class then ns
     else map (\<lambda>n. if tn_kind n = ''queue'' then n\<lparr>tn_meta := queue_claim_meta (tn_meta n)\<rparr> else n) ns)"

definition count_seen :: "js \<Rightarrow> int option" where
  "count_seen v = (case v of JNum n \<Rightarrow> if 0 \<le> n then Some n else None | _ \<Rightarrow> None)"

definition edge_observed :: "js_object \<Rightarrow> bool" where
  "edge_observed m = (case (count_seen (field m ''spanCount''), count_seen (field m ''metricCount'')) of
      (Some a, Some b) \<Rightarrow> 0 < a + b | _ \<Rightarrow> False)"

definition evidence_edges :: "graph_class \<Rightarrow> shown_edge list \<Rightarrow> shown_edge list" where
  "evidence_edges cls es = (if cls \<noteq> Trace_Class then es
     else map (\<lambda>e. e\<lparr>se_confidence := (if edge_observed (se_meta e) then ''observed'' else ''unknown'')\<rparr>) es)"

section \<open>The handler\<close>

definition unknown_collection :: "graph_class \<Rightarrow> js_object" where
  "unknown_collection cls = [(''status'', JStr ''unknown''), (''stale'', JBool True), (''captured_at'', JNull),
     (''attempted_at'', JNull), (''sources'', JArr []),
     (''evidenceKind'', JStr (if cls = Trace_Class then ''trace'' else ''inventory''))]"

definition class_of :: "string \<Rightarrow> graph_class option" where
  "class_of raw = (if raw = ''flow'' then Some Flow_Class else if raw = ''infra'' then Some Infra_Class
     else if raw = ''trace'' then Some Trace_Class else None)"

definition requested_depth :: "rat option \<Rightarrow> rat" where
  "requested_depth d = (case d of None \<Rightarrow> 2 | Some d \<Rightarrow> if 0 < d then d else 2)"

definition subgraph_ids ::
  "graph_clock \<Rightarrow> graph_class \<Rightarrow> string \<Rightarrow> rat \<Rightarrow> string \<Rightarrow> graph_tables \<Rightarrow> string list" where
  "subgraph_ids ck cls scope depth start st = js_set (start #
     map fst (traverse (gc_le ck) Down scope cls st (Some depth) start) @
     map fst (traverse (gc_le ck) Up scope cls st (Some depth) start))"

text \<open>Some node of the subgraph has more rows under its source than a hop expands.\<close>

definition fanout_capped :: "graph_class \<Rightarrow> string \<Rightarrow> string list \<Rightarrow> graph_tables \<Rightarrow> bool" where
  "fanout_capped cls scope ids st \<longleftrightarrow> list_ex (\<lambda>i. FANOUT_CAP < length (filter (\<lambda>e. in_account scope (te_account e) \<and>
     te_class e = cls \<and> te_source e = i) (gt_edges st))) ids"

definition collection_of ::
  "int \<Rightarrow> int option \<Rightarrow> int option \<Rightarrow> string \<Rightarrow> graph_class \<Rightarrow> read_snapshot \<Rightarrow> js_object" where
  "collection_of now interval configured account cls sn =
     (case read_graph_state now interval configured account cls (sn_states sn) of
        Some c \<Rightarrow> c
      | None \<Rightarrow> spread (unknown_collection cls) [(''failureReason'', JStr ''state_read_failed'')])"

definition read_graph ::
  "graph_clock \<Rightarrow> int \<Rightarrow> int option \<Rightarrow> int option \<Rightarrow> graph_class \<Rightarrow> string \<Rightarrow> string option \<Rightarrow> rat option \<Rightarrow>
   read_snapshot \<Rightarrow> graph_answer" where
  "read_graph ck now interval configured cls account start depth sn =
     (let c = collection_of now interval configured account cls sn;
          d = requested_depth depth;
          ids = (case start of None \<Rightarrow> None | Some i \<Rightarrow> Some (subgraph_ids ck cls account d i (sn_tables sn)));
          capped = (case ids of None \<Rightarrow> False | Some is \<Rightarrow> fanout_capped cls account is (sn_tables sn))
      in case graph_rows ck cls account ids (sn_tables sn) of (nodes, edges, truncated) \<Rightarrow>
        \<lparr>an_class = cls, an_account = account,
         an_subgraph = map_option (\<lambda>i. \<lparr>sg_from = i, sg_depth = d, sg_capped = (capped \<or> truncated)\<rparr>) start,
         an_nodes = evidence_nodes cls nodes, an_edges = evidence_edges cls edges, an_captured = field c ''captured_at'',
         an_collection = spread c ([(''readStatus'', JStr (if truncated then ''partial'' else ''ok''))] @
           (if truncated then [(''readTruncated'', JBool True), (''readReason'', JStr ''row_limit'')] else []))\<rparr>)"

definition asked_account :: "graph_request \<Rightarrow> string" where
  "asked_account q = (let asked = text_or ''self'' (gq_account q) in if asked = [] then ''self'' else asked)"

definition asked_start :: "graph_request \<Rightarrow> string option" where
  "asked_start q = (if has_value (gq_from q) then gq_from q else None)"

definition get_graph ::
  "graph_clock \<Rightarrow> int \<Rightarrow> int option \<Rightarrow> int option \<Rightarrow> graph_request \<Rightarrow> read_snapshot \<Rightarrow> graph_response" where
  "get_graph ck now interval configured q sn =
     (if \<not> gq_verified q then Unauthenticated
      else (let raw = text_or ''flow'' (gq_class q) in case class_of raw of
          None \<Rightarrow> Unknown_Class raw
        | Some cls \<Rightarrow>
            (let account = asked_account q in
             if account \<noteq> ''self'' \<and> account \<noteq> ''__all__'' \<and> \<not> twelve_digits account then Invalid_Account account
             else if sn_busy sn \<or> sn_query_fails sn
               then Read_Failure (if sn_busy sn then 503 else 500) (spread (unknown_collection cls)
                 [(''readStatus'', JStr ''unavailable''), (''readReason'', JStr (if sn_busy sn then ''busy'' else ''query_failed''))])
             else Graph_Shown (read_graph ck now interval configured cls account (asked_start q) (gq_depth q) sn))))"

section \<open>What an answer holds\<close>

lemma image_away: "insert (f x) (f ` {y \<in> S. f y \<noteq> f x}) = insert (f x) (f ` S)"
  by auto

lemma keys_distinct_on: "key ` set (distinct_on key xs) = key ` set xs"
  by (induction xs) (simp_all add: image_away)

lemma set_distinct_on: "set (distinct_on key xs) \<subseteq> set xs"
  by (induction xs) auto

lemma distinct_distinct_on: "distinct (map key (distinct_on key xs))"
  by (induction xs) (auto simp: distinct_map_filter)

lemma graph_rows_spec:
  assumes "graph_rows ck cls scope ids st = (nodes, edges, truncated)"
  shows "set nodes \<subseteq> set (scoped_nodes cls scope ids st)" "distinct (map tn_id nodes)"
    "length nodes \<le> READ_NODE_LIMIT" "length edges \<le> READ_EDGE_LIMIT"
    "e \<in> set edges \<Longrightarrow> se_source e \<in> tn_id ` set nodes \<and> se_target e \<in> tn_id ` set nodes \<and>
      (\<exists>x\<in>set (gt_edges st). in_account scope (te_account x) \<and> te_class x = cls \<and> e = shown_edge_of x)"
    "\<not> truncated \<Longrightarrow> tn_id ` set nodes = tn_id ` set (scoped_nodes cls scope ids st)"
proof -
  let ?all = "distinct_on tn_id (sort_le (node_order ck) (scoped_nodes cls scope ids st))"
  let ?seen = "take READ_NODE_LIMIT (take (READ_NODE_LIMIT + 1) ?all)"
  let ?es = "take (READ_EDGE_LIMIT + 1) (sort_le (edge_order ck) (filter (\<lambda>e. in_account scope (te_account e) \<and>
    te_class e = cls \<and> te_source e \<in> set (map tn_id ?seen) \<and> te_target e \<in> set (map tn_id ?seen)) (gt_edges st)))"
  have "(nodes, edges, truncated) = (?seen, js_set (map shown_edge_of (take READ_EDGE_LIMIT ?es)),
      READ_NODE_LIMIT < length (take (READ_NODE_LIMIT + 1) ?all) \<or> READ_EDGE_LIMIT < length ?es)"
    using assms [symmetric] unfolding graph_rows_def Let_def .
  then have r: "nodes = ?seen" "edges = js_set (map shown_edge_of (take READ_EDGE_LIMIT ?es))"
    "truncated \<longleftrightarrow> READ_NODE_LIMIT < length (take (READ_NODE_LIMIT + 1) ?all) \<or> READ_EDGE_LIMIT < length ?es"
    unfolding prod.inject by blast+
  have sub: "set ?seen \<subseteq> set ?all" by (meson order_trans set_take_subset)
  show "set nodes \<subseteq> set (scoped_nodes cls scope ids st)" using sub set_distinct_on [of tn_id] unfolding r(1) by fastforce
  show "distinct (map tn_id nodes)" unfolding r(1) take_map [symmetric] by (intro distinct_take distinct_distinct_on)
  show "length nodes \<le> READ_NODE_LIMIT" unfolding r(1) by simp
  show "length edges \<le> READ_EDGE_LIMIT"
    unfolding r(2) length_js_set by (rule order_trans [OF card_length]) simp
  show "e \<in> set edges \<Longrightarrow> se_source e \<in> tn_id ` set nodes \<and> se_target e \<in> tn_id ` set nodes \<and>
      (\<exists>x\<in>set (gt_edges st). in_account scope (te_account x) \<and> te_class x = cls \<and> e = shown_edge_of x)"
    unfolding r(1,2) by (auto dest!: in_set_takeD simp: shown_edge_of_def)
  show "\<not> truncated \<Longrightarrow> tn_id ` set nodes = tn_id ` set (scoped_nodes cls scope ids st)"
  proof -
    assume "\<not> truncated"
    then have "\<not> READ_NODE_LIMIT < length (take (READ_NODE_LIMIT + 1) ?all)" unfolding r(3) by blast
    then have "length ?all \<le> READ_NODE_LIMIT" by (auto simp: min_def split: if_splits)
    then have "nodes = ?all" unfolding r(1) by simp
    then show ?thesis by (simp add: keys_distinct_on del: set_map)
  qed
qed

lemma evidence_nodes_ids: "map tn_id (evidence_nodes cls ns) = map tn_id ns"
  by (simp add: evidence_nodes_def)

lemma evidence_edges_ends:
  "e \<in> set (evidence_edges cls es) \<Longrightarrow> \<exists>x\<in>set es. se_source e = se_source x \<and> se_target e = se_target x \<and> se_rel e = se_rel x"
  by (auto simp: evidence_edges_def split: if_splits)

text \<open>
  Every hop within the fan-out is a hop of the whole graph; without a capped node, the converse.
\<close>

lemma hops_uncapped:
  assumes "hops (all_next Down scope cls st) stop start n w" "n \<le> limit"
    and reach: "\<And>u d. d < limit \<Longrightarrow> hops (next_nodes le Down scope cls st) stop start d u \<Longrightarrow>
      length (all_next Down scope cls st u) \<le> FANOUT_CAP"
  shows "hops (next_nodes le Down scope cls st) stop start n w"
  using assms(1,2)
proof (induction rule: hops.induct)
  case (hop_next n u v)
  then have u: "hops (next_nodes le Down scope cls st) stop start n u" by simp
  then have "length (all_next Down scope cls st u) \<le> FANOUT_CAP" using reach [of n u] hop_next.prems by simp
  then have "set (next_nodes le Down scope cls st u) = set (all_next Down scope cls st u)" by (simp add: next_nodes_def)
  then show ?case using hops.hop_next [OF u] hop_next.hyps by simp
qed (rule hop_start)

lemma hops_traversed:
  assumes "hops (next_nodes le dir scope cls st) (default_group scope cls st) start n w" "n \<le> clamp_depth depth"
  shows "w = start \<or> w \<in> fst ` set (traverse le dir scope cls st depth start)"
proof (cases "w = start")
  case False
  define d where "d = (LEAST i. hops (next_nodes le dir scope cls st) (default_group scope cls st) start i w)"
  have "hops (next_nodes le dir scope cls st) (default_group scope cls st) start d w" "d \<le> n"
    "\<forall>i<d. \<not> hops (next_nodes le dir scope cls st) (default_group scope cls st) start i w"
    unfolding d_def using assms(1) by (auto intro: LeastI Least_le dest: not_less_Least)
  then have "(w, d) \<in> set (traverse le dir scope cls st depth start)"
    unfolding traverse_def reached_iff using False assms(2) by simp
  then show ?thesis by force
qed simp

lemma read_graph_fields:
  assumes "graph_rows ck cls account (map_option (\<lambda>i. subgraph_ids ck cls account (requested_depth depth) i (sn_tables sn)) start)
    (sn_tables sn) = (nodes, edges, truncated)"
  shows "an_class (read_graph ck now interval configured cls account start depth sn) = cls"
    "an_account (read_graph ck now interval configured cls account start depth sn) = account"
    "an_nodes (read_graph ck now interval configured cls account start depth sn) = evidence_nodes cls nodes"
    "an_edges (read_graph ck now interval configured cls account start depth sn) = evidence_edges cls edges"
    "an_subgraph (read_graph ck now interval configured cls account start depth sn) = map_option (\<lambda>i.
      \<lparr>sg_from = i, sg_depth = requested_depth depth, sg_capped = (fanout_capped cls account
        (subgraph_ids ck cls account (requested_depth depth) i (sn_tables sn)) (sn_tables sn) \<or> truncated)\<rparr>) start"
  using assms by (cases start; simp add: read_graph_def Let_def)+

lemma shown_request:
  assumes "get_graph ck now interval configured q sn = Graph_Shown a"
  obtains cls where "gq_verified q" "class_of (text_or ''flow'' (gq_class q)) = Some cls"
    "an_account a \<in> {''self'', ''__all__''} \<or> twelve_digits (an_account a)" "\<not> sn_busy sn" "\<not> sn_query_fails sn"
    "a = read_graph ck now interval configured cls (an_account a) (asked_start q) (gq_depth q) sn"
proof -
  obtain cls where c: "gq_verified q" "class_of (text_or ''flow'' (gq_class q)) = Some cls" "\<not> sn_busy sn" "\<not> sn_query_fails sn"
    "asked_account q \<in> {''self'', ''__all__''} \<or> twelve_digits (asked_account q)"
    "a = read_graph ck now interval configured cls (asked_account q) (asked_start q) (gq_depth q) sn"
    using assms unfolding get_graph_def Let_def by (auto split: if_splits option.splits)
  obtain nodes edges truncated where "graph_rows ck cls (asked_account q) (map_option (\<lambda>i. subgraph_ids ck cls (asked_account q)
      (requested_depth (gq_depth q)) i (sn_tables sn)) (asked_start q)) (sn_tables sn) = (nodes, edges, truncated)"
    by (rule prod_cases3)
  then have "an_account a = asked_account q" unfolding c(6) by (rule read_graph_fields(2))
  then show thesis using that [OF c(1,2)] c(3-6) by simp
qed

text \<open>
  What the graph endpoint shows is stored, in scope and whole. Only a verified caller gets rows,
  of a known class and of an account written as one; the nodes are stored rows of that class and
  scope with distinct ids, at most the limit of them, and every edge is a stored edge of the same
  class and scope between two nodes of the answer.
\<close>

theorem shown_graph_is_scoped:
  assumes "get_graph ck now interval configured q sn = Graph_Shown a"
  shows "gq_verified q \<and> (an_account a \<in> {''self'', ''__all__''} \<or> twelve_digits (an_account a)) \<and>
    distinct (map tn_id (an_nodes a)) \<and> length (an_nodes a) \<le> READ_NODE_LIMIT \<and> length (an_edges a) \<le> READ_EDGE_LIMIT \<and>
    list_all (\<lambda>i. list_ex (\<lambda>n. tn_id n = i \<and> in_account (an_account a) (tn_account n) \<and> tn_class n = an_class a)
      (gt_nodes (sn_tables sn))) (map tn_id (an_nodes a)) \<and>
    list_all (\<lambda>e. se_source e \<in> tn_id ` set (an_nodes a) \<and> se_target e \<in> tn_id ` set (an_nodes a) \<and>
      list_ex (\<lambda>x. in_account (an_account a) (te_account x) \<and> te_class x = an_class a \<and> te_source x = se_source e \<and>
        te_target x = se_target e \<and> te_rel x = se_rel e) (gt_edges (sn_tables sn))) (an_edges a)"
proof -
  obtain cls where q: "gq_verified q" "an_account a \<in> {''self'', ''__all__''} \<or> twelve_digits (an_account a)"
    "a = read_graph ck now interval configured cls (an_account a) (asked_start q) (gq_depth q) sn"
    using shown_request [OF assms] by metis
  obtain nodes edges truncated where rows0: "graph_rows ck cls (an_account a) (map_option (\<lambda>i. subgraph_ids ck cls (an_account a)
      (requested_depth (gq_depth q)) i (sn_tables sn)) (asked_start q)) (sn_tables sn) = (nodes, edges, truncated)"
    by (rule prod_cases3)
  note rows = rows0 read_graph_fields(1,3,4) [OF rows0, of now interval configured, folded q(3)]
  note spec = graph_rows_spec [OF rows(1)]
  have ids: "tn_id ` set (an_nodes a) = tn_id ` set nodes" "map tn_id (an_nodes a) = map tn_id nodes"
    unfolding rows(3) set_map [symmetric] by (simp_all only: evidence_nodes_ids)
  have "length (an_nodes a) \<le> READ_NODE_LIMIT" "length (an_edges a) \<le> READ_EDGE_LIMIT"
    using spec(3,4) by (simp_all add: rows(3,4) evidence_nodes_def evidence_edges_def)
  moreover have "list_ex (\<lambda>n. tn_id n = i \<and> in_account (an_account a) (tn_account n) \<and> tn_class n = an_class a) (gt_nodes (sn_tables sn))"
    if "i \<in> set (map tn_id (an_nodes a))" for i
    using that spec(1) unfolding ids(2) rows(2) by (auto simp: scoped_nodes_def list_ex_iff)
  moreover have "se_source e \<in> tn_id ` set nodes \<and> se_target e \<in> tn_id ` set nodes \<and>
      list_ex (\<lambda>x. in_account (an_account a) (te_account x) \<and> te_class x = an_class a \<and> te_source x = se_source e \<and>
        te_target x = se_target e \<and> te_rel x = se_rel e) (gt_edges (sn_tables sn))" if e: "e \<in> set (an_edges a)" for e
  proof -
    obtain y where y: "y \<in> set edges" "se_source e = se_source y" "se_target e = se_target y" "se_rel e = se_rel y"
      using evidence_edges_ends e unfolding rows(4) by blast
    from spec(5) [OF y(1)] show ?thesis unfolding y(2-4) rows(2) list_ex_iff by (auto simp: shown_edge_of_def)
  qed
  ultimately show ?thesis using q(1,2) spec(2) ids unfolding list_all_iff by simp
qed

text \<open>A subgraph that is not marked capped has every row below its nodes expanded.\<close>

lemma uncapped_next:
  "\<not> fanout_capped cls scope ids st \<Longrightarrow> i \<in> set ids \<Longrightarrow> length (all_next Down scope cls st i) \<le> FANOUT_CAP"
  by (auto simp: fanout_capped_def list_ex_iff all_next_def from_end_def simp flip: not_less)

lemma uncapped_reach:
  assumes "\<not> fanout_capped cls scope (subgraph_ids ck cls scope depth start st) st" "n \<le> clamp_depth (Some depth)"
    and "hops (all_next Down scope cls st) (default_group scope cls st) start n w"
  shows "w \<in> set (subgraph_ids ck cls scope depth start st)"
proof -
  let ?ids = "subgraph_ids ck cls scope depth start st"
  have ids: "w \<in> set ?ids" if "hops (next_nodes (gc_le ck) Down scope cls st) (default_group scope cls st) start d w"
      "d \<le> clamp_depth (Some depth)" for d w
    using hops_traversed [OF that] by (auto simp: subgraph_ids_def)
  have "hops (next_nodes (gc_le ck) Down scope cls st) (default_group scope cls st) start n w"
    using hops_uncapped [OF assms(3,2)] uncapped_next [OF assms(1)] ids by (meson less_imp_le)
  then show ?thesis using ids assms(2) by blast
qed


section \<open>What the mark of a capped subgraph misses\<close>

text \<open>A security group used by twenty-one resources, asked for with what depends on it.\<close>

definition user_name :: "nat \<Rightarrow> string" where
  "user_name i = ''ec2:'' @ show_nat i"

definition shared_group :: graph_tables where
  "shared_group = \<lparr>
     gt_nodes = map (\<lambda>i. node_row ''self'' Infra_Class ''r'' \<lparr>gn_id = i, gn_kind = ''ec2'', gn_label = i, gn_meta = None\<rparr>)
       (''sg:a'' # map user_name [0..<21]),
     gt_edges = map (\<lambda>i. edge_row ''self'' Infra_Class ''r'' \<lparr>ge_source = user_name i, ge_target = ''sg:a'',
       ge_rel = ''infra:uses_sg'', ge_confidence = ''observed'', ge_meta = None\<rparr>) [0..<21],
     gt_states = []\<rparr>"

definition plain_clock :: graph_clock where
  "plain_clock = \<lparr>gc_le = \<lambda>a b. a \<le> b, gc_node = \<lambda>_. 0, gc_edge = \<lambda>_. 0\<rparr>"

definition group_answer :: graph_answer where
  "group_answer = read_graph plain_clock 0 None None Infra_Class ''self'' (Some ''sg:a'') None
     \<lparr>sn_busy = False, sn_query_fails = False, sn_states = Inr [], sn_tables = shared_group\<rparr>"

lemma capped_upstream_goes_unsaid:
  "map_option sg_capped (an_subgraph group_answer) = Some False \<and> length (an_nodes group_answer) = 21 \<and>
   length (gt_nodes shared_group) = 22"
  by code_simp

definition group_request :: graph_request where
  "group_request = \<lparr>gq_verified = True, gq_class = Some ''infra'', gq_account = None, gq_from = Some ''sg:a'', gq_depth = None\<rparr>"

lemma group_shown:
  "get_graph plain_clock 0 None None group_request
     \<lparr>sn_busy = False, sn_query_fails = False, sn_states = Inr [], sn_tables = shared_group\<rparr> = Graph_Shown group_answer"
  by (simp add: get_graph_def group_request_def Let_def text_or_def class_of_def asked_account_def asked_start_def
      has_value_def group_answer_def)

theorem shown_graph_is_scoped_witness:
  "distinct (map tn_id (an_nodes group_answer)) \<and> length (an_nodes group_answer) = 21"
  using shown_graph_is_scoped [OF group_shown] capped_upstream_goes_unsaid by blast

text \<open>A name and its load balancer.\<close>

definition pair_snapshot :: read_snapshot where
  "pair_snapshot = \<lparr>sn_busy = False, sn_query_fails = False, sn_states = Inr [], sn_tables = \<lparr>
     gt_nodes = map (node_row ''self'' Flow_Class ''r'') two_nodes, gt_edges = map (edge_row ''self'' Flow_Class ''r'') one_edge,
     gt_states = []\<rparr>\<rparr>"

definition pair_request :: graph_request where
  "pair_request = \<lparr>gq_verified = True, gq_class = None, gq_account = None, gq_from = Some ''r53:a'', gq_depth = None\<rparr>"

definition pair_answer :: graph_answer where
  "pair_answer = read_graph plain_clock 0 None None Flow_Class ''self'' (Some ''r53:a'') None pair_snapshot"

lemma pair_shown: "get_graph plain_clock 0 None None pair_request pair_snapshot = Graph_Shown pair_answer"
  by (simp add: get_graph_def pair_request_def pair_snapshot_def Let_def text_or_def class_of_def asked_account_def
      asked_start_def has_value_def pair_answer_def)

lemma pair_uncapped:
  "an_subgraph pair_answer = Some \<lparr>sg_from = ''r53:a'', sg_depth = 2, sg_capped = False\<rparr> \<and> an_account pair_answer = ''self'' \<and>
   an_class pair_answer = Flow_Class"
  by code_simp


end
