(* ===== verification/Path_Clusters.thy ===== *)
theory Path_Clusters
  imports Js_Prelude "HOL-Library.Monad_Syntax"
begin

text \<open>
  The graph data of \<open>web/lib/policy-graph.ts\<close> and \<open>buildPathClusters\<close>: union-find over the
  path ids of tagged nodes and edges, and the grouping of the tagged structure by root. The
  parent map is a partial function; \<open>find_root\<close> keeps the source's unbounded loop and is
  proved to return on every forest the code can build, with two path ids in one tree exactly
  when a chain of shared items connects them.
\<close>

section \<open>Graph data\<close>

datatype policy_status = Allowed | Blocked | Unknown | Not_Run | Not_Applicable

record policy_scope =
  account_id :: string
  region :: string

record policy_node =
  nid :: string
  n_kind :: string
  n_label :: string
  n_status :: policy_status
  n_resource_id :: "string option"
  n_scope :: "policy_scope option"
  n_path_ids :: "string list option"

record policy_edge =
  eid :: string
  e_source :: string
  e_target :: string
  e_relation :: string
  e_status :: policy_status
  e_label :: "string option"
  e_path_ids :: "string list option"
  e_step_ordinals :: "int list option"

record graph_caps =
  cap_nodes :: nat
  cap_edges :: nat

definition policy_node_id :: "string \<Rightarrow> string \<Rightarrow> string" where
  "policy_node_id kind rid = kind @ '':'' @ rid"

text \<open>The suffix is optional and an empty one counts as absent (a falsy string).\<close>

definition policy_edge_id :: "string \<Rightarrow> string \<Rightarrow> string option \<Rightarrow> string" where
  "policy_edge_id source target suffix =
     (case suffix of
        Some sfx \<Rightarrow> if sfx \<noteq> [] then source @ ''->'' @ target @ ''#'' @ sfx else source @ ''->'' @ target
      | None \<Rightarrow> source @ ''->'' @ target)"

definition path_ids_of :: "string list option \<Rightarrow> string list" where
  "path_ids_of ids = (case ids of None \<Rightarrow> [] | Some xs \<Rightarrow> xs)"

definition has_path_ids :: "string list option \<Rightarrow> bool" where
  "has_path_ids ids \<longleftrightarrow> (case ids of None \<Rightarrow> False | Some xs \<Rightarrow> xs \<noteq> [])"

lemma has_path_ids_iff: "has_path_ids ids \<longleftrightarrow> path_ids_of ids \<noteq> []"
  by (simp add: has_path_ids_def path_ids_of_def split: option.splits)

section \<open>Union-find\<close>

type_synonym parents = "string \<Rightarrow> string option"

text \<open>
  \<open>while (parent.get(r) !== r) r = parent.get(r)\<close>. \<^const>\<open>None\<close> stands for the two ways the
  loop yields no root: it runs forever, or it leaves the map. Neither happens on a forest.
\<close>

partial_function (option) find_root :: "parents \<Rightarrow> string \<Rightarrow> string option" where
  "find_root p x =
     (case p x of None \<Rightarrow> None | Some y \<Rightarrow> if y = x then Some x else find_root p y)"

declare find_root.simps [code]

definition ensure :: "parents \<Rightarrow> string \<Rightarrow> parents" where
  "ensure p x = (if p x = None then p(x \<mapsto> x) else p)"

definition unite :: "parents \<Rightarrow> string \<Rightarrow> string \<Rightarrow> parents option" where
  "unite p a b =
     (case find_root p a of None \<Rightarrow> None
      | Some ra \<Rightarrow> (case find_root p b of None \<Rightarrow> None
        | Some rb \<Rightarrow> Some (if ra \<noteq> rb then p(ra \<mapsto> rb) else p)))"

text \<open>\<open>for (let i = 1; i < ids.length; i++) union(ids[0], ids[i])\<close>.\<close>

fun unite_all :: "parents \<Rightarrow> string \<Rightarrow> string list \<Rightarrow> parents option" where
  "unite_all p x [] = Some p"
| "unite_all p x (y # ys) = (case unite p x y of None \<Rightarrow> None | Some p' \<Rightarrow> unite_all p' x ys)"

definition add_item :: "parents \<Rightarrow> string list \<Rightarrow> parents option" where
  "add_item p ids =
     (let p = foldl ensure p ids
      in case ids of [] \<Rightarrow> Some p | x # ys \<Rightarrow> unite_all p x ys)"

fun add_items :: "parents \<Rightarrow> string list list \<Rightarrow> parents option" where
  "add_items p [] = Some p"
| "add_items p (ids # rest) = (case add_item p ids of None \<Rightarrow> None | Some p' \<Rightarrow> add_items p' rest)"

text \<open>The path from an id to its root, as a relation.\<close>

inductive root_of :: "parents \<Rightarrow> string \<Rightarrow> string \<Rightarrow> bool" for p where
  root: "p x = Some x \<Longrightarrow> root_of p x x"
| parent: "p x = Some y \<Longrightarrow> y \<noteq> x \<Longrightarrow> root_of p y r \<Longrightarrow> root_of p x r"

inductive_cases root_ofE: "root_of p x r"

lemma root_of_find: "root_of p x r \<Longrightarrow> find_root p x = Some r"
  by (induction rule: root_of.induct) (simp_all add: find_root.simps)

lemma find_root_of:
  assumes ret: "find_root p x = Some r"
  shows "root_of p x r"
proof -
  have "(case (p, x) of (p, x) \<Rightarrow> root_of p x) r"
  proof (rule find_root.raw_induct [where P = root_of])
    show "(case (p, x) of (p, x) \<Rightarrow> find_root p x) = Some r" using ret by simp
  next
    fix f p x r
    assume IH: "\<And>p x r. f p x = Some r \<Longrightarrow> root_of p x r"
      and eq: "(case p x of None \<Rightarrow> None | Some y \<Rightarrow> if y = x then Some x else f p y) = Some r"
    show "root_of p x r"
      using eq by (auto split: option.splits if_splits intro: root parent IH)
  qed
  then show ?thesis by simp
qed

lemma find_root_iff: "find_root p x = Some r \<longleftrightarrow> root_of p x r"
  using root_of_find find_root_of by blast

lemma root_of_fun: "root_of p x r \<Longrightarrow> root_of p x r' \<Longrightarrow> r = r'"
  by (metis root_of_find option.inject)

lemma root_is_root: "root_of p x r \<Longrightarrow> p r = Some r"
  by (induction rule: root_of.induct)

lemma root_of_dom: "root_of p x r \<Longrightarrow> x \<in> dom p"
  by (erule root_ofE) auto

lemma root_of_root: "root_of p x r \<Longrightarrow> root_of p r r"
  by (drule root_is_root) (rule root)

text \<open>A forest: every recorded id has a root.\<close>

definition forest :: "parents \<Rightarrow> bool" where
  "forest p \<longleftrightarrow> (\<forall>x\<in>dom p. \<exists>r. root_of p x r)"

lemma forest_empty: "forest Map.empty"
  by (simp add: forest_def)

lemma forestE: "forest p \<Longrightarrow> x \<in> dom p \<Longrightarrow> (\<And>r. root_of p x r \<Longrightarrow> thesis) \<Longrightarrow> thesis"
  unfolding forest_def by blast

lemma root_of_extend: "root_of p x r \<Longrightarrow> p \<subseteq>\<^sub>m q \<Longrightarrow> root_of q x r"
proof (induction rule: root_of.induct)
  case (root x)
  then have "q x = Some x" by (metis map_le_def domI)
  then show ?case by (rule root_of.root)
next
  case (parent x y r)
  then have "q x = Some y" by (metis map_le_def domI)
  with parent show ?case by (blast intro: root_of.parent)
qed

lemma ensure_extends: "p \<subseteq>\<^sub>m ensure p z"
  by (auto simp: ensure_def map_le_def)

lemma root_of_ensure: "root_of p x r \<Longrightarrow> root_of (ensure p z) x r"
  using root_of_extend ensure_extends by blast

lemma ensure_forest:
  assumes "forest p"
  shows "forest (ensure p z)"
  unfolding forest_def
proof
  fix x assume x: "x \<in> dom (ensure p z)"
  show "\<exists>r. root_of (ensure p z) x r"
  proof (cases "x \<in> dom p")
    case True
    then show ?thesis using assms root_of_ensure unfolding forest_def by blast
  next
    case False
    with x have "ensure p z x = Some x" by (auto simp: ensure_def split: if_splits)
    then show ?thesis by (blast intro: root)
  qed
qed

lemma dom_ensure: "dom (ensure p z) = insert z (dom p)"
  by (auto simp: ensure_def)

lemma root_of_ensure_old: "root_of (ensure p z) x r \<Longrightarrow> x \<in> dom p \<Longrightarrow> forest p \<Longrightarrow> root_of p x r"
  by (metis forestE root_of_ensure root_of_fun)

lemma foldl_ensure:
  "forest p \<Longrightarrow> forest (foldl ensure p ids) \<and> dom (foldl ensure p ids) = set ids \<union> dom p"
  by (induction ids arbitrary: p) (auto simp: ensure_forest dom_ensure)

lemma foldl_ensure_root: "root_of p x r \<Longrightarrow> root_of (foldl ensure p ids) x r"
  by (induction ids arbitrary: p) (auto intro: root_of_ensure)

text \<open>Linking root \<open>ra\<close> below root \<open>rb\<close> redirects exactly the ids whose root was \<open>ra\<close>.\<close>

definition link :: "parents \<Rightarrow> string \<Rightarrow> string \<Rightarrow> parents" where
  "link p ra rb = (if ra \<noteq> rb then p(ra \<mapsto> rb) else p)"

lemma unite_link: "root_of p a ra \<Longrightarrow> root_of p b rb \<Longrightarrow> unite p a b = Some (link p ra rb)"
  by (simp add: unite_def link_def root_of_find)

lemma dom_link: "p ra = Some ra \<Longrightarrow> dom (link p ra rb) = dom p"
  by (auto simp: link_def)

lemma root_of_link:
  assumes "root_of p x r" "p ra = Some ra" "p rb = Some rb"
  shows "root_of (link p ra rb) x (if r = ra then rb else r)"
  using assms
proof (induction rule: root_of.induct)
  case (root x)
  let ?q = "link p ra rb"
  have rb: "root_of ?q rb rb" using root by (intro root_of.root) (auto simp: link_def)
  have "root_of ?q ra rb"
  proof (cases "ra = rb")
    case False
    then show ?thesis by (intro root_of.parent [OF _ _ rb]) (auto simp: link_def)
  qed (use rb in simp)
  moreover have "root_of ?q x x" if "x \<noteq> ra"
    using root that by (intro root_of.root) (auto simp: link_def)
  ultimately show ?case by simp
next
  case (parent x y r)
  then have "link p ra rb x = Some y" by (auto simp: link_def)
  with parent show ?case by (blast intro: root_of.parent)
qed

lemma link_forest:
  assumes "forest p" "p ra = Some ra" "p rb = Some rb"
  shows "forest (link p ra rb)"
  unfolding forest_def
proof
  fix x assume "x \<in> dom (link p ra rb)"
  then have "x \<in> dom p" using dom_link assms(2) by blast
  with assms(1) obtain r where "root_of p x r" by (rule forestE)
  then show "\<exists>r. root_of (link p ra rb) x r" using root_of_link assms(2,3) by blast
qed

section \<open>The partition the union-find computes\<close>

text \<open>Ids of one item are to end up together, and nothing else.\<close>

definition same_root :: "parents \<Rightarrow> string \<Rightarrow> string \<Rightarrow> bool" where
  "same_root p a b \<longleftrightarrow> (\<exists>r. root_of p a r \<and> root_of p b r)"

lemma same_root_sym: "same_root p a b \<Longrightarrow> same_root p b a"
  by (auto simp: same_root_def)

lemma same_root_trans: "same_root p a b \<Longrightarrow> same_root p b c \<Longrightarrow> same_root p a c"
  unfolding same_root_def using root_of_fun by blast

inductive linked :: "string list set \<Rightarrow> string \<Rightarrow> string \<Rightarrow> bool" for S where
  refl: "linked S a a"
| step: "linked S a b \<Longrightarrow> ids \<in> S \<Longrightarrow> b \<in> set ids \<Longrightarrow> c \<in> set ids \<Longrightarrow> linked S a c"

lemma linked_trans: "linked S b c \<Longrightarrow> linked S a b \<Longrightarrow> linked S a c"
  by (induction rule: linked.induct) (auto intro: linked.step)

lemma linked_sym: "linked S a b \<Longrightarrow> linked S b a"
proof (induction rule: linked.induct)
  case (step a b ids c)
  then have "linked S c b" by (auto intro: linked.intros)
  from step.IH this show ?case by (rule linked_trans)
qed (rule linked.refl)

lemma linked_mono: "linked S a b \<Longrightarrow> S \<subseteq> T \<Longrightarrow> linked T a b"
  by (induction rule: linked.induct) (auto intro: linked.intros)

lemma linked_item: "ids \<in> S \<Longrightarrow> a \<in> set ids \<Longrightarrow> b \<in> set ids \<Longrightarrow> linked S a b"
  by (auto intro: linked.intros)

text \<open>
  What one stretch of the loop preserves: the recorded ids, the forest, every union made so
  far, and that roots stay within the links of the items seen.
\<close>

definition roots_linked :: "string list set \<Rightarrow> parents \<Rightarrow> bool" where
  "roots_linked S p \<longleftrightarrow> (\<forall>x r. root_of p x r \<longrightarrow> linked S x r)"

definition refines :: "parents \<Rightarrow> parents \<Rightarrow> bool" where
  "refines p q \<longleftrightarrow> forest q \<and> dom q = dom p \<and> (\<forall>u v. same_root p u v \<longrightarrow> same_root q u v)"

lemma refines_trans: "refines p q \<Longrightarrow> refines q r \<Longrightarrow> refines p r"
  by (auto simp: refines_def)

lemma refines_link:
  assumes "forest p" "p ra = Some ra" "p rb = Some rb"
  shows "refines p (link p ra rb)"
  using assms link_forest dom_link root_of_link [OF _ assms(2,3)]
  unfolding refines_def same_root_def by blast

lemma roots_linked_link:
  assumes "forest p" "p ra = Some ra" "p rb = Some rb" "roots_linked S p" "linked S ra rb"
  shows "roots_linked S (link p ra rb)"
  unfolding roots_linked_def
proof (intro allI impI)
  fix x r'
  assume r': "root_of (link p ra rb) x r'"
  then have "x \<in> dom p" using root_of_dom dom_link assms(2) by blast
  with assms(1) obtain r where r: "root_of p x r" by (rule forestE)
  have "root_of (link p ra rb) x (if r = ra then rb else r)"
    by (rule root_of_link [OF r assms(2,3)])
  then have "r' = (if r = ra then rb else r)" using r' root_of_fun by blast
  moreover have "linked S x r" using assms(4) r by (simp add: roots_linked_def)
  ultimately show "linked S x r'" using linked_trans [OF assms(5)] by auto
qed

lemma unite_spec:
  assumes "forest p" "a \<in> dom p" "b \<in> dom p"
  shows "\<exists>q. unite p a b = Some q \<and> refines p q \<and> same_root q a b \<and>
    (\<forall>S. roots_linked S p \<and> linked S a b \<longrightarrow> roots_linked S q)"
proof -
  obtain ra where ra: "root_of p a ra" using assms(1,2) by (rule forestE)
  obtain rb where rb: "root_of p b rb" using assms(1,3) by (rule forestE)
  note roots = root_is_root [OF ra] root_is_root [OF rb]
  have "same_root (link p ra rb) a b"
    using root_of_link [OF ra roots] root_of_link [OF rb roots]
    unfolding same_root_def by (metis (full_types))
  moreover have "roots_linked S (link p ra rb)" if "roots_linked S p" "linked S a b" for S
  proof (rule roots_linked_link [OF assms(1) roots that(1)])
    have "linked S a ra" "linked S b rb" using that(1) ra rb by (auto simp: roots_linked_def)
    then show "linked S ra rb" using that(2) linked_sym linked_trans by blast
  qed
  ultimately show ?thesis
    using unite_link [OF ra rb] refines_link [OF assms(1) roots] by blast
qed

lemma unite_all_spec:
  assumes "forest p" "x \<in> dom p" "set ys \<subseteq> dom p"
  shows "\<exists>q. unite_all p x ys = Some q \<and> refines p q \<and> (\<forall>y\<in>set ys. same_root q x y) \<and>
    (\<forall>S. roots_linked S p \<and> (\<forall>y\<in>set ys. linked S x y) \<longrightarrow> roots_linked S q)"
  using assms
proof (induction ys arbitrary: p)
  case Nil
  then show ?case by (auto simp: refines_def)
next
  case (Cons y ys)
  then have y: "y \<in> dom p" by simp
  obtain q where q: "unite p x y = Some q" "refines p q" "same_root q x y"
    and linked_q: "\<forall>S. roots_linked S p \<and> linked S x y \<longrightarrow> roots_linked S q"
    using unite_spec [OF Cons.prems(1,2) y] by blast
  have "forest q" "x \<in> dom q" "set ys \<subseteq> dom q"
    using q(2) Cons.prems by (auto simp: refines_def)
  from Cons.IH [OF this] obtain q' where q': "unite_all q x ys = Some q'" "refines q q'"
    "\<forall>y\<in>set ys. same_root q' x y"
    "\<forall>S. roots_linked S q \<and> (\<forall>y\<in>set ys. linked S x y) \<longrightarrow> roots_linked S q'" by blast
  have "unite_all p x (y # ys) = Some q'" using q(1) q'(1) by simp
  moreover have "refines p q'" using q(2) q'(2) by (rule refines_trans)
  moreover have "same_root q' x y" using q(3) q'(2) by (simp add: refines_def)
  moreover have "\<forall>S. roots_linked S p \<and> (\<forall>z\<in>set (y # ys). linked S x z) \<longrightarrow> roots_linked S q'"
    using q'(4) linked_q by simp
  ultimately show ?case using q'(1,3) by auto
qed

text \<open>One item: its ids are recorded and united.\<close>

lemma roots_linked_ensure:
  assumes "forest p" "roots_linked S p"
  shows "roots_linked S (foldl ensure p ids)"
  using assms
proof (induction ids arbitrary: p)
  case (Cons z ids)
  have "roots_linked S (ensure p z)"
    unfolding roots_linked_def
  proof (intro allI impI)
    fix x r assume r: "root_of (ensure p z) x r"
    show "linked S x r"
    proof (cases "x \<in> dom p")
      case True
      with Cons.prems(1) obtain r' where "root_of p x r'" by (rule forestE)
      with r Cons.prems(2) show ?thesis
        using root_of_ensure root_of_fun unfolding roots_linked_def by blast
    next
      case False
      with r have "ensure p z x = Some x"
        using root_of_dom [OF r] by (auto simp: ensure_def split: if_splits)
      then have "r = x" using root_of.root root_of_fun r by blast
      then show ?thesis by (simp add: linked.refl)
    qed
  qed
  with Cons show ?case by (simp add: ensure_forest)
qed simp

lemma add_item_spec:
  assumes "forest p"
  shows "\<exists>q. add_item p ids = Some q \<and> forest q \<and> dom q = set ids \<union> dom p \<and>
    (\<forall>u v. same_root p u v \<longrightarrow> same_root q u v) \<and>
    (\<forall>u\<in>set ids. \<forall>v\<in>set ids. same_root q u v) \<and>
    (\<forall>S. roots_linked S p \<longrightarrow> roots_linked (insert ids S) q)"
proof (cases ids)
  case Nil
  then show ?thesis
    using assms by (auto simp: add_item_def roots_linked_def intro: linked_mono)
next
  case (Cons x ys)
  let ?p = "foldl ensure p ids"
  have p: "forest ?p" "dom ?p = set ids \<union> dom p" using foldl_ensure [OF assms] by auto
  have keep: "same_root p u v \<Longrightarrow> same_root ?p u v" for u v
    by (auto simp: same_root_def intro: foldl_ensure_root)
  have "x \<in> dom ?p" "set ys \<subseteq> dom ?p" using p(2) Cons by auto
  then obtain q where q: "unite_all ?p x ys = Some q" "refines ?p q"
    "\<forall>y\<in>set ys. same_root q x y"
    "\<forall>S. roots_linked S ?p \<and> (\<forall>y\<in>set ys. linked S x y) \<longrightarrow> roots_linked S q"
    using unite_all_spec [OF p(1)] by blast
  have dom: "dom q = set ids \<union> dom p" and forest: "forest q"
    using q(2) p(2) by (auto simp: refines_def)
  have "same_root q x x" using forest dom Cons unfolding forest_def same_root_def by auto
  then have x: "\<forall>u\<in>set ids. same_root q x u" using q(3) Cons by auto
  have "roots_linked (insert ids S) q" if "roots_linked S p" for S
  proof -
    have "roots_linked (insert ids S) p"
      using that linked_mono unfolding roots_linked_def by (meson subset_insertI)
    then have "roots_linked (insert ids S) ?p" by (rule roots_linked_ensure [OF assms])
    moreover have "\<forall>y\<in>set ys. linked (insert ids S) x y"
      using linked_item [of ids "insert ids S"] Cons by simp
    ultimately show ?thesis using q(4) by blast
  qed
  moreover have "add_item p ids = Some q" using q(1) Cons by (simp add: add_item_def Let_def)
  moreover have "\<forall>u\<in>set ids. \<forall>v\<in>set ids. same_root q u v"
    using x same_root_sym same_root_trans by blast
  ultimately show ?thesis
    using forest dom keep q(2) unfolding refines_def by blast
qed

lemma add_items_spec:
  assumes "forest p" "roots_linked S p"
  shows "\<exists>q. add_items p items = Some q \<and> forest q \<and> dom q = \<Union>(set ` set items) \<union> dom p \<and>
    (\<forall>u v. same_root p u v \<longrightarrow> same_root q u v) \<and>
    (\<forall>ids\<in>set items. \<forall>u\<in>set ids. \<forall>v\<in>set ids. same_root q u v) \<and>
    roots_linked (set items \<union> S) q"
  using assms
proof (induction items arbitrary: p S)
  case Nil
  then show ?case by auto
next
  case (Cons ids items)
  obtain q where q: "add_item p ids = Some q" "forest q" "dom q = set ids \<union> dom p"
    "\<forall>u v. same_root p u v \<longrightarrow> same_root q u v"
    "\<forall>u\<in>set ids. \<forall>v\<in>set ids. same_root q u v" "roots_linked (insert ids S) q"
    using add_item_spec [OF Cons.prems(1)] Cons.prems(2) by blast
  obtain q' where q': "add_items q items = Some q'" "forest q'"
    "dom q' = \<Union>(set ` set items) \<union> dom q"
    "\<forall>u v. same_root q u v \<longrightarrow> same_root q' u v"
    "\<forall>ids\<in>set items. \<forall>u\<in>set ids. \<forall>v\<in>set ids. same_root q' u v"
    "roots_linked (set items \<union> insert ids S) q'"
    using Cons.IH [OF q(2,6)] by blast
  have "add_items p (ids # items) = Some q'" using q(1) q'(1) by simp
  moreover have "dom q' = \<Union>(set ` set (ids # items)) \<union> dom p" using q(3) q'(3) by auto
  moreover have "\<forall>i\<in>set (ids # items). \<forall>u\<in>set i. \<forall>v\<in>set i. same_root q' u v"
    using q(5) q'(4,5) by auto
  moreover have "roots_linked (set (ids # items) \<union> S) q'" using q'(6) by simp
  moreover have "\<forall>u v. same_root p u v \<longrightarrow> same_root q' u v" using q'(4) q(4) by simp
  ultimately show ?case using q'(2) by (intro exI [of _ q'] conjI)
qed

text \<open>
  The partition theorem: from the empty map the whole loop returns, and two ids share a root
  exactly when shared items link them.
\<close>

lemma add_items_partition:
  obtains p where "add_items Map.empty items = Some p" "forest p"
    "dom p = \<Union>(set ` set items)"
    "\<And>a b. a \<in> dom p \<Longrightarrow> same_root p a b \<longleftrightarrow> linked (set items) a b"
proof -
  have "roots_linked {} Map.empty"
    by (auto simp: roots_linked_def elim: root_ofE)
  then obtain p where p: "add_items Map.empty items = Some p" "forest p"
    "dom p = \<Union>(set ` set items)"
    "\<forall>ids\<in>set items. \<forall>u\<in>set ids. \<forall>v\<in>set ids. same_root p u v" "roots_linked (set items) p"
    using add_items_spec [OF forest_empty, of "{}" items] by auto
  have sound: "linked (set items) a b" if "same_root p a b" for a b
    using that p(5) linked_sym linked_trans unfolding same_root_def roots_linked_def by blast
  have complete: "same_root p a b" if "linked (set items) a b" "a \<in> dom p" for a b
    using that
  proof (induction rule: linked.induct)
    case (refl a)
    then show ?case using p(2) unfolding same_root_def forest_def by blast
  next
    case (step a b ids c)
    then have "same_root p b c" using p(4) by blast
    with step show ?case using same_root_trans by blast
  qed
  show thesis using that [OF p(1,2,3)] sound complete by blast
qed

section \<open>Grouping the tagged structure\<close>

record path_cluster =
  pc_ids :: "string list"
  pc_min :: string
  pc_nodes :: "policy_node list"
  pc_edges :: "policy_edge list"

type_synonym by_root = "(string \<times> path_cluster) list"

abbreviation node_ids :: "policy_node \<Rightarrow> string list" where
  "node_ids n \<equiv> path_ids_of (n_path_ids n)"

abbreviation edge_ids :: "policy_edge \<Rightarrow> string list" where
  "edge_ids e \<equiv> path_ids_of (e_path_ids e)"

text \<open>
  \<open>clusterFor(ids[0])\<close> followed by the additions to the cluster it returns; the cluster is
  created with the asked id as provisional \<open>minPathId\<close>. \<^const>\<open>None\<close>: no id or no root.
\<close>

definition put_item ::
  "parents \<Rightarrow> string list \<Rightarrow> (path_cluster \<Rightarrow> path_cluster) \<Rightarrow> by_root \<Rightarrow> by_root option" where
  "put_item p ids push m =
     (case ids of [] \<Rightarrow> None
      | any # _ \<Rightarrow> do {
          r \<leftarrow> find_root p any;
          let c = (case map_of m r of Some c \<Rightarrow> c
                   | None \<Rightarrow> \<lparr>pc_ids = [], pc_min = any, pc_nodes = [], pc_edges = []\<rparr>);
          Some (AList.update r (push (c\<lparr>pc_ids := js_add_all ids (pc_ids c)\<rparr>)) m)
        })"

definition put_node :: "parents \<Rightarrow> policy_node \<Rightarrow> by_root \<Rightarrow> by_root option" where
  "put_node p n = put_item p (node_ids n) (\<lambda>c. c\<lparr>pc_nodes := pc_nodes c @ [n]\<rparr>)"

definition put_edge :: "parents \<Rightarrow> policy_edge \<Rightarrow> by_root \<Rightarrow> by_root option" where
  "put_edge p e = put_item p (edge_ids e) (\<lambda>c. c\<lparr>pc_edges := pc_edges c @ [e]\<rparr>)"

fun put_all :: "('a \<Rightarrow> by_root \<Rightarrow> by_root option) \<Rightarrow> 'a list \<Rightarrow> by_root \<Rightarrow> by_root option" where
  "put_all put [] m = Some m"
| "put_all put (x # xs) m = do { m' \<leftarrow> put x m; put_all put xs m' }"

text \<open>
  The boundary nodes: an edge endpoint the cluster does not hold is looked up among all
  nodes and joins the cluster; an endpoint that names no node is skipped.
\<close>

definition pull_endpoint ::
  "(string \<Rightarrow> policy_node option) \<Rightarrow> policy_node list \<times> string list \<Rightarrow> string \<Rightarrow> policy_node list \<times> string list" where
  "pull_endpoint node_by_id = (\<lambda>(ns, have_ids) x.
     if x \<in> set have_ids then (ns, have_ids)
     else (case node_by_id x of None \<Rightarrow> (ns, have_ids) | Some b \<Rightarrow> (ns @ [b], js_add x have_ids)))"

definition edge_endpoints :: "policy_edge list \<Rightarrow> string list" where
  "edge_endpoints es = concat (map (\<lambda>e. [e_source e, e_target e]) es)"

definition finish_cluster ::
  "(string \<Rightarrow> string \<Rightarrow> bool) \<Rightarrow> (string \<Rightarrow> policy_node option) \<Rightarrow> path_cluster \<Rightarrow> path_cluster" where
  "finish_cluster le node_by_id c =
     (let ns = fst (foldl (pull_endpoint node_by_id)
                 (pc_nodes c, js_set (map nid (pc_nodes c))) (edge_endpoints (pc_edges c)))
      in c\<lparr>pc_nodes := sort_le (\<lambda>a b. le (nid a) (nid b)) ns,
           pc_edges := sort_le (\<lambda>a b. le (eid a) (eid b)) (pc_edges c),
           pc_min := (case sort (pc_ids c) of [] \<Rightarrow> pc_min c | x # _ \<Rightarrow> x)\<rparr>)"

definition build_path_clusters ::
  "(string \<Rightarrow> string \<Rightarrow> bool) \<Rightarrow> policy_node list \<Rightarrow> policy_edge list \<Rightarrow>
   (string \<Rightarrow> policy_node option) \<Rightarrow> path_cluster list option" where
  "build_path_clusters le path_nodes path_edges node_by_id = do {
     p \<leftarrow> add_items Map.empty (map node_ids path_nodes @ map edge_ids path_edges);
     m \<leftarrow> put_all (put_node p) path_nodes [];
     m \<leftarrow> put_all (put_edge p) path_edges m;
     Some (sort_le (\<lambda>a b. le (pc_min a) (pc_min b)) (map (finish_cluster le node_by_id) (map snd m)))
   }"

subsection \<open>What the grouping loop leaves in the map\<close>

definition key_of :: "parents \<Rightarrow> string list \<Rightarrow> string option" where
  "key_of p ids = (case ids of [] \<Rightarrow> None | x # _ \<Rightarrow> find_root p x)"

abbreviation at_root :: "parents \<Rightarrow> string \<Rightarrow> string list \<Rightarrow> bool" where
  "at_root p r ids \<equiv> key_of p ids = Some r"

definition group_ok ::
  "parents \<Rightarrow> policy_node list \<Rightarrow> policy_edge list \<Rightarrow> string \<Rightarrow> path_cluster \<Rightarrow> bool" where
  "group_ok p ns es r c \<longleftrightarrow>
     pc_nodes c = filter (\<lambda>n. at_root p r (node_ids n)) ns \<and>
     pc_edges c = filter (\<lambda>e. at_root p r (edge_ids e)) es \<and>
     set (pc_ids c) = \<Union>(set ` node_ids ` set (pc_nodes c)) \<union> \<Union>(set ` edge_ids ` set (pc_edges c))"

definition grouped :: "parents \<Rightarrow> policy_node list \<Rightarrow> policy_edge list \<Rightarrow> by_root \<Rightarrow> bool" where
  "grouped p ns es m \<longleftrightarrow> distinct (map fst m) \<and>
     (\<forall>r. case map_of m r of
        None \<Rightarrow> filter (\<lambda>n. at_root p r (node_ids n)) ns = [] \<and> filter (\<lambda>e. at_root p r (edge_ids e)) es = []
      | Some c \<Rightarrow> group_ok p ns es r c)"

lemma grouped_empty: "grouped p [] [] []"
  by (simp add: grouped_def)

abbreviation current :: "string list \<Rightarrow> string \<Rightarrow> by_root \<Rightarrow> path_cluster" where
  "current ids r m \<equiv> (case map_of m r of Some c \<Rightarrow> c
     | None \<Rightarrow> \<lparr>pc_ids = [], pc_min = hd ids, pc_nodes = [], pc_edges = []\<rparr>)"

lemma put_item_Some:
  assumes "at_root p r ids"
  shows "put_item p ids push m = Some (AList.update r (push
    ((current ids r m)\<lparr>pc_ids := js_add_all ids (pc_ids (current ids r m))\<rparr>)) m)"
  using assms by (cases ids; cases "map_of m r") (auto simp: put_item_def key_of_def Let_def)

lemma grouped_current: "grouped p ns es m \<Longrightarrow> group_ok p ns es r (current ids r m)"
  unfolding grouped_def by (drule conjunct2, drule spec [of _ r])
    (auto simp: group_ok_def split: option.splits)

lemma grouped_update:
  assumes "grouped p ns es m" and "group_ok p ns' es' r c"
    and "\<And>r'. r' \<noteq> r \<Longrightarrow> filter (\<lambda>n. at_root p r' (node_ids n)) ns' = filter (\<lambda>n. at_root p r' (node_ids n)) ns"
    and "\<And>r'. r' \<noteq> r \<Longrightarrow> filter (\<lambda>e. at_root p r' (edge_ids e)) es' = filter (\<lambda>e. at_root p r' (edge_ids e)) es"
  shows "grouped p ns' es' (AList.update r c m)"
  unfolding grouped_def
proof (intro conjI allI)
  show "distinct (map fst (AList.update r c m))"
    using assms(1) by (simp add: grouped_def distinct_update)
next
  fix r'
  have "case map_of m r' of
        None \<Rightarrow> filter (\<lambda>n. at_root p r' (node_ids n)) ns = [] \<and> filter (\<lambda>e. at_root p r' (edge_ids e)) es = []
      | Some c \<Rightarrow> group_ok p ns es r' c"
    using assms(1) by (simp add: grouped_def)
  then show "case map_of (AList.update r c m) r' of
        None \<Rightarrow> filter (\<lambda>n. at_root p r' (node_ids n)) ns' = [] \<and> filter (\<lambda>e. at_root p r' (edge_ids e)) es' = []
      | Some c \<Rightarrow> group_ok p ns' es' r' c"
    using assms(2-4) by (cases "r' = r") (auto simp: update_conv' group_ok_def split: option.splits)
qed

lemma grouped_node:
  assumes "grouped p ns es m" "at_root p r (node_ids n)"
  shows "\<exists>m'. put_node p n m = Some m' \<and> grouped p (ns @ [n]) es m'"
proof -
  let ?c = "current (node_ids n) r m"
  let ?c1 = "?c\<lparr>pc_ids := js_add_all (node_ids n) (pc_ids ?c)\<rparr>"
  let ?c2 = "?c1\<lparr>pc_nodes := pc_nodes ?c1 @ [n]\<rparr>"
  have "group_ok p ns es r ?c" using assms(1) by (rule grouped_current)
  then have ok: "group_ok p (ns @ [n]) es r ?c2" using assms(2) by (auto simp: group_ok_def)
  have "grouped p (ns @ [n]) es (AList.update r ?c2 m)"
    by (rule grouped_update [OF assms(1) ok]) (use assms(2) in auto)
  then show ?thesis unfolding put_node_def put_item_Some [OF assms(2)] by blast
qed

lemma grouped_edge:
  assumes "grouped p ns es m" "at_root p r (edge_ids e)"
  shows "\<exists>m'. put_edge p e m = Some m' \<and> grouped p ns (es @ [e]) m'"
proof -
  let ?c = "current (edge_ids e) r m"
  let ?c1 = "?c\<lparr>pc_ids := js_add_all (edge_ids e) (pc_ids ?c)\<rparr>"
  let ?c2 = "?c1\<lparr>pc_edges := pc_edges ?c1 @ [e]\<rparr>"
  have "group_ok p ns es r ?c" using assms(1) by (rule grouped_current)
  then have ok: "group_ok p ns (es @ [e]) r ?c2" using assms(2) by (auto simp: group_ok_def)
  have "grouped p ns (es @ [e]) (AList.update r ?c2 m)"
    by (rule grouped_update [OF assms(1) ok]) (use assms(2) in auto)
  then show ?thesis unfolding put_edge_def put_item_Some [OF assms(2)] by blast
qed

lemma put_all_nodes:
  assumes "grouped p ns0 es m" "\<forall>n\<in>set ns. \<exists>r. at_root p r (node_ids n)"
  shows "\<exists>m'. put_all (put_node p) ns m = Some m' \<and> grouped p (ns0 @ ns) es m'"
  using assms
proof (induction ns arbitrary: ns0 m)
  case (Cons n ns)
  then obtain m' where m': "put_node p n m = Some m'" "grouped p (ns0 @ [n]) es m'"
    using grouped_node by (metis list.set_intros(1))
  with Cons.IH [OF m'(2)] Cons.prems(2) show ?case by simp
qed simp

lemma put_all_edges:
  assumes "grouped p ns es0 m" "\<forall>e\<in>set es. \<exists>r. at_root p r (edge_ids e)"
  shows "\<exists>m'. put_all (put_edge p) es m = Some m' \<and> grouped p ns (es0 @ es) m'"
  using assms
proof (induction es arbitrary: es0 m)
  case (Cons e es)
  then obtain m' where m': "put_edge p e m = Some m'" "grouped p ns (es0 @ [e]) m'"
    using grouped_edge by (metis list.set_intros(1))
  with Cons.IH [OF m'(2)] Cons.prems(2) show ?case by simp
qed simp

subsection \<open>Pulling in the boundary\<close>

lemma pull_endpoints_spec:
  assumes "foldl (pull_endpoint nb) (ns, have_ids) xs = (ns', have')"
    and "set have_ids = nid ` set ns" and "\<forall>x b. nb x = Some b \<longrightarrow> nid b = x"
  shows "set have' = nid ` set ns' \<and> set ns \<subseteq> set ns' \<and>
    set ns' \<subseteq> set ns \<union> {b. \<exists>x\<in>set xs. nb x = Some b} \<and>
    (\<forall>x\<in>set xs. nb x \<noteq> None \<longrightarrow> x \<in> nid ` set ns')"
  using assms(1,2)
proof (induction xs arbitrary: ns have_ids)
  case (Cons x xs)
  obtain ns1 have1 where one: "pull_endpoint nb (ns, have_ids) x = (ns1, have1)" by fastforce
  have step: "set have1 = nid ` set ns1" "set ns \<subseteq> set ns1"
    "set ns1 \<subseteq> set ns \<union> {b. nb x = Some b}" "nb x \<noteq> None \<longrightarrow> x \<in> nid ` set ns1"
    using one Cons.prems(2) assms(3)
    by (auto simp: pull_endpoint_def split: if_splits option.splits)
  have "foldl (pull_endpoint nb) (ns1, have1) xs = (ns', have')" using Cons.prems(1) one by simp
  note IH = Cons.IH [OF this step(1)]
  show ?case using IH step by auto
qed simp

lemma pull_endpoints_distinct:
  assumes "foldl (pull_endpoint nb) (ns, have_ids) xs = (ns', have')"
    and "set have_ids = nid ` set ns" and "\<forall>x b. nb x = Some b \<longrightarrow> nid b = x" "distinct (map nid ns)"
  shows "distinct (map nid ns')"
  using assms(1,2,4)
proof (induction xs arbitrary: ns have_ids)
  case (Cons x xs)
  obtain ns1 have1 where one: "pull_endpoint nb (ns, have_ids) x = (ns1, have1)" by fastforce
  then have "set have1 = nid ` set ns1" "distinct (map nid ns1)"
    using Cons.prems(2,3) assms(3) by (auto simp: pull_endpoint_def split: if_splits option.splits)
  moreover have "foldl (pull_endpoint nb) (ns1, have1) xs = (ns', have')" using Cons.prems(1) one by simp
  ultimately show ?case using Cons.IH by blast
qed simp

lemma distinct_finish_cluster:
  assumes "\<forall>x b. nb x = Some b \<longrightarrow> nid b = x"
  shows "distinct (map nid (pc_nodes c)) \<Longrightarrow> distinct (map nid (pc_nodes (finish_cluster le nb c)))"
    and "distinct (map eid (pc_edges c)) \<Longrightarrow> distinct (map eid (pc_edges (finish_cluster le nb c)))"
proof -
  obtain ns' have' where f: "foldl (pull_endpoint nb)
      (pc_nodes c, js_set (map nid (pc_nodes c))) (edge_endpoints (pc_edges c)) = (ns', have')"
    by fastforce
  show "distinct (map nid (pc_nodes c)) \<Longrightarrow> distinct (map nid (pc_nodes (finish_cluster le nb c)))"
    using pull_endpoints_distinct [OF f _ assms] by (simp add: finish_cluster_def Let_def f)
  show "distinct (map eid (pc_edges c)) \<Longrightarrow> distinct (map eid (pc_edges (finish_cluster le nb c)))"
    by (simp add: finish_cluster_def Let_def)
qed

lemma finish_cluster_spec:
  assumes "\<forall>x b. nb x = Some b \<longrightarrow> nid b = x"
  shows "set (pc_edges (finish_cluster le nb c)) = set (pc_edges c)"
    and "pc_ids (finish_cluster le nb c) = pc_ids c"
    and "set (pc_nodes c) \<subseteq> set (pc_nodes (finish_cluster le nb c))"
    and "set (pc_nodes (finish_cluster le nb c)) \<subseteq>
      set (pc_nodes c) \<union> {b. \<exists>x\<in>set (edge_endpoints (pc_edges c)). nb x = Some b}"
    and "x \<in> set (edge_endpoints (pc_edges c)) \<Longrightarrow> nb x \<noteq> None \<Longrightarrow>
      x \<in> nid ` set (pc_nodes (finish_cluster le nb c))"
proof -
  obtain ns' have' where f: "foldl (pull_endpoint nb)
      (pc_nodes c, js_set (map nid (pc_nodes c))) (edge_endpoints (pc_edges c)) = (ns', have')"
    by fastforce
  note P = pull_endpoints_spec [OF f _ assms]
  show "set (pc_edges (finish_cluster le nb c)) = set (pc_edges c)"
    and "pc_ids (finish_cluster le nb c) = pc_ids c"
    by (simp_all add: finish_cluster_def Let_def)
  show "set (pc_nodes c) \<subseteq> set (pc_nodes (finish_cluster le nb c))"
    and "set (pc_nodes (finish_cluster le nb c)) \<subseteq>
      set (pc_nodes c) \<union> {b. \<exists>x\<in>set (edge_endpoints (pc_edges c)). nb x = Some b}"
    and "x \<in> set (edge_endpoints (pc_edges c)) \<Longrightarrow> nb x \<noteq> None \<Longrightarrow>
      x \<in> nid ` set (pc_nodes (finish_cluster le nb c))"
    using P by (simp_all add: finish_cluster_def Let_def f)
qed

subsection \<open>The clusters\<close>

text \<open>All path ids of a tagged graph, as the items the union-find sees.\<close>

definition path_items :: "policy_node list \<Rightarrow> policy_edge list \<Rightarrow> string list list" where
  "path_items ns es = map node_ids ns @ map edge_ids es"

lemma tagged_at_root:
  assumes "dom p = \<Union>(set ` set items)" "forest p" "ids \<in> set items" "ids \<noteq> []"
  shows "\<exists>r. at_root p r ids"
proof -
  obtain x xs where x: "ids = x # xs" using assms(4) by (cases ids) auto
  then have "x \<in> dom p" using assms(1,3) by (auto intro!: bexI [of _ ids])
  with assms(2) obtain r where "root_of p x r" by (rule forestE)
  then show ?thesis using x by (auto simp: key_of_def root_of_find)
qed

lemma build_path_clusters_grouped:
  assumes "\<forall>n\<in>set ns. has_path_ids (n_path_ids n)" "\<forall>e\<in>set es. has_path_ids (e_path_ids e)"
  obtains p m where "build_path_clusters le ns es nb =
      Some (sort_le (\<lambda>a b. le (pc_min a) (pc_min b)) (map (finish_cluster le nb) (map snd m)))"
    "grouped p ns es m" "forest p" "dom p = \<Union>(set ` set (path_items ns es))"
    "\<And>a b. a \<in> dom p \<Longrightarrow> same_root p a b \<longleftrightarrow> linked (set (path_items ns es)) a b"
proof -
  obtain p where p: "add_items Map.empty (path_items ns es) = Some p" "forest p"
    "dom p = \<Union>(set ` set (path_items ns es))"
    "\<And>a b. a \<in> dom p \<Longrightarrow> same_root p a b \<longleftrightarrow> linked (set (path_items ns es)) a b"
    using add_items_partition [of "path_items ns es"] by metis
  have n: "\<forall>n\<in>set ns. \<exists>r. at_root p r (node_ids n)"
    using assms(1) tagged_at_root [OF p(3,2)] by (auto simp: has_path_ids_iff path_items_def)
  have e: "\<forall>e\<in>set es. \<exists>r. at_root p r (edge_ids e)"
    using assms(2) tagged_at_root [OF p(3,2)] by (auto simp: has_path_ids_iff path_items_def)
  obtain m1 where m1: "put_all (put_node p) ns [] = Some m1" "grouped p ns [] m1"
    using put_all_nodes [OF grouped_empty n] by auto
  obtain m2 where m2: "put_all (put_edge p) es m1 = Some m2" "grouped p ns es m2"
    using put_all_edges [OF m1(2) e] by auto
  show thesis
  proof (rule that [OF _ m2(2) p(2,3,4)])
    show "build_path_clusters le ns es nb =
      Some (sort_le (\<lambda>a b. le (pc_min a) (pc_min b)) (map (finish_cluster le nb) (map snd m2)))"
      using p(1) m1(1) m2(1) by (simp add: build_path_clusters_def path_items_def)
  qed
qed

lemma grouped_covers:
  assumes "grouped p ns es m"
  shows "n \<in> set ns \<Longrightarrow> at_root p r (node_ids n) \<Longrightarrow> \<exists>c. (r, c) \<in> set m \<and> n \<in> set (pc_nodes c)"
    and "e \<in> set es \<Longrightarrow> at_root p r (edge_ids e) \<Longrightarrow> \<exists>c. (r, c) \<in> set m \<and> e \<in> set (pc_edges c)"
proof -
  have g: "case map_of m r of
        None \<Rightarrow> filter (\<lambda>n. at_root p r (node_ids n)) ns = [] \<and> filter (\<lambda>e. at_root p r (edge_ids e)) es = []
      | Some c \<Rightarrow> group_ok p ns es r c" for r
    using assms by (simp add: grouped_def)
  show "n \<in> set ns \<Longrightarrow> at_root p r (node_ids n) \<Longrightarrow> \<exists>c. (r, c) \<in> set m \<and> n \<in> set (pc_nodes c)"
    using g [of r] by (auto simp: group_ok_def filter_empty_conv split: option.splits dest: map_of_SomeD)
  show "e \<in> set es \<Longrightarrow> at_root p r (edge_ids e) \<Longrightarrow> \<exists>c. (r, c) \<in> set m \<and> e \<in> set (pc_edges c)"
    using g [of r] by (auto simp: group_ok_def filter_empty_conv split: option.splits dest: map_of_SomeD)
qed

lemma grouped_ok: "grouped p ns es m \<Longrightarrow> (r, c) \<in> set m \<Longrightarrow> group_ok p ns es r c"
  unfolding grouped_def by (metis map_of_is_SomeI option.simps(5))

text \<open>
  The contract of \<open>buildPathClusters\<close>, in one place: it returns; every tagged node and edge
  is in a cluster; a cluster holds only tagged edges, and its edges' existing endpoints; and
  whatever is linked through path ids to one of its items is in it as well.
\<close>

definition clusters_ok ::
  "policy_node list \<Rightarrow> policy_edge list \<Rightarrow> (string \<Rightarrow> policy_node option) \<Rightarrow> path_cluster list \<Rightarrow> bool" where
  "clusters_ok ns es nb cs \<longleftrightarrow>
     (\<forall>n\<in>set ns. \<exists>c\<in>set cs. n \<in> set (pc_nodes c)) \<and>
     (\<forall>e\<in>set es. \<exists>c\<in>set cs. e \<in> set (pc_edges c)) \<and>
     (\<forall>c\<in>set cs. set (pc_edges c) \<subseteq> set es \<and> set (pc_nodes c) \<subseteq> set ns \<union> ran nb) \<and>
     (\<forall>c\<in>set cs. \<forall>x\<in>set (edge_endpoints (pc_edges c)). nb x \<noteq> None \<longrightarrow> x \<in> nid ` set (pc_nodes c)) \<and>
     (\<forall>c\<in>set cs. \<forall>a\<in>set (pc_ids c). \<forall>b. linked (set (path_items ns es)) a b \<longrightarrow> b \<in> set (pc_ids c)) \<and>
     (\<forall>c\<in>set cs. \<forall>a\<in>set (pc_ids c). \<forall>b\<in>set (pc_ids c). linked (set (path_items ns es)) a b) \<and>
     (\<forall>c\<in>set cs. \<forall>e\<in>set es. \<forall>x\<in>set (edge_ids e). x \<in> set (pc_ids c) \<longrightarrow> e \<in> set (pc_edges c)) \<and>
     (\<forall>c\<in>set cs. \<forall>n\<in>set ns. \<forall>x\<in>set (node_ids n). x \<in> set (pc_ids c) \<longrightarrow> n \<in> set (pc_nodes c)) \<and>
     (\<forall>c\<in>set cs. \<forall>e\<in>set (pc_edges c). set (edge_ids e) \<subseteq> set (pc_ids c)) \<and>
     (distinct (map nid ns) \<longrightarrow> (\<forall>c\<in>set cs. distinct (map nid (pc_nodes c)))) \<and>
     (distinct (map eid es) \<longrightarrow> (\<forall>c\<in>set cs. distinct (map eid (pc_edges c))))"

lemma clusters_okD:
  shows "clusters_ok ns es nb cs \<Longrightarrow> n \<in> set ns \<Longrightarrow> \<exists>c\<in>set cs. n \<in> set (pc_nodes c)"
    and "clusters_ok ns es nb cs \<Longrightarrow> e \<in> set es \<Longrightarrow> \<exists>c\<in>set cs. e \<in> set (pc_edges c)"
    and "clusters_ok ns es nb cs \<Longrightarrow> c \<in> set cs \<Longrightarrow> set (pc_edges c) \<subseteq> set es"
    and "clusters_ok ns es nb cs \<Longrightarrow> c \<in> set cs \<Longrightarrow> set (pc_nodes c) \<subseteq> set ns \<union> ran nb"
    and "clusters_ok ns es nb cs \<Longrightarrow> c \<in> set cs \<Longrightarrow> x \<in> set (edge_endpoints (pc_edges c)) \<Longrightarrow> nb x \<noteq> None \<Longrightarrow> x \<in> nid ` set (pc_nodes c)"
    and "clusters_ok ns es nb cs \<Longrightarrow> c \<in> set cs \<Longrightarrow> a \<in> set (pc_ids c) \<Longrightarrow> linked (set (path_items ns es)) a b \<Longrightarrow> b \<in> set (pc_ids c)"
    and "clusters_ok ns es nb cs \<Longrightarrow> c \<in> set cs \<Longrightarrow> a \<in> set (pc_ids c) \<Longrightarrow> b \<in> set (pc_ids c) \<Longrightarrow> linked (set (path_items ns es)) a b"
    and "clusters_ok ns es nb cs \<Longrightarrow> c \<in> set cs \<Longrightarrow> e \<in> set es \<Longrightarrow> x \<in> set (edge_ids e) \<Longrightarrow> x \<in> set (pc_ids c) \<Longrightarrow> e \<in> set (pc_edges c)"
    and "clusters_ok ns es nb cs \<Longrightarrow> c \<in> set cs \<Longrightarrow> n \<in> set ns \<Longrightarrow> x \<in> set (node_ids n) \<Longrightarrow> x \<in> set (pc_ids c) \<Longrightarrow> n \<in> set (pc_nodes c)"
    and "clusters_ok ns es nb cs \<Longrightarrow> c \<in> set cs \<Longrightarrow> e \<in> set (pc_edges c) \<Longrightarrow> set (edge_ids e) \<subseteq> set (pc_ids c)"
    and "clusters_ok ns es nb cs \<Longrightarrow> c \<in> set cs \<Longrightarrow> distinct (map nid ns) \<Longrightarrow> distinct (map nid (pc_nodes c))"
    and "clusters_ok ns es nb cs \<Longrightarrow> c \<in> set cs \<Longrightarrow> distinct (map eid es) \<Longrightarrow> distinct (map eid (pc_edges c))"
proof -
  show "\<exists>c\<in>set cs. n \<in> set (pc_nodes c)"
    if ok: "clusters_ok ns es nb cs" and prems: "n \<in> set ns"
  proof -
    have "\<forall>n\<in>set ns. \<exists>c\<in>set cs. n \<in> set (pc_nodes c)"
      using ok unfolding clusters_ok_def by (elim conjE)
    then show ?thesis using prems by blast
  qed
  show "\<exists>c\<in>set cs. e \<in> set (pc_edges c)"
    if ok: "clusters_ok ns es nb cs" and prems: "e \<in> set es"
  proof -
    have "\<forall>e\<in>set es. \<exists>c\<in>set cs. e \<in> set (pc_edges c)"
      using ok unfolding clusters_ok_def by (elim conjE)
    then show ?thesis using prems by blast
  qed
  show "set (pc_edges c) \<subseteq> set es"
    if ok: "clusters_ok ns es nb cs" and prems: "c \<in> set cs"
  proof -
    have "\<forall>c\<in>set cs. set (pc_edges c) \<subseteq> set es \<and> set (pc_nodes c) \<subseteq> set ns \<union> ran nb"
      using ok unfolding clusters_ok_def by (elim conjE)
    then show ?thesis using prems by blast
  qed
  show "set (pc_nodes c) \<subseteq> set ns \<union> ran nb"
    if ok: "clusters_ok ns es nb cs" and prems: "c \<in> set cs"
  proof -
    have "\<forall>c\<in>set cs. set (pc_edges c) \<subseteq> set es \<and> set (pc_nodes c) \<subseteq> set ns \<union> ran nb"
      using ok unfolding clusters_ok_def by (elim conjE)
    then show ?thesis using prems by blast
  qed
  show "x \<in> nid ` set (pc_nodes c)"
    if ok: "clusters_ok ns es nb cs" and prems: "c \<in> set cs" "x \<in> set (edge_endpoints (pc_edges c))" "nb x \<noteq> None"
  proof -
    have "\<forall>c\<in>set cs. \<forall>x\<in>set (edge_endpoints (pc_edges c)). nb x \<noteq> None \<longrightarrow> x \<in> nid ` set (pc_nodes c)"
      using ok unfolding clusters_ok_def by (elim conjE)
    then show ?thesis using prems by blast
  qed
  show "b \<in> set (pc_ids c)"
    if ok: "clusters_ok ns es nb cs" and prems: "c \<in> set cs" "a \<in> set (pc_ids c)" "linked (set (path_items ns es)) a b"
  proof -
    have "\<forall>c\<in>set cs. \<forall>a\<in>set (pc_ids c). \<forall>b. linked (set (path_items ns es)) a b \<longrightarrow> b \<in> set (pc_ids c)"
      using ok unfolding clusters_ok_def by (elim conjE)
    then show ?thesis using prems by blast
  qed
  show "linked (set (path_items ns es)) a b"
    if ok: "clusters_ok ns es nb cs" and prems: "c \<in> set cs" "a \<in> set (pc_ids c)" "b \<in> set (pc_ids c)"
  proof -
    have "\<forall>c\<in>set cs. \<forall>a\<in>set (pc_ids c). \<forall>b\<in>set (pc_ids c). linked (set (path_items ns es)) a b"
      using ok unfolding clusters_ok_def by (elim conjE)
    then show ?thesis using prems by blast
  qed
  show "e \<in> set (pc_edges c)"
    if ok: "clusters_ok ns es nb cs" and prems: "c \<in> set cs" "e \<in> set es" "x \<in> set (edge_ids e)" "x \<in> set (pc_ids c)"
  proof -
    have "\<forall>c\<in>set cs. \<forall>e\<in>set es. \<forall>x\<in>set (edge_ids e). x \<in> set (pc_ids c) \<longrightarrow> e \<in> set (pc_edges c)"
      using ok unfolding clusters_ok_def by (elim conjE)
    then show ?thesis using prems by blast
  qed
  show "n \<in> set (pc_nodes c)"
    if ok: "clusters_ok ns es nb cs" and prems: "c \<in> set cs" "n \<in> set ns" "x \<in> set (node_ids n)" "x \<in> set (pc_ids c)"
  proof -
    have "\<forall>c\<in>set cs. \<forall>n\<in>set ns. \<forall>x\<in>set (node_ids n). x \<in> set (pc_ids c) \<longrightarrow> n \<in> set (pc_nodes c)"
      using ok unfolding clusters_ok_def by (elim conjE)
    then show ?thesis using prems by blast
  qed
  show "set (edge_ids e) \<subseteq> set (pc_ids c)"
    if ok: "clusters_ok ns es nb cs" and prems: "c \<in> set cs" "e \<in> set (pc_edges c)"
  proof -
    have "\<forall>c\<in>set cs. \<forall>e\<in>set (pc_edges c). set (edge_ids e) \<subseteq> set (pc_ids c)"
      using ok unfolding clusters_ok_def by (elim conjE)
    then show ?thesis using prems by blast
  qed
  show "distinct (map nid (pc_nodes c))"
    if ok: "clusters_ok ns es nb cs" and prems: "c \<in> set cs" "distinct (map nid ns)"
  proof -
    have "distinct (map nid ns) \<longrightarrow> (\<forall>c\<in>set cs. distinct (map nid (pc_nodes c)))"
      using ok unfolding clusters_ok_def by (elim conjE)
    then show ?thesis using prems by blast
  qed
  show "distinct (map eid (pc_edges c))"
    if ok: "clusters_ok ns es nb cs" and prems: "c \<in> set cs" "distinct (map eid es)"
  proof -
    have "distinct (map eid es) \<longrightarrow> (\<forall>c\<in>set cs. distinct (map eid (pc_edges c)))"
      using ok unfolding clusters_ok_def by (elim conjE)
    then show ?thesis using prems by blast
  qed
qed

lemma group_ids_root:
  assumes "group_ok p ns es r c" "forest p"
    and p: "dom p = \<Union>(set ` set (path_items ns es))"
      "\<And>a b. a \<in> dom p \<Longrightarrow> same_root p a b \<longleftrightarrow> linked (set (path_items ns es)) a b"
  shows "a \<in> set (pc_ids c) \<longleftrightarrow> root_of p a r"
proof -
  have item: "root_of p a r \<longleftrightarrow> at_root p r ids" if ids: "ids \<in> set (path_items ns es)" "a \<in> set ids" for ids a
  proof -
    obtain x xs where x: "ids = x # xs" using ids(2) by (cases ids) auto
    have "x \<in> dom p" using that x p(1) by (auto intro!: bexI [of _ ids])
    moreover have "linked (set (path_items ns es)) x a" using linked_item [OF that(1)] that(2) x by simp
    ultimately have "same_root p x a" using p(2) by blast
    then show ?thesis using x root_of_fun unfolding key_of_def same_root_def
      by (auto simp: find_root_iff)
  qed
  show ?thesis
  proof
    assume "a \<in> set (pc_ids c)"
    then obtain ids where "ids \<in> set (path_items ns es)" "a \<in> set ids" "at_root p r ids"
      using assms(1) by (auto simp: group_ok_def path_items_def)
    then show "root_of p a r" using item by blast
  next
    assume root: "root_of p a r"
    then obtain ids where ids: "ids \<in> set (path_items ns es)" "a \<in> set ids"
      using root_of_dom p(1) by blast
    with root item have "at_root p r ids" by blast
    with ids show "a \<in> set (pc_ids c)" using assms(1) by (auto simp: group_ok_def path_items_def)
  qed
qed

lemma build_path_clusters_ok:
  assumes "\<forall>n\<in>set ns. has_path_ids (n_path_ids n)" "\<forall>e\<in>set es. has_path_ids (e_path_ids e)"
    and nb: "\<forall>x b. nb x = Some b \<longrightarrow> nid b = x"
  shows "\<exists>cs. build_path_clusters le ns es nb = Some cs \<and> clusters_ok ns es nb cs"
proof -
  obtain p m where cs: "build_path_clusters le ns es nb =
      Some (sort_le (\<lambda>a b. le (pc_min a) (pc_min b)) (map (finish_cluster le nb) (map snd m)))"
    and g: "grouped p ns es m" and p: "forest p" "dom p = \<Union>(set ` set (path_items ns es))"
      "\<And>a b. a \<in> dom p \<Longrightarrow> same_root p a b \<longleftrightarrow> linked (set (path_items ns es)) a b"
    using build_path_clusters_grouped [OF assms(1,2)] by metis
  let ?cs = "sort_le (\<lambda>a b. le (pc_min a) (pc_min b)) (map (finish_cluster le nb) (map snd m))"
  note fin = finish_cluster_spec [OF nb]
  have in_cs: "finish_cluster le nb c \<in> set ?cs" if "(r, c) \<in> set m" for r c
    using that by force
  have from_cs: "\<exists>r c'. (r, c') \<in> set m \<and> c = finish_cluster le nb c' \<and> group_ok p ns es r c'"
    if "c \<in> set ?cs" for c using that grouped_ok [OF g] by force
  have root: "at_root p r ids \<longleftrightarrow> set ids \<inter> {a. root_of p a r} \<noteq> {}"
    if ids: "ids \<in> set (path_items ns es)" "ids \<noteq> []" for r ids
  proof -
    obtain x xs where x: "ids = x # xs" using ids(2) by (cases ids) auto
    have "x \<in> dom p" using that x p(2) by (auto intro!: bexI [of _ ids])
    moreover have "linked (set (path_items ns es)) x a" if "a \<in> set ids" for a
      using linked_item [OF \<open>ids \<in> _\<close>] x that by simp
    ultimately have "same_root p x a" if "a \<in> set ids" for a using that p(3) by blast
    then show ?thesis using x root_of_fun unfolding key_of_def same_root_def
      by (auto simp: find_root_iff) blast
  qed
  have node_root: "\<exists>r. at_root p r (node_ids n)" if "n \<in> set ns" for n
    using tagged_at_root [OF p(2,1)] that assms(1) by (auto simp: has_path_ids_iff path_items_def)
  have edge_root: "\<exists>r. at_root p r (edge_ids e)" if "e \<in> set es" for e
    using tagged_at_root [OF p(2,1)] that assms(2) by (auto simp: has_path_ids_iff path_items_def)
  have "clusters_ok ns es nb ?cs"
    unfolding clusters_ok_def
  proof (intro conjI ballI allI impI)
    fix n assume "n \<in> set ns"
    then show "\<exists>c\<in>set ?cs. n \<in> set (pc_nodes c)"
      using node_root grouped_covers(1) [OF g] in_cs fin(3) by (meson subsetD)
  next
    fix e assume "e \<in> set es"
    then show "\<exists>c\<in>set ?cs. e \<in> set (pc_edges c)"
      using edge_root grouped_covers(2) [OF g] in_cs fin(1) by (metis (no_types, lifting))
  next
    fix c assume "c \<in> set ?cs"
    then obtain r c' where c': "c = finish_cluster le nb c'" "group_ok p ns es r c'" using from_cs by blast
    have ids: "set (pc_ids c) = {a. root_of p a r}"
      using group_ids_root [OF c'(2) p] by (auto simp: c'(1) fin(2))
    show "set (pc_edges c) \<subseteq> set es"
      using c'(2) by (auto simp: c'(1) fin(1) group_ok_def)
    show "set (pc_nodes c) \<subseteq> set ns \<union> ran nb"
      using c'(2) fin(4) [of le c'] by (auto simp: c'(1) group_ok_def ran_def)
    show "x \<in> nid ` set (pc_nodes c)"
      if "x \<in> set (edge_endpoints (pc_edges c))" "nb x \<noteq> None" for x
      using that fin(5) fin(1) by (simp add: c'(1) edge_endpoints_def)
    show "b \<in> set (pc_ids c)"
      if "a \<in> set (pc_ids c)" "linked (set (path_items ns es)) a b" for a b
    proof -
      have a: "root_of p a r" using that(1) ids by simp
      then have "same_root p a b" using p(3) that(2) root_of_dom by blast
      then show ?thesis using a root_of_fun unfolding ids same_root_def by blast
    qed
    show "linked (set (path_items ns es)) a b"
      if "a \<in> set (pc_ids c)" "b \<in> set (pc_ids c)" for a b
      using that p(3) root_of_dom unfolding ids same_root_def by blast
    show "e \<in> set (pc_edges c)"
      if "e \<in> set es" "x \<in> set (edge_ids e)" "x \<in> set (pc_ids c)" for e x
    proof -
      have "edge_ids e \<in> set (path_items ns es)" "edge_ids e \<noteq> []"
        using that by (auto simp: path_items_def)
      then have "at_root p r (edge_ids e)" using root that(2,3) ids by blast
      then show ?thesis using that(1) c'(2) by (simp add: c'(1) fin(1) group_ok_def)
    qed
    show "n \<in> set (pc_nodes c)"
      if "n \<in> set ns" "x \<in> set (node_ids n)" "x \<in> set (pc_ids c)" for n x
    proof -
      have "node_ids n \<in> set (path_items ns es)" "node_ids n \<noteq> []"
        using that by (auto simp: path_items_def)
      then have "at_root p r (node_ids n)" using root that(2,3) ids by blast
      then have "n \<in> set (pc_nodes c')" using that(1) c'(2) by (simp add: group_ok_def)
      then show ?thesis using fin(3) c'(1) by blast
    qed
    show "set (edge_ids e) \<subseteq> set (pc_ids c)" if "e \<in> set (pc_edges c)" for e
      using that c'(2) by (auto simp: c'(1) fin(1,2) group_ok_def)
    show "distinct (map nid (pc_nodes c))" if "distinct (map nid ns)"
      unfolding c'(1) by (rule distinct_finish_cluster(1) [OF nb])
        (use that c'(2) in \<open>simp add: group_ok_def distinct_map_filter\<close>)
    show "distinct (map eid (pc_edges c))" if "distinct (map eid es)"
      unfolding c'(1) by (rule distinct_finish_cluster(2) [OF nb])
        (use that c'(2) in \<open>simp add: group_ok_def distinct_map_filter\<close>)
  qed
  then show ?thesis using cs by blast
qed

end
