(* ===== verification/Policy_Graph.thy ===== *)
theory Policy_Graph
  imports Path_Clusters
begin

text \<open>
  \<open>boundGraph\<close> of \<open>web/lib/policy-graph.ts\<close>: a raw policy graph is cut down to a node and an
  edge cap, resolved-path structure first and in whole clusters, decoration after it.
\<close>

section \<open>The operation\<close>

record raw_graph =
  captured_at :: string
  g_nodes :: "policy_node list"
  g_edges :: "policy_edge list"

record policy_graph_dto =
  d_version :: nat
  d_captured_at :: string
  d_truncated :: bool
  d_omitted_nodes :: int
  d_omitted_edges :: int
  d_path_truncated :: bool
  d_nodes :: "policy_node list"
  d_edges :: "policy_edge list"

text \<open>
  The admission loop: \<open>(includedClusters, admittedNodeIds, admittedEdgeIds)\<close>. Only ids the
  cluster adds are charged; a cluster that does not fit is skipped whole.
\<close>

type_synonym admission = "path_cluster list \<times> string list \<times> string list"

definition admit_step :: "graph_caps \<Rightarrow> admission \<Rightarrow> path_cluster \<Rightarrow> admission" where
  "admit_step caps = (\<lambda>(included, ns, es) c.
     let new_nodes = length (filter (\<lambda>n. nid n \<notin> set ns) (pc_nodes c));
         new_edges = length (filter (\<lambda>e. eid e \<notin> set es) (pc_edges c))
     in if length ns + new_nodes \<le> cap_nodes caps \<and> length es + new_edges \<le> cap_edges caps
        then (included @ [c], js_add_all (map nid (pc_nodes c)) ns, js_add_all (map eid (pc_edges c)) es)
        else (included, ns, es))"

definition admit_clusters :: "graph_caps \<Rightarrow> path_cluster list \<Rightarrow> path_cluster list" where
  "admit_clusters caps cs = fst (foldl (admit_step caps) ([], [], []) cs)"

definition by_nid :: "(string \<Rightarrow> string \<Rightarrow> bool) \<Rightarrow> policy_node \<Rightarrow> policy_node \<Rightarrow> bool" where
  "by_nid le a b = le (nid a) (nid b)"

definition by_eid :: "(string \<Rightarrow> string \<Rightarrow> bool) \<Rightarrow> policy_edge \<Rightarrow> policy_edge \<Rightarrow> bool" where
  "by_eid le a b = le (eid a) (eid b)"

definition kept_path_nodes :: "(string \<Rightarrow> string \<Rightarrow> bool) \<Rightarrow> path_cluster list \<Rightarrow> policy_node list" where
  "kept_path_nodes le included =
     sort_le (by_nid le) (map snd (js_map nid (concat (map pc_nodes included))))"

definition raw_path_edges :: "path_cluster list \<Rightarrow> policy_edge list" where
  "raw_path_edges included = map snd (js_map eid (concat (map pc_edges included)))"

definition loose_nodes :: "(string \<Rightarrow> string \<Rightarrow> bool) \<Rightarrow> raw_graph \<Rightarrow> policy_node list \<Rightarrow> policy_node list" where
  "loose_nodes le g kept =
     sort_le (by_nid le)
       (filter (\<lambda>n. \<not> has_path_ids (n_path_ids n) \<and> nid n \<notin> nid ` set kept) (g_nodes g))"

definition loose_edges :: "(string \<Rightarrow> string \<Rightarrow> bool) \<Rightarrow> raw_graph \<Rightarrow> policy_edge list" where
  "loose_edges le g = sort_le (by_eid le) (filter (\<lambda>e. \<not> has_path_ids (e_path_ids e)) (g_edges g))"

definition edge_within :: "policy_node list \<Rightarrow> policy_edge \<Rightarrow> bool" where
  "edge_within ns e \<longleftrightarrow> e_source e \<in> nid ` set ns \<and> e_target e \<in> nid ` set ns"

definition select_nodes ::
  "(string \<Rightarrow> string \<Rightarrow> bool) \<Rightarrow> raw_graph \<Rightarrow> graph_caps \<Rightarrow> path_cluster list \<Rightarrow> policy_node list" where
  "select_nodes le g caps included =
     (let kept = kept_path_nodes le included;
          budget = cap_nodes caps - length kept
      in sort_le (by_nid le) (kept @ take budget (loose_nodes le g kept)))"

definition select_path_edges ::
  "(string \<Rightarrow> string \<Rightarrow> bool) \<Rightarrow> policy_node list \<Rightarrow> path_cluster list \<Rightarrow> policy_edge list" where
  "select_path_edges le kept included =
     sort_le (by_eid le) (filter (edge_within kept) (raw_path_edges included))"

definition select_edges ::
  "(string \<Rightarrow> string \<Rightarrow> bool) \<Rightarrow> raw_graph \<Rightarrow> graph_caps \<Rightarrow> policy_node list \<Rightarrow> path_cluster list \<Rightarrow> policy_edge list" where
  "select_edges le g caps kept included =
     (let path_edges = select_path_edges le kept included;
          budget = cap_edges caps - length path_edges
      in sort_le (by_eid le)
           (path_edges @ take budget (filter (edge_within kept) (loose_edges le g))))"

definition path_nodes_of :: "raw_graph \<Rightarrow> policy_node list" where
  "path_nodes_of g = filter (\<lambda>n. has_path_ids (n_path_ids n)) (g_nodes g)"

definition path_edges_of :: "raw_graph \<Rightarrow> policy_edge list" where
  "path_edges_of g = filter (\<lambda>e. has_path_ids (e_path_ids e)) (g_edges g)"

definition clusters_of :: "(string \<Rightarrow> string \<Rightarrow> bool) \<Rightarrow> raw_graph \<Rightarrow> path_cluster list option" where
  "clusters_of le g =
     build_path_clusters le (path_nodes_of g) (path_edges_of g) (map_of (js_map nid (g_nodes g)))"

text \<open>
  \<^const>\<open>None\<close> only if the clustering loop gives none, which \<open>bound_graph_total\<close> rules out.
  Natural subtraction is the source's \<open>Math.max(0, _)\<close>.
\<close>

definition bound_graph ::
  "(string \<Rightarrow> string \<Rightarrow> bool) \<Rightarrow> raw_graph \<Rightarrow> graph_caps \<Rightarrow> policy_graph_dto option" where
  "bound_graph le g caps = do {
     clusters \<leftarrow> clusters_of le g;
     let included = admit_clusters caps clusters;
     let kept_nodes = select_nodes le g caps included;
     let kept_edges = select_edges le g caps kept_nodes included;
     let omitted_nodes = int (length (g_nodes g)) - int (length kept_nodes);
     let omitted_edges = int (length (g_edges g)) - int (length kept_edges);
     Some \<lparr>d_version = 1, d_captured_at = captured_at g,
       d_truncated = (omitted_nodes > 0 \<or> omitted_edges > 0),
       d_omitted_nodes = omitted_nodes, d_omitted_edges = omitted_edges,
       d_path_truncated =
         (length included \<noteq> length clusters \<or>
          length (raw_path_edges included) \<noteq> length (select_path_edges le kept_nodes included)),
       d_nodes = kept_nodes, d_edges = kept_edges\<rparr>
   }"

section \<open>Admission\<close>

definition admission_ok :: "graph_caps \<Rightarrow> admission \<Rightarrow> bool" where
  "admission_ok caps = (\<lambda>(included, ns, es).
     distinct ns \<and> distinct es \<and>
     set ns = nid ` \<Union>(set ` pc_nodes ` set included) \<and>
     set es = eid ` \<Union>(set ` pc_edges ` set included) \<and>
     length ns \<le> cap_nodes caps \<and> length es \<le> cap_edges caps)"

lemma length_js_add_all_le:
  "distinct s \<Longrightarrow> length (js_add_all xs s) \<le> length s + length (filter (\<lambda>x. x \<notin> set s) xs)"
proof -
  assume s: "distinct s"
  have "length (js_add_all xs s) = card (set (js_add_all xs s))"
    by (rule distinct_card [symmetric]) (simp add: s)
  also have "\<dots> = card (set s \<union> set (filter (\<lambda>x. x \<notin> set s) xs))"
    by (rule arg_cong [of _ _ card]) auto
  also have "\<dots> \<le> card (set s) + card (set (filter (\<lambda>x. x \<notin> set s) xs))" by (rule card_Un_le)
  also have "\<dots> \<le> length s + length (filter (\<lambda>x. x \<notin> set s) xs)"
    by (intro add_mono card_length)
  finally show ?thesis .
qed

lemma admit_step_ok:
  assumes "admission_ok caps (included, ns, es)"
  shows "admission_ok caps (admit_step caps (included, ns, es) c)"
proof (cases "length ns + length (filter (\<lambda>n. nid n \<notin> set ns) (pc_nodes c)) \<le> cap_nodes caps \<and>
    length es + length (filter (\<lambda>e. eid e \<notin> set es) (pc_edges c)) \<le> cap_edges caps")
  case True
  have "length (js_add_all (map nid (pc_nodes c)) ns) \<le> cap_nodes caps"
    using length_js_add_all_le [of ns "map nid (pc_nodes c)"] True assms
    by (simp add: admission_ok_def filter_map comp_def)
  moreover have "length (js_add_all (map eid (pc_edges c)) es) \<le> cap_edges caps"
    using length_js_add_all_le [of es "map eid (pc_edges c)"] True assms
    by (simp add: admission_ok_def filter_map comp_def)
  ultimately show ?thesis
    using True assms by (auto simp: admission_ok_def admit_step_def)
next
  case False
  then show ?thesis using assms by (auto simp: admit_step_def Let_def)
qed

lemma admit_fold_ok:
  "admission_ok caps st \<Longrightarrow> admission_ok caps (foldl (admit_step caps) st cs)"
proof (induction cs arbitrary: st)
  case (Cons c cs)
  then show ?case using admit_step_ok by (cases st) auto
qed simp

lemma admit_clusters_ok:
  obtains ns es where "admission_ok caps (admit_clusters caps cs, ns, es)"
proof -
  have "admission_ok caps ([], [], [])" by (simp add: admission_ok_def)
  then have "admission_ok caps (foldl (admit_step caps) ([], [], []) cs)" by (rule admit_fold_ok)
  then show thesis using that by (cases "foldl (admit_step caps) ([], [], []) cs") (auto simp: admit_clusters_def)
qed

text \<open>The included clusters are a sublist: of full length only when it is the whole list.\<close>

lemma admit_fold_sub:
  "\<exists>xs. fst (foldl (admit_step caps) (inc, ns, es) cs) = inc @ xs \<and> set xs \<subseteq> set cs \<and>
     length xs \<le> length cs \<and> (length xs = length cs \<longrightarrow> xs = cs)"
proof (induction cs arbitrary: inc ns es)
  case (Cons c cs)
  obtain i n e where st: "admit_step caps (inc, ns, es) c = (i, n, e)" by (metis prod_cases3)
  then have i: "i = inc @ [c] \<or> i = inc" by (auto simp: admit_step_def Let_def split: if_splits)
  obtain xs where xs: "fst (foldl (admit_step caps) (i, n, e) cs) = i @ xs" "set xs \<subseteq> set cs"
    "length xs \<le> length cs" "length xs = length cs \<longrightarrow> xs = cs" using Cons.IH by blast
  from i show ?case
  proof
    assume "i = inc @ [c]"
    then show ?thesis using xs st by (intro exI [of _ "c # xs"]) auto
  next
    assume "i = inc"
    then show ?thesis using xs st by (intro exI [of _ xs]) auto
  qed
qed simp

lemma admit_clusters_sub: "set (admit_clusters caps cs) \<subseteq> set cs"
  using admit_fold_sub [of caps "[]" "[]" "[]" cs] by (auto simp: admit_clusters_def)

lemma admit_clusters_full: "length (admit_clusters caps cs) = length cs \<Longrightarrow> admit_clusters caps cs = cs"
  using admit_fold_sub [of caps "[]" "[]" "[]" cs] by (auto simp: admit_clusters_def)

section \<open>What is kept\<close>

lemma keys_kept_path_nodes:
  "nid ` set (kept_path_nodes le included) = nid ` \<Union>(set ` pc_nodes ` set included)"
  using keys_js_map_values [of nid "concat (map pc_nodes included)"] by (simp add: kept_path_nodes_def)

lemma distinct_kept_path_nodes: "distinct (map nid (kept_path_nodes le included))"
  unfolding kept_path_nodes_def distinct_map_sort_le by (rule distinct_js_map_values)

lemma set_kept_path_nodes:
  "set (kept_path_nodes le included) \<subseteq> \<Union>(set ` pc_nodes ` set included)"
  using set_js_map_values [of nid "concat (map pc_nodes included)"] by (simp add: kept_path_nodes_def)

lemma keys_raw_path_edges:
  "eid ` set (raw_path_edges included) = eid ` \<Union>(set ` pc_edges ` set included)"
  using keys_js_map_values [of eid "concat (map pc_edges included)"] by (simp add: raw_path_edges_def)

lemma set_raw_path_edges: "set (raw_path_edges included) \<subseteq> \<Union>(set ` pc_edges ` set included)"
  using set_js_map_values [of eid "concat (map pc_edges included)"] by (simp add: raw_path_edges_def)

lemma distinct_raw_path_edges: "distinct (map eid (raw_path_edges included))"
  unfolding raw_path_edges_def by (rule distinct_js_map_values)

lemma length_by_key: "distinct (map f xs) \<Longrightarrow> f ` set xs = A \<Longrightarrow> length xs = card A"
  by (metis distinct_card length_map list.set_map)

lemma length_kept_path_nodes: "length (kept_path_nodes le (admit_clusters caps cs)) \<le> cap_nodes caps"
proof -
  obtain ns es where ok: "admission_ok caps (admit_clusters caps cs, ns, es)" by (rule admit_clusters_ok)
  then have d: "distinct ns" "length ns \<le> cap_nodes caps" by (simp_all add: admission_ok_def)
  have "length (kept_path_nodes le (admit_clusters caps cs)) = card (set ns)"
    by (rule length_by_key [OF distinct_kept_path_nodes])
      (use ok in \<open>simp add: keys_kept_path_nodes admission_ok_def\<close>)
  then show ?thesis using d by (simp only: distinct_card)
qed

lemma length_raw_path_edges: "length (raw_path_edges (admit_clusters caps cs)) \<le> cap_edges caps"
proof -
  obtain ns es where ok: "admission_ok caps (admit_clusters caps cs, ns, es)" by (rule admit_clusters_ok)
  then have d: "distinct es" "length es \<le> cap_edges caps" by (simp_all add: admission_ok_def)
  have "length (raw_path_edges (admit_clusters caps cs)) = card (set es)"
    by (rule length_by_key [OF distinct_raw_path_edges])
      (use ok in \<open>simp add: keys_raw_path_edges admission_ok_def\<close>)
  then show ?thesis using d by (simp only: distinct_card)
qed

lemma length_select_nodes: "length (select_nodes le g caps (admit_clusters caps cs)) \<le> cap_nodes caps"
  using length_kept_path_nodes [of le caps cs] by (simp add: select_nodes_def Let_def)

lemma length_select_edges:
  "length (select_edges le g caps kept (admit_clusters caps cs)) \<le> cap_edges caps"
proof -
  have "length (select_path_edges le kept (admit_clusters caps cs)) \<le> cap_edges caps"
    using length_raw_path_edges [of caps cs]
    by (simp add: select_path_edges_def) (meson length_filter_le order_trans)
  then show ?thesis by (simp add: select_edges_def Let_def)
qed

lemma select_edges_within: "e \<in> set (select_edges le g caps kept included) \<Longrightarrow> edge_within kept e"
  by (auto simp: select_edges_def select_path_edges_def Let_def dest: in_set_takeD)

section \<open>The clusters of a graph\<close>

lemma path_nodes_tagged: "\<forall>n\<in>set (path_nodes_of g). has_path_ids (n_path_ids n)"
  by (simp add: path_nodes_of_def)

lemma path_edges_tagged: "\<forall>e\<in>set (path_edges_of g). has_path_ids (e_path_ids e)"
  by (simp add: path_edges_of_def)

definition node_lookup :: "raw_graph \<Rightarrow> string \<Rightarrow> policy_node option" where
  "node_lookup g = map_of (js_map nid (g_nodes g))"

lemma node_lookup_Some: "node_lookup g x = Some b \<Longrightarrow> nid b = x \<and> b \<in> set (g_nodes g)"
  unfolding node_lookup_def by (rule map_of_js_map)

lemma node_lookup_None: "node_lookup g x = None \<longleftrightarrow> x \<notin> nid ` set (g_nodes g)"
  unfolding node_lookup_def by (rule map_of_js_map_None)

abbreviation graph_clusters_ok :: "raw_graph \<Rightarrow> path_cluster list \<Rightarrow> bool" where
  "graph_clusters_ok g cs \<equiv> clusters_ok (path_nodes_of g) (path_edges_of g) (node_lookup g) cs"

abbreviation path_linked :: "raw_graph \<Rightarrow> string \<Rightarrow> string \<Rightarrow> bool" where
  "path_linked g \<equiv> linked (set (path_items (path_nodes_of g) (path_edges_of g)))"

lemma clusters_of_ok: "\<exists>cs. clusters_of le g = Some cs \<and> graph_clusters_ok g cs"
  unfolding clusters_of_def node_lookup_def [symmetric]
  by (rule build_path_clusters_ok [OF path_nodes_tagged path_edges_tagged]) (simp add: node_lookup_Some)

text \<open>Inversion of \<^const>\<open>bound_graph\<close>: the clusters, the admitted ones, and the selection.\<close>

lemma bound_graphE:
  assumes "bound_graph le g caps = Some d"
  obtains cs where "graph_clusters_ok g cs"
    "d_nodes d = select_nodes le g caps (admit_clusters caps cs)"
    "d_edges d = select_edges le g caps (d_nodes d) (admit_clusters caps cs)"
    "d_path_truncated d \<longleftrightarrow> length (admit_clusters caps cs) \<noteq> length cs \<or>
       length (raw_path_edges (admit_clusters caps cs)) \<noteq>
       length (select_path_edges le (d_nodes d) (admit_clusters caps cs))"
    "d_omitted_nodes d = int (length (g_nodes g)) - int (length (d_nodes d))"
    "d_omitted_edges d = int (length (g_edges g)) - int (length (d_edges d))"
    "d_truncated d \<longleftrightarrow> d_omitted_nodes d > 0 \<or> d_omitted_edges d > 0"
proof -
  obtain cs where cs: "clusters_of le g = Some cs" "graph_clusters_ok g cs"
    using clusters_of_ok by blast
  show thesis
    by (rule that [OF cs(2)]) (use assms cs(1) in \<open>auto simp: bound_graph_def Let_def\<close>)
qed

lemma cluster_sets:
  assumes "graph_clusters_ok g cs" "c \<in> set cs"
  shows "set (pc_edges c) \<subseteq> set (path_edges_of g)" "set (pc_nodes c) \<subseteq> set (g_nodes g)"
    and "x \<in> set (edge_endpoints (pc_edges c)) \<Longrightarrow> x \<in> nid ` set (g_nodes g) \<Longrightarrow> x \<in> nid ` set (pc_nodes c)"
proof -
  have "ran (node_lookup g) \<subseteq> set (g_nodes g)"
    using node_lookup_Some by (auto simp: ran_def)
  moreover have "set (path_nodes_of g) \<subseteq> set (g_nodes g)" by (auto simp: path_nodes_of_def)
  ultimately show "set (pc_nodes c) \<subseteq> set (g_nodes g)"
    using clusters_okD(4) [OF assms] by blast
  show "set (pc_edges c) \<subseteq> set (path_edges_of g)" by (rule clusters_okD(3) [OF assms])
  show "x \<in> set (edge_endpoints (pc_edges c)) \<Longrightarrow> x \<in> nid ` set (g_nodes g) \<Longrightarrow> x \<in> nid ` set (pc_nodes c)"
    using clusters_okD(5) [OF assms] node_lookup_None by blast
qed

section \<open>A sample graph\<close>

text \<open>A resolved path of two nodes, one untagged boundary node and one decorative node.\<close>

definition sample_node :: "string \<Rightarrow> string list option \<Rightarrow> policy_node" where
  "sample_node i ids = \<lparr>nid = i, n_kind = ''eni'', n_label = i, n_status = Allowed,
     n_resource_id = None, n_scope = None, n_path_ids = ids\<rparr>"

definition sample_edge :: "string \<Rightarrow> string \<Rightarrow> string list option \<Rightarrow> policy_edge" where
  "sample_edge a b ids = \<lparr>eid = policy_edge_id a b None, e_source = a, e_target = b,
     e_relation = ''next'', e_status = Allowed, e_label = None, e_path_ids = ids,
     e_step_ordinals = None\<rparr>"

definition sample_graph :: raw_graph where
  "sample_graph = \<lparr>captured_at = ''t0'',
     g_nodes = [sample_node ''z'' None, sample_node ''b'' (Some [''p'']), sample_node ''a'' (Some [''p'', ''q'']),
       sample_node ''c'' None],
     g_edges = [sample_edge ''b'' ''c'' (Some [''q'']), sample_edge ''a'' ''b'' (Some [''p'']),
       sample_edge ''c'' ''z'' None]\<rparr>"

definition sample_dto :: policy_graph_dto where
  "sample_dto = \<lparr>d_version = 1, d_captured_at = ''t0'', d_truncated = False, d_omitted_nodes = 0,
     d_omitted_edges = 0, d_path_truncated = False,
     d_nodes = [sample_node ''a'' (Some [''p'', ''q'']), sample_node ''b'' (Some [''p'']), sample_node ''c'' None,
       sample_node ''z'' None],
     d_edges = [sample_edge ''a'' ''b'' (Some [''p'']), sample_edge ''b'' ''c'' (Some [''q'']),
       sample_edge ''c'' ''z'' None]\<rparr>"

lemma sample_bound: "bound_graph (\<le>) sample_graph \<lparr>cap_nodes = 4, cap_edges = 3\<rparr> = Some sample_dto"
  by code_simp

lemma sample_distinct:
  "distinct (map nid (g_nodes sample_graph))" "distinct (map eid (g_edges sample_graph))"
  by code_simp+

lemma sample_within: "\<forall>e\<in>set (g_edges sample_graph). edge_within (g_nodes sample_graph) e"
  by code_simp

section \<open>Theorems\<close>

lemma bound_graph_returns:
  "\<exists>d. bound_graph le g caps = Some d \<and>
     length (d_nodes d) \<le> cap_nodes caps \<and> length (d_edges d) \<le> cap_edges caps \<and>
     (\<forall>e\<in>set (d_edges d). \<exists>a\<in>set (d_nodes d). \<exists>b\<in>set (d_nodes d). nid a = e_source e \<and> nid b = e_target e)"
proof -
  obtain cs where "clusters_of le g = Some cs" using clusters_of_ok by blast
  then obtain d where d: "bound_graph le g caps = Some d" by (simp add: bound_graph_def Let_def)
  then obtain cs where nodes: "d_nodes d = select_nodes le g caps (admit_clusters caps cs)"
    and edges: "d_edges d = select_edges le g caps (d_nodes d) (admit_clusters caps cs)"
    by (rule bound_graphE)
  have "edge_within (d_nodes d) e" if "e \<in> set (d_edges d)" for e
    using that edges select_edges_within by metis
  then have "\<forall>e\<in>set (d_edges d). \<exists>a\<in>set (d_nodes d). \<exists>b\<in>set (d_nodes d).
      nid a = e_source e \<and> nid b = e_target e"
    by (fastforce simp: edge_within_def)
  moreover have "length (d_nodes d) \<le> cap_nodes caps" unfolding nodes by (rule length_select_nodes)
  moreover have "length (d_edges d) \<le> cap_edges caps" by (subst edges) (rule length_select_edges)
  ultimately show ?thesis using d by blast
qed

text \<open>
  C1. Whatever the graph, \<open>boundGraph\<close> returns, never exceeds either cap, and returns a closed
  graph: both endpoints of every edge it keeps are nodes it keeps.
\<close>

theorem bound_graph_total_bounded_closed:
  "\<exists>d. bound_graph le g caps = Some d \<and>
     length (d_nodes d) \<le> cap_nodes caps \<and> length (d_edges d) \<le> cap_edges caps \<and>
     (\<forall>e\<in>set (d_edges d). \<exists>a\<in>set (d_nodes d). \<exists>b\<in>set (d_nodes d). nid a = e_source e \<and> nid b = e_target e)"
  by (rule bound_graph_returns)

theorem bound_graph_total_bounded_closed_witness:
  "\<exists>d. bound_graph (\<le>) sample_graph \<lparr>cap_nodes = 3, cap_edges = 1\<rparr> = Some d \<and>
     length (d_nodes d) \<le> 3 \<and> length (d_edges d) \<le> 1"
  using bound_graph_total_bounded_closed [of "(\<le>)" sample_graph "\<lparr>cap_nodes = 3, cap_edges = 1\<rparr>"] by auto

lemma select_path_edges_all:
  assumes "length (raw_path_edges inc) = length (select_path_edges le kept inc)"
  shows "set (select_path_edges le kept inc) = set (raw_path_edges inc)"
proof -
  have "length (filter (edge_within kept) (raw_path_edges inc)) = length (raw_path_edges inc)"
    using assms by (simp add: select_path_edges_def)
  then have "\<forall>e\<in>set (raw_path_edges inc). edge_within kept e"
    by (metis length_filter_less less_irrefl)
  then have "filter (edge_within kept) (raw_path_edges inc) = raw_path_edges inc" by (rule filter_True)
  then show ?thesis by (simp add: select_path_edges_def)
qed

lemma path_nodes_selected: "set (kept_path_nodes le inc) \<subseteq> set (select_nodes le g caps inc)"
  by (simp add: select_nodes_def Let_def)

lemma path_edges_selected: "set (select_path_edges le kept inc) \<subseteq> set (select_edges le g caps kept inc)"
  by (simp add: select_edges_def Let_def)

text \<open>
  \<open>pathTruncated\<close> is an honest signal: when it is false, every node and edge tagged with a
  path id is in the result (by id).
\<close>

theorem not_path_truncated_complete:
  assumes "bound_graph le g caps = Some d" "\<not> d_path_truncated d"
  shows "(\<forall>n\<in>set (g_nodes g). has_path_ids (n_path_ids n) \<longrightarrow> nid n \<in> nid ` set (d_nodes d)) \<and>
    (\<forall>e\<in>set (g_edges g). has_path_ids (e_path_ids e) \<longrightarrow> eid e \<in> eid ` set (d_edges d))"
proof -
  obtain cs where ok: "graph_clusters_ok g cs"
    and nodes: "d_nodes d = select_nodes le g caps (admit_clusters caps cs)"
    and edges: "d_edges d = select_edges le g caps (d_nodes d) (admit_clusters caps cs)"
    and flag: "d_path_truncated d \<longleftrightarrow> length (admit_clusters caps cs) \<noteq> length cs \<or>
       length (raw_path_edges (admit_clusters caps cs)) \<noteq>
       length (select_path_edges le (d_nodes d) (admit_clusters caps cs))"
    using assms(1) by (rule bound_graphE)
  have all: "admit_clusters caps cs = cs" using flag assms(2) admit_clusters_full by blast
  have kept: "set (select_path_edges le (d_nodes d) cs) = set (raw_path_edges cs)"
    using flag assms(2) select_path_edges_all unfolding all by blast
  have "nid n \<in> nid ` set (d_nodes d)" if "n \<in> set (path_nodes_of g)" for n
  proof -
    have "nid n \<in> nid ` \<Union>(set ` pc_nodes ` set cs)" using clusters_okD(1) [OF ok that] by blast
    then have "nid n \<in> nid ` set (kept_path_nodes le cs)" unfolding keys_kept_path_nodes .
    then show ?thesis using path_nodes_selected unfolding nodes all by blast
  qed
  moreover have "eid e \<in> eid ` set (d_edges d)" if "e \<in> set (path_edges_of g)" for e
  proof -
    have "eid e \<in> eid ` \<Union>(set ` pc_edges ` set cs)" using clusters_okD(2) [OF ok that] by blast
    then have "eid e \<in> eid ` set (select_path_edges le (d_nodes d) cs)"
      unfolding kept keys_raw_path_edges .
    then show ?thesis using path_edges_selected unfolding edges all by blast
  qed
  ultimately show ?thesis by (auto simp: path_nodes_of_def path_edges_of_def)
qed

theorem not_path_truncated_complete_witness:
  "bound_graph (\<le>) sample_graph \<lparr>cap_nodes = 4, cap_edges = 3\<rparr> = Some sample_dto \<and>
   {''a'', ''b''} \<subseteq> nid ` set (d_nodes sample_dto)"
proof -
  have "\<not> d_path_truncated sample_dto" by (simp add: sample_dto_def)
  from not_path_truncated_complete [OF sample_bound this] show ?thesis
    using sample_bound by (simp add: sample_graph_def sample_node_def has_path_ids_def)
qed

lemma bound_graph_unit:
  assumes "bound_graph le g caps = Some d" and "distinct (map eid (g_edges g))"
    and kept: "e \<in> set (d_edges d)" "a \<in> set (edge_ids e)" and link: "path_linked g a b"
  shows "(\<forall>n\<in>set (g_nodes g). b \<in> set (node_ids n) \<longrightarrow> nid n \<in> nid ` set (d_nodes d)) \<and>
    (\<forall>f\<in>set (g_edges g). b \<in> set (edge_ids f) \<longrightarrow> edge_within (g_nodes g) f \<longrightarrow> f \<in> set (d_edges d))"
proof -
  obtain cs where ok: "graph_clusters_ok g cs"
    and nodes: "d_nodes d = select_nodes le g caps (admit_clusters caps cs)"
    and edges: "d_edges d = select_edges le g caps (d_nodes d) (admit_clusters caps cs)"
    using assms(1) by (rule bound_graphE)
  let ?inc = "admit_clusters caps cs"
  have "has_path_ids (e_path_ids e)" using kept(2) by (auto simp: has_path_ids_iff)
  then have "e \<in> set (raw_path_edges ?inc)"
    using kept(1) unfolding edges
    by (auto simp: select_edges_def select_path_edges_def loose_edges_def Let_def dest!: in_set_takeD)
  then obtain c where c: "c \<in> set ?inc" "e \<in> set (pc_edges c)" using set_raw_path_edges by blast
  then have cs: "c \<in> set cs" using admit_clusters_sub by blast
  have "a \<in> set (pc_ids c)" using clusters_okD(10) [OF ok cs c(2)] kept(2) by blast
  then have b: "b \<in> set (pc_ids c)" by (rule clusters_okD(6) [OF ok cs _ link])
  have node_kept: "x \<in> nid ` set (d_nodes d)" if "x \<in> nid ` set (pc_nodes c)" for x
  proof -
    have "x \<in> nid ` \<Union>(set ` pc_nodes ` set ?inc)" using that c(1) by blast
    then have "x \<in> nid ` set (kept_path_nodes le ?inc)" unfolding keys_kept_path_nodes .
    then show ?thesis using path_nodes_selected unfolding nodes by blast
  qed
  have "nid n \<in> nid ` set (d_nodes d)" if "n \<in> set (g_nodes g)" "b \<in> set (node_ids n)" for n
  proof -
    have "n \<in> set (path_nodes_of g)" using that by (auto simp: path_nodes_of_def has_path_ids_iff)
    then have "n \<in> set (pc_nodes c)" by (rule clusters_okD(9) [OF ok cs _ that(2) b])
    then show ?thesis using node_kept by blast
  qed
  moreover have "f \<in> set (d_edges d)"
    if f: "f \<in> set (g_edges g)" "b \<in> set (edge_ids f)" "edge_within (g_nodes g) f" for f
  proof -
    have fp: "f \<in> set (path_edges_of g)" using f by (auto simp: path_edges_of_def has_path_ids_iff)
    then have fc: "f \<in> set (pc_edges c)" by (rule clusters_okD(8) [OF ok cs _ f(2) b])
    then have "eid f \<in> eid ` set (raw_path_edges ?inc)" unfolding keys_raw_path_edges using c(1) by blast
    then obtain f' where f': "f' \<in> set (raw_path_edges ?inc)" "eid f' = eid f" by auto
    then obtain c' where "c' \<in> set cs" "f' \<in> set (pc_edges c')"
      using set_raw_path_edges admit_clusters_sub by blast
    then have "f' \<in> set (g_edges g)" using cluster_sets(1) [OF ok] by (auto simp: path_edges_of_def)
    then have "f' = f" using f'(2) f(1) assms(2) by (metis (no_types, lifting) distinct_map inj_onD)
    moreover have "edge_within (d_nodes d) f"
    proof -
      have "{e_source f, e_target f} \<subseteq> set (edge_endpoints (pc_edges c))"
        using fc by (auto simp: edge_endpoints_def)
      moreover have "{e_source f, e_target f} \<subseteq> nid ` set (g_nodes g)"
        using f(3) by (simp add: edge_within_def)
      ultimately show ?thesis
        using cluster_sets(3) [OF ok cs] node_kept unfolding edge_within_def by blast
    qed
    ultimately have "f \<in> set (select_path_edges le (d_nodes d) ?inc)"
      using f'(1) by (simp add: select_path_edges_def)
    then show ?thesis by (subst edges) (rule subsetD [OF path_edges_selected])
  qed
  ultimately show ?thesis by blast
qed

text \<open>
  C2. Resolved paths are kept or dropped as a unit: if an edge of a path is in the result, then
  every node of every path connected to it through shared path ids is, and so is every such
  edge whose endpoints exist in the input.
\<close>

theorem path_kept_as_a_unit:
  assumes "bound_graph le g caps = Some d" and "distinct (map eid (g_edges g))"
    and kept: "e \<in> set (d_edges d)" "a \<in> set (edge_ids e)" and link: "path_linked g a b"
  shows "(\<forall>n\<in>set (g_nodes g). b \<in> set (node_ids n) \<longrightarrow> nid n \<in> nid ` set (d_nodes d)) \<and>
    (\<forall>f\<in>set (g_edges g). b \<in> set (edge_ids f) \<longrightarrow> edge_within (g_nodes g) f \<longrightarrow> f \<in> set (d_edges d))"
  using assms by (rule bound_graph_unit)

theorem path_kept_as_a_unit_witness:
  "sample_edge ''b'' ''c'' (Some [''q'']) \<in> set (d_edges sample_dto)"
proof -
  let ?e = "sample_edge ''a'' ''b'' (Some [''p''])"
  let ?f = "sample_edge ''b'' ''c'' (Some [''q''])"
  let ?items = "set (path_items (path_nodes_of sample_graph) (path_edges_of sample_graph))"
  have e: "?e \<in> set (d_edges sample_dto)" by (simp add: sample_dto_def)
  have p: "''p'' \<in> set (edge_ids ?e)" by code_simp
  have "[''p'', ''q''] \<in> ?items" by code_simp
  then have l: "path_linked sample_graph ''p'' ''q''" by (rule linked_item) simp_all
  have f: "?f \<in> set (g_edges sample_graph)" "''q'' \<in> set (edge_ids ?f)"
    by (simp_all add: sample_graph_def sample_edge_def path_ids_of_def)
  have "edge_within (g_nodes sample_graph) ?f" using sample_within f(1) by blast
  with path_kept_as_a_unit [OF sample_bound sample_distinct(2) e p l] f show ?thesis by blast
qed

section \<open>Nothing is invented, and a graph that fits is returned whole\<close>

lemma select_nodes_sub:
  assumes "graph_clusters_ok g cs" "set inc \<subseteq> set cs"
  shows "set (select_nodes le g caps inc) \<subseteq> set (g_nodes g)"
proof -
  have "set (kept_path_nodes le inc) \<subseteq> set (g_nodes g)"
    using set_kept_path_nodes cluster_sets(2) [OF assms(1)] assms(2) by blast
  then show ?thesis by (auto simp: select_nodes_def loose_nodes_def Let_def dest!: in_set_takeD)
qed

lemma select_edges_sub:
  assumes "graph_clusters_ok g cs" "set inc \<subseteq> set cs"
  shows "set (select_edges le g caps kept inc) \<subseteq> set (g_edges g)"
proof -
  have "set (raw_path_edges inc) \<subseteq> set (g_edges g)"
    using set_raw_path_edges cluster_sets(1) [OF assms(1)] assms(2) by (fastforce simp: path_edges_of_def)
  then show ?thesis
    by (auto simp: select_edges_def select_path_edges_def loose_edges_def Let_def dest!: in_set_takeD)
qed

lemma distinct_map_take: "distinct (map f xs) \<Longrightarrow> distinct (map f (take k xs))"
  by (metis distinct_take take_map)

lemma distinct_select_nodes:
  assumes "distinct (map nid (g_nodes g))"
  shows "distinct (map nid (select_nodes le g caps inc))"
proof -
  let ?k = "kept_path_nodes le inc"
  have "distinct (map nid (take (cap_nodes caps - length ?k) (loose_nodes le g ?k)))"
    using assms by (intro distinct_map_take) (simp add: loose_nodes_def distinct_map_filter)
  moreover have "nid ` set ?k \<inter> nid ` set (take (cap_nodes caps - length ?k) (loose_nodes le g ?k)) = {}"
    by (auto simp: loose_nodes_def dest!: in_set_takeD) (metis image_eqI)
  ultimately show ?thesis
    using distinct_kept_path_nodes [of le inc] by (simp add: select_nodes_def Let_def)
qed

lemma distinct_select_edges:
  assumes "distinct (map eid (g_edges g))" "graph_clusters_ok g cs" "set inc \<subseteq> set cs"
  shows "distinct (map eid (select_edges le g caps kept inc))"
proof -
  let ?p = "select_path_edges le kept inc"
  let ?l = "take (cap_edges caps - length ?p) (filter (edge_within kept) (loose_edges le g))"
  have "distinct (map eid ?l)"
    using assms(1) by (intro distinct_map_take) (simp add: loose_edges_def distinct_map_filter)
  moreover have "distinct (map eid ?p)"
    by (simp add: select_path_edges_def distinct_map_filter distinct_raw_path_edges)
  moreover have "eid ` set ?p \<inter> eid ` set ?l = {}"
  proof -
    have "set ?p \<subseteq> set (path_edges_of g)"
      using set_raw_path_edges cluster_sets(1) [OF assms(2)] assms(3)
      by (fastforce simp: select_path_edges_def)
    moreover have "set ?l \<subseteq> {f \<in> set (g_edges g). \<not> has_path_ids (e_path_ids f)}"
      by (auto simp: loose_edges_def dest!: in_set_takeD)
    moreover have "f = f'" if "f \<in> set (g_edges g)" "f' \<in> set (g_edges g)" "eid f = eid f'" for f f'
      using assms(1) that by (auto simp: distinct_map dest: inj_onD)
    ultimately show ?thesis by (force simp: path_edges_of_def)
  qed
  ultimately show ?thesis by (simp add: select_edges_def Let_def)
qed

text \<open>
  The result is a part of the input, in id order, each id once, and \<open>omitted\<close> counts exactly
  the input nodes and edges that are missing from it.
\<close>

theorem bound_graph_part_of_input:
  assumes "bound_graph le g caps = Some d" and "collation le"
    and "distinct (map nid (g_nodes g))" "distinct (map eid (g_edges g))"
  shows "set (d_nodes d) \<subseteq> set (g_nodes g) \<and> set (d_edges d) \<subseteq> set (g_edges g) \<and>
    distinct (map nid (d_nodes d)) \<and> distinct (map eid (d_edges d)) \<and>
    sorted_wrt le (map nid (d_nodes d)) \<and> sorted_wrt le (map eid (d_edges d)) \<and>
    d_omitted_nodes d = int (card (set (g_nodes g) - set (d_nodes d))) \<and>
    d_omitted_edges d = int (card (set (g_edges g) - set (d_edges d)))"
proof -
  obtain cs where ok: "graph_clusters_ok g cs"
    and nodes: "d_nodes d = select_nodes le g caps (admit_clusters caps cs)"
    and edges: "d_edges d = select_edges le g caps (d_nodes d) (admit_clusters caps cs)"
    and omitted: "d_omitted_nodes d = int (length (g_nodes g)) - int (length (d_nodes d))"
      "d_omitted_edges d = int (length (g_edges g)) - int (length (d_edges d))"
    using assms(1) by (rule bound_graphE)
  note sub = admit_clusters_sub [of caps cs]
  have n: "set (d_nodes d) \<subseteq> set (g_nodes g)" unfolding nodes by (rule select_nodes_sub [OF ok sub])
  have e: "set (d_edges d) \<subseteq> set (g_edges g)" by (subst edges) (rule select_edges_sub [OF ok sub])
  have dn: "distinct (map nid (d_nodes d))" unfolding nodes by (rule distinct_select_nodes [OF assms(3)])
  have de: "distinct (map eid (d_edges d))"
    by (subst edges) (rule distinct_select_edges [OF assms(4) ok sub])
  have by_n: "collation (by_nid le)" and by_e: "collation (by_eid le)"
    unfolding by_nid_def by_eid_def using collation_key [OF assms(2)] by blast+
  have "sorted_wrt (by_nid le) (d_nodes d)"
    unfolding nodes select_nodes_def Let_def by (rule collation.sorted_sort_le [OF by_n])
  then have sn: "sorted_wrt le (map nid (d_nodes d))" by (simp add: sorted_wrt_map by_nid_def [abs_def])
  have "sorted_wrt (by_eid le) (d_edges d)"
    by (subst edges) (simp add: select_edges_def Let_def collation.sorted_sort_le [OF by_e])
  then have se: "sorted_wrt le (map eid (d_edges d))" by (simp add: sorted_wrt_map by_eid_def [abs_def])
  have "card (set (g_nodes g) - set (d_nodes d)) = length (g_nodes g) - length (d_nodes d)"
    using n dn assms(3) by (simp add: card_Diff_subset distinct_card distinct_map)
  moreover have "card (set (g_edges g) - set (d_edges d)) = length (g_edges g) - length (d_edges d)"
    using e de assms(4) by (simp add: card_Diff_subset distinct_card distinct_map)
  moreover have "length (d_nodes d) \<le> length (g_nodes g)"
    using n dn assms(3) by (metis card_mono distinct_card distinct_map List.finite_set)
  moreover have "length (d_edges d) \<le> length (g_edges g)"
    using e de assms(4) by (metis card_mono distinct_card distinct_map List.finite_set)
  ultimately show ?thesis using n e dn de sn se omitted by simp
qed

theorem bound_graph_part_of_input_witness:
  "d_omitted_nodes sample_dto = int (card (set (g_nodes sample_graph) - set (d_nodes sample_dto))) \<and>
   sorted_wrt (\<le>) (map nid (d_nodes sample_dto))"
  using bound_graph_part_of_input [OF sample_bound collation_code_units sample_distinct] by blast

lemma new_ids_card:
  assumes "distinct ns" "distinct (map f xs)"
  shows "length ns + length (filter (\<lambda>x. f x \<notin> set ns) xs) = card (set ns \<union> f ` set xs)"
proof -
  have "length (filter (\<lambda>x. f x \<notin> set ns) xs) = card (f ` set (filter (\<lambda>x. f x \<notin> set ns) xs))"
    using distinct_card [of "map f (filter (\<lambda>x. f x \<notin> set ns) xs)"] assms(2)
    by (simp add: distinct_map_filter)
  also have "f ` set (filter (\<lambda>x. f x \<notin> set ns) xs) = f ` set xs - set ns" by auto
  finally show ?thesis
    using card_Un_disjoint [of "set ns" "f ` set xs - set ns"] assms(1) by (simp add: distinct_card)
qed

lemma admit_all:
  assumes "\<forall>c\<in>set cs. nid ` set (pc_nodes c) \<subseteq> N \<and> eid ` set (pc_edges c) \<subseteq> E \<and>
      distinct (map nid (pc_nodes c)) \<and> distinct (map eid (pc_edges c))"
    and fin: "finite N" "finite E" and caps: "card N \<le> cap_nodes caps" "card E \<le> cap_edges caps"
  shows "admit_clusters caps cs = cs"
proof -
  have "distinct ns \<Longrightarrow> distinct es \<Longrightarrow> set ns \<subseteq> N \<Longrightarrow> set es \<subseteq> E \<Longrightarrow>
      fst (foldl (admit_step caps) (inc, ns, es) cs) = inc @ cs" for inc ns es
    using assms(1)
  proof (induction cs arbitrary: inc ns es)
    case (Cons c cs)
    have "length ns + length (filter (\<lambda>n. nid n \<notin> set ns) (pc_nodes c)) = card (set ns \<union> nid ` set (pc_nodes c))"
      by (rule new_ids_card) (use Cons.prems in auto)
    also have "\<dots> \<le> card N" using Cons.prems fin by (intro card_mono) auto
    finally have n: "length ns + length (filter (\<lambda>n. nid n \<notin> set ns) (pc_nodes c)) \<le> cap_nodes caps"
      using caps by simp
    have "length es + length (filter (\<lambda>e. eid e \<notin> set es) (pc_edges c)) = card (set es \<union> eid ` set (pc_edges c))"
      by (rule new_ids_card) (use Cons.prems in auto)
    also have "\<dots> \<le> card E" using Cons.prems fin by (intro card_mono) auto
    finally have e: "length es + length (filter (\<lambda>e. eid e \<notin> set es) (pc_edges c)) \<le> cap_edges caps"
      using caps by simp
    show ?case
      using Cons.IH [of "js_add_all (map nid (pc_nodes c)) ns" "js_add_all (map eid (pc_edges c)) es" "inc @ [c]"]
        Cons.prems n e by (simp add: admit_step_def Let_def)
  qed simp
  from this [of "[]" "[]" "[]"] show ?thesis by (simp add: admit_clusters_def)
qed

text \<open>
  A graph within both caps whose edges all have their endpoints loses nothing: the same
  nodes and edges come back and neither truncation flag is set.
\<close>

theorem bound_graph_fits:
  assumes d: "bound_graph le g caps = Some d"
    and dist: "distinct (map nid (g_nodes g))" "distinct (map eid (g_edges g))"
    and caps: "length (g_nodes g) \<le> cap_nodes caps" "length (g_edges g) \<le> cap_edges caps"
    and closed: "\<forall>e\<in>set (g_edges g). edge_within (g_nodes g) e"
  shows "set (d_nodes d) = set (g_nodes g) \<and> set (d_edges d) = set (g_edges g) \<and>
    \<not> d_truncated d \<and> \<not> d_path_truncated d"
proof -
  obtain cs where ok: "graph_clusters_ok g cs"
    and nodes: "d_nodes d = select_nodes le g caps (admit_clusters caps cs)"
    and edges: "d_edges d = select_edges le g caps (d_nodes d) (admit_clusters caps cs)"
    and flag: "d_path_truncated d \<longleftrightarrow> length (admit_clusters caps cs) \<noteq> length cs \<or>
       length (raw_path_edges (admit_clusters caps cs)) \<noteq>
       length (select_path_edges le (d_nodes d) (admit_clusters caps cs))"
    and omitted: "d_omitted_nodes d = int (length (g_nodes g)) - int (length (d_nodes d))"
      "d_omitted_edges d = int (length (g_edges g)) - int (length (d_edges d))"
      "d_truncated d \<longleftrightarrow> d_omitted_nodes d > 0 \<or> d_omitted_edges d > 0"
    using d by (rule bound_graphE)
  have sub: "set (pc_nodes c) \<subseteq> set (g_nodes g)" "set (pc_edges c) \<subseteq> set (g_edges g)" if "c \<in> set cs" for c
    using cluster_sets(1,2) [OF ok that] by (auto simp: path_edges_of_def)
  have dpath: "distinct (map nid (path_nodes_of g))" "distinct (map eid (path_edges_of g))"
    using dist by (simp_all add: path_nodes_of_def path_edges_of_def distinct_map_filter)
  have all: "admit_clusters caps cs = cs"
  proof (rule admit_all [of _ "nid ` set (g_nodes g)" "eid ` set (g_edges g)"])
    show "\<forall>c\<in>set cs. nid ` set (pc_nodes c) \<subseteq> nid ` set (g_nodes g) \<and>
        eid ` set (pc_edges c) \<subseteq> eid ` set (g_edges g) \<and>
        distinct (map nid (pc_nodes c)) \<and> distinct (map eid (pc_edges c))"
      using sub clusters_okD(11,12) [OF ok] dpath by (meson image_mono)
    show "card (nid ` set (g_nodes g)) \<le> cap_nodes caps"
      using caps(1) card_length [of "map nid (g_nodes g)"] by simp
    show "card (eid ` set (g_edges g)) \<le> cap_edges caps"
      using caps(2) card_length [of "map eid (g_edges g)"] by simp
  qed simp_all
  note kept = nodes [unfolded all] edges [unfolded all]
  let ?k = "kept_path_nodes le cs"
  have k_sub: "set ?k \<subseteq> set (g_nodes g)" using set_kept_path_nodes sub(1) by blast
  have loose: "set (loose_nodes le g ?k) = set (g_nodes g) - set ?k"
  proof -
    have "n \<in> set ?k" if n: "n \<in> set (g_nodes g)" "nid n \<in> nid ` set ?k" for n
    proof -
      from n(2) obtain m where m: "m \<in> set ?k" "nid n = nid m" by blast
      have "inj_on nid (set (g_nodes g))" using dist(1) by (simp add: distinct_map)
      then have "n = m" using m k_sub n(1) by (meson inj_onD subsetD)
      with m show ?thesis by simp
    qed
    moreover have "nid n \<in> nid ` set ?k" if "n \<in> set (path_nodes_of g)" for n
      unfolding keys_kept_path_nodes using clusters_okD(1) [OF ok that] by blast
    ultimately show ?thesis by (auto simp: loose_nodes_def path_nodes_of_def)
  qed
  have "length ?k + length (loose_nodes le g ?k) = length (g_nodes g)"
  proof -
    have "distinct ?k" "distinct (loose_nodes le g ?k)" "distinct (g_nodes g)"
      using distinct_kept_path_nodes [of le cs] dist(1) by (auto simp: loose_nodes_def distinct_map)
    then show ?thesis
      using k_sub loose by (simp add: distinct_card [symmetric] card_Diff_subset card_mono)
  qed
  then have nodes_eq: "set (d_nodes d) = set (g_nodes g)"
    using caps(1) k_sub loose unfolding kept by (auto simp: select_nodes_def Let_def)
  have within: "edge_within (d_nodes d) e" if "e \<in> set (g_edges g)" for e
    using closed that by (simp add: edge_within_def nodes_eq)
  have raw_sub: "set (raw_path_edges cs) \<subseteq> set (g_edges g)" using set_raw_path_edges sub(2) by blast
  then have "filter (edge_within (d_nodes d)) (raw_path_edges cs) = raw_path_edges cs"
    using within by (intro filter_True) blast
  then have path_edges: "select_path_edges le (d_nodes d) cs = sort_le (by_eid le) (raw_path_edges cs)"
    by (simp add: select_path_edges_def)
  have raw_eq: "set (raw_path_edges cs) = set (path_edges_of g)"
  proof
    show "set (raw_path_edges cs) \<subseteq> set (path_edges_of g)"
      using set_raw_path_edges cluster_sets(1) [OF ok] by blast
    show "set (path_edges_of g) \<subseteq> set (raw_path_edges cs)"
    proof
      fix e assume e: "e \<in> set (path_edges_of g)"
      then have "eid e \<in> eid ` set (raw_path_edges cs)"
        unfolding keys_raw_path_edges using clusters_okD(2) [OF ok e] by blast
      then show "e \<in> set (raw_path_edges cs)"
        using e raw_sub dist(2) by (auto simp: path_edges_of_def distinct_map dest: inj_onD)
    qed
  qed
  have loose_e: "filter (edge_within (d_nodes d)) (loose_edges le g) = loose_edges le g"
    using within by (intro filter_True) (auto simp: loose_edges_def)
  have len_e: "length (raw_path_edges cs) + length (loose_edges le g) = length (g_edges g)"
  proof -
    have "distinct (raw_path_edges cs)" using distinct_raw_path_edges [of cs] by (simp add: distinct_map)
    then have "length (raw_path_edges cs) = length (path_edges_of g)"
      using raw_eq dist(2) by (metis distinct_card distinct_filter distinct_map path_edges_of_def)
    then show ?thesis
      using sum_length_filter_compl [of "\<lambda>e. has_path_ids (e_path_ids e)" "g_edges g"]
      by (simp add: loose_edges_def path_edges_of_def)
  qed
  have "set (select_edges le g caps (d_nodes d) cs) = set (raw_path_edges cs) \<union> set (loose_edges le g)"
    using caps(2) len_e by (simp add: select_edges_def Let_def path_edges loose_e)
  then have edges_eq: "set (d_edges d) = set (g_edges g)"
    unfolding kept(2) using raw_eq by (auto simp: loose_edges_def path_edges_of_def)
  have "distinct (map nid (d_nodes d))" unfolding kept(1) by (rule distinct_select_nodes [OF dist(1)])
  then have len_n: "length (d_nodes d) = length (g_nodes g)"
    using nodes_eq dist(1) distinct_card by (metis distinct_map)
  have "distinct (map eid (d_edges d))"
    by (subst kept(2)) (rule distinct_select_edges [OF dist(2) ok order_refl])
  then have "length (d_edges d) = length (g_edges g)"
    using edges_eq dist(2) distinct_card by (metis distinct_map)
  then show ?thesis
    using nodes_eq edges_eq omitted flag all path_edges len_n by simp
qed

theorem bound_graph_fits_witness:
  "set (d_nodes sample_dto) = set (g_nodes sample_graph) \<and> set (d_edges sample_dto) = set (g_edges sample_graph) \<and>
   \<not> d_truncated sample_dto \<and> \<not> d_path_truncated sample_dto"
proof (rule bound_graph_fits [OF sample_bound sample_distinct])
  show "length (g_nodes sample_graph) \<le> cap_nodes \<lparr>cap_nodes = 4, cap_edges = 3\<rparr>"
    "length (g_edges sample_graph) \<le> cap_edges \<lparr>cap_nodes = 4, cap_edges = 3\<rparr>"
    by (simp_all add: sample_graph_def)
qed (rule sample_within)

section \<open>Graphs without paths\<close>

lemma clusters_loose:
  assumes "\<forall>n\<in>set (g_nodes g). \<not> has_path_ids (n_path_ids n)" "\<forall>e\<in>set (g_edges g). \<not> has_path_ids (e_path_ids e)"
  shows "clusters_of le g = Some []"
proof -
  have "path_nodes_of g = []" "path_edges_of g = []"
    using assms by (simp_all add: path_nodes_of_def path_edges_of_def filter_empty_conv)
  then show ?thesis by (simp add: clusters_of_def build_path_clusters_def)
qed

text \<open>Then the caps alone decide: the first nodes by id, and the first edges between them.\<close>

lemma bound_graph_loose:
  assumes "\<forall>n\<in>set (g_nodes g). \<not> has_path_ids (n_path_ids n)" "\<forall>e\<in>set (g_edges g). \<not> has_path_ids (e_path_ids e)"
    and "bound_graph le g caps = Some d"
  shows "d_nodes d = sort_le (by_nid le) (take (cap_nodes caps) (sort_le (by_nid le) (g_nodes g)))"
    and "d_edges d = sort_le (by_eid le)
      (take (cap_edges caps) (filter (edge_within (d_nodes d)) (sort_le (by_eid le) (g_edges g))))"
  using assms(3) assms(1,2)
  by (auto simp: bound_graph_def clusters_loose [OF assms(1,2)] Let_def admit_clusters_def select_nodes_def
      select_edges_def kept_path_nodes_def select_path_edges_def raw_path_edges_def js_map_def loose_nodes_def
      loose_edges_def)

end
