(* ===== verification/Path_Graph.thy ===== *)
theory Path_Graph
  imports Policy_Graph Js_Values
begin

text \<open>
  The graph of one path-check run (\<^verbatim>\<open>web/lib/network-path-graph.ts\<close>): a chain of steps per
  candidate between a shared source and destination, bounded by \<^const>\<open>bound_graph\<close>. What the
  builder relies on of the bounding is the locale \<open>graph_bounder\<close>.
\<close>

section \<open>The bounding interface\<close>

text \<open>
  A bounder returns for every graph, keeps only its edges within what it keeps, and treats the
  nodes and edges carrying one path id as a unit.
\<close>

locale graph_bounder =
  fixes bound :: "raw_graph \<Rightarrow> graph_caps \<Rightarrow> policy_graph_dto option"
  assumes returns: "\<exists>d. bound g caps = Some d"
    and unit: "bound g caps = Some d \<Longrightarrow> distinct (map eid (g_edges g)) \<Longrightarrow> e \<in> set (d_edges d) \<Longrightarrow>
      p \<in> set (path_ids_of (e_path_ids e)) \<Longrightarrow>
      (\<forall>n\<in>set (g_nodes g). p \<in> set (path_ids_of (n_path_ids n)) \<longrightarrow> nid n \<in> nid ` set (d_nodes d)) \<and>
      (\<forall>f\<in>set (g_edges g). p \<in> set (path_ids_of (e_path_ids f)) \<longrightarrow> edge_within (g_nodes g) f \<longrightarrow> f \<in> set (d_edges d))"
begin

text \<open>A path none of whose edges is kept partially: all of it is there, or no edge of it.\<close>

lemma path_whole_or_absent:
  assumes "bound g caps = Some d" "distinct (map eid (g_edges g))" "\<forall>f\<in>set (g_edges g). edge_within (g_nodes g) f"
  shows "(\<forall>f\<in>set (g_edges g). p \<in> set (path_ids_of (e_path_ids f)) \<longrightarrow> f \<in> set (d_edges d))
      \<and> (\<forall>n\<in>set (g_nodes g). p \<in> set (path_ids_of (n_path_ids n)) \<longrightarrow> nid n \<in> nid ` set (d_nodes d))
    \<or> (\<forall>f\<in>set (d_edges d). p \<notin> set (path_ids_of (e_path_ids f)))"
proof (cases "\<exists>e\<in>set (d_edges d). p \<in> set (path_ids_of (e_path_ids e))")
  case True
  then obtain e where "e \<in> set (d_edges d)" "p \<in> set (path_ids_of (e_path_ids e))" by blast
  from unit [OF assms(1,2) this] assms(3) show ?thesis by blast
qed blast

end

lemma linked_self: "path_linked g a a"
  by (rule linked.refl)

interpretation policy: graph_bounder "bound_graph le" for le
proof unfold_locales
  show "\<exists>d. bound_graph le g caps = Some d" for le g caps
    using bound_graph_returns by blast
  show "(\<forall>n\<in>set (g_nodes g). p \<in> set (path_ids_of (n_path_ids n)) \<longrightarrow> nid n \<in> nid ` set (d_nodes d)) \<and>
      (\<forall>f\<in>set (g_edges g). p \<in> set (path_ids_of (e_path_ids f)) \<longrightarrow> edge_within (g_nodes g) f \<longrightarrow> f \<in> set (d_edges d))"
    if "bound_graph le g caps = Some d" "distinct (map eid (g_edges g))" "e \<in> set (d_edges d)"
      "p \<in> set (path_ids_of (e_path_ids e))" for le g caps d e p
    using bound_graph_unit [OF that linked_self] .
qed

section \<open>The run\<close>

record run_candidate =
  cd_id :: string
  cd_kind :: string
  cd_status :: "string option"
  cd_blocker :: "string option"

record run_step =
  ps_candidate :: string
  ps_account :: string
  ps_region :: string
  ps_ordinal :: int
  ps_layer :: string
  ps_status :: string
  ps_resource :: "string option"
  ps_summary :: string

record run_detail =
  rd_status :: string
  rd_candidates :: "run_candidate list"
  rd_steps :: "run_step list"

definition PATH_CAPS :: graph_caps where
  "PATH_CAPS = \<lparr>cap_nodes = 120, cap_edges = 180\<rparr>"

definition as_status :: "string option \<Rightarrow> policy_status" where
  "as_status v =
     (if v = Some ''allowed'' then Allowed else if v = Some ''blocked'' then Blocked
      else if v = Some ''not_run'' then Not_Run else if v = Some ''not_applicable'' then Not_Applicable
      else Unknown)"

definition is_terminal :: "run_detail \<Rightarrow> bool" where
  "is_terminal run \<longleftrightarrow> rd_status run = ''succeeded'' \<or> rd_status run = ''failed'' \<or> rd_status run = ''cancelled''"

definition source_id :: string where
  "source_id = policy_node_id ''endpoint'' ''source''"

definition dest_id :: string where
  "dest_id = policy_node_id ''endpoint'' ''destination''"

definition step_id :: "run_step \<Rightarrow> string" where
  "step_id s = policy_node_id ''step'' (ps_candidate s @ '':'' @ show_int (ps_ordinal s))"

definition endpoint_node :: "string \<Rightarrow> string \<Rightarrow> policy_node" where
  "endpoint_node i label = \<lparr>nid = i, n_kind = ''endpoint'', n_label = label, n_status = Not_Applicable,
     n_resource_id = None, n_scope = None, n_path_ids = None\<rparr>"

definition step_node :: "run_candidate \<Rightarrow> run_step \<Rightarrow> policy_node" where
  "step_node c s = \<lparr>nid = step_id s, n_kind = ps_layer s,
     n_label = ps_layer s @ '': '' @ (case ps_resource s of None \<Rightarrow> ps_summary s | Some r \<Rightarrow> r),
     n_status = as_status (Some (ps_status s)), n_resource_id = None, n_scope = None, n_path_ids = Some [cd_id c]\<rparr>"

definition step_edge :: "run_candidate \<Rightarrow> string \<Rightarrow> run_step \<Rightarrow> policy_edge" where
  "step_edge c prev s = \<lparr>eid = policy_edge_id prev (step_id s) None, e_source = prev, e_target = step_id s,
     e_relation = ps_layer s, e_status = as_status (Some (ps_status s)),
     e_label = (if ps_summary s = [] then None else Some (ps_summary s)),
     e_path_ids = Some [cd_id c], e_step_ordinals = None\<rparr>"

definition final_edge :: "run_candidate \<Rightarrow> string \<Rightarrow> policy_edge" where
  "final_edge c prev = \<lparr>eid = policy_edge_id prev dest_id (Some (cd_id c)), e_source = prev, e_target = dest_id,
     e_relation = ''candidate'', e_status = as_status (cd_status c), e_label = None,
     e_path_ids = Some [cd_id c], e_step_ordinals = None\<rparr>"

text \<open>The \<open>byCandidate\<close> map, each list in the order of the run's steps.\<close>

definition by_candidate :: "run_step list \<Rightarrow> (string \<times> run_step list) list" where
  "by_candidate steps = foldl (\<lambda>m s.
     AList.update (ps_candidate s) (case map_of m (ps_candidate s) of None \<Rightarrow> [s] | Some l \<Rightarrow> l @ [s]) m) [] steps"

definition steps_of :: "run_detail \<Rightarrow> run_candidate \<Rightarrow> run_step list" where
  "steps_of run c = sort_le (\<lambda>x y. ps_ordinal x \<le> ps_ordinal y)
     (case map_of (by_candidate (rd_steps run)) (cd_id c) of None \<Rightarrow> [] | Some l \<Rightarrow> l)"

record path_builder =
  pb_nodes :: "policy_node list"
  pb_edges :: "policy_edge list"
  pb_running :: "string list"

definition undecided :: "run_candidate \<Rightarrow> bool" where
  "undecided c \<longleftrightarrow> cd_status c = None \<or> cd_status c = Some []"

definition add_step ::
  "bool \<Rightarrow> run_candidate \<Rightarrow> string \<times> bool \<times> path_builder \<Rightarrow> run_step \<Rightarrow> string \<times> bool \<times> path_builder" where
  "add_step terminal c st s = (case st of (prev, found, pb) \<Rightarrow>
     let hit = (\<not> terminal \<and> undecided c \<and> as_status (Some (ps_status s)) = Not_Run \<and> \<not> found) in
     (step_id s, found \<or> hit,
      pb\<lparr>pb_nodes := pb_nodes pb @ [step_node c s], pb_edges := pb_edges pb @ [step_edge c prev s],
        pb_running := pb_running pb @ (if hit then [policy_edge_id prev (step_id s) None] else [])\<rparr>))"

definition add_candidate :: "run_detail \<Rightarrow> path_builder \<Rightarrow> run_candidate \<Rightarrow> path_builder" where
  "add_candidate run pb c =
     (case foldl (add_step (is_terminal run) c) (source_id, False, pb) (steps_of run c) of
        (prev, _, pb') \<Rightarrow> pb'\<lparr>pb_edges := pb_edges pb' @ [final_edge c prev]\<rparr>)"

definition path_builder_of :: "run_detail \<Rightarrow> path_builder" where
  "path_builder_of run = foldl (add_candidate run)
     \<lparr>pb_nodes = [endpoint_node source_id ''source'', endpoint_node dest_id ''destination''], pb_edges = [], pb_running = []\<rparr>
     (rd_candidates run)"

definition raw_path_graph :: "string \<Rightarrow> run_detail \<Rightarrow> raw_graph" where
  "raw_path_graph now run = \<lparr>captured_at = now, g_nodes = pb_nodes (path_builder_of run), g_edges = pb_edges (path_builder_of run)\<rparr>"

definition build_network_path_graph ::
  "(string \<Rightarrow> string \<Rightarrow> bool) \<Rightarrow> string \<Rightarrow> run_detail \<Rightarrow> policy_graph_dto option \<times> string list" where
  "build_network_path_graph le now run =
     (bound_graph le (raw_path_graph now run) PATH_CAPS, pb_running (path_builder_of run))"

section \<open>The chains\<close>

text \<open>What one candidate contributes.\<close>

fun chain :: "run_candidate \<Rightarrow> string \<Rightarrow> run_step list \<Rightarrow> policy_edge list" where
  "chain c prev [] = [final_edge c prev]"
| "chain c prev (s # ss) = step_edge c prev s # chain c (step_id s) ss"

lemma add_step_parts:
  "fst (add_step t c st s) = step_id s"
  "pb_nodes (snd (snd (add_step t c st s))) = pb_nodes (snd (snd st)) @ [step_node c s]"
  "pb_edges (snd (snd (add_step t c st s))) = pb_edges (snd (snd st)) @ [step_edge c (fst st) s]"
  by (simp_all add: add_step_def Let_def split: prod.splits)

lemma add_steps_nodes:
  "pb_nodes (snd (snd (foldl (add_step t c) st ss))) = pb_nodes (snd (snd st)) @ map (step_node c) ss"
  by (induction ss arbitrary: st) (simp_all add: add_step_parts)

lemma add_steps_edges:
  "pb_edges (snd (snd (foldl (add_step t c) st ss))) @ [final_edge c (fst (foldl (add_step t c) st ss))]
     = pb_edges (snd (snd st)) @ chain c (fst st) ss"
  by (induction ss arbitrary: st) (simp_all add: add_step_parts)

lemma chain_not_Nil [simp]: "chain c prev ss \<noteq> []"
  by (cases ss) auto

lemma add_candidate_parts:
  "pb_nodes (add_candidate run pb c) = pb_nodes pb @ map (step_node c) (steps_of run c)"
  "pb_edges (add_candidate run pb c) = pb_edges pb @ chain c source_id (steps_of run c)"
  using add_steps_nodes [of "is_terminal run" c "(source_id, False, pb)" "steps_of run c"]
    add_steps_edges [of "is_terminal run" c "(source_id, False, pb)" "steps_of run c"]
  by (simp_all add: add_candidate_def case_prod_unfold)

lemma add_candidates_parts:
  "pb_nodes (foldl (add_candidate run) pb cs) = pb_nodes pb @ concat (map (\<lambda>c. map (step_node c) (steps_of run c)) cs)"
  "pb_edges (foldl (add_candidate run) pb cs) = pb_edges pb @ concat (map (\<lambda>c. chain c source_id (steps_of run c)) cs)"
  by (induction cs arbitrary: pb) (simp_all add: add_candidate_parts)

lemma raw_path_parts:
  "g_nodes (raw_path_graph now run) = [endpoint_node source_id ''source'', endpoint_node dest_id ''destination'']
     @ concat (map (\<lambda>c. map (step_node c) (steps_of run c)) (rd_candidates run))"
  "g_edges (raw_path_graph now run) = concat (map (\<lambda>c. chain c source_id (steps_of run c)) (rd_candidates run))"
  by (simp_all add: raw_path_graph_def path_builder_of_def add_candidates_parts)

section \<open>Distinct edge ids\<close>

text \<open>
  What the run's tables guarantee: one row per candidate, one step per candidate and ordinal;
  and candidate ids without the arrow that edge ids are joined with.
\<close>

definition run_ok :: "run_detail \<Rightarrow> bool" where
  "run_ok run \<longleftrightarrow> distinct (map cd_id (rd_candidates run))
     \<and> distinct (map (\<lambda>s. (ps_candidate s, ps_ordinal s)) (rd_steps run))
     \<and> (\<forall>c\<in>set (rd_candidates run). CHR ''>'' \<notin> set (cd_id c))"

lemma last_separator: "a @ c # t = a' @ c # t' \<Longrightarrow> c \<notin> set t \<Longrightarrow> c \<notin> set t' \<Longrightarrow> a = a' \<and> t = t'"
  by (auto simp: append_eq_append_conv2 append_eq_Cons_conv Cons_eq_append_conv)

lemma show_int_chars: "c \<in> set (show_int i) \<Longrightarrow> is_digit c \<or> c = CHR ''-''"
  using show_nat_digits by (auto simp: show_int_def split: if_splits)

lemma show_int_plain: "CHR '':'' \<notin> set (show_int i)" "CHR ''>'' \<notin> set (show_int i)"
  using show_int_chars [of _ i] by (fastforce simp: is_digit_def)+

lemma step_id_inj: "step_id s = step_id s' \<Longrightarrow> ps_candidate s = ps_candidate s' \<and> ps_ordinal s = ps_ordinal s'"
proof -
  assume "step_id s = step_id s'"
  then have "ps_candidate s @ CHR '':'' # show_int (ps_ordinal s) = ps_candidate s' @ CHR '':'' # show_int (ps_ordinal s')"
    by (simp add: step_id_def policy_node_id_def)
  from last_separator [OF this show_int_plain(1) show_int_plain(1)] show ?thesis by (simp add: show_int_inj)
qed

lemma map_of_by_candidate:
  "map_of (by_candidate steps) k =
     (let l = filter (\<lambda>s. ps_candidate s = k) steps in if l = [] then None else Some l)"
proof (induction steps rule: rev_induct)
  case Nil
  show ?case by (simp add: by_candidate_def)
next
  case (snoc s steps)
  have "by_candidate (steps @ [s]) = AList.update (ps_candidate s)
      (case map_of (by_candidate steps) (ps_candidate s) of None \<Rightarrow> [s] | Some l \<Rightarrow> l @ [s]) (by_candidate steps)"
    by (simp add: by_candidate_def)
  then show ?case
    using snoc by (auto simp: update_conv' Let_def filter_empty_conv)
qed

lemma steps_of_filter:
  "steps_of run c = sort_le (\<lambda>x y. ps_ordinal x \<le> ps_ordinal y) (filter (\<lambda>s. ps_candidate s = cd_id c) (rd_steps run))"
  by (simp add: steps_of_def map_of_by_candidate Let_def)

lemma steps_of_candidate: "s \<in> set (steps_of run c) \<Longrightarrow> ps_candidate s = cd_id c \<and> s \<in> set (rd_steps run)"
  by (simp add: steps_of_filter)

lemma distinct_step_ids: "run_ok run \<Longrightarrow> distinct (map step_id (steps_of run c))"
proof -
  assume "run_ok run"
  then have "distinct (map (\<lambda>s. (ps_candidate s, ps_ordinal s)) (steps_of run c))"
    by (simp add: run_ok_def steps_of_filter distinct_map_filter)
  then show ?thesis
    by (auto simp: distinct_map inj_on_def dest: step_id_inj)
qed

text \<open>What the edge ids of a candidate's chain end in after the arrow.\<close>

definition dest_tail :: "run_candidate \<Rightarrow> string" where
  "dest_tail c = dest_id @ (if cd_id c = [] then [] else CHR ''#'' # cd_id c)"

definition tails :: "run_candidate \<Rightarrow> run_step list \<Rightarrow> string list" where
  "tails c ss = map step_id ss @ [dest_tail c]"

lemma dest_tail_inj: "dest_tail c = dest_tail c' \<longleftrightarrow> cd_id c = cd_id c'"
  by (auto simp: dest_tail_def split: if_splits)

lemma chain_ids:
  "\<exists>ps. length ps = length (chain c prev ss) \<and> map eid (chain c prev ss) = map2 (\<lambda>p t. p @ ''->'' @ t) ps (tails c ss)"
proof (induction ss arbitrary: prev)
  case Nil
  show ?case by (intro exI [of _ "[prev]"]) (simp add: tails_def dest_tail_def final_edge_def policy_edge_id_def)
next
  case (Cons s ss)
  obtain ps where "length ps = length (chain c (step_id s) ss)"
    "map eid (chain c (step_id s) ss) = map2 (\<lambda>p t. p @ ''->'' @ t) ps (tails c ss)"
    using Cons.IH by blast
  then show ?case
    by (intro exI [of _ "prev # ps"]) (simp add: tails_def step_edge_def policy_edge_id_def)
qed

lemma length_chain: "length (chain c prev ss) = length (tails c ss)"
  by (induction ss arbitrary: prev) (simp_all add: tails_def)

lemma dest_id_value: "dest_id = ''endpoint:destination''"
  by (simp add: dest_id_def policy_node_id_def)

lemma tails_plain:
  assumes "CHR ''>'' \<notin> set (cd_id c)" "\<And>s. s \<in> set ss \<Longrightarrow> ps_candidate s = cd_id c" "t \<in> set (tails c ss)"
  shows "CHR ''>'' \<notin> set t"
  using assms show_int_plain(2) by (auto simp: tails_def dest_tail_def step_id_def policy_node_id_def dest_id_value split: if_splits)

lemma arrow_inj: "p @ ''->'' @ t = p' @ ''->'' @ t' \<Longrightarrow> CHR ''>'' \<notin> set t \<Longrightarrow> CHR ''>'' \<notin> set t' \<Longrightarrow> t = t'"
  using last_separator [of "p @ ''-''" "CHR ''>''" t "p' @ ''-''" t'] by simp

lemma distinct_arrows:
  assumes "distinct ts" "\<forall>t\<in>set ts. CHR ''>'' \<notin> set t" "length ps = length ts"
  shows "distinct (map2 (\<lambda>p t. p @ ''->'' @ t) ps ts)"
  using assms(3,1,2)
proof (induction ps ts rule: list_induct2)
  case (Cons p ps t ts)
  have "p @ ''->'' @ t \<notin> set (map2 (\<lambda>p t. p @ ''->'' @ t) ps ts)"
  proof
    assume "p @ ''->'' @ t \<in> set (map2 (\<lambda>p t. p @ ''->'' @ t) ps ts)"
    then obtain p' t' where m: "(p', t') \<in> set (zip ps ts)" "p @ ''->'' @ t = p' @ ''->'' @ t'" by auto
    then have "t' \<in> set ts" by (blast dest: set_zip_rightD)
    then show False using arrow_inj [OF m(2)] Cons.prems by auto
  qed
  then show ?case using Cons by simp
qed simp

lemma distinct_concat_map:
  assumes "distinct (map k xs)" "\<forall>x\<in>set xs. distinct (f x)"
    "\<And>x y. x \<in> set xs \<Longrightarrow> y \<in> set xs \<Longrightarrow> k x \<noteq> k y \<Longrightarrow> set (f x) \<inter> set (f y) = {}"
  shows "distinct (concat (map f xs))"
  using assms
proof (induction xs)
  case (Cons x xs)
  have "set (f x) \<inter> set (f y) = {}" if "y \<in> set xs" for y
    using Cons.prems(1,3) that by (metis distinct.simps(2) image_eqI list.set_intros list.set_map list.simps(9))
  moreover have "distinct (concat (map f xs))"
    by (rule Cons.IH) (use Cons.prems in auto)
  ultimately show ?case using Cons.prems(2) by auto
qed simp

lemma step_not_dest [simp]: "step_id s \<noteq> dest_tail c" "dest_tail c \<noteq> step_id s"
  by (simp_all add: step_id_def policy_node_id_def dest_tail_def dest_id_value)

lemma distinct_tails:
  assumes "run_ok run"
  shows "distinct (concat (map (\<lambda>c. tails c (steps_of run c)) (rd_candidates run)))"
proof (rule distinct_concat_map [of cd_id])
  show "distinct (map cd_id (rd_candidates run))" using assms by (simp add: run_ok_def)
  show "\<forall>c\<in>set (rd_candidates run). distinct (tails c (steps_of run c))"
    using distinct_step_ids [OF assms] by (auto simp: tails_def)
  fix c c' :: run_candidate assume "cd_id c \<noteq> cd_id c'"
  then show "set (tails c (steps_of run c)) \<inter> set (tails c' (steps_of run c')) = {}"
    by (auto simp: tails_def dest_tail_inj dest!: steps_of_candidate dest: step_id_inj)
qed

lemma chains_ids:
  "\<exists>ps. length ps = length (concat (map (\<lambda>c. tails c (f c)) cs)) \<and>
     map eid (concat (map (\<lambda>c. chain c source_id (f c)) cs))
       = map2 (\<lambda>p t. p @ ''->'' @ t) ps (concat (map (\<lambda>c. tails c (f c)) cs))"
proof (induction cs)
  case (Cons c cs)
  then obtain ps where ps: "length ps = length (concat (map (\<lambda>c. tails c (f c)) cs))"
    "map eid (concat (map (\<lambda>c. chain c source_id (f c)) cs)) = map2 (\<lambda>p t. p @ ''->'' @ t) ps (concat (map (\<lambda>c. tails c (f c)) cs))"
    by blast
  obtain qs where qs: "length qs = length (chain c source_id (f c))"
    "map eid (chain c source_id (f c)) = map2 (\<lambda>p t. p @ ''->'' @ t) qs (tails c (f c))"
    using chain_ids by blast
  show ?case
    by (rule exI [of _ "qs @ ps"]) (use ps qs in \<open>simp add: length_chain\<close>)
qed simp

lemma distinct_path_edges:
  assumes "run_ok run"
  shows "distinct (map eid (g_edges (raw_path_graph now run)))"
proof -
  let ?ts = "concat (map (\<lambda>c. tails c (steps_of run c)) (rd_candidates run))"
  obtain ps where ps: "length ps = length ?ts"
    "map eid (g_edges (raw_path_graph now run)) = map2 (\<lambda>p t. p @ ''->'' @ t) ps ?ts"
    unfolding raw_path_parts using chains_ids by blast
  have "\<forall>t\<in>set ?ts. CHR ''>'' \<notin> set t"
    using assms tails_plain steps_of_candidate by (fastforce simp: run_ok_def)
  then show ?thesis
    unfolding ps(2) by (rule distinct_arrows [OF distinct_tails [OF assms] _ ps(1)])
qed

lemma chain_within:
  "e \<in> set (chain c prev ss) \<Longrightarrow> e_source e \<in> insert prev (step_id ` set ss) \<and> e_target e \<in> insert dest_id (step_id ` set ss)
     \<and> e_path_ids e = Some [cd_id c]"
  by (induction ss arbitrary: prev) (auto simp: step_edge_def final_edge_def)

lemma path_edges_within: "\<forall>f\<in>set (g_edges (raw_path_graph now run)). edge_within (g_nodes (raw_path_graph now run)) f"
proof
  fix f assume "f \<in> set (g_edges (raw_path_graph now run))"
  then obtain c where c: "c \<in> set (rd_candidates run)" "f \<in> set (chain c source_id (steps_of run c))"
    by (auto simp: raw_path_parts)
  have ids: "nid ` set (g_nodes (raw_path_graph now run)) = {source_id, dest_id} \<union> (\<Union>c\<in>set (rd_candidates run). step_id ` set (steps_of run c))"
    by (simp add: raw_path_parts image_UN image_image endpoint_node_def step_node_def insert_commute)
  show "edge_within (g_nodes (raw_path_graph now run)) f"
    using chain_within [OF c(2)] c(1) unfolding edge_within_def ids by blast
qed

section \<open>Properties\<close>

lemma candidate_parts:
  assumes "c \<in> set (rd_candidates run)"
  shows "s \<in> set (steps_of run c) \<Longrightarrow> step_node c s \<in> set (g_nodes (raw_path_graph now run))"
    "e \<in> set (chain c source_id (steps_of run c)) \<Longrightarrow> e \<in> set (g_edges (raw_path_graph now run))"
  using assms by (auto simp: raw_path_parts)

text \<open>
  C35. A candidate path is shown whole or not at all: the graph of a run always exists, and for
  each candidate either every step node and every edge of its chain is in it, or none of the
  chain's edges is.
\<close>

theorem candidate_shown_whole_or_not:
  assumes "run_ok run" "c \<in> set (rd_candidates run)"
  shows "\<exists>d. fst (build_network_path_graph le now run) = Some d \<and>
    ((\<forall>e\<in>set (chain c source_id (steps_of run c)). e \<in> set (d_edges d)) \<and>
     (\<forall>s\<in>set (steps_of run c). step_id s \<in> nid ` set (d_nodes d))
     \<or> (\<forall>e\<in>set (d_edges d). e \<notin> set (chain c source_id (steps_of run c))))"
proof -
  let ?g = "raw_path_graph now run"
  obtain d where d: "bound_graph le ?g PATH_CAPS = Some d" using policy.returns by blast
  have tag: "cd_id c \<in> set (path_ids_of (e_path_ids e))" if "e \<in> set (chain c source_id (steps_of run c))" for e
    using chain_within [OF that] by (simp add: path_ids_of_def)
  have tag_node: "cd_id c \<in> set (path_ids_of (n_path_ids (step_node c s)))" "nid (step_node c s) = step_id s" for s
    by (simp_all add: step_node_def path_ids_of_def)
  from policy.path_whole_or_absent [OF d distinct_path_edges [OF assms(1)] path_edges_within, of "cd_id c"]
  show ?thesis
  proof
    assume all: "(\<forall>f\<in>set (g_edges ?g). cd_id c \<in> set (path_ids_of (e_path_ids f)) \<longrightarrow> f \<in> set (d_edges d))
      \<and> (\<forall>n\<in>set (g_nodes ?g). cd_id c \<in> set (path_ids_of (n_path_ids n)) \<longrightarrow> nid n \<in> nid ` set (d_nodes d))"
    have "e \<in> set (d_edges d)" if "e \<in> set (chain c source_id (steps_of run c))" for e
      using all tag [OF that] candidate_parts(2) [OF assms(2) that] by blast
    moreover have "step_id s \<in> nid ` set (d_nodes d)" if "s \<in> set (steps_of run c)" for s
      using all tag_node [of s] candidate_parts(1) [OF assms(2) that] by metis
    ultimately show ?thesis using d by (simp add: build_network_path_graph_def)
  next
    assume "\<forall>f\<in>set (d_edges d). cd_id c \<notin> set (path_ids_of (e_path_ids f))"
    then show ?thesis using d tag by (auto simp: build_network_path_graph_def)
  qed
qed

definition demo_candidate :: run_candidate where
  "demo_candidate = \<lparr>cd_id = ''c1'', cd_kind = ''tgw'', cd_status = None, cd_blocker = None\<rparr>"

definition demo_step :: "int \<Rightarrow> string \<Rightarrow> run_step" where
  "demo_step n st = \<lparr>ps_candidate = ''c1'', ps_account = ''1'', ps_region = ''r'', ps_ordinal = n, ps_layer = ''sg'',
     ps_status = st, ps_resource = None, ps_summary = ''s''\<rparr>"

definition demo_run :: "string \<Rightarrow> run_detail" where
  "demo_run st = \<lparr>rd_status = st, rd_candidates = [demo_candidate],
     rd_steps = [demo_step 2 ''not_run'', demo_step 1 ''allowed'']\<rparr>"

theorem candidate_shown_whole_or_not_witness:
  "\<exists>d. fst (build_network_path_graph (\<le>) ''t'' (demo_run ''running'')) = Some d"
proof -
  have "run_ok (demo_run ''running'')" "demo_candidate \<in> set (rd_candidates (demo_run ''running''))" by code_simp+
  from candidate_shown_whole_or_not [OF this, of "(\<le>)" "''t''"] show ?thesis by blast
qed

text \<open>
  The builder's notion of a finished run misses one of the states: runs are recorded with the
  status \<open>canceled\<close>, the test reads \<open>cancelled\<close>, so a cancelled run still shows a step as running.
\<close>

theorem canceled_run_shows_running:
  "snd (build_network_path_graph (\<le>) ''t'' (demo_run ''canceled'')) = [''step:c1:1->step:c1:2'']"
  "snd (build_network_path_graph (\<le>) ''t'' (demo_run ''failed'')) = []"
  by code_simp+

end
