(* ===== verification/Incident.thy ===== *)
theory Incident
  imports Incident_Normalize
begin

text \<open>
  \<open>web/lib/incident.ts\<close>: triage of alert events into incidents, race-safe on the correlation
  key, the stage job, and the cached configuration parameters. Database statements are atomic
  steps; the clock, generated ids, SHA-256 and the outcome of the parameter store are arguments.
\<close>

section \<open>Configuration parameters\<close>

definition ttl_ms :: nat where
  "ttl_ms = 300000"

record cached_param =
  cp_value :: string
  cp_at :: nat

type_synonym param_cache = "string \<Rightarrow> cached_param option"

text \<open>
  \<open>fetch\<close>: \<^term>\<open>None\<close> if the call throws, otherwise the parameter's value, if it has one. A
  fallback for a missing value is cached, one for a failed call is not.
\<close>

definition read_param ::
  "string \<Rightarrow> (string \<Rightarrow> string option option) \<Rightarrow> nat \<Rightarrow> string \<Rightarrow> string \<Rightarrow> param_cache \<Rightarrow> string \<times> param_cache" where
  "read_param project fetch now suffix fallback cache =
     (let name = ''/ops/'' @ project @ ''/incident/'' @ suffix;
          miss = (case fetch name of
                    None \<Rightarrow> (fallback, cache)
                  | Some v \<Rightarrow>
                      let value = (case v of Some x \<Rightarrow> x | None \<Rightarrow> fallback)
                      in (value, cache(name \<mapsto> \<lparr>cp_value = value, cp_at = now\<rparr>)))
      in case cache name of
           Some c \<Rightarrow> if now - cp_at c < ttl_ms then (cp_value c, cache) else miss
         | None \<Rightarrow> miss)"

text \<open>\<open>parseInt(s, 10) || d\<close>: leading space, a sign, then the longest run of digits.\<close>

definition parse_int :: "string \<Rightarrow> int option" where
  "parse_int s =
     (let t = dropWhile is_space s;
          neg = (t \<noteq> [] \<and> hd t = CHR ''-'');
          u = (if t \<noteq> [] \<and> (hd t = CHR ''-'' \<or> hd t = CHR ''+'') then tl t else t);
          ds = takeWhile is_digit u
      in if ds = [] then None
         else Some (if neg then - int (nat_of_digits ds) else int (nat_of_digits ds)))"

definition int_or :: "int \<Rightarrow> string \<Rightarrow> int" where
  "int_or d s = (case parse_int s of Some n \<Rightarrow> if n = 0 then d else n | None \<Rightarrow> d)"

definition read_window_minutes where
  "read_window_minutes project fetch now cache =
     (let (v, c) = read_param project fetch now ''correlation-window-minutes'' ''20'' cache in (int_or 20 v, c))"

definition read_stage_timeout_seconds where
  "read_stage_timeout_seconds project fetch now cache =
     (let (v, c) = read_param project fetch now ''stage-timeout-seconds'' ''600'' cache in (int_or 600 v, c))"

definition read_max_concurrent where
  "read_max_concurrent project fetch now cache =
     (let (v, c) = read_param project fetch now ''max-concurrent-investigations'' ''5'' cache in (int_or 5 v, c))"

definition read_fanout_max where
  "read_fanout_max project fetch now cache =
     (let (v, c) = read_param project fetch now ''subagent-fanout-max'' ''4'' cache in (int_or 4 v, c))"

definition read_min_severity ::
  "string \<Rightarrow> (string \<Rightarrow> string option option) \<Rightarrow> nat \<Rightarrow> param_cache \<Rightarrow> alert_severity \<times> param_cache" where
  "read_min_severity project fetch now cache =
     (let (v, c) = read_param project fetch now ''min-severity'' ''warning'' cache
      in (if v = ''critical'' then Critical else if v = ''info'' then Info else Warning, c))"

section \<open>Triage\<close>

record inc_env =
  aurora_endpoint :: "string option"
  lifecycle_flag :: "string option"
  agent_space :: "string option"

definition enabled :: "inc_env \<Rightarrow> bool" where
  "enabled e \<longleftrightarrow> aurora_endpoint e \<noteq> None \<and> aurora_endpoint e \<noteq> Some [] \<and> lifecycle_flag e = Some ''true''"

definition severity_rank :: "alert_severity \<Rightarrow> nat" where
  "severity_rank s = (case s of Critical \<Rightarrow> 3 | Warning \<Rightarrow> 2 | Info \<Rightarrow> 1)"

definition build_trigger_snapshot :: "alert_event \<Rightarrow> js_object" where
  "build_trigger_snapshot e =
     [(''id'', JStr (ae_id e)), (''severity'', JStr (severity_name (ae_severity e))),
      (''source'', JStr (source_name (ae_source e))), (''alertName'', ae_name e),
      (''services'', JArr (ae_services e)), (''resources'', JArr (ae_resources e)),
      (''labels'', JObj (ae_labels e)), (''metric'', coalesce (ae_metric e) JNull),
      (''timestamp'', ae_timestamp e),
      (''account'', coalesce (coalesce (field (ae_labels e) ''account_id'') (field (ae_annotations e) ''accountId'')) JNull),
      (''alarmArn'', coalesce (ae_alarm_arn e) JNull)]"

record incident =
  i_id :: string
  i_key :: string
  i_fingerprint :: string
  i_status :: string
  i_severity :: alert_severity
  i_source :: alert_source
  i_services :: "js list"
  i_resources :: "js list"
  i_space :: "string option"
  i_trigger :: "js_object option"
  i_last :: nat

datatype decision = New | Linked | Skipped | Disabled

record inc_state =
  incidents :: "incident list"
  links :: "(string \<times> string) list"

definition active :: "incident \<Rightarrow> bool" where
  "active i \<longleftrightarrow> i_status i = ''triaged'' \<or> i_status i = ''investigating''"

text \<open>\<open>INSERT ... ON CONFLICT (correlation_key) DO NOTHING RETURNING id\<close>.\<close>

definition insert_incident :: "sha256_hex \<Rightarrow> inc_env \<Rightarrow> string \<Rightarrow> nat \<Rightarrow> alert_event \<Rightarrow> inc_state \<Rightarrow> bool \<times> inc_state" where
  "insert_incident sha env fresh now e st =
     (let key = correlation_key sha e
      in if \<exists>i\<in>set (incidents st). i_key i = key then (False, st)
         else (True, st\<lparr>incidents := incidents st @
           [\<lparr>i_id = fresh, i_key = key, i_fingerprint = ae_id e, i_status = ''triaged'',
             i_severity = ae_severity e, i_source = ae_source e, i_services = ae_services e,
             i_resources = ae_resources e, i_space = agent_space env, i_trigger = None, i_last = now\<rparr>]\<rparr>))"

text \<open>The two statements of a lost race: bump the active incident, record the link.\<close>

definition bump_active :: "nat \<Rightarrow> string \<Rightarrow> inc_state \<Rightarrow> string option \<times> inc_state" where
  "bump_active now key st =
     (map_option i_id (List.find (\<lambda>i. i_key i = key \<and> active i) (incidents st)),
      st\<lparr>incidents := map (\<lambda>i. if i_key i = key \<and> active i then i\<lparr>i_last := now\<rparr> else i) (incidents st)\<rparr>)"

definition link_incident :: "nat \<Rightarrow> string \<Rightarrow> inc_state \<Rightarrow> string option \<times> inc_state" where
  "link_incident now key st =
     (case bump_active now key st of
        (None, st') \<Rightarrow> (None, st')
      | (Some i, st') \<Rightarrow> if i = [] then (Some i, st') else (Some i, st'\<lparr>links := links st' @ [(i, key)]\<rparr>))"

text \<open>\<open>stored\<close>: whether the best-effort snapshot update goes through.\<close>

definition store_trigger :: "bool \<Rightarrow> string \<Rightarrow> alert_event \<Rightarrow> inc_state \<Rightarrow> inc_state" where
  "store_trigger stored i e st =
     (if stored then st\<lparr>incidents := map (\<lambda>x. if i_id x = i then x\<lparr>i_trigger := Some (build_trigger_snapshot e)\<rparr> else x)
                        (incidents st)\<rparr> else st)"

definition triage_and_create_or_link ::
  "sha256_hex \<Rightarrow> inc_env \<Rightarrow> alert_severity \<Rightarrow> string \<Rightarrow> nat \<Rightarrow> bool \<Rightarrow> alert_event \<Rightarrow> inc_state \<Rightarrow>
   (decision \<times> string option) \<times> inc_state" where
  "triage_and_create_or_link sha env min_sev fresh now stored e st =
     (if \<not> enabled env then ((Disabled, None), st)
      else if severity_rank (ae_severity e) < severity_rank min_sev then ((Skipped, None), st)
      else case insert_incident sha env fresh now e st of
          (True, st') \<Rightarrow> ((New, Some fresh), store_trigger stored fresh e st')
        | (False, st') \<Rightarrow>
            (case link_incident now (correlation_key sha e) st' of (i, st'') \<Rightarrow> ((Linked, i), st'')))"

section \<open>The stage job\<close>

record stage_job =
  sj_id :: string
  sj_incident :: string
  sj_stage :: string

definition enqueue_initial_stage ::
  "inc_env \<Rightarrow> string option \<Rightarrow> string \<Rightarrow> string \<Rightarrow> stage_job list \<times> stage_job list \<Rightarrow> string \<times> stage_job list \<times> stage_job list" where
  "enqueue_initial_stage env queue_url fresh incident = (\<lambda>(rows, sent).
     if aurora_endpoint env = None \<or> aurora_endpoint env = Some [] then ([], rows, sent)
     else let j = \<lparr>sj_id = fresh, sj_incident = incident, sj_stage = ''triage''\<rparr>
          in (fresh, rows @ [j], if queue_url = None \<or> queue_url = Some [] then sent else sent @ [j]))"

section \<open>Concurrent triage\<close>

text \<open>
  Requests interleave between statements: an arrival passes its gates and inserts; if it lost,
  its key waits for the link; the worker tier moves an incident's status at any time.
\<close>

record inc_world =
  db :: inc_state
  lost :: "string list"
  decided :: "(string \<times> decision \<times> string option) list"

datatype inc_event =
    Arrive inc_env alert_severity string nat alert_event
  | Link string nat
  | Snapshot bool string alert_event
  | Set_Status string string

fun inc_step :: "sha256_hex \<Rightarrow> inc_event \<Rightarrow> inc_world \<Rightarrow> inc_world" where
  "inc_step sha (Arrive env min_sev fresh now e) w =
     (let key = correlation_key sha e
      in if \<not> enabled env then w\<lparr>decided := decided w @ [(key, Disabled, None)]\<rparr>
         else if severity_rank (ae_severity e) < severity_rank min_sev
           then w\<lparr>decided := decided w @ [(key, Skipped, None)]\<rparr>
         else case insert_incident sha env fresh now e (db w) of
             (True, st) \<Rightarrow> w\<lparr>db := st, decided := decided w @ [(key, New, Some fresh)]\<rparr>
           | (False, st) \<Rightarrow> w\<lparr>db := st, lost := key # lost w\<rparr>)"
| "inc_step sha (Link key now) w =
     (if key \<in> set (lost w)
      then (case link_incident now key (db w) of
              (i, st) \<Rightarrow> w\<lparr>db := st, lost := remove1 key (lost w), decided := decided w @ [(key, Linked, i)]\<rparr>)
      else w)"
| "inc_step sha (Snapshot stored i e) w = w\<lparr>db := store_trigger stored i e (db w)\<rparr>"
| "inc_step sha (Set_Status i s) w =
     w\<lparr>db := (db w)\<lparr>incidents := map (\<lambda>x. if i_id x = i then x\<lparr>i_status := s\<rparr> else x) (incidents (db w))\<rparr>\<rparr>"

definition inc_start :: inc_world where
  "inc_start = \<lparr>db = \<lparr>incidents = [], links = []\<rparr>, lost = [], decided = []\<rparr>"

definition inc_run :: "sha256_hex \<Rightarrow> inc_event list \<Rightarrow> inc_world" where
  "inc_run sha es = foldl (\<lambda>w e. inc_step sha e w) inc_start es"

lemma inc_run_snoc: "inc_run sha (es @ [e]) = inc_step sha e (inc_run sha es)"
  by (simp add: inc_run_def)

lemma inc_run_inv:
  "P inc_start \<Longrightarrow> (\<And>e w. P w \<Longrightarrow> P (inc_step sha e w)) \<Longrightarrow> P (inc_run sha es)"
  by (induction es rule: rev_induct) (simp_all add: inc_run_snoc, simp add: inc_run_def)

text \<open>Every statement but the insert keeps the ids and keys of the rows.\<close>

definition id_keys :: "inc_state \<Rightarrow> (string \<times> string) list" where
  "id_keys st = map (\<lambda>i. (i_id i, i_key i)) (incidents st)"

lemma id_keys_mem: "x \<in> set (incidents st) \<Longrightarrow> (i_id x, i_key x) \<in> set (id_keys st)"
  by (auto simp: id_keys_def)

lemma keys_image: "i_key ` set (incidents st) = snd ` set (id_keys st)"
  by (simp add: id_keys_def image_image)

lemma id_keys_bump: "bump_active now key st = (i, st') \<Longrightarrow> id_keys st' = id_keys st \<and> links st' = links st"
  by (auto simp: bump_active_def id_keys_def)

lemma id_keys_link: "link_incident now key st = (i, st') \<Longrightarrow> id_keys st' = id_keys st"
  using id_keys_bump [of now key st]
  by (auto simp: link_incident_def id_keys_def split: prod.splits option.splits if_splits)

lemma bump_found: "bump_active now key st = (Some i, st') \<Longrightarrow> (i, key) \<in> set (id_keys st)"
  by (auto simp: bump_active_def find_Some_iff intro: id_keys_mem)

lemma link_found:
  assumes "link_incident now key st = (Some i, st')"
  shows "(i, key) \<in> set (id_keys st)" "i \<noteq> [] \<Longrightarrow> (i, key) \<in> set (links st')"
  using assms bump_found [of now key st i]
  by (auto simp: link_incident_def split: prod.splits option.splits if_splits)

lemma link_links: "link_incident now key st = (i, st') \<Longrightarrow> set (links st) \<subseteq> set (links st')"
  by (auto simp: link_incident_def dest: id_keys_bump split: prod.splits option.splits if_splits)

lemma id_keys_store: "id_keys (store_trigger stored i e st) = id_keys st"
  by (simp add: store_trigger_def id_keys_def)

lemma insert_incident_cases:
  assumes "insert_incident sha env fresh now e st = (won, st')"
  shows "won \<Longrightarrow> id_keys st' = id_keys st @ [(fresh, correlation_key sha e)] \<and> correlation_key sha e \<notin> snd ` set (id_keys st)"
    and "\<not> won \<Longrightarrow> st' = st \<and> correlation_key sha e \<in> snd ` set (id_keys st)"
    and "links st' = links st"
proof -
  have taken: "correlation_key sha e \<in> snd ` set (id_keys st) \<longleftrightarrow> (\<exists>i\<in>set (incidents st). i_key i = correlation_key sha e)"
    unfolding keys_image [symmetric] by force
  show "won \<Longrightarrow> id_keys st' = id_keys st @ [(fresh, correlation_key sha e)] \<and> correlation_key sha e \<notin> snd ` set (id_keys st)"
    unfolding taken using assms by (auto simp: insert_incident_def Let_def id_keys_def split: if_splits)
  show "\<not> won \<Longrightarrow> st' = st \<and> correlation_key sha e \<in> snd ` set (id_keys st)"
    unfolding taken using assms by (auto simp: insert_incident_def Let_def split: if_splits)
  show "links st' = links st" using assms by (auto simp: insert_incident_def Let_def split: if_splits)
qed

section \<open>Invariant\<close>

definition new_ids :: "(string \<times> decision \<times> string option) list \<Rightarrow> (string option \<times> string) list" where
  "new_ids ds = map (\<lambda>(k, d, i). (i, k)) (filter (\<lambda>(k, d, i). d = New) ds)"

definition inc_ok :: "inc_world \<Rightarrow> bool" where
  "inc_ok w \<longleftrightarrow> distinct (map snd (id_keys (db w))) \<and>
     new_ids (decided w) = map (\<lambda>(i, k). (Some i, k)) (id_keys (db w)) \<and>
     set (lost w) \<subseteq> snd ` set (id_keys (db w)) \<and>
     (\<forall>k i. (k, Linked, i) \<in> set (decided w) \<longrightarrow> k \<in> snd ` set (id_keys (db w)) \<and>
        (\<forall>x. i = Some x \<longrightarrow> (x, k) \<in> set (id_keys (db w)) \<and> (x \<noteq> [] \<longrightarrow> (x, k) \<in> set (links (db w)))))"

lemma new_ids_snoc: "new_ids (ds @ [(k, d, i)]) = new_ids ds @ (if d = New then [(i, k)] else [])"
  by (simp add: new_ids_def)

text \<open>Preserved whenever ids and keys stay and links only grow.\<close>

lemma inc_ok_update:
  assumes "inc_ok w" "id_keys st = id_keys (db w)" "set (links (db w)) \<subseteq> set (links st)"
  shows "inc_ok (w\<lparr>db := st\<rparr>)"
  using assms unfolding inc_ok_def by simp blast

lemma inc_ok_arrive:
  assumes "inc_ok w"
  shows "inc_ok (inc_step sha (Arrive env min_sev fresh now e) w)"
proof (cases "enabled env \<and> \<not> severity_rank (ae_severity e) < severity_rank min_sev")
  case True
  obtain won st where ins: "insert_incident sha env fresh now e (db w) = (won, st)" by fastforce
  note facts = insert_incident_cases [OF ins]
  show ?thesis
  proof (cases won)
    case True
    then have "id_keys st = id_keys (db w) @ [(fresh, correlation_key sha e)]"
      "correlation_key sha e \<notin> snd ` set (id_keys (db w))"
      using facts(1) by auto
    moreover have step: "inc_step sha (Arrive env min_sev fresh now e) w =
        w\<lparr>db := st, decided := decided w @ [(correlation_key sha e, New, Some fresh)]\<rparr>"
      using \<open>enabled env \<and> _\<close> ins True by (simp add: Let_def)
    ultimately show ?thesis
      using assms facts(3) unfolding inc_ok_def step by (auto simp: new_ids_snoc)
  next
    case False
    then have "st = db w" "correlation_key sha e \<in> snd ` set (id_keys (db w))" using facts(2) by auto
    moreover have step: "inc_step sha (Arrive env min_sev fresh now e) w =
        w\<lparr>db := st, lost := correlation_key sha e # lost w\<rparr>"
      using \<open>enabled env \<and> _\<close> ins False by (simp add: Let_def)
    ultimately show ?thesis using assms unfolding inc_ok_def step by auto
  qed
next
  case False
  then obtain d where d: "d = Disabled \<or> d = Skipped"
    and step: "inc_step sha (Arrive env min_sev fresh now e) w =
        w\<lparr>decided := decided w @ [(correlation_key sha e, d, None)]\<rparr>"
    by (cases "enabled env") (auto simp: Let_def)
  then show ?thesis using assms unfolding inc_ok_def step by (auto simp: new_ids_snoc)
qed

lemma inc_ok_link:
  assumes "inc_ok w"
  shows "inc_ok (inc_step sha (Link key now) w)"
proof (cases "key \<in> set (lost w)")
  case True
  obtain i st where link: "link_incident now key (db w) = (i, st)" by fastforce
  have step: "inc_step sha (Link key now) w =
      (w\<lparr>db := st\<rparr>)\<lparr>lost := remove1 key (lost w), decided := decided w @ [(key, Linked, i)]\<rparr>"
    using True link by simp
  have "inc_ok (w\<lparr>db := st\<rparr>)" by (rule inc_ok_update [OF assms id_keys_link [OF link] link_links [OF link]])
  moreover have "key \<in> snd ` set (id_keys st)"
    using assms True id_keys_link [OF link] unfolding inc_ok_def by auto
  moreover have "(x, key) \<in> set (id_keys st) \<and> (x \<noteq> [] \<longrightarrow> (x, key) \<in> set (links st))" if "i = Some x" for x
    using link_found [OF link [unfolded that]] id_keys_link [OF link] by auto
  moreover have "set (remove1 key (lost w)) \<subseteq> set (lost w)" by (rule set_remove1_subset)
  ultimately show ?thesis unfolding step inc_ok_def by (auto simp: new_ids_snoc)
qed (use assms in simp)

lemma inc_ok_step: "inc_ok w \<Longrightarrow> inc_ok (inc_step sha e w)"
proof (cases e)
  case (Snapshot stored i ev)
  assume "inc_ok w"
  then have "inc_ok (w\<lparr>db := store_trigger stored i ev (db w)\<rparr>)"
    by (rule inc_ok_update) (simp_all add: store_trigger_def id_keys_def)
  then show ?thesis using Snapshot by simp
next
  case (Set_Status i s)
  assume "inc_ok w"
  then have "inc_ok (w\<lparr>db := (db w)\<lparr>incidents := map (\<lambda>x. if i_id x = i then x\<lparr>i_status := s\<rparr> else x) (incidents (db w))\<rparr>\<rparr>)"
    by (rule inc_ok_update) (simp_all add: id_keys_def)
  then show ?thesis using Set_Status by simp
qed (use inc_ok_arrive inc_ok_link in blast)+

lemma inc_ok_run: "inc_ok (inc_run sha es)"
  by (rule inc_run_inv) (simp add: inc_ok_def inc_start_def new_ids_def id_keys_def, rule inc_ok_step)

section \<open>Theorems\<close>

text \<open>
  C32. Exactly one alert wins: however arrivals, links and status changes interleave, the requests
  answered \<open>New\<close> are, in order, exactly the incident rows, there is at most one row per
  correlation key, and a request answered \<open>Linked\<close> with an incident names the row of its own
  key and has left a link to it.
\<close>

theorem exactly_one_new_per_key:
  "distinct (map i_key (incidents (db (inc_run sha es)))) \<and>
   new_ids (decided (inc_run sha es)) = map (\<lambda>i. (Some (i_id i), i_key i)) (incidents (db (inc_run sha es))) \<and>
   (\<forall>k i. (k, Linked, Some i) \<in> set (decided (inc_run sha es)) \<longrightarrow>
      (\<exists>x\<in>set (incidents (db (inc_run sha es))). i_id x = i \<and> i_key x = k) \<and>
      (i \<noteq> [] \<longrightarrow> (i, k) \<in> set (links (db (inc_run sha es)))))"
proof -
  let ?w = "inc_run sha es"
  have ok: "inc_ok ?w" by (rule inc_ok_run)
  have "map snd (id_keys (db ?w)) = map i_key (incidents (db ?w))"
    "map (\<lambda>(i, k). (Some i, k)) (id_keys (db ?w)) = map (\<lambda>i. (Some (i_id i), i_key i)) (incidents (db ?w))"
    by (simp_all add: id_keys_def)
  moreover have "\<exists>x\<in>set (incidents (db ?w)). i_id x = i \<and> i_key x = k" if "(i, k) \<in> set (id_keys (db ?w))" for i k
    using that by (auto simp: id_keys_def)
  ultimately show ?thesis using ok unfolding inc_ok_def by auto
qed

text \<open>Two identical alerts racing, and a later one after the incident was resolved.\<close>

definition sample_inc_env :: inc_env where
  "sample_inc_env = \<lparr>aurora_endpoint = Some ''db'', lifecycle_flag = Some ''true'', agent_space = None\<rparr>"

definition plain_alert :: alert_event where
  "plain_alert = \<lparr>ae_id = ''f1'', ae_source = Generic, ae_name = JStr ''cpu'', ae_severity = Critical, ae_status = Firing,
     ae_message = JStr [], ae_timestamp = JStr [], ae_labels = [], ae_annotations = [], ae_metric = JUndef,
     ae_alarm_arn = JUndef, ae_services = [], ae_resources = [], ae_raw = JUndef\<rparr>"

definition racing :: "inc_event list" where
  "racing = [Arrive sample_inc_env Warning ''i1'' 1 plain_alert, Arrive sample_inc_env Warning ''i2'' 2 plain_alert,
     Link (correlation_key (\<lambda>_. ''k'') plain_alert) 3]"

theorem exactly_one_new_per_key_witness:
  "map i_id (incidents (db (inc_run (\<lambda>_. ''k'') racing))) = [''i1''] \<and>
   new_ids (decided (inc_run (\<lambda>_. ''k'') racing)) = [(Some ''i1'', ''k'')]"
proof -
  have "map i_id (incidents (db (inc_run (\<lambda>_. ''k'') racing))) = [''i1'']"
    "map i_key (incidents (db (inc_run (\<lambda>_. ''k'') racing))) = [''k'']"
    by code_simp+
  then have "map (\<lambda>i. (Some (i_id i), i_key i)) (incidents (db (inc_run (\<lambda>_. ''k'') racing))) = [(Some ''i1'', ''k'')]"
    by (auto simp: map_eq_Cons_conv)
  with exactly_one_new_per_key [of "\<lambda>_. ''k''" racing] show ?thesis
    using \<open>map i_id _ = _\<close> by simp
qed

text \<open>
  The autonomous lifecycle is off unless switched on: without the database or with the flag not
  exactly \<open>true\<close>, or for an alert below the configured severity, triage answers without touching
  the database; and with it on, one call is the same as its statements run one after the other.
\<close>

theorem triage_is_gated:
  "(\<not> enabled env \<longrightarrow> triage_and_create_or_link sha env min_sev fresh now stored e st = ((Disabled, None), st)) \<and>
   (enabled env \<longrightarrow> severity_rank (ae_severity e) < severity_rank min_sev \<longrightarrow>
      triage_and_create_or_link sha env min_sev fresh now stored e st = ((Skipped, None), st)) \<and>
   snd (triage_and_create_or_link sha env min_sev fresh now stored e (db w)) =
     db (foldl (\<lambda>w ev. inc_step sha ev w) (w\<lparr>lost := []\<rparr>)
       (if enabled env \<and> severity_rank min_sev \<le> severity_rank (ae_severity e)
        then [Arrive env min_sev fresh now e,
              if fst (insert_incident sha env fresh now e (db w)) then Snapshot stored fresh e
              else Link (correlation_key sha e) now]
        else [Arrive env min_sev fresh now e]))"
  by (cases "insert_incident sha env fresh now e (db w)")
    (auto simp: triage_and_create_or_link_def Let_def split: prod.splits)

theorem triage_is_gated_witness:
  "snd (triage_and_create_or_link (\<lambda>_. ''k'') (sample_inc_env\<lparr>lifecycle_flag := Some ''TRUE''\<rparr>) Warning ''i1'' 1 True plain_alert
      \<lparr>incidents = [], links = []\<rparr>) = \<lparr>incidents = [], links = []\<rparr>"
proof -
  have "\<not> enabled (sample_inc_env\<lparr>lifecycle_flag := Some ''TRUE''\<rparr>)" by (simp add: enabled_def)
  then show ?thesis using triage_is_gated by (metis snd_conv)
qed

section \<open>A recurrence that is lost\<close>

text \<open>
  The key is unique over all incidents, closed ones too: once the incident of a condition has
  left the two active states, a new alert for that condition creates nothing, links nothing and
  names no incident.
\<close>

lemma recurrence_is_lost:
  assumes "enabled env" "\<not> severity_rank (ae_severity e) < severity_rank min_sev"
    and "i \<in> set (incidents st)" "i_key i = correlation_key sha e"
    and "\<forall>x\<in>set (incidents st). i_key x = correlation_key sha e \<longrightarrow> \<not> active x"
  shows "triage_and_create_or_link sha env min_sev fresh now stored e st = ((Linked, None), st)"
proof -
  have "insert_incident sha env fresh now e st = (False, st)" using assms(3,4) by (auto simp: insert_incident_def Let_def)
  moreover have "map (\<lambda>x. if i_key x = correlation_key sha e \<and> active x then x\<lparr>i_last := now\<rparr> else x) (incidents st) = incidents st"
    using assms(5) by (intro map_idI) auto
  moreover have "List.find (\<lambda>x. i_key x = correlation_key sha e \<and> active x) (incidents st) = None"
    using assms(5) by (auto simp: find_None_iff)
  ultimately show ?thesis
    using assms(1,2) by (simp add: triage_and_create_or_link_def link_incident_def bump_active_def)
qed

end
