(* ===== verification/Alert_Ingress.thy ===== *)
theory Alert_Ingress
  imports Incident Http_Body Auth
begin

text \<open>
  Authentication of the alert webhook: SNS message verification (\<^verbatim>\<open>web/lib/sns-verify.ts\<close>) and
  the envelope, topic, bearer and HMAC checks (\<^verbatim>\<open>web/lib/incident-ingress-auth.ts\<close>). The URL
  parser, \<open>Date.parse\<close>, X.509, RSA and HMAC of the run-time, and what a fetch returns, are the
  fields of \<open>crypto\<close>.
\<close>

section \<open>The run-time\<close>

record parsed_url =
  pu_protocol :: string
  pu_username :: string
  pu_password :: string
  pu_path :: string

record certificate =
  ce_from :: "int option"
  ce_to :: "int option"
  ce_subject :: string
  ce_issuer :: string

datatype algorithm = Rsa_Sha1 | Rsa_Sha256 | No_Algorithm

record fetched =
  fe_ok :: bool
  fe_length :: "int option"
  fe_body :: bytes

record crypto =
  parse_url :: "string \<Rightarrow> parsed_url option"
  parse_date :: "string \<Rightarrow> int option"
  x509 :: "string \<Rightarrow> certificate option"
  rsa_verify :: "algorithm \<Rightarrow> string \<Rightarrow> string \<Rightarrow> string \<Rightarrow> bool option"
  sha256 :: "string \<Rightarrow> bytes"
  hmac_sha256 :: "string \<Rightarrow> string \<Rightarrow> bytes"
  utf8 :: "bytes \<Rightarrow> string"

section \<open>SNS messages\<close>

definition canon_keys :: "string \<Rightarrow> string list" where
  "canon_keys ty =
     (if ty = ''Notification'' then [''Message'', ''MessageId'', ''Subject'', ''Timestamp'', ''TopicArn'', ''Type'']
      else if ty = ''SubscriptionConfirmation'' \<or> ty = ''UnsubscribeConfirmation''
        then [''Message'', ''MessageId'', ''SubscribeURL'', ''Timestamp'', ''Token'', ''TopicArn'', ''Type'']
      else [])"

definition canon_field :: "js \<Rightarrow> string \<Rightarrow> string" where
  "canon_field m k = (if nullish (attr m k) then [] else k @ [CHR 0x0A] @ to_string (attr m k) @ [CHR 0x0A])"

definition build_canonical_string :: "js \<Rightarrow> string" where
  "build_canonical_string m = concat (map (canon_field m) (canon_keys (to_string (attr m ''Type''))))"

definition region_char :: "char \<Rightarrow> bool" where
  "region_char c \<longleftrightarrow> (let k = of_char c :: nat in 97 \<le> k \<and> k \<le> 122) \<or> is_digit c \<or> c = CHR ''-''"

definition alnum_char :: "char \<Rightarrow> bool" where
  "alnum_char c \<longleftrightarrow> (let k = of_char c :: nat in 97 \<le> k \<and> k \<le> 122 \<or> 65 \<le> k \<and> k \<le> 90) \<or> is_digit c"

text \<open>\<open>^https:\/\/sns\.[a-z0-9-]+\.amazonaws\.com\/\<close>\<close>

definition sns_host :: "string \<Rightarrow> bool" where
  "sns_host url \<longleftrightarrow> starts_with ''https://sns.'' url \<and>
     (let rest = drop 12 url; r = takeWhile region_char rest
      in r \<noteq> [] \<and> starts_with ''.amazonaws.com/'' (drop (length r) rest))"

text \<open>\<open>\/SimpleNotificationService-[A-Za-z0-9]+\.pem$\<close>\<close>

definition cert_path :: "string \<Rightarrow> bool" where
  "cert_path p \<longleftrightarrow> ends_with ''.pem'' p \<and>
     (let b = rev (take (length p - 4) p); x = takeWhile alnum_char b
      in x \<noteq> [] \<and> starts_with (rev ''/SimpleNotificationService-'') (drop (length x) b))"

definition is_sns_cert_url_safe :: "crypto \<Rightarrow> string \<Rightarrow> bool" where
  "is_sns_cert_url_safe cr url = (case parse_url cr url of
      None \<Rightarrow> False
    | Some u \<Rightarrow> pu_protocol u = ''https:'' \<and> pu_username u = [] \<and> pu_password u = [] \<and> sns_host url \<and> cert_path (pu_path u))"

definition check_freshness :: "crypto \<Rightarrow> js \<Rightarrow> int \<Rightarrow> int \<Rightarrow> bool" where
  "check_freshness cr timestamp now window = (case parse_date cr (to_string timestamp) of
      None \<Rightarrow> False | Some t \<Rightarrow> \<bar>now - t\<bar> \<le> window)"

definition validate_cert :: "crypto \<Rightarrow> string \<Rightarrow> int \<Rightarrow> bool" where
  "validate_cert cr pem now = (case x509 cr pem of
      None \<Rightarrow> False
    | Some c \<Rightarrow> (case (ce_from c, ce_to c) of
        (Some a, Some b) \<Rightarrow> a \<le> now \<and> now \<le> b \<and> contains ''amazon'' (lower (ce_subject c @ '' '' @ ce_issuer c))
      | _ \<Rightarrow> False))"

definition DEFAULT_WINDOW_MS :: int where "DEFAULT_WINDOW_MS = 15 * 60000"

definition CERT_TTL_MS :: int where "CERT_TTL_MS = 60 * 60000"

definition CERT_MAX_BYTES :: nat where "CERT_MAX_BYTES = 16 * 1024"

definition CERT_CACHE_MAX :: nat where "CERT_CACHE_MAX = 256"

text \<open>The cache, a map with its entries in order: url, pem and expiry.\<close>

type_synonym cert_cache = "(string \<times> string \<times> int) list"

text \<open>\<open>get\<close> is the outcome of the fetch, none if it throws or is aborted.\<close>

definition download_cert :: "crypto \<Rightarrow> fetched option \<Rightarrow> string option" where
  "download_cert cr get = (case get of
      None \<Rightarrow> None
    | Some r \<Rightarrow>
        if \<not> fe_ok r then None
        else if (case fe_length r of None \<Rightarrow> False | Some n \<Rightarrow> int CERT_MAX_BYTES < n) then None
        else if CERT_MAX_BYTES < length (fe_body r) then None
        else (case x509 cr (utf8 cr (fe_body r)) of None \<Rightarrow> None | Some _ \<Rightarrow> Some (utf8 cr (fe_body r))))"

definition fetch_sns_cert ::
  "crypto \<Rightarrow> (string \<Rightarrow> fetched option) \<Rightarrow> int \<Rightarrow> string \<Rightarrow> cert_cache \<Rightarrow> string option \<times> cert_cache" where
  "fetch_sns_cert cr get now url cache =
     (let miss = (case download_cert cr (get url) of
          None \<Rightarrow> (None, cache)
        | Some pem \<Rightarrow>
            let kept = (if CERT_CACHE_MAX \<le> length cache then [] else cache)
            in (Some pem, AList.update url (pem, now + CERT_TTL_MS) kept))
      in case map_of cache url of
           Some (pem, exp) \<Rightarrow> if now < exp then (Some pem, cache) else miss
         | None \<Rightarrow> miss)"

text \<open>
  \<open>ALG[String(v)]\<close> reads an object: besides its two keys it finds the members every object
  inherits, which are no algorithm and make the verification throw.
\<close>

definition algorithm_of :: "js \<Rightarrow> algorithm option" where
  "algorithm_of v =
     (if to_string v = ''1'' then Some Rsa_Sha1 else if to_string v = ''2'' then Some Rsa_Sha256
      else if to_string v \<in> set object_members then Some No_Algorithm else None)"

datatype sns_verdict = Verified | Rejected string

definition signature_verdict :: "crypto \<Rightarrow> algorithm \<Rightarrow> js \<Rightarrow> string \<Rightarrow> string \<Rightarrow> sns_verdict" where
  "signature_verdict cr alg m pem sig =
     (case (if alg = No_Algorithm then None else rsa_verify cr alg (build_canonical_string m) pem sig) of
        None \<Rightarrow> Rejected ''verify_error''
      | Some ok \<Rightarrow> if ok then Verified else Rejected ''bad_signature'')"

definition verify_sns_message ::
  "crypto \<Rightarrow> (string \<Rightarrow> fetched option) \<Rightarrow> int \<Rightarrow> js \<Rightarrow> cert_cache \<Rightarrow> sns_verdict \<times> cert_cache" where
  "verify_sns_message cr get now m cache =
     (case algorithm_of (attr m ''SignatureVersion'') of
        None \<Rightarrow> (Rejected ''bad_signature_version'', cache)
      | Some alg \<Rightarrow> (case attr m ''SigningCertURL'' of
          JStr url \<Rightarrow>
            if \<not> is_sns_cert_url_safe cr url then (Rejected ''bad_cert_url'', cache)
            else if \<not> check_freshness cr (attr m ''Timestamp'') now DEFAULT_WINDOW_MS then (Rejected ''stale'', cache)
            else (case attr m ''Signature'' of
              JStr sig \<Rightarrow> (case fetch_sns_cert cr get now url cache of
                  (None, cache') \<Rightarrow> (Rejected ''cert_fetch_failed'', cache')
                | (Some pem, cache') \<Rightarrow>
                    if \<not> validate_cert cr pem now then (Rejected ''bad_cert'', cache')
                    else (signature_verdict cr alg m pem sig, cache'))
            | _ \<Rightarrow> (Rejected ''no_signature'', cache))
        | _ \<Rightarrow> (Rejected ''bad_cert_url'', cache)))"

section \<open>Envelopes and secrets\<close>

datatype envelope = Sns | Direct

definition classify_envelope :: "js \<Rightarrow> envelope" where
  "classify_envelope body =
     (if to_string (attr body ''Type'') \<in> {''Notification'', ''SubscriptionConfirmation'', ''UnsubscribeConfirmation''}
      then Sns else Direct)"

text \<open>\<open>rows\<close>: the allow-lists of the enabled ingress integrations, none if the query throws.\<close>

definition is_topic_allowed :: "string option \<Rightarrow> js list option \<Rightarrow> bool" where
  "is_topic_allowed topic rows = (if \<not> present topic then False else (case rows of
      None \<Rightarrow> False
    | Some rs \<Rightarrow> list_ex (\<lambda>a. JStr (the topic) \<in> set (as_array a)) rs))"

datatype secret_slot = Active | Standby

definition slot_secrets :: "string option \<times> string option \<Rightarrow> (secret_slot \<times> string) list" where
  "slot_secrets s =
     (if present (fst s) then [(Active, the (fst s))] else []) @ (if present (snd s) then [(Standby, the (snd s))] else [])"

text \<open>\<open>^Bearer\s+(.+)$\<close>: \<open>.\<close> matches no line terminator, and \<open>\s+\<close> gives back one space if it must.\<close>

definition bearer_token :: "string \<Rightarrow> string option" where
  "bearer_token h =
     (let rest = drop 6 h; ws = takeWhile is_space rest; tok = dropWhile is_space rest in
      if \<not> starts_with ''Bearer'' h \<or> ws = [] then None
      else if tok \<noteq> [] then (if CHR 0x0A \<in> set tok \<or> CHR 0x0D \<in> set tok then None else Some tok)
      else if 2 \<le> length ws \<and> last ws \<noteq> CHR 0x0A \<and> last ws \<noteq> CHR 0x0D then Some [last ws] else None)"

definition verify_bearer :: "crypto \<Rightarrow> string \<Rightarrow> string option \<times> string option \<Rightarrow> secret_slot option" where
  "verify_bearer cr h secrets = (case bearer_token h of
      None \<Rightarrow> None
    | Some t \<Rightarrow> map_option fst (find (\<lambda>(l, s). sha256 cr t = sha256 cr s) (slot_secrets secrets)))"

definition hex_nibble :: "char \<Rightarrow> nat option" where
  "hex_nibble c = (let k = of_char c :: nat in
     if 48 \<le> k \<and> k \<le> 57 then Some (k - 48) else if 97 \<le> k \<and> k \<le> 102 then Some (k - 87)
     else if 65 \<le> k \<and> k \<le> 70 then Some (k - 55) else None)"

text \<open>\<open>Buffer.from(s, 'hex')\<close> stops at the first pair that is not two digits.\<close>

fun from_hex :: "string \<Rightarrow> bytes" where
  "from_hex (a # b # r) = (case (hex_nibble a, hex_nibble b) of
      (Some x, Some y) \<Rightarrow> of_nat (16 * x + y) # from_hex r
    | _ \<Rightarrow> [])"
| "from_hex s = []"

definition strip_scheme :: "string \<Rightarrow> string" where
  "strip_scheme s = (if starts_with ''sha256='' s then drop 7 s else s)"

definition verify_hmac :: "crypto \<Rightarrow> string \<Rightarrow> string \<Rightarrow> string option \<times> string option \<Rightarrow> secret_slot option" where
  "verify_hmac cr body sig secrets =
     map_option fst (find (\<lambda>(l, s). from_hex (strip_scheme sig) = hmac_sha256 cr s body) (slot_secrets secrets))"

definition source_of_name :: "string \<Rightarrow> alert_source option" where
  "source_of_name n = find (\<lambda>s. source_name s = n) [Cloudwatch, Alertmanager, Grafana, Sqs, Generic]"

definition resolve_source_hint :: "js \<Rightarrow> string option \<Rightarrow> alert_source" where
  "resolve_source_hint body hint =
     (if classify_envelope body = Sns then Cloudwatch
      else (case Option.bind hint source_of_name of Some s \<Rightarrow> s | None \<Rightarrow> detect_alert_source (as_object body)))"

section \<open>What a verified message is\<close>

definition sns_authentic :: "crypto \<Rightarrow> int \<Rightarrow> js \<Rightarrow> bool" where
  "sns_authentic cr now m \<longleftrightarrow> (\<exists>url sig alg pem. attr m ''SigningCertURL'' = JStr url \<and> is_sns_cert_url_safe cr url \<and>
     check_freshness cr (attr m ''Timestamp'') now DEFAULT_WINDOW_MS \<and> attr m ''Signature'' = JStr sig \<and>
     alg \<noteq> No_Algorithm \<and> validate_cert cr pem now \<and> rsa_verify cr alg (build_canonical_string m) pem sig = Some True)"

lemma signature_verified:
  "signature_verdict cr alg m pem sig = Verified \<Longrightarrow>
     alg \<noteq> No_Algorithm \<and> rsa_verify cr alg (build_canonical_string m) pem sig = Some True"
  by (simp add: signature_verdict_def split: if_splits option.splits)

lemma verified_sns:
  assumes "verify_sns_message cr get now m cache = (Verified, cache')"
  shows "sns_authentic cr now m"
proof -
  obtain alg url sig where a: "algorithm_of (attr m ''SignatureVersion'') = Some alg"
    "attr m ''SigningCertURL'' = JStr url" "attr m ''Signature'' = JStr sig"
    "is_sns_cert_url_safe cr url" "check_freshness cr (attr m ''Timestamp'') now DEFAULT_WINDOW_MS"
    using assms by (auto simp: verify_sns_message_def split: option.splits js.splits if_splits)
  obtain pem c where "fetch_sns_cert cr get now url cache = (Some pem, c)" "validate_cert cr pem now"
    "signature_verdict cr alg m pem sig = Verified"
    using assms a by (auto simp: verify_sns_message_def split: prod.splits option.splits if_splits)
  with signature_verified a show ?thesis unfolding sns_authentic_def by blast
qed

text \<open>The cache holds parsable certificates of allowed URLs, and never more than its bound.\<close>

definition certs_ok :: "crypto \<Rightarrow> cert_cache \<Rightarrow> bool" where
  "certs_ok cr cache \<longleftrightarrow> length cache \<le> CERT_CACHE_MAX \<and> distinct (map fst cache) \<and>
     (\<forall>e\<in>set cache. is_sns_cert_url_safe cr (fst e) \<and> x509 cr (fst (snd e)) \<noteq> None)"

lemma set_update_subset: "set (AList.update k v m) \<subseteq> insert (k, v) (set m)"
  by (induction m) auto

lemma download_parses: "download_cert cr get = Some pem \<Longrightarrow> x509 cr pem \<noteq> None"
  by (auto simp: download_cert_def split: option.splits if_splits)

definition evicted :: "cert_cache \<Rightarrow> cert_cache" where
  "evicted cache = (if CERT_CACHE_MAX \<le> length cache then [] else cache)"

lemma evicted_ok: "certs_ok cr cache \<Longrightarrow> certs_ok cr (evicted cache) \<and> length (evicted cache) < CERT_CACHE_MAX"
  by (simp add: evicted_def certs_ok_def CERT_CACHE_MAX_def)

lemma fetch_cert_cases:
  "snd (fetch_sns_cert cr get now url cache) = cache \<or>
   (\<exists>p. x509 cr p \<noteq> None \<and> snd (fetch_sns_cert cr get now url cache) = AList.update url (p, now + CERT_TTL_MS) (evicted cache))"
  using download_parses [of cr "get url"]
  by (auto simp: fetch_sns_cert_def evicted_def Let_def split: option.split)

lemma fetch_cert_ok:
  assumes "certs_ok cr cache" "is_sns_cert_url_safe cr url"
  shows "certs_ok cr (snd (fetch_sns_cert cr get now url cache))"
  using fetch_cert_cases [of cr get now url cache]
proof
  assume "\<exists>p. x509 cr p \<noteq> None \<and> snd (fetch_sns_cert cr get now url cache) = AList.update url (p, now + CERT_TTL_MS) (evicted cache)"
  then obtain p where p: "x509 cr p \<noteq> None"
    "snd (fetch_sns_cert cr get now url cache) = AList.update url (p, now + CERT_TTL_MS) (evicted cache)" by blast
  from evicted_ok [OF assms(1)] show ?thesis
    using p(1) assms(2) set_update_subset [of url "(p, now + CERT_TTL_MS)" "evicted cache"]
      length_update_le [of url "(p, now + CERT_TTL_MS)" "evicted cache"]
    by (auto simp: p(2) certs_ok_def distinct_update)
qed (use assms in simp)

lemma verify_certs_ok:
  assumes "certs_ok cr cache"
  shows "certs_ok cr (snd (verify_sns_message cr get now m cache))"
proof (cases "attr m ''SigningCertURL''")
  case (JStr url)
  have "certs_ok cr (snd (fetch_sns_cert cr get now url cache))" if "is_sns_cert_url_safe cr url"
    using fetch_cert_ok [OF assms that] .
  with assms JStr show ?thesis
    by (auto simp: verify_sns_message_def case_prod_unfold split: option.split js.split)
qed (use assms in \<open>simp_all add: verify_sns_message_def split: option.split\<close>)

text \<open>Whatever the parser makes of it, the text of an allowed URL names an SNS host of some region.\<close>

lemma starts_with_drop: "starts_with p s \<Longrightarrow> s = p @ drop (length p) s"
  by (metis append_take_drop_id starts_with_def)

lemma safe_url_host:
  assumes "is_sns_cert_url_safe cr url"
  shows "\<exists>r rest. url = ''https://sns.'' @ r @ ''.amazonaws.com/'' @ rest \<and> r \<noteq> [] \<and> list_all region_char r"
proof -
  define rest where "rest = drop 12 url"
  define r where "r = takeWhile region_char rest"
  have h: "starts_with ''https://sns.'' url" "r \<noteq> []" "starts_with ''.amazonaws.com/'' (drop (length r) rest)"
    using assms by (simp_all add: is_sns_cert_url_safe_def sns_host_def Let_def rest_def r_def split: option.splits)
  have "url = ''https://sns.'' @ rest"
    using starts_with_drop [OF h(1)] by (simp add: rest_def eval_nat_numeral)
  moreover have "rest = r @ drop (length r) rest"
    unfolding r_def by (simp add: dropWhile_eq_drop [symmetric])
  moreover have "drop (length r) rest = ''.amazonaws.com/'' @ drop (length ''.amazonaws.com/'') (drop (length r) rest)"
    using starts_with_drop [OF h(3)] .
  moreover have "list_all region_char r" unfolding r_def list_all_iff by (auto dest: set_takeWhileD)
  ultimately show ?thesis using h(2) by metis
qed

lemma slot_secret: "(l, x) \<in> set (slot_secrets (a, b)) \<Longrightarrow> x \<noteq> [] \<and> (a = Some x \<or> b = Some x)"
  by (auto simp: slot_secrets_def present_iff split: if_splits)

lemma find_slot:
  "map_option fst (find P (slot_secrets (a, b))) = Some l \<Longrightarrow> \<exists>x. P (l, x) \<and> x \<noteq> [] \<and> (a = Some x \<or> b = Some x)"
proof -
  assume "map_option fst (find P (slot_secrets (a, b))) = Some l"
  then obtain x where f: "find P (slot_secrets (a, b)) = Some (l, x)" by auto
  then have "P (l, x)" "(l, x) \<in> set (slot_secrets (a, b))" by (auto simp: find_Some_iff in_set_conv_nth)
  with slot_secret show ?thesis by blast
qed

end
