(* ===== verification/Alert_Webhook.thy ===== *)
theory Alert_Webhook
  imports Alert_Ingress
begin

text \<open>
  The alert webhook \<^verbatim>\<open>web/app/api/incidents/webhook/route.ts\<close>: the flag, the rate limit, the
  bounded body, authentication, normalization, the write-back breaker and the triage of each
  alert. What the outside answers during one request is the record \<open>outside\<close>; the triage and
  the stage job are those of \<^theory_text>\<open>Incident\<close>, reached through the locale \<open>alert_store\<close>.
\<close>

section \<open>Rate limit\<close>

record rate_entry =
  rl_count :: nat
  rl_reset :: int

type_synonym rate_map = "(string \<times> rate_entry) list"

definition RATE_LIMIT :: nat where "RATE_LIMIT = 60"

definition RATE_WINDOW_MS :: int where "RATE_WINDOW_MS = 60000"

definition MAX_RATE_ENTRIES :: nat where "MAX_RATE_ENTRIES = 10000"

definition sweep :: "int \<Rightarrow> rate_map \<Rightarrow> rate_map" where
  "sweep now m = (if MAX_RATE_ENTRIES < length m then filter (\<lambda>(_, e). \<not> rl_reset e < now) m else m)"

definition check_rate_limit :: "int \<Rightarrow> string \<Rightarrow> rate_map \<Rightarrow> bool \<times> rate_map" where
  "check_rate_limit now ip m0 =
     (let m = sweep now m0;
          restart = (True, AList.update ip \<lparr>rl_count = 1, rl_reset = now + RATE_WINDOW_MS\<rparr> m) in
      case map_of m ip of
        None \<Rightarrow> restart
      | Some e \<Rightarrow>
          if rl_reset e < now then restart
          else (Suc (rl_count e) \<le> RATE_LIMIT, AList.update ip (e\<lparr>rl_count := Suc (rl_count e)\<rparr>) m))"

definition extract_client_ip :: "string option \<Rightarrow> string" where
  "extract_client_ip forwarded =
     (let ips = filter (\<lambda>s. s \<noteq> []) (map trim (split_on (CHR '','') (case forwarded of None \<Rightarrow> [] | Some h \<Rightarrow> h))) in
      if 2 \<le> length ips then ips ! (length ips - 2) else case ips of [] \<Rightarrow> ''unknown'' | i # _ \<Rightarrow> i)"

section \<open>Secrets\<close>

record secret_entry =
  sc_value :: "string option"
  sc_at :: int

type_synonym secret_cache = "(string \<times> secret_entry) list"

definition SECRET_TTL_MS :: int where "SECRET_TTL_MS = 5 * 60 * 1000"

text \<open>\<open>get\<close>: none if the call throws, otherwise the value, if the parameter has one.\<close>

definition read_ssm ::
  "(string \<Rightarrow> string option option) \<Rightarrow> int \<Rightarrow> string option \<Rightarrow> secret_cache \<Rightarrow> string option \<times> secret_cache" where
  "read_ssm get now name cache =
     (if \<not> present name then (None, cache)
      else let n = the name;
               miss = (case get n of
                   None \<Rightarrow> (None, cache)
                 | Some v \<Rightarrow> let w = (if present v then v else None) in (w, AList.update n \<lparr>sc_value = w, sc_at = now\<rparr> cache))
           in case map_of cache n of
                Some c \<Rightarrow> if now - sc_at c < SECRET_TTL_MS then (sc_value c, cache) else miss
              | None \<Rightarrow> miss)"

definition read_pair ::
  "(string \<Rightarrow> string option option) \<Rightarrow> int \<Rightarrow> string option \<times> string option \<Rightarrow> secret_cache \<Rightarrow>
   (string option \<times> string option) \<times> secret_cache" where
  "read_pair get now names c0 =
     (case read_ssm get now (fst names) c0 of (a, c1) \<Rightarrow>
       (case read_ssm get now (snd names) c1 of (b, c2) \<Rightarrow> ((a, b), c2)))"

section \<open>One request\<close>

record webhook_env =
  we_incident :: inc_env
  we_hmac :: "string option \<times> string option"
  we_bearer :: "string option \<times> string option"
  we_queue :: "string option"

record webhook_request =
  wr_forwarded :: "string option"
  wr_authorization :: "string option"
  wr_signatures :: "string option \<times> string option \<times> string option"
  wr_source :: "string option"
  wr_http :: http_request

text \<open>How an enqueue ends: well, at the insertion of the row, or at the send after it.\<close>

datatype enqueue_end = Enqueued | Insert_Fails | Send_Fails

record outside =
  ou_crypto :: crypto
  ou_codec :: codec
  ou_hash :: sha256_hex
  ou_ssm :: "string \<Rightarrow> string option option"
  ou_fetch :: "string \<Rightarrow> fetched option"
  ou_topics :: "js list option"
  ou_now :: nat
  ou_iso :: string
  ou_min_severity :: "nat \<Rightarrow> alert_severity"
  ou_fresh :: "nat \<Rightarrow> string"
  ou_stored :: "nat \<Rightarrow> bool"
  ou_triage_fails :: "nat \<Rightarrow> bool"
  ou_job :: "nat \<Rightarrow> string"
  ou_enqueue :: "nat \<Rightarrow> enqueue_end"

record webhook_state =
  ws_rate :: rate_map
  ws_secrets :: secret_cache
  ws_certs :: cert_cache
  ws_incidents :: inc_state
  ws_jobs :: "stage_job list \<times> stage_job list"

datatype webhook_reply =
    W_Disabled
  | W_Rate_Limited
  | W_Too_Large
  | W_Invalid_Json
  | W_Unauthorized
  | W_Confirmed
  | W_Invalid_Subscription
  | W_Unsubscribed
  | W_No_Alerts
  | W_Dropped nat
  | W_Accepted alert_source nat nat nat nat nat
  | W_Error

definition MAX_BODY_BYTES :: nat where "MAX_BODY_BYTES = 512 * 1024"

definition confirm_subscription :: "outside \<Rightarrow> js \<Rightarrow> webhook_reply" where
  "confirm_subscription ou body = (case attr body ''SubscribeURL'' of
      JStr url \<Rightarrow>
        if sns_host url then (case ou_fetch ou url of
            Some r \<Rightarrow> if fe_ok r then W_Confirmed else W_Invalid_Subscription
          | None \<Rightarrow> W_Invalid_Subscription)
        else W_Invalid_Subscription
    | _ \<Rightarrow> W_Invalid_Subscription)"

definition signature_of :: "webhook_request \<Rightarrow> string" where
  "signature_of q = (case wr_signatures q of (a, b, c) \<Rightarrow>
     if present a then the a else if present b then the b else if present c then the c else [])"

definition topic_of :: "js \<Rightarrow> string option" where
  "topic_of body = (case attr body ''TopicArn'' of JStr t \<Rightarrow> Some t | _ \<Rightarrow> None)"

text \<open>The two ways in: whether the caller is authentic, with the caches as they are left.\<close>

definition auth_sns :: "outside \<Rightarrow> js \<Rightarrow> webhook_state \<Rightarrow> bool \<times> webhook_state" where
  "auth_sns ou body st =
     (case verify_sns_message (ou_crypto ou) (ou_fetch ou) (int (ou_now ou)) body (ws_certs st) of
        (v, certs) \<Rightarrow> (v = Verified \<and> is_topic_allowed (topic_of body) (ou_topics ou), st\<lparr>ws_certs := certs\<rparr>))"

definition auth_bearer :: "webhook_env \<Rightarrow> outside \<Rightarrow> webhook_request \<Rightarrow> webhook_state \<Rightarrow> bool \<times> webhook_state" where
  "auth_bearer we ou q st =
     (if \<not> present (wr_authorization q) then (False, st)
      else (case read_pair (ou_ssm ou) (int (ou_now ou)) (we_bearer we) (ws_secrets st) of
        (secrets, c) \<Rightarrow>
          (verify_bearer (ou_crypto ou) (the (wr_authorization q)) secrets \<noteq> None, st\<lparr>ws_secrets := c\<rparr>)))"

definition auth_hmac :: "webhook_env \<Rightarrow> outside \<Rightarrow> webhook_request \<Rightarrow> string \<Rightarrow> webhook_state \<Rightarrow> bool \<times> webhook_state" where
  "auth_hmac we ou q raw st =
     (case read_pair (ou_ssm ou) (int (ou_now ou)) (we_hmac we) (ws_secrets st) of
        (secrets, c) \<Rightarrow>
          (signature_of q \<noteq> [] \<and> verify_hmac (ou_crypto ou) raw (signature_of q) secrets \<noteq> None, st\<lparr>ws_secrets := c\<rparr>))"

definition auth_direct :: "webhook_env \<Rightarrow> outside \<Rightarrow> webhook_request \<Rightarrow> string \<Rightarrow> webhook_state \<Rightarrow> bool \<times> webhook_state" where
  "auth_direct we ou q raw st =
     (case auth_bearer we ou q st of (ok, st1) \<Rightarrow> if ok then (True, st1) else auth_hmac we ou q raw st1)"

section \<open>The alerts\<close>

record alert_counts =
  wc_new :: nat
  wc_linked :: nat
  wc_skipped :: nat

text \<open>
  The loop over a triage that may throw and an enqueue that leaves its store either way; a throw
  ends the request, and what was written before it stays.
\<close>

fun process_alerts ::
  "(nat \<Rightarrow> alert_event \<Rightarrow> 's \<Rightarrow> (decision \<times> string option) \<times> 's) \<Rightarrow> (nat \<Rightarrow> string \<Rightarrow> 'j \<Rightarrow> bool \<times> 'j) \<Rightarrow>
   (nat \<Rightarrow> bool) \<Rightarrow> nat \<Rightarrow> alert_event list \<Rightarrow> alert_counts \<Rightarrow> 's \<times> 'j \<Rightarrow> alert_counts option \<times> 's \<times> 'j" where
  "process_alerts triage enq fails n [] c w = (Some c, w)"
| "process_alerts triage enq fails n (a # rest) c w =
     (if fails n then (None, w)
      else (case triage n a (fst w) of ((d, i), s) \<Rightarrow>
        if d = New \<and> present i
        then (case enq n (the i) (snd w) of (ok, j) \<Rightarrow>
          if ok then process_alerts triage enq fails (Suc n) rest (c\<lparr>wc_new := Suc (wc_new c)\<rparr>) (s, j)
          else (None, (s, j)))
        else if d = Linked
        then process_alerts triage enq fails (Suc n) rest (c\<lparr>wc_linked := Suc (wc_linked c)\<rparr>) (s, snd w)
        else process_alerts triage enq fails (Suc n) rest (c\<lparr>wc_skipped := Suc (wc_skipped c)\<rparr>) (s, snd w)))"

definition triage_alert ::
  "webhook_env \<Rightarrow> outside \<Rightarrow> nat \<Rightarrow> alert_event \<Rightarrow> inc_state \<Rightarrow> (decision \<times> string option) \<times> inc_state" where
  "triage_alert we ou n a st =
     triage_and_create_or_link (ou_hash ou) (we_incident we) (ou_min_severity ou n) (ou_fresh ou n) (ou_now ou)
       (ou_stored ou n) a st"

definition enqueue_stage ::
  "webhook_env \<Rightarrow> outside \<Rightarrow> nat \<Rightarrow> string \<Rightarrow> stage_job list \<times> stage_job list \<Rightarrow> bool \<times> stage_job list \<times> stage_job list" where
  "enqueue_stage we ou n i w = (case ou_enqueue ou n of
      Enqueued \<Rightarrow> (True, snd (enqueue_initial_stage (we_incident we) (we_queue we) (ou_job ou n) i w))
    | Insert_Fails \<Rightarrow> (False, w)
    | Send_Fails \<Rightarrow> (False, snd (enqueue_initial_stage (we_incident we) None (ou_job ou n) i w)))"

definition accept_alerts :: "webhook_env \<Rightarrow> outside \<Rightarrow> alert_source \<Rightarrow> alert_event list \<Rightarrow> webhook_state \<Rightarrow> webhook_reply \<times> webhook_state" where
  "accept_alerts we ou src alerts st =
     (let live = filter (\<lambda>a. \<not> bears_self_writeback_marker a) alerts;
          dropped = length alerts - length live in
      if alerts = [] then (W_No_Alerts, st)
      else if live = [] then (W_Dropped dropped, st)
      else (case process_alerts (triage_alert we ou) (enqueue_stage we ou) (ou_triage_fails ou) 0 live
              \<lparr>wc_new = 0, wc_linked = 0, wc_skipped = 0\<rparr> (ws_incidents st, ws_jobs st) of
        (r, (incs, jobs)) \<Rightarrow>
          (case r of None \<Rightarrow> W_Error
             | Some c \<Rightarrow> W_Accepted src (length alerts) (wc_new c) (wc_linked c) (wc_skipped c) dropped,
           st\<lparr>ws_incidents := incs, ws_jobs := jobs\<rparr>)))"

text \<open>
  After authentication. A body that is \<open>null\<close> makes the detection and the two normalizers that
  read \<open>alerts\<close> throw; the others catch it and give nothing.
\<close>

definition null_body :: "string option \<Rightarrow> webhook_reply" where
  "null_body hint = (case Option.bind hint source_of_name of
      None \<Rightarrow> W_Error
    | Some s \<Rightarrow> if s = Alertmanager \<or> s = Grafana then W_Error else W_No_Alerts)"

definition pipeline :: "webhook_env \<Rightarrow> outside \<Rightarrow> webhook_request \<Rightarrow> js \<Rightarrow> webhook_state \<Rightarrow> webhook_reply \<times> webhook_state" where
  "pipeline we ou q body st =
     (if body = JNull then (null_body (wr_source q), st)
      else let src = resolve_source_hint body (wr_source q) in
        accept_alerts we ou src
          (normalize_alert (ou_hash ou) (parse_json (ou_codec ou)) (ou_iso ou) (as_object body) (Some src)) st)"

definition authenticated ::
  "webhook_env \<Rightarrow> outside \<Rightarrow> webhook_request \<Rightarrow> string \<Rightarrow> js \<Rightarrow> webhook_state \<Rightarrow> webhook_reply \<times> webhook_state" where
  "authenticated we ou q raw body st = (case classify_envelope body of
      Sns \<Rightarrow> (case auth_sns ou body st of (ok, st1) \<Rightarrow>
        if \<not> ok then (W_Unauthorized, st1)
        else if attr body ''Type'' = JStr ''SubscriptionConfirmation'' then (confirm_subscription ou body, st1)
        else if attr body ''Type'' = JStr ''UnsubscribeConfirmation'' then (W_Unsubscribed, st1)
        else pipeline we ou q body st1)
    | Direct \<Rightarrow> (case auth_direct we ou q raw st of (ok, st1) \<Rightarrow>
        if \<not> ok then (W_Unauthorized, st1) else pipeline we ou q body st1))"

definition webhook :: "webhook_env \<Rightarrow> outside \<Rightarrow> webhook_request \<Rightarrow> webhook_state \<Rightarrow> webhook_reply \<times> webhook_state" where
  "webhook we ou q st =
     (if lifecycle_flag (we_incident we) \<noteq> Some ''true'' then (W_Disabled, st)
      else (case check_rate_limit (int (ou_now ou)) (extract_client_ip (wr_forwarded q)) (ws_rate st) of
        (allowed, rate) \<Rightarrow>
          let st1 = st\<lparr>ws_rate := rate\<rparr> in
          if \<not> allowed then (W_Rate_Limited, st1)
          else (case read_text_bounded (ou_codec ou) MAX_BODY_BYTES (wr_http q) of
              Inl Body_Too_Large \<Rightarrow> (W_Too_Large, st1)
            | Inl Syntax_Error \<Rightarrow> (W_Invalid_Json, st1)
            | Inr raw \<Rightarrow> (case parse_json (ou_codec ou) raw of
                None \<Rightarrow> (W_Invalid_Json, st1)
              | Some body \<Rightarrow> authenticated we ou q raw body st1))))"

section \<open>The store behind the triage\<close>

text \<open>
  What the loop relies on of the triage and the enqueue: one incident is opened by a new decision
  and none by another, a new decision names its incident, and one job is stored by an enqueue that
  ends well.
\<close>

locale alert_store =
  fixes triage :: "nat \<Rightarrow> alert_event \<Rightarrow> 's \<Rightarrow> (decision \<times> string option) \<times> 's"
    and enq :: "nat \<Rightarrow> string \<Rightarrow> 'j \<Rightarrow> bool \<times> 'j"
    and opened :: "'s \<Rightarrow> nat" and stored :: "'j \<Rightarrow> nat" and up :: bool
  assumes new: "up \<Longrightarrow> triage n a s = ((New, i), s') \<Longrightarrow> present i \<and> opened s' = Suc (opened s)"
    and not_new: "triage n a s = ((d, i), s') \<Longrightarrow> d \<noteq> New \<Longrightarrow> opened s' = opened s"
    and enqueued: "up \<Longrightarrow> enq n x j = (True, j') \<Longrightarrow> stored j' = Suc (stored j)"
begin

lemma counts_kept:
  assumes up and "process_alerts triage enq fails n as' c (s, j) = (Some c', s', j')"
  shows "opened s' + wc_new c = opened s + wc_new c' \<and> stored j' + wc_new c = stored j + wc_new c' \<and>
    wc_new c' + wc_linked c' + wc_skipped c' = wc_new c + wc_linked c + wc_skipped c + length as'"
  using assms(2)
proof (induction as' arbitrary: n c s j)
  case (Cons a rest)
  obtain d i s1 where t: "triage n a s = ((d, i), s1)" by (metis prod.exhaust)
  show ?case
  proof (cases "d = New")
    case True
    with t new [OF \<open>up\<close>] have i: "present i" "opened s1 = Suc (opened s)" by blast+
    obtain ok j1 where e: "enq n (the i) j = (ok, j1)" by fastforce
    with Cons.prems t i True have ok: "ok"
      "process_alerts triage enq fails (Suc n) rest (c\<lparr>wc_new := Suc (wc_new c)\<rparr>) (s1, j1) = (Some c', s', j')"
      by (auto split: if_splits)
    with e enqueued [OF \<open>up\<close>] have "stored j1 = Suc (stored j)" by simp
    with Cons.IH [OF ok(2)] i show ?thesis by simp
  next
    case False
    with t not_new have o: "opened s1 = opened s" by blast
    consider "d = Linked" "process_alerts triage enq fails (Suc n) rest (c\<lparr>wc_linked := Suc (wc_linked c)\<rparr>) (s1, j) = (Some c', s', j')"
      | "process_alerts triage enq fails (Suc n) rest (c\<lparr>wc_skipped := Suc (wc_skipped c)\<rparr>) (s1, j) = (Some c', s', j')"
      using Cons.prems t False by (auto split: if_splits)
    then show ?thesis by cases (auto dest!: Cons.IH simp: o)
  qed
qed simp

end

lemma triage_opens:
  assumes "triage_and_create_or_link sha env sev fresh now stored a st = ((d, i), st')"
  shows "length (incidents st') = (if d = New then Suc (length (incidents st)) else length (incidents st))"
    and "d = New \<Longrightarrow> i = Some fresh"
  using assms
  by (auto simp: triage_and_create_or_link_def insert_incident_def link_incident_def bump_active_def store_trigger_def
      Let_def split: if_splits option.splits prod.splits)

text \<open>Up: generated ids are not empty, and the database is configured.\<close>

definition backend_up :: "webhook_env \<Rightarrow> outside \<Rightarrow> bool" where
  "backend_up we ou \<longleftrightarrow> (\<forall>n. ou_fresh ou n \<noteq> []) \<and> present (aurora_endpoint (we_incident we))"

interpretation webhook_store: alert_store "triage_alert we ou" "enqueue_stage we ou"
    "\<lambda>st. length (incidents st)" "\<lambda>w. length (fst w)" "backend_up we ou" for we ou
proof unfold_locales
  show "present i \<and> length (incidents s') = Suc (length (incidents s))"
    if "backend_up we ou" "triage_alert we ou n a s = ((New, i), s')" for n a s i s'
    using triage_opens [OF that(2) [unfolded triage_alert_def]] that(1) by (simp add: present_def backend_up_def)
  show "length (incidents s') = length (incidents s)"
    if "triage_alert we ou n a s = ((d, i), s')" "d \<noteq> New" for n a s d i s'
    using triage_opens(1) [OF that(1) [unfolded triage_alert_def]] that(2) by simp
  show "length (fst j') = Suc (length (fst j))"
    if "backend_up we ou" "enqueue_stage we ou n x j = (True, j')" for n x j j'
    using that
    by (cases j) (auto simp: backend_up_def enqueue_stage_def enqueue_initial_stage_def present_def Let_def split: enqueue_end.splits)
qed

section \<open>Who is let in\<close>

text \<open>A secret the process may hold: cached under one of the names, or what the store has for it.\<close>

definition from_cache :: "secret_cache \<Rightarrow> string \<Rightarrow> string \<Rightarrow> bool" where
  "from_cache c n x \<longleftrightarrow> (\<exists>e. map_of c n = Some e \<and> sc_value e = Some x)"

definition known_secret :: "outside \<Rightarrow> string option \<times> string option \<Rightarrow> secret_cache \<Rightarrow> string \<Rightarrow> bool" where
  "known_secret ou names c x \<longleftrightarrow> x \<noteq> [] \<and> (\<exists>n. n \<noteq> [] \<and> (fst names = Some n \<or> snd names = Some n) \<and>
     (from_cache c n x \<or> ou_ssm ou n = Some (Some x)))"

lemma read_ssm_value:
  assumes "read_ssm get now name c = (Some x, c')"
  shows "\<exists>n. name = Some n \<and> n \<noteq> [] \<and> (from_cache c n x \<or> get n = Some (Some x))"
  using assms
  by (auto simp: read_ssm_def Let_def present_def from_cache_def split: if_splits option.splits)

lemma read_ssm_cache:
  assumes "from_cache (snd (read_ssm get now name c)) n x"
  shows "from_cache c n x \<or> get n = Some (Some x)"
proof -
  have "snd (read_ssm get now name c) = c \<or>
      (\<exists>v. get (the name) = Some v \<and> snd (read_ssm get now name c) =
         AList.update (the name) \<lparr>sc_value = (if present v then v else None), sc_at = now\<rparr> c)"
    by (auto simp: read_ssm_def Let_def split: option.split)
  with assms show ?thesis
    by (auto simp: from_cache_def update_conv' split: if_splits)
qed

lemma read_pair_known:
  assumes "read_pair (ou_ssm ou) now names c = (s, c')" "fst s = Some x \<or> snd s = Some x" "x \<noteq> []"
  shows "known_secret ou names c x"
proof -
  obtain a c1 b where r: "read_ssm (ou_ssm ou) now (fst names) c = (a, c1)"
    "read_ssm (ou_ssm ou) now (snd names) c1 = (b, c')" "s = (a, b)"
    using assms(1) by (auto simp: read_pair_def split: prod.splits)
  have c: "from_cache c1 n x \<Longrightarrow> from_cache c n x \<or> ou_ssm ou n = Some (Some x)" for n
    using read_ssm_cache [of "ou_ssm ou" now "fst names" c n x] r(1) by simp
  show ?thesis
  proof (cases "a = Some x")
    case True
    from read_ssm_value [OF r(1) [unfolded True]] assms(3) show ?thesis unfolding known_secret_def by blast
  next
    case False
    with assms(2) r(3) have "b = Some x" by simp
    from read_ssm_value [OF r(2) [unfolded this]] c assms(3) show ?thesis unfolding known_secret_def by blast
  qed
qed

lemma read_pair_cache:
  assumes "read_pair (ou_ssm ou) now names c = (s, c')" "from_cache c' n x"
  shows "from_cache c n x \<or> ou_ssm ou n = Some (Some x)"
proof -
  obtain a c1 b where r: "read_ssm (ou_ssm ou) now (fst names) c = (a, c1)" "read_ssm (ou_ssm ou) now (snd names) c1 = (b, c')"
    using assms(1) by (auto simp: read_pair_def split: prod.splits)
  show ?thesis
    using read_ssm_cache [of "ou_ssm ou" now "snd names" c1 n x] read_ssm_cache [of "ou_ssm ou" now "fst names" c n x] r assms(2)
    by auto
qed

definition bearer_authentic :: "webhook_env \<Rightarrow> outside \<Rightarrow> webhook_request \<Rightarrow> secret_cache \<Rightarrow> bool" where
  "bearer_authentic we ou q c \<longleftrightarrow> (\<exists>h t x. wr_authorization q = Some h \<and> bearer_token h = Some t \<and>
     known_secret ou (we_bearer we) c x \<and> sha256 (ou_crypto ou) t = sha256 (ou_crypto ou) x)"

definition hmac_authentic :: "webhook_env \<Rightarrow> outside \<Rightarrow> webhook_request \<Rightarrow> string \<Rightarrow> secret_cache \<Rightarrow> bool" where
  "hmac_authentic we ou q raw c \<longleftrightarrow> (\<exists>x. signature_of q \<noteq> [] \<and> known_secret ou (we_hmac we) c x \<and>
     from_hex (strip_scheme (signature_of q)) = hmac_sha256 (ou_crypto ou) x raw)"

definition topic_allowed :: "outside \<Rightarrow> js \<Rightarrow> bool" where
  "topic_allowed ou body \<longleftrightarrow> (\<exists>t rows a. attr body ''TopicArn'' = JStr t \<and> t \<noteq> [] \<and> ou_topics ou = Some rows \<and>
     a \<in> set rows \<and> JStr t \<in> set (as_array a))"

definition authentic :: "webhook_env \<Rightarrow> outside \<Rightarrow> webhook_request \<Rightarrow> string \<Rightarrow> js \<Rightarrow> secret_cache \<Rightarrow> bool" where
  "authentic we ou q raw body c \<longleftrightarrow> (case classify_envelope body of
      Sns \<Rightarrow> sns_authentic (ou_crypto ou) (int (ou_now ou)) body \<and> topic_allowed ou body
    | Direct \<Rightarrow> bearer_authentic we ou q c \<or> hmac_authentic we ou q raw c)"

lemma auth_sns_ok:
  assumes "auth_sns ou body st = (True, st')"
  shows "sns_authentic (ou_crypto ou) (int (ou_now ou)) body \<and> topic_allowed ou body"
proof -
  obtain certs where v: "verify_sns_message (ou_crypto ou) (ou_fetch ou) (int (ou_now ou)) body (ws_certs st) = (Verified, certs)"
    "is_topic_allowed (topic_of body) (ou_topics ou)"
    using assms by (auto simp: auth_sns_def split: prod.splits)
  have "topic_allowed ou body"
    using v(2) by (auto simp: is_topic_allowed_def topic_allowed_def topic_of_def present_def list_ex_iff
        split: if_splits option.splits js.splits)
  with verified_sns [OF v(1)] show ?thesis by blast
qed

lemma auth_bearer_ok:
  assumes "auth_bearer we ou q st = (True, st')"
  shows "bearer_authentic we ou q (ws_secrets st)"
proof -
  obtain h a b c where h: "wr_authorization q = Some h"
    "read_pair (ou_ssm ou) (int (ou_now ou)) (we_bearer we) (ws_secrets st) = ((a, b), c)"
    "verify_bearer (ou_crypto ou) h (a, b) \<noteq> None"
    using assms by (auto simp: auth_bearer_def present_def split: if_splits prod.splits)
  then obtain t l where t: "bearer_token h = Some t"
    "map_option fst (find (\<lambda>(l, s). sha256 (ou_crypto ou) t = sha256 (ou_crypto ou) s) (slot_secrets (a, b))) = Some l"
    by (auto simp: verify_bearer_def split: option.splits)
  from find_slot [OF t(2)] obtain x where "sha256 (ou_crypto ou) t = sha256 (ou_crypto ou) x" "x \<noteq> []" "a = Some x \<or> b = Some x"
    by auto
  with read_pair_known [OF h(2), of x] h(1) t(1) show ?thesis unfolding bearer_authentic_def by auto
qed

lemma auth_hmac_ok:
  assumes "auth_hmac we ou q raw st = (True, st')"
  shows "hmac_authentic we ou q raw (ws_secrets st)"
proof -
  obtain a b c where h: "read_pair (ou_ssm ou) (int (ou_now ou)) (we_hmac we) (ws_secrets st) = ((a, b), c)"
    "signature_of q \<noteq> []" "verify_hmac (ou_crypto ou) raw (signature_of q) (a, b) \<noteq> None"
    using assms by (auto simp: auth_hmac_def split: prod.splits)
  then obtain l where "map_option fst (find (\<lambda>(l, s). from_hex (strip_scheme (signature_of q)) = hmac_sha256 (ou_crypto ou) s raw)
      (slot_secrets (a, b))) = Some l"
    by (auto simp: verify_hmac_def)
  from find_slot [OF this] obtain x where "from_hex (strip_scheme (signature_of q)) = hmac_sha256 (ou_crypto ou) x raw"
    "x \<noteq> []" "a = Some x \<or> b = Some x" by auto
  with read_pair_known [OF h(1), of x] h(2) show ?thesis unfolding hmac_authentic_def by auto
qed

lemma auth_bearer_state:
  "from_cache (ws_secrets (snd (auth_bearer we ou q st))) n x \<Longrightarrow> from_cache (ws_secrets st) n x \<or> ou_ssm ou n = Some (Some x)"
  using read_pair_cache [of ou "int (ou_now ou)" "we_bearer we" "ws_secrets st"]
  by (auto simp: auth_bearer_def split: prod.splits if_splits)

lemma auth_direct_ok:
  assumes "auth_direct we ou q raw st = (True, st')"
  shows "bearer_authentic we ou q (ws_secrets st) \<or> hmac_authentic we ou q raw (ws_secrets st)"
proof -
  obtain ok st1 where b: "auth_bearer we ou q st = (ok, st1)" by fastforce
  show ?thesis
  proof (cases ok)
    case True
    with b have "auth_bearer we ou q st = (True, st1)" by simp
    from auth_bearer_ok [OF this] show ?thesis ..
  next
    case False
    with assms b have "hmac_authentic we ou q raw (ws_secrets st1)"
      using auth_hmac_ok by (simp add: auth_direct_def)
    moreover have "known_secret ou names (ws_secrets st1) x \<Longrightarrow> known_secret ou names (ws_secrets st) x" for names x
      using auth_bearer_state [of we ou q st] b unfolding known_secret_def by auto
    ultimately show ?thesis unfolding hmac_authentic_def by blast
  qed
qed

lemma auth_keeps_stores:
  "ws_incidents (snd (auth_sns ou body st)) = ws_incidents st" "ws_jobs (snd (auth_sns ou body st)) = ws_jobs st"
  "ws_incidents (snd (auth_direct we ou q raw st)) = ws_incidents st" "ws_jobs (snd (auth_direct we ou q raw st)) = ws_jobs st"
  by (simp_all add: auth_sns_def auth_direct_def auth_bearer_def auth_hmac_def case_prod_unfold)

text \<open>What only an authentic caller achieves: an incident or a job stored, or an alert read.\<close>

definition took_effect :: "webhook_state \<Rightarrow> webhook_reply \<times> webhook_state \<Rightarrow> bool" where
  "took_effect st out \<longleftrightarrow> ws_incidents (snd out) \<noteq> ws_incidents st \<or> ws_jobs (snd out) \<noteq> ws_jobs st
     \<or> fst out \<notin> {W_Disabled, W_Rate_Limited, W_Too_Large, W_Invalid_Json, W_Unauthorized}"

lemma authenticated_effect:
  assumes "took_effect st (authenticated we ou q raw body st)"
  shows "authentic we ou q raw body (ws_secrets st)"
proof (cases "classify_envelope body")
  case Sns
  obtain ok st1 where a: "auth_sns ou body st = (ok, st1)" by fastforce
  have "ok" using assms auth_keeps_stores(1,2) [of ou body st] by (auto simp: took_effect_def authenticated_def Sns a split: if_splits)
  with a auth_sns_ok Sns show ?thesis by (simp add: authentic_def)
next
  case Direct
  obtain ok st1 where a: "auth_direct we ou q raw st = (ok, st1)" by fastforce
  have "ok" using assms auth_keeps_stores(3,4) [of we ou q raw st]
    by (auto simp: took_effect_def authenticated_def Direct a split: if_splits)
  with a auth_direct_ok Direct show ?thesis by (simp add: authentic_def)
qed



section \<open>What is stored\<close>

lemma pipeline_counts:
  assumes "backend_up we ou" "pipeline we ou q body st = (W_Accepted src received n l k d, st')"
  shows "length (incidents (ws_incidents st')) = length (incidents (ws_incidents st)) + n \<and>
    length (fst (ws_jobs st')) = length (fst (ws_jobs st)) + n \<and> received = n + l + k + d"
proof -
  have "fst (null_body h, st) \<noteq> W_Accepted src received n l k d" for h by (simp add: null_body_def split: option.split)
  then obtain src' alerts where a: "accept_alerts we ou src' alerts st = (W_Accepted src received n l k d, st')"
    using assms(2) unfolding pipeline_def Let_def by (metis fst_conv)
  let ?live = "filter (\<lambda>a. \<not> bears_self_writeback_marker a) alerts"
  obtain r s' j' where p: "process_alerts (triage_alert we ou) (enqueue_stage we ou) (ou_triage_fails ou) 0 ?live
      \<lparr>wc_new = 0, wc_linked = 0, wc_skipped = 0\<rparr> (ws_incidents st, ws_jobs st) = (r, s', j')"
    by (metis prod.exhaust)
  with a obtain c where c: "r = Some c" "received = length alerts" "n = wc_new c" "l = wc_linked c" "k = wc_skipped c"
      "d = length alerts - length ?live" "st' = st\<lparr>ws_incidents := s', ws_jobs := j'\<rparr>"
    by (auto simp: accept_alerts_def Let_def split: if_splits option.splits)
  have "length ?live \<le> length alerts" by simp
  with webhook_store.counts_kept [OF assms(1) p [unfolded c(1)]] c show ?thesis by simp
qed

lemma authenticated_counts:
  assumes "backend_up we ou" "authenticated we ou q raw body st = (W_Accepted src received n l k d, st')"
  shows "length (incidents (ws_incidents st')) = length (incidents (ws_incidents st)) + n \<and>
    length (fst (ws_jobs st')) = length (fst (ws_jobs st)) + n \<and> received = n + l + k + d"
proof -
  obtain st1 where 1: "pipeline we ou q body st1 = (W_Accepted src received n l k d, st')"
    "ws_incidents st1 = ws_incidents st" "ws_jobs st1 = ws_jobs st"
  proof (cases "classify_envelope body")
    case Sns
    obtain ok st1 where a: "auth_sns ou body st = (ok, st1)" by fastforce
    show ?thesis
      using that [of st1] assms(2) auth_keeps_stores(1,2) [of ou body st] a Sns
      by (auto simp: authenticated_def confirm_subscription_def split: if_splits js.splits option.splits)
  next
    case Direct
    obtain ok st1 where a: "auth_direct we ou q raw st = (ok, st1)" by fastforce
    show ?thesis
      using that [of st1] assms(2) auth_keeps_stores(3,4) [of we ou q raw st] a Direct
      by (auto simp: authenticated_def split: if_splits)
  qed
  from pipeline_counts [OF assms(1) 1(1)] 1(2,3) show ?thesis by simp
qed

text \<open>
  While the database is there, an accepted request tells the truth about what it stored: as
  many incidents were opened, and as many stage jobs were recorded, as it reports new, and every
  alert received is reported new, linked, skipped or dropped.
\<close>

theorem webhook_counts:
  assumes "backend_up we ou" "webhook we ou q st = (W_Accepted src received n l k d, st')"
  shows "length (incidents (ws_incidents st')) = length (incidents (ws_incidents st)) + n \<and>
    length (fst (ws_jobs st')) = length (fst (ws_jobs st)) + n \<and> received = n + l + k + d"
proof -
  obtain raw body rate where "authenticated we ou q raw body (st\<lparr>ws_rate := rate\<rparr>) = (W_Accepted src received n l k d, st')"
    using assms(2) by (auto simp: webhook_def Let_def split: if_splits prod.splits sum.splits body_error.splits option.splits)
  from authenticated_counts [OF assms(1) this] show ?thesis by simp
qed

section \<open>A stage that is never queued\<close>

lemma triage_again:
  assumes "enabled (we_incident we)" "severity_rank (ou_min_severity ou n) \<le> severity_rank (ae_severity a)"
    and "i \<in> set (incidents st)" "i_key i = correlation_key (ou_hash ou) a"
  shows "\<exists>x st'. triage_alert we ou n a st = ((Linked, x), st')"
proof -
  have "insert_incident (ou_hash ou) (we_incident we) (ou_fresh ou n) (ou_now ou) a st = (False, st)"
    using assms(3,4) by (auto simp: insert_incident_def Let_def)
  with assms(1,2) show ?thesis by (simp add: triage_alert_def triage_and_create_or_link_def case_prod_unfold)
qed

text \<open>
  The insertion of the stage job follows the insertion of the incident and is not undone with it:
  when it fails, the request fails, and every later delivery of the same alert is linked to the
  incident that has no job.
\<close>

theorem failed_enqueue_is_never_retried:
  assumes "triage_alert we ou 0 a s = ((New, Some i), s1)" "\<not> ou_triage_fails ou 0" "ou_enqueue ou 0 = Insert_Fails" "i \<noteq> []"
    and "ou_hash retry = ou_hash ou" "\<not> ou_triage_fails retry 0"
    and "severity_rank (ou_min_severity retry 0) \<le> severity_rank (ae_severity a)"
  shows "process_alerts (triage_alert we ou) (enqueue_stage we ou) (ou_triage_fails ou) 0 [a] c (s, jobs) = (None, s1, jobs) \<and>
    (\<exists>s2. process_alerts (triage_alert we retry) (enqueue_stage we retry) (ou_triage_fails retry) 0 [a] c (s1, jobs) =
      (Some (c\<lparr>wc_linked := Suc (wc_linked c)\<rparr>), s2, jobs))"
proof
  show "process_alerts (triage_alert we ou) (enqueue_stage we ou) (ou_triage_fails ou) 0 [a] c (s, jobs) = (None, s1, jobs)"
    using assms(1-4) by (simp add: enqueue_stage_def present_def)
  have "enabled (we_incident we)" "\<exists>r\<in>set (incidents s1). i_key r = correlation_key (ou_hash retry) a"
    using assms(1,5)
    by (auto simp: triage_alert_def triage_and_create_or_link_def insert_incident_def store_trigger_def Let_def
        split: if_splits prod.splits)
  with triage_again [of we retry 0 a _ s1] assms(7) obtain x s2 where "triage_alert we retry 0 a s1 = ((Linked, x), s2)" by blast
  then show "\<exists>s2. process_alerts (triage_alert we retry) (enqueue_stage we retry) (ou_triage_fails retry) 0 [a] c (s1, jobs) =
      (Some (c\<lparr>wc_linked := Suc (wc_linked c)\<rparr>), s2, jobs)"
    using assms(6) by simp
qed

section \<open>How much is let in\<close>

text \<open>A run of requests, each a time and an address.\<close>

fun admit :: "(int \<times> string) list \<Rightarrow> rate_map \<Rightarrow> bool list \<times> rate_map" where
  "admit [] m = ([], m)"
| "admit ((now, ip) # reqs) m = (case check_rate_limit now ip m of
      (ok, m1) \<Rightarrow> (case admit reqs m1 of (oks, m2) \<Rightarrow> (ok # oks, m2)))"

definition admitted :: "string \<Rightarrow> (int \<times> string) list \<Rightarrow> rate_map \<Rightarrow> nat" where
  "admitted ip reqs m = length (filter (\<lambda>((_, p), ok). p = ip \<and> ok) (zip reqs (fst (admit reqs m))))"

lemma admitted_simps [simp]:
  "admitted ip [] m = 0"
  "admitted ip ((now, p) # reqs) m = (if p = ip \<and> fst (check_rate_limit now p m) then 1 else 0)
     + admitted ip reqs (snd (check_rate_limit now p m))"
  by (auto simp: admitted_def case_prod_unfold)

lemma sweep_distinct [simp]: "distinct (map fst m) \<Longrightarrow> distinct (map fst (sweep now m))"
  by (simp add: sweep_def distinct_map_filter)

lemma check_distinct: "distinct (map fst m) \<Longrightarrow> distinct (map fst (snd (check_rate_limit now ip m)))"
  by (auto simp: check_rate_limit_def Let_def distinct_update split: option.split)

lemma admit_distinct: "distinct (map fst m) \<Longrightarrow> distinct (map fst (snd (admit reqs m)))"
proof (induction reqs m rule: admit.induct)
  case (2 now ip reqs m)
  obtain ok m1 where c: "check_rate_limit now ip m = (ok, m1)" by fastforce
  with 2(2) check_distinct [of m now ip] have "distinct (map fst m1)" by simp
  from 2(1) [OF c [symmetric] this] c show ?case by (simp add: case_prod_unfold)
qed simp

lemma map_of_sweep:
  assumes "distinct (map fst m)"
  shows "map_of (sweep now m) ip = map_of m ip \<or> (map_of (sweep now m) ip = None \<and> (\<exists>e. map_of m ip = Some e \<and> rl_reset e < now))"
proof (cases "map_of m ip")
  case None
  then have "map_of (filter (\<lambda>(_, e). \<not> rl_reset e < now) m) ip = None" by (auto simp: map_of_eq_None_iff)
  with None show ?thesis by (simp add: sweep_def)
next
  case (Some e)
  let ?f = "filter (\<lambda>(_, e). \<not> rl_reset e < now) m"
  show ?thesis
  proof (cases "rl_reset e < now")
    case True
    then have "map_of ?f ip = None"
      using Some assms by (auto simp: map_of_eq_None_iff dest: eq_key_imp_eq_value [OF assms])
    with True Some show ?thesis by (simp add: sweep_def)
  next
    case False
    with Some have "map_of ?f ip = Some e" by (simp add: map_of_filter_in)
    with Some show ?thesis by (simp add: sweep_def)
  qed
qed

text \<open>What an address may still send up to the time \<open>b\<close>.\<close>

definition budget :: "int \<Rightarrow> string \<Rightarrow> rate_map \<Rightarrow> nat" where
  "budget b ip m = (case map_of m ip of
      None \<Rightarrow> RATE_LIMIT
    | Some e \<Rightarrow> if b \<le> rl_reset e then RATE_LIMIT - rl_count e else RATE_LIMIT + (RATE_LIMIT - rl_count e))"

lemma check_budget:
  assumes "distinct (map fst m)" "now \<le> b" "b \<le> now + RATE_WINDOW_MS"
  shows "(if p = ip \<and> fst (check_rate_limit now p m) then 1 else 0) + budget b ip (snd (check_rate_limit now p m)) \<le> budget b ip m"
proof -
  let ?s = "sweep now m"
  have le: "budget b ip ?s \<le> budget b ip m"
    using map_of_sweep [OF assms(1), of now ip] assms(2) by (auto simp: budget_def)
  consider (start) "fst (check_rate_limit now p m)" "\<forall>e. map_of ?s p = Some e \<longrightarrow> rl_reset e < now"
      "snd (check_rate_limit now p m) = AList.update p \<lparr>rl_count = 1, rl_reset = now + RATE_WINDOW_MS\<rparr> ?s"
    | (more) e where "map_of ?s p = Some e" "fst (check_rate_limit now p m) \<longleftrightarrow> Suc (rl_count e) \<le> RATE_LIMIT"
      "snd (check_rate_limit now p m) = AList.update p (e\<lparr>rl_count := Suc (rl_count e)\<rparr>) ?s"
  proof (cases "map_of ?s p")
    case None
    with start show ?thesis by (simp add: check_rate_limit_def Let_def)
  next
    case (Some e)
    with start more show ?thesis by (cases "rl_reset e < now") (simp_all add: check_rate_limit_def Let_def)
  qed
  then have "(if p = ip \<and> fst (check_rate_limit now p m) then 1 else 0) + budget b ip (snd (check_rate_limit now p m)) \<le> budget b ip ?s"
  proof cases
    case start
    with assms(2,3) show ?thesis
      by (cases "map_of ?s ip") (auto simp: budget_def update_conv' RATE_LIMIT_def)
  next
    case more
    then show ?thesis by (auto simp: budget_def update_conv' RATE_LIMIT_def)
  qed
  with le show ?thesis by linarith
qed

lemma admitted_budget:
  assumes "distinct (map fst m)" "\<forall>r\<in>set reqs. a \<le> fst r \<and> fst r \<le> a + RATE_WINDOW_MS"
  shows "admitted ip reqs m \<le> budget (a + RATE_WINDOW_MS) ip m"
  using assms
proof (induction reqs arbitrary: m)
  case (Cons r reqs)
  obtain now p where r: "r = (now, p)" by fastforce
  with Cons.prems(2) have t: "now \<le> a + RATE_WINDOW_MS" "a + RATE_WINDOW_MS \<le> now + RATE_WINDOW_MS" by auto
  let ?m1 = "snd (check_rate_limit now p m)"
  have "admitted ip reqs ?m1 \<le> budget (a + RATE_WINDOW_MS) ip ?m1"
    using Cons.IH [OF check_distinct [OF Cons.prems(1)]] Cons.prems(2) by simp
  with check_budget [OF Cons.prems(1) t, of p ip] show ?case by (simp add: r)
qed simp

text \<open>
  The webhook lets one address in at most 120 times within any minute, whatever it and all
  other addresses sent before and in between, and whenever the map of windows is swept: a minute
  meets at most two windows of 60.
\<close>

theorem rate_limit_bounds_a_minute:
  assumes "\<forall>r\<in>set reqs. a \<le> fst r \<and> fst r \<le> a + RATE_WINDOW_MS"
  shows "admitted ip reqs (snd (admit earlier [])) \<le> 2 * RATE_LIMIT"
proof -
  have "admitted ip reqs (snd (admit earlier [])) \<le> budget (a + RATE_WINDOW_MS) ip (snd (admit earlier []))"
    using admitted_budget assms admit_distinct by simp
  also have "\<dots> \<le> 2 * RATE_LIMIT" by (auto simp: budget_def split: option.split)
  finally show ?thesis .
qed

theorem rate_limit_bounds_a_minute_witness:
  "admitted ''a'' (replicate 3 (70000, ''a'') @ [(130000, ''a'')]) (snd (admit [(5, ''a''), (9, ''b'')] [])) \<le> 120"
  using rate_limit_bounds_a_minute [of "replicate 3 (70000, ''a'') @ [(130000, ''a'')]" 70000 "''a''" "[(5, ''a''), (9, ''b'')]"]
  by (simp add: RATE_WINDOW_MS_def RATE_LIMIT_def)

text \<open>The map itself has no bound: a sweep drops expired windows only, and a live one is kept.\<close>

theorem rate_map_is_unbounded:
  assumes "distinct ips"
  shows "length (snd (admit (map (\<lambda>ip. (now, ip)) ips) [])) = length ips"
proof -
  have "length (snd (admit (map (\<lambda>ip. (now, ip)) ips) m)) = length ips + length m"
    if "\<forall>e\<in>set m. now \<le> rl_reset (snd e)" "set ips \<inter> fst ` set m = {}" for m :: rate_map
    using that assms
  proof (induction ips arbitrary: m)
    case (Cons ip ips)
    let ?m1 = "m @ [(ip, \<lparr>rl_count = 1, rl_reset = now + RATE_WINDOW_MS\<rparr>)]"
    have "filter (\<lambda>(_, e). \<not> rl_reset e < now) m = m" using Cons.prems(1) by (auto simp: filter_id_conv)
    then have "sweep now m = m" by (simp add: sweep_def)
    moreover have "map_of m ip = None" using Cons.prems(2) by (auto simp: map_of_eq_None_iff)
    moreover have "AList.update ip v m = m @ [(ip, v)]" if "ip \<notin> fst ` set m" for v and m :: rate_map
      using that by (induction m) auto
    ultimately have "check_rate_limit now ip m = (True, ?m1)"
      using Cons.prems(2) by (simp add: check_rate_limit_def)
    moreover have "length (snd (admit (map (\<lambda>ip. (now, ip)) ips) ?m1)) = length ips + length ?m1"
      using Cons.prems by (intro Cons.IH) (auto simp: RATE_WINDOW_MS_def)
    ultimately show ?case by (simp add: case_prod_unfold)
  qed simp
  from this [of "[]"] show ?thesis by simp
qed

section \<open>An accepted request\<close>

text \<open>A generic alert under a bearer token.\<close>

definition demo_outside :: outside where
  "demo_outside = \<lparr>ou_crypto = \<lparr>parse_url = (\<lambda>_. None), parse_date = (\<lambda>_. None), x509 = (\<lambda>_. None), rsa_verify = (\<lambda>_ _ _ _. None),
       sha256 = encode demo_codec, hmac_sha256 = (\<lambda>k s. encode demo_codec (k @ s)), utf8 = decode demo_codec\<rparr>,
     ou_codec = demo_codec\<lparr>parse_json := (\<lambda>_. Some (JObj [(''title'', JStr ''cpu''), (''severity'', JStr ''critical'')]))\<rparr>,
     ou_hash = (\<lambda>_. ''k''), ou_ssm = (\<lambda>n. if n = ''/bearer'' then Some (Some ''token'') else None), ou_fetch = (\<lambda>_. None), ou_topics = None,
     ou_now = 1, ou_iso = ''now'', ou_min_severity = (\<lambda>_. Warning), ou_fresh = (\<lambda>_. ''i1''), ou_stored = (\<lambda>_. True),
     ou_triage_fails = (\<lambda>_. False), ou_job = (\<lambda>_. ''j1''), ou_enqueue = (\<lambda>_. Enqueued)\<rparr>"

definition demo_webhook :: webhook_env where
  "demo_webhook = \<lparr>we_incident = sample_inc_env, we_hmac = (None, None), we_bearer = (Some ''/bearer'', None), we_queue = Some ''q''\<rparr>"

definition demo_request :: webhook_request where
  "demo_request = \<lparr>wr_forwarded = Some ''203.0.113.9, 10.0.0.1'', wr_authorization = Some ''Bearer token'', wr_signatures = (None, None, None),
     wr_source = None, wr_http = \<lparr>hr_length = None, hr_stream = Some [encode demo_codec ''x''], hr_text = []\<rparr>\<rparr>"

definition quiet :: webhook_state where
  "quiet = \<lparr>ws_rate = [], ws_secrets = [], ws_certs = [], ws_incidents = \<lparr>incidents = [], links = []\<rparr>, ws_jobs = ([], [])\<rparr>"

lemma demo_raw: "read_text_bounded (ou_codec demo_outside) MAX_BODY_BYTES (wr_http demo_request) = Inr ''x''"
proof -
  have "decode demo_codec (encode demo_codec ''x'') = ''x''" "length (encode demo_codec ''x'') = 1" by code_simp+
  then show ?thesis
    by (simp add: read_text_bounded_def over_cap_header_def demo_outside_def demo_request_def MAX_BODY_BYTES_def)
qed

lemma demo_body:
  "parse_json (ou_codec demo_outside) ''x'' = Some (JObj [(''title'', JStr ''cpu''), (''severity'', JStr ''critical'')])"
  "classify_envelope (JObj [(''title'', JStr ''cpu''), (''severity'', JStr ''critical'')]) = Direct"
  by code_simp+

lemma demo_reply:
  "fst (webhook demo_webhook demo_outside demo_request quiet) = W_Accepted Generic 1 1 0 0 0"
proof -
  have rate: "check_rate_limit 1 ip [] = (True, [(ip, \<lparr>rl_count = 1, rl_reset = 60001\<rparr>)])" for ip
    by (simp add: check_rate_limit_def sweep_def RATE_WINDOW_MS_def)
  have "fst (authenticated demo_webhook demo_outside demo_request ''x'' (JObj [(''title'', JStr ''cpu''), (''severity'', JStr ''critical'')])
      (quiet\<lparr>ws_rate := rate\<rparr>)) = W_Accepted Generic 1 1 0 0 0" for rate
    by code_simp
  moreover have "ou_now demo_outside = 1" "ws_rate quiet = []" "lifecycle_flag (we_incident demo_webhook) = Some ''true''"
    by (simp_all add: demo_outside_def quiet_def demo_webhook_def sample_inc_env_def)
  ultimately show ?thesis by (simp add: webhook_def demo_raw demo_body rate Let_def)
qed


theorem webhook_counts_witness:
  "length (incidents (ws_incidents (snd (webhook demo_webhook demo_outside demo_request quiet)))) = 1"
proof -
  have "webhook demo_webhook demo_outside demo_request quiet =
      (W_Accepted Generic 1 1 0 0 0, snd (webhook demo_webhook demo_outside demo_request quiet))"
    using demo_reply by (metis prod.collapse)
  moreover have "backend_up demo_webhook demo_outside"
    by (simp add: backend_up_def demo_outside_def demo_webhook_def sample_inc_env_def present_def)
  ultimately show ?thesis using webhook_counts [of demo_webhook demo_outside demo_request quiet] by (simp add: quiet_def)
qed

end
