(* ===== verification/Admin.thy ===== *)
theory Admin
  imports Auth
begin

text \<open>
  The administrator gate of \<^verbatim>\<open>web/lib/admin.ts\<close>: membership of the admin group, or an e-mail
  on the list kept in an SSM parameter and cached for five minutes. A check that needs the
  parameter waits for its answer, and other checks run meanwhile, so the cache is the state of a
  step function over the checks begun and the answers received.
\<close>

section \<open>One check\<close>

record admin_env =
  ae_param :: "string option"
  ae_group :: "string option"

record email_cache =
  ec_value :: "string list"
  ec_at :: int

definition ADMIN_TTL_MS :: int where
  "ADMIN_TTL_MS = 5 * 60 * 1000"

definition admin_group :: "admin_env \<Rightarrow> string" where
  "admin_group e = (case ae_group e of None \<Rightarrow> ''admins'' | Some g \<Rightarrow> if g = [] then ''admins'' else g)"

definition in_group :: "admin_env \<Rightarrow> user \<Rightarrow> bool" where
  "in_group e u \<longleftrightarrow> (case u_groups u of None \<Rightarrow> False | Some gs \<Rightarrow> admin_group e \<in> set gs)"

text \<open>The parameter's value as the set of its entries.\<close>

definition email_set :: "string \<Rightarrow> string list" where
  "email_set raw = js_set (filter (\<lambda>s. s \<noteq> []) (map (\<lambda>s. lower (trim s)) (split_on (CHR '','') raw)))"

definition value_text :: "string option \<Rightarrow> string" where
  "value_text v = (case v of None \<Rightarrow> [] | Some s \<Rightarrow> s)"

definition cached_emails :: "int \<Rightarrow> email_cache option \<Rightarrow> string list option" where
  "cached_emails now cache = (case cache of
      None \<Rightarrow> None
    | Some c \<Rightarrow> if now - ec_at c < ADMIN_TTL_MS then Some (ec_value c) else None)"

definition on_list :: "user \<Rightarrow> string list \<Rightarrow> bool" where
  "on_list u emails \<longleftrightarrow> (case u_email u of None \<Rightarrow> False | Some m \<Rightarrow> m \<noteq> [] \<and> lower m \<in> set emails)"

text \<open>The part of a check before the parameter is asked for: an answer, or none yet.\<close>

definition begin_check :: "admin_env \<Rightarrow> user \<Rightarrow> int \<Rightarrow> email_cache option \<Rightarrow> bool option" where
  "begin_check e u now cache =
     (if in_group e u then Some True
      else if \<not> present (u_email u) then Some False
      else if \<not> present (ae_param e) then Some False
      else map_option (on_list u) (cached_emails now cache))"

text \<open>
  And the part after: \<open>None\<close> is a call that fails, which leaves the cache alone and denies.
\<close>

definition finish_check :: "user \<Rightarrow> string option option \<Rightarrow> int \<Rightarrow> email_cache option \<Rightarrow> bool \<times> email_cache option" where
  "finish_check u r now cache = (case r of
      None \<Rightarrow> (False, cache)
    | Some value \<Rightarrow>
        let emails = email_set (value_text value)
        in (on_list u emails, Some \<lparr>ec_value = emails, ec_at = now\<rparr>))"

section \<open>Overlapping checks\<close>

datatype admin_event =
    Check nat user
  | Ssm_Reply nat "string option option"

record admin_decision =
  de_user :: user
  de_admin :: bool
  de_at :: int

record admin_state =
  as_cache :: "email_cache option"
  as_waiting :: "(nat \<times> user) list"
  as_decided :: "admin_decision list"

definition decide :: "user \<Rightarrow> bool \<Rightarrow> int \<Rightarrow> admin_state \<Rightarrow> admin_state" where
  "decide u b now st = st\<lparr>as_decided := as_decided st @ [\<lparr>de_user = u, de_admin = b, de_at = now\<rparr>]\<rparr>"

definition admin_step :: "admin_env \<Rightarrow> int \<times> admin_event \<Rightarrow> admin_state \<Rightarrow> admin_state" where
  "admin_step e ev st = (case ev of
      (now, Check i u) \<Rightarrow>
        (case begin_check e u now (as_cache st) of
           Some b \<Rightarrow> decide u b now st
         | None \<Rightarrow> st\<lparr>as_waiting := (i, u) # as_waiting st\<rparr>)
    | (now, Ssm_Reply i r) \<Rightarrow>
        (case map_of (as_waiting st) i of
           None \<Rightarrow> st
         | Some u \<Rightarrow>
             (case finish_check u r now (as_cache st) of
                (b, cache) \<Rightarrow> decide u b now
                  (st\<lparr>as_cache := cache, as_waiting := filter (\<lambda>w. fst w \<noteq> i) (as_waiting st)\<rparr>))))"

definition admin_start :: admin_state where
  "admin_start = \<lparr>as_cache = None, as_waiting = [], as_decided = []\<rparr>"

definition admin_run :: "admin_env \<Rightarrow> (int \<times> admin_event) list \<Rightarrow> admin_state" where
  "admin_run e evs = foldl (\<lambda>st ev. admin_step e ev st) admin_start evs"

section \<open>What the cache holds\<close>

text \<open>A reply that listed the user, at an instant.\<close>

definition listed_at :: "(int \<times> admin_event) list \<Rightarrow> user \<Rightarrow> int \<Rightarrow> bool" where
  "listed_at evs u t \<longleftrightarrow> (\<exists>i value. (t, Ssm_Reply i (Some value)) \<in> set evs \<and> on_list u (email_set (value_text value)))"

definition cache_ok :: "(int \<times> admin_event) list \<Rightarrow> email_cache option \<Rightarrow> bool" where
  "cache_ok evs cache \<longleftrightarrow> (\<forall>c. cache = Some c \<longrightarrow>
     (\<exists>i value. (ec_at c, Ssm_Reply i (Some value)) \<in> set evs \<and> ec_value c = email_set (value_text value)))"

text \<open>Why a decision may admit the user.\<close>

definition admitted_for :: "admin_env \<Rightarrow> (int \<times> admin_event) list \<Rightarrow> admin_decision \<Rightarrow> bool" where
  "admitted_for e evs d \<longleftrightarrow> in_group e (de_user d) \<or>
     (\<exists>t. listed_at evs (de_user d) t \<and> t \<le> de_at d \<and> de_at d - t < ADMIN_TTL_MS)"

definition admin_ok :: "admin_env \<Rightarrow> (int \<times> admin_event) list \<Rightarrow> admin_state \<Rightarrow> bool" where
  "admin_ok e evs st \<longleftrightarrow> cache_ok evs (as_cache st) \<and> (\<forall>d\<in>set (as_decided st). de_admin d \<longrightarrow> admitted_for e evs d)"

lemma cache_okI:
  "(t, Ssm_Reply i (Some w)) \<in> set evs \<Longrightarrow> cache_ok evs (Some \<lparr>ec_value = email_set (value_text w), ec_at = t\<rparr>)"
  by (auto simp: cache_ok_def)

lemma listed_atI:
  "(t, Ssm_Reply i (Some w)) \<in> set evs \<Longrightarrow> on_list u (email_set (value_text w)) \<Longrightarrow> listed_at evs u t"
  by (auto simp: listed_at_def)

lemma listed_at_mono: "listed_at evs u t \<Longrightarrow> listed_at (evs @ evs') u t"
  by (auto simp: listed_at_def)

lemma admitted_for_mono: "admitted_for e evs d \<Longrightarrow> admitted_for e (evs @ evs') d"
  unfolding admitted_for_def by (blast dest: listed_at_mono)

lemma cache_ok_mono: "cache_ok evs c \<Longrightarrow> cache_ok (evs @ evs') c"
  unfolding cache_ok_def by (auto 0 4)

lemma admin_ok_mono: "admin_ok e evs st \<Longrightarrow> admin_ok e (evs @ evs') st"
  unfolding admin_ok_def by (blast dest: admitted_for_mono cache_ok_mono)

lemma admin_ok_decide:
  assumes "admin_ok e evs st" "b \<Longrightarrow> admitted_for e evs \<lparr>de_user = u, de_admin = b, de_at = now\<rparr>"
  shows "admin_ok e evs (decide u b now st)"
  using assms by (auto simp: admin_ok_def decide_def)

lemma begin_check_admitted:
  assumes "begin_check e u now cache = Some True" "cache_ok evs cache" "\<forall>ev\<in>set evs. fst ev \<le> now"
  shows "admitted_for e evs \<lparr>de_user = u, de_admin = True, de_at = now\<rparr>"
proof (cases "in_group e u")
  case False
  then obtain c where c: "cache = Some c" "now - ec_at c < ADMIN_TTL_MS" "on_list u (ec_value c)"
    using assms(1) by (auto simp: begin_check_def cached_emails_def split: if_splits option.splits)
  with assms(2) obtain i v where "(ec_at c, Ssm_Reply i (Some v)) \<in> set evs" "ec_value c = email_set (value_text v)"
    unfolding cache_ok_def by blast
  with c assms(3) have "listed_at evs u (ec_at c)" "ec_at c \<le> now" unfolding listed_at_def by force+
  with c show ?thesis unfolding admitted_for_def by auto
qed (simp add: admitted_for_def)

lemma finish_check_ok:
  assumes "finish_check u r now cache = (b, cache')" "cache_ok evs cache"
  shows "cache_ok (evs @ [(now, Ssm_Reply i r)]) cache'"
    and "b \<Longrightarrow> admitted_for e (evs @ [(now, Ssm_Reply i r)]) \<lparr>de_user = u, de_admin = b, de_at = now\<rparr>"
proof -
  let ?evs = "evs @ [(now, Ssm_Reply i r)]"
  have "cache_ok ?evs cache' \<and> (b \<longrightarrow> admitted_for e ?evs \<lparr>de_user = u, de_admin = b, de_at = now\<rparr>)"
  proof (cases r)
    case None
    then show ?thesis using assms cache_ok_mono by (simp add: finish_check_def)
  next
    case (Some w)
    have "(now, Ssm_Reply i (Some w)) \<in> set ?evs" by (simp add: Some)
    from cache_okI [OF this] listed_atI [OF this, of u] have "cache_ok ?evs cache'" "b \<Longrightarrow> listed_at ?evs u now"
      using assms(1) by (auto simp: finish_check_def Some Let_def)
    then show ?thesis by (auto simp: admitted_for_def ADMIN_TTL_MS_def)
  qed
  then show "cache_ok ?evs cache'" "b \<Longrightarrow> admitted_for e ?evs \<lparr>de_user = u, de_admin = b, de_at = now\<rparr>"
    by blast+
qed

lemma admin_ok_step:
  assumes "admin_ok e evs st" "\<forall>ev\<in>set evs. fst ev \<le> fst new"
  shows "admin_ok e (evs @ [new]) (admin_step e new st)"
proof (cases new)
  case (Pair now act)
  show ?thesis
  proof (cases act)
    case (Check i u)
    show ?thesis
    proof (cases "begin_check e u now (as_cache st)")
      case None
      with admin_ok_mono [OF assms(1)] show ?thesis by (simp add: Pair Check admin_step_def admin_ok_def)
    next
      case (Some b)
      have "admitted_for e (evs @ [new]) \<lparr>de_user = u, de_admin = b, de_at = now\<rparr>" if b
        using begin_check_admitted [of e u now "as_cache st" evs] Some assms that
        by (simp add: Pair admin_ok_def admitted_for_mono)
      with admin_ok_decide [OF admin_ok_mono [OF assms(1)]] Some show ?thesis by (simp add: Pair Check admin_step_def)
    qed
  next
    case (Ssm_Reply i r)
    show ?thesis
    proof (cases "map_of (as_waiting st) i")
      case None
      with admin_ok_mono [OF assms(1)] show ?thesis by (simp add: Pair Ssm_Reply admin_step_def)
    next
      case (Some u)
      obtain b cache' where f: "finish_check u r now (as_cache st) = (b, cache')" by fastforce
      have ok: "cache_ok evs (as_cache st)" using assms(1) by (simp add: admin_ok_def)
      have "admin_ok e (evs @ [new]) (st\<lparr>as_cache := cache', as_waiting := filter (\<lambda>w. fst w \<noteq> i) (as_waiting st)\<rparr>)"
        using admin_ok_mono [OF assms(1), of "[new]"] finish_check_ok(1) [OF f ok, of i]
        by (simp add: admin_ok_def Pair Ssm_Reply)
      from admin_ok_decide [OF this finish_check_ok(2) [OF f ok, of e i, folded Ssm_Reply Pair]] Some f
      show ?thesis by (simp add: Pair Ssm_Reply admin_step_def)
    qed
  qed
qed

lemma admin_ok_run: "sorted (map fst evs) \<Longrightarrow> admin_ok e evs (admin_run e evs)"
proof (induction evs rule: rev_induct)
  case Nil
  show ?case by (simp add: admin_ok_def admin_run_def admin_start_def cache_ok_def)
next
  case (snoc ev evs)
  then have "\<forall>x\<in>set evs. fst x \<le> fst ev" by (simp add: sorted_append)
  with snoc admin_ok_step [of e evs "admin_run e evs" ev] show ?case by (simp add: admin_run_def sorted_append)
qed

text \<open>
  C23. However checks and replies of the parameter store interleave, a caller is admitted only as
  a member of the admin group or because a reply at most five minutes old listed the caller's
  e-mail: an address removed from the list stops working five minutes after the last reply that
  had it, a failing store admits nobody by itself, and no cached list is used longer.
\<close>

theorem admin_access_expires:
  assumes "sorted (map fst evs)" "d \<in> set (as_decided (admin_run e evs))" "de_admin d"
  shows "in_group e (de_user d) \<or>
    (\<exists>t. listed_at evs (de_user d) t \<and> t \<le> de_at d \<and> de_at d - t < ADMIN_TTL_MS)"
  using admin_ok_run [OF assms(1), of e] assms(2,3) unfolding admin_ok_def admitted_for_def by blast

definition demo_admin_env :: admin_env where
  "demo_admin_env = \<lparr>ae_param = Some ''/admins'', ae_group = None\<rparr>"

definition demo_ann :: user where
  "demo_ann = \<lparr>u_sub = ''s1'', u_email = Some ''Ann@x.io'', u_groups = None, u_iat = None\<rparr>"

definition demo_checks :: "(int \<times> admin_event) list" where
  "demo_checks = [(0, Check 1 demo_ann), (5, Ssm_Reply 1 (Some (Some '' ann@x.io,bob@x.io''))),
     (300004, Check 2 demo_ann), (300005, Check 3 demo_ann), (300010, Ssm_Reply 3 None)]"

text \<open>Listed, then still listed from the cache, then denied by a failing store once it expired.\<close>

lemma demo_checks_decided:
  "map de_admin (as_decided (admin_run demo_admin_env demo_checks)) = [True, True, False]"
  by code_simp

theorem admin_access_expires_witness:
  "\<exists>t. listed_at demo_checks demo_ann t \<and> t \<le> 300004 \<and> 300004 - t < ADMIN_TTL_MS"
proof -
  have "sorted (map fst demo_checks)" by code_simp
  moreover have "\<lparr>de_user = demo_ann, de_admin = True, de_at = 300004\<rparr>
      \<in> set (as_decided (admin_run demo_admin_env demo_checks))" by code_simp
  moreover have "\<not> in_group demo_admin_env demo_ann" by code_simp
  ultimately show ?thesis
    using admin_access_expires [of demo_checks _ demo_admin_env] by fastforce
qed

end
