(* ===== verification/Ttl_Cache.thy ===== *)
theory Ttl_Cache
  imports Js_Values
begin

text \<open>
  The result cache that \<open>web/lib/sg-analysis.ts\<close>, \<open>web/lib/ip-inventory.ts\<close> and
  \<open>web/lib/nfm.ts\<close> share: a time-to-live per entry, one running computation per key, failures
  never stored, and in the first of them a bound with first-in-first-out eviction. The second
  half is the listing loop over a paginated API. A bounded map is seen through the
  interface \<open>keyed_store\<close>.
\<close>

section \<open>Bounded maps\<close>

text \<open>\<open>while (m.size > max) m.delete(m.keys().next().value)\<close>.\<close>

fun evict_oldest :: "nat \<Rightarrow> ('k \<times> 'v) list \<Rightarrow> ('k \<times> 'v) list" where
  "evict_oldest limit [] = []"
| "evict_oldest limit (x # xs) = (if limit < length (x # xs) then evict_oldest limit xs else x # xs)"

definition put_evict :: "nat option \<Rightarrow> 'k \<Rightarrow> 'v \<Rightarrow> ('k \<times> 'v) list \<Rightarrow> ('k \<times> 'v) list" where
  "put_evict limit k v m =
     (case limit of None \<Rightarrow> AList.update k v m | Some n \<Rightarrow> evict_oldest n (AList.update k v m))"

lemma evict_oldest_drop: "evict_oldest limit m = drop (length m - limit) m"
  by (induction m) (auto simp: Suc_diff_le not_less)

lemma length_evict_oldest: "length (evict_oldest limit m) \<le> limit"
  by (simp add: evict_oldest_drop)

lemma set_evict_oldest: "set (evict_oldest limit m) \<subseteq> set m"
  by (simp add: evict_oldest_drop set_drop_subset)

lemma distinct_evict_oldest: "distinct (map fst m) \<Longrightarrow> distinct (map fst (evict_oldest limit m))"
  by (simp add: evict_oldest_drop drop_map [symmetric])

lemma distinct_put_evict: "distinct (map fst m) \<Longrightarrow> distinct (map fst (put_evict limit k v m))"
  by (auto simp: put_evict_def distinct_update distinct_evict_oldest split: option.splits)

lemma map_of_evict_oldest:
  "distinct (map fst m) \<Longrightarrow> map_of (evict_oldest limit m) k = Some v \<Longrightarrow> map_of m k = Some v"
  using set_evict_oldest [of limit m] distinct_evict_oldest [of m limit]
  by (auto simp: map_of_eq_Some_iff)

text \<open>The entry just written survives unless the bound is zero or it was overwritten in place.\<close>

lemma put_evict_new:
  assumes "k \<notin> fst ` set m" "0 < n"
  shows "map_of (put_evict (Some n) k v m) k = Some v"
proof -
  have "put_evict (Some n) k v m = drop (length m + 1 - n) (m @ [(k, v)])"
    using assms(1) by (simp add: put_evict_def evict_oldest_drop alist_update_new)
  also have "\<dots> = drop (length m + 1 - n) m @ [(k, v)]" using assms(2) by simp
  finally have e: "put_evict (Some n) k v m = drop (length m + 1 - n) m @ [(k, v)]" .
  have "map_of (drop (length m + 1 - n) m) k = None"
    unfolding map_of_eq_None_iff using assms(1) by (auto dest!: in_set_dropD)
  then show ?thesis by (simp add: e map_add_def)
qed

locale keyed_store =
  fixes lookup :: "'s \<Rightarrow> 'k \<Rightarrow> 'v option"
    and store :: "'k \<Rightarrow> 'v \<Rightarrow> 's \<Rightarrow> 's"
    and invar :: "'s \<Rightarrow> bool"
    and start :: 's
  assumes start: "invar start" "lookup start k = None"
    and invar_store: "invar s \<Longrightarrow> invar (store k v s)"
    and same: "invar s \<Longrightarrow> lookup (store k v s) k = Some w \<Longrightarrow> w = v"
    and other: "invar s \<Longrightarrow> k' \<noteq> k \<Longrightarrow> lookup (store k v s) k' = Some w \<Longrightarrow> lookup s k' = Some w"
begin

definition stores :: "('k \<times> 'v) list \<Rightarrow> 's" where
  "stores kvs = foldl (\<lambda>s (k, v). store k v s) start kvs"

lemma stores_simps [simp]:
  "stores [] = start" "stores (kvs @ [(k, v)]) = store k v (stores kvs)"
  by (simp_all add: stores_def)

lemma invar_stores: "invar (stores kvs)"
proof (induction kvs rule: rev_induct)
  case Nil
  show ?case by (simp add: start)
next
  case (snoc x kvs)
  then show ?case by (cases x) (simp add: invar_store)
qed

lemma lookup_latest: "lookup (stores kvs) k = Some w \<Longrightarrow> map_of (rev kvs) k = Some w"
proof (induction kvs rule: rev_induct)
  case Nil
  then show ?case by (simp add: start)
next
  case (snoc x kvs)
  obtain k' v where x: "x = (k', v)" by (cases x)
  from snoc show ?case
    using same [OF invar_stores [of kvs]] other [OF invar_stores [of kvs]]
    by (cases "k = k'") (auto simp: x)
qed

end

interpretation fifo_map: keyed_store "map_of" "put_evict limit" "\<lambda>m. distinct (map fst m)" "[]" for limit
proof
  fix s :: "('a \<times> 'b) list" and k k' v w
  assume d: "distinct (map fst s)"
  then have "distinct (map fst (AList.update k v s))" by (rule distinct_update)
  then have e: "map_of (put_evict limit k v s) x = Some w \<Longrightarrow> ((map_of s)(k \<mapsto> v)) x = Some w" for x
    using map_of_evict_oldest [of "AList.update k v s" _ x w]
    by (auto simp: put_evict_def update_conv' split: option.splits)
  show "map_of (put_evict limit k v s) k = Some w \<Longrightarrow> w = v" using e [of k] by simp
  show "k' \<noteq> k \<Longrightarrow> map_of (put_evict limit k v s) k' = Some w \<Longrightarrow> map_of s k' = Some w"
    using e [of k'] by simp
qed (simp_all add: distinct_put_evict)

section \<open>The cache\<close>

record 'v cache_state =
  c_cache :: "(string \<times> (int \<times> 'v)) list"
  c_inflight :: "string list"

definition empty_cache :: "'v cache_state" where
  "empty_cache = \<lparr>c_cache = [], c_inflight = []\<rparr>"

text \<open>What \<open>cached(key, fn)\<close> does when called: answer, join the running promise, or run \<open>fn\<close>.\<close>

datatype 'v cache_answer = Hit 'v | Join | Run

definition cached_call :: "int \<Rightarrow> int \<Rightarrow> string \<Rightarrow> 'v cache_state \<Rightarrow> 'v cache_answer \<times> 'v cache_state" where
  "cached_call ttl now key st =
     (case map_of (c_cache st) key of
        Some (at, v) \<Rightarrow>
          if now - at < ttl then (Hit v, st)
          else if key \<in> set (c_inflight st) then (Join, st)
          else (Run, st\<lparr>c_inflight := c_inflight st @ [key]\<rparr>)
      | None \<Rightarrow>
          if key \<in> set (c_inflight st) then (Join, st)
          else (Run, st\<lparr>c_inflight := c_inflight st @ [key]\<rparr>))"

text \<open>The continuations of the promise: \<open>then\<close> stores, \<open>finally\<close> always clears the key.\<close>

definition cached_resolve :: "nat option \<Rightarrow> int \<Rightarrow> string \<Rightarrow> 'v \<Rightarrow> 'v cache_state \<Rightarrow> 'v cache_state" where
  "cached_resolve limit now key v st =
     st\<lparr>c_cache := put_evict limit key (now, v) (c_cache st),
        c_inflight := removeAll key (c_inflight st)\<rparr>"

definition cached_reject :: "string \<Rightarrow> 'v cache_state \<Rightarrow> 'v cache_state" where
  "cached_reject key st = st\<lparr>c_inflight := removeAll key (c_inflight st)\<rparr>"

text \<open>
  A history: calls at any time, and completions of computations that are running. The trace
  records the calls that ran \<open>fn\<close>.
\<close>

datatype 'v cache_event = Ran string | Resolved string int 'v | Rejected string

inductive cache_run :: "int \<Rightarrow> nat option \<Rightarrow> 'v cache_event list \<Rightarrow> 'v cache_state \<Rightarrow> bool"
  for ttl :: int and limit :: "nat option" where
  start: "cache_run ttl limit [] empty_cache"
| run: "cache_run ttl limit tr st \<Longrightarrow> cached_call ttl now key st = (Run, st') \<Longrightarrow>
    cache_run ttl limit (tr @ [Ran key]) st'"
| resolve: "cache_run ttl limit tr st \<Longrightarrow> key \<in> set (c_inflight st) \<Longrightarrow>
    cache_run ttl limit (tr @ [Resolved key now v]) (cached_resolve limit now key v st)"
| reject: "cache_run ttl limit tr st \<Longrightarrow> key \<in> set (c_inflight st) \<Longrightarrow>
    cache_run ttl limit (tr @ [Rejected key]) (cached_reject key st)"

fun stored :: "'v cache_event list \<Rightarrow> (string \<times> (int \<times> 'v)) list" where
  "stored [] = []"
| "stored (Resolved key now v # tr) = (key, (now, v)) # stored tr"
| "stored (_ # tr) = stored tr"

fun running :: "string \<Rightarrow> 'v cache_event list \<Rightarrow> int" where
  "running key [] = 0"
| "running key (Ran k # tr) = (if k = key then 1 else 0) + running key tr"
| "running key (Resolved k _ _ # tr) = (if k = key then - 1 else 0) + running key tr"
| "running key (Rejected k # tr) = (if k = key then - 1 else 0) + running key tr"

lemma stored_append [simp]: "stored (tr @ tr') = stored tr @ stored tr'"
  by (induction tr rule: stored.induct) auto

lemma running_append [simp]: "running key (tr @ tr') = running key tr + running key tr'"
  by (induction key tr rule: running.induct) auto

lemma cached_call_run:
  "cached_call ttl now key st = (Run, st') \<Longrightarrow>
   key \<notin> set (c_inflight st) \<and> st' = st\<lparr>c_inflight := c_inflight st @ [key]\<rparr>"
  by (auto simp: cached_call_def split: option.splits if_splits)

lemma cached_call_hit:
  "cached_call ttl now key st = (Hit v, st') \<longleftrightarrow>
   st' = st \<and> (\<exists>at. map_of (c_cache st) key = Some (at, v) \<and> now - at < ttl)"
  by (auto simp: cached_call_def split: option.splits if_splits)

lemma cache_run_cache: "cache_run ttl limit tr st \<Longrightarrow> c_cache st = fifo_map.stores limit (stored tr)"
proof (induction rule: cache_run.induct)
  case (run tr st now key st')
  then show ?case using cached_call_run [OF run(2)] by simp
qed (simp_all add: empty_cache_def cached_resolve_def cached_reject_def)

lemma cache_run_inflight:
  "cache_run ttl limit tr st \<Longrightarrow> distinct (c_inflight st) \<and>
   running key tr = (if key \<in> set (c_inflight st) then 1 else 0)"
proof (induction rule: cache_run.induct)
  case (run tr st now key' st')
  then show ?case using cached_call_run [OF run(2)] by (cases "key' = key") simp_all
qed (auto simp: empty_cache_def cached_resolve_def cached_reject_def distinct_removeAll)

lemma cache_run_bound: "cache_run ttl (Some n) tr st \<Longrightarrow> length (c_cache st) \<le> n"
proof (induction rule: cache_run.induct)
  case (run tr st now key' st')
  then show ?case using cached_call_run [OF run(2)] by simp
qed (simp_all add: empty_cache_def cached_resolve_def cached_reject_def put_evict_def length_evict_oldest)

text \<open>
  What the cache answers is the value that the last successful computation for the key
  returned, and it is younger than the time to live; a failure is never answered.
\<close>

theorem hit_is_latest_fresh:
  "cache_run ttl limit tr st \<Longrightarrow> cached_call ttl now key st = (Hit v, st') \<Longrightarrow>
   \<exists>at. map_of (rev (stored tr)) key = Some (at, v) \<and> now - at < ttl"
  using fifo_map.lookup_latest cached_call_hit cache_run_cache by metis

definition sample_cache :: "nat cache_state" where
  "sample_cache = cached_resolve (Some 500) 10 ''k'' 7 (empty_cache\<lparr>c_inflight := [''k'']\<rparr>)"

lemma sample_cache_run: "cache_run 240000 (Some 500) [Ran ''k'', Resolved ''k'' 10 (7 :: nat)] sample_cache"
proof -
  have "cache_run 240000 (Some 500) ([] @ [Ran ''k'']) (empty_cache\<lparr>c_inflight := [''k'']\<rparr> :: nat cache_state)"
    by (rule cache_run.run [OF cache_run.start, where now = 0]) (simp add: cached_call_def empty_cache_def)
  from cache_run.resolve [OF this, of "''k''" 10 7] show ?thesis
    by (simp add: sample_cache_def)
qed

theorem hit_is_latest_fresh_witness:
  "\<exists>at. map_of (rev (stored [Ran ''k'', Resolved ''k'' 10 (7 :: nat)])) ''k'' = Some (at, 7) \<and> 20 - at < 240000"
  by (rule hit_is_latest_fresh [OF sample_cache_run, where st' = sample_cache])
    (simp add: cached_call_hit sample_cache_def cached_resolve_def empty_cache_def put_evict_def)

text \<open>
  At every moment at most one computation runs for a key: those started less those finished
  is one exactly when the key is in flight, so a concurrent caller joins it. With a bound \<open>n\<close>
  the cache never holds more than \<open>n\<close> entries.
\<close>

theorem single_flight_bounded:
  "cache_run ttl (Some n) tr st \<Longrightarrow>
   running key tr = (if key \<in> set (c_inflight st) then 1 else 0) \<and> length (c_cache st) \<le> n"
  using cache_run_inflight cache_run_bound by blast

theorem single_flight_bounded_witness:
  "running ''k'' [Ran ''k'', Resolved ''k'' 10 (7 :: nat)] = (if ''k'' \<in> set (c_inflight sample_cache) then 1 else 0)
   \<and> length (c_cache sample_cache) \<le> 500"
  by (rule single_flight_bounded [OF sample_cache_run])

section \<open>Paginated listings\<close>

text \<open>
  A reply of a listing call: its items and the token of the next page. \<open>call i token\<close> is what
  the service answers to the \<open>i\<close>-th request of a listing, \<^const>\<open>None\<close> when the call throws.
  The loop's result is \<^const>\<open>None\<close> when it does not end, \<^term>\<open>Some None\<close> when it throws, and
  otherwise what was listed and whether a token was left over.
\<close>

record 'a page =
  p_items :: "'a list"
  p_next :: "string option"

type_synonym 'a service = "nat \<Rightarrow> string option \<Rightarrow> 'a page option"
type_synonym 'a listing = "('a list \<times> bool) option"

definition more_pages :: "string option \<Rightarrow> bool" where
  "more_pages t \<longleftrightarrow> (case t of None \<Rightarrow> False | Some s \<Rightarrow> s \<noteq> [])"

definition below_cap :: "nat option \<Rightarrow> 'a list \<Rightarrow> bool" where
  "below_cap cap out \<longleftrightarrow> (case cap of None \<Rightarrow> True | Some c \<Rightarrow> length out < c)"

partial_function (option) list_pages ::
    "'a service \<Rightarrow> nat option \<Rightarrow> nat \<Rightarrow> string option \<Rightarrow> 'a list \<Rightarrow> 'a listing option" where
  "list_pages call cap i token acc =
     (case call i token of
        None \<Rightarrow> Some None
      | Some p \<Rightarrow>
          (let out = acc @ p_items p in
           if more_pages (p_next p) \<and> below_cap cap out
           then list_pages call cap (Suc i) (p_next p) out
           else Some (Some (out, more_pages (p_next p)))))"

declare list_pages.simps [code]

definition full_listing :: "'a service \<Rightarrow> nat option \<Rightarrow> 'a listing option" where
  "full_listing call cap = list_pages call cap 0 None []"

text \<open>A service that answers the given pages one after the other and then stops.\<close>

definition serve :: "'a list list \<Rightarrow> 'a service" where
  "serve ps i t = (if i < length ps
     then Some \<lparr>p_items = ps ! i, p_next = (if Suc i < length ps then Some ''next'' else None)\<rparr>
     else None)"

lemma list_pages_serve:
  "i < length ps \<Longrightarrow> list_pages (serve ps) None i t acc = Some (Some (acc @ concat (drop i ps), False))"
proof (induction "length ps - i" arbitrary: i t acc)
  case (Suc n)
  then have s: "serve ps i t =
      Some \<lparr>p_items = ps ! i, p_next = (if Suc i < length ps then Some ''next'' else None)\<rparr>"
    by (simp add: serve_def)
  from Suc have d: "drop i ps = ps ! i # drop (Suc i) ps" by (simp add: Cons_nth_drop_Suc)
  show ?case
  proof (cases "Suc i < length ps")
    case True
    with Suc s d show ?thesis by (subst list_pages.simps) (simp add: more_pages_def below_cap_def)
  next
    case False
    with Suc s d show ?thesis by (subst list_pages.simps) (simp add: more_pages_def below_cap_def)
  qed
qed simp

lemma full_listing_serve: "ps \<noteq> [] \<Longrightarrow> full_listing (serve ps) None = Some (Some (concat ps, False))"
  using list_pages_serve [of 0 ps None "[]"] by (simp add: full_listing_def)

text \<open>A capped listing that left no token over has listed everything; it stops once full.\<close>

lemma list_pages_cap_step:
  "c \<le> length acc \<Longrightarrow> call i token = Some p \<Longrightarrow>
   list_pages call (Some c) i token acc = Some (Some (acc @ p_items p, more_pages (p_next p)))"
  by (subst list_pages.simps) (simp add: below_cap_def)

lemma list_pages_cap:
  assumes "\<forall>i t. \<exists>p. call i t = Some p \<and> p_items p \<noteq> []"
  shows "\<exists>xs b. list_pages call (Some c) i token acc = Some (Some (xs, b))"
proof (induction "c - length acc" arbitrary: i token acc rule: less_induct)
  case less
  from assms obtain p where p: "call i token = Some p" "p_items p \<noteq> []" by blast
  show ?case
  proof (cases "more_pages (p_next p) \<and> below_cap (Some c) (acc @ p_items p)")
    case True
    then have "c - length (acc @ p_items p) < c - length acc"
      using p(2) by (cases "p_items p") (auto simp: below_cap_def)
    from less [OF this, of "Suc i" "p_next p"] True p show ?thesis
      by (subst list_pages.simps) simp
  next
    case False
    with p show ?thesis by (subst list_pages.simps) (auto simp: Let_def)
  qed
qed

end
