(* ===== verification/Net_Sources.thy ===== *)
theory Net_Sources
  imports Ttl_Cache Complex_Main
begin

text \<open>
  Two sources of network facts: the address inventory (\<open>web/lib/ip-inventory.ts\<close>), which reads
  who owns an address from its network interface, and CloudWatch Network Flow Monitor
  (\<open>web/lib/nfm.ts\<close>), asynchronous queries whose rows are attributed to pods. The AWS calls are
  parameters: a listing service as in \<open>Ttl_Cache\<close>, a poll as a function of its round.
\<close>

section \<open>Owners of network interfaces\<close>

definition type_kind :: "(string \<times> string) list" where
  "type_kind =
     [(''nat_gateway'', ''NAT Gateway''), (''network_load_balancer'', ''NLB''),
      (''vpc_endpoint'', ''VPC Endpoint''), (''lambda'', ''Lambda''), (''efs'', ''EFS''),
      (''transit_gateway'', ''Transit Gateway''),
      (''gateway_load_balancer_endpoint'', ''GWLB Endpoint''), (''cloudfront_managed'', ''CloudFront''),
      (''agentic_ai'', ''AgentCore''), (''branch'', ''Branch ENI'')]"

definition non_empty :: "string \<Rightarrow> string option" where
  "non_empty s = (if s = [] then None else Some s)"

text \<open>\<open>s.replace(/^.*pat/i, '')\<close> on one line: what follows the last occurrence, for lower-case \<open>pat\<close>.\<close>

fun after_last :: "string \<Rightarrow> string \<Rightarrow> string option" where
  "after_last pat [] = None"
| "after_last pat (x # xs) =
     (case (if x = CHR 0x0A \<or> x = CHR 0x0D then None else after_last pat xs) of
        Some rest \<Rightarrow> Some rest
      | None \<Rightarrow> if starts_with pat (lower (x # xs)) then Some (drop (length pat) (x # xs)) else None)"

definition strip_elasticache :: "string \<Rightarrow> string" where
  "strip_elasticache desc = (case drop (length ''ElastiCache'') desc of
      c # cs \<Rightarrow> if c = CHR ''-'' \<or> c = CHR '' '' then cs else c # cs
    | [] \<Rightarrow> [])"

definition classify_by_description :: "string \<Rightarrow> (string \<times> string option) option" where
  "classify_by_description desc =
     (if starts_with ''ELB app/'' desc
        then Some (''ALB'', Some (join_with ''/'' (take 2 (split_on CHR ''/'' (drop 4 desc)))))
      else if starts_with ''ELB net/'' desc
        then Some (''NLB'', Some (join_with ''/'' (take 2 (split_on CHR ''/'' (drop 4 desc)))))
      else if starts_with ''ELB '' desc then Some (''ELB(classic)'', Some (drop 4 desc))
      else if starts_with ''arn:aws:ecs:'' desc then Some (''ECS Task'', Some (last (split_on CHR ''/'' desc)))
      else if starts_with ''ElastiCache'' desc then Some (''ElastiCache'', non_empty (strip_elasticache desc))
      else if starts_with ''RDSNetworkInterface'' desc then Some (''RDS'', None)
      else if starts_with ''ES '' desc then Some (''OpenSearch'', non_empty (drop 3 desc))
      else if starts_with ''amazon msk'' (lower desc) then Some (''MSK'', None)
      else if contains ''amazon eks'' (lower desc)
        then Some (''EKS Control Plane'', non_empty (case after_last ''amazon eks '' desc of None \<Rightarrow> desc | Some r \<Rightarrow> r))
      else if starts_with ''AWS Lambda VPC ENI'' desc then Some (''Lambda'', None)
      else if starts_with ''Interface for NAT Gateway'' desc
        then Some (''NAT Gateway'', Some (last (split_on CHR '' '' desc)))
      else if starts_with ''VPC Endpoint Interface'' desc
        then Some (''VPC Endpoint'', Some (last (split_on CHR '' '' desc)))
      else if contains ''aws k8s'' (lower desc) then Some (''EKS Node (CNI)'', None)
      else None)"

definition present :: "string option \<Rightarrow> bool" where
  "present s \<longleftrightarrow> (case s of None \<Rightarrow> False | Some x \<Rightarrow> x \<noteq> [])"

definition classify_eni :: "string \<Rightarrow> string \<Rightarrow> string option \<Rightarrow> string \<times> string option" where
  "classify_eni interface_type description instance_id =
     (let by_desc = classify_by_description description;
          (kind, resource) =
            (case (if interface_type \<noteq> ''interface'' then map_of type_kind interface_type else None) of
               Some k \<Rightarrow> (k, (case by_desc of None \<Rightarrow> None | Some d \<Rightarrow> snd d))
             | None \<Rightarrow> (case by_desc of
                 Some d \<Rightarrow> (fst d, snd d)
               | None \<Rightarrow> if present instance_id then (''EC2'', instance_id) else (''Other'', None)))
      in (kind, if \<not> present resource \<and> present instance_id then instance_id else resource))"

text \<open>An attached interface always names its instance when nothing better is known.\<close>

lemma classify_eni_owner: "present instance_id \<Longrightarrow> present (snd (classify_eni t d instance_id))"
  by (simp add: classify_eni_def Let_def split_def)

record raw_eni =
  n_id :: "string option"
  n_status :: "string option"
  n_type :: "string option"
  n_description :: "string option"
  n_groups :: "string option list"
  n_subnet :: "string option"
  n_vpc :: "string option"
  n_az :: "string option"
  n_public_ip :: "string option"
  n_instance :: "string option"
  n_private_ips :: "string option list"
  n_private_ip :: "string option"
  n_ipv6 :: "string option list"

definition or_empty :: "string option \<Rightarrow> string" where
  "or_empty s = (case s of None \<Rightarrow> [] | Some x \<Rightarrow> x)"

definition present_values :: "string option list \<Rightarrow> string list" where
  "present_values xs = map the (filter present xs)"

definition private_ips :: "raw_eni \<Rightarrow> string list" where
  "private_ips e = (let ips = present_values (n_private_ips e) in
     if ips = [] \<and> present (n_private_ip e) then [the (n_private_ip e)] else ips)"

definition eni_kind :: "raw_eni \<Rightarrow> string \<times> string option" where
  "eni_kind e = classify_eni (case n_type e of None \<Rightarrow> ''interface'' | Some t \<Rightarrow> t)
     (or_empty (n_description e)) (n_instance e)"

record eni_row =
  er_id :: string
  er_status :: string
  er_kind :: string
  er_resource :: "string option"
  er_description :: string
  er_private_ips :: "string list"
  er_public_ip :: "string option"
  er_subnet :: string
  er_vpc :: string
  er_az :: string
  er_instance :: "string option"

definition to_eni_row :: "raw_eni \<Rightarrow> eni_row" where
  "to_eni_row e =
     \<lparr>er_id = or_empty (n_id e), er_status = or_empty (n_status e),
      er_kind = fst (eni_kind e), er_resource = snd (eni_kind e),
      er_description = or_empty (n_description e), er_private_ips = private_ips e,
      er_public_ip = n_public_ip e, er_subnet = or_empty (n_subnet e), er_vpc = or_empty (n_vpc e),
      er_az = or_empty (n_az e), er_instance = n_instance e\<rparr>"

text \<open>The listing stops once 2000 interfaces are held; what is left over is not reported.\<close>

definition list_enis :: "raw_eni service \<Rightarrow> eni_row list option option" where
  "list_enis call = map_option (map_option (\<lambda>(es, rest). map to_eni_row es)) (full_listing call (Some 2000))"

record raw_address =
  a_allocation :: "string option"
  a_public_ip :: "string option"
  a_private_ip :: "string option"
  a_eni :: "string option"
  a_instance :: "string option"
  a_association :: "string option"

record eip_row =
  ip_allocation :: string
  ip_public :: string
  ip_private :: "string option"
  ip_eni :: "string option"
  ip_instance :: "string option"
  ip_unused :: bool

definition to_eip_row :: "raw_address \<Rightarrow> eip_row" where
  "to_eip_row a =
     \<lparr>ip_allocation = or_empty (a_allocation a), ip_public = or_empty (a_public_ip a),
      ip_private = a_private_ip a, ip_eni = a_eni a, ip_instance = a_instance a,
      ip_unused = (\<not> present (a_association a))\<rparr>"

definition list_eips :: "raw_address list option \<Rightarrow> eip_row list option" where
  "list_eips addresses = map_option (map to_eip_row) addresses"

record pod =
  pod_ip :: "string option"
  pod_namespace :: string
  pod_name :: string

record pod_ip_info =
  pi_cluster :: string
  pi_namespace :: string
  pi_name :: string

text \<open>
  The clusters in the order their pod lists arrive, \<^const>\<open>None\<close> for a cluster without access or
  whose listing failed. The first pod seen keeps an address.
\<close>

definition add_pod :: "string \<Rightarrow> (string \<times> pod_ip_info) list \<Rightarrow> pod \<Rightarrow> (string \<times> pod_ip_info) list" where
  "add_pod cluster out p =
     (if present (pod_ip p) \<and> map_of out (the (pod_ip p)) = None
      then out @ [(the (pod_ip p), \<lparr>pi_cluster = cluster, pi_namespace = pod_namespace p, pi_name = pod_name p\<rparr>)]
      else out)"

definition pod_ip_map :: "(string \<times> pod list option) list \<Rightarrow> (string \<times> pod_ip_info) list" where
  "pod_ip_map clusters =
     foldl (\<lambda>out (cluster, pods). case pods of None \<Rightarrow> out | Some ps \<Rightarrow> foldl (add_pod cluster) out ps)
       [] clusters"

definition ip_cached_call :: "int \<Rightarrow> string \<Rightarrow> 'v cache_state \<Rightarrow> 'v cache_answer \<times> 'v cache_state" where
  "ip_cached_call now key st = cached_call 240000 now key st"

definition ip_cached_resolve :: "int \<Rightarrow> string \<Rightarrow> 'v \<Rightarrow> 'v cache_state \<Rightarrow> 'v cache_state" where
  "ip_cached_resolve now key v st = cached_resolve None now key v st"

section \<open>Network Flow Monitor\<close>

datatype nfm_metric = Data_Transferred | Retransmissions | Timeouts | Round_Trip_Time

datatype nfm_category =
    Intra_AZ | Inter_AZ | Inter_VPC | Inter_Region | Amazon_S3 | Amazon_Dynamodb | Unclassified

definition nfm_categories :: "nfm_category list" where
  "nfm_categories = [Intra_AZ, Inter_AZ, Inter_VPC, Inter_Region, Amazon_S3, Amazon_Dynamodb, Unclassified]"

definition billed :: "nfm_category \<Rightarrow> bool" where
  "billed c \<longleftrightarrow> c \<in> {Inter_AZ, Inter_VPC, Inter_Region}"

text \<open>\<open>0.01\<close> dollars per \<open>1e9\<close> bytes, computed exactly here where the source uses floats.\<close>

definition bytes_to_usd :: "int \<Rightarrow> nfm_category \<Rightarrow> rat" where
  "bytes_to_usd bytes c = (if billed c then (of_int bytes / 1000000000) * (1 / 100) else 0)"

record nfm_monitor =
  m_name :: string
  m_status :: string
  m_cluster :: "string option"

definition to_monitor :: "string option \<times> string option \<Rightarrow> nfm_monitor" where
  "to_monitor m = (let name = or_empty (fst m) in
     \<lparr>m_name = name, m_status = or_empty (snd m),
      m_cluster = (if starts_with ''nfm-eks-'' name then Some (drop (length ''nfm-eks-'') name) else None)\<rparr>)"

text \<open>A failing scope listing counts no scopes; a failing monitor listing fails the call.\<close>

definition nfm_status ::
    "(string option \<times> string option) list option \<Rightarrow> 'a list option \<Rightarrow> (nfm_monitor list \<times> nat) option" where
  "nfm_status monitors scopes =
     map_option (\<lambda>ms. (map to_monitor ms, case scopes of None \<Rightarrow> 0 | Some ss \<Rightarrow> length ss)) monitors"

definition nfm_monitor_for_cluster :: "nfm_monitor list \<Rightarrow> string \<Rightarrow> string option" where
  "nfm_monitor_for_cluster ms cluster =
     map_option m_name (find (\<lambda>m. m_cluster m = Some cluster \<and> m_status m = ''ACTIVE'') ms)"

record nfm_endpoint =
  e_ip :: "string option"
  e_instance :: "string option"
  e_subnet :: "string option"
  e_az :: "string option"
  e_vpc :: "string option"
  e_region :: "string option"
  e_pod :: "string option"
  e_pod_namespace :: "string option"
  e_service :: "string option"

record construct =
  k_id :: "string option"
  k_type :: "string option"
  k_service :: "string option"

record raw_contributor =
  r_local :: nfm_endpoint
  r_remote :: nfm_endpoint
  r_snat :: "string option"
  r_dnat :: "string option"
  r_target_port :: "int option"
  r_value :: "int option"
  r_constructs :: "construct list"

record nfm_flow =
  f_local :: nfm_endpoint
  f_remote :: nfm_endpoint
  f_value :: int
  f_unit :: string
  f_category :: nfm_category
  f_snat :: "string option"
  f_dnat :: "string option"
  f_target_port :: "int option"
  f_traversed :: "string list"
  f_traversed_ids :: "string list"

text \<open>\<open>t.split('::').pop()\<close>.\<close>

fun split_colons :: "string \<Rightarrow> string list" where
  "split_colons [] = [[]]"
| "split_colons [x] = [[x]]"
| "split_colons (x # y # zs) =
     (if x = CHR '':'' \<and> y = CHR '':'' then [] # split_colons zs
      else (case split_colons (y # zs) of p # ps \<Rightarrow> (x # p) # ps | [] \<Rightarrow> [[x]]))"

definition short_type :: "string option \<Rightarrow> string option" where
  "short_type t = (if present t then Some (last (split_colons (the t))) else None)"

definition nz :: "string option \<Rightarrow> string option" where
  "nz s = (if present s then s else None)"

definition nz_endpoint :: "nfm_endpoint \<Rightarrow> nfm_endpoint" where
  "nz_endpoint e =
     \<lparr>e_ip = nz (e_ip e), e_instance = nz (e_instance e), e_subnet = nz (e_subnet e), e_az = nz (e_az e),
      e_vpc = nz (e_vpc e), e_region = nz (e_region e), e_pod = nz (e_pod e),
      e_pod_namespace = nz (e_pod_namespace e), e_service = nz (e_service e)\<rparr>"

definition construct_label :: "construct \<Rightarrow> string option" where
  "construct_label k = (case short_type (k_type k) of Some t \<Rightarrow> Some t | None \<Rightarrow> k_service k)"

definition to_flow :: "raw_contributor \<Rightarrow> nfm_category \<Rightarrow> string \<Rightarrow> nfm_flow" where
  "to_flow r category unit =
     \<lparr>f_local = nz_endpoint (r_local r), f_remote = nz_endpoint (r_remote r),
      f_value = (case r_value r of None \<Rightarrow> 0 | Some v \<Rightarrow> v), f_unit = unit, f_category = category,
      f_snat = nz (r_snat r), f_dnat = nz (r_dnat r), f_target_port = r_target_port r,
      f_traversed = js_set (filter (\<lambda>s. s \<noteq> []) (map (or_empty \<circ> construct_label) (r_constructs r))),
      f_traversed_ids = filter (\<lambda>s. s \<noteq> [])
        (map (\<lambda>k. join_with '':'' (present_values [construct_label k, k_id k])) (r_constructs r))\<rparr>"

definition unit_fallback :: "nfm_metric \<Rightarrow> string" where
  "unit_fallback m = (case m of
      Data_Transferred \<Rightarrow> ''Bytes'' | Round_Trip_Time \<Rightarrow> ''Milliseconds''
    | Retransmissions \<Rightarrow> ''Count'' | Timeouts \<Rightarrow> ''Count'')"

datatype nfm_error =
    Range_Too_Long
  | Call_Failed
  | Query_Ended string
  | Query_Timeout

text \<open>The poll: rounds 0 to 26, then the query is stopped and the call fails.\<close>

fun poll_query :: "(nat \<Rightarrow> string option) \<Rightarrow> nat \<Rightarrow> nat \<Rightarrow> nfm_error + unit" where
  "poll_query status i rounds_left =
     (case status i of
        None \<Rightarrow> Inl Call_Failed
      | Some s \<Rightarrow>
          if s = ''SUCCEEDED'' then Inr ()
          else if s = ''FAILED'' \<or> s = ''CANCELED'' then Inl (Query_Ended s)
          else (case rounds_left of
              0 \<Rightarrow> Inl Query_Timeout
            | Suc n \<Rightarrow> poll_query status (Suc i) n))"

record results_page =
  rp_contributors :: "raw_contributor list"
  rp_unit :: "string option"
  rp_next :: "string option"

text \<open>The result pages, until no token is left or the limit is reached.\<close>

partial_function (option) result_pages ::
    "(nat \<Rightarrow> string option \<Rightarrow> results_page option) \<Rightarrow> nfm_metric \<Rightarrow> nfm_category \<Rightarrow> nat \<Rightarrow> nat \<Rightarrow>
     string option \<Rightarrow> nfm_flow list \<Rightarrow> string \<Rightarrow> (nfm_flow list \<times> string \<times> bool) option option" where
  "result_pages call metric category limit i token rows unit =
     (case call i token of
        None \<Rightarrow> Some None
      | Some res \<Rightarrow>
          (let unit' = (case rp_unit res of None \<Rightarrow> unit | Some u \<Rightarrow> u);
               row_unit = (case rp_unit res of None \<Rightarrow> unit_fallback metric | Some u \<Rightarrow> u);
               rows' = rows @ map (\<lambda>r. to_flow r category row_unit) (rp_contributors res) in
           if more_pages (rp_next res) \<and> length rows' < limit
           then result_pages call metric category limit (Suc i) (rp_next res) rows' unit'
           else Some (Some (rows', unit', more_pages (rp_next res)))))"

declare result_pages.simps [code]

record nfm_query_result =
  q_rows :: "nfm_flow list"
  q_unit :: string
  q_took_ms :: int
  q_start :: int
  q_end :: int
  q_queried_at :: int
  q_capped :: bool

definition nfm_max_range_sec :: int where
  "nfm_max_range_sec = 3600"

text \<open>
  One query, uncached: \<open>started\<close> tells whether the start call answered, \<open>t0\<close> and \<open>t1\<close> are the
  clock when it starts and ends. The outer \<^const>\<open>None\<close> is a result listing that never ends.
\<close>

definition nfm_top_contributors ::
    "bool \<Rightarrow> (nat \<Rightarrow> string option) \<Rightarrow> (nat \<Rightarrow> string option \<Rightarrow> results_page option) \<Rightarrow>
     nfm_metric \<Rightarrow> nfm_category \<Rightarrow> int \<Rightarrow> nat \<Rightarrow> int \<Rightarrow> int \<Rightarrow> (nfm_error + nfm_query_result) option" where
  "nfm_top_contributors started status results metric category range_sec limit t0 t1 =
     (if nfm_max_range_sec < range_sec then Some (Inl Range_Too_Long)
      else if \<not> started then Some (Inl Call_Failed)
      else (case poll_query status 0 26 of
          Inl e \<Rightarrow> Some (Inl e)
        | Inr () \<Rightarrow>
            (case result_pages results metric category limit 0 None [] (unit_fallback metric) of
               None \<Rightarrow> None
             | Some None \<Rightarrow> Some (Inl Call_Failed)
             | Some (Some (rows, unit, rest)) \<Rightarrow>
                 Some (Inr \<lparr>q_rows = take limit rows, q_unit = unit, q_took_ms = t1 - t0,
                   q_start = t0 - range_sec * 1000, q_end = t0, q_queried_at = t1,
                   q_capped = (limit \<le> length rows \<or> rest)\<rparr>))))"

definition nfm_cached_call :: "int \<Rightarrow> string \<Rightarrow> 'v cache_state \<Rightarrow> 'v cache_answer \<times> 'v cache_state" where
  "nfm_cached_call now key st = cached_call 240000 now key st"

definition nfm_cached_resolve :: "int \<Rightarrow> string \<Rightarrow> 'v \<Rightarrow> 'v cache_state \<Rightarrow> 'v cache_state" where
  "nfm_cached_resolve now key v st = cached_resolve None now key v st"

section \<open>Transfer per pod\<close>

record pod_transfer =
  pt_key :: string
  pt_pod :: "string option"
  pt_namespace :: "string option"
  pt_service :: "string option"
  pt_bytes :: int
  pt_by_category :: "(nfm_category \<times> int) list"
  pt_billable :: int
  pt_usd :: rat

record transfer_totals =
  tt_bytes :: int
  tt_billable :: int
  tt_usd :: rat
  tt_by_category :: "(nfm_category \<times> int) list"

record pod_transfer_result =
  tr_available :: bool
  tr_monitor :: "string option"
  tr_range_sec :: int
  tr_pods :: "pod_transfer list"
  tr_totals :: transfer_totals
  tr_failed :: "nfm_category list"

definition zero_totals :: transfer_totals where
  "zero_totals = \<lparr>tt_bytes = 0, tt_billable = 0, tt_usd = 0, tt_by_category = []\<rparr>"

definition endpoint_key :: "nfm_endpoint \<Rightarrow> string" where
  "endpoint_key e =
     (if present (e_pod e)
        then ''pod:'' @ (case e_pod_namespace e of None \<Rightarrow> ''_'' | Some n \<Rightarrow> n) @ ''/'' @ the (e_pod e)
      else if present (e_instance e) then ''i:'' @ the (e_instance e)
      else ''ip:'' @ (case e_ip e of None \<Rightarrow> ''unknown'' | Some ip \<Rightarrow> ip))"

definition add_to :: "nfm_category \<Rightarrow> int \<Rightarrow> (nfm_category \<times> int) list \<Rightarrow> (nfm_category \<times> int) list" where
  "add_to c v m = AList.update c ((case map_of m c of None \<Rightarrow> 0 | Some x \<Rightarrow> x) + v) m"

definition new_pod :: "string \<Rightarrow> nfm_endpoint \<Rightarrow> pod_transfer" where
  "new_pod key e =
     \<lparr>pt_key = key, pt_pod = e_pod e, pt_namespace = e_pod_namespace e, pt_service = e_service e,
      pt_bytes = 0, pt_by_category = [], pt_billable = 0, pt_usd = 0\<rparr>"

definition account_pod :: "nfm_flow \<Rightarrow> pod_transfer \<Rightarrow> pod_transfer" where
  "account_pod row agg = (let b = billed (f_category row) in
     agg\<lparr>pt_bytes := pt_bytes agg + f_value row,
         pt_by_category := add_to (f_category row) (f_value row) (pt_by_category agg),
         pt_billable := pt_billable agg + (if b then f_value row else 0),
         pt_usd := pt_usd agg + (if b then bytes_to_usd (f_value row) (f_category row) else 0)\<rparr>)"

definition account_total :: "nfm_flow \<Rightarrow> transfer_totals \<Rightarrow> transfer_totals" where
  "account_total row t = (let b = billed (f_category row) in
     t\<lparr>tt_bytes := tt_bytes t + f_value row,
       tt_by_category := add_to (f_category row) (f_value row) (tt_by_category t),
       tt_billable := tt_billable t + (if b then f_value row else 0),
       tt_usd := tt_usd t + (if b then bytes_to_usd (f_value row) (f_category row) else 0)\<rparr>)"

definition account_row ::
    "(string \<times> pod_transfer) list \<times> transfer_totals \<Rightarrow> nfm_flow \<Rightarrow> (string \<times> pod_transfer) list \<times> transfer_totals" where
  "account_row st row =
     (let (by_key, totals) = st;
          key = endpoint_key (f_local row);
          agg = (case map_of by_key key of None \<Rightarrow> new_pod key (f_local row) | Some a \<Rightarrow> a)
      in (AList.update key (account_pod row agg) by_key, account_total row totals))"

definition account_rows :: "nfm_flow list \<Rightarrow> (string \<times> pod_transfer) list \<times> transfer_totals" where
  "account_rows rows = foldl account_row ([], zero_totals) rows"

definition costlier :: "pod_transfer \<Rightarrow> pod_transfer \<Rightarrow> bool" where
  "costlier a b \<longleftrightarrow> pt_usd b < pt_usd a \<or> (pt_usd b = pt_usd a \<and> pt_bytes b \<le> pt_bytes a)"

text \<open>
  \<open>queries\<close> answers a category: its rows, or \<^const>\<open>None\<close> when the query failed. \<open>order\<close> is the order in
  which failures arrive; the rows are read in the order of the categories.
\<close>

definition nfm_pod_transfer ::
    "nfm_monitor list \<Rightarrow> string \<Rightarrow> int \<Rightarrow> (nfm_category \<Rightarrow> nfm_flow list option) \<Rightarrow> nfm_category list \<Rightarrow>
     pod_transfer_result" where
  "nfm_pod_transfer ms cluster range_sec queries order =
     (case nfm_monitor_for_cluster ms cluster of
        None \<Rightarrow> \<lparr>tr_available = False, tr_monitor = None, tr_range_sec = range_sec, tr_pods = [],
                 tr_totals = zero_totals, tr_failed = []\<rparr>
      | Some monitor \<Rightarrow>
          (let (by_key, totals) =
             account_rows (concat (map (\<lambda>c. case queries c of None \<Rightarrow> [] | Some rows \<Rightarrow> rows) nfm_categories))
           in \<lparr>tr_available = True, tr_monitor = Some monitor, tr_range_sec = range_sec,
               tr_pods = sort_le costlier (map snd by_key), tr_totals = totals,
               tr_failed = filter (\<lambda>c. queries c = None) order\<rparr>))"

lemma sum_update:
  fixes f :: "'v \<Rightarrow> 'n :: ab_group_add"
  shows "distinct (map fst m) \<Longrightarrow>
    sum_list (map (\<lambda>p. f (snd p)) (AList.update k v m)) =
    sum_list (map (\<lambda>p. f (snd p)) m) + f v - (case map_of m k of None \<Rightarrow> 0 | Some w \<Rightarrow> f w)"
  by (induction m) (auto simp: algebra_simps split: option.splits)

lemma account_rows_snoc: "account_rows (rows @ [row]) = account_row (account_rows rows) row"
  by (simp add: account_rows_def)

lemma account_rows_distinct: "distinct (map fst (fst (account_rows rows)))"
proof (induction rows rule: rev_induct)
  case (snoc row rows)
  then show ?case
    by (simp add: account_rows_snoc account_row_def Let_def split_def distinct_update)
qed (simp add: account_rows_def)

text \<open>Every quantity that a row adds to its pod and to the totals alike is conserved.\<close>

lemma account_conserves:
  fixes pod_part :: "pod_transfer \<Rightarrow> 'n :: ab_group_add"
  assumes pod: "\<And>row a. pod_part (account_pod row a) = pod_part a + part row"
    and total: "\<And>row t. total_part (account_total row t) = total_part t + part row"
    and zero: "\<And>k e. pod_part (new_pod k e) = 0" "total_part zero_totals = 0"
  shows "sum_list (map (\<lambda>p. pod_part (snd p)) (fst (account_rows rows))) = sum_list (map part rows) \<and>
    total_part (snd (account_rows rows)) = sum_list (map part rows)"
proof (induction rows rule: rev_induct)
  case Nil
  show ?case by (simp add: account_rows_def zero)
next
  case (snoc row rows)
  have s: "sum_list (map (\<lambda>p. pod_part (snd p)) (AList.update k v (fst (account_rows rows)))) =
      sum_list (map (\<lambda>p. pod_part (snd p)) (fst (account_rows rows))) + pod_part v -
      (case map_of (fst (account_rows rows)) k of None \<Rightarrow> 0 | Some w \<Rightarrow> pod_part w)" for k v
    by (rule sum_update [OF account_rows_distinct])
  from snoc show ?case
    by (cases "map_of (fst (account_rows rows)) (endpoint_key (f_local row))")
      (simp_all add: account_rows_snoc account_row_def Let_def split_def pod total zero s)
qed

lemmas bytes_conserved = account_conserves [of pt_bytes f_value tt_bytes]
lemmas billable_conserved =
  account_conserves [of pt_billable "\<lambda>row. if billed (f_category row) then f_value row else 0" tt_billable]
lemmas usd_conserved = account_conserves
  [of pt_usd "\<lambda>row. if billed (f_category row) then bytes_to_usd (f_value row) (f_category row) else 0" tt_usd]

lemma sum_list_sort: "sum_list (map f (sort_le le xs)) = (sum_list (map f xs) :: 'n :: comm_monoid_add)"
  by (metis mset_map mset_sort_le sum_mset_sum_list)

definition answered_rows :: "(nfm_category \<Rightarrow> nfm_flow list option) \<Rightarrow> nfm_flow list" where
  "answered_rows queries =
     concat (map (\<lambda>c. case queries c of None \<Rightarrow> [] | Some rows \<Rightarrow> rows) nfm_categories)"

text \<open>
  For a monitored cluster, the bytes of the pods add up to the total, which is the sum of
  every row that a query returned, and the estimated cost of the pods adds up to the estimated
  cost of the total, which counts exactly the rows of billed categories.
\<close>

theorem pod_transfer_conserves:
  "nfm_monitor_for_cluster ms cluster = Some monitor \<Longrightarrow>
   r = nfm_pod_transfer ms cluster range_sec queries order \<Longrightarrow>
   sum_list (map pt_bytes (tr_pods r)) = sum_list (map f_value (answered_rows queries)) \<and>
   tt_bytes (tr_totals r) = sum_list (map f_value (answered_rows queries)) \<and>
   sum_list (map pt_usd (tr_pods r)) = tt_usd (tr_totals r) \<and>
   tt_usd (tr_totals r) =
     sum_list (map (\<lambda>row. bytes_to_usd (f_value row) (f_category row)) (filter (\<lambda>row. billed (f_category row)) (answered_rows queries)))"
proof -
  have f: "sum_list (map (\<lambda>row. if P row then g row else 0) xs) = sum_list (map g (filter P xs))"
    for P :: "nfm_flow \<Rightarrow> bool" and g :: "nfm_flow \<Rightarrow> rat" and xs by (induction xs) auto
  have b: "sum_list (map (\<lambda>p. pt_bytes (snd p)) (fst (account_rows rows))) = sum_list (map f_value rows) \<and>
      tt_bytes (snd (account_rows rows)) = sum_list (map f_value rows)" for rows
    by (rule bytes_conserved) (simp_all add: account_pod_def account_total_def new_pod_def zero_totals_def Let_def)
  have u: "sum_list (map (\<lambda>p. pt_usd (snd p)) (fst (account_rows rows))) =
        sum_list (map (\<lambda>row. bytes_to_usd (f_value row) (f_category row)) (filter (\<lambda>row. billed (f_category row)) rows)) \<and>
      tt_usd (snd (account_rows rows)) =
        sum_list (map (\<lambda>row. bytes_to_usd (f_value row) (f_category row)) (filter (\<lambda>row. billed (f_category row)) rows))" for rows
    unfolding f [symmetric]
    by (rule usd_conserved)
      (simp_all add: account_pod_def account_total_def new_pod_def zero_totals_def Let_def)
  assume "nfm_monitor_for_cluster ms cluster = Some monitor" "r = nfm_pod_transfer ms cluster range_sec queries order"
  then show ?thesis
    using b [of "answered_rows queries"] u [of "answered_rows queries"]
    by (simp add: nfm_pod_transfer_def answered_rows_def [symmetric] split_def sum_list_sort Let_def comp_def)
qed

definition sample_endpoint :: nfm_endpoint where
  "sample_endpoint =
     \<lparr>e_ip = Some ''10.0.0.1'', e_instance = None, e_subnet = None, e_az = None, e_vpc = None,
      e_region = None, e_pod = Some ''web'', e_pod_namespace = None, e_service = None\<rparr>"

definition sample_flow :: "nfm_category \<Rightarrow> int \<Rightarrow> nfm_flow" where
  "sample_flow c v =
     to_flow \<lparr>r_local = sample_endpoint, r_remote = sample_endpoint, r_snat = None, r_dnat = None,
       r_target_port = None, r_value = Some v, r_constructs = []\<rparr> c ''Bytes''"

definition sample_queries :: "nfm_category \<Rightarrow> nfm_flow list option" where
  "sample_queries c = (if c = Amazon_S3 then None else Some [sample_flow c 5])"

theorem pod_transfer_conserves_witness:
  "sum_list (map pt_bytes (tr_pods
     (nfm_pod_transfer [to_monitor (Some ''nfm-eks-prod'', Some ''ACTIVE'')] ''prod'' 3600 sample_queries [Amazon_S3]))) = 30"
proof -
  have m: "nfm_monitor_for_cluster [to_monitor (Some ''nfm-eks-prod'', Some ''ACTIVE'')] ''prod'' = Some ''nfm-eks-prod''"
    by code_simp
  have "sum_list (map f_value (answered_rows sample_queries)) = 30" by code_simp
  with pod_transfer_conserves [OF m refl, of 3600 sample_queries "[Amazon_S3]"] show ?thesis by simp
qed

end
