(* ===== verification/Sg_Analysis.thy ===== *)
theory Sg_Analysis
  imports Net_Sources "HOL-Library.Word" "HOL-Library.Monad_Syntax"
begin

unbundle bit_operations_syntax

text \<open>
  Security-group usage analysis (\<open>web/lib/sg-analysis.ts\<close>, first half): the regions in scope,
  CIDR matching on 32-bit addresses, the four listings of a region, the attachments and
  references of each group, its rules with their peers identified, and the totals. The EC2
  calls are listing services (\<open>Ttl_Cache\<close>); the inventory table is the list of its rows, or
  \<^const>\<open>None\<close> when the query fails.
\<close>

section \<open>Scope\<close>

record inventory_row =
  v_type :: string
  v_account :: string
  v_region :: "string option"
  v_id :: string
  v_name :: "string option"
  v_cidr :: "string option"

definition all_inventory_regions :: "string \<Rightarrow> inventory_row list option \<Rightarrow> string list" where
  "all_inventory_regions home db = (case db of
      None \<Rightarrow> [home]
    | Some rows \<Rightarrow>
        js_add home (js_set (map (the \<circ> v_region) (filter (\<lambda>r. v_type r = ''vpc'' \<and> v_region r \<noteq> None) rows))))"

definition regions_from_inventory :: "string \<Rightarrow> inventory_row list option \<Rightarrow> string list option \<Rightarrow> string list" where
  "regions_from_inventory home db scope = (case scope of
      Some (r # rs) \<Rightarrow> js_set (r # rs)
    | _ \<Rightarrow> all_inventory_regions home db)"

definition resolve_scope_regions ::
    "string \<Rightarrow> inventory_row list option \<Rightarrow> string list option \<Rightarrow> string list option \<times> bool" where
  "resolve_scope_regions home db scope = (case scope of
      Some (r # rs) \<Rightarrow>
        (let requested = js_set (r # rs);
             intersected = filter (\<lambda>x. x \<in> set (all_inventory_regions home db)) requested
         in (if intersected = [] then None else Some intersected, length intersected < length requested))
    | _ \<Rightarrow> (None, False))"

definition scope_cache_key :: "string list option \<Rightarrow> string" where
  "scope_cache_key scope = (case scope of
      Some (r # rs) \<Rightarrow> ''a|'' @ join_with '','' (sort (r # rs))
    | _ \<Rightarrow> ''a|*'')"

record vpc_meta =
  vm_names :: "(string \<times> string) list"
  vm_cidrs :: "(string \<times> string) list"

text \<open>The query reads the host account only, and the regions in scope when there is a scope.\<close>

definition vpc_rows :: "inventory_row list \<Rightarrow> string list option \<Rightarrow> inventory_row list" where
  "vpc_rows rows scope = filter (\<lambda>r. v_type r = ''vpc'' \<and> v_account r = ''self'' \<and>
     (case scope of Some (x # xs) \<Rightarrow> v_region r \<in> Some ` set (x # xs) | _ \<Rightarrow> True)) rows"

definition add_vpc :: "vpc_meta \<Rightarrow> inventory_row \<Rightarrow> vpc_meta" where
  "add_vpc m v = (let label = (if present (v_name v) then the (v_name v) else v_id v) in
     \<lparr>vm_names = AList.update (v_id v) label (vm_names m),
      vm_cidrs = vm_cidrs m @ (if present (v_cidr v) then [(the (v_cidr v), label)] else [])\<rparr>)"

definition vpc_meta_of :: "inventory_row list option \<Rightarrow> string list option \<Rightarrow> vpc_meta" where
  "vpc_meta_of db scope = (case db of
      None \<Rightarrow> \<lparr>vm_names = [], vm_cidrs = []\<rparr>
    | Some rows \<Rightarrow> foldl add_vpc \<lparr>vm_names = [], vm_cidrs = []\<rparr> (vpc_rows rows scope))"

section \<open>Addresses\<close>

definition decimal_text :: "string \<Rightarrow> bool" where
  "decimal_text s \<longleftrightarrow> s \<noteq> [] \<and> (\<forall>c\<in>set s. is_digit c)"

definition ip4 :: "string \<Rightarrow> 32 word option" where
  "ip4 s = (case split_on CHR ''.'' s of
      [a, b, c, d] \<Rightarrow>
        if \<not> (decimal_text a \<and> decimal_text b \<and> decimal_text c \<and> decimal_text d) then None
        else (let p0 = nat_of_digits a; p1 = nat_of_digits b; p2 = nat_of_digits c; p3 = nat_of_digits d in
          if 255 < p0 \<or> 255 < p1 \<or> 255 < p2 \<or> 255 < p3 then None
          else Some (push_bit 24 (of_nat p0) OR push_bit 16 (of_nat p1) OR push_bit 8 (of_nat p2) OR of_nat p3))
    | _ \<Rightarrow> None)"

text \<open>
  \<open>Number(s)\<close> for integers in decimal: blank is 0, anything else that is not a signed run of
  digits counts as \<open>NaN\<close> (the fraction, exponent and prefix spellings, which AWS does not write,
  are not told apart from it).
\<close>

definition to_number :: "string \<Rightarrow> int option" where
  "to_number s = (case trim s of
      [] \<Rightarrow> Some 0
    | c # cs \<Rightarrow>
        if decimal_text (c # cs) then Some (int (nat_of_digits (c # cs)))
        else if c = CHR ''-'' \<and> decimal_text cs then Some (- int (nat_of_digits cs))
        else if c = CHR ''+'' \<and> decimal_text cs then Some (int (nat_of_digits cs))
        else None)"

definition cidr_mask :: "nat \<Rightarrow> 32 word" where
  "cidr_mask bits = push_bit (32 - bits) (NOT 0)"

definition ip_in_cidr :: "string \<Rightarrow> string \<Rightarrow> bool" where
  "ip_in_cidr ip cidr =
     (let parts = split_on CHR ''/'' cidr;
          base = hd parts;
          bits = (case tl parts of [] \<Rightarrow> None | b # _ \<Rightarrow> to_number b)
      in case (ip4 ip, ip4 base, bits) of
           (Some i, Some b, Some n) \<Rightarrow>
             if n < 0 \<or> 32 < n then False
             else if n = 0 then True
             else i AND cidr_mask (nat n) = b AND cidr_mask (nat n)
         | _ \<Rightarrow> False)"

lemma to_number_show_nat [simp]: "to_number (show_nat n) = Some (int n)"
proof -
  have d: "\<forall>c\<in>set (show_nat n). is_digit c" by (rule show_nat_digits)
  moreover have "is_digit c \<Longrightarrow> \<not> is_space c" for c by (auto simp: is_digit_def is_space_def Let_def)
  ultimately have "trim (show_nat n) = show_nat n" by (intro trim_id) blast
  moreover have "decimal_text (show_nat n)" using d by (simp add: decimal_text_def)
  ultimately show ?thesis
    using nat_of_show_nat [of n] show_nat_not_Nil [of n]
    by (cases "show_nat n") (simp_all add: to_number_def)
qed

lemma ip4_no_slash: "ip4 s = Some a \<Longrightarrow> CHR ''/'' \<notin> set s"
proof
  assume s: "ip4 s = Some a" and c: "CHR ''/'' \<in> set s"
  from s obtain p q r t where p: "split_on CHR ''.'' s = [p, q, r, t]"
      "decimal_text p" "decimal_text q" "decimal_text r" "decimal_text t"
    by (auto simp: ip4_def split: list.splits if_splits)
  then have "set s \<subseteq> {c. is_digit c} \<union> {CHR ''.''}"
    using join_split [of "CHR ''.''" s, symmetric] by (auto simp: decimal_text_def)
  with c have "is_digit CHR ''/''" by auto
  then show False by (simp add: is_digit_def)
qed

lemma bit_masked: "bit (x AND cidr_mask n) i \<longleftrightarrow> bit x i \<and> 32 - n \<le> i"
  using bit_imp_le_length [of x i] by (auto simp: cidr_mask_def bit_simps)

lemma mask_eq_iff:
  fixes a b :: "32 word"
  shows "(a AND cidr_mask n = b AND cidr_mask n) \<longleftrightarrow> drop_bit (32 - n) a = drop_bit (32 - n) b"
proof
  assume e: "a AND cidr_mask n = b AND cidr_mask n"
  show "drop_bit (32 - n) a = drop_bit (32 - n) b"
  proof (rule bit_eqI)
    fix i
    have "bit (a AND cidr_mask n) (32 - n + i) = bit (b AND cidr_mask n) (32 - n + i)" by (simp add: e)
    then show "bit (drop_bit (32 - n) a) i = bit (drop_bit (32 - n) b) i"
      by (simp add: bit_masked bit_drop_bit_eq)
  qed
next
  assume e: "drop_bit (32 - n) a = drop_bit (32 - n) b"
  show "a AND cidr_mask n = b AND cidr_mask n"
  proof (rule bit_eqI)
    fix i
    have "bit a i = bit b i" if "32 - n \<le> i"
    proof -
      have "bit (drop_bit (32 - n) a) (i - (32 - n)) = bit (drop_bit (32 - n) b) (i - (32 - n))"
        by (simp add: e)
      with that show ?thesis by (simp add: bit_drop_bit_eq)
    qed
    then show "bit (a AND cidr_mask n) i = bit (b AND cidr_mask n) i" by (auto simp: bit_masked)
  qed
qed

text \<open>
  An address matches a CIDR exactly when the first \<open>n\<close> bits of its 32-bit value are those of the
  base address, for every prefix length from 0 to 32.
\<close>

theorem cidr_is_prefix:
  "ip4 ip = Some a \<Longrightarrow> ip4 base = Some b \<Longrightarrow> n \<le> 32 \<Longrightarrow>
   ip_in_cidr ip (base @ ''/'' @ show_nat n) \<longleftrightarrow> drop_bit (32 - n) a = drop_bit (32 - n) b"
proof -
  assume a: "ip4 ip = Some a" and b: "ip4 base = Some b" and n: "n \<le> 32"
  have "CHR ''/'' \<notin> set (show_nat n)" using show_nat_digits [of n] by (auto simp: is_digit_def)
  then have s: "split_on CHR ''/'' (base @ ''/'' @ show_nat n) = [base, show_nat n]"
    using ip4_no_slash [OF b] by (simp add: split_on_append split_on_none)
  have z: "drop_bit 32 x = 0" for x :: "32 word"
    by (rule bit_eqI) (auto simp: bit_simps dest: bit_imp_le_length)
  show ?thesis
    unfolding ip_in_cidr_def Let_def s using a b n by (auto simp: mask_eq_iff z)
qed

theorem cidr_is_prefix_witness:
  "ip_in_cidr ''10.0.3.7'' (''10.0.0.0'' @ ''/'' @ show_nat 22) \<longleftrightarrow>
   drop_bit 10 (0x0A000307 :: 32 word) = drop_bit 10 0x0A000000"
proof -
  have "ip4 ''10.0.3.7'' = Some 0x0A000307" "ip4 ''10.0.0.0'' = Some 0x0A000000" by code_simp+
  from cidr_is_prefix [OF this, of 22] show ?thesis by simp
qed

section \<open>Groups, interfaces and rules\<close>

definition proto_name :: "(string \<times> string) list" where
  "proto_name = [(''6'', ''tcp''), (''17'', ''udp''), (''1'', ''icmp''), (''58'', ''icmpv6'')]"

datatype direction = Ingress | Egress
datatype peer_kind = Internet | Cidr | Group | Prefix_List

record sg_rule =
  s_direction :: direction
  s_protocol :: string
  s_from :: "int option"
  s_to :: "int option"
  s_port_range :: string
  s_peer :: string
  s_kind :: peer_kind
  s_label :: string
  s_description :: "string option"
  s_open :: bool

type_synonym peer_entry = "string option \<times> string option"

record raw_perm =
  w_protocol :: "string option"
  w_from :: "int option"
  w_to :: "int option"
  w_ranges :: "peer_entry list"
  w_ranges6 :: "peer_entry list"
  w_pairs :: "peer_entry list"
  w_prefix_lists :: "peer_entry list"

record raw_sg =
  g_id :: "string option"
  g_name :: "string option"
  g_description :: "string option"
  g_vpc :: "string option"
  g_ingress :: "raw_perm list"
  g_egress :: "raw_perm list"

record flow_log =
  l_destination :: "string option"
  l_resource :: "string option"
  l_group :: "string option"
  l_traffic :: "string option"

definition port_range :: "int option \<Rightarrow> int option \<Rightarrow> string" where
  "port_range from to = (case from of
      None \<Rightarrow> ''all''
    | Some f \<Rightarrow>
        if f = -1 then ''all''
        else if to = Some f then show_int f
        else show_int f @ ''-'' @ (case to of None \<Rightarrow> ''undefined'' | Some t \<Rightarrow> show_int t))"

text \<open>The first usable log group of each VPC; groups that only record rejects are no source.\<close>

definition usable_flow_log :: "flow_log \<Rightarrow> bool" where
  "usable_flow_log f \<longleftrightarrow> l_destination f = Some ''cloud-watch-logs'' \<and>
     (case l_resource f of None \<Rightarrow> False | Some r \<Rightarrow> starts_with ''vpc-'' r) \<and>
     present (l_group f) \<and> l_traffic f \<noteq> Some ''REJECT''"

definition add_flow_log :: "(string \<times> string) list \<Rightarrow> flow_log \<Rightarrow> (string \<times> string) list" where
  "add_flow_log m f =
     (if usable_flow_log f \<and> map_of m (the (l_resource f)) = None
      then m @ [(the (l_resource f), the (l_group f))] else m)"

definition flow_by_vpc :: "flow_log list \<Rightarrow> (string \<times> string) list" where
  "flow_by_vpc logs = foldl add_flow_log [] logs"

definition sg_names :: "raw_sg list \<Rightarrow> (string \<times> string) list" where
  "sg_names sgs = foldl (\<lambda>m g. AList.update (or_empty (g_id g)) (or_empty (g_name g)) m) [] sgs"

definition sg_label :: "raw_sg list \<Rightarrow> string \<Rightarrow> string" where
  "sg_label sgs gid = (case map_of (sg_names sgs) gid of
      Some (c # n) \<Rightarrow> gid @ '' ('' @ (c # n) @ '')''
    | _ \<Rightarrow> gid)"

record attachment =
  at_ids :: "string list"
  at_ips :: "string list"
  at_kinds :: "(string \<times> nat) list"

definition no_attachment :: attachment where
  "no_attachment = \<lparr>at_ids = [], at_ips = [], at_kinds = []\<rparr>"

definition eni_ips :: "raw_eni \<Rightarrow> string list" where
  "eni_ips e = private_ips e @ present_values (n_ipv6 e)"

definition count_kind :: "string \<Rightarrow> (string \<times> nat) list \<Rightarrow> (string \<times> nat) list" where
  "count_kind k m = AList.update k (Suc (case map_of m k of None \<Rightarrow> 0 | Some n \<Rightarrow> n)) m"

definition attach ::
    "raw_eni \<Rightarrow> (string \<times> attachment) list \<Rightarrow> string option \<Rightarrow> (string \<times> attachment) list" where
  "attach e m g =
     (if \<not> present g then m
      else (let cur = (case map_of m (the g) of None \<Rightarrow> no_attachment | Some a \<Rightarrow> a) in
        AList.update (the g)
          \<lparr>at_ids = at_ids cur @ [or_empty (n_id e)], at_ips = at_ips cur @ eni_ips e,
           at_kinds = count_kind (fst (eni_kind e)) (at_kinds cur)\<rparr> m))"

definition eni_by_group :: "raw_eni list \<Rightarrow> (string \<times> attachment) list" where
  "eni_by_group enis = foldl (\<lambda>m e. foldl (attach e) m (n_groups e)) [] enis"

definition eni_label :: "raw_eni \<Rightarrow> string" where
  "eni_label e = (let (kind, resource) = eni_kind e in
     if present resource then kind @ '': '' @ the resource else kind)"

definition ip_labels :: "raw_eni list \<Rightarrow> (string \<times> string) list" where
  "ip_labels enis = concat (map (\<lambda>e. map (\<lambda>ip. (ip, eni_label e)) (eni_ips e)) enis)"

text \<open>Which other groups name a group as the peer of a rule.\<close>

definition add_reference ::
    "raw_sg \<Rightarrow> (string \<times> string list) list \<Rightarrow> peer_entry \<Rightarrow> (string \<times> string list) list" where
  "add_reference g m p =
     (if \<not> present (fst p) \<or> fst p = g_id g then m
      else AList.update (the (fst p))
        (js_add (or_empty (g_id g)) (case map_of m (the (fst p)) of None \<Rightarrow> [] | Some s \<Rightarrow> s)) m)"

definition sg_pairs :: "raw_sg \<Rightarrow> peer_entry list" where
  "sg_pairs g = concat (map w_pairs (g_ingress g @ g_egress g))"

definition referenced_by :: "raw_sg list \<Rightarrow> (string \<times> string list) list" where
  "referenced_by sgs = foldl (\<lambda>m g. foldl (add_reference g) m (sg_pairs g)) [] sgs"

definition base_rule :: "direction \<Rightarrow> raw_perm \<Rightarrow> sg_rule" where
  "base_rule dir p = (let proto = or_empty (w_protocol p) in
     \<lparr>s_direction = dir,
      s_protocol = (if w_protocol p = Some ''-1'' then ''all''
        else case map_of proto_name proto of
          Some n \<Rightarrow> n
        | None \<Rightarrow> (case w_protocol p of None \<Rightarrow> ''?'' | Some q \<Rightarrow> q)),
      s_from = w_from p, s_to = w_to p,
      s_port_range = (if w_protocol p = Some ''-1'' then ''all'' else port_range (w_from p) (w_to p)),
      s_peer = [], s_kind = Cidr, s_label = [], s_description = None, s_open = False\<rparr>)"

definition cidr_rule :: "vpc_meta \<Rightarrow> sg_rule \<Rightarrow> peer_entry \<Rightarrow> sg_rule" where
  "cidr_rule vpcs base r =
     (let cidr = or_empty (fst r);
          opened = (cidr = ''0.0.0.0/0'');
          hit = (if opened then None else find (\<lambda>v. fst v = cidr) (vm_cidrs vpcs))
      in base\<lparr>s_peer := cidr, s_kind := (if opened then Internet else Cidr),
           s_label := (if opened then cidr
             else case hit of Some v \<Rightarrow> cidr @ '' ('' @ snd v @ '')'' | None \<Rightarrow> cidr),
           s_description := snd r, s_open := opened\<rparr>)"

definition cidr6_rule :: "sg_rule \<Rightarrow> peer_entry \<Rightarrow> sg_rule" where
  "cidr6_rule base r = (let cidr = or_empty (fst r); opened = (cidr = ''::/0'') in
     base\<lparr>s_peer := cidr, s_kind := (if opened then Internet else Cidr), s_label := cidr,
       s_description := snd r, s_open := opened\<rparr>)"

definition group_rule :: "raw_sg list \<Rightarrow> sg_rule \<Rightarrow> peer_entry \<Rightarrow> sg_rule" where
  "group_rule sgs base r =
     base\<lparr>s_peer := or_empty (fst r), s_kind := Group, s_label := sg_label sgs (or_empty (fst r)),
       s_description := snd r, s_open := False\<rparr>"

definition prefix_rule :: "(string \<times> string) list \<Rightarrow> sg_rule \<Rightarrow> peer_entry \<Rightarrow> sg_rule" where
  "prefix_rule pl_names base r = (let pl = or_empty (fst r) in
     base\<lparr>s_peer := pl, s_kind := Prefix_List,
       s_label := (case map_of pl_names pl of
           Some (c # n) \<Rightarrow> pl @ '' ('' @ (c # n) @ '')''
         | _ \<Rightarrow> pl),
       s_description := snd r, s_open := False\<rparr>)"

definition to_rules ::
    "vpc_meta \<Rightarrow> raw_sg list \<Rightarrow> (string \<times> string) list \<Rightarrow> raw_perm list \<Rightarrow> direction \<Rightarrow> sg_rule list" where
  "to_rules vpcs sgs pl_names perms dir = concat (map (\<lambda>p. let base = base_rule dir p in
     map (cidr_rule vpcs base) (w_ranges p) @ map (cidr6_rule base) (w_ranges6 p) @
     map (group_rule sgs base) (w_pairs p) @ map (prefix_rule pl_names base) (w_prefix_lists p)) perms)"

record sg_row =
  o_id :: string
  o_name :: string
  o_description :: string
  o_region :: string
  o_vpc :: string
  o_vpc_label :: string
  o_default :: bool
  o_eni_count :: nat
  o_kinds :: "(string \<times> nat) list"
  o_referenced_by :: "string list"
  o_ingress :: nat
  o_egress :: nat
  o_open_ingress :: nat
  o_unused :: bool
  o_rules :: "sg_rule list"

record sg_detail =
  d_region :: string
  d_vpc :: string
  d_eni_ids :: "string list"
  d_ips :: "string list"
  d_rules :: "sg_rule list"
  d_flow_group :: "string option"
  d_flow_failed :: bool

definition prefix_list_names :: "(string option \<times> string option) list \<Rightarrow> (string \<times> string) list" where
  "prefix_list_names ps = foldl (\<lambda>m p. AList.update (or_empty (fst p)) (or_empty (snd p)) m) [] ps"

text \<open>What a region's listings brought; the fields name the inputs of the rows.\<close>

record region_facts =
  rf_region :: string
  rf_sgs :: "raw_sg list"
  rf_enis :: "raw_eni list"
  rf_prefix_lists :: "(string \<times> string) list"
  rf_flows :: "(string \<times> string) list"
  rf_flow_failed :: bool

definition all_rules :: "vpc_meta \<Rightarrow> region_facts \<Rightarrow> raw_sg \<Rightarrow> sg_rule list" where
  "all_rules vpcs rf g =
     to_rules vpcs (rf_sgs rf) (rf_prefix_lists rf) (g_ingress g) Ingress @
     to_rules vpcs (rf_sgs rf) (rf_prefix_lists rf) (g_egress g) Egress"

definition attachment_of :: "region_facts \<Rightarrow> string \<Rightarrow> attachment" where
  "attachment_of rf gid = (case map_of (eni_by_group (rf_enis rf)) gid of None \<Rightarrow> no_attachment | Some a \<Rightarrow> a)"

definition references_of :: "region_facts \<Rightarrow> string \<Rightarrow> string list" where
  "references_of rf gid = (case map_of (referenced_by (rf_sgs rf)) gid of None \<Rightarrow> [] | Some s \<Rightarrow> s)"

definition usage_row :: "vpc_meta \<Rightarrow> region_facts \<Rightarrow> raw_sg \<Rightarrow> sg_row" where
  "usage_row vpcs rf g =
     (let gid = or_empty (g_id g);
          att = attachment_of rf gid;
          refs = map (sg_label (rf_sgs rf)) (references_of rf gid);
          rules = all_rules vpcs rf g;
          ingress = filter (\<lambda>r. s_direction r = Ingress) rules;
          vpc = or_empty (g_vpc g);
          is_default = (g_name g = Some ''default'')
      in \<lparr>o_id = gid, o_name = (case g_name g of None \<Rightarrow> gid | Some n \<Rightarrow> n),
          o_description = or_empty (g_description g), o_region = rf_region rf, o_vpc = vpc,
          o_vpc_label = (case map_of (vm_names vpcs) vpc of Some l \<Rightarrow> l | None \<Rightarrow> vpc),
          o_default = is_default, o_eni_count = length (at_ids att),
          o_kinds = sort_le (\<lambda>a b. snd b \<le> snd a) (at_kinds att),
          o_referenced_by = refs, o_ingress = length ingress,
          o_egress = length rules - length ingress,
          o_open_ingress = length (filter s_open ingress),
          o_unused = (\<not> is_default \<and> length (at_ids att) = 0 \<and> length refs = 0),
          o_rules = rules\<rparr>)"

definition detail_of :: "vpc_meta \<Rightarrow> region_facts \<Rightarrow> raw_sg \<Rightarrow> sg_detail" where
  "detail_of vpcs rf g = (let att = attachment_of rf (or_empty (g_id g)) in
     \<lparr>d_region = rf_region rf, d_vpc = or_empty (g_vpc g), d_eni_ids = at_ids att, d_ips = at_ips att,
      d_rules = all_rules vpcs rf g, d_flow_group = map_of (rf_flows rf) (or_empty (g_vpc g)),
      d_flow_failed = rf_flow_failed rf\<rparr>)"

section \<open>A region and the whole analysis\<close>

record region_calls =
  rc_sgs :: "raw_sg service"
  rc_enis :: "raw_eni service"
  rc_prefix_lists :: "(string option \<times> string option) service"
  rc_flow_logs :: "flow_log service"

record region_result =
  rr_rows :: "sg_row list"
  rr_flow_vpcs :: nat
  rr_degraded :: bool
  rr_details :: "(string \<times> sg_detail) list"
  rr_ip_labels :: "(string \<times> string) list"

definition failed_region :: region_result where
  "failed_region = \<lparr>rr_rows = [], rr_flow_vpcs = 0, rr_degraded = True, rr_details = [], rr_ip_labels = []\<rparr>"

definition region_rows :: "vpc_meta \<Rightarrow> region_facts \<Rightarrow> bool \<Rightarrow> region_result" where
  "region_rows vpcs rf eni_truncated =
     \<lparr>rr_rows = map (usage_row vpcs rf) (rf_sgs rf), rr_flow_vpcs = length (rf_flows rf),
      rr_degraded = (eni_truncated \<or> rf_flow_failed rf),
      rr_details = map (\<lambda>g. (or_empty (g_id g), detail_of vpcs rf g)) (rf_sgs rf),
      rr_ip_labels = ip_labels (rf_enis rf)\<rparr>"

text \<open>
  The four listings of a region. Failing groups or interfaces fail the region, failing prefix
  lists only cost their names, failing flow logs are remembered. \<^const>\<open>None\<close> is a listing whose
  pages never end.
\<close>

definition region_outcome ::
    "vpc_meta \<Rightarrow> string \<Rightarrow> raw_sg listing \<Rightarrow> raw_eni listing \<Rightarrow> (string option \<times> string option) listing \<Rightarrow>
     flow_log listing \<Rightarrow> region_result" where
  "region_outcome vpcs region sgs enis pls flows =
     (case (sgs, enis) of
        (Some (gs, _), Some (es, eni_truncated)) \<Rightarrow>
          region_rows vpcs
            \<lparr>rf_region = region, rf_sgs = gs, rf_enis = es,
             rf_prefix_lists = (case pls of None \<Rightarrow> [] | Some (ps, _) \<Rightarrow> prefix_list_names ps),
             rf_flows = (case flows of None \<Rightarrow> [] | Some (fs, _) \<Rightarrow> flow_by_vpc fs),
             rf_flow_failed = (flows = None)\<rparr> eni_truncated
      | _ \<Rightarrow> failed_region)"

definition scan_region :: "vpc_meta \<Rightarrow> string \<Rightarrow> region_calls \<Rightarrow> region_result option" where
  "scan_region vpcs region calls = do {
     sgs \<leftarrow> full_listing (rc_sgs calls) None;
     enis \<leftarrow> full_listing (rc_enis calls) (Some 5000);
     pls \<leftarrow> full_listing (rc_prefix_lists calls) None;
     flows \<leftarrow> full_listing (rc_flow_logs calls) None;
     Some (region_outcome vpcs region sgs enis pls flows)
   }"

lemma scan_region_listings:
  assumes "scan_region vpcs region calls = Some rr"
  obtains sgs enis pls flows where "full_listing (rc_sgs calls) None = Some sgs"
    "full_listing (rc_enis calls) (Some 5000) = Some enis" "rr = region_outcome vpcs region sgs enis pls flows"
  using assms unfolding scan_region_def bind_eq_Some_conv by blast

record sg_totals =
  st_total :: nat
  st_attached :: nat
  st_unused :: nat
  st_referenced_only :: nat
  st_open_ingress :: nat
  st_enis :: nat

record sg_report =
  sr_rows :: "sg_row list"
  sr_totals :: sg_totals
  sr_flow_log_vpcs :: nat
  sr_degraded :: "string list"

definition totals_of :: "sg_row list \<Rightarrow> sg_totals" where
  "totals_of rows =
     \<lparr>st_total = length rows,
      st_attached = length (filter (\<lambda>r. 0 < o_eni_count r) rows),
      st_unused = length (filter o_unused rows),
      st_referenced_only = length (filter (\<lambda>r. o_eni_count r = 0 \<and> 0 < length (o_referenced_by r)) rows),
      st_open_ingress = sum_list (map o_open_ingress rows),
      st_enis = sum_list (map o_eni_count rows)\<rparr>"

definition report_of :: "string list \<Rightarrow> region_result list \<Rightarrow> sg_report" where
  "report_of regions results = (let rows = concat (map rr_rows results) in
     \<lparr>sr_rows = rows, sr_totals = totals_of rows,
      sr_flow_log_vpcs = sum_list (map rr_flow_vpcs results),
      sr_degraded = concat (map (\<lambda>(region, r). if rr_degraded r then [region] else []) (zip regions results))\<rparr>)"

text \<open>
  The per-scope maps that the hit matching reads later. \<open>order\<close> lists the regions' results as they
  complete; a key seen twice keeps the later value. Both stores keep 32 scopes.
\<close>

record sg_store =
  ss_details :: "(string \<times> (string \<times> sg_detail) list) list"
  ss_labels :: "(string \<times> (string \<times> string) list) list"

definition set_entries :: "('k \<times> 'v) list \<Rightarrow> ('k \<times> 'v) list \<Rightarrow> ('k \<times> 'v) list" where
  "set_entries kvs m = foldl (\<lambda>m (k, v). AList.update k v m) m kvs"

definition publish :: "string \<Rightarrow> region_result list \<Rightarrow> sg_store \<Rightarrow> sg_store" where
  "publish key order store =
     \<lparr>ss_details = put_evict (Some 32) key (foldl (\<lambda>m r. set_entries (rr_details r) m) [] order) (ss_details store),
      ss_labels = put_evict (Some 32) key (foldl (\<lambda>m r. set_entries (rr_ip_labels r) m) [] order) (ss_labels store)\<rparr>"

definition sg_analysis ::
    "string \<Rightarrow> inventory_row list option \<Rightarrow> string list option \<Rightarrow> (string \<Rightarrow> region_calls) \<Rightarrow>
     (region_result list \<Rightarrow> region_result list) \<Rightarrow> sg_store \<Rightarrow> (sg_report \<times> sg_store) option" where
  "sg_analysis home db scope calls completion store =
     (let resolved = fst (resolve_scope_regions home db scope);
          regions = regions_from_inventory home db resolved;
          vpcs = vpc_meta_of db resolved
      in do {
        results \<leftarrow> those (map (\<lambda>r. scan_region vpcs r (calls r)) regions);
        Some (report_of regions results, publish (scope_cache_key resolved) (completion results) store)
      })"

definition sg_cached_call :: "int \<Rightarrow> string \<Rightarrow> 'v cache_state \<Rightarrow> 'v cache_answer \<times> 'v cache_state" where
  "sg_cached_call now key st = cached_call 240000 now key st"

definition sg_cached_resolve :: "int \<Rightarrow> string \<Rightarrow> 'v \<Rightarrow> 'v cache_state \<Rightarrow> 'v cache_state" where
  "sg_cached_resolve now key v st = cached_resolve (Some 500) now key v st"

section \<open>Attachments and references\<close>

definition attachment_in :: "(string \<times> attachment) list \<Rightarrow> string \<Rightarrow> attachment" where
  "attachment_in m gid = (case map_of m gid of None \<Rightarrow> no_attachment | Some a \<Rightarrow> a)"

definition references_in :: "(string \<times> string list) list \<Rightarrow> string \<Rightarrow> string list" where
  "references_in m gid = (case map_of m gid of None \<Rightarrow> [] | Some s \<Rightarrow> s)"

lemma present_Some: "present g \<longleftrightarrow> (\<exists>x. g = Some x \<and> x \<noteq> [])"
  by (cases g) (auto simp: present_def)

lemma attach_group:
  "at_ids (attachment_in (attach e m g) gid) =
     at_ids (attachment_in m gid) @ (if gid \<noteq> [] \<and> g = Some gid then [or_empty (n_id e)] else [])"
  by (auto simp: attach_def attachment_in_def present_Some Let_def update_conv')

lemma attach_groups:
  "at_ids (attachment_in (foldl (attach e) m gs) gid) =
     at_ids (attachment_in m gid) @ (if gid = [] then [] else replicate (count_list gs (Some gid)) (or_empty (n_id e)))"
  by (induction gs arbitrary: m) (auto simp: attach_group)

lemma eni_by_group_ids:
  "gid \<noteq> [] \<Longrightarrow> at_ids (attachment_in (eni_by_group enis) gid) =
     concat (map (\<lambda>e. replicate (count_list (n_groups e) (Some gid)) (or_empty (n_id e))) enis)"
proof (induction enis rule: rev_induct)
  case Nil
  show ?case by (simp add: eni_by_group_def attachment_in_def no_attachment_def)
next
  case (snoc e enis)
  then show ?case by (simp add: eni_by_group_def attach_groups)
qed

lemma attachment_empty:
  "gid \<noteq> [] \<Longrightarrow> at_ids (attachment_of rf gid) = [] \<longleftrightarrow> (\<forall>e\<in>set (rf_enis rf). Some gid \<notin> set (n_groups e))"
  using eni_by_group_ids [of gid "rf_enis rf"]
  by (auto simp: attachment_of_def attachment_in_def count_list_0_iff)

lemma add_reference_set:
  "gid \<noteq> [] \<Longrightarrow> set (references_in (add_reference g m p) gid) =
     set (references_in m gid) \<union> (if fst p = Some gid \<and> g_id g \<noteq> Some gid then {or_empty (g_id g)} else {})"
  by (auto simp: add_reference_def references_in_def present_Some update_conv')

lemma add_references_set:
  "gid \<noteq> [] \<Longrightarrow> set (references_in (foldl (add_reference g) m ps) gid) =
     set (references_in m gid) \<union> (if Some gid \<in> fst ` set ps \<and> g_id g \<noteq> Some gid then {or_empty (g_id g)} else {})"
  by (induction ps arbitrary: m) (auto simp: add_reference_set)

definition names_group :: "raw_sg \<Rightarrow> string \<Rightarrow> bool" where
  "names_group h gid \<longleftrightarrow> g_id h \<noteq> Some gid \<and> Some gid \<in> fst ` set (sg_pairs h)"

lemma referenced_by_set:
  "gid \<noteq> [] \<Longrightarrow> set (references_in (referenced_by sgs) gid) =
     (or_empty \<circ> g_id) ` {h \<in> set sgs. names_group h gid}"
proof (induction sgs rule: rev_induct)
  case Nil
  show ?case by (simp add: referenced_by_def references_in_def)
next
  case (snoc h sgs)
  then show ?case by (auto simp: referenced_by_def add_references_set names_group_def)
qed

lemma references_empty:
  "gid \<noteq> [] \<Longrightarrow> references_of rf gid = [] \<longleftrightarrow> (\<forall>h\<in>set (rf_sgs rf). \<not> names_group h gid)"
  using referenced_by_set [of gid "rf_sgs rf"] set_empty [of "references_of rf gid"]
  by (auto simp: references_of_def references_in_def)

lemma usage_row_unused:
  "o_id (usage_row vpcs rf g) \<noteq> [] \<Longrightarrow> o_unused (usage_row vpcs rf g) \<longleftrightarrow>
   \<not> o_default (usage_row vpcs rf g) \<and>
   (\<forall>e\<in>set (rf_enis rf). Some (o_id (usage_row vpcs rf g)) \<notin> set (n_groups e)) \<and>
   (\<forall>h\<in>set (rf_sgs rf). \<not> names_group h (o_id (usage_row vpcs rf g)))"
  by (simp add: usage_row_def Let_def attachment_empty references_empty)

lemma list_pages_served:
  "list_pages (serve ps) cap i t acc = Some (Some (xs, False)) \<Longrightarrow> i < length ps \<Longrightarrow>
   xs = acc @ concat (drop i ps)"
proof (induction "length ps - i" arbitrary: i t acc)
  case (Suc n)
  then have d: "drop i ps = ps ! i # drop (Suc i) ps" by (simp add: Cons_nth_drop_Suc)
  show ?case
  proof (cases "Suc i < length ps")
    case True
    with Suc.prems have "list_pages (serve ps) cap (Suc i) (Some ''next'') (acc @ ps ! i) = Some (Some (xs, False))"
      by (subst (asm) list_pages.simps) (auto simp: serve_def more_pages_def Let_def split: if_splits)
    from Suc(1) [OF _ this True] Suc(2) d show ?thesis by simp
  next
    case False
    with Suc.prems d show ?thesis
      by (subst (asm) list_pages.simps) (auto simp: serve_def more_pages_def Let_def)
  qed
qed simp

lemma full_listing_served:
  "full_listing (serve ps) cap = Some (Some (xs, False)) \<Longrightarrow> xs = concat ps"
proof -
  assume l: "full_listing (serve ps) cap = Some (Some (xs, False))"
  then have "ps \<noteq> []"
    by (auto simp: full_listing_def serve_def list_pages.simps)
  with l list_pages_served [of ps cap 0 None "[]" xs] show ?thesis by (simp add: full_listing_def)
qed

lemma full_listing_nothing: "full_listing (serve []) cap = Some None"
  by (simp add: full_listing_def serve_def list_pages.simps)

definition served_calls :: "raw_sg list list \<Rightarrow> raw_eni list list \<Rightarrow> flow_log list list \<Rightarrow> region_calls" where
  "served_calls gps eps fps =
     \<lparr>rc_sgs = serve gps, rc_enis = serve eps, rc_prefix_lists = serve [], rc_flow_logs = serve fps\<rparr>"


definition plain_perm :: "string \<Rightarrow> raw_perm" where
  "plain_perm gid =
     \<lparr>w_protocol = Some ''tcp'', w_from = Some 443, w_to = Some 443,
      w_ranges = [(Some ''0.0.0.0/0'', None)], w_ranges6 = [], w_pairs = [(Some gid, None)], w_prefix_lists = []\<rparr>"

definition plain_sg :: "string \<Rightarrow> string \<Rightarrow> raw_perm list \<Rightarrow> raw_sg" where
  "plain_sg gid name perms =
     \<lparr>g_id = Some gid, g_name = Some name, g_description = None, g_vpc = Some ''vpc-1'',
      g_ingress = perms, g_egress = []\<rparr>"

definition sample_calls :: region_calls where
  "sample_calls =
     served_calls [[plain_sg ''sg-1'' ''web'' [plain_perm ''sg-2'']], [plain_sg ''sg-2'' ''db'' []]] [[]] [[]]"

definition sample_scan :: region_result where
  "sample_scan = the (scan_region \<lparr>vm_names = [], vm_cidrs = []\<rparr> ''eu'' sample_calls)"


definition idle_defaults :: "sg_row list \<Rightarrow> nat" where
  "idle_defaults rows = length (filter (\<lambda>r. o_default r \<and> o_eni_count r = 0 \<and> o_referenced_by r = []) rows)"

lemma usage_row_partition:
  "o_unused (usage_row vpcs rf g) \<longleftrightarrow> \<not> o_default (usage_row vpcs rf g) \<and>
     o_eni_count (usage_row vpcs rf g) = 0 \<and> o_referenced_by (usage_row vpcs rf g) = []"
  by (simp add: usage_row_def Let_def)

lemma totals_partition_rows:
  assumes "\<forall>r\<in>set rows. o_unused r \<longleftrightarrow> \<not> o_default r \<and> o_eni_count r = 0 \<and> o_referenced_by r = []"
  shows "st_total (totals_of rows) = st_attached (totals_of rows) + st_referenced_only (totals_of rows) +
    st_unused (totals_of rows) + idle_defaults rows"
  using assms by (induction rows) (auto simp: totals_of_def idle_defaults_def)

text \<open>
  The totals partition the groups: attached, referenced only, clean-up candidates and the
  idle default groups, so nothing is counted twice.
\<close>

theorem totals_partition_groups:
  "scan_region vpcs region calls = Some rr \<Longrightarrow>
   st_total (totals_of (rr_rows rr)) = st_attached (totals_of (rr_rows rr)) +
     st_referenced_only (totals_of (rr_rows rr)) + st_unused (totals_of (rr_rows rr)) + idle_defaults (rr_rows rr)"
proof (rule totals_partition_rows)
  assume "scan_region vpcs region calls = Some rr"
  then obtain sgs enis pls flows where "rr = region_outcome vpcs region sgs enis pls flows"
    by (rule scan_region_listings)
  then show "\<forall>r\<in>set (rr_rows rr). o_unused r \<longleftrightarrow> \<not> o_default r \<and> o_eni_count r = 0 \<and> o_referenced_by r = []"
    by (auto simp: region_outcome_def failed_region_def region_rows_def usage_row_partition
        split: option.splits prod.splits)
qed

theorem totals_partition_groups_witness:
  "st_total (totals_of (rr_rows sample_scan)) = st_attached (totals_of (rr_rows sample_scan)) +
     st_referenced_only (totals_of (rr_rows sample_scan)) + st_unused (totals_of (rr_rows sample_scan)) +
     idle_defaults (rr_rows sample_scan)"
proof -
  have "scan_region \<lparr>vm_names = [], vm_cidrs = []\<rparr> ''eu'' sample_calls = Some sample_scan" by code_simp
  then show ?thesis by (rule totals_partition_groups)
qed

end
