(* ===== verification/Sg_Hits.thy ===== *)
theory Sg_Hits
  imports Sg_Analysis
begin

text \<open>
  Hit matching of security-group rules (\<open>web/lib/sg-analysis.ts\<close>, second half): the flow-log
  query and its polling, the matching of a flow against an ingress rule, the evidence a rule
  needs before it is called idle, and the fallback to Network Flow Monitor, which only names
  peers. The log service and the monitor are parameters.
\<close>

section \<open>Rules against flows\<close>

record rule_hit =
  h_rule :: sg_rule
  h_hits :: "int option"
  h_bytes :: int

record peer_traffic =
  t_ip :: string
  t_label :: "string option"
  t_port :: "string option"
  t_action :: "string option"
  t_count :: int
  t_bytes :: int

datatype hit_source = Flowlogs | Nfm | No_Evidence

datatype hit_note =
    Sg_Not_Found
  | No_Eni
  | No_Source
  | Query_Failed
  | Flow_No_Records
  | Flow_Eni_Truncated
  | Flow_Capped
  | Nfm_Peers_Only

record hits_result =
  x_source :: hit_source
  x_note :: "hit_note option"
  x_rule_hits :: "rule_hit list"
  x_idle :: nat
  x_peers :: "peer_traffic list"
  x_range_sec :: int

definition is_v6 :: "string \<Rightarrow> bool" where
  "is_v6 s \<longleftrightarrow> CHR '':'' \<in> set s"

definition rule_matchable :: "sg_rule \<Rightarrow> (string \<times> sg_detail) list \<Rightarrow> bool" where
  "rule_matchable r details \<longleftrightarrow>
     s_kind r \<noteq> Prefix_List \<and> \<not> (s_kind r = Cidr \<and> is_v6 (s_peer r)) \<and>
     s_protocol r \<noteq> ''icmp'' \<and> s_protocol r \<noteq> ''icmpv6'' \<and>
     \<not> (s_kind r = Group \<and> map_of details (s_peer r) = None)"

text \<open>A port read with \<open>Number\<close> may be \<open>NaN\<close>, with which every comparison is false.\<close>

datatype js_number = NaN | Num int

definition number_of :: "string \<Rightarrow> js_number" where
  "number_of s = (case to_number s of None \<Rightarrow> NaN | Some n \<Rightarrow> Num n)"

fun number_less :: "js_number \<Rightarrow> js_number \<Rightarrow> bool" where
  "number_less (Num a) (Num b) \<longleftrightarrow> a < b"
| "number_less _ _ \<longleftrightarrow> False"

definition port_excluded :: "sg_rule \<Rightarrow> js_number option \<Rightarrow> bool" where
  "port_excluded rule port = (case s_from rule of
      None \<Rightarrow> False
    | Some from \<Rightarrow>
        if from = -1 then False
        else (case port of
            None \<Rightarrow> True
          | Some p \<Rightarrow> number_less p (Num from) \<or>
              number_less (Num (case s_to rule of None \<Rightarrow> from | Some t \<Rightarrow> t)) p))"

definition match_rule ::
    "sg_rule \<Rightarrow> js_number option \<Rightarrow> string option \<Rightarrow> string option \<Rightarrow> (string \<Rightarrow> sg_detail option) \<Rightarrow> bool" where
  "match_rule rule port proto src detail_of_id =
     (if s_direction rule \<noteq> Ingress then False
      else if s_protocol rule \<noteq> ''all'' \<and> proto \<noteq> None \<and>
          (case map_of proto_name (the proto) of Some n \<Rightarrow> n | None \<Rightarrow> the proto) \<noteq> s_protocol rule then False
      else if port_excluded rule port then False
      else (case s_kind rule of
          Internet \<Rightarrow> src \<noteq> None \<and> is_v6 (the src) = is_v6 (s_peer rule)
        | Cidr \<Rightarrow> src \<noteq> None \<and> \<not> is_v6 (s_peer rule) \<and> ip_in_cidr (the src) (s_peer rule)
        | Group \<Rightarrow> src \<noteq> None \<and>
            (case detail_of_id (s_peer rule) of None \<Rightarrow> False | Some d \<Rightarrow> the src \<in> set (d_ips d))
        | Prefix_List \<Rightarrow> False))"

section \<open>Log queries\<close>

type_synonym log_row = "(string \<times> string) list"

definition insights_row :: "(string option \<times> string option) list \<Rightarrow> log_row" where
  "insights_row row = foldl (\<lambda>m (f, v). AList.update (the f) (or_empty v) m) []
     (filter (\<lambda>(f, v). present f \<and> f \<noteq> Some ''@ptr'') row)"

text \<open>
  The polling of \<open>runInsights\<close>: forty rounds. \<open>polls i\<close> is the status and the rows of round \<open>i\<close>,
  \<^const>\<open>None\<close> when the call throws; the result is \<^const>\<open>None\<close> when the query throws.
\<close>

fun poll_insights ::
    "(nat \<Rightarrow> (string \<times> (string option \<times> string option) list list) option) \<Rightarrow> nat \<Rightarrow> nat \<Rightarrow> log_row list option" where
  "poll_insights polls i 0 = None"
| "poll_insights polls i (Suc left) = (case polls i of
      None \<Rightarrow> None
    | Some (status, rows) \<Rightarrow>
        if status = ''Complete'' then Some (map insights_row rows)
        else if status = ''Failed'' \<or> status = ''Cancelled'' \<or> status = ''Timeout'' then None
        else poll_insights polls (Suc i) left)"

definition run_insights ::
    "string option option \<Rightarrow> (nat \<Rightarrow> (string \<times> (string option \<times> string option) list list) option) \<Rightarrow>
     log_row list option" where
  "run_insights started polls = (case started of
      None \<Rightarrow> None
    | Some query_id \<Rightarrow> if \<not> present query_id then Some [] else poll_insights polls 0 40)"

definition quoted :: "string \<Rightarrow> string" where
  "quoted s = CHR 0x27 # s @ [CHR 0x27]"

definition flow_query :: "string list \<Rightarrow> string" where
  "flow_query eni_ids =
     join_with [CHR 0x0A]
       [''parse @message '' @ quoted ''* * * * * * * * * * * * * *'' @
          '' as version, account, interfaceId, srcaddr, dstaddr, srcport, dstport, protocol, packets, bytes, startt, endt, action, logStatus'',
        ''| filter interfaceId in ['' @ join_with '', '' (map quoted (take 50 eni_ids)) @ '']'',
        ''| stats sum(bytes) as bytes, count(*) as cnt by srcaddr, dstaddr, dstport, protocol, action'',
        ''| sort cnt desc'',
        ''| limit 200'']"

section \<open>Counting\<close>

text \<open>\<open>Number(row.cnt) || 0\<close>; a missing column is \<open>NaN\<close>.\<close>

definition count_of :: "log_row \<Rightarrow> string \<Rightarrow> int" where
  "count_of row k = (case map_of row k of None \<Rightarrow> 0 | Some s \<Rightarrow> (case to_number s of None \<Rightarrow> 0 | Some n \<Rightarrow> n))"

definition inbound :: "string list \<Rightarrow> log_row \<Rightarrow> bool" where
  "inbound own row \<longleftrightarrow>
     present (map_of row ''dstaddr'') \<and> the (map_of row ''dstaddr'') \<in> set own \<and>
     present (map_of row ''srcaddr'') \<and> map_of row ''srcaddr'' \<noteq> map_of row ''dstaddr''"

definition row_port :: "log_row \<Rightarrow> js_number option" where
  "row_port row =
     (if present (map_of row ''dstport'') then Some (number_of (the (map_of row ''dstport''))) else None)"

definition row_matches :: "(string \<times> sg_detail) list \<Rightarrow> log_row \<Rightarrow> sg_rule \<Rightarrow> bool" where
  "row_matches details row rule \<longleftrightarrow>
     match_rule rule (row_port row) (map_of row ''protocol'') (map_of row ''srcaddr'') (map_of details)"

definition bump :: "(string \<times> sg_detail) list \<Rightarrow> log_row \<Rightarrow> rule_hit \<Rightarrow> rule_hit" where
  "bump details row rh = (case h_hits rh of
      None \<Rightarrow> rh
    | Some n \<Rightarrow>
        if row_matches details row (h_rule rh)
        then rh\<lparr>h_hits := Some (n + count_of row ''cnt''), h_bytes := h_bytes rh + count_of row ''bytes''\<rparr>
        else rh)"

definition flow_step ::
    "string list \<Rightarrow> (string \<times> sg_detail) list \<Rightarrow> (string \<times> string) list \<Rightarrow>
     rule_hit list \<times> peer_traffic list \<Rightarrow> log_row \<Rightarrow> rule_hit list \<times> peer_traffic list" where
  "flow_step own details labels st row =
     (let (hits, peers) = st in
      if \<not> inbound own row then (hits, peers)
      else
        (if map_of row ''action'' = Some ''ACCEPT'' then map (bump details row) hits else hits,
         if length peers < 20
         then peers @ [\<lparr>t_ip = the (map_of row ''srcaddr''), t_label = map_of labels (the (map_of row ''srcaddr'')),
                t_port = map_of row ''dstport'', t_action = map_of row ''action'',
                t_count = count_of row ''cnt'', t_bytes = count_of row ''bytes''\<rparr>]
         else peers))"

definition ingress_rules :: "sg_detail \<Rightarrow> sg_rule list" where
  "ingress_rules d = filter (\<lambda>r. s_direction r = Ingress) (d_rules d)"

definition init_rule_hits :: "sg_detail \<Rightarrow> (string \<times> sg_detail) list \<Rightarrow> rule_hit list" where
  "init_rule_hits d details =
     map (\<lambda>r. \<lparr>h_rule = r, h_hits = (if rule_matchable r details then Some 0 else None), h_bytes = 0\<rparr>)
       (ingress_rules d)"

definition null_rule_hits :: "sg_detail \<Rightarrow> rule_hit list" where
  "null_rule_hits d = map (\<lambda>r. \<lparr>h_rule = r, h_hits = None, h_bytes = 0\<rparr>) (ingress_rules d)"

definition idle_count :: "rule_hit list \<Rightarrow> nat" where
  "idle_count rhs = length (filter (\<lambda>r. h_hits r = Some 0) rhs)"

definition demote :: "rule_hit \<Rightarrow> rule_hit" where
  "demote r = (if h_hits r = Some 0 then r\<lparr>h_hits := None\<rparr> else r)"

definition flow_result ::
    "sg_detail \<Rightarrow> (string \<times> sg_detail) list \<Rightarrow> (string \<times> string) list \<Rightarrow> int \<Rightarrow> log_row list \<Rightarrow> hits_result" where
  "flow_result d details labels range_sec rows =
     (let truncated = 50 < length (d_eni_ids d);
          (hits, peers) = foldl (flow_step (d_ips d) details labels) (init_rule_hits d details, []) rows
      in if rows = [] then
           \<lparr>x_source = Flowlogs, x_note = Some Flow_No_Records, x_rule_hits = null_rule_hits d, x_idle = 0,
            x_peers = peers, x_range_sec = range_sec\<rparr>
         else
           (let capped = (length rows = 200);
                final = (if truncated \<or> capped then map demote hits else hits)
            in \<lparr>x_source = Flowlogs,
                x_note = (if truncated then Some Flow_Eni_Truncated else if capped then Some Flow_Capped else None),
                x_rule_hits = final, x_idle = idle_count final, x_peers = peers, x_range_sec = range_sec\<rparr>))"

section \<open>The monitor as a fallback\<close>

record nfm_calls =
  nc_status :: "nfm_monitor list option"
  nc_query :: "string \<Rightarrow> nfm_category \<Rightarrow> int \<Rightarrow> nfm_flow list option"

definition pick_monitor :: "nfm_monitor list \<Rightarrow> nfm_monitor option" where
  "pick_monitor ms = (case find (\<lambda>m. m_status m = ''ACTIVE'' \<and> \<not> present (m_cluster m)) ms of
      Some m \<Rightarrow> Some m
    | None \<Rightarrow> find (\<lambda>m. m_status m = ''ACTIVE'') ms)"

definition owns :: "string list \<Rightarrow> nfm_endpoint \<Rightarrow> bool" where
  "owns own e \<longleftrightarrow> (case e_ip e of None \<Rightarrow> False | Some ip \<Rightarrow> ip \<in> set own)"

definition add_peer ::
    "sg_detail \<Rightarrow> (string \<times> string) list \<Rightarrow> (string \<times> peer_traffic) list \<Rightarrow> nfm_flow \<Rightarrow>
     (string \<times> peer_traffic) list" where
  "add_peer d labels by_peer flow =
     (let own = d_ips d;
          local_is = owns own (f_local flow);
          remote_is = owns own (f_remote flow);
          local_ep = (if local_is then f_local flow else f_remote flow);
          peer_ep = (if local_is then f_remote flow else f_local flow)
      in if \<not> local_is \<and> \<not> remote_is then by_peer
         else if e_vpc local_ep \<noteq> None \<and> e_vpc local_ep \<noteq> Some (d_vpc d) then by_peer
         else if \<not> present (e_ip peer_ep) \<or> the (e_ip peer_ep) \<in> set own then by_peer
         else
           (let ip = the (e_ip peer_ep);
                cur = (case map_of by_peer ip of
                    Some c \<Rightarrow> c
                  | None \<Rightarrow>
                      \<lparr>t_ip = ip,
                       t_label = (case map_of labels ip of
                           Some l \<Rightarrow> Some l
                         | None \<Rightarrow> if present (e_instance peer_ep) then Some (''EC2: '' @ the (e_instance peer_ep))
                                   else e_subnet peer_ep),
                       t_port = map_option show_int (f_target_port flow), t_action = None, t_count = 0, t_bytes = 0\<rparr>)
            in AList.update ip (cur\<lparr>t_count := t_count cur + 1, t_bytes := t_bytes cur + f_value flow\<rparr>) by_peer))"

text \<open>The fallback answers, or falls through; falling through it may have learnt of a failure.\<close>

datatype fallback = Answered hits_result | Fell_Through bool

definition nfm_fallback ::
    "string \<Rightarrow> nfm_calls \<Rightarrow> sg_detail \<Rightarrow> (string \<times> string) list \<Rightarrow> int \<Rightarrow> bool \<Rightarrow> fallback" where
  "nfm_fallback home nfm d labels range_sec failed =
     (if d_region d \<noteq> home then Fell_Through failed
      else case nc_status nfm of
        None \<Rightarrow> Fell_Through failed
      | Some ms \<Rightarrow> (case pick_monitor ms of
          None \<Rightarrow> Fell_Through failed
        | Some monitor \<Rightarrow>
            (let window = min range_sec nfm_max_range_sec;
                 results = map (\<lambda>c. nc_query nfm (m_name monitor) c window) nfm_categories;
                 rows = map (\<lambda>r. case r of None \<Rightarrow> [] | Some fs \<Rightarrow> fs) results
             in if None \<in> set results \<and> (\<forall>r\<in>set rows. r = []) then Fell_Through True
                else Answered
                  \<lparr>x_source = Nfm, x_note = Some Nfm_Peers_Only, x_rule_hits = null_rule_hits d, x_idle = 0,
                   x_peers = take 20 (sort_le (\<lambda>a b. t_bytes b \<le> t_bytes a)
                     (map snd (foldl (add_peer d labels) [] (concat rows)))),
                   x_range_sec = window\<rparr>)))"

definition no_result :: "int \<Rightarrow> hits_result" where
  "no_result range_sec =
     \<lparr>x_source = No_Evidence, x_note = None, x_rule_hits = [], x_idle = 0, x_peers = [], x_range_sec = range_sec\<rparr>"

text \<open>
  \<open>sgHits\<close> on the details and labels of its scope. \<open>insights region group query\<close> is the outcome of
  the log query, \<^const>\<open>None\<close> when it throws.
\<close>

definition sg_hits ::
    "string \<Rightarrow> (string \<Rightarrow> string \<Rightarrow> string \<Rightarrow> log_row list option) \<Rightarrow> nfm_calls \<Rightarrow>
     (string \<times> sg_detail) list \<Rightarrow> (string \<times> string) list \<Rightarrow> string \<Rightarrow> int \<Rightarrow> hits_result" where
  "sg_hits home insights nfm details labels sg_id range_sec =
     (case map_of details sg_id of
        None \<Rightarrow> (no_result range_sec)\<lparr>x_note := Some Sg_Not_Found\<rparr>
      | Some d \<Rightarrow>
          if d_eni_ids d = [] then
            (no_result range_sec)\<lparr>x_note := Some No_Eni, x_rule_hits := null_rule_hits d\<rparr>
          else
            (let logged = (if present (d_flow_group d)
                   then Some (insights (d_region d) (the (d_flow_group d)) (flow_query (d_eni_ids d)))
                   else None)
             in case logged of
                 Some (Some rows) \<Rightarrow> flow_result d details labels range_sec rows
               | _ \<Rightarrow>
                   (case nfm_fallback home nfm d labels range_sec (d_flow_failed d \<or> logged = Some None) of
                      Answered r \<Rightarrow> r
                    | Fell_Through failed \<Rightarrow>
                        (no_result range_sec)\<lparr>x_note := Some (if failed then Query_Failed else No_Source),
                          x_rule_hits := null_rule_hits d\<rparr>)))"

text \<open>
  The request. The analysis of the scope is answered by its cache, which leaves the store as it
  is, or runs (a running one is joined) and publishes its maps; the hits are then read from the
  store.
\<close>

definition hits_on_store ::
    "string \<Rightarrow> (string \<Rightarrow> string \<Rightarrow> string \<Rightarrow> log_row list option) \<Rightarrow> nfm_calls \<Rightarrow> sg_store \<Rightarrow> string \<Rightarrow>
     string \<Rightarrow> int \<Rightarrow> hits_result" where
  "hits_on_store home insights nfm store key sg_id range_sec =
     sg_hits home insights nfm
       (case map_of (ss_details store) key of None \<Rightarrow> [] | Some ds \<Rightarrow> ds)
       (case map_of (ss_labels store) key of None \<Rightarrow> [] | Some ls \<Rightarrow> ls) sg_id range_sec"

definition sg_hits_request ::
    "string \<Rightarrow> inventory_row list option \<Rightarrow> string list option \<Rightarrow> (string \<Rightarrow> region_calls) \<Rightarrow>
     (region_result list \<Rightarrow> region_result list) \<Rightarrow> int \<Rightarrow> sg_report cache_state \<Rightarrow> sg_store \<Rightarrow>
     (string \<Rightarrow> string \<Rightarrow> string \<Rightarrow> log_row list option) \<Rightarrow> nfm_calls \<Rightarrow> string \<Rightarrow> int \<Rightarrow>
     (hits_result \<times> sg_store) option" where
  "sg_hits_request home db scope calls completion now cache store insights nfm sg_id range_sec =
     (let resolved = fst (resolve_scope_regions home db scope);
          key = scope_cache_key resolved
      in case fst (sg_cached_call now key cache) of
           Hit _ \<Rightarrow> Some (hits_on_store home insights nfm store key sg_id range_sec, store)
         | _ \<Rightarrow> do {
             (report, store') \<leftarrow> sg_analysis home db resolved calls completion store;
             Some (hits_on_store home insights nfm store' key sg_id range_sec, store')
           })"

section \<open>Counts and evidence\<close>

definition counted :: "sg_detail \<Rightarrow> (string \<times> sg_detail) list \<Rightarrow> sg_rule \<Rightarrow> log_row \<Rightarrow> bool" where
  "counted d details rule row \<longleftrightarrow>
     inbound (d_ips d) row \<and> map_of row ''action'' = Some ''ACCEPT'' \<and> row_matches details row rule"

definition match_count :: "sg_detail \<Rightarrow> (string \<times> sg_detail) list \<Rightarrow> log_row list \<Rightarrow> sg_rule \<Rightarrow> int" where
  "match_count d details rows rule = (\<Sum>row\<leftarrow>filter (counted d details rule) rows. count_of row ''cnt'')"

lemma bump_rule: "h_rule (bump details row rh) = h_rule rh"
  by (simp add: bump_def split: option.splits)

lemma bump_hits:
  "h_hits (bump details row rh) =
     map_option (\<lambda>n. n + (if row_matches details row (h_rule rh) then count_of row ''cnt'' else 0)) (h_hits rh)"
  by (simp add: bump_def split: option.splits)

lemma flow_step_hits:
  "map (\<lambda>rh. (h_rule rh, h_hits rh)) (fst (flow_step (d_ips d) details labels st row)) =
     map (\<lambda>rh. (h_rule rh, map_option (\<lambda>n. n + (if counted d details (h_rule rh) row then count_of row ''cnt'' else 0))
       (h_hits rh))) (fst st)"
  by (cases st)
    (auto simp: flow_step_def counted_def bump_rule bump_hits option.map_comp option.map_ident comp_def split: option.splits)

lemma flow_fold_hits:
  "map (\<lambda>rh. (h_rule rh, h_hits rh)) (fst (foldl (flow_step (d_ips d) details labels) st rows)) =
     map (\<lambda>rh. (h_rule rh, map_option (\<lambda>n. n + match_count d details rows (h_rule rh)) (h_hits rh))) (fst st)"
proof (induction rows rule: rev_induct)
  case Nil
  show ?case by (simp add: match_count_def option.map_ident)
next
  case (snoc row rows)
  let ?r = "foldl (flow_step (d_ips d) details labels) st rows"
  let ?g = "\<lambda>(r, h). (r, map_option (\<lambda>n. n + (if counted d details r row then count_of row ''cnt'' else 0)) h)"
  have "map (\<lambda>rh. (h_rule rh, h_hits rh)) (fst (flow_step (d_ips d) details labels ?r row)) =
      map ?g (map (\<lambda>rh. (h_rule rh, h_hits rh)) (fst ?r))"
    by (simp add: flow_step_hits)
  also have "\<dots> = map (\<lambda>rh. (h_rule rh, map_option (\<lambda>n. n + match_count d details (rows @ [row]) (h_rule rh))
      (h_hits rh))) (fst st)"
    unfolding snoc by (simp add: match_count_def option.map_comp comp_def add.assoc)
  finally show ?case by simp
qed

lemma flow_result_hit:
  assumes "rh \<in> set (x_rule_hits (flow_result d details labels range_sec rows))" "h_hits rh = Some n"
  shows "rows \<noteq> [] \<and> h_rule rh \<in> set (ingress_rules d) \<and> rule_matchable (h_rule rh) details \<and>
    n = match_count d details rows (h_rule rh) \<and>
    (n = 0 \<longrightarrow> length rows \<noteq> 200 \<and> length (d_eni_ids d) \<le> 50)"
proof -
  let ?hits = "fst (foldl (flow_step (d_ips d) details labels) (init_rule_hits d details, []) rows)"
  have shape: "map (\<lambda>rh. (h_rule rh, h_hits rh)) ?hits =
      map (\<lambda>r. (r, if rule_matchable r details then Some (match_count d details rows r) else None)) (ingress_rules d)"
    by (simp add: flow_fold_hits init_rule_hits_def comp_def)
  have raw: "h_rule x \<in> set (ingress_rules d) \<and> rule_matchable (h_rule x) details \<and>
      m = match_count d details rows (h_rule x)" if "x \<in> set ?hits" "h_hits x = Some m" for x m
  proof -
    have "(h_rule x, h_hits x) \<in> set (map (\<lambda>rh. (h_rule rh, h_hits rh)) ?hits)" using that(1) by simp
    then show ?thesis unfolding shape using that(2) by (auto split: if_splits)
  qed
  have ne: "rows \<noteq> []"
    using assms by (auto simp: flow_result_def null_rule_hits_def)
  then consider "rh \<in> set ?hits" "length rows \<noteq> 200" "length (d_eni_ids d) \<le> 50"
    | x where "x \<in> set ?hits" "rh = demote x"
    using assms(1) by (auto simp: flow_result_def Let_def split_def split: if_splits)
  then show ?thesis
  proof cases
    case 1
    then show ?thesis using raw [OF 1(1) assms(2)] ne by blast
  next
    case (2 x)
    then have "rh = x" "n \<noteq> 0" using assms(2) by (auto simp: demote_def split: if_splits)
    then show ?thesis using raw [of x n] 2(1) assms(2) ne by blast
  qed
qed

lemma null_hits_none: "rh \<in> set (null_rule_hits d) \<Longrightarrow> h_hits rh = None"
  by (auto simp: null_rule_hits_def)

lemma fallback_no_hits:
  "nfm_fallback home nfm d labels range_sec failed = Answered r \<Longrightarrow>
   x_source r = Nfm \<and> x_rule_hits r = null_rule_hits d"
  by (auto simp: nfm_fallback_def Let_def split: if_splits option.splits)

lemma sg_hits_cases:
  assumes "map_of details sg_id = Some d" "rh \<in> set (x_rule_hits (sg_hits home insights nfm details labels sg_id range_sec))"
    "h_hits rh \<noteq> None"
  shows "\<exists>rows. present (d_flow_group d) \<and> d_eni_ids d \<noteq> [] \<and>
    insights (d_region d) (the (d_flow_group d)) (flow_query (d_eni_ids d)) = Some rows \<and>
    sg_hits home insights nfm details labels sg_id range_sec = flow_result d details labels range_sec rows"
  using assms null_hits_none [of rh d] fallback_no_hits [of home nfm d labels range_sec]
  by (auto simp: sg_hits_def no_result_def Let_def split: if_splits option.splits fallback.splits)


definition web_rule :: sg_rule where
  "web_rule = hd (to_rules \<lparr>vm_names = [], vm_cidrs = []\<rparr> [] [] [plain_perm ''sg-2''] Ingress)"

definition web_detail :: sg_detail where
  "web_detail =
     \<lparr>d_region = ''eu'', d_vpc = ''vpc-1'', d_eni_ids = [''eni-1''], d_ips = [''10.0.0.1''], d_rules = [web_rule],
      d_flow_group = Some ''logs'', d_flow_failed = False\<rparr>"

definition flow_record :: "string \<Rightarrow> string \<Rightarrow> log_row" where
  "flow_record src port =
     [(''srcaddr'', src), (''dstaddr'', ''10.0.0.1''), (''dstport'', port), (''protocol'', ''6''),
      (''action'', ''ACCEPT''), (''cnt'', ''3''), (''bytes'', ''900'')]"

definition no_nfm :: nfm_calls where
  "no_nfm = \<lparr>nc_status = None, nc_query = (\<lambda>_ _ _. None)\<rparr>"

definition web_hits :: "log_row list option \<Rightarrow> hits_result" where
  "web_hits rows = sg_hits ''eu'' (\<lambda>_ _ _. rows) no_nfm [(''sg-1'', web_detail)] [] ''sg-1'' 3600"


lemma flow_result_note: "x_note (flow_result d details labels range_sec rows) \<notin> {Some No_Source, Some Query_Failed}"
  by (auto simp: flow_result_def Let_def split_def)

lemma fallback_note:
  "nfm_fallback home nfm d labels range_sec failed = Answered r \<Longrightarrow> x_note r = Some Nfm_Peers_Only"
  by (auto simp: nfm_fallback_def Let_def split: if_splits option.splits)

lemma fallback_through:
  "nfm_fallback home nfm d labels range_sec failed = Fell_Through False \<Longrightarrow>
   \<not> failed \<and> (d_region d \<noteq> home \<or> nc_status nfm = None \<or> (\<exists>ms. nc_status nfm = Some ms \<and> pick_monitor ms = None))"
  by (auto simp: nfm_fallback_def Let_def split: if_splits option.splits)

text \<open>
  \<open>no_source\<close> is not said of a group whose flow logs could not be discovered or queried, nor
  when every monitor query failed: it means that no usable log group covers the VPC and that
  the monitor was not asked (another region, no status, no active monitor).
\<close>

theorem no_source_is_honest:
  "x_note (sg_hits home insights nfm details labels sg_id range_sec) = Some No_Source \<Longrightarrow>
   \<exists>d. map_of details sg_id = Some d \<and> \<not> d_flow_failed d \<and> \<not> present (d_flow_group d) \<and>
     (d_region d \<noteq> home \<or> nc_status nfm = None \<or> (\<exists>ms. nc_status nfm = Some ms \<and> pick_monitor ms = None))"
  using flow_result_note fallback_note fallback_through
  by (fastforce simp: sg_hits_def no_result_def Let_def split: option.splits if_splits fallback.splits)

theorem no_source_is_honest_witness:
  "\<exists>d. map_of [(''sg-1'', web_detail\<lparr>d_flow_group := None\<rparr>)] ''sg-1'' = Some d \<and> \<not> d_flow_failed d \<and>
     \<not> present (d_flow_group d) \<and> (d_region d \<noteq> ''eu'' \<or> nc_status no_nfm = None \<or>
       (\<exists>ms. nc_status no_nfm = Some ms \<and> pick_monitor ms = None))"
proof -
  have "x_note (sg_hits ''eu'' (\<lambda>_ _ _. None) no_nfm [(''sg-1'', web_detail\<lparr>d_flow_group := None\<rparr>)] [] ''sg-1'' 60) = Some No_Source"
    by code_simp
  then show ?thesis by (rule no_source_is_honest)
qed

text \<open>
  A failing monitor status is not told apart from an account without monitors: the result is
  still \<open>no_source\<close>, as the last lemma's second case allows.
\<close>

lemma failed_status_says_no_source:
  "x_note (sg_hits ''eu'' (\<lambda>_ _ _. None) (no_nfm\<lparr>nc_status := None\<rparr>)
     [(''sg-1'', web_detail\<lparr>d_flow_group := None\<rparr>)] [] ''sg-1'' 60) = Some No_Source"
  by code_simp

text \<open>
  The details of a scope are evicted after 32 other scopes, its cached report only after 500
  entries: in between, a known group is answered as not found.
\<close>

lemma evicted_scope_not_found:
  "map_option (\<lambda>(r, _). x_note r)
     (sg_hits_request ''eu'' None None calls completion 10
        (cached_resolve (Some 500) 0 ''a|*'' report (empty_cache\<lparr>c_inflight := [''a|*'']\<rparr>))
        \<lparr>ss_details = [(''a|us'', [])], ss_labels = [(''a|us'', [])]\<rparr> insights nfm sg_id range_sec)
   = Some (Some Sg_Not_Found)"
  by (simp add: sg_hits_request_def resolve_scope_regions_def scope_cache_key_def sg_cached_call_def
      cached_call_def cached_resolve_def put_evict_def empty_cache_def hits_on_store_def sg_hits_def Let_def)

end
