(* ===== verification/Flow_Sources.thy ===== *)
theory Flow_Sources
  imports Ttl_Cache Http_Body Auth
begin

text \<open>
  The flow-log sources of \<^verbatim>\<open>web/lib/sg-rules.ts\<close> (identifier validation, the table
  \<open>sg_flow_sources\<close>, validation by the Athena broker) and the handlers of
  \<^verbatim>\<open>web/app/api/sg/flow-sources/route.ts\<close>. The broker, \<open>JSON.parse\<close>, the clock and the
  administrator decision are arguments. The table is an interpretation of \<open>durable_store\<close>, a
  keyed store that never forgets.
\<close>

section \<open>Identifiers\<close>

definition lower_letter :: "char \<Rightarrow> bool" where
  "lower_letter c \<longleftrightarrow> (let k = of_char c :: nat in 97 \<le> k \<and> k \<le> 122)"

definition letter :: "char \<Rightarrow> bool" where
  "letter c \<longleftrightarrow> lower_letter c \<or> (let k = of_char c :: nat in 65 \<le> k \<and> k \<le> 90)"

definition glue_ident :: "string \<Rightarrow> bool" where
  "glue_ident s \<longleftrightarrow> (case s of
      [] \<Rightarrow> False
    | c # cs \<Rightarrow> (letter c \<or> c = CHR ''_'') \<and> length cs \<le> 127 \<and> list_all (\<lambda>d. letter d \<or> is_digit d \<or> d = CHR ''_'') cs)"

definition workgroup_name :: "string \<Rightarrow> bool" where
  "workgroup_name s \<longleftrightarrow> 1 \<le> length s \<and> length s \<le> 128
     \<and> list_all (\<lambda>d. letter d \<or> is_digit d \<or> d \<in> set ''._-'') s"

definition account_number :: "string \<Rightarrow> bool" where
  "account_number s \<longleftrightarrow> length s = 12 \<and> list_all is_digit s"

text \<open>\<open>[a-z]{2,4}(-[a-z]+)+-\d\<close>: no part of it matches a hyphen, so the hyphens split the text.\<close>

definition region_name :: "string \<Rightarrow> bool" where
  "region_name s \<longleftrightarrow> (case split_on (CHR ''-'') s of
      p # q # ps \<Rightarrow> 2 \<le> length p \<and> length p \<le> 4 \<and> list_all lower_letter p
        \<and> ps \<noteq> [] \<and> list_all (\<lambda>w. w \<noteq> [] \<and> list_all lower_letter w) (q # butlast ps)
        \<and> length (last ps) = 1 \<and> list_all is_digit (last ps)
    | _ \<Rightarrow> False)"

definition string_matching :: "(string \<Rightarrow> bool) \<Rightarrow> js \<Rightarrow> bool" where
  "string_matching p v \<longleftrightarrow> (case v of JStr s \<Rightarrow> p s | _ \<Rightarrow> False)"

definition validate_flow_source_input :: "js \<Rightarrow> string list" where
  "validate_flow_source_input i =
     (if string_matching account_number (attr i ''accountId'') then [] else [''accountId must be a 12-digit AWS account id'']) @
     (if string_matching region_name (attr i ''region'') then [] else [''region must be a valid AWS region name'']) @
     (if string_matching workgroup_name (attr i ''workgroup'') then [] else [''workgroup must match ^[A-Za-z0-9._-]{1,128}$'']) @
     (if string_matching glue_ident (attr i ''databaseName'') then [] else [''databaseName must be a valid Glue identifier'']) @
     (if string_matching glue_ident (attr i ''tableName'') then [] else [''tableName must be a valid Glue identifier''])"

record source_input =
  fi_account :: string
  fi_region :: string
  fi_workgroup :: string
  fi_database :: string
  fi_table :: string
  fi_enabled :: "bool option"

definition js_input :: "source_input \<Rightarrow> js" where
  "js_input i = JObj [(''accountId'', JStr (fi_account i)), (''region'', JStr (fi_region i)),
     (''workgroup'', JStr (fi_workgroup i)), (''databaseName'', JStr (fi_database i)),
     (''tableName'', JStr (fi_table i)),
     (''enabled'', case fi_enabled i of None \<Rightarrow> JUndef | Some b \<Rightarrow> JBool b)]"

definition well_named :: "source_input \<Rightarrow> bool" where
  "well_named i \<longleftrightarrow> account_number (fi_account i) \<and> region_name (fi_region i) \<and> workgroup_name (fi_workgroup i)
     \<and> glue_ident (fi_database i) \<and> glue_ident (fi_table i)"

lemma validate_input: "validate_flow_source_input (js_input i) = [] \<longleftrightarrow> well_named i"
  by (simp add: validate_flow_source_input_def js_input_def attr_def field_def string_matching_def well_named_def)

section \<open>Validation by the broker\<close>

datatype source_status = Valid | Invalid | Unconfigured | Failing

record source_verdict =
  va_ok :: bool
  va_status :: source_status
  va_reason :: "string option"
  va_fields :: js_object
  va_checked :: string

text \<open>
  An invocation rejects with a message, or returns the function's error and its payload. Parsing
  the payload gives a value or the parser's message.
\<close>

type_synonym invoke = "js \<Rightarrow> string + string option \<times> string option"

record broker_env =
  be_arn :: "string option"
  be_invoke :: invoke
  be_parse :: "string \<Rightarrow> string + js"
  be_now :: string

definition broker_request :: "source_input \<Rightarrow> js" where
  "broker_request i = JObj [(''action'', JStr ''validate''), (''account_id'', JStr (fi_account i)),
     (''region'', JStr (fi_region i)), (''workgroup'', JStr (fi_workgroup i)),
     (''database'', JStr (fi_database i)), (''table'', JStr (fi_table i))]"

definition resolved_keys :: "string list" where
  "resolved_keys = [''schemaFields'', ''partitionStrategy'', ''columnMap'', ''partitionKeys'',
     ''partitionKeyTypes'', ''optionalFields'', ''scopeResolution'', ''scannedUnscoped'']"

definition null_message :: "string option \<Rightarrow> string" where
  "null_message fe = ''Cannot read properties of null (reading '' @ [CHR 0x27] @
     (if present fe then ''reason'' else ''ok'') @ [CHR 0x27] @ '')''"

definition payload_text :: "string option \<Rightarrow> string" where
  "payload_text p = (case p of None \<Rightarrow> ''{}'' | Some t \<Rightarrow> if t = [] then ''{}'' else t)"

definition refused :: "source_status \<Rightarrow> string \<Rightarrow> string \<Rightarrow> source_verdict" where
  "refused st reason now = \<lparr>va_ok = False, va_status = st, va_reason = Some reason, va_fields = [], va_checked = now\<rparr>"

definition failure_reason :: "js \<Rightarrow> string option \<Rightarrow> string" where
  "failure_reason body fe =
     to_string (js_or (attr body ''reason'') (if present fe then JStr (the fe) else JStr ''validation failed''))"

definition read_verdict :: "string option \<Rightarrow> js \<Rightarrow> string \<Rightarrow> source_verdict" where
  "read_verdict fe body now =
     (if body = JNull then refused Failing (null_message fe) now
      else if present fe \<or> attr body ''ok'' \<noteq> JBool True then refused Invalid (failure_reason body fe) now
      else \<lparr>va_ok = True, va_status = Valid, va_reason = None,
            va_fields = map (\<lambda>k. (k, attr body k)) resolved_keys, va_checked = now\<rparr>)"

definition validate_via_broker :: "broker_env \<Rightarrow> source_input \<Rightarrow> source_verdict" where
  "validate_via_broker be i =
     (let errors = validate_flow_source_input (js_input i) in
      if errors \<noteq> [] then refused Invalid (join_with ''; '' errors) (be_now be)
      else if \<not> present (be_arn be) then refused Unconfigured ''sg_rule_activity_enabled is off'' (be_now be)
      else (case be_invoke be (broker_request i) of
          Inl e \<Rightarrow> refused Failing e (be_now be)
        | Inr (fe, payload) \<Rightarrow> (case be_parse be (payload_text payload) of
              Inl e \<Rightarrow> refused Failing e (be_now be)
            | Inr body \<Rightarrow> read_verdict fe body (be_now be))))"

text \<open>The broker confirmed these very identifiers.\<close>

definition confirmed :: "broker_env \<Rightarrow> source_input \<Rightarrow> bool" where
  "confirmed be i \<longleftrightarrow> well_named i \<and> present (be_arn be) \<and>
     (\<exists>fe payload body. be_invoke be (broker_request i) = Inr (fe, payload) \<and> \<not> present fe \<and>
        be_parse be (payload_text payload) = Inr body \<and> attr body ''ok'' = JBool True)"

lemma read_verdict_status:
  "va_ok (read_verdict fe body now) \<longleftrightarrow> \<not> present fe \<and> attr body ''ok'' = JBool True"
  "va_status (read_verdict fe body now) = Valid \<longleftrightarrow> va_ok (read_verdict fe body now)"
  by (auto simp: read_verdict_def refused_def attr_def)

lemma validation_confirmed:
  "va_status (validate_via_broker be i) = Valid \<longleftrightarrow> confirmed be i"
  "va_ok (validate_via_broker be i) \<longleftrightarrow> confirmed be i"
  by (auto simp: validate_via_broker_def confirmed_def Let_def validate_input read_verdict_status refused_def
      split: sum.splits)

section \<open>The table\<close>

record flow_source =
  sr_id :: int
  sr_account :: string
  sr_region :: string
  sr_workgroup :: string
  sr_database :: string
  sr_table :: string
  sr_enabled :: bool
  sr_validation :: js
  sr_created_by :: string
  sr_created_at :: int
  sr_updated_at :: int

record flow_table =
  ft_rows :: "flow_source list"
  ft_next :: int

definition sr_key :: "flow_source \<Rightarrow> string \<times> string" where
  "sr_key r = (sr_account r, sr_region r)"

text \<open>\<open>ON CONFLICT (account_id, region) DO UPDATE\<close>: identity, creator and creation time stay.\<close>

definition update_source :: "flow_source \<Rightarrow> flow_source \<Rightarrow> flow_source" where
  "update_source x r = r\<lparr>sr_workgroup := sr_workgroup x, sr_database := sr_database x, sr_table := sr_table x,
     sr_enabled := sr_enabled x, sr_validation := sr_validation x, sr_updated_at := sr_updated_at x\<rparr>"

definition put_row :: "flow_source \<Rightarrow> flow_table \<Rightarrow> flow_table" where
  "put_row x t =
     \<lparr>ft_rows = (if sr_key x \<in> sr_key ` set (ft_rows t)
        then map (\<lambda>r. if sr_key r = sr_key x then update_source x r else r) (ft_rows t)
        else ft_rows t @ [x\<lparr>sr_id := ft_next t\<rparr>]),
      ft_next = ft_next t + 1\<rparr>"

definition row_of_input :: "source_input \<Rightarrow> string \<Rightarrow> js \<Rightarrow> int \<Rightarrow> flow_source" where
  "row_of_input i sub v now =
     \<lparr>sr_id = 0, sr_account = fi_account i, sr_region = fi_region i, sr_workgroup = fi_workgroup i,
      sr_database = fi_database i, sr_table = fi_table i,
      sr_enabled = (case fi_enabled i of None \<Rightarrow> True | Some b \<Rightarrow> b),
      sr_validation = v, sr_created_by = sub, sr_created_at = now, sr_updated_at = now\<rparr>"

definition get_flow_source :: "string \<Rightarrow> string \<Rightarrow> flow_table \<Rightarrow> flow_source option" where
  "get_flow_source a r t = find (\<lambda>x. sr_account x = a \<and> sr_region x = r) (ft_rows t)"

definition upsert_flow_source :: "source_input \<Rightarrow> string \<Rightarrow> js \<Rightarrow> int \<Rightarrow> flow_table \<Rightarrow> (string + flow_source option) \<times> flow_table" where
  "upsert_flow_source i sub v now t =
     (let errors = validate_flow_source_input (js_input i) in
      if errors \<noteq> [] then (Inl (''invalid flow source: '' @ join_with ''; '' errors), t)
      else let t' = put_row (row_of_input i sub v now) t
           in (Inr (get_flow_source (fi_account i) (fi_region i) t'), t'))"

definition by_account_region :: "(string \<Rightarrow> string \<Rightarrow> bool) \<Rightarrow> flow_source \<Rightarrow> flow_source \<Rightarrow> bool" where
  "by_account_region le x y \<longleftrightarrow>
     (if sr_account x = sr_account y then le (sr_region x) (sr_region y) else le (sr_account x) (sr_account y))"

definition list_flow_sources :: "(string \<Rightarrow> string \<Rightarrow> bool) \<Rightarrow> flow_table \<Rightarrow> flow_source list" where
  "list_flow_sources le t = sort_le (by_account_region le) (ft_rows t)"

definition list_enabled_flow_sources :: "(string \<Rightarrow> string \<Rightarrow> bool) \<Rightarrow> flow_table \<Rightarrow> flow_source list" where
  "list_enabled_flow_sources le t = sort_le (by_account_region le) (filter sr_enabled (ft_rows t))"

section \<open>The handlers\<close>

datatype put_reply =
    Unauthenticated
  | Admin_Only
  | Too_Large
  | Invalid_Json
  | Invalid_Input "string list"
  | Stored "flow_source option" source_verdict
  | Failed string

record put_request =
  pr_user :: "user option"
  pr_admin :: bool
  pr_body :: "body_error + js"
  pr_broker :: broker_env
  pr_database :: "string + unit"
  pr_now :: int

definition text_field :: "js \<Rightarrow> string \<Rightarrow> string" where
  "text_field b k = to_string (coalesce (attr b k) (JStr []))"

definition input_of_body :: "js \<Rightarrow> source_input" where
  "input_of_body b =
     \<lparr>fi_account = text_field b ''accountId'', fi_region = text_field b ''region'',
      fi_workgroup = text_field b ''workgroup'', fi_database = text_field b ''databaseName'',
      fi_table = text_field b ''tableName'',
      fi_enabled = Some (if attr b ''enabled'' = JUndef then True else truthy (attr b ''enabled''))\<rparr>"

definition status_text :: "source_status \<Rightarrow> string" where
  "status_text s = (case s of Valid \<Rightarrow> ''valid'' | Invalid \<Rightarrow> ''invalid'' | Unconfigured \<Rightarrow> ''unconfigured'' | Failing \<Rightarrow> ''error'')"

definition stored_validation :: "source_verdict \<Rightarrow> js" where
  "stored_validation v = JObj
     ([(''status'', JStr (status_text (va_status v))),
       (''reason'', case va_reason v of None \<Rightarrow> JNull | Some r \<Rightarrow> JStr r)] @
      map (\<lambda>k. (k, coalesce (field (va_fields v) k) JNull)) resolved_keys @
      [(''checkedAt'', JStr (va_checked v))])"

definition put_flow_source :: "put_request \<Rightarrow> flow_table \<Rightarrow> put_reply \<times> flow_table" where
  "put_flow_source q t = (case pr_user q of
      None \<Rightarrow> (Unauthenticated, t)
    | Some u \<Rightarrow>
        if \<not> pr_admin q then (Admin_Only, t)
        else (case pr_body q of
            Inl Body_Too_Large \<Rightarrow> (Too_Large, t)
          | Inl Syntax_Error \<Rightarrow> (Invalid_Json, t)
          | Inr body \<Rightarrow>
              let i = input_of_body body; errors = validate_flow_source_input (js_input i) in
              if errors \<noteq> [] then (Invalid_Input errors, t)
              else let v = validate_via_broker (pr_broker q) i in
                (case pr_database q of
                   Inl e \<Rightarrow> (Failed e, t)
                 | Inr _ \<Rightarrow>
                     (case upsert_flow_source i (u_sub u) (stored_validation v) (pr_now q) t of
                        (Inl e, t') \<Rightarrow> (Failed e, t')
                      | (Inr row, t') \<Rightarrow> (Stored row v, t')))))"

definition get_flow_sources ::
  "(string \<Rightarrow> string \<Rightarrow> bool) \<Rightarrow> user option \<Rightarrow> string + unit \<Rightarrow> flow_table \<Rightarrow> put_reply + flow_source list" where
  "get_flow_sources le u db t = (case u of
      None \<Rightarrow> Inl Unauthenticated
    | Some _ \<Rightarrow> (case db of Inl e \<Rightarrow> Inl (Failed e) | Inr _ \<Rightarrow> Inr (list_flow_sources le t)))"

definition empty_table :: flow_table where
  "empty_table = \<lparr>ft_rows = [], ft_next = 1\<rparr>"

definition run_puts :: "put_request list \<Rightarrow> flow_table" where
  "run_puts qs = foldl (\<lambda>t q. snd (put_flow_source q t)) empty_table qs"

section \<open>What the requests leave\<close>

text \<open>The rows an accepted request writes: none, or the one of its input.\<close>

definition accepted :: "put_request \<Rightarrow> flow_source list" where
  "accepted q = (case (pr_user q, pr_body q, pr_database q) of
      (Some u, Inr body, Inr _) \<Rightarrow>
        let i = input_of_body body in
        if pr_admin q \<and> well_named i
        then [row_of_input i (u_sub u) (stored_validation (validate_via_broker (pr_broker q) i)) (pr_now q)] else []
    | _ \<Rightarrow> [])"

lemma put_flow_source_table:
  "snd (put_flow_source q t) = foldl (\<lambda>t x. put_row x t) t (accepted q)"
  by (auto simp: put_flow_source_def accepted_def upsert_flow_source_def Let_def validate_input
      split: option.splits sum.splits body_error.splits)

lemma run_puts_rows: "run_puts qs = foldl (\<lambda>t x. put_row x t) empty_table (concat (map accepted qs))"
  by (induction qs rule: rev_induct) (simp_all add: run_puts_def put_flow_source_table)

text \<open>
  A table written by upserts alone, seen through a key and the columns an upsert sets: what it
  holds under a key is what the last upsert of that key wrote.
\<close>

locale upsert_table =
  fixes lookup :: "'s \<Rightarrow> 'k \<Rightarrow> 'v option" and put :: "'x \<Rightarrow> 's \<Rightarrow> 's"
    and key_of :: "'x \<Rightarrow> 'k" and val_of :: "'x \<Rightarrow> 'v" and start :: 's
  assumes start: "lookup start k = None"
    and put: "lookup (put x s) = (lookup s)(key_of x \<mapsto> val_of x)"
begin

lemma lookup_puts: "lookup (foldl (\<lambda>s x. put x s) start xs) k = map_of (rev (map (\<lambda>x. (key_of x, val_of x)) xs)) k"
  by (induction xs rule: rev_induct) (simp_all add: start put)

end

definition config :: "flow_source \<Rightarrow> string \<times> string \<times> string \<times> bool \<times> js" where
  "config r = (sr_workgroup r, sr_database r, sr_table r, sr_enabled r, sr_validation r)"

definition source_config :: "flow_table \<Rightarrow> string \<times> string \<Rightarrow> (string \<times> string \<times> string \<times> bool \<times> js) option" where
  "source_config t k = map_option config (get_flow_source (fst k) (snd k) t)"

lemma find_sr_key: "get_flow_source (fst k) (snd k) t = find (\<lambda>r. sr_key r = k) (ft_rows t)"
  by (cases k) (auto simp: get_flow_source_def sr_key_def intro: arg_cong2 [where f = find])

lemma update_source_simps [simp]:
  "sr_key (update_source x r) = sr_key r" "config (update_source x r) = config x" "sr_id (update_source x r) = sr_id r"
  "sr_key (x\<lparr>sr_id := n\<rparr>) = sr_key x" "config (x\<lparr>sr_id := n\<rparr>) = config x"
  by (simp_all add: update_source_def sr_key_def config_def)

lemma find_update_source:
  "find (\<lambda>r. sr_key r = k) (map (\<lambda>r. if sr_key r = sr_key x then update_source x r else r) rows) =
     map_option (\<lambda>r. if sr_key r = sr_key x then update_source x r else r) (find (\<lambda>r. sr_key r = k) rows)"
  by (induction rows) auto

lemma find_snoc: "find P (xs @ [x]) = (case find P xs of None \<Rightarrow> if P x then Some x else None | Some y \<Rightarrow> Some y)"
  by (induction xs) auto

interpretation sources: upsert_table source_config put_row sr_key config empty_table
proof
  show "source_config empty_table k = None" for k
    by (simp add: source_config_def find_sr_key empty_table_def)
  show "source_config (put_row x t) = (source_config t)(sr_key x \<mapsto> config x)" for x t
  proof
    fix k
    show "source_config (put_row x t) k = ((source_config t)(sr_key x \<mapsto> config x)) k"
    proof (cases "sr_key x \<in> sr_key ` set (ft_rows t)")
      case True
      then have "find (\<lambda>r. sr_key r = sr_key x) (ft_rows t) \<noteq> None" by (auto simp: find_None_iff)
      then obtain y where y: "find (\<lambda>r. sr_key r = sr_key x) (ft_rows t) = Some y" by auto
      then have "sr_key y = sr_key x" by (auto simp: find_Some_iff)
      with y have "source_config (put_row x t) (sr_key x) = Some (config x)"
        by (simp add: source_config_def find_sr_key put_row_def True find_update_source)
      moreover have "source_config (put_row x t) k = source_config t k" if "k \<noteq> sr_key x"
      proof (cases "find (\<lambda>r. sr_key r = k) (ft_rows t)")
        case (Some y)
        then have "sr_key y = k" by (auto simp: find_Some_iff)
        with that Some show ?thesis by (simp add: source_config_def find_sr_key put_row_def True find_update_source)
      qed (simp add: source_config_def find_sr_key put_row_def True find_update_source)
      ultimately show ?thesis by simp
    next
      case False
      then have "find (\<lambda>r. sr_key r = sr_key x) (ft_rows t) = None" 
        by (intro find_None_iff [THEN iffD2]) (auto simp: image_iff)
      with False show ?thesis
        by (simp add: source_config_def find_sr_key put_row_def find_snoc split: option.split)
    qed
  qed
qed

text \<open>
  After any sequence of requests the configured source of an account and region is exactly
  what the last accepted request for it wrote - its workgroup, database, table, switch and
  validation result - and absent if there was none. Accepted are the requests of administrators
  whose identifiers all pass and whose write succeeds; a failed validation is stored, not refused.
\<close>

theorem source_is_last_accepted:
  "map_option config (get_flow_source a r (run_puts qs)) =
     map_of (rev (map (\<lambda>x. (sr_key x, config x)) (concat (map accepted qs)))) (a, r)"
  using sources.lookup_puts [of "concat (map accepted qs)" "(a, r)"] by (simp add: run_puts_rows source_config_def)

section \<open>What a stored source may claim\<close>

lemma put_row_distinct: "distinct (map sr_key (ft_rows t)) \<Longrightarrow> distinct (map sr_key (ft_rows (put_row x t)))"
  by (auto simp: put_row_def comp_def if_distrib [of sr_key] cong: if_cong)

lemma put_rows_distinct: "distinct (map sr_key (ft_rows (foldl (\<lambda>t x. put_row x t) empty_table xs)))"
  by (induction xs rule: rev_induct) (simp_all add: empty_table_def put_row_distinct)

lemma find_key_of: "distinct (map f xs) \<Longrightarrow> x \<in> set xs \<Longrightarrow> find (\<lambda>y. f y = f x) xs = Some x"
  by (induction xs) (auto simp: image_iff)

text \<open>Every row is, in the columns an upsert sets, one that an accepted request wrote.\<close>

lemma row_from_request:
  assumes "r \<in> set (ft_rows (run_puts qs))"
  shows "\<exists>q\<in>set qs. \<exists>x\<in>set (accepted q). sr_key x = sr_key r \<and> config x = config r"
proof -
  have "source_config (run_puts qs) (sr_key r) = Some (config r)"
    using find_key_of [of sr_key "ft_rows (run_puts qs)" r] assms put_rows_distinct
    by (simp add: source_config_def find_sr_key run_puts_rows)
  then have "map_of (rev (map (\<lambda>x. (sr_key x, config x)) (concat (map accepted qs)))) (sr_key r) = Some (config r)"
    unfolding run_puts_rows sources.lookup_puts .
  from map_of_SomeD [OF this] have "(sr_key r, config r) \<in> set (map (\<lambda>x. (sr_key x, config x)) (concat (map accepted qs)))"
    by simp
  then obtain q x where "q \<in> set qs" "x \<in> set (accepted q)" "sr_key r = sr_key x" "config r = config x" by auto
  then show ?thesis by metis
qed

definition identifiers :: "flow_source \<Rightarrow> source_input" where
  "identifiers r = \<lparr>fi_account = sr_account r, fi_region = sr_region r, fi_workgroup = sr_workgroup r,
     fi_database = sr_database r, fi_table = sr_table r, fi_enabled = None\<rparr>"

lemma switch_irrelevant:
  "well_named (i\<lparr>fi_enabled := b\<rparr>) = well_named i" "confirmed be (i\<lparr>fi_enabled := b\<rparr>) = confirmed be i"
  by (simp_all add: well_named_def confirmed_def broker_request_def)

lemma stored_status: "attr (stored_validation v) ''status'' = JStr (status_text (va_status v))"
  by (simp add: stored_validation_def attr_def field_def)

lemma accepted_row:
  assumes "x \<in> set (accepted q)"
  shows "pr_admin q \<and> well_named (identifiers x) \<and>
    (attr (sr_validation x) ''status'' = JStr ''valid'' \<longrightarrow> confirmed (pr_broker q) (identifiers x))"
proof -
  obtain u body db where b: "pr_user q = Some u" "pr_body q = Inr body" "pr_database q = Inr db"
    using assms by (cases "pr_user q"; cases "pr_body q"; cases "pr_database q") (simp_all add: accepted_def)
  with assms have a: "pr_admin q" "well_named (input_of_body body)"
    "x = row_of_input (input_of_body body) (u_sub u)
       (stored_validation (validate_via_broker (pr_broker q) (input_of_body body))) (pr_now q)"
    by (simp_all add: accepted_def Let_def split: if_splits)
  have "identifiers x = (input_of_body body)\<lparr>fi_enabled := None\<rparr>"
    by (simp add: a(3) identifiers_def row_of_input_def)
  moreover have "va_status (validate_via_broker (pr_broker q) (input_of_body body)) = Valid"
    if "attr (sr_validation x) ''status'' = JStr ''valid''"
    using that by (simp add: a(3) row_of_input_def stored_status status_text_def split: source_status.splits)
  ultimately show ?thesis using a(1,2) by (simp add: switch_irrelevant validation_confirmed)
qed

text \<open>
  Whatever is sent, a stored flow-log source has identifiers of the strict alphabets, and one
  marked \<open>valid\<close> was confirmed by the broker, in the request of an administrator, for exactly the
  account, region, workgroup, database and table the row holds: neither an unreachable broker,
  an error of the function, a malformed answer nor a later change of an identifier leaves a
  source marked valid.
\<close>

theorem valid_source_was_confirmed:
  assumes "r \<in> set (ft_rows (run_puts qs))"
  shows "well_named (identifiers r) \<and>
    (attr (sr_validation r) ''status'' = JStr ''valid'' \<longrightarrow>
       (\<exists>q\<in>set qs. pr_admin q \<and> confirmed (pr_broker q) (identifiers r)))"
proof -
  obtain q x where q: "q \<in> set qs" "x \<in> set (accepted q)" "sr_key x = sr_key r" "config x = config r"
    using row_from_request [OF assms] by blast
  then have "identifiers x = identifiers r" "sr_validation x = sr_validation r"
    by (simp_all add: identifiers_def sr_key_def config_def)
  with accepted_row [OF q(2)] q(1) show ?thesis by auto
qed

definition demo_invoke :: invoke where
  "demo_invoke v = (if attr v ''table'' = JStr ''flows'' then Inr (None, Some ''yes'') else Inl ''denied'')"

definition demo_broker :: broker_env where
  "demo_broker = \<lparr>be_arn = Some ''arn'', be_invoke = demo_invoke,
     be_parse = (\<lambda>s. if s = ''yes'' then Inr (JObj [(''ok'', JBool True)]) else Inl ''bad''), be_now = ''t''\<rparr>"

definition demo_put :: "string \<Rightarrow> put_request" where
  "demo_put tbl = \<lparr>pr_user = Some \<lparr>u_sub = ''s'', u_email = None, u_groups = None, u_iat = None\<rparr>, pr_admin = True,
     pr_body = Inr (JObj [(''accountId'', JStr ''123456789012''), (''region'', JStr ''ap-northeast-2''),
       (''workgroup'', JStr ''primary''), (''databaseName'', JStr ''vpc''), (''tableName'', JStr tbl)]),
     pr_broker = demo_broker, pr_database = Inr (), pr_now = 0\<rparr>"

definition demo_sources :: flow_table where
  "demo_sources = run_puts [demo_put ''flows'']"

theorem valid_source_was_confirmed_witness:
  "confirmed demo_broker (identifiers (hd (ft_rows demo_sources)))"
proof -
  have "hd (ft_rows demo_sources) \<in> set (ft_rows (run_puts [demo_put ''flows'']))"
    "attr (sr_validation (hd (ft_rows demo_sources))) ''status'' = JStr ''valid''" by code_simp+
  from valid_source_was_confirmed [OF this(1)] this(2) show ?thesis by (simp add: demo_put_def)
qed

text \<open>Pointed at another table the broker refuses, and the source is no longer marked valid.\<close>

lemma moved_source_is_invalid:
  "map (\<lambda>r. (sr_id r, attr (sr_validation r) ''status''))
     (ft_rows (run_puts [demo_put ''flows'', demo_put ''other''])) = [(1, JStr ''error'')]"
  by code_simp

end
