(* ===== verification/Sg_Rules.thy ===== *)
theory Sg_Rules
  imports Flow_Sources Complex_Main
begin

text \<open>
  The rule inventory of \<^verbatim>\<open>web/lib/sg-rules.ts\<close> (\<open>listRules\<close> with its joins, filters, paging and
  classification, and the CSV export) and the handler \<^verbatim>\<open>web/app/api/sg/rules/route.ts\<close>. The
  collation of \<open>ORDER BY\<close>, the driver's value for a \<open>numeric\<close> column, the current date and the
  printing of a timestamp are arguments.
\<close>

section \<open>Tables\<close>

record rule_inventory_row =
  iv_account :: string
  iv_region :: string
  iv_rule :: string
  iv_group :: string
  iv_vpc :: "string option"
  iv_egress :: bool
  iv_protocol :: string
  iv_from :: "int option"
  iv_to :: "int option"
  iv_peer_kind :: string
  iv_peer :: string
  iv_description :: "string option"
  iv_active :: bool

text \<open>One day of one rule; the two flags of \<open>coverage\<close> are absent or booleans.\<close>

record activity_row =
  av_account :: string
  av_region :: string
  av_rule :: string
  av_day :: int
  av_compatible :: int
  av_overlap :: int
  av_last :: "int option"
  av_unassessable :: "bool option"
  av_crossing :: "bool option"

record rules_db =
  db_inventory :: "rule_inventory_row list"
  db_activity :: "activity_row list"
  db_sources :: flow_table
  db_today :: int

text \<open>
  What the driver hands over for a column: a number, or the text of one. The counts are sums of
  \<open>bigint\<close> columns and so of type \<open>numeric\<close>.
\<close>

datatype column = Num int | Text string

definition read_int :: "string \<Rightarrow> int" where
  "read_int s = (case s of
      [] \<Rightarrow> 0
    | c # cs \<Rightarrow> if c = CHR ''-'' then - int (nat_of_digits cs) else int (nat_of_digits s))"

definition col_number :: "column \<Rightarrow> int" where
  "col_number c = (case c of Num n \<Rightarrow> n | Text s \<Rightarrow> read_int s)"

text \<open>A driver whose numbers read back, whatever their representation.\<close>

definition faithful :: "(int \<Rightarrow> column) \<Rightarrow> bool" where
  "faithful numeric \<longleftrightarrow> (\<forall>n. col_number (numeric n) = n)"

definition as_text :: "int \<Rightarrow> column" where
  "as_text n = Text (show_int n)"

lemma read_show_nat: "read_int (show_nat n) = int n"
proof (cases "show_nat n")
  case (Cons c cs)
  then have "is_digit c" using show_nat_digits by (metis list.set_intros(1))
  then have "c \<noteq> CHR ''-''" by (auto simp: is_digit_def)
  then show ?thesis using nat_of_show_nat [of n] Cons by (simp add: read_int_def)
qed simp

lemma faithful_text: "faithful as_text"
  by (auto simp: faithful_def as_text_def col_number_def show_int_def read_show_nat)
    (simp add: read_int_def nat_of_show_nat)

lemma faithful_num: "faithful Num"
  by (simp add: faithful_def col_number_def)

section \<open>The filter\<close>

datatype rule_status = Observed_Compatible | Overlapping | No_Observed_Evidence | Unassessable | Not_Configured

record rule_filter =
  fl_account :: "string option"
  fl_region :: "string option"
  fl_vpc :: "string option"
  fl_sg :: "string option"
  fl_egress :: "bool option"
  fl_status :: "rule_status option"
  fl_text :: "string option"
  fl_days :: "int option"
  fl_page :: "rat option"
  fl_page_size :: "rat option"

text \<open>\<open>LIKE\<close> with its two wildcards and the escape character.\<close>

fun like :: "string \<Rightarrow> string \<Rightarrow> bool" where
  "like [] s = (s = [])"
| "like (c # p) s =
     (if c = CHR ''%'' then (if like p s then True else case s of [] \<Rightarrow> False | _ # t \<Rightarrow> like (c # p) t)
      else case s of
          [] \<Rightarrow> False
        | x # t \<Rightarrow>
            (case p of
               [] \<Rightarrow> (c = CHR ''_'' \<or> c = x) \<and> t = []
             | d # q \<Rightarrow>
                 if c = CHR 0x5C then (if d = x then like q t else False)
                 else if c = CHR ''_'' \<or> c = x then like p t else False))"

definition ilike :: "string \<Rightarrow> string option \<Rightarrow> bool" where
  "ilike p s = (case s of None \<Rightarrow> False | Some t \<Rightarrow> like (lower p) (lower t))"

definition equals_if :: "string option \<Rightarrow> string option \<Rightarrow> bool" where
  "equals_if f v \<longleftrightarrow> present f \<longrightarrow> v = f"

definition matches_text :: "string option \<Rightarrow> rule_inventory_row \<Rightarrow> bool" where
  "matches_text f r \<longleftrightarrow> (present f \<longrightarrow>
     ilike (''%'' @ the f @ ''%'') (Some (iv_rule r)) \<or> ilike (''%'' @ the f @ ''%'') (iv_description r))"

definition selected :: "rule_filter \<Rightarrow> rule_inventory_row \<Rightarrow> bool" where
  "selected f r \<longleftrightarrow> iv_active r
     \<and> equals_if (fl_account f) (Some (iv_account r)) \<and> equals_if (fl_region f) (Some (iv_region r))
     \<and> equals_if (fl_vpc f) (iv_vpc r) \<and> equals_if (fl_sg f) (Some (iv_group r))
     \<and> (fl_egress f = None \<or> fl_egress f = Some (iv_egress r))
     \<and> matches_text (fl_text f) r"

definition window_days :: "rule_filter \<Rightarrow> int" where
  "window_days f = (case fl_days f of None \<Rightarrow> 90 | Some d \<Rightarrow> if d \<in> {30, 90, 180} then d else 90)"

definition page_of :: "rule_filter \<Rightarrow> nat" where
  "page_of f = nat (max 1 (case fl_page f of None \<Rightarrow> 1 | Some p \<Rightarrow> \<lfloor>p\<rfloor>))"

definition page_size_of :: "rule_filter \<Rightarrow> nat" where
  "page_size_of f = nat (min 500 (max 1 (case fl_page_size f of None \<Rightarrow> 50 | Some p \<Rightarrow> \<lfloor>p\<rfloor>)))"

definition row_before :: "(string \<Rightarrow> string \<Rightarrow> bool) \<Rightarrow> rule_inventory_row \<Rightarrow> rule_inventory_row \<Rightarrow> bool" where
  "row_before le x y \<longleftrightarrow>
     (if iv_account x \<noteq> iv_account y then le (iv_account x) (iv_account y)
      else if iv_region x \<noteq> iv_region y then le (iv_region x) (iv_region y)
      else le (iv_rule x) (iv_rule y))"

section \<open>The join and the classification\<close>

definition activity_of :: "rules_db \<Rightarrow> int \<Rightarrow> rule_inventory_row \<Rightarrow> activity_row list" where
  "activity_of db days r = filter (\<lambda>a. db_today db - days \<le> av_day a \<and> av_account a = iv_account r
     \<and> av_region a = iv_region r \<and> av_rule a = iv_rule r) (db_activity db)"

definition any_unassessable :: "activity_row list \<Rightarrow> bool" where
  "any_unassessable as' \<longleftrightarrow> (\<exists>a\<in>set as'. av_unassessable a = Some True \<or> av_crossing a = Some True)"

definition last_observed :: "activity_row list \<Rightarrow> int option" where
  "last_observed as' = (case concat (map (\<lambda>a. case av_last a of None \<Rightarrow> [] | Some t \<Rightarrow> [t]) as') of
      [] \<Rightarrow> None | t # ts \<Rightarrow> Some (fold max ts t))"

definition has_source :: "rules_db \<Rightarrow> rule_inventory_row \<Rightarrow> bool" where
  "has_source db r \<longleftrightarrow> (case get_flow_source (iv_account r) (iv_region r) (db_sources db) of
      None \<Rightarrow> False | Some s \<Rightarrow> sr_enabled s)"

definition classify :: "bool \<Rightarrow> bool \<Rightarrow> column \<Rightarrow> column \<Rightarrow> rule_status" where
  "classify source unassessable compatible overlap =
     (if \<not> source then Not_Configured
      else if unassessable \<and> compatible = Num 0 then Unassessable
      else if 0 < col_number overlap then Overlapping
      else if 0 < col_number compatible then Observed_Compatible
      else No_Observed_Evidence)"

record rule_row =
  rr_account :: string
  rr_region :: string
  rr_rule :: string
  rr_group :: string
  rr_vpc :: "string option"
  rr_egress :: bool
  rr_protocol :: string
  rr_from :: "int option"
  rr_to :: "int option"
  rr_peer_kind :: string
  rr_peer :: string
  rr_description :: "string option"
  rr_compatible :: int
  rr_overlap :: int
  rr_last :: "int option"
  rr_status :: rule_status

definition rule_row_of :: "(int \<Rightarrow> column) \<Rightarrow> rules_db \<Rightarrow> int \<Rightarrow> rule_inventory_row \<Rightarrow> rule_row" where
  "rule_row_of numeric db days r =
     (let as' = activity_of db days r;
          compatible = numeric (sum_list (map av_compatible as'));
          overlap = numeric (sum_list (map av_overlap as')) in
      \<lparr>rr_account = iv_account r, rr_region = iv_region r, rr_rule = iv_rule r, rr_group = iv_group r,
       rr_vpc = iv_vpc r, rr_egress = iv_egress r, rr_protocol = iv_protocol r, rr_from = iv_from r, rr_to = iv_to r,
       rr_peer_kind = iv_peer_kind r, rr_peer = iv_peer r, rr_description = iv_description r,
       rr_compatible = col_number compatible, rr_overlap = col_number overlap, rr_last = last_observed as',
       rr_status = classify (has_source db r) (any_unassessable as') compatible overlap\<rparr>)"

definition matching_rules :: "(string \<Rightarrow> string \<Rightarrow> bool) \<Rightarrow> rule_filter \<Rightarrow> rules_db \<Rightarrow> rule_inventory_row list" where
  "matching_rules le f db = sort_le (row_before le) (filter (selected f) (db_inventory db))"

definition page_rows :: "(string \<Rightarrow> string \<Rightarrow> bool) \<Rightarrow> (int \<Rightarrow> column) \<Rightarrow> rule_filter \<Rightarrow> rules_db \<Rightarrow> rule_row list" where
  "page_rows le numeric f db =
     map (rule_row_of numeric db (window_days f))
       (take (page_size_of f) (drop ((page_of f - 1) * page_size_of f) (matching_rules le f db)))"

definition list_rules ::
  "(string \<Rightarrow> string \<Rightarrow> bool) \<Rightarrow> (int \<Rightarrow> column) \<Rightarrow> rule_filter \<Rightarrow> rules_db \<Rightarrow> rule_row list \<times> nat" where
  "list_rules le numeric f db =
     (let rows = page_rows le numeric f db in
      (case fl_status f of None \<Rightarrow> rows | Some s \<Rightarrow> filter (\<lambda>r. rr_status r = s) rows,
       length (filter (selected f) (db_inventory db))))"

section \<open>The CSV export\<close>

definition DQUOTE :: char where "DQUOTE = CHR 0x22"

definition NEWLINE :: char where "NEWLINE = CHR 0x0A"

definition csv_header :: "string list" where
  "csv_header = [''account_id'', ''region'', ''vpc_id'', ''rule_id'', ''group_id'', ''direction'', ''protocol'',
     ''from_port'', ''to_port'', ''peer_kind'', ''peer_value'', ''status'', ''compatible_match_count'',
     ''overlap_match_count'', ''last_observed_at'']"

definition rule_status_name :: "rule_status \<Rightarrow> string" where
  "rule_status_name s = (case s of Observed_Compatible \<Rightarrow> ''observed_compatible'' | Overlapping \<Rightarrow> ''overlapping''
     | No_Observed_Evidence \<Rightarrow> ''no_observed_evidence'' | Unassessable \<Rightarrow> ''unassessable''
     | Not_Configured \<Rightarrow> ''not_configured'')"

definition esc :: "string \<Rightarrow> string" where
  "esc s = (if DQUOTE \<in> set s \<or> CHR '','' \<in> set s \<or> NEWLINE \<in> set s
     then DQUOTE # concat (map (\<lambda>c. if c = DQUOTE then [DQUOTE, DQUOTE] else [c]) s) @ [DQUOTE] else s)"

definition opt_text :: "('a \<Rightarrow> string) \<Rightarrow> 'a option \<Rightarrow> string" where
  "opt_text f v = (case v of None \<Rightarrow> [] | Some x \<Rightarrow> f x)"

definition rule_fields :: "(int \<Rightarrow> string) \<Rightarrow> rule_row \<Rightarrow> string list" where
  "rule_fields show_time r =
     [rr_account r, rr_region r, opt_text (\<lambda>s. s) (rr_vpc r), rr_rule r, rr_group r,
      if rr_egress r then ''egress'' else ''ingress'', rr_protocol r, opt_text show_int (rr_from r),
      opt_text show_int (rr_to r), rr_peer_kind r, rr_peer r, rule_status_name (rr_status r),
      show_int (rr_compatible r), show_int (rr_overlap r), opt_text show_time (rr_last r)]"

definition csv_line :: "string list \<Rightarrow> string" where
  "csv_line fs = join_with '','' (map esc fs)"

definition rules_to_csv :: "(int \<Rightarrow> string) \<Rightarrow> rule_row list \<Rightarrow> string" where
  "rules_to_csv show_time rows =
     join_with [NEWLINE] (join_with '','' csv_header # map (\<lambda>r. csv_line (rule_fields show_time r)) rows)"

text \<open>
  A reader of the format, the specification the export is measured against: an automaton over the
  characters, with a quoted field ended by a quote that is not doubled.
\<close>

datatype csv_mode = Fresh | Plain | Quoted | Quote_Seen

record csv_reader =
  cr_rows :: "string list list"
  cr_fields :: "string list"
  cr_cur :: string
  cr_mode :: csv_mode

definition csv_step :: "csv_reader \<Rightarrow> char \<Rightarrow> csv_reader" where
  "csv_step r c =
     (if cr_mode r = Quoted then
        (if c = DQUOTE then r\<lparr>cr_mode := Quote_Seen\<rparr> else r\<lparr>cr_cur := cr_cur r @ [c]\<rparr>)
      else if c = DQUOTE \<and> cr_mode r = Fresh then r\<lparr>cr_mode := Quoted\<rparr>
      else if c = DQUOTE \<and> cr_mode r = Quote_Seen then r\<lparr>cr_cur := cr_cur r @ [c], cr_mode := Quoted\<rparr>
      else if c = CHR '','' then r\<lparr>cr_fields := cr_fields r @ [cr_cur r], cr_cur := [], cr_mode := Fresh\<rparr>
      else if c = NEWLINE then
        r\<lparr>cr_rows := cr_rows r @ [cr_fields r @ [cr_cur r]], cr_fields := [], cr_cur := [], cr_mode := Fresh\<rparr>
      else r\<lparr>cr_cur := cr_cur r @ [c], cr_mode := Plain\<rparr>)"

definition read_csv :: "string \<Rightarrow> string list list" where
  "read_csv s =
     (case foldl csv_step \<lparr>cr_rows = [], cr_fields = [], cr_cur = [], cr_mode = Fresh\<rparr> s of
        r \<Rightarrow> cr_rows r @ [cr_fields r @ [cr_cur r]])"

lemmas csv_chars = DQUOTE_def NEWLINE_def

lemma read_plain_field:
  assumes "DQUOTE \<notin> set s" "CHR '','' \<notin> set s" "NEWLINE \<notin> set s" "cr_mode r \<noteq> Quoted"
  shows "foldl csv_step r s = (if s = [] then r else r\<lparr>cr_cur := cr_cur r @ s, cr_mode := Plain\<rparr>)"
  using assms by (induction s arbitrary: r) (auto simp: csv_step_def)

lemma read_doubled:
  "foldl csv_step (r\<lparr>cr_mode := Quoted\<rparr>) (concat (map (\<lambda>c. if c = DQUOTE then [DQUOTE, DQUOTE] else [c]) s)) =
     r\<lparr>cr_cur := cr_cur r @ s, cr_mode := Quoted\<rparr>"
proof (induction s arbitrary: r)
  case (Cons c s)
  have "foldl csv_step (r\<lparr>cr_mode := Quoted\<rparr>) (if c = DQUOTE then [DQUOTE, DQUOTE] else [c]) =
      (r\<lparr>cr_cur := cr_cur r @ [c]\<rparr>)\<lparr>cr_mode := Quoted\<rparr>"
    by (simp add: csv_step_def)
  with Cons [of "r\<lparr>cr_cur := cr_cur r @ [c]\<rparr>"] show ?case by simp
qed simp

text \<open>A field just begun, and an escaped one just read.\<close>

definition reading :: "string list list \<Rightarrow> string list \<Rightarrow> csv_reader \<Rightarrow> bool" where
  "reading rows fs r \<longleftrightarrow> r = \<lparr>cr_rows = rows, cr_fields = fs, cr_cur = [], cr_mode = Fresh\<rparr>"

definition has_read :: "string list list \<Rightarrow> string list \<Rightarrow> string \<Rightarrow> csv_reader \<Rightarrow> bool" where
  "has_read rows fs s r \<longleftrightarrow> cr_rows r = rows \<and> cr_fields r = fs \<and> cr_cur r = s \<and> cr_mode r \<noteq> Quoted"

lemma read_esc: "reading rows fs r \<Longrightarrow> has_read rows fs s (foldl csv_step r (esc s))"
proof (cases "DQUOTE \<in> set s \<or> CHR '','' \<in> set s \<or> NEWLINE \<in> set s")
  case True
  assume r: "reading rows fs r"
  then have "foldl csv_step r (esc s) = csv_step (r\<lparr>cr_cur := cr_cur r @ s, cr_mode := Quoted\<rparr>) DQUOTE"
    using read_doubled [of r s] True by (simp add: esc_def csv_step_def reading_def)
  with r show ?thesis by (simp add: csv_step_def has_read_def reading_def)
next
  case False
  assume "reading rows fs r"
  with False read_plain_field [of s r] show ?thesis by (auto simp: esc_def has_read_def reading_def)
qed

lemma read_separator:
  assumes "has_read rows fs s r"
  shows "reading rows (fs @ [s]) (csv_step r (CHR '',''))"
    and "reading (rows @ [fs @ [s]]) [] (csv_step r NEWLINE)"
  using assms by (cases r; auto simp: csv_step_def has_read_def reading_def csv_chars)+

lemma read_line:
  assumes "gs \<noteq> []" "reading rows fs r"
  shows "has_read rows (fs @ butlast gs) (last gs) (foldl csv_step r (csv_line gs))"
  using assms
proof (induction gs arbitrary: fs r)
  case (Cons f gs)
  note f = read_esc [OF Cons.prems(2), of f]
  show ?case
  proof (cases "gs = []")
    case True
    with f show ?thesis by (simp add: csv_line_def)
  next
    case False
    then have "csv_line (f # gs) = esc f @ '','' @ csv_line gs"
      by (cases gs) (simp_all add: csv_line_def)
    then show ?thesis using Cons.IH [OF False read_separator(1) [OF f]] False by simp
  qed
qed simp

lemma read_lines:
  assumes "ls \<noteq> []" "\<forall>l\<in>set ls. l \<noteq> []" "reading rows [] r"
  shows "has_read (rows @ butlast ls) (butlast (last ls)) (last (last ls))
    (foldl csv_step r (join_with [NEWLINE] (map csv_line ls)))"
  using assms
proof (induction ls arbitrary: rows r)
  case (Cons l ls)
  then have l: "has_read rows (butlast l) (last l) (foldl csv_step r (csv_line l))"
    using read_line [of l rows "[]" r] by simp
  show ?case
  proof (cases "ls = []")
    case True
    with l show ?thesis by simp
  next
    case False
    then have j: "join_with [NEWLINE] (map csv_line (l # ls)) = csv_line l @ [NEWLINE] @ join_with [NEWLINE] (map csv_line ls)"
      by (cases ls) simp_all
    have "reading (rows @ [l]) [] (csv_step (foldl csv_step r (csv_line l)) NEWLINE)"
      using read_separator(2) [OF l] Cons.prems(2) by simp
    from Cons.IH [OF False _ this] Cons.prems(2) False show ?thesis by (simp add: j del: list.map)
  qed
qed simp

lemma read_csv_lines:
  assumes "ls \<noteq> []" "\<forall>l\<in>set ls. l \<noteq> []"
  shows "read_csv (join_with [NEWLINE] (map csv_line ls)) = ls"
  using read_lines [OF assms, of "[]" "\<lparr>cr_rows = [], cr_fields = [], cr_cur = [], cr_mode = Fresh\<rparr>"] assms
  by (simp add: read_csv_def has_read_def reading_def)

text \<open>
  C31. Reading the export back gives the header and every row, field by field, whatever the rule
  descriptions, peers and names contain: commas, quotes and line breaks in them are never taken
  for the structure of the file.
\<close>

theorem csv_export_roundtrip:
  "read_csv (rules_to_csv show_time rows) = csv_header # map (rule_fields show_time) rows"
proof -
  have "csv_line csv_header = join_with '','' csv_header"
    by (simp add: csv_line_def csv_header_def esc_def csv_chars)
  then have "rules_to_csv show_time rows = join_with [NEWLINE] (map csv_line (csv_header # map (rule_fields show_time) rows))"
    by (simp add: rules_to_csv_def comp_def)
  moreover have "\<forall>l\<in>set (csv_header # map (rule_fields show_time) rows). l \<noteq> []"
    by (auto simp: csv_header_def rule_fields_def)
  ultimately show ?thesis using read_csv_lines by (metis list.distinct(1))
qed

section \<open>Paging\<close>

lemma slice_pages:
  "concat (map (\<lambda>k. take n (drop (k * n) xs)) [0..<m]) = take (m * n) xs"
proof (induction m)
  case (Suc m)
  then have "concat (map (\<lambda>k. take n (drop (k * n) xs)) [0..<Suc m]) = take (m * n) xs @ take n (drop (m * n) xs)"
    by simp
  also have "\<dots> = take (m * n + n) xs" by (simp add: take_add)
  finally show ?case by (simp add: add.commute)
qed simp

lemma page_of_page: "page_of (f\<lparr>fl_page := Some (of_nat (Suc k))\<rparr>) = Suc k"
  by (simp add: page_of_def floor_of_nat)

lemma selected_page [simp]: "selected (f\<lparr>fl_page := p\<rparr>) = selected f"
  by (simp add: selected_def fun_eq_iff)

lemma page_filter [simp]:
  "page_size_of (f\<lparr>fl_page := p\<rparr>) = page_size_of f" "window_days (f\<lparr>fl_page := p\<rparr>) = window_days f"
  "matching_rules le (f\<lparr>fl_page := p\<rparr>) db = matching_rules le f db"
  by (simp_all add: page_size_of_def window_days_def matching_rules_def)

lemma listed_in_page: "r \<in> set (fst (list_rules le numeric f db)) \<Longrightarrow> r \<in> set (page_rows le numeric f db)"
  by (auto simp: list_rules_def Let_def split: option.splits)

text \<open>
  Without a status filter the pages are a partition: read in order, enough of them give every
  active rule the filter selects exactly once, sorted, however many pages that takes and whatever
  size was asked for; the total reported with each page is their number.
\<close>

theorem pages_partition_rules:
  assumes "fl_status f = None" "snd (list_rules le numeric f db) \<le> m * page_size_of f"
  shows "concat (map (\<lambda>k. fst (list_rules le numeric (f\<lparr>fl_page := Some (of_nat (Suc k))\<rparr>) db)) [0..<m]) =
      map (rule_row_of numeric db (window_days f)) (matching_rules le f db)
    \<and> mset (matching_rules le f db) = mset (filter (selected f) (db_inventory db))
    \<and> snd (list_rules le numeric f db) = length (matching_rules le f db)"
proof -
  let ?n = "page_size_of f" and ?M = "matching_rules le f db"
  have "concat (map (\<lambda>k. fst (list_rules le numeric (f\<lparr>fl_page := Some (of_nat (Suc k))\<rparr>) db)) [0..<m]) =
      map (rule_row_of numeric db (window_days f)) (concat (map (\<lambda>k. take ?n (drop (k * ?n) ?M)) [0..<m]))"
    using assms(1) page_of_page [where f = f]
    by (simp add: list_rules_def page_rows_def map_concat comp_def Let_def del: of_nat_Suc)
  also have "\<dots> = map (rule_row_of numeric db (window_days f)) ?M"
    using assms(2) by (simp add: slice_pages list_rules_def matching_rules_def Let_def)
  finally show ?thesis by (simp add: matching_rules_def list_rules_def Let_def)
qed

section \<open>What a status claims\<close>

lemma sum_pos_member: "0 < sum_list (map f xs) \<Longrightarrow> \<exists>x\<in>set xs. 0 < f x" for f :: "'a \<Rightarrow> int"
  by (induction xs) (auto, fastforce)

text \<open>
  A status of the listing never claims more than the tables hold: a rule shown with observed
  or overlapping traffic has an enabled flow-log source and a day within the chosen window with a
  positive count of its own, and a rule shown as not configured has no enabled source. This holds
  whichever way the driver represents the sums.
\<close>

theorem observed_status_has_evidence:
  assumes "faithful numeric" "r \<in> set (fst (list_rules le numeric f db))"
  shows "(\<exists>i\<in>set (db_inventory db). selected f i \<and> rr_rule r = iv_rule i \<and>
      (rr_status r = Not_Configured \<longleftrightarrow> \<not> has_source db i) \<and>
      (rr_status r = Observed_Compatible \<longrightarrow> (\<exists>a\<in>set (activity_of db (window_days f) i). 0 < av_compatible a)) \<and>
      (rr_status r = Overlapping \<longrightarrow> (\<exists>a\<in>set (activity_of db (window_days f) i). 0 < av_overlap a)))"
proof -
  from listed_in_page [OF assms(2)] obtain i where i: "i \<in> set (matching_rules le f db)" "r = rule_row_of numeric db (window_days f) i"
    by (auto simp: page_rows_def dest!: in_set_takeD in_set_dropD)
  have "col_number (numeric n) = n" for n using assms(1) by (simp add: faithful_def)
  with i have "(rr_status r = Not_Configured \<longleftrightarrow> \<not> has_source db i) \<and>
      (rr_status r = Observed_Compatible \<longrightarrow> (\<exists>a\<in>set (activity_of db (window_days f) i). 0 < av_compatible a)) \<and>
      (rr_status r = Overlapping \<longrightarrow> (\<exists>a\<in>set (activity_of db (window_days f) i). 0 < av_overlap a))"
    by (auto simp: rule_row_of_def classify_def Let_def intro!: sum_pos_member)
  with i show ?thesis by (auto simp: matching_rules_def rule_row_of_def Let_def)
qed

text \<open>
  The sums are \<open>numeric\<close> columns, which the driver returns as text (only \<open>int8\<close> has a parser
  registered), and the test for a day without an assessment compares with the number zero: the
  status \<open>unassessable\<close> is never reported.
\<close>

theorem unassessable_never_reported:
  "r \<in> set (fst (list_rules le as_text f db)) \<Longrightarrow> rr_status r \<noteq> Unassessable"
  by (auto simp: page_rows_def rule_row_of_def classify_def as_text_def Let_def dest!: listed_in_page split: if_splits)

section \<open>The handler\<close>

text \<open>\<open>Number(s)\<close> of a query parameter: a number, or nothing for \<open>NaN\<close> and the infinities.\<close>

type_synonym url_query = "string \<Rightarrow> string option"

datatype rules_reply =
    Rules_Unauthenticated
  | Bad_Parameter string
  | Rules_Csv string
  | Rules_Page "rule_row list" nat rat rat
  | Rules_Failed string

definition truthy_param :: "url_query \<Rightarrow> string \<Rightarrow> string option" where
  "truthy_param sp k = (if present (sp k) then sp k else None)"

definition number_param :: "(string \<Rightarrow> rat option) \<Rightarrow> url_query \<Rightarrow> string \<Rightarrow> string \<Rightarrow> rat option" where
  "number_param number_of sp k d = number_of (case truthy_param sp k of None \<Rightarrow> d | Some s \<Rightarrow> s)"

definition status_param :: "string option \<Rightarrow> rule_status option" where
  "status_param s = (case s of None \<Rightarrow> None | Some t \<Rightarrow>
     find (\<lambda>x. rule_status_name x = t)
       [Observed_Compatible, Overlapping, No_Observed_Evidence, Unassessable, Not_Configured])"

definition days_param :: "rat option \<Rightarrow> int option" where
  "days_param d = (if d = Some 30 then Some 30 else if d = Some 90 then Some 90 else if d = Some 180 then Some 180 else None)"

definition filter_of_query :: "(string \<Rightarrow> rat option) \<Rightarrow> url_query \<Rightarrow> rules_reply + rule_filter" where
  "filter_of_query number_of sp =
     (let account = truthy_param sp ''accountId''; region = truthy_param sp ''region'' in
      if account \<noteq> None \<and> \<not> account_number (the account) then Inl (Bad_Parameter ''invalid accountId'')
      else if region \<noteq> None \<and> \<not> region_name (the region) then Inl (Bad_Parameter ''invalid region'')
      else Inr \<lparr>fl_account = account, fl_region = region,
        fl_vpc = map_option (take 64) (truthy_param sp ''vpcId''), fl_sg = map_option (take 64) (truthy_param sp ''sgId''),
        fl_egress = (if sp ''direction'' = Some ''egress'' then Some True
                     else if sp ''direction'' = Some ''ingress'' then Some False else None),
        fl_status = status_param (sp ''status''), fl_text = map_option (take 128) (truthy_param sp ''q''),
        fl_days = days_param (number_param number_of sp ''days'' ''90''),
        fl_page = number_param number_of sp ''page'' ''1'',
        fl_page_size = number_param number_of sp ''pageSize'' ''50''\<rparr>)"

definition get_rules ::
  "(string \<Rightarrow> string \<Rightarrow> bool) \<Rightarrow> (int \<Rightarrow> column) \<Rightarrow> (int \<Rightarrow> string) \<Rightarrow> (string \<Rightarrow> rat option) \<Rightarrow>
   user option \<Rightarrow> url_query \<Rightarrow> string + rules_db \<Rightarrow> rules_reply" where
  "get_rules le numeric show_time number_of u sp db = (case u of
      None \<Rightarrow> Rules_Unauthenticated
    | Some _ \<Rightarrow> (case filter_of_query number_of sp of
          Inl e \<Rightarrow> e
        | Inr f \<Rightarrow> (case db of
              Inl e \<Rightarrow> Rules_Failed e
            | Inr d \<Rightarrow> (case list_rules le numeric f d of (rows, n) \<Rightarrow>
                if sp ''format'' = Some ''csv'' then Rules_Csv (rules_to_csv show_time rows)
                else Rules_Page rows n
                  (case fl_page f of None \<Rightarrow> 1 | Some p \<Rightarrow> p) (case fl_page_size f of None \<Rightarrow> 50 | Some p \<Rightarrow> p)))))"

text \<open>Never more than 500 rows, whatever page size the query asks for.\<close>

lemma page_bounded: "length (fst (list_rules le numeric f db)) \<le> 500"
proof -
  have "page_size_of f \<le> 500" by (simp add: page_size_of_def nat_le_iff)
  then have "length (page_rows le numeric f db) \<le> 500" by (simp add: page_rows_def)
  then show ?thesis
    by (auto simp: list_rules_def Let_def split: option.split intro: le_trans [OF length_filter_le])
qed

section \<open>Instances\<close>

definition demo_rule :: "string \<Rightarrow> rule_inventory_row" where
  "demo_rule i = \<lparr>iv_account = ''1'', iv_region = ''r'', iv_rule = i, iv_group = ''sg-1'', iv_vpc = None,
     iv_egress = False, iv_protocol = ''tcp'', iv_from = Some 443, iv_to = Some 443, iv_peer_kind = ''cidr'',
     iv_peer = ''10.0.0.0/8'', iv_description = Some ''a,b'', iv_active = True\<rparr>"

definition demo_day :: "string \<Rightarrow> int \<Rightarrow> activity_row" where
  "demo_day i n = \<lparr>av_account = ''1'', av_region = ''r'', av_rule = i, av_day = 100, av_compatible = n,
     av_overlap = 0, av_last = None, av_unassessable = Some True, av_crossing = None\<rparr>"

definition demo_db :: rules_db where
  "demo_db = \<lparr>db_inventory = [demo_rule ''b'', demo_rule ''a''], db_activity = [demo_day ''b'' 3, demo_day ''a'' 0],
     db_sources = put_row \<lparr>sr_id = 0, sr_account = ''1'', sr_region = ''r'', sr_workgroup = ''w'', sr_database = ''d'',
       sr_table = ''t'', sr_enabled = True, sr_validation = JNull, sr_created_by = ''s'', sr_created_at = 0,
       sr_updated_at = 0\<rparr> empty_table,
     db_today = 110\<rparr>"

definition demo_filter :: rule_filter where
  "demo_filter = \<lparr>fl_account = None, fl_region = None, fl_vpc = None, fl_sg = None, fl_egress = None,
     fl_status = None, fl_text = Some ''A,'', fl_days = None, fl_page = None, fl_page_size = Some 1\<rparr>"

lemma demo_matches: "map iv_rule (matching_rules (\<le>) demo_filter demo_db) = [''a'', ''b'']"
  by code_simp

theorem pages_partition_rules_witness:
  "concat (map (\<lambda>k. map rr_rule (fst (list_rules (\<le>) as_text (demo_filter\<lparr>fl_page := Some (of_nat (Suc k))\<rparr>) demo_db))) [0..<2])
     = [''a'', ''b'']"
proof -
  have "fl_status demo_filter = None" by code_simp
  moreover have "page_size_of demo_filter = 1" by (simp add: page_size_of_def demo_filter_def)
  moreover have "snd (list_rules (\<le>) as_text demo_filter demo_db) = 2"
    by (simp add: list_rules_def Let_def) code_simp
  ultimately have "concat (map (\<lambda>k. fst (list_rules (\<le>) as_text (demo_filter\<lparr>fl_page := Some (of_nat (Suc k))\<rparr>) demo_db)) [0..<2])
      = map (rule_row_of as_text demo_db (window_days demo_filter)) (matching_rules (\<le>) demo_filter demo_db)"
    using pages_partition_rules [of demo_filter "(\<le>)" as_text demo_db 2] by simp
  from arg_cong [OF this, of "map rr_rule"] demo_matches show ?thesis
    by (simp add: map_concat comp_def rule_row_of_def Let_def)
qed

theorem observed_status_has_evidence_witness:
  "\<exists>i. selected demo_filter i \<and> iv_rule i = ''b'' \<and> (\<exists>a\<in>set (activity_of demo_db 90 i). 0 < av_compatible a)"
proof -
  let ?f = "demo_filter\<lparr>fl_page_size := None\<rparr>"
  have page: "page_rows (\<le>) as_text ?f demo_db =
      map (rule_row_of as_text demo_db 90) (matching_rules (\<le>) ?f demo_db)"
    by (simp add: page_rows_def page_size_of_def page_of_def window_days_def demo_filter_def matching_rules_def demo_db_def)
  have "rule_row_of as_text demo_db 90 (demo_rule ''b'') \<in> set (fst (list_rules (\<le>) as_text ?f demo_db))"
    unfolding list_rules_def Let_def page by code_simp
  moreover have "rr_rule (rule_row_of as_text demo_db 90 (demo_rule ''b'')) = ''b''"
    "rr_status (rule_row_of as_text demo_db 90 (demo_rule ''b'')) = Observed_Compatible" by code_simp+
  ultimately obtain i where "selected ?f i" "iv_rule i = ''b''"
    "\<exists>a\<in>set (activity_of demo_db (window_days ?f) i). 0 < av_compatible a"
    using observed_status_has_evidence [OF faithful_text] by metis
  moreover have "window_days ?f = 90" "selected ?f = selected demo_filter"
    by (simp_all add: window_days_def demo_filter_def selected_def fun_eq_iff)
  ultimately show ?thesis by auto
qed

text \<open>
  The status filter is applied to the rows of a page, after the page was cut, and the total counts
  the rows before it: a page can be empty although a later one has a match.
\<close>

theorem status_filter_cuts_after_paging:
  defines "f \<equiv> demo_filter\<lparr>fl_status := Some Observed_Compatible\<rparr>"
  shows "list_rules (\<le>) as_text f demo_db = ([], 2)"
    and "map rr_rule (fst (list_rules (\<le>) as_text (f\<lparr>fl_page := Some 2\<rparr>) demo_db)) = [''b'']"
proof -
  have one: "page_rows (\<le>) as_text f demo_db = [rule_row_of as_text demo_db 90 (demo_rule ''a'')]"
    and two: "page_rows (\<le>) as_text (f\<lparr>fl_page := Some 2\<rparr>) demo_db = [rule_row_of as_text demo_db 90 (demo_rule ''b'')]"
  proof -
    have "matching_rules (\<le>) f demo_db = [demo_rule ''a'', demo_rule ''b'']" unfolding f_def by code_simp
    moreover have "page_size_of f = 1" "window_days f = 90" "page_of f = 1" "page_of (f\<lparr>fl_page := Some 2\<rparr>) = 2"
      by (simp_all add: f_def page_size_of_def window_days_def page_of_def demo_filter_def)
    ultimately show "page_rows (\<le>) as_text f demo_db = [rule_row_of as_text demo_db 90 (demo_rule ''a'')]"
      "page_rows (\<le>) as_text (f\<lparr>fl_page := Some 2\<rparr>) demo_db = [rule_row_of as_text demo_db 90 (demo_rule ''b'')]"
      by (simp_all add: page_rows_def)
  qed
  have s: "rr_status (rule_row_of as_text demo_db 90 (demo_rule ''a'')) = No_Observed_Evidence"
    "rr_status (rule_row_of as_text demo_db 90 (demo_rule ''b'')) = Observed_Compatible"
    "rr_rule (rule_row_of as_text demo_db 90 (demo_rule ''b'')) = ''b''"
    "length (filter (selected f) (db_inventory demo_db)) = 2"
    unfolding f_def by code_simp+
  show "list_rules (\<le>) as_text f demo_db = ([], 2)"
    using s by (simp add: list_rules_def Let_def one, simp add: f_def)
  show "map rr_rule (fst (list_rules (\<le>) as_text (f\<lparr>fl_page := Some 2\<rparr>) demo_db)) = [''b'']"
    using s by (simp add: list_rules_def Let_def two, simp add: f_def)
qed

end
