(* ===== verification/Sg_Graph.thy ===== *)
theory Sg_Graph
  imports Policy_Graph Sg_Hits Sg_Rules
begin

text \<open>
  The two security-group graphs of \<^verbatim>\<open>web/lib/sg-usage-graph.ts\<close>: one group with its attachments,
  references and observed peers, and one rule with its group and peer. Neither tags paths, so the
  bounding keeps the first nodes and edges by id (\<open>bound_graph_loose\<close>).
\<close>

section \<open>One security group\<close>

definition SG_CAPS :: graph_caps where
  "SG_CAPS = \<lparr>cap_nodes = 60, cap_edges = 90\<rparr>"

text \<open>\<open>^([^\s(]+)(?:\s+\(([^)]*)\))?$\<close> on the trimmed label; without a match the whole label is the id.\<close>

definition extract_sg_id :: "string \<Rightarrow> string \<times> string option" where
  "extract_sg_id label =
     (let t = trim label;
          i = takeWhile (\<lambda>c. \<not> is_space c \<and> c \<noteq> CHR ''('') t;
          rest = dropWhile (\<lambda>c. \<not> is_space c \<and> c \<noteq> CHR ''('') t;
          paren = dropWhile is_space rest in
      if i = [] then (label, None)
      else if rest = [] then (i, None)
      else if is_space (hd rest) \<and> 2 \<le> length paren \<and> hd paren = CHR ''('' \<and> last paren = CHR '')''
          \<and> CHR '')'' \<notin> set (butlast paren)
        then (i, Some (butlast (tl paren)))
      else (label, None))"

definition plain_node :: "string \<Rightarrow> string \<Rightarrow> string \<Rightarrow> policy_status \<Rightarrow> string option \<Rightarrow> policy_node" where
  "plain_node i kind label status resource = \<lparr>nid = i, n_kind = kind, n_label = label, n_status = status,
     n_resource_id = resource, n_scope = None, n_path_ids = None\<rparr>"

definition plain_edge :: "string \<Rightarrow> string \<Rightarrow> string \<Rightarrow> policy_status \<Rightarrow> string option \<Rightarrow> policy_edge" where
  "plain_edge a b relation status label = \<lparr>eid = policy_edge_id a b None, e_source = a, e_target = b,
     e_relation = relation, e_status = status, e_label = label, e_path_ids = None, e_step_ordinals = None\<rparr>"

definition sg_node_id :: "string \<Rightarrow> string" where
  "sg_node_id i = policy_node_id ''sg'' i"

definition named_label :: "string \<Rightarrow> string \<Rightarrow> string" where
  "named_label i name = i @ '' ('' @ name @ '')''"

definition center_node :: "sg_row \<Rightarrow> policy_node" where
  "center_node row = \<lparr>nid = sg_node_id (o_id row), n_kind = ''security_group'',
     n_label = (if o_name row \<noteq> [] \<and> o_name row \<noteq> o_id row then named_label (o_id row) (o_name row) else o_id row),
     n_status = Not_Applicable, n_resource_id = Some (o_id row),
     n_scope = Some \<lparr>policy_scope.account_id = ''self'', region = o_region row\<rparr>, n_path_ids = None\<rparr>"

type_synonym graph_parts = "policy_node list \<times> policy_edge list"

definition add_kind :: "sg_row \<Rightarrow> graph_parts \<Rightarrow> string \<times> nat \<Rightarrow> graph_parts" where
  "add_kind row = (\<lambda>(ns, es) k.
     let i = policy_node_id ''eni-kind'' (o_id row @ '':'' @ fst k) in
     (ns @ [plain_node i ''eni'' (fst k @ '' '' @ [CHR 0xD7] @ '' '' @ show_nat (snd k)) Not_Applicable None],
      es @ [plain_edge (sg_node_id (o_id row)) i ''attached'' Allowed (Some ''attached'')]))"

definition direction_text :: "direction \<Rightarrow> string" where
  "direction_text d = (case d of Ingress \<Rightarrow> ''ingress'' | Egress \<Rightarrow> ''egress'')"

definition add_peer_group :: "sg_row \<Rightarrow> string list \<times> graph_parts \<Rightarrow> sg_rule \<Rightarrow> string list \<times> graph_parts" where
  "add_peer_group row = (\<lambda>(seen, ns, es) r.
     if s_kind r \<noteq> Group \<or> s_peer r = [] \<or> s_peer r = o_id row \<or> s_peer r \<in> set seen then (seen, ns, es)
     else (js_add (s_peer r) seen,
       ns @ [plain_node (sg_node_id (s_peer r)) ''security_group'' (if s_label r = [] then s_peer r else s_label r)
               Not_Applicable (Some (s_peer r))],
       es @ [plain_edge (sg_node_id (o_id row)) (sg_node_id (s_peer r)) ''references'' Allowed
               (Some (direction_text (s_direction r)))]))"

definition add_referrer :: "sg_row \<Rightarrow> string list \<Rightarrow> graph_parts \<Rightarrow> string \<Rightarrow> graph_parts" where
  "add_referrer row seen = (\<lambda>(ns, es) label.
     (case extract_sg_id label of (i, name) \<Rightarrow>
       if i = o_id row \<or> i \<in> set seen then (ns, es)
       else (if sg_node_id i \<in> nid ` set ns then ns
             else ns @ [plain_node (sg_node_id i) ''security_group''
               (if present name then named_label i (the name) else i) Not_Applicable (Some i)],
             es @ [plain_edge (sg_node_id i) (sg_node_id (o_id row)) ''references'' Allowed (Some ''referenced_by'')])))"

definition traffic_status :: "peer_traffic \<Rightarrow> policy_status" where
  "traffic_status p = (if t_action p = Some ''REJECT'' then Blocked
     else if t_action p = Some ''ACCEPT'' then Allowed else Unknown)"

definition add_traffic :: "sg_row \<Rightarrow> graph_parts \<Rightarrow> peer_traffic \<Rightarrow> graph_parts" where
  "add_traffic row = (\<lambda>(ns, es) p.
     let i = policy_node_id ''peer'' (t_ip p) in
     (ns @ [plain_node i ''peer'' (if present (t_label p) then named_label (t_ip p) (the (t_label p)) else t_ip p)
              (traffic_status p) None],
      es @ [plain_edge (sg_node_id (o_id row)) i ''traffic'' (traffic_status p)
              (if present (t_port p) then Some (CHR '':'' # the (t_port p)) else None)]))"

definition usage_parts :: "sg_row \<Rightarrow> hits_result option \<Rightarrow> graph_parts" where
  "usage_parts row hits =
     (let p1 = foldl (add_kind row) ([center_node row], []) (o_kinds row);
          (seen, p2) = foldl (add_peer_group row) ([], p1) (o_rules row);
          p3 = foldl (add_referrer row seen) p2 (o_referenced_by row)
      in (case hits of None \<Rightarrow> p3 | Some h \<Rightarrow> foldl (add_traffic row) p3 (x_peers h)))"

definition raw_usage_graph :: "string \<Rightarrow> sg_row \<Rightarrow> hits_result option \<Rightarrow> raw_graph" where
  "raw_usage_graph now row hits =
     \<lparr>captured_at = now, g_nodes = fst (usage_parts row hits), g_edges = snd (usage_parts row hits)\<rparr>"

definition build_sg_usage_graph ::
  "(string \<Rightarrow> string \<Rightarrow> bool) \<Rightarrow> string \<Rightarrow> sg_row \<Rightarrow> hits_result option \<Rightarrow> policy_graph_dto option" where
  "build_sg_usage_graph le now row hits = bound_graph le (raw_usage_graph now row hits) SG_CAPS"

section \<open>What the parts are\<close>

text \<open>Every edge leaves or enters the centre, both of its ends are nodes, and traffic tells its peer's fate.\<close>

definition edge_ok :: "sg_row \<Rightarrow> hits_result option \<Rightarrow> policy_edge \<Rightarrow> bool" where
  "edge_ok row hits e \<longleftrightarrow> (e_source e = sg_node_id (o_id row) \<or> e_target e = sg_node_id (o_id row)) \<and>
     (e_relation e = ''traffic'' \<longrightarrow> (\<exists>h p. hits = Some h \<and> p \<in> set (x_peers h) \<and>
        e_target e = policy_node_id ''peer'' (t_ip p) \<and> e_status e = traffic_status p)) \<and>
     (e_relation e \<noteq> ''traffic'' \<longrightarrow> e_status e = Allowed)"

definition parts_ok :: "sg_row \<Rightarrow> hits_result option \<Rightarrow> graph_parts \<Rightarrow> bool" where
  "parts_ok row hits p \<longleftrightarrow> center_node row \<in> set (fst p) \<and>
     (\<forall>n\<in>set (fst p). \<not> has_path_ids (n_path_ids n)) \<and>
     (\<forall>e\<in>set (snd p). \<not> has_path_ids (e_path_ids e) \<and> edge_ok row hits e \<and>
        e_source e \<in> nid ` set (fst p) \<and> e_target e \<in> nid ` set (fst p))"

lemma plain_simps [simp]:
  "n_path_ids (plain_node i k l s rs) = None" "nid (plain_node i k l s rs) = i"
  "e_path_ids (plain_edge a b rel s lb) = None" "e_source (plain_edge a b rel s lb) = a" "e_target (plain_edge a b rel s lb) = b"
  "e_relation (plain_edge a b rel s lb) = rel" "e_status (plain_edge a b rel s lb) = s"
  "eid (plain_edge a b rel s lb) = policy_edge_id a b None"
  "nid (center_node row) = sg_node_id (o_id row)" "n_path_ids (center_node row) = None" "\<not> has_path_ids None"
  by (simp_all add: plain_node_def plain_edge_def center_node_def has_path_ids_def)

lemma parts_ok_add:
  assumes "parts_ok row hits (ns, es)" "\<forall>n\<in>set ns'. \<not> has_path_ids (n_path_ids n)"
    "\<not> has_path_ids (e_path_ids e)" "edge_ok row hits e"
    "e_source e \<in> nid ` set (ns @ ns')" "e_target e \<in> nid ` set (ns @ ns')"
  shows "parts_ok row hits (ns @ ns', es @ [e])"
  using assms unfolding parts_ok_def by auto

lemma center_in_parts: "parts_ok row hits p \<Longrightarrow> sg_node_id (o_id row) \<in> nid ` set (fst p)"
  unfolding parts_ok_def by (metis image_eqI plain_simps(9))

lemma add_kind_ok:
  assumes "parts_ok row hits p"
  shows "parts_ok row hits (add_kind row p k)"
  using parts_ok_add [of row hits "fst p" "snd p"] center_in_parts [OF assms] assms
  by (auto simp: add_kind_def Let_def case_prod_unfold edge_ok_def)

lemma add_peer_group_ok:
  assumes "parts_ok row hits (snd p)"
  shows "parts_ok row hits (snd (add_peer_group row p r))"
  using parts_ok_add [of row hits "fst (snd p)" "snd (snd p)"] center_in_parts [OF assms] assms
  by (auto simp: add_peer_group_def case_prod_unfold edge_ok_def)

lemma add_referrer_ok:
  assumes "parts_ok row hits p"
  shows "parts_ok row hits (add_referrer row seen p l)"
  using parts_ok_add [of row hits "fst p" "snd p" "[]"] parts_ok_add [of row hits "fst p" "snd p"]
    center_in_parts [OF assms] assms
  by (auto simp: add_referrer_def case_prod_unfold edge_ok_def)

lemma add_traffic_ok:
  assumes "parts_ok row (Some h) p" "t \<in> set (x_peers h)"
  shows "parts_ok row (Some h) (add_traffic row p t)"
proof -
  have "edge_ok row (Some h) (plain_edge (sg_node_id (o_id row)) (policy_node_id ''peer'' (t_ip t)) ''traffic''
      (traffic_status t) lb)" for lb
    using assms(2) by (auto simp: edge_ok_def)
  then show ?thesis
    using parts_ok_add [of row "Some h" "fst p" "snd p"] center_in_parts [OF assms(1)] assms(1)
    by (simp add: add_traffic_def Let_def case_prod_unfold)
qed

lemma foldl_inv: "P a \<Longrightarrow> (\<And>a x. P a \<Longrightarrow> x \<in> set xs \<Longrightarrow> P (f a x)) \<Longrightarrow> P (foldl f a xs)"
  by (induction xs arbitrary: a) auto

lemma usage_parts_ok: "parts_ok row hits (usage_parts row hits)"
proof -
  define p1 where "p1 = foldl (add_kind row) ([center_node row], []) (o_kinds row)"
  define sp where "sp = foldl (add_peer_group row) ([], p1) (o_rules row)"
  define p3 where "p3 = foldl (add_referrer row (fst sp)) (snd sp) (o_referenced_by row)"
  have "parts_ok row hits p1" unfolding p1_def
    by (rule foldl_inv [where P = "parts_ok row hits"], simp add: parts_ok_def) (rule add_kind_ok)
  then have "parts_ok row hits (snd sp)" unfolding sp_def
    by (intro foldl_inv [where P = "\<lambda>p. parts_ok row hits (snd p)"]) (auto intro: add_peer_group_ok)
  then have p3: "parts_ok row hits p3" unfolding p3_def
    by (rule foldl_inv [where P = "parts_ok row hits"]) (rule add_referrer_ok)
  have u: "usage_parts row hits = (case hits of None \<Rightarrow> p3 | Some h \<Rightarrow> foldl (add_traffic row) p3 (x_peers h))"
    unfolding usage_parts_def p3_def sp_def p1_def by (simp add: case_prod_unfold Let_def)
  show ?thesis
  proof (cases hits)
    case (Some h)
    have "parts_ok row (Some h) (foldl (add_traffic row) p3 (x_peers h))"
      using p3 Some by (intro foldl_inv [where P = "parts_ok row (Some h)"]) (auto intro: add_traffic_ok)
    with u Some show ?thesis by simp
  qed (use u p3 in simp)
qed

lemma set_bound_graph_loose:
  assumes "\<forall>n\<in>set (g_nodes g). \<not> has_path_ids (n_path_ids n)" "\<forall>e\<in>set (g_edges g). \<not> has_path_ids (e_path_ids e)"
    and "bound_graph le g caps = Some d"
  shows "set (d_edges d) \<subseteq> set (g_edges g)"
    and "length (g_nodes g) \<le> cap_nodes caps \<Longrightarrow> mset (d_nodes d) = mset (g_nodes g)"
    and "length (g_nodes g) \<le> cap_nodes caps \<Longrightarrow> length (g_edges g) \<le> cap_edges caps \<Longrightarrow>
      \<forall>e\<in>set (g_edges g). edge_within (g_nodes g) e \<Longrightarrow> mset (d_edges d) = mset (g_edges g)"
proof -
  note d = bound_graph_loose [OF assms]
  show "set (d_edges d) \<subseteq> set (g_edges g)" unfolding d by (auto dest!: in_set_takeD)
  show n: "mset (d_nodes d) = mset (g_nodes g)" if "length (g_nodes g) \<le> cap_nodes caps"
    using that by (simp add: d(1))
  show "mset (d_edges d) = mset (g_edges g)"
    if c: "length (g_nodes g) \<le> cap_nodes caps" "length (g_edges g) \<le> cap_edges caps"
      "\<forall>e\<in>set (g_edges g). edge_within (g_nodes g) e"
  proof -
    have "set (d_nodes d) = set (g_nodes g)" using n [OF c(1)] by (metis set_mset_mset)
    with c(3) have "\<forall>e\<in>set (sort_le (by_eid le) (g_edges g)). edge_within (d_nodes d) e"
      by (simp add: edge_within_def)
    then have "filter (edge_within (d_nodes d)) (sort_le (by_eid le) (g_edges g)) = sort_le (by_eid le) (g_edges g)"
      by (rule filter_True)
    with c(2) show ?thesis by (simp add: d(2))
  qed
qed

lemma usage_graph_star:
  "\<exists>d. build_sg_usage_graph le now row hits = Some d \<and>
    (\<forall>e\<in>set (d_edges d). edge_ok row hits e \<and> sg_node_id (o_id row) \<in> nid ` set (d_nodes d)) \<and>
    (length (fst (usage_parts row hits)) \<le> 60 \<and> length (snd (usage_parts row hits)) \<le> 90 \<longrightarrow>
      mset (d_nodes d) = mset (fst (usage_parts row hits)) \<and> mset (d_edges d) = mset (snd (usage_parts row hits)))"
proof -
  let ?g = "raw_usage_graph now row hits"
  obtain d where d: "bound_graph le ?g SG_CAPS = Some d"
    "\<forall>e\<in>set (d_edges d). \<exists>a\<in>set (d_nodes d). \<exists>b\<in>set (d_nodes d). nid a = e_source e \<and> nid b = e_target e"
    using bound_graph_returns by blast
  have ok: "parts_ok row hits (g_nodes ?g, g_edges ?g)" using usage_parts_ok by (simp add: raw_usage_graph_def)
  then have loose: "\<forall>n\<in>set (g_nodes ?g). \<not> has_path_ids (n_path_ids n)" "\<forall>e\<in>set (g_edges ?g). \<not> has_path_ids (e_path_ids e)"
    "\<forall>e\<in>set (g_edges ?g). edge_within (g_nodes ?g) e"
    by (auto simp: parts_ok_def edge_within_def)
  note sub = set_bound_graph_loose [OF loose(1,2) d(1)]
  have "edge_ok row hits e \<and> sg_node_id (o_id row) \<in> nid ` set (d_nodes d)" if "e \<in> set (d_edges d)" for e
  proof -
    have "edge_ok row hits e" using ok sub(1) that by (auto simp: parts_ok_def)
    with d(2) that show ?thesis by (metis edge_ok_def image_eqI)
  qed
  moreover have "mset (d_nodes d) = mset (g_nodes ?g)" "mset (d_edges d) = mset (g_edges ?g)"
    if "length (g_nodes ?g) \<le> 60" "length (g_edges ?g) \<le> 90"
    using sub(2,3) loose(3) that by (simp_all add: SG_CAPS_def)
  ultimately show ?thesis using d(1) by (auto simp: build_sg_usage_graph_def raw_usage_graph_def)
qed

text \<open>
  The usage graph is a star: every edge shown leaves or enters the selected group, both ends
  are shown, a traffic edge carries the verdict recorded for its peer (blocked for a rejected one,
  unknown if none was recorded), and every other edge is an allowed relation. When the caps
  suffice, nothing that was found is left out.
\<close>

theorem usage_graph_is_a_star:
  "\<exists>d. build_sg_usage_graph le now row hits = Some d \<and>
    (\<forall>e\<in>set (d_edges d). edge_ok row hits e \<and> sg_node_id (o_id row) \<in> nid ` set (d_nodes d)) \<and>
    (length (fst (usage_parts row hits)) \<le> 60 \<and> length (snd (usage_parts row hits)) \<le> 90 \<longrightarrow>
      mset (d_nodes d) = mset (fst (usage_parts row hits)) \<and> mset (d_edges d) = mset (snd (usage_parts row hits)))"
  by (rule usage_graph_star)

definition demo_row :: "nat \<Rightarrow> sg_row" where
  "demo_row n = \<lparr>o_id = ''sg-z'', o_name = ''web'', o_description = [], o_region = ''r'', o_vpc = ''v'', o_vpc_label = ''v'',
     o_default = False, o_eni_count = 2, o_kinds = [(''EC2'', 2)],
     o_referenced_by = map (\<lambda>i. ''sg-'' @ show_nat i) [0..<n], o_ingress = 0, o_egress = 0, o_open_ingress = 0,
     o_unused = False, o_rules = []\<rparr>"

definition demo_peer :: "string \<Rightarrow> string \<Rightarrow> peer_traffic" where
  "demo_peer port act = \<lparr>t_ip = ''10.0.0.1'', t_label = None, t_port = Some port, t_action = Some act, t_count = 1, t_bytes = 1\<rparr>"

definition demo_hits :: "peer_traffic list \<Rightarrow> hits_result" where
  "demo_hits ps = \<lparr>x_source = Flowlogs, x_note = None, x_rule_hits = [], x_idle = 0, x_peers = ps, x_range_sec = 3600\<rparr>"

theorem usage_graph_is_a_star_witness:
  "\<exists>d. build_sg_usage_graph (\<le>) ''t'' (demo_row 2) (Some (demo_hits [demo_peer ''443'' ''REJECT''])) = Some d \<and>
    size (mset (d_edges d)) = 4"
proof -
  let ?p = "usage_parts (demo_row 2) (Some (demo_hits [demo_peer ''443'' ''REJECT'']))"
  have "length (fst ?p) = 5" "length (snd ?p) = 4" by code_simp+
  then show ?thesis
    using usage_graph_is_a_star [of "(\<le>)" "''t''" "demo_row 2" "Some (demo_hits [demo_peer ''443'' ''REJECT''])"]
    by (auto dest!: mset_eq_length)
qed

text \<open>
  Flow records are grouped by address, port and verdict, and the builder adds a node and an edge
  per record: one address seen on two ports gives two nodes and two edges with the same ids.
\<close>

theorem usage_graph_repeats_peer:
  "map nid (fst (usage_parts (demo_row 0) (Some (demo_hits [demo_peer ''443'' ''ACCEPT'', demo_peer ''22'' ''REJECT'']))))
     = [''sg:sg-z'', ''eni-kind:sg-z:EC2'', ''peer:10.0.0.1'', ''peer:10.0.0.1'']"
  "map (\<lambda>e. (eid e, e_status e))
     (snd (usage_parts (demo_row 0) (Some (demo_hits [demo_peer ''443'' ''ACCEPT'', demo_peer ''22'' ''REJECT'']))))
     = [(''sg:sg-z->eni-kind:sg-z:EC2'', Allowed), (''sg:sg-z->peer:10.0.0.1'', Allowed), (''sg:sg-z->peer:10.0.0.1'', Blocked)]"
  by code_simp+

text \<open>
  The caps keep the first nodes by id, and nothing reserves a place for the centre: in the graph of
  a group before which more than sixty other nodes sort, the centre and with it every edge is gone.
\<close>

lemma taken_prefix:
  assumes "sorted_wrt R xs" "x \<in> set (take k xs)"
  shows "length (filter (\<lambda>y. \<not> R x y) xs) \<le> k"
proof -
  obtain i where i: "i < length xs" "i < k" "xs ! i = x" using assms(2) by (auto simp: in_set_conv_nth)
  have "\<forall>y\<in>set (drop (Suc i) xs). R x y"
    using assms(1) i by (auto simp: in_set_conv_nth sorted_wrt_iff_nth_less)
  then have "filter (\<lambda>y. \<not> R x y) (drop (Suc i) xs) = []" by (simp add: filter_empty_conv)
  moreover have "filter (\<lambda>y. \<not> R x y) xs = filter (\<lambda>y. \<not> R x y) (take (Suc i) xs) @ filter (\<lambda>y. \<not> R x y) (drop (Suc i) xs)"
    by (metis append_take_drop_id filter_append)
  ultimately have "length (filter (\<lambda>y. \<not> R x y) xs) \<le> length (take (Suc i) xs)"
    using length_filter_le [of _ "take (Suc i) xs"] by simp
  then show ?thesis using i(2) by simp
qed

theorem usage_graph_may_lose_its_centre:
  fixes le :: "string \<Rightarrow> string \<Rightarrow> bool"
  assumes "collation le" "60 < length (filter (\<lambda>n. \<not> le (sg_node_id (o_id row)) (nid n)) (fst (usage_parts row hits)))"
  shows "\<exists>d. build_sg_usage_graph le now row hits = Some d \<and> d_edges d = []"
proof -
  let ?g = "raw_usage_graph now row hits" and ?c = "sg_node_id (o_id row)"
  obtain d where d: "build_sg_usage_graph le now row hits = Some d"
    and star: "\<forall>e\<in>set (d_edges d). ?c \<in> nid ` set (d_nodes d)"
    using usage_graph_star [of le now row hits] by blast
  have "?c \<notin> nid ` set (d_nodes d)"
  proof
    assume "?c \<in> nid ` set (d_nodes d)"
    moreover have "parts_ok row hits (g_nodes ?g, g_edges ?g)" using usage_parts_ok by (simp add: raw_usage_graph_def)
    then have "d_nodes d = sort_le (by_nid le) (take 60 (sort_le (by_nid le) (g_nodes ?g)))"
      using bound_graph_loose(1) [of ?g le SG_CAPS d] d by (auto simp: parts_ok_def build_sg_usage_graph_def SG_CAPS_def)
    ultimately obtain x where x: "x \<in> set (take 60 (sort_le (by_nid le) (g_nodes ?g)))" "nid x = ?c" by auto
    have "by_nid le = (\<lambda>a b. le (nid a) (nid b))" by (simp add: by_nid_def fun_eq_iff)
    then have "sorted_wrt (by_nid le) (sort_le (by_nid le) (g_nodes ?g))"
      using collation.sorted_sort_le [OF collation_key [OF assms(1), of nid]] by metis
    from taken_prefix [OF this x(1)] have "length (filter (\<lambda>n. \<not> by_nid le x n) (g_nodes ?g)) \<le> 60"
      by (metis mset_filter mset_sort_le size_mset)
    with x(2) assms(2) show False by (simp add: by_nid_def raw_usage_graph_def)
  qed
  with star have "d_edges d = []" by (metis list.set_intros(1) neq_Nil_conv)
  with d show ?thesis by blast
qed

section \<open>One rule\<close>

definition graph_status :: "rule_status \<Rightarrow> policy_status" where
  "graph_status s = (case s of Observed_Compatible \<Rightarrow> Allowed | Overlapping \<Rightarrow> Allowed
     | No_Observed_Evidence \<Rightarrow> Not_Run | Unassessable \<Rightarrow> Unknown | Not_Configured \<Rightarrow> Not_Applicable)"

definition rule_peer_label :: "rule_row \<Rightarrow> string" where
  "rule_peer_label r =
     (if rr_peer_kind r = ''pl'' then rr_peer r @ '' (prefix list)''
      else if rr_peer_kind r = ''internet''
        then (if rr_peer r = ''::/0'' then ''::/0 (internet)'' else ''0.0.0.0/0 (internet)'')
      else rr_peer r)"

definition rule_peer_id :: "rule_row \<Rightarrow> string" where
  "rule_peer_id r = policy_node_id (if rr_peer_kind r = ''sg'' then ''sg'' else ''peer'')
     (if rr_peer r = [] then ''unknown'' else rr_peer r)"

definition rule_port_label :: "rule_row \<Rightarrow> string" where
  "rule_port_label r = (case rr_from r of
      None \<Rightarrow> rr_protocol r
    | Some p \<Rightarrow> if rr_to r = Some p then rr_protocol r @ ''/'' @ show_int p
        else rr_protocol r @ ''/'' @ show_int p @ ''-'' @ (case rr_to r of None \<Rightarrow> ''null'' | Some q \<Rightarrow> show_int q))"

definition rule_eni_id :: "rule_row \<Rightarrow> string" where
  "rule_eni_id r = policy_node_id ''eni-kind'' (rr_group r @ '':*'')"

definition rule_nodes :: "rule_row \<Rightarrow> policy_node list" where
  "rule_nodes r =
     [\<lparr>nid = sg_node_id (rr_group r), n_kind = ''security_group'', n_label = rr_group r, n_status = Not_Applicable,
       n_resource_id = Some (rr_group r),
       n_scope = Some \<lparr>policy_scope.account_id = rr_account r, region = rr_region r\<rparr>, n_path_ids = None\<rparr>,
      plain_node (rule_eni_id r) ''eni'' ''attached ENIs'' Not_Applicable None,
      plain_node (rule_peer_id r) (if rr_peer_kind r = ''sg'' then ''security_group'' else ''peer'')
        (rule_peer_label r) Not_Applicable None]"

definition rule_edges :: "rule_row \<Rightarrow> policy_edge list" where
  "rule_edges r =
     [plain_edge (sg_node_id (rr_group r)) (rule_eni_id r) ''attached'' Allowed (Some ''attached''),
      if rr_egress r
      then plain_edge (sg_node_id (rr_group r)) (rule_peer_id r) ''egress'' (graph_status (rr_status r)) (Some (rule_port_label r))
      else plain_edge (rule_peer_id r) (sg_node_id (rr_group r)) ''ingress'' (graph_status (rr_status r)) (Some (rule_port_label r))]"

definition build_sg_rule_graph :: "(string \<Rightarrow> string \<Rightarrow> bool) \<Rightarrow> string \<Rightarrow> rule_row \<Rightarrow> policy_graph_dto option" where
  "build_sg_rule_graph le now r =
     bound_graph le \<lparr>captured_at = now, g_nodes = rule_nodes r, g_edges = rule_edges r\<rparr> SG_CAPS"

text \<open>
  The graph of a rule always shows all of it: its group, the attached interfaces and its peer,
  with the edge in the direction of the rule, and that edge is drawn as allowed exactly when the
  status says traffic was observed, never as blocked.
\<close>

theorem rule_graph_is_complete:
  "\<exists>d e. build_sg_rule_graph le now r = Some d \<and> mset (d_nodes d) = mset (rule_nodes r) \<and>
    mset (d_edges d) = mset (rule_edges r) \<and> e \<in> set (d_edges d) \<and>
    (e_source e, e_target e) = (if rr_egress r then (sg_node_id (rr_group r), rule_peer_id r)
       else (rule_peer_id r, sg_node_id (rr_group r))) \<and>
    (e_status e = Allowed \<longleftrightarrow> rr_status r \<in> {Observed_Compatible, Overlapping}) \<and> e_status e \<noteq> Blocked"
proof -
  let ?g = "\<lparr>captured_at = now, g_nodes = rule_nodes r, g_edges = rule_edges r\<rparr>"
  obtain d where d: "bound_graph le ?g SG_CAPS = Some d" using bound_graph_returns by blast
  have loose: "\<forall>n\<in>set (g_nodes ?g). \<not> has_path_ids (n_path_ids n)" "\<forall>e\<in>set (g_edges ?g). \<not> has_path_ids (e_path_ids e)"
    "\<forall>e\<in>set (g_edges ?g). edge_within (g_nodes ?g) e"
    by (simp_all add: rule_nodes_def rule_edges_def edge_within_def)
  have size: "length (rule_nodes r) \<le> 60" "length (rule_edges r) \<le> 90" by (simp_all add: rule_nodes_def rule_edges_def)
  have m: "mset (d_nodes d) = mset (rule_nodes r)" "mset (d_edges d) = mset (rule_edges r)"
    using set_bound_graph_loose(2,3) [OF loose(1,2) d] loose(3) size by (simp_all add: SG_CAPS_def)
  let ?e = "rule_edges r ! 1"
  have "?e \<in> set (d_edges d)" using m(2) by (metis set_mset_mset nth_mem rule_edges_def length_Cons lessI list.size(3) One_nat_def)
  moreover have "(e_source ?e, e_target ?e) = (if rr_egress r then (sg_node_id (rr_group r), rule_peer_id r)
       else (rule_peer_id r, sg_node_id (rr_group r)))"
    "e_status ?e = graph_status (rr_status r)"
    by (simp_all add: rule_edges_def)
  moreover have "graph_status s = Allowed \<longleftrightarrow> s \<in> {Observed_Compatible, Overlapping}" "graph_status s \<noteq> Blocked" for s
    by (simp_all add: graph_status_def split: rule_status.split)
  ultimately show ?thesis using d m unfolding build_sg_rule_graph_def by metis
qed

text \<open>
  A rule whose peer is its own group, the usual way to let members talk to each other, gives two
  nodes with one id; the usage graph leaves such peers out.
\<close>

theorem self_rule_repeats_node:
  "rr_peer_kind r = ''sg'' \<Longrightarrow> rr_peer r = rr_group r \<Longrightarrow> rr_group r \<noteq> [] \<Longrightarrow>
   map nid (rule_nodes r) = [sg_node_id (rr_group r), rule_eni_id r, sg_node_id (rr_group r)]"
  by (simp add: rule_nodes_def rule_peer_id_def sg_node_id_def)

end
