(* ===== verification/Sg_Refresh.thy ===== *)
theory Sg_Refresh
  imports Flow_Sources Jobs
begin

text \<open>
  The manual refresh of \<^verbatim>\<open>web/app/api/sg/rules/refresh/route.ts\<close>: one scan job per flow-log
  source, enqueued through the ledger of \<^verbatim>\<open>web/lib/jobs.ts\<close>. The random job ids and the outcomes
  of the sends are given per target.
\<close>

datatype refresh_error = Delivery_Failed | Collision | Other_Error enqueue_error

record refresh_entry =
  re_account :: string
  re_region :: string
  re_job :: "string option"
  re_error :: "refresh_error option"

datatype refresh_reply =
    R_Unauthenticated
  | R_Admin_Only
  | R_Unconfigured
  | R_Too_Large
  | R_Bad_Target
  | R_No_Source
  | R_Jobs "refresh_entry list"

record refresh_request =
  rq_user :: "user option"
  rq_admin :: bool
  rq_queue :: "string option"
  rq_body :: "body_error + js"
  rq_fresh :: "nat \<Rightarrow> string"
  rq_delivered :: "nat \<Rightarrow> bool"

definition scan_payload :: "user \<Rightarrow> string \<times> string \<Rightarrow> js_object" where
  "scan_payload u t = [(''account_id'', JStr (fst t)), (''region'', JStr (snd t)),
     (''trigger'', JStr ''manual_refresh''), (''requested_by'', JStr (u_sub u))]"

definition scan_opts :: "user \<Rightarrow> enqueue_opts" where
  "scan_opts u = \<lparr>opt_key = None, opt_dry_run = None, opt_job_id = None, opt_requested_by = Some (u_sub u)\<rparr>"

definition entry_of :: "string \<times> string \<Rightarrow> enqueue_error + enqueue_result \<Rightarrow> refresh_entry" where
  "entry_of t r = (case r of
      Inr x \<Rightarrow> \<lparr>re_account = fst t, re_region = snd t, re_job = Some (r_job_id x), re_error = None\<rparr>
    | Inl (Delivery_Error i s) \<Rightarrow>
        \<lparr>re_account = fst t, re_region = snd t, re_job = Some i, re_error = Some Delivery_Failed\<rparr>
    | Inl Key_Collision \<Rightarrow> \<lparr>re_account = fst t, re_region = snd t, re_job = None, re_error = Some Collision\<rparr>
    | Inl e \<Rightarrow> \<lparr>re_account = fst t, re_region = snd t, re_job = None, re_error = Some (Other_Error e)\<rparr>)"

fun refresh_targets ::
  "refresh_request \<Rightarrow> user \<Rightarrow> nat \<Rightarrow> (string \<times> string) list \<Rightarrow> job_state \<Rightarrow> refresh_entry list \<times> job_state" where
  "refresh_targets q u n [] st = ([], st)"
| "refresh_targets q u n (t # ts) st =
     (case enqueue_job (rq_queue q) (rq_fresh q n) (rq_delivered q n) ''sg_rule_scan'' (scan_payload u t) (scan_opts u) st of
        (r, st') \<Rightarrow> (case refresh_targets q u (Suc n) ts st' of (es, st'') \<Rightarrow> (entry_of t r # es, st'')))"

definition string_field :: "js \<Rightarrow> string option" where
  "string_field v = (case v of JStr s \<Rightarrow> Some s | _ \<Rightarrow> None)"

text \<open>An unreadable body counts as an empty one; only an oversized body is refused.\<close>

definition request_body :: "body_error + js \<Rightarrow> js option" where
  "request_body b = (case b of Inl Body_Too_Large \<Rightarrow> None | Inl Syntax_Error \<Rightarrow> Some (JObj []) | Inr v \<Rightarrow> Some v)"

definition targets_of ::
  "(string \<Rightarrow> string \<Rightarrow> bool) \<Rightarrow> js \<Rightarrow> flow_table \<Rightarrow> refresh_reply + (string \<times> string) list" where
  "targets_of le body t =
     (let a = string_field (attr body ''accountId''); r = string_field (attr body ''region'') in
      if present a \<or> present r then
        (if \<not> present a \<or> \<not> account_number (the a) \<or> \<not> present r \<or> \<not> region_name (the r) then Inl R_Bad_Target
         else (case get_flow_source (the a) (the r) t of
             None \<Rightarrow> Inl R_No_Source
           | Some s \<Rightarrow> Inr [sr_key s]))
      else Inr (map sr_key (list_enabled_flow_sources le t)))"

definition refresh_rules ::
  "(string \<Rightarrow> string \<Rightarrow> bool) \<Rightarrow> refresh_request \<Rightarrow> flow_table \<Rightarrow> job_state \<Rightarrow> refresh_reply \<times> job_state" where
  "refresh_rules le q t st = (case rq_user q of
      None \<Rightarrow> (R_Unauthenticated, st)
    | Some u \<Rightarrow>
        if \<not> rq_admin q then (R_Admin_Only, st)
        else if \<not> present (rq_queue q) then (R_Unconfigured, st)
        else (case request_body (rq_body q) of
            None \<Rightarrow> (R_Too_Large, st)
          | Some body \<Rightarrow> (case targets_of le body t of
                Inl e \<Rightarrow> (e, st)
              | Inr ts \<Rightarrow> (case refresh_targets q u 0 ts st of (es, st') \<Rightarrow> (R_Jobs es, st')))))"

section \<open>What the jobs are\<close>

definition scan_job :: "user \<Rightarrow> refresh_entry \<Rightarrow> job_row \<Rightarrow> bool" where
  "scan_job u e x \<longleftrightarrow> re_job e = Some (j_id x) \<and> j_type x = ''sg_rule_scan'' \<and> j_owner x = Some (u_sub u)
     \<and> j_payload x = Some (scan_payload u (re_account e, re_region e)) \<and> j_key x = None \<and> \<not> j_dry_run x"

lemma entry_of_target [simp]: "re_account (entry_of t r) = fst t" "re_region (entry_of t r) = snd t"
  by (simp_all add: entry_of_def split: sum.splits enqueue_error.splits)

lemma enqueue_keyless:
  assumes "enqueue_job url fresh dlv ''sg_rule_scan'' (scan_payload u t) (scan_opts u) st = (r, st')" "present url"
  shows "(\<exists>x. ledger st' = ledger st @ [x] \<and> scan_job u (entry_of t r) x \<and>
        j_id x = fresh \<and> fresh \<notin> j_id ` set (ledger st)) \<or>
     (ledger st' = ledger st \<and> fresh \<in> j_id ` set (ledger st) \<and> re_job (entry_of t r) = None)"
proof -
  let ?row = "new_row fresh ''sg_rule_scan'' (scan_payload u t) (scan_opts u)"
  have row: "j_key ?row = None" "j_id ?row = fresh" "j_type ?row = ''sg_rule_scan''" "j_owner ?row = Some (u_sub u)"
    "j_payload ?row = Some (scan_payload u t)" "\<not> j_dry_run ?row"
    by (simp_all add: new_row_def scan_opts_def safe_payload_def scan_payload_def)
  show ?thesis
  proof (cases "fresh \<in> j_id ` set (ledger st)")
    case True
    then have "insert_job (ledger st) ?row = Unique_Violation (Some ''worker_jobs_pkey'')"
      by (auto simp: insert_job_def arbiter_conflict_def same_key_def row new_row_def scan_opts_def)
    then have "insert_or_get (ledger st) ?row = (Inl (Database_Error (Some ''worker_jobs_pkey'')), ledger st)"
      by (simp add: insert_or_get_def Let_def)
    with assms True show ?thesis by (auto simp: enqueue_job_def present_def entry_of_def)
  next
    case False
    then have "insert_job (ledger st) ?row = Inserted (ledger st @ [?row])"
      by (auto simp: insert_job_def arbiter_conflict_def same_key_def row new_row_def scan_opts_def)
    then have "insert_or_get (ledger st) ?row = (Inr ?row, ledger st @ [?row])"
      by (simp add: insert_or_get_def Let_def)
    with assms False row show ?thesis
      by (auto simp: enqueue_job_def present_def entry_of_def scan_job_def split: if_splits)
  qed
qed

text \<open>Every entry, in the order of the targets; the ledger grows by the jobs of the entries that have one.\<close>

lemma refresh_targets_ledger:
  assumes "refresh_targets q u n ts st = (es, st')" "present (rq_queue q)"
  shows "map (\<lambda>e. (re_account e, re_region e)) es = ts \<and>
    (\<exists>xs. ledger st' = ledger st @ xs \<and> list_all2 (scan_job u) (filter (\<lambda>e. re_job e \<noteq> None) es) xs)"
  using assms
proof (induction ts arbitrary: n st es)
  case (Cons t ts)
  obtain r st1 where e: "enqueue_job (rq_queue q) (rq_fresh q n) (rq_delivered q n) ''sg_rule_scan'' (scan_payload u t) (scan_opts u) st = (r, st1)"
    by fastforce
  obtain es1 where t: "refresh_targets q u (Suc n) ts st1 = (es1, st')" "es = entry_of t r # es1"
    using Cons.prems(1) e by (auto split: prod.splits)
  from Cons.IH [OF t(1) assms(2)] obtain xs where IH: "map (\<lambda>e. (re_account e, re_region e)) es1 = ts"
    "ledger st' = ledger st1 @ xs" "list_all2 (scan_job u) (filter (\<lambda>e. re_job e \<noteq> None) es1) xs" by blast
  from enqueue_keyless [OF e assms(2)] show ?case
  proof
    assume "\<exists>x. ledger st1 = ledger st @ [x] \<and> scan_job u (entry_of t r) x \<and> j_id x = rq_fresh q n \<and> rq_fresh q n \<notin> j_id ` set (ledger st)"
    then obtain x where "ledger st1 = ledger st @ [x]" "scan_job u (entry_of t r) x" by blast
    moreover have "re_job (entry_of t r) \<noteq> None" using calculation(2) by (simp add: scan_job_def)
    ultimately show ?case using IH t(2) by (intro conjI exI [of _ "x # xs"]) simp_all
  next
    assume "ledger st1 = ledger st \<and> rq_fresh q n \<in> j_id ` set (ledger st) \<and> re_job (entry_of t r) = None"
    then show ?case using IH t(2) by (intro conjI exI [of _ xs]) simp_all
  qed
qed simp

lemma targets_configured:
  assumes "targets_of le body t = Inr ts" "k \<in> set ts"
  shows "\<exists>s\<in>set (ft_rows t). sr_key s = k"
  using assms
  by (auto simp: targets_of_def Let_def get_flow_source_def list_enabled_flow_sources_def find_Some_iff
      split: if_splits option.splits)

lemma targets_refused: "targets_of le body t \<noteq> Inl (R_Jobs es)"
  by (auto simp: targets_of_def Let_def split: option.splits)

text \<open>
  A refresh answers with one entry per target, in order, every target a configured source. The
  ledger grows by exactly one scan job per entry that names one - of this caller, with that
  entry's account and region - whether or not the message could be sent, and by nothing else;
  requests that are refused leave the ledger and the queue as they were.
\<close>

theorem refresh_reports_its_jobs:
  assumes "refresh_rules le q t st = (R_Jobs es, st')"
  shows "\<exists>u xs. rq_user q = Some u \<and> rq_admin q \<and>
    (\<forall>e\<in>set es. \<exists>s\<in>set (ft_rows t). sr_key s = (re_account e, re_region e)) \<and>
    ledger st' = ledger st @ xs \<and> list_all2 (scan_job u) (filter (\<lambda>e. re_job e \<noteq> None) es) xs"
proof -
  obtain u body where v: "rq_user q = Some u" "rq_admin q" "present (rq_queue q)" "request_body (rq_body q) = Some body"
    using assms by (auto simp: refresh_rules_def split: option.splits if_splits)
  with assms obtain ts where u: "rq_user q = Some u" "rq_admin q" "present (rq_queue q)"
    "targets_of le body t = Inr ts" "refresh_targets q u 0 ts st = (es, st')"
    by (cases "targets_of le body t") (auto simp: refresh_rules_def targets_refused split: prod.splits)
  from refresh_targets_ledger [OF u(5,3)] obtain xs where x: "map (\<lambda>e. (re_account e, re_region e)) es = ts"
    "ledger st' = ledger st @ xs" "list_all2 (scan_job u) (filter (\<lambda>e. re_job e \<noteq> None) es) xs" by blast
  have "\<exists>s\<in>set (ft_rows t). sr_key s = (re_account e, re_region e)" if "e \<in> set es" for e
    using targets_configured [OF u(4)] x(1) that by (metis (no_types, lifting) image_eqI set_map)
  with u x show ?thesis by blast
qed

definition demo_table :: flow_table where
  "demo_table = put_row \<lparr>sr_id = 0, sr_account = ''123456789012'', sr_region = ''us-east-1'', sr_workgroup = ''w'',
     sr_database = ''d'', sr_table = ''t'', sr_enabled = True, sr_validation = JNull, sr_created_by = ''s'',
     sr_created_at = 0, sr_updated_at = 0\<rparr> empty_table"

definition demo_refresh :: refresh_request where
  "demo_refresh = \<lparr>rq_user = Some \<lparr>u_sub = ''s'', u_email = None, u_groups = None, u_iat = None\<rparr>, rq_admin = True,
     rq_queue = Some ''url'', rq_body = Inl Syntax_Error, rq_fresh = (\<lambda>n. show_nat n), rq_delivered = (\<lambda>n. False)\<rparr>"

theorem refresh_reports_its_jobs_witness:
  "\<exists>xs. ledger (snd (refresh_rules (\<le>) demo_refresh demo_table \<lparr>ledger = [], queue = []\<rparr>)) = xs \<and> length xs = 1"
proof -
  let ?e = "\<lparr>re_account = ''123456789012'', re_region = ''us-east-1'', re_job = Some ''0'', re_error = Some Delivery_Failed\<rparr>"
  let ?st = "snd (refresh_rules (\<le>) demo_refresh demo_table \<lparr>ledger = [], queue = []\<rparr>)"
  have "fst (refresh_rules (\<le>) demo_refresh demo_table \<lparr>ledger = [], queue = []\<rparr>) = R_Jobs [?e]" by code_simp
  then have "refresh_rules (\<le>) demo_refresh demo_table \<lparr>ledger = [], queue = []\<rparr> = (R_Jobs [?e], ?st)"
    by (metis prod.collapse)
  from refresh_reports_its_jobs [OF this] show ?thesis by (auto dest!: list_all2_lengthD)
qed

end
