(* ===== verification/Statement_Race.thy ===== *)
theory Statement_Race
  imports Main
begin

text \<open>
  \<open>withStatementTimeout\<close> and \<open>runInTimeoutScopedTransaction\<close> of \<open>web/lib/auth.ts\<close>: a pooled
  transaction raced against a timer. The two run concurrently and share the race state, so the
  model is a step relation whose steps are the stretches between two awaits.
\<close>

section \<open>State\<close>

text \<open>The statements of the transaction, in the order they are issued.\<close>

datatype statement = Stmt_Begin | Stmt_Set_Timeout | Stmt_Query | Stmt_Commit | Stmt_Rollback

text \<open>How a connection leaves: \<open>release()\<close> to the pool, or \<open>release(true)\<close>.\<close>

datatype disposal = Released | Destroyed

datatype 'a settled = Value 'a | Error | Timed_Out

text \<open>Where the transaction is: waiting for a connection, for a statement, or finished.\<close>

datatype 'a phase = Connecting | Waiting statement "'a option" | Finished

record 'a race =
  client :: bool
  released :: bool
  cancelled :: bool
  phase :: "'a phase"
  timer_armed :: bool
  settled :: "'a settled option"
  issued :: "statement list"
  disposals :: "disposal list"

definition race_start :: "'a race" where
  "race_start = \<lparr>client = False, released = False, cancelled = False, phase = Connecting,
     timer_armed = True, settled = None, issued = [], disposals = []\<rparr>"

section \<open>The stretches between awaits\<close>

definition dispose :: "disposal \<Rightarrow> 'a race \<Rightarrow> 'a race" where
  "dispose d s = (if released s then s else s\<lparr>released := True, disposals := disposals s @ [d]\<rparr>)"

text \<open>The race settles with the first outcome, and its \<open>finally\<close> clears the timer.\<close>

definition settle :: "'a settled \<Rightarrow> 'a race \<Rightarrow> 'a race" where
  "settle v s = (if settled s = None then s\<lparr>settled := Some v, timer_armed := False\<rparr> else s)"

definition send :: "statement \<Rightarrow> 'a option \<Rightarrow> 'a race \<Rightarrow> 'a race" where
  "send q r s = s\<lparr>phase := Waiting q r, issued := issued s @ [q]\<rparr>"

definition finish :: "'a settled \<Rightarrow> 'a race \<Rightarrow> 'a race" where
  "finish v s = settle v (dispose Released (s\<lparr>phase := Finished\<rparr>))"

text \<open>\<open>connect()\<close> resolves: a cancelled race hands the connection straight back.\<close>

definition on_connected :: "'a race \<Rightarrow> 'a race" where
  "on_connected s = (if cancelled s then finish Error (s\<lparr>client := True\<rparr>)
                     else send Stmt_Begin None (s\<lparr>client := True\<rparr>))"

definition on_connect_error :: "'a race \<Rightarrow> 'a race" where
  "on_connect_error s = settle Error (s\<lparr>phase := Finished\<rparr>)"

text \<open>A statement succeeds; the query's result is kept until the commit.\<close>

definition on_done :: "statement \<Rightarrow> 'a option \<Rightarrow> 'a \<Rightarrow> 'a race \<Rightarrow> 'a race" where
  "on_done q r v s =
     (case q of
        Stmt_Begin \<Rightarrow> send Stmt_Set_Timeout None s
      | Stmt_Set_Timeout \<Rightarrow> send Stmt_Query None s
      | Stmt_Query \<Rightarrow> send Stmt_Commit (Some v) s
      | Stmt_Commit \<Rightarrow> finish (case r of Some x \<Rightarrow> Value x | None \<Rightarrow> Error) s
      | Stmt_Rollback \<Rightarrow> finish Error s)"

text \<open>A statement fails: roll back; a failing rollback is ignored.\<close>

definition on_failed :: "statement \<Rightarrow> 'a race \<Rightarrow> 'a race" where
  "on_failed q s = (if q = Stmt_Rollback then finish Error s else send Stmt_Rollback None s)"

definition on_timer :: "'a race \<Rightarrow> 'a race" where
  "on_timer s = settle Timed_Out
     ((if client s then dispose Destroyed else id) (s\<lparr>cancelled := True\<rparr>))"

inductive race_step :: "'a race \<Rightarrow> 'a race \<Rightarrow> bool" where
  connected: "phase s = Connecting \<Longrightarrow> race_step s (on_connected s)"
| connect_error: "phase s = Connecting \<Longrightarrow> race_step s (on_connect_error s)"
| stmt_done: "phase s = Waiting q r \<Longrightarrow> race_step s (on_done q r v s)"
| stmt_failed: "phase s = Waiting q r \<Longrightarrow> race_step s (on_failed q s)"
| timer: "timer_armed s \<Longrightarrow> race_step s (on_timer s)"

inductive_cases race_stepE: "race_step s s'"

inductive race_steps :: "'a race \<Rightarrow> 'a race \<Rightarrow> bool" where
  stop: "race_steps s s"
| extend: "race_steps s s' \<Longrightarrow> race_step s' s'' \<Longrightarrow> race_steps s s''"

lemmas race_ops = dispose_def settle_def send_def finish_def on_connected_def on_connect_error_def
  on_done_def on_failed_def on_timer_def

lemma race_steps_inv:
  assumes "race_steps s s'" "P s" "\<And>s s'. P s \<Longrightarrow> race_step s s' \<Longrightarrow> P s'"
  shows "P s'"
  using assms by (induction rule: race_steps.induct) auto

section \<open>Invariant\<close>

text \<open>
  The disposal record mirrors \<open>released\<close>; a client exists exactly beyond the connection wait
  (except after a failed connect); the timer is armed until the race settles.
\<close>

definition race_ok :: "'a race \<Rightarrow> bool" where
  "race_ok s \<longleftrightarrow>
     (disposals s = [] \<and> \<not> released s \<or>
      released s \<and> client s \<and> (disposals s = [Destroyed] \<and> cancelled s \<or> disposals s = [Released] \<and> phase s = Finished)) \<and>
     (phase s = Connecting \<longrightarrow> \<not> client s \<and> issued s = []) \<and>
     (\<forall>q r. phase s = Waiting q r \<longrightarrow> client s \<and> (cancelled s \<longrightarrow> released s) \<and> (q = Stmt_Commit \<longrightarrow> r \<noteq> None)) \<and>
     (phase s = Finished \<and> client s \<longrightarrow> released s) \<and>
     (cancelled s \<longleftrightarrow> settled s = Some Timed_Out) \<and>
     (timer_armed s \<longleftrightarrow> settled s = None) \<and>
     (phase s = Finished \<longrightarrow> settled s \<noteq> None) \<and>
     (issued s \<noteq> [] \<longrightarrow> client s)"

lemma race_ok_start: "race_ok race_start"
  by (simp add: race_ok_def race_start_def)

lemma race_ok_connected: "race_ok s \<Longrightarrow> phase s = Connecting \<Longrightarrow> race_ok (on_connected s)"
  by (auto simp: race_ok_def race_ops)

lemma race_ok_connect_error: "race_ok s \<Longrightarrow> phase s = Connecting \<Longrightarrow> race_ok (on_connect_error s)"
  by (auto simp: race_ok_def race_ops)

lemma race_ok_send: "race_ok s \<Longrightarrow> phase s = Waiting p r \<Longrightarrow> (q = Stmt_Commit \<longrightarrow> v \<noteq> None) \<Longrightarrow> race_ok (send q v s)"
  by (auto simp: race_ok_def race_ops)

lemma race_ok_finish: "race_ok s \<Longrightarrow> phase s = Waiting p r \<Longrightarrow> v \<noteq> Timed_Out \<Longrightarrow> race_ok (finish v s)"
  by (auto simp: race_ok_def race_ops)

lemma race_ok_timer: "race_ok s \<Longrightarrow> timer_armed s \<Longrightarrow> race_ok (on_timer s)"
  by (auto simp: race_ok_def race_ops)

lemma race_ok_step:
  assumes "race_ok s" "race_step s s'"
  shows "race_ok s'"
  using assms(2)
proof (cases rule: race_step.cases)
  case (stmt_done q r v)
  then show ?thesis using assms(1)
    by (cases q) (auto simp: on_done_def split: option.splits intro: race_ok_send race_ok_finish)
next
  case (stmt_failed q r)
  then show ?thesis using assms(1) by (auto simp: on_failed_def intro: race_ok_send race_ok_finish)
qed (use assms(1) in \<open>auto intro: race_ok_connected race_ok_connect_error race_ok_timer\<close>)

lemma race_ok_steps: "race_steps s s' \<Longrightarrow> race_ok s \<Longrightarrow> race_ok s'"
  by (erule race_steps_inv) (auto intro: race_ok_step)

section \<open>Theorems\<close>

text \<open>
  C12. The pool loses no connection and gets none back twice: along every interleaving a
  connection is disposed of at most once, exactly once when the transaction has finished, is
  returned to the pool only when no statement of the transaction can still be in flight, and is
  destroyed only if the timer won.
\<close>

theorem connection_disposed_once:
  assumes "race_steps race_start s"
  shows "length (disposals s) \<le> 1 \<and> (phase s = Finished \<and> client s \<longrightarrow> length (disposals s) = 1) \<and>
    (Released \<in> set (disposals s) \<longrightarrow> phase s = Finished) \<and>
    (Destroyed \<in> set (disposals s) \<longrightarrow> settled s = Some Timed_Out)"
  using race_ok_steps [OF assms race_ok_start] unfolding race_ok_def by auto

definition idle_after_cancel :: "'a race \<Rightarrow> bool" where
  "idle_after_cancel s \<longleftrightarrow> issued s = [] \<and> cancelled s \<and> \<not> timer_armed s \<and> settled s \<noteq> None \<and>
     (phase s = Connecting \<and> disposals s = [] \<and> \<not> released s \<and> \<not> client s \<or>
      phase s = Finished \<and> (client s \<longrightarrow> disposals s = [Released]))"

lemma idle_step: "idle_after_cancel s \<Longrightarrow> race_step s s' \<Longrightarrow> idle_after_cancel s'"
  by (erule race_stepE) (auto simp: idle_after_cancel_def race_ops)

theorem connection_disposed_once_witness:
  "length (disposals (on_timer (on_connected (race_start :: nat race)))) \<le> 1"
proof -
  let ?s = "race_start :: nat race"
  have "race_step ?s (on_connected ?s)" by (rule race_step.connected) (simp add: race_start_def)
  moreover have "race_step (on_connected ?s) (on_timer (on_connected ?s))"
    by (rule race_step.timer) (simp add: race_start_def race_ops)
  ultimately have "race_steps ?s (on_timer (on_connected ?s))" by (blast intro: race_steps.intros)
  from connection_disposed_once [OF this] show ?thesis by blast
qed

text \<open>
  C37. No caller waits forever: in every state either the race has settled or the timer can
  still fire, and firing settles it; and a race cancelled before it had a connection never
  sends a statement on the one it gets, but hands it back at once.
\<close>

theorem settles_and_sheds_load:
  assumes "race_steps race_start s"
  shows "(settled s = None \<longrightarrow> race_step s (on_timer s) \<and> settled (on_timer s) = Some Timed_Out) \<and>
    (phase s = Connecting \<and> cancelled s \<longrightarrow>
       (\<forall>s'. race_steps s s' \<longrightarrow> issued s' = [] \<and> (client s' \<longrightarrow> disposals s' = [Released])))"
proof -
  have ok: "race_ok s" by (rule race_ok_steps [OF assms race_ok_start])
  have "race_step s (on_timer s) \<and> settled (on_timer s) = Some Timed_Out" if "settled s = None"
  proof -
    have armed: "timer_armed s" using ok that by (simp add: race_ok_def)
    have "settled (on_timer s) = Some Timed_Out" using that by (auto simp: race_ops)
    then show ?thesis using race_step.timer [OF armed] by simp
  qed
  moreover have "issued s' = [] \<and> (client s' \<longrightarrow> disposals s' = [Released])"
    if "phase s = Connecting" "cancelled s" "race_steps s s'" for s'
  proof -
    have "idle_after_cancel s" using ok that(1,2) by (auto simp: race_ok_def idle_after_cancel_def)
    with that(3) have "idle_after_cancel s'" by (rule race_steps_inv) (rule idle_step)
    then show ?thesis by (auto simp: idle_after_cancel_def)
  qed
  ultimately show ?thesis by blast
qed

theorem settles_and_sheds_load_witness:
  "race_step race_start (on_timer (race_start :: nat race)) \<and> settled (on_timer (race_start :: nat race)) = Some Timed_Out"
  using settles_and_sheds_load [OF race_steps.stop, where 'a = nat] by (simp add: race_start_def)

section \<open>The statements sent\<close>

definition script :: "statement list" where
  "script = [Stmt_Begin, Stmt_Set_Timeout, Stmt_Query, Stmt_Commit]"

definition rolled_back :: "statement list \<Rightarrow> bool" where
  "rolled_back qs \<longleftrightarrow> (\<exists>n\<in>{1..4}. qs = take n script @ [Stmt_Rollback])"

definition trace_ok :: "'a race \<Rightarrow> bool" where
  "trace_ok s \<longleftrightarrow>
     (case phase s of
        Connecting \<Rightarrow> issued s = []
      | Waiting q r \<Rightarrow>
          (case q of Stmt_Begin \<Rightarrow> issued s = take 1 script | Stmt_Set_Timeout \<Rightarrow> issued s = take 2 script
           | Stmt_Query \<Rightarrow> issued s = take 3 script | Stmt_Commit \<Rightarrow> issued s = script
           | Stmt_Rollback \<Rightarrow> rolled_back (issued s))
      | Finished \<Rightarrow> issued s = [] \<or> issued s = script \<or> rolled_back (issued s)) \<and>
     (\<forall>v. settled s = Some (Value v) \<longrightarrow> phase s = Finished \<and> issued s = script)"

lemma trace_ok_stmt_done:
  "trace_ok s \<Longrightarrow> phase s = Waiting q r \<Longrightarrow> trace_ok (on_done q r v s)"
  by (cases q) (auto simp: trace_ok_def race_ops script_def split: option.splits)

lemma trace_ok_stmt_failed:
  assumes "trace_ok s" "phase s = Waiting q r"
  shows "trace_ok (on_failed q s)"
proof (cases "q = Stmt_Rollback")
  case True
  then show ?thesis using assms by (auto simp: trace_ok_def race_ops)
next
  case False
  have "rolled_back (issued s @ [Stmt_Rollback])"
  proof (cases q)
    case Stmt_Begin
    then show ?thesis using assms by (auto simp: trace_ok_def rolled_back_def intro: bexI [of _ 1])
  next
    case Stmt_Set_Timeout
    then show ?thesis using assms by (auto simp: trace_ok_def rolled_back_def intro: bexI [of _ 2])
  next
    case Stmt_Query
    then show ?thesis using assms by (auto simp: trace_ok_def rolled_back_def intro: bexI [of _ 3])
  next
    case Stmt_Commit
    then show ?thesis using assms by (auto simp: trace_ok_def rolled_back_def script_def intro: bexI [of _ 4])
  qed (use False in simp)
  then show ?thesis using False assms by (auto simp: trace_ok_def race_ops)
qed

lemma trace_ok_step: "trace_ok s \<Longrightarrow> race_step s s' \<Longrightarrow> trace_ok s'"
proof (erule race_stepE)
  assume "trace_ok s" "s' = on_connected s" "phase s = Connecting"
  then show ?thesis by (auto simp: trace_ok_def race_ops script_def)
next
  assume "trace_ok s" "s' = on_connect_error s" "phase s = Connecting"
  then show ?thesis by (auto simp: trace_ok_def race_ops)
next
  assume "trace_ok s" "s' = on_timer s"
  moreover have "issued (on_timer s) = issued s" "phase (on_timer s) = phase s"
    "settled (on_timer s) = (case settled s of None \<Rightarrow> Some Timed_Out | Some v \<Rightarrow> Some v)"
    by (simp_all add: race_ops split: option.splits)
  ultimately show ?thesis
    by (cases "phase s") (auto simp: trace_ok_def split: option.splits statement.splits)
qed (simp_all add: trace_ok_stmt_done trace_ok_stmt_failed)

text \<open>
  The query only ever runs behind its server-side limit, and a result is only ever
  reported for committed work: the statements sent are BEGIN, SET LOCAL statement_timeout, the
  query, COMMIT in this order, cut off at some point by at most one ROLLBACK, and the caller
  gets a value only after all four of them.
\<close>

theorem value_only_after_commit:
  assumes "race_steps race_start s"
  shows "(issued s = take (length (issued s)) script \<or> rolled_back (issued s)) \<and>
    (\<forall>v. settled s = Some (Value v) \<longrightarrow> issued s = script \<and> disposals s = [Released])"
proof -
  have "trace_ok race_start" by (simp add: trace_ok_def race_start_def)
  with assms have t: "trace_ok s" by (rule race_steps_inv) (rule trace_ok_step)
  have ok: "race_ok s" by (rule race_ok_steps [OF assms race_ok_start])
  have "issued s = take (length (issued s)) script \<or> rolled_back (issued s)"
    using t by (cases "phase s") (auto simp: trace_ok_def script_def split: statement.splits)
  moreover have "issued s = script \<and> disposals s = [Released]" if v: "settled s = Some (Value v)" for v
  proof -
    have f: "phase s = Finished" "issued s = script" using t v by (auto simp: trace_ok_def)
    with f show ?thesis using ok v unfolding race_ok_def by (auto simp: script_def)
  qed
  ultimately show ?thesis by blast
qed

lemma full_run:
  "\<exists>s. race_steps race_start s \<and> settled s = Some (Value (7 :: nat))"
proof -
  let ?s1 = "on_connected (race_start :: nat race)"
  let ?s2 = "on_done Stmt_Begin None 0 ?s1"
  let ?s3 = "on_done Stmt_Set_Timeout None 0 ?s2"
  let ?s4 = "on_done Stmt_Query None 7 ?s3"
  let ?s5 = "on_done Stmt_Commit (Some 7) 0 ?s4"
  have 1: "race_step race_start ?s1" by (rule race_step.connected) (simp add: race_start_def)
  have 2: "race_step ?s1 ?s2" by (rule race_step.stmt_done) (simp add: race_start_def race_ops)
  have 3: "race_step ?s2 ?s3" by (rule race_step.stmt_done) (simp add: race_start_def race_ops)
  have 4: "race_step ?s3 ?s4" by (rule race_step.stmt_done) (simp add: race_start_def race_ops)
  have 5: "race_step ?s4 ?s5" by (rule race_step.stmt_done) (simp add: race_start_def race_ops)
  have "race_steps race_start ?s5" using 1 2 3 4 5 by (meson race_steps.intros)
  moreover have "settled ?s5 = Some (Value 7)" by (simp add: race_start_def race_ops)
  ultimately show ?thesis by blast
qed

theorem value_only_after_commit_witness:
  "\<exists>s :: nat race. settled s = Some (Value 7) \<and> issued s = script \<and> disposals s = [Released]"
proof -
  obtain s where s: "race_steps race_start s" "settled s = Some (Value (7 :: nat))" using full_run by blast
  with value_only_after_commit [OF s(1)] show ?thesis by blast
qed

end
