(* ===== verification/Customization.thy ===== *)
theory Customization
  imports Catalog Auth Http_Body
begin

text \<open>
  The administration handlers of \<^verbatim>\<open>web/app/api/customization/route.ts\<close> over the catalog's
  tables. The caller's identity and the admin decision are results of other components and come
  in as arguments; so does \<open>Number(v)\<close>, as \<open>number_of\<close>, which gives no value for a \<open>NaN\<close> or a
  fraction. A handler whose query fails answers 500.
\<close>

record caller =
  cl_user :: "user option"
  cl_admin :: bool
  cl_aurora :: bool

record reply =
  rp_status :: nat
  rp_error :: string
  rp_value :: "int option"

definition refuse :: "nat \<Rightarrow> string \<Rightarrow> reply" where
  "refuse status e = \<lparr>rp_status = status, rp_error = e, rp_value = None\<rparr>"

definition accept :: "int option \<Rightarrow> reply" where
  "accept v = \<lparr>rp_status = 200, rp_error = [], rp_value = v\<rparr>"

definition gate :: "caller \<Rightarrow> reply + user" where
  "gate k = (case cl_user k of
      None \<Rightarrow> Inl (refuse 401 ''unauthenticated'')
    | Some u \<Rightarrow>
        if \<not> cl_admin k then Inl (refuse 403 ''admin access required'')
        else if \<not> cl_aurora k then Inl (refuse 400 ''Aurora not configured'')
        else Inr u)"

definition read_body :: "body_error + js \<Rightarrow> reply + js" where
  "read_body b = (case b of
      Inl Body_Too_Large \<Rightarrow> Inl (refuse 413 ''request body too large'')
    | Inl Syntax_Error \<Rightarrow> Inl (refuse 400 ''invalid JSON'')
    | Inr v \<Rightarrow> (case v of JObj _ \<Rightarrow> Inr v | _ \<Rightarrow> Inl (refuse 400 ''body must be an object'')))"

definition actor_of :: "user \<Rightarrow> string" where
  "actor_of u = or_default (u_email u) (u_sub u)"

definition optional_text :: "js \<Rightarrow> string option" where
  "optional_text v = (if truthy v then Some (to_string v) else None)"

definition skill_of_body :: "user \<Rightarrow> js \<Rightarrow> skill_input" where
  "skill_of_body u b =
     \<lparr>si_name = to_string (attr b ''name''), si_description = to_string (attr b ''description''),
      si_instructions = to_string (attr b ''instructions''),
      si_tools = or_default (string_array (attr b ''toolAllowlist'')) [], si_tier = Custom,
      si_created_by = u_email u, si_agent_types = string_array (attr b ''agentTypes''),
      si_references = string_array (attr b ''referenceKeys'')\<rparr>"

definition agent_of_body :: "user \<Rightarrow> js \<Rightarrow> agent_input" where
  "agent_of_body u b =
     \<lparr>ai_name = to_string (attr b ''name''), ai_description = to_string (attr b ''description''),
      ai_persona = to_string (coalesce (attr b ''persona'') (JStr [])),
      ai_keywords = or_default (string_array (attr b ''routingKeywords'')) [],
      ai_gateway = to_string (attr b ''gateway''), ai_model = optional_text (attr b ''model''), ai_tier = Custom,
      ai_created_by = u_email u, ai_type = optional_text (attr b ''agentType''),
      ai_gateways = string_array (attr b ''gateways''),
      ai_language = optional_text (attr b ''responseLanguage'')\<rparr>"

definition audit_entry :: "user \<Rightarrow> string \<Rightarrow> string \<Rightarrow> string \<Rightarrow> audit" where
  "audit_entry u action ty n = \<lparr>au_actor = actor_of u, au_action = action, au_type = ty, au_object = n\<rparr>"

definition store_reply :: "user \<Rightarrow> string \<Rightarrow> (string + int) \<times> catalog \<Rightarrow> reply \<times> catalog" where
  "store_reply u ty r = (case r of
      (Inl e, c) \<Rightarrow> (refuse 409 e, c)
    | (Inr n, c) \<Rightarrow> (accept (Some n), write_audit (audit_entry u ''upsert'' ty (show_int n)) c))"

definition post_object :: "(string \<Rightarrow> string) \<Rightarrow> user \<Rightarrow> js \<Rightarrow> catalog \<Rightarrow> reply \<times> catalog" where
  "post_object sha u b c =
     (if attr b ''kind'' = JStr ''skill'' then
        (if v_ok (validate_skill b) then store_reply u ''skill'' (upsert_skill sha (skill_of_body u b) c)
         else (refuse 400 ''invalid skill'', c))
      else if attr b ''kind'' = JStr ''agent'' then
        (if v_ok (validate_agent b) then store_reply u ''agent'' (upsert_agent (agent_of_body u b) c)
         else (refuse 400 ''invalid agent'', c))
      else (refuse 400 ''kind must be skill|agent'', c))"

definition kind_of :: "js \<Rightarrow> object_kind option" where
  "kind_of b =
     (if attr b ''kind'' = JStr ''skill'' then Some Skill_Kind
      else if attr b ''kind'' = JStr ''agent'' then Some Agent_Kind else None)"

definition put_enable :: "(js \<Rightarrow> int option) \<Rightarrow> user \<Rightarrow> js \<Rightarrow> bool \<Rightarrow> catalog \<Rightarrow> reply \<times> catalog" where
  "put_enable number_of u b on c = (case kind_of b of
      None \<Rightarrow> (refuse 400 ''kind must be skill|agent'', c)
    | Some k \<Rightarrow> (case number_of (attr b ''id'') of
          None \<Rightarrow> (refuse 500 ''query failed'', c)
        | Some n \<Rightarrow> (accept None,
            write_audit (audit_entry u (to_string (attr b ''op'')) (to_string (attr b ''kind'')) (to_string (attr b ''id'')))
              (set_enabled k n on c))))"

definition positive_id :: "js \<Rightarrow> int option" where
  "positive_id v = (case v of
      JNum n \<Rightarrow> if n \<le> 9007199254740991 \<and> 0 < n then Some n else None
    | _ \<Rightarrow> None)"

definition put_attach :: "user \<Rightarrow> js \<Rightarrow> catalog \<Rightarrow> reply \<times> catalog" where
  "put_attach u b c = (case (positive_id (attr b ''agentId''), positive_id (attr b ''skillId'')) of
      (Some a, Some s) \<Rightarrow>
        (case (find (\<lambda>r. a_id r = a) (c_agents c), find (\<lambda>r. s_id r = s) (c_skills c)) of
           (Some agent, Some skill) \<Rightarrow>
             if a_tier agent \<noteq> Custom then (refuse 403 ''Built-in agents cannot be customized'', c)
             else if \<not> s_enabled skill then (refuse 409 ''Enable the skill before attaching it'', c)
             else (case attach_skill a s c of
                 (Inl e, c') \<Rightarrow> (refuse 500 e, c')
               | (Inr k, c') \<Rightarrow> (accept (Some k),
                   write_audit (audit_entry u ''attach'' ''agent_skill'' (show_int a @ '':'' @ show_int s)) c'))
         | _ \<Rightarrow> (refuse 404 ''Agent or skill not found'', c))
    | _ \<Rightarrow> (refuse 400 ''positive integer agentId/skillId required'', c))"

definition finite_ids :: "(js \<Rightarrow> int option) \<Rightarrow> js \<Rightarrow> int list" where
  "finite_ids number_of v = concat (map (\<lambda>x. case number_of x of None \<Rightarrow> [] | Some n \<Rightarrow> [n]) (as_array v))"

definition put_space :: "(js \<Rightarrow> int option) \<Rightarrow> string \<Rightarrow> user \<Rightarrow> js \<Rightarrow> catalog \<Rightarrow> reply \<times> catalog" where
  "put_space number_of acct u b c =
     (let sp = new_space acct (finite_ids number_of (attr b ''enabledAgentIds''))
          (finite_ids number_of (attr b ''enabledSkillIds''))
          (finite_ids number_of (attr b ''enabledIntegrationIds''))
          (map to_string (as_array (attr b ''toolAllowlist'')));
        c' = upsert_agent_space (actor_of u) sp c
      in (accept (map_option sp_version (get_agent_space acct c')), c'))"

definition put_object :: "(js \<Rightarrow> int option) \<Rightarrow> string \<Rightarrow> user \<Rightarrow> js \<Rightarrow> catalog \<Rightarrow> reply \<times> catalog" where
  "put_object number_of acct u b c =
     (if attr b ''op'' = JStr ''enable'' then put_enable number_of u b True c
      else if attr b ''op'' = JStr ''disable'' then put_enable number_of u b False c
      else if attr b ''op'' = JStr ''attach'' then put_attach u b c
      else if attr b ''op'' = JStr ''space'' then put_space number_of acct u b c
      else (refuse 400 ''unknown op'', c))"

datatype verb = Post | Put

definition handle ::
  "(string \<Rightarrow> string) \<Rightarrow> (js \<Rightarrow> int option) \<Rightarrow> string \<Rightarrow> verb \<Rightarrow> caller \<Rightarrow> body_error + js \<Rightarrow> catalog \<Rightarrow> reply \<times> catalog" where
  "handle sha number_of acct v k b c = (case gate k of
      Inl r \<Rightarrow> (r, c)
    | Inr u \<Rightarrow> (case read_body b of
          Inl r \<Rightarrow> (r, c)
        | Inr o' \<Rightarrow> (case v of
              Post \<Rightarrow> post_object sha u o' c
            | Put \<Rightarrow> put_object number_of acct u o' c)))"

section \<open>Each request is a few catalog steps\<close>

definition audited :: "user \<Rightarrow> catalog \<Rightarrow> reply \<times> catalog \<Rightarrow> bool" where
  "audited u c r \<longleftrightarrow>
     (if rp_status (fst r) = 200
      then \<exists>a. c_audit (snd r) = c_audit c @ [a] \<and> au_actor a = actor_of u
      else c_audit (snd r) = c_audit c)"

definition steps_to :: "(string \<Rightarrow> string) \<Rightarrow> user \<Rightarrow> catalog \<Rightarrow> reply \<times> catalog \<Rightarrow> bool" where
  "steps_to sha u c r \<longleftrightarrow> (catalog_step sha)\<^sup>*\<^sup>* c (snd r) \<and> audited u c r"

lemma two_steps: "catalog_step sha c c1 \<Longrightarrow> catalog_step sha c1 c2 \<Longrightarrow> (catalog_step sha)\<^sup>*\<^sup>* c c2"
  by (meson converse_rtranclp_into_rtranclp r_into_rtranclp)

lemma steps_refuse [simp]: "status \<noteq> 200 \<Longrightarrow> steps_to sha u c (refuse status e, c)"
  by (simp add: steps_to_def audited_def refuse_def)

lemma steps_audited:
  assumes "catalog_step sha c c'" "c_audit c' = c_audit c" "au_actor a = actor_of u"
  shows "steps_to sha u c (accept v, write_audit a c')"
  using two_steps [OF assms(1) step_audit] assms(2,3)
  by (simp add: steps_to_def audited_def accept_def write_audit_def)

lemma steps_stored_skill:
  assumes "si_tier i = Custom"
  shows "steps_to sha u c (store_reply u ty (upsert_skill sha i c))"
proof (cases rule: upsert_skill_cases [of sha i c])
  case refused
  have "catalog_step sha c (c\<lparr>c_next_skill := c_next_skill c + 1\<rparr>)"
    using step_skill [where sha = sha and c = c, OF assms] by (simp add: refused(1))
  then show ?thesis by (simp add: refused(1) store_reply_def steps_to_def audited_def refuse_def r_into_rtranclp)
next
  case (stored rows n)
  have "catalog_step sha c (c\<lparr>c_next_skill := c_next_skill c + 1, c_skills := rows\<rparr>)"
    using step_skill [where sha = sha and c = c, OF assms] by (simp add: stored(2))
  then show ?thesis by (simp add: stored(2) store_reply_def steps_audited audit_entry_def)
qed

lemma steps_stored_agent:
  assumes "ai_tier i = Custom"
  shows "steps_to sha u c (store_reply u ty (upsert_agent i c))"
proof (cases rule: upsert_agent_cases [of i c])
  case refused
  have "catalog_step sha c (c\<lparr>c_next_agent := c_next_agent c + 1\<rparr>)"
    using step_agent [where sha = sha and c = c, OF assms] by (simp add: refused(1))
  then show ?thesis by (simp add: refused(1) store_reply_def steps_to_def audited_def refuse_def r_into_rtranclp)
next
  case (stored rows n)
  have "catalog_step sha c (c\<lparr>c_next_agent := c_next_agent c + 1, c_agents := rows\<rparr>)"
    using step_agent [where sha = sha and c = c, OF assms] by (simp add: stored(2))
  then show ?thesis by (simp add: stored(2) store_reply_def steps_audited audit_entry_def)
qed

lemma steps_post: "steps_to sha u c (post_object sha u b c)"
  by (simp add: post_object_def steps_stored_skill steps_stored_agent skill_of_body_def agent_of_body_def)

lemma steps_enable: "steps_to sha u c (put_enable number_of u b on c)"
proof (cases "kind_of b")
  case (Some k)
  then show ?thesis
    by (cases "number_of (attr b ''id'')"; cases k)
      (auto simp: put_enable_def audit_entry_def set_enabled_def intro!: steps_audited
        step_enable [of sha c Skill_Kind, unfolded set_enabled_def, simplified]
        step_enable [of sha c Agent_Kind, unfolded set_enabled_def, simplified])
qed (simp add: put_enable_def)

lemma steps_attach: "steps_to sha u c (put_attach u b c)"
proof -
  have attached: "steps_to sha u c (case attach_skill a s c of
      (Inl e, c') \<Rightarrow> (refuse 500 e, c')
    | (Inr k, c') \<Rightarrow> (accept (Some k), write_audit (audit_entry u ''attach'' ''agent_skill'' n) c'))" for a s n
  proof (cases rule: attach_skill_cases [of a s c])
    case (kept l)
    have "catalog_step sha c c" using step_attach [of sha c a s] by (simp add: kept(2))
    then show ?thesis by (simp add: kept(2) steps_audited audit_entry_def)
  next
    case added
    have "catalog_step sha c (snd (attach_skill a s c))" by (rule step_attach)
    then show ?thesis by (simp add: added(4) steps_audited audit_entry_def)
  qed simp
  then show ?thesis
    by (auto simp: put_attach_def split: option.splits)
qed

lemma steps_space: "steps_to sha u c (put_space number_of acct u b c)"
proof -
  have "steps_to sha u c (accept v, upsert_agent_space (actor_of u) (new_space acct ags sks ints tools) c)"
    for v ags sks ints tools
    using r_into_rtranclp [of "catalog_step sha", OF step_space [of sha c "actor_of u" acct ags sks ints tools]]
    by (simp add: steps_to_def audited_def accept_def upsert_agent_space_def write_audit_def)
  then show ?thesis unfolding put_space_def Let_def .
qed

lemma steps_put: "steps_to sha u c (put_object number_of acct u b c)"
  by (simp add: put_object_def steps_enable steps_attach steps_space)

lemma read_body_refusal: "read_body b = Inl r \<Longrightarrow> rp_status r \<noteq> 200"
  by (auto simp: read_body_def refuse_def split: sum.splits body_error.splits js.splits)

lemma handle_gated:
  obtains (refused) r where "gate k = Inl r" "handle sha number_of acct v k b c = (r, c)"
  | (admitted) u where "gate k = Inr u" "steps_to sha u c (handle sha number_of acct v k b c)"
proof (cases "gate k")
  case (Inr u)
  have "steps_to sha u c (handle sha number_of acct v k b c)"
  proof (cases "read_body b")
    case (Inl r)
    then show ?thesis using read_body_refusal [OF Inl] by (simp add: handle_def Inr steps_to_def audited_def)
  next
    case (Inr o')
    then show ?thesis using \<open>gate k = Inr u\<close> by (cases v) (simp_all add: handle_def steps_post steps_put)
  qed
  with Inr show thesis by (rule admitted)
qed (simp add: handle_def refused)

section \<open>Properties\<close>

type_synonym admin_request = "verb \<times> caller \<times> (body_error + js)"

definition run_requests ::
  "(string \<Rightarrow> string) \<Rightarrow> (js \<Rightarrow> int option) \<Rightarrow> string \<Rightarrow> admin_request list \<Rightarrow> catalog \<Rightarrow> catalog" where
  "run_requests sha number_of acct rs c = foldl (\<lambda>c (v, k, b). snd (handle sha number_of acct v k b c)) c rs"

lemma run_requests_steps: "(catalog_step sha)\<^sup>*\<^sup>* c (run_requests sha number_of acct rs c)"
proof (induction rs arbitrary: c)
  case (Cons r rs)
  obtain v k b where r: "r = (v, k, b)" by (cases r) auto
  have "(catalog_step sha)\<^sup>*\<^sup>* c (snd (handle sha number_of acct v k b c))"
    by (cases rule: handle_gated [of k sha number_of acct v b c]) (simp_all add: steps_to_def)
  then show ?case using Cons [of "snd (handle sha number_of acct v k b c)"]
    by (simp add: run_requests_def r)
qed (simp add: run_requests_def)

text \<open>
  C19. No sequence of administration requests, well-formed or not, from anyone, changes a
  built-in skill or agent: those rows stay what they were, in order, and the tables keep their
  keys - unique names and ids, and bindings of existing rows with one position each per agent.
\<close>

theorem requests_keep_builtins:
  assumes "catalog_ok c"
  shows "builtin_skills (run_requests sha number_of acct rs c) = builtin_skills c
       \<and> builtin_agents (run_requests sha number_of acct rs c) = builtin_agents c
       \<and> catalog_ok (run_requests sha number_of acct rs c)"
  using builtins_steps [OF run_requests_steps assms] catalog_ok_steps [OF run_requests_steps assms] by blast

definition root_caller :: caller where
  "root_caller = \<lparr>cl_user = Some \<lparr>u_sub = ''u1'', u_email = Some ''a@b'', u_groups = None, u_iat = None\<rparr>,
     cl_admin = True, cl_aurora = True\<rparr>"

theorem requests_keep_builtins_witness:
  "builtin_agents (run_requests (\<lambda>s. s) (\<lambda>v. Some 1) ''self''
     [(Put, root_caller, Inr (JObj [(''op'', JStr ''disable''), (''kind'', JStr ''agent''), (''id'', JNum 1)]))]
     seed_catalog) = [seed_agent]"
  using requests_keep_builtins [OF seed_catalog_ok] by (simp add: builtin_agents_def seed_catalog_def seed_agent_def)

text \<open>
  Every change leaves a trace of who made it: a request of a caller who is not an
  authenticated administrator with a database is refused and changes nothing; any other request
  that is answered 200 appends exactly one audit row, with the caller as its actor, and one that
  is answered otherwise appends none.
\<close>

theorem every_change_is_audited:
  "case gate k of
     Inl r \<Rightarrow> handle sha number_of acct v k b c = (r, c) \<and> rp_status r \<in> {400, 401, 403}
   | Inr u \<Rightarrow>
       if rp_status (fst (handle sha number_of acct v k b c)) = 200
       then \<exists>a. c_audit (snd (handle sha number_of acct v k b c)) = c_audit c @ [a] \<and> au_actor a = actor_of u
       else c_audit (snd (handle sha number_of acct v k b c)) = c_audit c"
proof (cases rule: handle_gated [of k sha number_of acct v b c])
  case (refused r)
  then have "rp_status r \<in> {400, 401, 403}"
    by (auto simp: gate_def refuse_def split: option.splits if_splits)
  with refused show ?thesis by simp
next
  case (admitted u)
  then show ?thesis by (simp add: steps_to_def audited_def)
qed

lemma guard_error_Nil [simp]: "guard_error bad e = [] \<longleftrightarrow> \<not> bad"
  by (simp add: guard_error_def)

lemma valid_name_text: "valid_name v \<Longrightarrow> v = JStr (to_string v) \<and> kebab_name (to_string v)"
  by (cases v) (simp_all add: valid_name_def)

lemma one_of_text: "one_of v xs \<Longrightarrow> to_string v \<in> set xs"
  by (cases v) (simp_all add: one_of_def)

lemma valid_agent_body:
  assumes "v_ok (validate_agent b)"
  shows "kebab_name (to_string (attr b ''name''))" "\<not> is_reserved_agent_name (to_string (attr b ''name''))"
    "to_string (attr b ''gateway'') \<in> set KNOWN_GATEWAYS"
    "case string_array (attr b ''gateways'') of None \<Rightarrow> True | Some gs \<Rightarrow> set gs \<subseteq> set KNOWN_GATEWAYS"
proof -
  from assms obtain fs where obj: "b = JObj fs" by (cases b) (auto simp: validate_agent_def)
  have errors: "agent_name_errors (attr b ''name'') = []" "one_of (attr b ''gateway'') KNOWN_GATEWAYS"
    "subset_errors (attr b ''gateways'') KNOWN_GATEWAYS ''gateways must be string[]''
       (''gateways must each be one of '' @ join_with '', '' KNOWN_GATEWAYS) = []"
    using assms by (simp_all add: obj validate_agent_def verdict_def)
  have "valid_name (attr b ''name'')" using errors(1) by (auto simp: agent_name_errors_def split: if_splits)
  from valid_name_text [OF this] obtain n where n: "attr b ''name'' = JStr n" "kebab_name n" by (metis to_string.simps(5))
  then show "kebab_name (to_string (attr b ''name''))" "\<not> is_reserved_agent_name (to_string (attr b ''name''))"
    using errors(1) by (simp_all add: agent_name_errors_def valid_name_def)
  show "to_string (attr b ''gateway'') \<in> set KNOWN_GATEWAYS" using errors(2) by (rule one_of_text)
  show "case string_array (attr b ''gateways'') of None \<Rightarrow> True | Some gs \<Rightarrow> set gs \<subseteq> set KNOWN_GATEWAYS"
    using errors(3) by (auto simp: subset_errors_def list_all_iff split: if_splits option.splits)
qed

text \<open>
  What an accepted agent request stores can neither shadow a built-in route nor start
  enabled: the row named in the request is a disabled custom one, its name is a kebab-case
  identifier outside the reserved routing keys, and all its gateways are known ones.
\<close>

theorem stored_agents_are_admissible:
  assumes "fst (post_object sha u b c) = accept (Some n)" "attr b ''kind'' = JStr ''agent''" "catalog_ok c"
    "r \<in> set (c_agents (snd (post_object sha u b c)))" "a_name r = to_string (attr b ''name'')"
  shows "kebab_name (a_name r) \<and> \<not> is_reserved_agent_name (a_name r) \<and> \<not> a_enabled r
       \<and> a_gateway r \<in> set KNOWN_GATEWAYS \<and> set (a_gateways r) \<subseteq> set KNOWN_GATEWAYS"
proof -
  have valid: "v_ok (validate_agent b)"
    using assms(1,2) by (auto simp: post_object_def accept_def refuse_def split: if_splits)
  note body = valid_agent_body [OF valid]
  have post: "post_object sha u b c = store_reply u ''agent'' (upsert_agent (agent_of_body u b) c)"
    using assms(2) valid by (simp add: post_object_def)
  have name: "ai_name (agent_of_body u b) = a_name r" by (simp add: agent_of_body_def assms(5))
  have "\<not> a_enabled r \<and> a_gateway r \<in> set KNOWN_GATEWAYS \<and> set (a_gateways r) \<subseteq> set KNOWN_GATEWAYS"
  proof (cases rule: upsert_agent_cases [of "agent_of_body u b" c])
    case refused
    then show ?thesis using assms(1) by (simp add: post store_reply_def accept_def refuse_def)
  next
    case (stored rows m)
    have "r \<in> set rows" using assms(4) by (simp add: post stored(2) store_reply_def write_audit_def)
    from stored_agent_row [OF stored(1) this name [symmetric]]
    have r: "\<not> a_enabled r" "a_gateway r = ai_gateway (agent_of_body u b)"
      "a_gateways r = a_gateways (new_agent (c_next_agent c) (agent_of_body u b))" by blast+
    show ?thesis
      using body(3,4) by (auto simp: r new_agent_def agent_of_body_def split: option.splits list.splits)
  qed
  then show ?thesis using body(1,2) assms(5) by simp
qed

definition agent_body :: js where
  "agent_body = JObj [(''kind'', JStr ''agent''), (''name'', JStr ''netops''), (''description'', JStr ''d''),
     (''gateway'', JStr ''network''), (''routingKeywords'', JArr [])]"

definition demo_user :: user where
  "demo_user = \<lparr>u_sub = ''u1'', u_email = None, u_groups = None, u_iat = None\<rparr>"

theorem stored_agents_are_admissible_witness:
  "\<not> is_reserved_agent_name ''netops'' \<and>
   a_name (last (c_agents (snd (post_object (\<lambda>s. s) demo_user agent_body seed_catalog)))) = ''netops''"
proof -
  let ?p = "post_object (\<lambda>s. s) demo_user agent_body seed_catalog"
  have post: "fst ?p = accept (Some 2)" "a_name (last (c_agents (snd ?p))) = ''netops''"
    "last (c_agents (snd ?p)) \<in> set (c_agents (snd ?p))"
    "to_string (attr agent_body ''name'') = ''netops''" "attr agent_body ''kind'' = JStr ''agent''"
    by code_simp+
  have "\<not> is_reserved_agent_name (a_name (last (c_agents (snd ?p))))"
    using stored_agents_are_admissible [OF post(1,5) seed_catalog_ok post(3)] post(2,4) by simp
  then show ?thesis using post(2) by simp
qed

end
