(* ===== verification/Js_Date.thy ===== *)
theory Js_Date
  imports Main
begin

text \<open>
  The calendar of a JavaScript \<open>Date\<close>: a time value is an integer of milliseconds, and its UTC
  fields and the constructors \<open>Date.UTC\<close>, \<open>setUTCDate\<close>, \<open>setUTCMonth\<close> are those of the language
  (days of the proleptic Gregorian calendar, months counted from 0). Months are indexed by
  \<open>12 * year + month\<close>, so that a month outside 0..11 carries into the year, as in \<open>MakeDay\<close>.
\<close>

definition ms_per_day :: int where
  "ms_per_day = 86400000"

definition day_of :: "int \<Rightarrow> int" where
  "day_of t = t div ms_per_day"

definition time_in_day :: "int \<Rightarrow> int" where
  "time_in_day t = t mod ms_per_day"

definition leap :: "int \<Rightarrow> bool" where
  "leap y \<longleftrightarrow> y mod 4 = 0 \<and> (y mod 100 \<noteq> 0 \<or> y mod 400 = 0)"

text \<open>\<open>DayFromYear\<close>: the day number of the first of January.\<close>

definition day_from_year :: "int \<Rightarrow> int" where
  "day_from_year y = 365 * (y - 1970) + (y - 1969) div 4 - (y - 1901) div 100 + (y - 1601) div 400"

definition month_start :: "bool \<Rightarrow> int \<Rightarrow> int" where
  "month_start lp m =
     [0, 31, 59, 90, 120, 151, 181, 212, 243, 273, 304, 334] ! nat m + (if lp \<and> 2 \<le> m then 1 else 0)"

text \<open>The first day of the month of index \<open>k\<close>, and \<open>MakeDay(year, month, date)\<close>.\<close>

definition month_first :: "int \<Rightarrow> int" where
  "month_first k = day_from_year (k div 12) + month_start (leap (k div 12)) (k mod 12)"

definition make_day :: "int \<Rightarrow> int \<Rightarrow> int \<Rightarrow> int" where
  "make_day y m d = month_first (12 * y + m) + d - 1"

text \<open>\<open>YearFromTime\<close>: the year whose days contain the day, found next to the mean-year quotient.\<close>

definition year_of :: "int \<Rightarrow> int" where
  "year_of d =
     (let y = 1970 + (400 * d) div 146097 in
      if d < day_from_year y then y - 1 else if day_from_year (y + 1) \<le> d then y + 1 else y)"

definition month_in_year :: "bool \<Rightarrow> int \<Rightarrow> int" where
  "month_in_year lp n = int (length (filter (\<lambda>m. month_start lp m \<le> n) [1..11]))"

definition month_index :: "int \<Rightarrow> int" where
  "month_index d = (let y = year_of d in 12 * y + month_in_year (leap y) (d - day_from_year y))"

definition utc_year :: "int \<Rightarrow> int" where
  "utc_year t = month_index (day_of t) div 12"

definition utc_month :: "int \<Rightarrow> int" where
  "utc_month t = month_index (day_of t) mod 12"

definition utc_date :: "int \<Rightarrow> int" where
  "utc_date t = day_of t - month_first (month_index (day_of t)) + 1"

definition utc_weekday :: "int \<Rightarrow> int" where
  "utc_weekday t = (day_of t + 4) mod 7"

text \<open>\<open>Date.UTC(y, m, d, h, 0, 0)\<close>; two-digit years mean the twentieth century.\<close>

definition date_utc :: "int \<Rightarrow> int \<Rightarrow> int \<Rightarrow> int \<Rightarrow> int" where
  "date_utc y m d h =
     (let full = (if 0 \<le> y \<and> y \<le> 99 then 1900 + y else y) in make_day full m d * ms_per_day + h * 3600000)"

definition set_utc_date :: "int \<Rightarrow> int \<Rightarrow> int" where
  "set_utc_date t d = make_day (utc_year t) (utc_month t) d * ms_per_day + time_in_day t"

definition set_utc_month :: "int \<Rightarrow> int \<Rightarrow> int" where
  "set_utc_month t m = make_day (utc_year t) m (utc_date t) * ms_per_day + time_in_day t"

section \<open>Years\<close>

lemma div_bounds: "0 < (n::int) \<Longrightarrow> n * (x div n) \<le> x \<and> x < n * (x div n) + n"
  using mult_div_mod_eq [of n x] pos_mod_sign [of n x] pos_mod_bound [of n x] by linarith

lemma day_from_year_bounds:
  "400 * day_from_year y \<le> 146097 * (y - 1970) + 589" "146097 * (y - 1970) - 506 \<le> 400 * day_from_year y"
  using div_bounds [of 4 "y - 1969"] div_bounds [of 100 "y - 1901"] div_bounds [of 400 "y - 1601"]
  by (simp_all add: day_from_year_def)

lemma year_of_contains: "day_from_year (year_of d) \<le> d \<and> d < day_from_year (year_of d + 1)"
proof -
  define y where "y = 1970 + (400 * d) div 146097"
  have q: "146097 * (y - 1970) \<le> 400 * d" "400 * d < 146097 * (y - 1970) + 146097"
    using div_bounds [of 146097 "400 * d"] by (simp_all add: y_def)
  have "day_from_year (y - 1) \<le> d"
    using q day_from_year_bounds(1) [of "y - 1"] by (simp add: algebra_simps)
  moreover have "d < day_from_year (y + 2)"
    using q day_from_year_bounds(2) [of "y + 2"] by (simp add: algebra_simps)
  ultimately show ?thesis by (auto simp: year_of_def Let_def add.commute simp flip: y_def)
qed

lemma next_div_mod:
  assumes "0 < (n::int)"
  shows "(x + 1) div n = x div n + (if x mod n = n - 1 then 1 else 0)"
    "(x + 1) mod n = (if x mod n = n - 1 then 0 else x mod n + 1)"
proof -
  have x: "x = n * (x div n) + x mod n" by simp
  have r: "0 \<le> x mod n" "x mod n < n" using assms by simp_all
  have "(x + 1) div n = x div n + (if x mod n = n - 1 then 1 else 0)
      \<and> (x + 1) mod n = (if x mod n = n - 1 then 0 else x mod n + 1)"
  proof (cases "x mod n = n - 1")
    case True
    then have "x + 1 = n * (x div n + 1)" using x unfolding distrib_left by linarith
    then show ?thesis using True assms by simp
  next
    case False
    then have small: "x mod n + 1 < n" using r by simp
    have sum: "x + 1 = n * (x div n) + (x mod n + 1)" using x by linarith
    have "0 \<le> x mod n + 1" using r by simp
    from int_div_pos_eq [OF sum this small] int_mod_pos_eq [OF sum this small] False
    show ?thesis by simp
  qed
  then show "(x + 1) div n = x div n + (if x mod n = n - 1 then 1 else 0)"
    "(x + 1) mod n = (if x mod n = n - 1 then 0 else x mod n + 1)" by blast+
qed

lemma div_next: "0 < (n::int) \<Longrightarrow> (x + 1) div n = x div n + (if (x + 1) mod n = 0 then 1 else 0)"
proof (cases "x mod n = n - 1")
  case False
  assume "0 < n"
  then have "0 \<le> x mod n" by simp
  then have "x mod n + 1 \<noteq> 0" by linarith
  then show ?thesis using next_div_mod [OF \<open>0 < n\<close>, of x] False by simp
qed (simp add: next_div_mod)

lemma leap_sum:
  fixes a b c x :: int
  shows "365 * (x + 1) + (a + (if p then 1 else 0)) - (b + (if q then 1 else 0)) + (c + (if r then 1 else 0))
    = 365 * x + a - b + c + (365 + (if p then 1 else 0) - (if q then 1 else 0) + (if r then 1 else 0))"
  by simp

lemma leap_year_days: "day_from_year (y + 1) = day_from_year y + (if leap y then 366 else 365)"
proof -
  have mods: "(y - 1968) mod 4 = y mod 4" "(y - 1900) mod 100 = y mod 100" "(y - 1600) mod 400 = y mod 400"
    using mod_mult_self2 [of "y - 1968" 4 492] mod_mult_self2 [of "y - 1900" 100 19]
      mod_mult_self2 [of "y - 1600" 400 4] by simp_all
  have step: "day_from_year (y + 1)
      = 365 * (y - 1970 + 1) + (y - 1968) div 4 - (y - 1900) div 100 + (y - 1600) div 400"
    by (simp add: day_from_year_def)
  have 4: "(y - 1968) div 4 = (y - 1969) div 4 + (if y mod 4 = 0 then 1 else 0)"
    using div_next [of 4 "y - 1969"] by (simp add: mods)
  have 100: "(y - 1900) div 100 = (y - 1901) div 100 + (if y mod 100 = 0 then 1 else 0)"
    using div_next [of 100 "y - 1901"] by (simp add: mods)
  have 400: "(y - 1600) div 400 = (y - 1601) div 400 + (if y mod 400 = 0 then 1 else 0)"
    using div_next [of 400 "y - 1601"] by (simp add: mods)
  have dvds: "y mod 100 = 0 \<Longrightarrow> y mod 4 = 0" "y mod 400 = 0 \<Longrightarrow> y mod 100 = 0"
    using dvd_trans [of 4 100 y] dvd_trans [of 100 400 y] by (simp_all add: mod_eq_0_iff_dvd)
  have "(if leap y then 366 else 365)
      = 365 + (if y mod 4 = 0 then 1 else 0) - (if y mod 100 = 0 then 1 else 0) + (if y mod 400 = 0 then 1 else 0 :: int)"
    unfolding leap_def by (cases "y mod 400 = 0"; cases "y mod 100 = 0"; cases "y mod 4 = 0") (use dvds in simp_all)
  then show ?thesis
    by (simp only: step 4 100 400 leap_sum day_from_year_def [of y])
qed

section \<open>Months\<close>

definition month_days :: "bool \<Rightarrow> int \<Rightarrow> int" where
  "month_days lp m = [31, if lp then 29 else 28, 31, 30, 31, 30, 31, 31, 30, 31, 30, 31] ! nat m"

lemma month_cases:
  fixes m :: int
  assumes "0 \<le> m" "m < 12"
  obtains "m = 0" | "m = 1" | "m = 2" | "m = 3" | "m = 4" | "m = 5" | "m = 6" | "m = 7" | "m = 8" | "m = 9"
    | "m = 10" | "m = 11"
proof -
  have "m \<in> {0..<12}" using assms by simp
  then have "m \<in> set [0..11]" by auto
  then show thesis using that by (auto simp: upto.simps)
qed

lemma month_start_next:
  assumes "0 \<le> m" "m < 11"
  shows "month_start lp (m + 1) = month_start lp m + month_days lp m"
  using assms(1) less_trans [OF assms(2), of 12]
  by (cases m rule: month_cases) (use assms(2) in \<open>simp_all add: month_start_def month_days_def\<close>)

lemma month_start_last: "month_start lp 11 + month_days lp 11 = (if lp then 366 else 365)" "month_start lp 0 = 0"
  by (simp_all add: month_start_def month_days_def)

definition days_in :: "int \<Rightarrow> int" where
  "days_in k = month_days (leap (k div 12)) (k mod 12)"

lemma days_in_bounds: "28 \<le> days_in k \<and> days_in k \<le> 31"
proof -
  have "0 \<le> k mod 12" "k mod 12 < 12" by simp_all
  then show ?thesis by (cases "k mod 12" rule: month_cases) (simp_all add: days_in_def month_days_def)
qed

lemma month_first_next: "month_first (k + 1) = month_first k + days_in k"
proof (cases "k mod 12 = 11")
  case True
  then have "(k + 1) div 12 = k div 12 + 1" "(k + 1) mod 12 = 0" using next_div_mod [of 12 k] by simp_all
  then show ?thesis
    using leap_year_days [of "k div 12"] month_start_last(1) [of "leap (k div 12)"] month_start_last(2)
    by (simp add: month_first_def days_in_def True split: if_splits)
next
  case False
  then have "(k + 1) div 12 = k div 12" "(k + 1) mod 12 = k mod 12 + 1" using next_div_mod [of 12 k] by simp_all
  moreover have "0 \<le> k mod 12" "k mod 12 < 11" using False pos_mod_bound [of 12 k] by simp_all
  ultimately show ?thesis by (simp add: month_first_def days_in_def month_start_next)
qed

lemma month_first_mono: "k < k' \<Longrightarrow> month_first k + days_in k \<le> month_first k'"
proof (induction "nat (k' - k)" arbitrary: k)
  case (Suc n)
  show ?case
  proof (cases "k' = k + 1")
    case False
    then have "month_first (k + 1) + days_in (k + 1) \<le> month_first k'"
      using Suc.hyps(1) [of "k + 1"] Suc.hyps(2) Suc.prems by auto
    then show ?thesis using month_first_next [of k] days_in_bounds [of "k + 1"] by linarith
  qed (simp add: month_first_next)
qed simp

section \<open>Fields of a day\<close>

lemma month_in_year_eq:
  assumes "0 \<le> m" "m < 12" "month_start lp m \<le> n" "n < month_start lp m + month_days lp m"
  shows "month_in_year lp n = m"
  using assms(1,2)
  by (cases m rule: month_cases; cases lp)
    (use assms(3,4) in \<open>simp_all add: month_in_year_def month_start_def month_days_def upto.simps\<close>)

lemma month_in_year_exists:
  assumes "0 \<le> n" "n < (if lp then 366 else 365)"
  shows "\<exists>m. 0 \<le> m \<and> m < 12 \<and> month_start lp m \<le> n \<and> n < month_start lp m + month_days lp m"
proof -
  have "\<exists>i. 0 \<le> i \<and> i \<le> j \<and> month_start lp i \<le> n \<and> n < month_start lp i + month_days lp i"
    if "0 \<le> j" "j < 12" "n < month_start lp j + month_days lp j" for j
    using that
  proof (induction "nat j" arbitrary: j)
    case 0
    then show ?case using assms(1) month_start_last(2) by (intro exI [of _ 0]) auto
  next
    case (Suc i)
    show ?case
    proof (cases "month_start lp j \<le> n")
      case False
      have "month_start lp j = month_start lp (j - 1) + month_days lp (j - 1)"
        using month_start_next [of "j - 1" lp] Suc.hyps(2) Suc.prems by simp
      then have "\<exists>i. 0 \<le> i \<and> i \<le> j - 1 \<and> month_start lp i \<le> n \<and> n < month_start lp i + month_days lp i"
        using Suc.hyps(1) [of "j - 1"] Suc.hyps(2) Suc.prems False by auto
      then show ?thesis by (elim ex_forward) auto
    qed (use Suc.prems in auto)
  qed
  then have "\<exists>i. 0 \<le> i \<and> i \<le> 11 \<and> month_start lp i \<le> n \<and> n < month_start lp i + month_days lp i"
    using assms(2) month_start_last(1) [of lp] by simp
  then show ?thesis by (elim ex_forward) auto
qed

lemma month_index_contains: "month_first (month_index d) \<le> d \<and> d < month_first (month_index d) + days_in (month_index d)"
proof -
  define y n where "y = year_of d" and "n = d - day_from_year y"
  have "0 \<le> n" "n < (if leap y then 366 else 365)"
    using year_of_contains [of d] leap_year_days [of y] by (auto simp: y_def n_def)
  then obtain m where m: "0 \<le> m" "m < 12" "month_start (leap y) m \<le> n" "n < month_start (leap y) m + month_days (leap y) m"
    using month_in_year_exists by blast
  then have "month_index d = 12 * y + m"
    by (simp add: month_index_def Let_def month_in_year_eq flip: y_def n_def)
  moreover have "(12 * y + m) div 12 = y" "(12 * y + m) mod 12 = m" using m(1,2) by simp_all
  ultimately show ?thesis using m(3,4) by (simp add: month_first_def days_in_def n_def)
qed

lemma month_index_eq:
  assumes "month_first k \<le> d" "d < month_first k + days_in k"
  shows "month_index d = k"
  using assms month_index_contains [of d] month_first_mono [of k "month_index d"] month_first_mono [of "month_index d" k]
  by linarith

lemma month_index_next: "month_index (month_first (month_index d + 1)) = month_index d + 1"
  using days_in_bounds [of "month_index d + 1"] by (intro month_index_eq) auto

lemma make_day_fields:
  assumes "1 \<le> d" "d \<le> days_in (12 * y + m)"
  shows "month_index (make_day y m d) = 12 * y + m"
    "make_day y m d - month_first (month_index (make_day y m d)) + 1 = d"
proof -
  show "month_index (make_day y m d) = 12 * y + m"
    using assms by (intro month_index_eq) (simp_all add: make_day_def)
  then show "make_day y m d - month_first (month_index (make_day y m d)) + 1 = d"
    by (simp add: make_day_def)
qed

lemma make_day_roundtrip:
  "make_day (month_index d div 12) (month_index d mod 12) (d - month_first (month_index d) + 1 + n) = d + n"
  by (simp add: make_day_def)

section \<open>Time values\<close>

lemma day_time: "t = day_of t * ms_per_day + time_in_day t"
  by (simp add: day_of_def time_in_day_def)

lemma time_in_day_bounds: "0 \<le> time_in_day t" "time_in_day t < ms_per_day"
  by (simp_all add: time_in_day_def ms_per_day_def)

lemma day_of_make: "0 \<le> r \<Longrightarrow> r < ms_per_day \<Longrightarrow> day_of (d * ms_per_day + r) = d"
  by (simp add: day_of_def ms_per_day_def)

lemma time_in_day_make: "0 \<le> r \<Longrightarrow> r < ms_per_day \<Longrightarrow> time_in_day (d * ms_per_day + r) = r"
  by (simp add: time_in_day_def ms_per_day_def)

lemma day_of_mono: "s \<le> t \<Longrightarrow> day_of s \<le> day_of t"
  by (simp add: day_of_def ms_per_day_def zdiv_mono1)

lemma utc_date_bounds: "1 \<le> utc_date t \<and> utc_date t \<le> days_in (month_index (day_of t))"
  using month_index_contains [of "day_of t"] by (auto simp: utc_date_def)

lemma utc_year_month: "12 * utc_year t + utc_month t = month_index (day_of t)"
  by (simp add: utc_year_def utc_month_def)

lemma utc_month_bounds: "0 \<le> utc_month t \<and> utc_month t < 12"
  by (simp add: utc_month_def)

text \<open>From 1970 on the two-digit rule of \<open>Date.UTC\<close> does not apply.\<close>

lemma day_from_year_mono: "y \<le> y' \<Longrightarrow> day_from_year y \<le> day_from_year y'"
proof (induction "nat (y' - y)" arbitrary: y)
  case (Suc n)
  then have "day_from_year (y + 1) \<le> day_from_year y'" by auto
  then show ?case using leap_year_days [of y] by (auto split: if_splits)
qed simp

lemma utc_year_epoch:
  assumes "0 \<le> t"
  shows "1970 \<le> utc_year t"
proof (rule ccontr)
  assume "\<not> 1970 \<le> utc_year t"
  then have "12 * (utc_year t + 1) \<le> 12 * 1970" by simp
  moreover have "month_index (day_of t) < 12 * (utc_year t + 1)" using utc_month_bounds [of t] utc_year_month [of t] by simp
  ultimately have "month_first (month_index (day_of t)) + days_in (month_index (day_of t)) \<le> month_first (12 * 1970)"
    by (intro month_first_mono) simp
  moreover have "month_first (12 * 1970) = 0" by (simp add: month_first_def day_from_year_def month_start_def)
  ultimately have "day_of t < 0" using month_index_contains [of "day_of t"] by linarith
  then show False using assms by (simp add: day_of_def ms_per_day_def div_int_pos_iff not_less)
qed

text \<open>\<open>Date.UTC\<close> with the year and month of a time after the epoch counts days from its day.\<close>

lemma date_utc_same_month:
  assumes "1970 \<le> utc_year t"
  shows "date_utc (utc_year t) (utc_month t + j) d h = (month_first (month_index (day_of t) + j) + d - 1) * ms_per_day + h * 3600000"
  using assms utc_year_month [of t] by (simp add: date_utc_def make_day_def Let_def add.assoc [symmetric])

lemma date_utc_day:
  assumes "1970 \<le> utc_year t"
  shows "date_utc (utc_year t) (utc_month t) (utc_date t + n) h = (day_of t + n) * ms_per_day + h * 3600000"
  using date_utc_same_month [OF assms, of 0 "utc_date t + n" h] by (simp add: utc_date_def)

lemma set_utc_date_day: "set_utc_date t (utc_date t + n) = t + n * ms_per_day"
  using utc_year_month [of t] day_time [of t] by (simp add: set_utc_date_def make_day_def utc_date_def algebra_simps)

end
