(* ===== verification/Schedule.thy ===== *)
theory Schedule
  imports Js_Date Http_Body Auth
begin

text \<open>
  The per-user schedule of automatic diagnoses: the next run (\<^verbatim>\<open>web/lib/diagnosis-schedule.ts\<close>),
  the table row with its transaction, and the handler of
  \<^verbatim>\<open>web/app/api/diagnosis/schedule/route.ts\<close>. Times are milliseconds since the epoch; the ISO
  texts the code passes around denote them.
\<close>

section \<open>The next run\<close>

datatype schedule_freq = Weekly | Biweekly | Monthly

record schedule_detail =
  sd_day_of_week :: "int option"
  sd_day_of_month :: "int option"
  sd_hour :: "int option"

definition KST_OFFSET_MS :: int where
  "KST_OFFSET_MS = 9 * 3600000"

definition kst_parts :: "int \<Rightarrow> int" where
  "kst_parts utc_ms = utc_ms + KST_OFFSET_MS"

definition within :: "int \<Rightarrow> int \<Rightarrow> int option \<Rightarrow> int option" where
  "within lo hi v = (case v of None \<Rightarrow> None | Some n \<Rightarrow> if lo \<le> n \<and> n \<le> hi then Some n else None)"

definition pinned_hour :: "schedule_detail \<Rightarrow> int option" where
  "pinned_hour d = within 0 23 (sd_hour d)"

definition partner :: "schedule_freq \<Rightarrow> schedule_detail \<Rightarrow> int option" where
  "partner f d = (if f = Monthly then within 1 28 (sd_day_of_month d) else within 0 6 (sd_day_of_week d))"

definition last_day_of_month :: "int \<Rightarrow> int" where
  "last_day_of_month t = utc_date (date_utc (utc_year t) (utc_month t + 1) 0 0)"

definition add_month :: "int \<Rightarrow> int" where
  "add_month from =
     (let day = utc_date from;
          d1 = set_utc_date from 1;
          d2 = set_utc_month d1 (utc_month d1 + 1)
      in set_utc_date d2 (min day (last_day_of_month d2)))"

definition interval_run :: "schedule_freq \<Rightarrow> int \<Rightarrow> int" where
  "interval_run f from = (case f of
      Weekly \<Rightarrow> set_utc_date from (utc_date from + 7)
    | Biweekly \<Rightarrow> set_utc_date from (utc_date from + 14)
    | Monthly \<Rightarrow> add_month from)"

definition pin_hour :: "int option \<Rightarrow> int \<Rightarrow> int" where
  "pin_hour h d = (case h of
      None \<Rightarrow> d
    | Some h \<Rightarrow>
        let k = kst_parts d in date_utc (utc_year k) (utc_month k) (utc_date k) h - KST_OFFSET_MS)"

definition weekday_run :: "schedule_freq \<Rightarrow> int \<Rightarrow> int \<Rightarrow> int \<Rightarrow> int" where
  "weekday_run f target hh from =
     (let now = kst_parts from;
          cand = date_utc (utc_year now) (utc_month now)
            (utc_date now + ((target - utc_weekday now) + 7) mod 7) hh;
          cand = (if cand - KST_OFFSET_MS \<le> from then cand + 7 * 86400000 else cand);
          cand = (if f = Biweekly then cand + 7 * 86400000 else cand)
      in cand - KST_OFFSET_MS)"

definition month_day_run :: "int \<Rightarrow> int \<Rightarrow> int \<Rightarrow> int" where
  "month_day_run d hh from =
     (let now = kst_parts from;
          cand = date_utc (utc_year now) (utc_month now) d hh;
          cand = (if cand - KST_OFFSET_MS \<le> from
            then date_utc (utc_year now) (utc_month now + 1) d hh else cand)
      in cand - KST_OFFSET_MS)"

definition compute_next_run :: "schedule_freq \<Rightarrow> int \<Rightarrow> schedule_detail \<Rightarrow> int" where
  "compute_next_run f from d = (case partner f d of
      None \<Rightarrow> pin_hour (pinned_hour d) (interval_run f from)
    | Some p \<Rightarrow>
        let hh = (case pinned_hour d of None \<Rightarrow> 0 | Some h \<Rightarrow> h) in
        if f = Monthly then month_day_run p hh from else weekday_run f p hh from)"

section \<open>Slots of the week and of the month\<close>

text \<open>The instants the caller asked for, on the Korean wall clock.\<close>

definition kst_weekday_slot :: "int \<Rightarrow> int \<Rightarrow> int \<Rightarrow> bool" where
  "kst_weekday_slot w hh t \<longleftrightarrow> utc_weekday (kst_parts t) = w \<and> time_in_day (kst_parts t) = hh * 3600000"

definition kst_month_slot :: "int \<Rightarrow> int \<Rightarrow> int \<Rightarrow> bool" where
  "kst_month_slot d hh t \<longleftrightarrow> utc_date (kst_parts t) = d \<and> time_in_day (kst_parts t) = hh * 3600000"

definition first_after :: "(int \<Rightarrow> bool) \<Rightarrow> int \<Rightarrow> int \<Rightarrow> bool" where
  "first_after P from t \<longleftrightarrow> from < t \<and> P t \<and> (\<forall>s. from < s \<and> P s \<longrightarrow> t \<le> s)"

lemma hour_time: "0 \<le> hh \<Longrightarrow> hh \<le> 23 \<Longrightarrow> 0 \<le> hh * 3600000 \<and> hh * 3600000 < ms_per_day"
  by (simp add: ms_per_day_def)

lemma within_bounds: "within lo hi v = Some n \<Longrightarrow> lo \<le> n \<and> n \<le> hi"
  by (auto simp: within_def split: option.splits if_splits)

lemma default_hour: "0 \<le> (case pinned_hour d of None \<Rightarrow> 0 | Some h \<Rightarrow> h) \<and> (case pinned_hour d of None \<Rightarrow> 0 | Some h \<Rightarrow> h) \<le> 23"
  using within_bounds [of 0 23 "sd_hour d"] by (auto simp: pinned_hour_def split: option.splits)

lemma kst_epoch: "0 \<le> from \<Longrightarrow> 1970 \<le> utc_year (kst_parts from)"
  by (rule utc_year_epoch) (simp add: kst_parts_def KST_OFFSET_MS_def)

lemma kst_parts_shift: "kst_parts (c - KST_OFFSET_MS) = c"
  by (simp add: kst_parts_def)

text \<open>The days of one weekday lie a week apart.\<close>

lemma weekday_distance:
  fixes day now w :: int
  assumes "(day + 4) mod 7 = w" "now \<le> day"
  shows "\<exists>k\<ge>0. day = now + (w - (now + 4) mod 7 + 7) mod 7 + 7 * k"
proof -
  have "(w - (now + 4) mod 7 + 7) mod 7 = (w - (now + 4) mod 7) mod 7" by (rule mod_add_self2)
  also have "\<dots> = (day + 4 - (now + 4)) mod 7" unfolding assms(1) [symmetric] by (rule mod_diff_eq)
  finally have "(w - (now + 4) mod 7 + 7) mod 7 = (day - now) mod 7" by simp
  moreover have "day - now = (day - now) mod 7 + 7 * ((day - now) div 7)" by simp
  moreover have "0 \<le> (day - now) div 7" using assms(2) by (simp add: pos_imp_zdiv_nonneg_iff)
  ultimately show ?thesis by (intro exI [of _ "(day - now) div 7"]) linarith
qed

lemma weekday_of_candidate: "0 \<le> w \<Longrightarrow> w \<le> (6::int) \<Longrightarrow> (now + (w - (now + 4) mod 7 + 7) mod 7 + 4) mod 7 = w"
proof -
  assume "0 \<le> w" "w \<le> 6"
  have "(now + (w - (now + 4) mod 7 + 7) mod 7 + 4) mod 7 = ((now + 4) + (w - (now + 4) mod 7 + 7) mod 7) mod 7"
    by (simp only: ac_simps)
  also have "\<dots> = ((now + 4) + (w - (now + 4) mod 7 + 7)) mod 7" by (rule mod_add_right_eq)
  also have "\<dots> = ((now + 4 + w + 7) - (now + 4) mod 7) mod 7" by (simp only: algebra_simps)
  also have "\<dots> = ((now + 4 + w + 7) - (now + 4)) mod 7" by (rule mod_diff_right_eq)
  also have "\<dots> = w" using \<open>0 \<le> w\<close> \<open>w \<le> 6\<close> by simp
  finally show ?thesis .
qed

lemma day_span: "day_of t * ms_per_day \<le> t \<and> t < (day_of t + 1) * ms_per_day"
  using day_time [of t] time_in_day_bounds [of t] by (simp add: algebra_simps)

text \<open>The first slot after an instant, once the candidate of the current week or month is known.\<close>

lemma weekday_first:
  fixes w H now :: int
  defines "c \<equiv> (day_of now + (w - utc_weekday now + 7) mod 7) * ms_per_day + H"
  defines "c' \<equiv> if c \<le> now then c + 7 * ms_per_day else c"
  assumes "0 \<le> w" "w \<le> 6" "0 \<le> H" "H < ms_per_day"
  shows "first_after (\<lambda>t. utc_weekday t = w \<and> time_in_day t = H) now c'"
proof -
  let ?d = "(w - utc_weekday now + 7) mod 7"
  have c': "c' = (day_of now + ?d + (if c \<le> now then 7 else 0)) * ms_per_day + H"
    by (simp add: c'_def c_def algebra_simps)
  have "(day_of now + ?d + 4) mod 7 = w"
    using weekday_of_candidate [OF assms(3,4)] by (simp add: utc_weekday_def)
  moreover have "(x + 7 + 4) mod 7 = (x + 4) mod 7" for x :: int
    using mod_add_self2 [of "x + 4" 7] by (simp add: ac_simps)
  ultimately have "(day_of now + ?d + (if c \<le> now then 7 else 0) + 4) mod 7 = w"
    by (cases "c \<le> now") (simp_all only: if_True if_False add_0_right)
  then have "utc_weekday c' = w" "time_in_day c' = H"
    unfolding c' utc_weekday_def day_of_make [OF assms(5,6)] time_in_day_make [OF assms(5,6)] by simp_all
  moreover have "now < c'"
  proof (cases "c \<le> now")
    case True
    have "0 \<le> ?d" by simp
    then have "(day_of now + 1) * ms_per_day \<le> c'"
      using True assms(5) unfolding c' by (simp add: ms_per_day_def)
    then show ?thesis using day_span [of now] by linarith
  qed (simp add: c'_def)
  moreover have "c' \<le> s" if s: "now < s" "utc_weekday s = w" "time_in_day s = H" for s
  proof -
    obtain k where k: "0 \<le> k" "day_of s = day_of now + ?d + 7 * k"
      using weekday_distance [of "day_of s" w "day_of now"] s day_of_mono [of now s] by (auto simp: utc_weekday_def)
    have sc: "s = c + k * (7 * ms_per_day)"
      using day_time [of s] s(3) unfolding k(2) c_def by (simp add: algebra_simps)
    have "1 \<le> k" if "c \<le> now"
      using that s(1) sc k(1) by (cases "k = 0") auto
    then show ?thesis
      using sc k(1) by (auto simp: c'_def ms_per_day_def)
  qed
  ultimately show ?thesis by (auto simp: first_after_def)
qed

lemma month_day_make:
  assumes "1 \<le> d" "d \<le> 28" "0 \<le> H" "H < ms_per_day"
  shows "utc_date ((month_first k + d - 1) * ms_per_day + H) = d"
proof -
  have "month_index (month_first k + d - 1) = k"
    using assms(1,2) days_in_bounds [of k] by (intro month_index_eq) linarith+
  then show ?thesis by (simp add: utc_date_def day_of_make [OF assms(3,4)])
qed

lemma month_day_first:
  fixes d H now :: int
  defines "c \<equiv> \<lambda>k. (month_first k + d - 1) * ms_per_day + H"
  defines "k0 \<equiv> month_index (day_of now)"
  assumes "1 \<le> d" "d \<le> 28" "0 \<le> H" "H < ms_per_day"
  shows "first_after (\<lambda>t. utc_date t = d \<and> time_in_day t = H) now (if c k0 \<le> now then c (k0 + 1) else c k0)"
proof -
  let ?c' = "if c k0 \<le> now then c (k0 + 1) else c k0"
  have D: "month_first k0 \<le> day_of now" "day_of now < month_first (k0 + 1)"
    using month_index_contains [of "day_of now"] month_first_next [of k0] by (auto simp: k0_def)
  have "utc_date (c k) = d" "time_in_day (c k) = H" for k
    using month_day_make [OF assms(3-6)] time_in_day_make [OF assms(5,6)] by (simp_all add: c_def)
  moreover have "now < ?c'"
  proof (cases "c k0 \<le> now")
    case True
    have "(day_of now + 1) * ms_per_day \<le> c (k0 + 1)"
      using D(2) assms(3,5) by (simp add: c_def ms_per_day_def)
    then show ?thesis using day_span [of now] True by auto
  qed simp
  moreover have "?c' \<le> s" if s: "now < s" "utc_date s = d" "time_in_day s = H" for s
  proof -
    define k where "k = month_index (day_of s)"
    have "day_of s = month_first k + d - 1" using s(2) by (simp add: utc_date_def k_def)
    then have sk: "s = c k" using day_time [of s] s(3) by (simp add: c_def)
    have "k0 \<le> k"
    proof (rule ccontr)
      assume "\<not> k0 \<le> k"
      then have "day_of s < month_first k0"
        using month_first_mono [of k k0] month_index_contains [of "day_of s"] by (simp add: k_def)
      then show False using D(1) s(1) day_of_mono [of now s] by simp
    qed
    moreover have "c (k0 + 1) \<le> c k" if "k0 < k"
      using month_first_mono [of "k0 + 1" k] that days_in_bounds [of "k0 + 1"]
      by (cases "k = k0 + 1") (auto simp: c_def ms_per_day_def)
    moreover have "c k0 \<le> c (k0 + 1)"
      using month_first_next [of k0] days_in_bounds [of k0] by (simp add: c_def ms_per_day_def)
    ultimately show ?thesis using s(1) sk by (cases "k = k0") auto
  qed
  ultimately show ?thesis by (auto simp: first_after_def)
qed

lemma first_after_kst:
  assumes "first_after P (kst_parts from) c"
  shows "first_after (\<lambda>t. P (kst_parts t)) from (c - KST_OFFSET_MS)"
  using assms by (auto simp: first_after_def kst_parts_def) (metis add_less_cancel_right diff_le_eq)

section \<open>Adding a month\<close>

lemma fields_of_day:
  assumes "month_index D = k" "0 \<le> H" "H < ms_per_day"
  shows "utc_date (D * ms_per_day + H) = D - month_first k + 1" "utc_year (D * ms_per_day + H) = k div 12"
    "utc_month (D * ms_per_day + H) = k mod 12" "time_in_day (D * ms_per_day + H) = H"
    "day_of (D * ms_per_day + H) = D"
  using assms by (simp_all add: utc_date_def utc_year_def utc_month_def day_of_make time_in_day_make)

lemma month_first_index: "month_index (month_first k) = k" "month_index (month_first (k + 1) - 1) = k"
  using days_in_bounds [of k] month_first_next [of k] by (auto intro!: month_index_eq)

lemma make_day_index: "make_day (k div 12) (k mod 12 + j) d = month_first (k + j) + d - 1"
  by (simp add: make_day_def add.assoc [symmetric])

lemma add_month_day:
  assumes "0 \<le> from"
  defines "k \<equiv> month_index (day_of from)"
  shows "add_month from = (month_first (k + 1) + min (utc_date from) (days_in (k + 1)) - 1) * ms_per_day + time_in_day from"
proof -
  note T = time_in_day_bounds [of "from"]
  have d1: "set_utc_date from 1 = month_first k * ms_per_day + time_in_day from"
    using make_day_index [of k 0 1] by (simp add: set_utc_date_def utc_year_def utc_month_def k_def)
  note f1 = fields_of_day [OF month_first_index(1) [of k] T]
  have d2: "set_utc_month (set_utc_date from 1) (utc_month (set_utc_date from 1) + 1)
      = month_first (k + 1) * ms_per_day + time_in_day from" (is "_ = ?d2")
    unfolding d1 set_utc_month_def f1 by (simp add: make_day_index)
  note f2 = fields_of_day [OF month_first_index(1) [of "k + 1"] T]
  have "1970 \<le> utc_year from" using assms(1) by (rule utc_year_epoch)
  then have "1970 * 12 \<le> k" by (simp add: utc_year_def k_def)
  then have "1970 \<le> utc_year ?d2" unfolding f2 by simp
  then have "date_utc (utc_year ?d2) (utc_month ?d2 + 1) 0 0 = (month_first (k + 1 + 1) - 1) * ms_per_day + 0"
    using date_utc_same_month [of ?d2 1 0 0] by (simp add: f2 month_first_index)
  then have "last_day_of_month ?d2 = days_in (k + 1)"
    using fields_of_day(1) [OF month_first_index(2) [of "k + 1"], of 0] month_first_next [of "k + 1"]
    by (simp add: last_day_of_month_def ms_per_day_def)
  moreover have "add_month from = set_utc_date ?d2 (min (utc_date from) (last_day_of_month ?d2))"
    unfolding add_month_def Let_def d2 ..
  moreover have "set_utc_date ?d2 x = (month_first (k + 1) + x - 1) * ms_per_day + time_in_day from" for x
    using make_day_index [of "k + 1" 0 x] by (simp add: set_utc_date_def f2)
  ultimately show ?thesis by simp
qed

lemma interval_run_later:
  assumes "0 \<le> from"
  shows "from + 7 * ms_per_day \<le> interval_run f from"
proof (cases f)
  case Monthly
  let ?k = "month_index (day_of from)"
  have "day_of from + 7 \<le> month_first (?k + 1) + min (utc_date from) (days_in (?k + 1)) - 1"
    using month_first_next [of ?k] days_in_bounds [of ?k] days_in_bounds [of "?k + 1"] utc_date_bounds [of "from"]
    by (simp add: utc_date_def min_def)
  then show ?thesis
    using day_time [of "from"] by (simp add: Monthly interval_run_def add_month_day [OF assms] ms_per_day_def)
qed (simp_all add: interval_run_def set_utc_date_day ms_per_day_def)

lemma pin_hour_later:
  assumes "0 \<le> t" "pinned_hour d = h"
  shows "t - ms_per_day < pin_hour h t"
proof (cases h)
  case (Some n)
  then have "0 \<le> n" using within_bounds assms(2) by (auto simp: pinned_hour_def)
  moreover have "date_utc (utc_year (kst_parts t)) (utc_month (kst_parts t)) (utc_date (kst_parts t)) n
      = day_of (kst_parts t) * ms_per_day + n * 3600000"
    using date_utc_day [OF kst_epoch [OF assms(1)], of 0 n] by simp
  ultimately show ?thesis
    using day_span [of "kst_parts t"] by (simp add: Some pin_hour_def Let_def kst_parts_def algebra_simps)
qed (simp add: pin_hour_def ms_per_day_def)

section \<open>Properties of the next run\<close>

definition requested_hour :: "schedule_detail \<Rightarrow> int" where
  "requested_hour d = (case pinned_hour d of None \<Rightarrow> 0 | Some h \<Rightarrow> h)"

lemma requested_hour_time: "0 \<le> requested_hour d * 3600000" "requested_hour d * 3600000 < ms_per_day"
  using hour_time [of "requested_hour d"] default_hour [of d] by (auto simp: requested_hour_def)

lemma weekday_run_first:
  assumes "0 \<le> from" "0 \<le> w" "w \<le> 6"
  shows "first_after (kst_weekday_slot w (requested_hour d)) from (weekday_run Weekly w (requested_hour d) from)"
    "weekday_run Biweekly w (requested_hour d) from = weekday_run Weekly w (requested_hour d) from + 7 * ms_per_day"
proof -
  let ?now = "kst_parts from" and ?H = "requested_hour d * 3600000"
  let ?c = "(day_of ?now + (w - utc_weekday ?now + 7) mod 7) * ms_per_day + ?H"
  have c: "date_utc (utc_year ?now) (utc_month ?now) (utc_date ?now + (w - utc_weekday ?now + 7) mod 7) (requested_hour d) = ?c"
    by (rule date_utc_day [OF kst_epoch [OF assms(1)]])
  have run: "weekday_run Weekly w (requested_hour d) from
      = (if ?c \<le> ?now then ?c + 7 * ms_per_day else ?c) - KST_OFFSET_MS"
    unfolding weekday_run_def Let_def c by (auto simp: kst_parts_def ms_per_day_def)
  show "first_after (kst_weekday_slot w (requested_hour d)) from (weekday_run Weekly w (requested_hour d) from)"
    unfolding run using first_after_kst [OF weekday_first [OF assms(2,3) requested_hour_time [of d], of ?now]]
    by (simp add: kst_weekday_slot_def [abs_def])
  show "weekday_run Biweekly w (requested_hour d) from = weekday_run Weekly w (requested_hour d) from + 7 * ms_per_day"
    by (simp add: weekday_run_def Let_def ms_per_day_def)
qed

lemma month_day_run_first:
  assumes "0 \<le> from" "1 \<le> p" "p \<le> 28"
  shows "first_after (kst_month_slot p (requested_hour d)) from (month_day_run p (requested_hour d) from)"
proof -
  let ?now = "kst_parts from" and ?H = "requested_hour d * 3600000"
  let ?c = "\<lambda>k. (month_first k + p - 1) * ms_per_day + ?H" and ?k = "month_index (day_of (kst_parts from))"
  have c: "date_utc (utc_year ?now) (utc_month ?now + j) p (requested_hour d) = ?c (?k + j)" for j
    by (rule date_utc_same_month [OF kst_epoch [OF assms(1)]])
  have run: "month_day_run p (requested_hour d) from = (if ?c ?k \<le> ?now then ?c (?k + 1) else ?c ?k) - KST_OFFSET_MS"
    unfolding month_day_run_def Let_def c [of 1] using c [of 0] by (auto simp: kst_parts_def)
  show ?thesis
    unfolding run using first_after_kst [OF month_day_first [OF assms(2,3) requested_hour_time [of d], of ?now]]
    by (simp add: kst_month_slot_def [abs_def])
qed

lemma compute_partner:
  assumes "partner f d = Some p"
  shows "compute_next_run f from d =
    (if f = Monthly then month_day_run p (requested_hour d) from else weekday_run f p (requested_hour d) from)"
    "f \<noteq> Monthly \<Longrightarrow> 0 \<le> p \<and> p \<le> 6" "f = Monthly \<Longrightarrow> 1 \<le> p \<and> p \<le> 28"
  using assms within_bounds [of 0 6 "sd_day_of_week d" p] within_bounds [of 1 28 "sd_day_of_month d" p]
  by (auto simp: compute_next_run_def requested_hour_def partner_def Let_def split: if_splits)

text \<open>
  C26. With a weekday the weekly run is the first instant after now that falls on that weekday
  and on the requested hour (midnight by default) of the Korean wall clock; the biweekly run is
  exactly a week after that instant.
\<close>

theorem weekly_run_is_next_slot:
  assumes "0 \<le> from" "partner f d = Some w" "f \<noteq> Monthly"
  shows "first_after (kst_weekday_slot w (requested_hour d)) from
           (compute_next_run f from d - (if f = Biweekly then 7 * ms_per_day else 0))"
proof -
  note w = compute_partner(2) [OF assms(2,3)]
  have "f = Weekly \<or> f = Biweekly" using assms(3) by (cases f) auto
  then show ?thesis
    using weekday_run_first [OF assms(1), of w d] w by (auto simp: compute_partner(1) [OF assms(2)])
qed

definition tuesday_nine :: schedule_detail where
  "tuesday_nine = \<lparr>sd_day_of_week = Some 2, sd_day_of_month = None, sd_hour = Some 9\<rparr>"

text \<open>1970-01-01 was a Thursday; the next Tuesday 09:00 in Korea is 1970-01-06 00:00 UTC.\<close>

theorem weekly_run_is_next_slot_witness:
  "first_after (kst_weekday_slot 2 9) 0 (compute_next_run Weekly 0 tuesday_nine)
   \<and> compute_next_run Weekly 0 tuesday_nine = 5 * ms_per_day"
proof -
  have "partner Weekly tuesday_nine = Some 2" "requested_hour tuesday_nine = 9" by code_simp+
  then have "first_after (kst_weekday_slot 2 9) 0 (compute_next_run Weekly 0 tuesday_nine)"
    using weekly_run_is_next_slot [of 0 Weekly tuesday_nine 2] by simp
  moreover have "compute_next_run Weekly 0 tuesday_nine = 5 * ms_per_day" by code_simp
  ultimately show ?thesis ..
qed

text \<open>
  With a day of the month the monthly run is the first instant after now on that day and the
  requested hour of the Korean wall clock, across month ends, leap days and the turn of the year.
\<close>

theorem monthly_run_is_next_slot:
  assumes "0 \<le> from" "partner Monthly d = Some p"
  shows "first_after (kst_month_slot p (requested_hour d)) from (compute_next_run Monthly from d)"
  using month_day_run_first [OF assms(1)] compute_partner [OF assms(2)] by simp

definition first_of_month :: schedule_detail where
  "first_of_month = \<lparr>sd_day_of_week = None, sd_day_of_month = Some 1, sd_hour = None\<rparr>"

theorem monthly_run_is_next_slot_witness:
  "first_after (kst_month_slot 1 0) (30 * ms_per_day) (compute_next_run Monthly (30 * ms_per_day) first_of_month)"
proof -
  have "partner Monthly first_of_month = Some 1" "requested_hour first_of_month = 0" "0 \<le> 30 * ms_per_day" by code_simp+
  then show ?thesis using monthly_run_is_next_slot [of "30 * ms_per_day" first_of_month 1] by simp
qed

text \<open>
  Whatever the frequency and the details, the next run lies strictly in the future.
\<close>

theorem next_run_is_future:
  assumes "0 \<le> from"
  shows "from < compute_next_run f from d"
proof (cases "partner f d")
  case None
  have "0 \<le> interval_run f from" "from + 7 * ms_per_day \<le> interval_run f from"
    using interval_run_later [OF assms, of f] assms by (simp_all add: ms_per_day_def)
  then show ?thesis
    using pin_hour_later [of "interval_run f from" d] by (simp add: compute_next_run_def None ms_per_day_def)
next
  case (Some p)
  then show ?thesis
  proof (cases "f = Monthly")
    case True
    then show ?thesis
      using month_day_run_first [OF assms] compute_partner [OF Some] by (simp add: first_after_def)
  next
    case False
    then have "f = Weekly \<or> f = Biweekly" by (cases f) auto
    then show ?thesis
      using weekday_run_first [OF assms, of p d] compute_partner [OF Some]
      by (auto simp: first_after_def ms_per_day_def)
  qed
qed

theorem next_run_is_future_witness: "0 < compute_next_run Monthly 0 tuesday_nine"
  by (rule next_run_is_future) simp

text \<open>
  Without details the monthly interval keeps the time of day and moves to the next month, on the
  same date or on that month's last day when it is shorter.
\<close>

theorem monthly_interval_clamps:
  assumes "0 \<le> from" "partner Monthly d = None" "pinned_hour d = None"
  shows "month_index (day_of (compute_next_run Monthly from d)) = month_index (day_of from) + 1
       \<and> utc_date (compute_next_run Monthly from d) = min (utc_date from) (days_in (month_index (day_of from) + 1))
       \<and> time_in_day (compute_next_run Monthly from d) = time_in_day from"
proof -
  let ?k = "month_index (day_of from)"
  let ?D = "month_first (?k + 1) + min (utc_date from) (days_in (?k + 1)) - 1"
  have "month_index ?D = ?k + 1"
    using utc_date_bounds [of "from"] days_in_bounds [of "?k + 1"] by (intro month_index_eq) auto
  moreover have "compute_next_run Monthly from d = ?D * ms_per_day + time_in_day from"
    using add_month_day [OF assms(1)] assms(2,3) by (simp add: compute_next_run_def interval_run_def pin_hour_def)
  ultimately show ?thesis
    using fields_of_day [OF _ time_in_day_bounds [of "from"], of ?D "?k + 1"] by simp
qed

section \<open>The table\<close>

record schedule_config =
  sc_tier :: "string option"
  sc_model :: "string option"
  sc_lang :: "string option"
  sc_detail :: schedule_detail

record schedule_row =
  rs_user :: string
  rs_type :: schedule_freq
  rs_enabled :: bool
  rs_next :: int
  rs_last :: "int option"
  rs_config :: "schedule_config option"
  rs_updated :: int

record diagnosis_schedule =
  ds_type :: schedule_freq
  ds_enabled :: bool
  ds_tier :: string
  ds_model :: "string option"
  ds_lang :: "string option"
  ds_detail :: schedule_detail
  ds_next :: "int option"
  ds_last :: "int option"

definition no_detail :: schedule_detail where
  "no_detail = \<lparr>sd_day_of_week = None, sd_day_of_month = None, sd_hour = None\<rparr>"

definition empty_config :: schedule_config where
  "empty_config = \<lparr>sc_tier = None, sc_model = None, sc_lang = None, sc_detail = no_detail\<rparr>"

definition map_row :: "schedule_row \<Rightarrow> diagnosis_schedule" where
  "map_row r =
     (let cfg = (case rs_config r of None \<Rightarrow> empty_config | Some c \<Rightarrow> c) in
      \<lparr>ds_type = rs_type r, ds_enabled = rs_enabled r,
       ds_tier = (case sc_tier cfg of None \<Rightarrow> ''mid'' | Some t \<Rightarrow> t),
       ds_model = sc_model cfg, ds_lang = sc_lang cfg, ds_detail = sc_detail cfg,
       ds_next = Some (rs_next r), ds_last = rs_last r\<rparr>)"

text \<open>
  \<open>ORDER BY enabled DESC, updated_at DESC LIMIT 1\<close>. On a tie the database returns any of the
  first rows: \<open>read_candidates\<close> lists those it may return, and \<open>read_schedule\<close> is told by
  \<open>pick\<close> which one it does.
\<close>

definition sorts_before :: "schedule_row \<Rightarrow> schedule_row \<Rightarrow> bool" where
  "sorts_before r s \<longleftrightarrow> (rs_enabled r \<and> \<not> rs_enabled s) \<or> (rs_enabled r = rs_enabled s \<and> rs_updated s \<le> rs_updated r)"

definition rows_of :: "string \<Rightarrow> schedule_row list \<Rightarrow> schedule_row list" where
  "rows_of u rows = filter (\<lambda>r. rs_user r = u) rows"

definition read_candidates :: "string \<Rightarrow> schedule_row list \<Rightarrow> schedule_row list" where
  "read_candidates u rows = filter (\<lambda>r. list_all (sorts_before r) (rows_of u rows)) (rows_of u rows)"

definition read_schedule :: "(schedule_row list \<Rightarrow> nat) \<Rightarrow> string \<Rightarrow> schedule_row list \<Rightarrow> diagnosis_schedule option" where
  "read_schedule pick u rows =
     (let cs = read_candidates u rows in
      if cs = [] then None else Some (map_row (cs ! (pick cs mod length cs))))"

record schedule_input =
  in_type :: schedule_freq
  in_enabled :: bool
  in_tier :: "string option"
  in_model :: "string option"
  in_lang :: "string option"
  in_detail :: schedule_detail

definition config_of :: "schedule_input \<Rightarrow> schedule_config" where
  "config_of i =
     \<lparr>sc_tier = Some (case in_tier i of None \<Rightarrow> ''mid'' | Some t \<Rightarrow> t), sc_model = in_model i,
      sc_lang = (if in_lang i = Some [] then None else in_lang i), sc_detail = in_detail i\<rparr>"

text \<open>The trigger of the table stamps every updated row with the transaction's start.\<close>

definition disable_others :: "string \<Rightarrow> schedule_freq \<Rightarrow> int \<Rightarrow> schedule_row list \<Rightarrow> schedule_row list" where
  "disable_others u f now rows =
     map (\<lambda>r. if rs_user r = u \<and> rs_type r \<noteq> f then r\<lparr>rs_enabled := False, rs_updated := now\<rparr> else r) rows"

definition replace_row :: "schedule_row \<Rightarrow> schedule_row \<Rightarrow> schedule_row" where
  "replace_row x r = r\<lparr>rs_enabled := rs_enabled x, rs_next := rs_next x, rs_config := rs_config x, rs_updated := rs_updated x\<rparr>"

definition row_key :: "schedule_row \<Rightarrow> string \<times> schedule_freq" where
  "row_key r = (rs_user r, rs_type r)"

definition upsert_row :: "schedule_row \<Rightarrow> schedule_row list \<Rightarrow> schedule_row list" where
  "upsert_row x rows =
     (if row_key x \<in> row_key ` set rows
      then map (\<lambda>r. if row_key r = row_key x then replace_row x r else r) rows
      else rows @ [x])"

definition new_schedule_row :: "string \<Rightarrow> int \<Rightarrow> schedule_input \<Rightarrow> schedule_row" where
  "new_schedule_row u now i =
     \<lparr>rs_user = u, rs_type = in_type i, rs_enabled = in_enabled i,
      rs_next = compute_next_run (in_type i) now (in_detail i), rs_last = None,
      rs_config = Some (config_of i), rs_updated = now\<rparr>"

definition save_rows :: "string \<Rightarrow> int \<Rightarrow> schedule_input \<Rightarrow> schedule_row list \<Rightarrow> schedule_row list" where
  "save_rows u now i rows = upsert_row (new_schedule_row u now i) (disable_others u (in_type i) now rows)"

record db_failure =
  df_code :: string
  df_constraint :: string

datatype save_error = Slot_Taken | Db_Error db_failure

definition slot_failure :: "db_failure \<Rightarrow> bool" where
  "slot_failure e \<longleftrightarrow> (df_code e = ''23505'' \<and> contains ''one_active'' (df_constraint e))
     \<or> df_code e = ''40P01'' \<or> df_code e = ''40001''"

text \<open>
  \<open>upsertSchedule\<close>: \<open>failure\<close> is the error of the first statement of the transaction that fails,
  if any; the transaction is then rolled back.
\<close>

definition upsert_schedule ::
  "db_failure option \<Rightarrow> string \<Rightarrow> int \<Rightarrow> schedule_input \<Rightarrow> schedule_row list
   \<Rightarrow> (save_error + diagnosis_schedule) \<times> schedule_row list" where
  "upsert_schedule failure u now i rows = (case failure of
      Some e \<Rightarrow> (Inl (if slot_failure e then Slot_Taken else Db_Error e), rows)
    | None \<Rightarrow>
        let rows' = save_rows u now i rows in
        (case find (\<lambda>r. rs_user r = u \<and> rs_type r = in_type i) rows' of
           Some r \<Rightarrow> (Inr (map_row r), rows')
         | None \<Rightarrow> (Inr (map_row (new_schedule_row u now i)), rows')))"

section \<open>The handler\<close>

datatype schedule_reply =
    Message nat string
  | Schedule_Reply "diagnosis_schedule option"
  | Failed_Write db_failure

fun freq_of :: "js \<Rightarrow> schedule_freq option" where
  "freq_of (JStr s) =
     (if s = ''weekly'' then Some Weekly else if s = ''biweekly'' then Some Biweekly
      else if s = ''monthly'' then Some Monthly else None)"
| "freq_of _ = None"

fun int_in :: "js \<Rightarrow> int \<Rightarrow> int \<Rightarrow> int option" where
  "int_in (JNum n) lo hi = (if lo \<le> n \<and> n \<le> hi then Some n else None)"
| "int_in _ lo hi = None"

fun string_in :: "js \<Rightarrow> string list \<Rightarrow> string option" where
  "string_in (JStr s) xs = (if s \<in> set xs then Some s else None)"
| "string_in _ xs = None"

definition invalid_field :: "js \<Rightarrow> bool \<Rightarrow> bool" where
  "invalid_field v ok \<longleftrightarrow> v \<noteq> JUndef \<and> \<not> ok"

definition schedule_detail_of :: "js \<Rightarrow> schedule_detail" where
  "schedule_detail_of b = \<lparr>sd_day_of_week = int_in (attr b ''dayOfWeek'') 0 6,
     sd_day_of_month = int_in (attr b ''dayOfMonth'') 1 28, sd_hour = int_in (attr b ''hour'') 0 23\<rparr>"

definition put_input :: "js \<Rightarrow> (nat \<times> string) + schedule_input" where
  "put_input b = (case freq_of (attr b ''scheduleType'') of
      None \<Rightarrow> Inl (400, ''invalid frequency'')
    | Some f \<Rightarrow>
        if invalid_field (attr b ''lang'') (string_in (attr b ''lang'') [''ko'', ''en'', ''zh'', ''ja''] \<noteq> None)
        then Inl (400, ''invalid lang (ko|en|zh|ja)'')
        else if invalid_field (attr b ''dayOfWeek'') (int_in (attr b ''dayOfWeek'') 0 6 \<noteq> None \<and> f \<noteq> Monthly)
        then Inl (400, ''invalid dayOfWeek (0-6, weekly/biweekly only)'')
        else if invalid_field (attr b ''dayOfMonth'') (int_in (attr b ''dayOfMonth'') 1 28 \<noteq> None \<and> f = Monthly)
        then Inl (400, ''invalid dayOfMonth (1-28, monthly only)'')
        else if invalid_field (attr b ''hour'') (int_in (attr b ''hour'') 0 23 \<noteq> None)
        then Inl (400, ''invalid hour (0-23, KST)'')
        else Inr \<lparr>in_type = f, in_enabled = (attr b ''enabled'' = JBool True),
          in_tier = Some (case string_in (attr b ''tier'') [''light'', ''mid'', ''deep''] of None \<Rightarrow> ''mid'' | Some t \<Rightarrow> t),
          in_model = (case attr b ''model'' of JStr m \<Rightarrow> Some m | _ \<Rightarrow> None),
          in_lang = string_in (attr b ''lang'') [''ko'', ''en'', ''zh'', ''ja''],
          in_detail = schedule_detail_of b\<rparr>)"

definition put_schedule ::
  "user option \<Rightarrow> body_error + js \<Rightarrow> db_failure option \<Rightarrow> int \<Rightarrow> schedule_row list \<Rightarrow> schedule_reply \<times> schedule_row list" where
  "put_schedule user body failure now rows = (case user of
      None \<Rightarrow> (Message 401 ''unauthenticated'', rows)
    | Some u \<Rightarrow>
        if body = Inl Body_Too_Large then (Message 413 ''request body too large'', rows)
        else (case put_input (case body of Inl _ \<Rightarrow> JObj [] | Inr b \<Rightarrow> b) of
            Inl (status, e) \<Rightarrow> (Message status e, rows)
          | Inr i \<Rightarrow> (case upsert_schedule failure (u_sub u) now i rows of
                (Inl Slot_Taken, rows') \<Rightarrow>
                  (Message 409 ''another write is holding this user's active schedule slot; retry in a moment'', rows')
              | (Inl (Db_Error e), rows') \<Rightarrow> (Failed_Write e, rows')
              | (Inr s, rows') \<Rightarrow> (Schedule_Reply (Some s), rows'))))"

definition disabled_default :: diagnosis_schedule where
  "disabled_default = \<lparr>ds_type = Weekly, ds_enabled = False, ds_tier = ''mid'', ds_model = None, ds_lang = None,
     ds_detail = no_detail, ds_next = None, ds_last = None\<rparr>"

definition get_schedule :: "(schedule_row list \<Rightarrow> nat) \<Rightarrow> user option \<Rightarrow> schedule_row list \<Rightarrow> schedule_reply" where
  "get_schedule pick user rows = (case user of
      None \<Rightarrow> Message 401 ''unauthenticated''
    | Some u \<Rightarrow> Schedule_Reply (Some (case read_schedule pick (u_sub u) rows of None \<Rightarrow> disabled_default | Some s \<Rightarrow> s)))"

section \<open>One active schedule per user\<close>

definition rows_ok :: "schedule_row list \<Rightarrow> bool" where
  "rows_ok rows \<longleftrightarrow> distinct (map row_key rows)"

definition active_rows :: "string \<Rightarrow> schedule_row list \<Rightarrow> schedule_row list" where
  "active_rows u rows = filter rs_enabled (rows_of u rows)"

lemma keys_disable_others: "map row_key (disable_others u f now rows) = map row_key rows"
  by (simp add: disable_others_def row_key_def)

lemma keys_upsert_row:
  "map row_key (upsert_row x rows) = map row_key rows \<or>
   row_key x \<notin> row_key ` set rows \<and> map row_key (upsert_row x rows) = map row_key rows @ [row_key x]"
  by (auto simp: upsert_row_def replace_row_def row_key_def)

lemma rows_ok_save:
  assumes "rows_ok rows"
  shows "rows_ok (save_rows u now i rows)"
proof -
  have "distinct (map row_key (disable_others u (in_type i) now rows))"
    using assms unfolding keys_disable_others by (simp add: rows_ok_def)
  then show ?thesis
    using keys_upsert_row [of "new_schedule_row u now i" "disable_others u (in_type i) now rows"]
    by (auto simp: rows_ok_def save_rows_def)
qed

lemma replace_row_key: "row_key r = row_key x \<Longrightarrow> replace_row x r = x\<lparr>rs_last := rs_last r\<rparr>"
  by (cases r; cases x) (simp add: replace_row_def row_key_def)

lemma rows_of_map: "(\<And>r. rs_user (f r) = rs_user r) \<Longrightarrow> (\<And>r. rs_user r = v \<Longrightarrow> f r = r) \<Longrightarrow> rows_of v (map f rows) = rows_of v rows"
  by (induction rows) (auto simp: rows_of_def)

lemma other_users_save:
  assumes "v \<noteq> u"
  shows "rows_of v (save_rows u now i rows) = rows_of v rows"
proof -
  have "rows_of v (disable_others u f now rows) = rows_of v rows" for f
    unfolding disable_others_def using assms by (intro rows_of_map) auto
  moreover have "rows_of v (upsert_row (new_schedule_row u now i) rs) = rows_of v rs" for rs
  proof (cases "row_key (new_schedule_row u now i) \<in> row_key ` set rs")
    case True
    then have "rows_of v (upsert_row (new_schedule_row u now i) rs)
        = rows_of v (map (\<lambda>r. if row_key r = row_key (new_schedule_row u now i) then replace_row (new_schedule_row u now i) r else r) rs)"
      by (simp add: upsert_row_def)
    also have "\<dots> = rows_of v rs"
      using assms by (intro rows_of_map) (auto simp: row_key_def new_schedule_row_def replace_row_def)
    finally show ?thesis .
  next
    case False
    then show ?thesis using assms by (simp add: upsert_row_def rows_of_def new_schedule_row_def)
  qed
  ultimately show ?thesis by (simp add: save_rows_def)
qed

definition saved_row :: "string \<Rightarrow> int \<Rightarrow> schedule_input \<Rightarrow> int option \<Rightarrow> schedule_row" where
  "saved_row u now i l = (new_schedule_row u now i)\<lparr>rs_last := l\<rparr>"

lemma saved_row_attrs [simp]:
  "rs_user (saved_row u now i l) = u" "rs_type (saved_row u now i l) = in_type i"
  "rs_enabled (saved_row u now i l) = in_enabled i" "row_key (saved_row u now i l) = (u, in_type i)"
  "row_key (new_schedule_row u now i) = (u, in_type i)" "rs_user (new_schedule_row u now i) = u" "rs_type (new_schedule_row u now i) = in_type i"
  by (simp_all add: saved_row_def new_schedule_row_def row_key_def)

lemma upsert_row_cases:
  assumes "r \<in> set (upsert_row (new_schedule_row u now i) rs)"
  obtains (saved) l where "r = saved_row u now i l" | (other) "r \<in> set rs" "row_key r \<noteq> (u, in_type i)"
proof (cases "row_key r = (u, in_type i)")
  case False
  then have "r \<in> set rs"
    using assms by (auto simp: upsert_row_def replace_row_def row_key_def split: if_splits)
  then show thesis using False by (rule other)
next
  case True
  have "\<exists>l. r = saved_row u now i l"
  proof (cases "row_key (new_schedule_row u now i) \<in> row_key ` set rs")
    case True
    with assms have "r \<in> (\<lambda>r0. if row_key r0 = row_key (new_schedule_row u now i) then replace_row (new_schedule_row u now i) r0 else r0) ` set rs"
      by (simp only: upsert_row_def if_True set_map)
    then obtain r0 where "r = (if row_key r0 = row_key (new_schedule_row u now i) then replace_row (new_schedule_row u now i) r0 else r0)"
      by blast
    with \<open>row_key r = (u, in_type i)\<close> show ?thesis
      by (cases "row_key r0 = row_key (new_schedule_row u now i)") (auto simp: replace_row_key saved_row_def)
  next
    case False
    then have "r = new_schedule_row u now i"
      using assms True by (auto simp: upsert_row_def image_iff)
    moreover have "new_schedule_row u now i = saved_row u now i None" by (simp add: saved_row_def new_schedule_row_def)
    ultimately show ?thesis by blast
  qed
  then show thesis using saved by blast
qed

text \<open>Every row of the user is either the saved one or disabled in the same transaction.\<close>

lemma save_row_cases:
  assumes "r \<in> set (save_rows u now i rows)" "rs_user r = u"
  shows "(rs_type r = in_type i \<and> (\<exists>l. r = saved_row u now i l)) \<or> (rs_type r \<noteq> in_type i \<and> \<not> rs_enabled r)"
  using assms(1) unfolding save_rows_def
proof (cases rule: upsert_row_cases)
  case other
  from other(1) obtain r0 where r0: "r = (if rs_user r0 = u \<and> rs_type r0 \<noteq> in_type i
      then r0\<lparr>rs_enabled := False, rs_updated := now\<rparr> else r0)"
    unfolding disable_others_def set_map by blast
  show ?thesis
    using other(2) assms(2) by (cases "rs_user r0 = u \<and> rs_type r0 \<noteq> in_type i") (simp_all add: r0 row_key_def)
qed auto

lemma save_has_row: "\<exists>l. saved_row u now i l \<in> set (save_rows u now i rows)"
proof -
  have "row_key (new_schedule_row u now i) \<in> set (map row_key (upsert_row (new_schedule_row u now i) rs))" for rs
  proof (cases "row_key (new_schedule_row u now i) \<in> row_key ` set rs")
    case True
    then have "row_key (new_schedule_row u now i) \<in> set (map row_key rs)" by simp
    then show ?thesis using keys_upsert_row [of "new_schedule_row u now i" rs] by auto
  qed (simp add: upsert_row_def)
  then have "(u, in_type i) \<in> row_key ` set (save_rows u now i rows)" by (simp add: save_rows_def)
  then obtain r where r: "r \<in> set (save_rows u now i rows)" "rs_user r = u" "rs_type r = in_type i"
    by (auto simp: row_key_def)
  from save_row_cases [OF r(1,2)] r(3) obtain l where "r = saved_row u now i l" by auto
  with r(1) show ?thesis by auto
qed

lemma filter_one:
  assumes "distinct (map f xs)" "x \<in> set xs" "P x" "\<And>y. y \<in> set xs \<Longrightarrow> P y \<Longrightarrow> f y = f x"
  shows "filter P xs = [x]"
  using assms
proof (induction xs)
  case (Cons y ys)
  have new: "f y \<notin> f ` set ys" using Cons.prems(1) by simp
  show ?case
  proof (cases "y = x")
    case True
    have "\<not> P z" if "z \<in> set ys" for z
      using new Cons.prems(4) [of z] imageI [OF that, of f] that True by fastforce
    then show ?thesis using True Cons.prems(3) by (simp add: filter_empty_conv)
  next
    case False
    then have x: "x \<in> set ys" using Cons.prems(2) by simp
    then have "\<not> P y" using new Cons.prems(4) [of y] by auto
    then show ?thesis using Cons.IH [OF _ x Cons.prems(3)] Cons.prems(1,4) by simp
  qed
qed simp

lemma distinct_types: "rows_ok rows \<Longrightarrow> distinct (map rs_type (rows_of u rows))"
  by (induction rows) (auto simp: rows_ok_def rows_of_def row_key_def image_iff)

lemma saved_active:
  assumes "rows_ok rows" "saved_row u now i l \<in> set (save_rows u now i rows)"
  shows "active_rows u (save_rows u now i rows) = (if in_enabled i then [saved_row u now i l] else [])"
proof -
  let ?rows = "rows_of u (save_rows u now i rows)"
  have member: "saved_row u now i l \<in> set ?rows"
    using assms(2) by (simp add: rows_of_def)
  have enabled: "rs_type r = in_type i \<and> in_enabled i" if "r \<in> set ?rows" "rs_enabled r" for r
    using save_row_cases [of r u now i rows] that by (auto simp: rows_of_def)
  show ?thesis
  proof (cases "in_enabled i")
    case True
    then have "filter rs_enabled ?rows = [saved_row u now i l]"
      using member enabled distinct_types [OF rows_ok_save [OF assms(1)]]
      by (intro filter_one [of rs_type]) auto
    with True show ?thesis by (simp add: active_rows_def)
  next
    case False
    then show ?thesis using enabled by (auto simp: active_rows_def filter_empty_conv)
  qed
qed

text \<open>
  Saving a schedule leaves the user with exactly the one they asked for: the saved row is
  the user's only active one if it is enabled, and none is active otherwise, however many
  were active before; no other user's rows change, and rows stay unique per user and frequency.
\<close>

theorem save_leaves_one_active:
  assumes "rows_ok rows"
  shows "(\<exists>l. active_rows u (save_rows u now i rows) = (if in_enabled i then [saved_row u now i l] else []))
       \<and> (\<forall>v. v = u \<or> rows_of v (save_rows u now i rows) = rows_of v rows)
       \<and> rows_ok (save_rows u now i rows)"
proof (intro conjI allI)
  obtain l where "saved_row u now i l \<in> set (save_rows u now i rows)" using save_has_row by blast
  from saved_active [OF assms this]
  show "\<exists>l. active_rows u (save_rows u now i rows) = (if in_enabled i then [saved_row u now i l] else [])" ..
  show "v = u \<or> rows_of v (save_rows u now i rows) = rows_of v rows" for v
    using other_users_save by blast
qed (rule rows_ok_save [OF assms])

definition weekly_input :: schedule_input where
  "weekly_input = \<lparr>in_type = Weekly, in_enabled = True, in_tier = None, in_model = None, in_lang = None, in_detail = tuesday_nine\<rparr>"

definition monthly_row :: schedule_row where
  "monthly_row = \<lparr>rs_user = ''u1'', rs_type = Monthly, rs_enabled = True, rs_next = 0, rs_last = None, rs_config = None, rs_updated = 1\<rparr>"

theorem save_leaves_one_active_witness:
  "length (active_rows ''u1'' (save_rows ''u1'' 0 weekly_input [monthly_row])) = 1"
proof -
  have "rows_ok [monthly_row]" by (simp add: rows_ok_def)
  from save_leaves_one_active [OF this, of "''u1''" 0 weekly_input] show ?thesis
    by (auto simp: weekly_input_def)
qed

lemma find_filter_hd: "filter P xs = x # ys \<Longrightarrow> find P xs = Some x"
  by (induction xs) (auto split: if_splits)

lemma active_candidates:
  assumes "filter rs_enabled rs = [x]"
  shows "filter (\<lambda>r. list_all (sorts_before r) rs) rs = [x]"
proof -
  have "set (filter rs_enabled rs) = {x}" by (simp only: assms list.set)
  then have x: "x \<in> set rs" "rs_enabled x" by auto
  have others: "\<not> rs_enabled r \<or> r = x" if "r \<in> set rs" for r
    using \<open>set (filter rs_enabled rs) = {x}\<close> that by auto
  have "list_all (sorts_before r) rs \<longleftrightarrow> rs_enabled r" if "r \<in> set rs" for r
  proof
    assume "list_all (sorts_before r) rs"
    then have "sorts_before r x" using x(1) by (simp add: list_all_iff)
    then show "rs_enabled r" using x(2) by (auto simp: sorts_before_def)
  next
    assume "rs_enabled r"
    then have "r = x" using others [OF that] by blast
    then show "list_all (sorts_before r) rs" using others x(2) by (auto simp: list_all_iff sorts_before_def)
  qed
  then have "filter (\<lambda>r. list_all (sorts_before r) rs) rs = filter rs_enabled rs" by (simp cong: filter_cong)
  then show ?thesis using assms by simp
qed

text \<open>
  An enabled schedule is read back as it was saved: right after a successful save, every
  read of that user returns the schedule the save answered with, whichever row the database
  picks on ties.
\<close>

theorem enabled_save_is_read_back:
  assumes "rows_ok rows" "in_enabled i" "upsert_schedule None u now i rows = (Inr s, rows')"
  shows "read_schedule pick u rows' = Some s"
proof -
  obtain l where l: "saved_row u now i l \<in> set (save_rows u now i rows)" using save_has_row by blast
  have rows': "rows' = save_rows u now i rows"
    using assms(3) by (simp add: upsert_schedule_def Let_def split: option.splits)
  have only: "filter (\<lambda>r. rs_user r = u \<and> rs_type r = in_type i) rows' = [saved_row u now i l]"
    using rows_ok_save [OF assms(1)] l unfolding rows'
    by (intro filter_one [of row_key]) (auto simp: rows_ok_def row_key_def)
  then have "find (\<lambda>r. rs_user r = u \<and> rs_type r = in_type i) rows' = Some (saved_row u now i l)"
    by (metis (no_types, lifting) find_filter_hd)
  then have s: "s = map_row (saved_row u now i l)"
    using assms(3) by (simp add: upsert_schedule_def Let_def flip: rows')
  have active: "filter rs_enabled (rows_of u rows') = [saved_row u now i l]"
    using saved_active [OF assms(1) l] assms(2) by (simp add: active_rows_def rows')
  have "read_candidates u rows' = [saved_row u now i l]"
    using active_candidates [OF active] by (simp add: read_candidates_def)
  then show ?thesis by (simp add: read_schedule_def s)
qed

text \<open>
  A disabled save has no such guarantee: the trigger stamps every row of the user with the same
  time, so the read's order is a tie and may answer with a row of another frequency.
\<close>

theorem disabled_save_may_read_other:
  "\<exists>pick. map_option ds_type (read_schedule pick ''u1''
      (snd (upsert_schedule None ''u1'' 5 (weekly_input\<lparr>in_enabled := False\<rparr>) [monthly_row]))) = Some Monthly"
proof
  show "map_option ds_type (read_schedule (\<lambda>_. 0) ''u1''
      (snd (upsert_schedule None ''u1'' 5 (weekly_input\<lparr>in_enabled := False\<rparr>) [monthly_row]))) = Some Monthly"
    by code_simp
qed

theorem enabled_save_is_read_back_witness:
  "map_option ds_type (read_schedule length ''u1'' (snd (upsert_schedule None ''u1'' 5 weekly_input [monthly_row]))) = Some Weekly"
proof -
  let ?r = "upsert_schedule None ''u1'' 5 weekly_input [monthly_row]"
  obtain s rows' where r: "?r = (Inr s, rows')" "ds_type s = Weekly"
  proof -
    have "(case ?r of (Inr s, _) \<Rightarrow> ds_type s = Weekly | (Inl _, _) \<Rightarrow> False)" by code_simp
    then show thesis using that by (cases ?r) (auto split: sum.splits)
  qed
  have "rows_ok [monthly_row]" "in_enabled weekly_input" by (simp_all add: rows_ok_def weekly_input_def)
  from enabled_save_is_read_back [OF this r(1), of length] show ?thesis by (simp add: r)
qed

end
