(* ===== verification/Spec2Isabelle.thy ===== *)
theory Spec2Isabelle
  imports Datasource_Run Sign_In Jobs_Api Network_Path_Api Diagnosis_Run Trace_Rebuild Graph_Read Path_Graph Remediation Alert_Webhook Admin Sg_Graph Sg_Refresh Revocation Statement_Race Network_Path Incident Ssrf_Guard Sg_Hits Flow_Topology Agent_Resolver Customization Schedule
begin

text \<open>
  Verification development for the AWSops dashboard: the TypeScript web tier under
  \<^verbatim>\<open>src/web\<close> (route handlers under \<^verbatim>\<open>app/api\<close>, libraries under \<^verbatim>\<open>lib\<close>). The tier authenticates
  a user, reads an inventory that collectors keep in PostgreSQL, builds graphs of it, and lets
  administrators configure agents, integrations, datasources, network path checks, diagnoses and
  actions, most of which are handed to Python workers through a job ledger and a queue. Each theory
  below models the files it names, function by function, and proves what those functions promise.
  This root theory imports them all and adds nothing.

  \<^bold>\<open>Conventions.\<close> A JavaScript string is a \<^typ>\<open>string\<close>, one character per code unit below 256. A
  number that the code uses as an integer is \<open>nat\<close> or \<open>int\<close>; the code relies on no wrap-around. A
  thrown error or an early response is a constructor of a sum or option; a handler is a function of
  the request, the answers of the services it calls and the state, and returns the response and the
  state. Where requests interleave, a handler is cut at its calls (\<open>await\<close>) into tasks and an
  inductive relation runs the tasks of any number of requests in any order, with calls that fail;
  the theorems hold in every reachable state. A database transaction is one step, and a statement
  changes a table the way its SQL says. What is not under \<^verbatim>\<open>src/\<close> is an argument: the URL parser,
  SHA-256, HMAC, RSA and JWT checks, \<open>JSON.parse\<close>, the collation behind \<open>localeCompare\<close> and
  \<open>ORDER BY\<close>, the AWS SDK, random identifiers and the clock.

  \<^bold>\<open>The language.\<close> \<open>Js_Prelude\<close>: ordered sets and maps, stable sorting by a comparison (the
  locale \<open>collation\<close>), association lists, and the collections \<open>js_simps\<close> and \<open>guard_defs\<close>. \<open>Js_Values\<close>: strings, decimal numbers and dynamically typed values, with
  round trips of splitting and of \<open>show_nat\<close>. \<open>Js_Json\<close>: quoting, which its reader inverts. \<open>Js_Date\<close>:
  the proleptic calendar of \<open>Date\<close>. \<open>Js_Regex\<close>: backtracking matching whose ends are exactly those
  of the declarative semantics. \<open>Ttl_Cache\<close>: the single-flight cache with expiry that three libraries
  share, over the locale \<open>keyed_store\<close>, which the evicting map provides; and the loop over pages.

  \<^bold>\<open>Who may ask.\<close> \<open>Auth\<close> (\<^verbatim>\<open>lib/auth.ts\<close>): cookie to token to user, ownership of a row. \<open>Revocation\<close>: the
  table of cutoffs and the per-container cache, with bounded staleness over every interleaving.
  \<open>Statement_Race\<close>: a transaction raced against its timer; a pooled connection is disposed of once.
  \<open>Admin\<close> (\<^verbatim>\<open>lib/admin.ts\<close>): the administrator gate and its five-minute cache. \<open>Http_Body\<close>
  (\<^verbatim>\<open>lib/http-body.ts\<close>): bounded bodies. \<open>Ssrf_Guard\<close> (\<^verbatim>\<open>lib/ssrf-guard.ts\<close>): which hosts may be
  registered, in every spelling of an address.

  \<^bold>\<open>Work.\<close> \<open>Jobs\<close> (\<^verbatim>\<open>lib/jobs.ts\<close>): the ledger with its unique keys; what it
  promises is the locale \<open>job_queue\<close>, on which the runs of a path check rest; \<open>Sg_Refresh\<close> and
  \<open>Diagnosis_Run\<close> call it directly.
  \<open>Network_Path\<close>, \<open>Path_Graph\<close> (\<^verbatim>\<open>lib/network-path*.ts\<close>): checks, runs with their snapshot, the graph
  of a run. \<open>Incident_Normalize\<close>, \<open>Incident\<close>, \<open>Alert_Ingress\<close>, \<open>Alert_Webhook\<close> (\<^verbatim>\<open>lib/incident*.ts\<close>,
  \<^verbatim>\<open>lib/sns-verify.ts\<close>, the webhook route): from a signed body to one incident per condition.
  \<open>Remediation\<close> (\<^verbatim>\<open>lib/remediation.ts\<close>, \<^verbatim>\<open>api/actions\<close>): plans, approval by another administrator,
  at most one execution. \<open>Diagnosis\<close>, \<open>Diagnosis_Run\<close>, \<open>Schedule\<close> (\<^verbatim>\<open>lib/diagnosis*.ts\<close> and their
  routes): reports, requests for them, and the recurring ones.

  \<^bold>\<open>Configuration.\<close> \<open>Catalog\<close>, \<open>Customization\<close>, \<open>Agent_Resolver\<close> (\<^verbatim>\<open>lib/catalog*.ts\<close>,
  \<^verbatim>\<open>lib/agent-space.ts\<close>, \<^verbatim>\<open>lib/agent-resolver.ts\<close>, \<^verbatim>\<open>api/customization\<close>): custom agents and skills and
  what an agent may call. \<open>Integrations\<close>, \<open>Egress_Dlp\<close> (\<^verbatim>\<open>lib/integrations.ts\<close>, \<^verbatim>\<open>lib/egress-dlp.ts\<close>):
  outbound channels and what is redacted on the way. \<open>Datasource_Connection\<close>, \<open>Datasource_Store\<close>,
  \<open>Datasource_Run\<close> (\<^verbatim>\<open>lib/datasource-connection.ts\<close>, \<^verbatim>\<open>lib/datasource-auth.ts\<close>,
  \<^verbatim>\<open>lib/datasources.ts\<close>, \<^verbatim>\<open>lib/integration-credentials.ts\<close> and their routes): instances, the shared
  secret, and the merge by which a stored credential only reaches the endpoint it was entered for.

  \<^bold>\<open>Networks.\<close> \<open>Sg_Analysis\<close>, \<open>Sg_Hits\<close>, \<open>Sg_Rules\<close>, \<open>Sg_Refresh\<close>, \<open>Sg_Graph\<close>, \<open>Flow_Sources\<close>
  (\<^verbatim>\<open>lib/sg-*.ts\<close>, \<^verbatim>\<open>api/sg\<close>): attachments and references of security groups, matching of flow-log
  records, the rule listing and its export. \<open>Net_Sources\<close> (\<^verbatim>\<open>lib/ip-inventory.ts\<close>, \<^verbatim>\<open>lib/nfm.ts\<close>).
  \<open>Flow_Resolve\<close>, \<open>Flow_Topology\<close> (\<^verbatim>\<open>lib/flow-topology.ts\<close>): the request-flow graph and its subtrees.
  \<open>Path_Clusters\<close>, \<open>Policy_Graph\<close> (\<^verbatim>\<open>lib/policy-graph.ts\<close>): union-find over path ids and the bounding
  that keeps a path whole.

  \<^bold>\<open>Stored graphs.\<close> \<open>Infra_Topology\<close>, \<open>Graph_Inventory\<close>, \<open>Graph_State\<close>, \<open>Graph_Store\<close>, \<open>Graph_Rebuild\<close>
  (\<^verbatim>\<open>lib/infra-topology.ts\<close>, \<^verbatim>\<open>lib/graph-inventory.ts\<close>, \<^verbatim>\<open>lib/graph-state.ts\<close>, \<^verbatim>\<open>lib/graph-store.ts\<close>): the
  bounded snapshot of an account, the publication of a graph and the rebuild that decides when one
  may replace another. \<open>Trace_Graph\<close>, \<open>Trace_Rebuild\<close> (\<^verbatim>\<open>lib/trace-graph.ts\<close>): the graph of observed
  calls. \<open>Graph_Query\<close>, \<open>Graph_Read\<close> (\<^verbatim>\<open>lib/graph-query.ts\<close>, \<^verbatim>\<open>api/graph\<close>): the recursive query, shown
  equal to the nodes by distance, and the handler.

  \<^bold>\<open>What the lemmas show.\<close> Every component has: its invariant, that the empty state has it and that
  each operation keeps it; what each operation returns on each branch; and, where several operations or two
  components share a contract, a locale interpreted on the code's own definitions (\<open>job_queue\<close>,
  \<open>alert_store\<close>, \<open>named_table\<close>, \<open>upsert_table\<close>, \<open>graph_layer\<close>, \<open>graph_bounder\<close>, \<open>keyed_store\<close>,
  \<open>collation\<close>). The properties, marked C1 to C40, rest on these.
  A property with hypotheses is followed by a witness that applies it to a concrete input.

  \<^bold>\<open>Bounds and termination.\<close> Caps (nodes, edges, bodies, pages, rows, poll attempts) are the constants
  of the code, or arguments where the code takes them; none was chosen for the model, and no
  definition takes fuel. Recursion is structural or has a measure: breadth-first search removes a node
  from a finite rest, an address wrapped in another gets shorter, the recursive query counts its depth
  down, polling its attempts. Three loops that need not end are partial functions, where no result
  stands for a loop that runs on: climbing a parent map (\<open>find_root\<close>, shown to end on every map the
  unions build), and the two readers of pages that follow a service's tokens (\<open>result_pages\<close>,
  \<open>list_pages\<close>).

  \<^bold>\<open>Not modelled.\<close> The pages and components (\<^verbatim>\<open>.tsx\<close>) and the text tables (\<^verbatim>\<open>lib/i18n*.ts\<close>), which
  render; the catalog of inventory types, metrics and columns (\<^verbatim>\<open>lib/inventory-*.ts\<close>,
  \<^verbatim>\<open>lib/metrics.ts\<close>), which is data; the wrappers of AWS and cluster APIs (\<^verbatim>\<open>lib/aws*.ts\<close>, \<^verbatim>\<open>lib/cost.ts\<close>,
  \<^verbatim>\<open>lib/eks*.ts\<close>, \<^verbatim>\<open>lib/anfw*.ts\<close>, \<^verbatim>\<open>lib/dx*.ts\<close>, \<^verbatim>\<open>lib/tgw.ts\<close>, \<^verbatim>\<open>lib/vpce.ts\<close>, \<^verbatim>\<open>lib/dns-logs.ts\<close>), which
  reshape answers of services; streaming, prompts and the choice of a model in the chat, where the result
  is a model's text (\<^verbatim>\<open>api/chat\<close>, \<^verbatim>\<open>lib/classifier.ts\<close>, \<^verbatim>\<open>lib/synthesize.ts\<close>, \<^verbatim>\<open>lib/chat-*.ts\<close>); the
  adapters that fetch spans (\<^verbatim>\<open>lib/trace-source.ts\<close>) and generate queries (\<^verbatim>\<open>lib/datasource-querygen.ts\<close>),
  whose results are arguments of what is modelled; the Python workers and agent tools, the Terraform
  and the scripts, which are other languages or deployment. \<^verbatim>\<open>PROJECT.json\<close> lists every part with its
  status.
\<close>

end
